(* ===== verification/Softcut_Prelude.thy ===== *)
theory Softcut_Prelude
  imports Main "HOL-Library.Log_Nat"
begin

text \<open>
  Shared vocabulary of the development.

  \<^item> \<open>pyexc\<close>: the exceptions the Python code raises or lets through.
  \<^item> \<open>py\<close>: the state-and-exception monad the stateful code is written in. A computation
    takes the state and gives back a result or an exception \<^emph>\<open>together with\<close> the state
    reached, because a Python exception does not undo the mutations made before it.
  \<^item> \<open>keeps\<close>: "every run of this computation, failing or not, preserves I", with one
    introduction rule per monad operation, collected in \<open>keeps_intro\<close>.
  \<^item> Python slices and \<open>for\<close> loops, and the generic list lemmas the components share.
\<close>

section \<open>Proof collections\<close>

named_theorems py_simps
  \<open>evaluation rules of the monad and of the Python primitives\<close>

named_theorems keeps_intro
  \<open>introduction rules for preservation of an invariant by a computation\<close>

section \<open>Exceptions and computations\<close>

text \<open>\<open>Crash\<close> is not an exception: C++ code has left an array, and anything may follow.\<close>

datatype pyexc =
    ValueError | IndexError | KeyError | TypeError | AttributeError | RuntimeError
  | OverflowError | ZeroDivisionError | ImportError | AssertionError | FileNotFoundError
  | FileExistsError | IsADirectoryError | NotADirectoryError
  | WaveError | EOFError | StructError | OSError | LookupError | TimeoutError
  | Crash

type_synonym ('s, 'a) py = "'s \<Rightarrow> (pyexc + 'a) \<times> 's"

definition ret :: "'a \<Rightarrow> ('s, 'a) py" where
  "ret a = (\<lambda>s. (Inr a, s))"

definition raise :: "pyexc \<Rightarrow> ('s, 'a) py" where
  "raise e = (\<lambda>s. (Inl e, s))"

definition bnd :: "('s, 'a) py \<Rightarrow> ('a \<Rightarrow> ('s, 'b) py) \<Rightarrow> ('s, 'b) py" where
  "bnd m k = (\<lambda>s. case m s of (Inl e, s') \<Rightarrow> (Inl e, s') | (Inr a, s') \<Rightarrow> k a s')"

abbreviation seqn :: "('s, 'a) py \<Rightarrow> ('s, 'b) py \<Rightarrow> ('s, 'b) py" where
  "seqn m k \<equiv> bnd m (\<lambda>_. k)"

definition gets :: "('s \<Rightarrow> 'a) \<Rightarrow> ('s, 'a) py" where
  "gets f = (\<lambda>s. (Inr (f s), s))"

definition modify :: "('s \<Rightarrow> 's) \<Rightarrow> ('s, unit) py" where
  "modify f = (\<lambda>s. (Inr (), f s))"

text \<open>A pure computation that may raise, inside a stateful one.\<close>

definition lift :: "pyexc + 'a \<Rightarrow> ('s, 'a) py" where
  "lift r = (\<lambda>s. (r, s))"

text \<open>\<open>if bad: raise e\<close>\<close>

definition guard :: "bool \<Rightarrow> pyexc \<Rightarrow> ('s, unit) py" where
  "guard ok e = (\<lambda>s. (if ok then Inr () else Inl e, s))"

text \<open>\<open>for x in xs: f(x)\<close>, stopping at the first exception.\<close>

fun for_each :: "'a list \<Rightarrow> ('a \<Rightarrow> ('s, unit) py) \<Rightarrow> ('s, unit) py" where
  "for_each [] f = ret ()"
| "for_each (x # xs) f = seqn (f x) (for_each xs f)"

text \<open>Sequencing and looping of pure computations that may raise.\<close>

definition ebind :: "pyexc + 'a \<Rightarrow> ('a \<Rightarrow> pyexc + 'b) \<Rightarrow> pyexc + 'b" where
  "ebind r k = (case r of Inl e \<Rightarrow> Inl e | Inr a \<Rightarrow> k a)"

fun efold :: "('x \<Rightarrow> 'a \<Rightarrow> pyexc + 'a) \<Rightarrow> 'x list \<Rightarrow> 'a \<Rightarrow> pyexc + 'a" where
  "efold f [] a = Inr a"
| "efold f (x # xs) a = ebind (f x a) (efold f xs)"

lemma ebind_simps [simp, py_simps]:
  "ebind (Inl e) k = Inl e" "ebind (Inr a) k = k a"
  by (simp_all add: ebind_def)

lemma ebind_eq_Inr: "ebind r k = Inr b \<longleftrightarrow> (\<exists>a. r = Inr a \<and> k a = Inr b)"
  by (cases r) simp_all

lemma efold_append: "efold f (xs @ ys) a = ebind (efold f xs a) (efold f ys)"
proof (induction xs arbitrary: a)
  case (Cons x xs)
  then show ?case by (cases "f x a") simp_all
qed simp

lemma efold_single [simp]: "efold f [x] a = f x a"
  by (cases "f x a") simp_all

lemma upto_int_upt: "[0..int n - 1] = map int [0..<n]"
  by (rule nth_equalityI) simp_all

lemma ret_apply [py_simps]: "ret a s = (Inr a, s)"
  by (simp add: ret_def)

lemma raise_apply [py_simps]: "raise e s = (Inl e, s)"
  by (simp add: raise_def)

lemma gets_apply [py_simps]: "gets f s = (Inr (f s), s)"
  by (simp add: gets_def)

lemma modify_apply [py_simps]: "modify f s = (Inr (), f s)"
  by (simp add: modify_def)

lemma lift_apply [py_simps]: "lift r s = (r, s)"
  by (simp add: lift_def)

lemma guard_apply [py_simps]: "guard ok e s = (if ok then Inr () else Inl e, s)"
  by (simp add: guard_def)

lemma bnd_Inl [py_simps]: "m s = (Inl e, s') \<Longrightarrow> bnd m k s = (Inl e, s')"
  by (simp add: bnd_def)

lemma bnd_Inr [py_simps]: "m s = (Inr a, s') \<Longrightarrow> bnd m k s = k a s'"
  by (simp add: bnd_def)

lemma bnd_ret [py_simps]: "bnd (ret a) k s = k a s"
  and bnd_gets [py_simps]: "bnd (gets f) h s = h (f s) s"
  and bnd_modify [py_simps]: "bnd (modify g) l s = l () (g s)"
  and bnd_raise [py_simps]: "bnd (raise e) q s = (Inl e, s)"
  by (simp_all add: bnd_def ret_def gets_def modify_def raise_def)

lemma bnd_lift [py_simps]:
  "bnd (lift r) k s = (case r of Inl e \<Rightarrow> (Inl e, s) | Inr a \<Rightarrow> k a s)"
  by (simp add: bnd_def lift_def split: sum.split)

lemma bnd_guard [py_simps]:
  "bnd (guard ok e) k s = (if ok then k () s else (Inl e, s))"
  by (simp add: bnd_def guard_def)

section \<open>Preservation of an invariant\<close>

definition keeps :: "('s \<Rightarrow> bool) \<Rightarrow> ('s, 'a) py \<Rightarrow> bool" where
  "keeps I m \<longleftrightarrow> (\<forall>s. I s \<longrightarrow> I (snd (m s)))"

lemma keepsI [intro?]: "(\<And>s. I s \<Longrightarrow> I (snd (m s))) \<Longrightarrow> keeps I m"
  by (simp add: keeps_def)

lemma keepsD: "keeps I m \<Longrightarrow> I s \<Longrightarrow> I (snd (m s))"
  by (simp add: keeps_def)

lemma keeps_ret [keeps_intro]: "keeps I (ret a)"
  and keeps_raise [keeps_intro]: "keeps I (raise e)"
  and keeps_gets [keeps_intro]: "keeps I (gets f)"
  and keeps_lift [keeps_intro]: "keeps I (lift r)"
  and keeps_guard [keeps_intro]: "keeps I (guard ok e)"
  by (simp_all add: keeps_def py_simps)

lemma keeps_modify [keeps_intro]: "(\<And>s. I s \<Longrightarrow> I (f s)) \<Longrightarrow> keeps I (modify f)"
  by (simp add: keeps_def py_simps)

lemma keeps_bnd [keeps_intro]:
  assumes "keeps I m" and "\<And>a. keeps I (k a)"
  shows "keeps I (bnd m k)"
proof (rule keepsI)
  fix s
  assume s: "I s"
  obtain r s' where ms: "m s = (r, s')"
    by (cases "m s") auto
  with assms(1) s have "I s'"
    by (auto simp: keeps_def)
  then show "I (snd (bnd m k s))"
    using assms(2) ms by (cases r) (auto simp: bnd_def keeps_def)
qed

lemma keeps_for_each [keeps_intro]:
  "(\<And>x. x \<in> set xs \<Longrightarrow> keeps I (f x)) \<Longrightarrow> keeps I (for_each xs f)"
  by (induction xs) (auto intro: keeps_bnd keeps_ret)

lemma keeps_if [keeps_intro]:
  "(b \<Longrightarrow> keeps I m) \<Longrightarrow> (\<not> b \<Longrightarrow> keeps I n) \<Longrightarrow> keeps I (if b then m else n)"
  by simp

lemma keeps_option [keeps_intro]:
  "(x = None \<Longrightarrow> keeps I m) \<Longrightarrow> (\<And>a. x = Some a \<Longrightarrow> keeps I (n a)) \<Longrightarrow>
   keeps I (case x of None \<Rightarrow> m | Some a \<Rightarrow> n a)"
  by (simp split: option.split)

lemma keeps_prod [keeps_intro]:
  "(\<And>a b. x = (a, b) \<Longrightarrow> keeps I (m a b)) \<Longrightarrow> keeps I (case x of (a, b) \<Rightarrow> m a b)"
  by (simp split: prod.split)

lemma for_each_Inr:
  assumes "\<And>x s. x \<in> set xs \<Longrightarrow> I s \<Longrightarrow> \<exists>s'. f x s = (Inr (), s') \<and> I s'"
    and "I s"
  shows "\<exists>s'. for_each xs f s = (Inr (), s') \<and> I s'"
  using assms
proof (induction xs arbitrary: s)
  case Nil
  then show ?case by (simp add: py_simps)
next
  case (Cons x xs)
  then obtain s1 where "f x s = (Inr (), s1)" and "I s1"
    by force
  with Cons show ?case
    by (auto simp: bnd_Inr)
qed

text \<open>A loop whose every step updates the state by a total function is a fold.\<close>

lemma for_each_fold:
  assumes "\<And>x s. x \<in> set xs \<Longrightarrow> f x s = (Inr (), g x s)"
  shows "for_each xs f s = (Inr (), fold g xs s)"
  using assms by (induction xs arbitrary: s) (auto simp: py_simps bnd_Inr)

section \<open>Python sequences\<close>

text \<open>
  The bound of a slice, as \<open>PySlice_AdjustIndices\<close> computes it for step 1: a negative bound
  counts from the end, and both ends are clamped into the sequence.
\<close>

definition slice_bound :: "int \<Rightarrow> int \<Rightarrow> int" where
  "slice_bound len i = (if i < 0 then max 0 (i + len) else min i len)"

text \<open>\<open>xs[a:b]\<close> and \<open>xs[a:]\<close>\<close>

definition py_slice :: "'a list \<Rightarrow> int \<Rightarrow> int \<Rightarrow> 'a list" where
  "py_slice xs a b =
     (let n = int (length xs); lo = slice_bound n a; hi = slice_bound n b
      in take (nat (hi - lo)) (drop (nat lo) xs))"

definition py_slice_from :: "'a list \<Rightarrow> int \<Rightarrow> 'a list" where
  "py_slice_from xs a = drop (nat (slice_bound (int (length xs)) a)) xs"

text \<open>\<open>xs[i]\<close>: a negative index counts from the end, and out of range raises.\<close>

definition py_index :: "nat \<Rightarrow> int \<Rightarrow> pyexc + nat" where
  "py_index len i =
     (let j = (if i < 0 then i + int len else i)
      in if 0 \<le> j \<and> j < int len then Inr (nat j) else Inl IndexError)"

lemma py_index_Inr_less: "py_index n i = Inr j \<Longrightarrow> j < n"
  by (auto simp: py_index_def Let_def split: if_splits)

lemma py_index_nonneg: "0 \<le> i \<Longrightarrow> i < int n \<Longrightarrow> py_index n i = Inr (nat i)"
  by (simp add: py_index_def)

lemma slice_bound_range: "0 \<le> n \<Longrightarrow> 0 \<le> slice_bound n i \<and> slice_bound n i \<le> n"
  by (auto simp: slice_bound_def)

lemma slice_nonneg:
  assumes "0 \<le> a"
  shows "py_slice xs a (a + int n) = take n (drop (nat a) xs)"
proof (cases "a \<le> int (length xs)")
  case True
  with assms show ?thesis
    by (auto simp: py_slice_def slice_bound_def Let_def min_def nat_add_distrib)
next
  case False
  with assms show ?thesis
    by (simp add: py_slice_def slice_bound_def Let_def)
qed

lemma length_slice_le: "length (py_slice xs a b) \<le> length xs"
  by (simp add: py_slice_def Let_def)

section \<open>Lists built from fixed-size pieces\<close>

lemma length_concat_map:
  "(\<And>x. x \<in> set xs \<Longrightarrow> length (f x) = m) \<Longrightarrow> length (concat (map f xs)) = m * length xs"
  by (induction xs) simp_all

lemma nth_concat_map:
  assumes "\<And>x. length (f x) = m" "i < length xs" "j < m"
  shows "concat (map f xs) ! (m * i + j) = f (xs ! i) ! j"
  using assms(2)
proof (induction xs arbitrary: i)
  case Nil
  then show ?case by simp
next
  case (Cons x xs)
  then show ?case
    using assms(1,3) by (cases i) (simp_all add: nth_append algebra_simps)
qed

end
