(* ===== verification/Py_Float.thy ===== *)
theory Py_Float
  imports Complex_Main Softcut_Prelude
begin

text \<open>
  IEEE 754 binary floating point, as Python's \<open>float\<close> (binary64) and the C++ \<open>float\<close> of the
  sample buffers and voice parameters (binary32) use it: round to nearest, ties to even.

  A number is a rational, an infinity or a NaN. The two zeros are one value (nothing
  modelled here divides by a zero it computed or asks for its sign), and NaN payloads are
  not distinguished. \<open>rnd_to p em\<close> rounds a rational to \<open>p\<close> significant bits with
  exponents bounded below by \<open>em\<close> (so subnormals are covered); \<open>rnd F32\<close> and \<open>rnd F64\<close>
  add the overflow to infinity. Every arithmetic operation is the exact one on rationals,
  rounded once, which is what the standard prescribes.

  The locale \<open>float_format\<close> states what is used of a format (at least one bit of precision)
  and proves exactness, symmetry, monotonicity and the relative error bound once for both.
\<close>

section \<open>Rounding a rational to an integer, ties to even\<close>

definition rne :: "rat \<Rightarrow> int" where
  "rne x = (let f = \<lfloor>x\<rfloor>; d = x - of_int f in
     if d < 1 / 2 then f else if 1 / 2 < d then f + 1 else if even f then f else f + 1)"

lemma rne_cases:
  obtains "rne x = \<lfloor>x\<rfloor>" "x - of_int \<lfloor>x\<rfloor> < 1 / 2"
  | "rne x = \<lfloor>x\<rfloor> + 1" "1 / 2 < x - of_int \<lfloor>x\<rfloor>"
  | "rne x = \<lfloor>x\<rfloor>" "x - of_int \<lfloor>x\<rfloor> = 1 / 2" "even \<lfloor>x\<rfloor>"
  | "rne x = \<lfloor>x\<rfloor> + 1" "x - of_int \<lfloor>x\<rfloor> = 1 / 2" "odd \<lfloor>x\<rfloor>"
proof (cases "x - of_int \<lfloor>x\<rfloor>" "1 / 2 :: rat" rule: linorder_cases)
  case less
  then show ?thesis by (intro that(1)) (simp_all add: rne_def)
next
  case equal
  then show ?thesis
    by (cases "even \<lfloor>x\<rfloor>") (auto intro: that(3,4) simp: rne_def Let_def)
next
  case greater
  then show ?thesis by (intro that(2)) (simp_all add: rne_def Let_def)
qed

lemma rne_error: "\<bar>of_int (rne x) - x\<bar> \<le> 1 / 2"
proof -
  have "of_int \<lfloor>x\<rfloor> \<le> x" "x < of_int \<lfloor>x\<rfloor> + 1"
    by linarith+
  then show ?thesis
    by (cases x rule: rne_cases) (simp_all add: abs_le_iff)
qed

lemma rne_of_int [simp]: "rne (of_int n) = n"
  by (simp add: rne_def)

lemma rne_zero [simp]: "rne 0 = 0"
  using rne_of_int [of 0] by simp

lemma rne_near:
  assumes "\<bar>x - of_int n\<bar> < 1 / 2"
  shows "rne x = n"
proof -
  have "\<bar>of_int (rne x) - of_int n :: rat\<bar> < 1"
    using rne_error [of x] assms by linarith
  then show ?thesis
    by (metis abs_le_zero_iff eq_iff_diff_eq_0 linorder_not_less of_int_abs of_int_diff
        of_int_less_1_iff zle_diff1_eq diff_0 int_one_le_iff_zero_less)
qed

lemma rne_mono:
  assumes "x \<le> y"
  shows "rne x \<le> rne y"
proof (cases "\<lfloor>x\<rfloor> = \<lfloor>y\<rfloor>")
  case True
  with assms show ?thesis
    by (cases x rule: rne_cases; cases y rule: rne_cases) auto
next
  case False
  then have "\<lfloor>x\<rfloor> + 1 \<le> \<lfloor>y\<rfloor>"
    using floor_mono [OF assms] by simp
  moreover have "rne x \<le> \<lfloor>x\<rfloor> + 1" "\<lfloor>y\<rfloor> \<le> rne y"
    by (cases x rule: rne_cases; simp) (cases y rule: rne_cases; simp)
  ultimately show ?thesis by simp
qed

lemma rne_minus: "rne (- x) = - rne x"
proof (cases "x = of_int \<lfloor>x\<rfloor>")
  case True
  then show ?thesis
    by (metis of_int_minus rne_of_int)
next
  case False
  then have "\<lceil>x\<rceil> = \<lfloor>x\<rfloor> + 1"
    by linarith
  then have f: "\<lfloor>- x\<rfloor> = - \<lfloor>x\<rfloor> - 1"
    by (simp add: floor_minus)
  show ?thesis
    by (cases x rule: rne_cases; cases "- x" rule: rne_cases) (simp_all add: f)
qed

section \<open>The binary exponent of a positive rational\<close>

definition ilog :: "rat \<Rightarrow> int" where
  "ilog x = (if 1 \<le> x then bitlen \<lfloor>x\<rfloor> - 1 else - bitlen (\<lceil>1 / x\<rceil> - 1))"

abbreviation pow2 :: "int \<Rightarrow> rat" where
  "pow2 e \<equiv> 2 powi e"

lemma pow2_pos [simp]: "0 < pow2 e"
  by simp

lemma pow2_add: "pow2 (a + b) = pow2 a * pow2 b"
  by (simp add: power_int_add)

lemma pow2_diff: "pow2 (a - b) = pow2 a / pow2 b"
  by (simp add: power_int_diff)

lemma pow2_nat: "0 \<le> e \<Longrightarrow> pow2 e = of_int (2 ^ nat e)"
  by (simp add: power_int_def)

lemma pow2_le_iff [simp]: "pow2 a \<le> pow2 b \<longleftrightarrow> a \<le> b"
  by (meson linorder_not_le one_less_numeral_iff power_int_increasing
      power_int_strict_increasing semiring_norm(76) order_less_imp_le)

lemma pow2_less_iff [simp]: "pow2 a < pow2 b \<longleftrightarrow> a < b"
  by (meson linorder_not_le pow2_le_iff)

lemma ilog_lower:
  assumes "0 < x"
  shows "pow2 (ilog x) \<le> x"
proof (cases "1 \<le> x")
  case True
  then have f: "1 \<le> \<lfloor>x\<rfloor>"
    by simp
  then have "2 ^ nat (bitlen \<lfloor>x\<rfloor> - 1) \<le> \<lfloor>x\<rfloor>" and "1 \<le> bitlen \<lfloor>x\<rfloor>"
    using bitlen_bounds [of "\<lfloor>x\<rfloor>"] bitlen_nonneg [of "\<lfloor>x\<rfloor>"]
    by (auto simp: bitlen_ge_iff_power)
  then have "pow2 (bitlen \<lfloor>x\<rfloor> - 1) \<le> of_int \<lfloor>x\<rfloor>"
    by (subst pow2_nat) (simp, simp only: of_int_le_iff)
  with True show ?thesis
    by (simp add: ilog_def) (meson of_int_floor_le order_trans)
next
  case False
  let ?c = "\<lceil>1 / x\<rceil>"
  from assms False have "1 < 1 / x"
    by simp
  then have c: "2 \<le> ?c"
    by linarith
  then have "?c - 1 < 2 ^ nat (bitlen (?c - 1))"
    using bitlen_bounds [of "?c - 1"] by simp
  then have "1 / x \<le> of_int (2 ^ nat (bitlen (?c - 1)))"
    by linarith
  then have "1 / x \<le> pow2 (bitlen (?c - 1))"
    by (subst pow2_nat) (simp_all add: bitlen_nonneg)
  with assms False show ?thesis
    by (simp add: ilog_def power_int_minus field_simps)
qed

lemma ilog_upper:
  assumes "0 < x"
  shows "x < pow2 (ilog x + 1)"
proof (cases "1 \<le> x")
  case True
  then have "\<lfloor>x\<rfloor> < 2 ^ nat (bitlen \<lfloor>x\<rfloor>)"
    using bitlen_bounds [of "\<lfloor>x\<rfloor>"] by simp
  then have "x < of_int (2 ^ nat (bitlen \<lfloor>x\<rfloor>))"
    by linarith
  with True show ?thesis
    by (simp add: ilog_def) (subst pow2_nat, simp_all add: bitlen_nonneg)
next
  case False
  let ?c = "\<lceil>1 / x\<rceil>"
  from assms False have "1 < 1 / x"
    by simp
  then have c: "2 \<le> ?c"
    by linarith
  then have b: "2 ^ nat (bitlen (?c - 1) - 1) \<le> ?c - 1" "1 \<le> bitlen (?c - 1)"
    using bitlen_bounds [of "?c - 1"] by (auto simp: bitlen_ge_iff_power)
  have "of_int (?c - 1) < 1 / x"
    by linarith
  with b have "of_int (2 ^ nat (bitlen (?c - 1) - 1)) < 1 / x"
    using of_int_le_iff order_le_less_trans by blast
  then have "pow2 (bitlen (?c - 1) - 1) < 1 / x"
    using b(2) by (subst pow2_nat) simp_all
  moreover have "pow2 (ilog x + 1) * pow2 (bitlen (?c - 1) - 1) = 1"
    using False by (simp add: ilog_def flip: pow2_add)
  ultimately show ?thesis
    using assms by (metis less_divide_eq mult.commute mult_less_cancel_left_pos pow2_pos)
qed

lemma ilog_unique:
  assumes "pow2 k \<le> x" and "x < pow2 (k + 1)"
  shows "ilog x = k"
proof -
  from assms(1) have x: "0 < x"
    using pow2_pos less_le_trans by blast
  have "pow2 (ilog x) < pow2 (k + 1)"
    using ilog_lower [OF x] assms(2) by (rule le_less_trans)
  moreover have "pow2 k < pow2 (ilog x + 1)"
    using assms(1) ilog_upper [OF x] by (rule le_less_trans)
  ultimately show ?thesis by simp
qed

lemma ilog_mono: "0 < x \<Longrightarrow> x \<le> y \<Longrightarrow> ilog x \<le> ilog y"
proof -
  assume x: "0 < x" and le: "x \<le> y"
  have "x < pow2 (ilog y + 1)"
    using le ilog_upper [of y] x by linarith
  with ilog_lower [OF x] have "pow2 (ilog x) < pow2 (ilog y + 1)"
    by (rule le_less_trans)
  then show ?thesis by simp
qed

lemma ilog_pow2 [simp]: "ilog (pow2 k) = k"
  by (rule ilog_unique) simp_all

section \<open>Rounding to a number of significant bits\<close>

definition rnd_exp :: "nat \<Rightarrow> int \<Rightarrow> rat \<Rightarrow> int" where
  "rnd_exp p em x = max (ilog \<bar>x\<bar> - (int p - 1)) em"

definition rnd_to :: "nat \<Rightarrow> int \<Rightarrow> rat \<Rightarrow> rat" where
  "rnd_to p em x =
     (if x = 0 then 0
      else let e = rnd_exp p em x in of_int (rne (x / pow2 e)) * pow2 e)"

lemma rnd_to_zero [simp]: "rnd_to p em 0 = 0"
  by (simp add: rnd_to_def)

lemma rnd_to_minus: "rnd_to p em (- x) = - rnd_to p em x"
  by (simp add: rnd_to_def rnd_exp_def Let_def rne_minus)

locale float_format =
  fixes p :: nat and em :: int
  assumes prec_pos: "1 \<le> p"
begin

lemma rnd_to_exact:
  assumes x: "x = of_int m * pow2 e" and m: "\<bar>m\<bar> \<le> 2 ^ p" and e: "em \<le> e"
  shows "rnd_to p em x = x"
proof (cases "x = 0")
  case True
  then show ?thesis by simp
next
  case False
  let ?k = "rnd_exp p em x"
  have ax: "\<bar>x\<bar> = of_int \<bar>m\<bar> * pow2 e"
    by (simp add: x abs_mult)
  have dvd: "\<exists>n. x / pow2 ?k = of_int n"
  proof (cases "\<bar>m\<bar> = 2 ^ p")
    case True
    then have "\<bar>x\<bar> = pow2 (e + int p)"
      by (simp add: ax power_int_add)
    then have k: "?k = e + 1"
      using e prec_pos by (simp add: rnd_exp_def)
    have "x / pow2 ?k = x / (pow2 e * 2)"
      by (simp only: k pow2_add power_int_1_right)
    then have "x / pow2 ?k = of_int m / 2"
      by (simp add: x)
    moreover have "even m"
      using True prec_pos by (metis abs_ge_zero dvd_abs_iff even_power even_numeral
          less_le_trans zero_less_one)
    ultimately have "x / pow2 ?k = of_int (m div 2)"
      by (metis dvd_div_mult_self nonzero_mult_div_cancel_right of_int_mult of_int_numeral
          zero_neq_numeral)
    then show ?thesis by blast
  next
    case False
    have "of_int \<bar>m\<bar> < (2 ^ p :: rat)"
      using m False by (metis le_less of_int_less_iff of_int_numeral of_int_power)
    then have "\<bar>x\<bar> < pow2 (e + int p)"
      by (simp add: ax power_int_add mult.commute)
    moreover have "pow2 (ilog \<bar>x\<bar>) \<le> \<bar>x\<bar>"
      using \<open>x \<noteq> 0\<close> by (simp add: ilog_lower)
    ultimately have "pow2 (ilog \<bar>x\<bar>) < pow2 (e + int p)"
      by (rule le_less_trans [rotated])
    then have k: "?k \<le> e"
      using e by (simp add: rnd_exp_def)
    have "x / pow2 ?k = of_int m * pow2 (e - ?k)"
      by (simp add: x pow2_diff)
    also have "\<dots> = of_int (m * 2 ^ nat (e - ?k))"
      using k by (simp add: pow2_nat)
    finally show ?thesis by blast
  qed
  then obtain n where "x / pow2 ?k = of_int n" by blast
  then show ?thesis
    using False by (simp add: rnd_to_def Let_def) (simp add: field_simps)
qed

lemma rnd_to_int: "em \<le> 0 \<Longrightarrow> \<bar>m\<bar> \<le> 2 ^ p \<Longrightarrow> rnd_to p em (of_int m) = of_int m"
  by (rule rnd_to_exact [of _ m 0]) simp_all

lemma rnd_to_ge_pow2:
  assumes x: "pow2 k \<le> x" and k: "rnd_exp p em x \<le> k"
  shows "pow2 k \<le> rnd_to p em x"
proof -
  let ?e = "rnd_exp p em x"
  from x have "0 < x"
    using pow2_pos less_le_trans by blast
  have "pow2 (k - ?e) \<le> x / pow2 ?e"
    using x by (simp add: pow2_diff divide_right_mono)
  then have "rne (of_int (2 ^ nat (k - ?e))) \<le> rne (x / pow2 ?e)"
    using k by (intro rne_mono) (simp add: pow2_nat)
  then have "of_int (2 ^ nat (k - ?e)) \<le> (of_int (rne (x / pow2 ?e)) :: rat)"
    by (simp only: rne_of_int of_int_le_iff)
  then have "pow2 (k - ?e) * pow2 ?e \<le> of_int (rne (x / pow2 ?e)) * pow2 ?e"
    using k by (intro mult_right_mono) (simp_all add: pow2_nat)
  then show ?thesis
    using \<open>0 < x\<close> by (simp add: rnd_to_def Let_def flip: pow2_add)
qed

lemma rnd_to_le_pow2:
  assumes x0: "0 < x" and x: "x \<le> pow2 k" and k: "rnd_exp p em x \<le> k"
  shows "rnd_to p em x \<le> pow2 k"
proof -
  let ?e = "rnd_exp p em x"
  have "x / pow2 ?e \<le> pow2 (k - ?e)"
    using x by (simp add: pow2_diff divide_right_mono)
  then have "rne (x / pow2 ?e) \<le> rne (of_int (2 ^ nat (k - ?e)))"
    using k by (intro rne_mono) (simp add: pow2_nat)
  then have "(of_int (rne (x / pow2 ?e)) :: rat) \<le> of_int (2 ^ nat (k - ?e))"
    by (simp only: rne_of_int of_int_le_iff)
  then have "of_int (rne (x / pow2 ?e)) * pow2 ?e \<le> pow2 (k - ?e) * pow2 ?e"
    using k by (intro mult_right_mono) (simp_all add: pow2_nat)
  then show ?thesis
    using x0 by (simp add: rnd_to_def Let_def flip: pow2_add)
qed

lemma rnd_to_nonneg: "0 \<le> x \<Longrightarrow> 0 \<le> rnd_to p em x"
  using rne_mono [of 0] by (simp add: rnd_to_def Let_def)

lemma rnd_to_mono_pos:
  assumes x: "0 < x" and xy: "x \<le> y"
  shows "rnd_to p em x \<le> rnd_to p em y"
proof -
  let ?ex = "rnd_exp p em x" and ?ey = "rnd_exp p em y"
  from x xy have y: "0 < y" by simp
  have il: "ilog x \<le> ilog y"
    using x xy by (rule ilog_mono)
  then have "?ex \<le> ?ey"
    using x y by (simp add: rnd_exp_def)
  then consider "?ex = ?ey" | "?ex < ?ey"
    by linarith
  then show ?thesis
  proof cases
    case 1
    have "rne (x / pow2 ?ey) \<le> rne (y / pow2 ?ey)"
      using xy by (intro rne_mono divide_right_mono) simp_all
    then show ?thesis
      using x y 1 by (simp add: rnd_to_def Let_def)
  next
    case 2
    then have lt: "ilog x < ilog y" and ey: "?ey = ilog y - (int p - 1)"
      using x y by (auto simp: rnd_exp_def)
    have "x < pow2 (ilog x + 1)"
      using x by (rule ilog_upper)
    also have "\<dots> \<le> pow2 (ilog y)"
      using lt by simp
    finally have "rnd_to p em x \<le> pow2 (ilog y)"
      using x 2 ey prec_pos by (intro rnd_to_le_pow2) simp_all
    also have "\<dots> \<le> rnd_to p em y"
      using y ey prec_pos by (intro rnd_to_ge_pow2) (simp_all add: ilog_lower)
    finally show ?thesis .
  qed
qed

lemma rnd_to_mono:
  assumes "x \<le> y"
  shows "rnd_to p em x \<le> rnd_to p em y"
proof -
  consider "0 < x" | "x \<le> 0" "0 \<le> y" | "y < 0"
    by linarith
  then show ?thesis
  proof cases
    case 1
    then show ?thesis using assms by (rule rnd_to_mono_pos)
  next
    case 2
    then have "0 \<le> rnd_to p em (- x)" "0 \<le> rnd_to p em y"
      by (simp_all add: rnd_to_nonneg)
    then show ?thesis by (simp add: rnd_to_minus)
  next
    case 3
    then have "rnd_to p em (- y) \<le> rnd_to p em (- x)"
      using assms by (intro rnd_to_mono_pos) simp_all
    then show ?thesis by (simp add: rnd_to_minus)
  qed
qed

text \<open>The relative error of a normal result is at most half a unit in the last place.\<close>

lemma rnd_to_error:
  assumes "pow2 (em + int p - 1) \<le> \<bar>x\<bar>"
  shows "\<bar>rnd_to p em x - x\<bar> \<le> \<bar>x\<bar> / 2 ^ p"
proof -
  let ?e = "rnd_exp p em x"
  have x: "0 < \<bar>x\<bar>"
    using assms pow2_pos less_le_trans by blast
  have "pow2 (em + int p - 1) < pow2 (ilog \<bar>x\<bar> + 1)"
    using assms ilog_upper [OF x] by (rule le_less_trans)
  then have e: "?e = ilog \<bar>x\<bar> - (int p - 1)"
    by (simp add: rnd_exp_def)
  have "rnd_to p em x - x = (of_int (rne (x / pow2 ?e)) - x / pow2 ?e) * pow2 ?e"
    using x by (simp add: rnd_to_def Let_def left_diff_distrib)
  then have "\<bar>rnd_to p em x - x\<bar> \<le> 1 / 2 * pow2 ?e"
    using rne_error [of "x / pow2 ?e"] by (simp add: abs_mult mult_right_mono)
  also have "1 / 2 * pow2 ?e = pow2 (ilog \<bar>x\<bar>) / 2 ^ p"
  proof -
    have "pow2 ?e * pow2 (int p) = pow2 (ilog \<bar>x\<bar> + 1)"
      unfolding e pow2_add [symmetric] by simp
    also have "\<dots> = pow2 (ilog \<bar>x\<bar>) * 2"
      by (simp only: pow2_add power_int_1_right)
    finally show ?thesis by (simp add: field_simps)
  qed
  also have "\<dots> \<le> \<bar>x\<bar> / 2 ^ p"
    using ilog_lower [OF x] by (simp add: divide_right_mono)
  finally show ?thesis .
qed

text \<open>Away from the subnormal range, scaling by a power of two commutes with rounding.\<close>

lemma rnd_to_scale:
  assumes "em + int p \<le> ilog \<bar>x\<bar> + 1" "em + int p \<le> ilog \<bar>x\<bar> + k + 1"
  shows "rnd_to p em (x * pow2 k) = rnd_to p em x * pow2 k"
proof (cases "x = 0")
  case True
  then show ?thesis by simp
next
  case False
  have "ilog \<bar>x * pow2 k\<bar> = ilog \<bar>x\<bar> + k"
  proof (rule ilog_unique)
    show "pow2 (ilog \<bar>x\<bar> + k) \<le> \<bar>x * pow2 k\<bar>"
      using ilog_lower [of "\<bar>x\<bar>"] False by (simp add: pow2_add abs_mult)
    have "\<bar>x\<bar> * pow2 k < pow2 (ilog \<bar>x\<bar> + 1) * pow2 k"
      using ilog_upper [of "\<bar>x\<bar>"] False by (intro mult_strict_right_mono) simp_all
    then show "\<bar>x * pow2 k\<bar> < pow2 (ilog \<bar>x\<bar> + k + 1)"
      by (simp add: abs_mult algebra_simps flip: pow2_add)
  qed
  then have e: "rnd_exp p em (x * pow2 k) = rnd_exp p em x + k"
    using assms by (simp add: rnd_exp_def)
  have "x * pow2 k / pow2 (rnd_exp p em x + k) = x / pow2 (rnd_exp p em x)"
    by (simp add: pow2_add)
  then show ?thesis
    using False by (simp add: rnd_to_def Let_def e) (simp add: pow2_add)
qed

text \<open>The absolute error of a rounding below a power of two.\<close>

lemma rnd_to_abs_error:
  assumes "\<bar>x\<bar> < pow2 k" "em \<le> k - int p"
  shows "\<bar>rnd_to p em x - x\<bar> \<le> pow2 (k - int p) / 2"
proof (cases "x = 0")
  case True
  then show ?thesis by simp
next
  case False
  let ?e = "rnd_exp p em x"
  have "pow2 (ilog \<bar>x\<bar>) < pow2 k"
    using False by (intro le_less_trans [OF ilog_lower assms(1)]) simp
  then have e: "?e \<le> k - int p"
    using assms(2) by (simp add: rnd_exp_def)
  have "rnd_to p em x - x = (of_int (rne (x / pow2 ?e)) - x / pow2 ?e) * pow2 ?e"
    using False by (simp add: rnd_to_def Let_def left_diff_distrib)
  then have "\<bar>rnd_to p em x - x\<bar> \<le> 1 / 2 * pow2 ?e"
    using rne_error [of "x / pow2 ?e"] by (simp add: abs_mult mult_right_mono)
  also have "\<dots> \<le> 1 / 2 * pow2 (k - int p)"
    using e by (intro mult_left_mono) simp_all
  finally show ?thesis by simp
qed

lemma rnd_to_form:
  obtains m e where "rnd_to p em x = of_int m * pow2 e" "\<bar>m\<bar> \<le> 2 ^ p" "em \<le> e"
proof (cases "x = 0")
  case True
  then show ?thesis by (intro that [of 0 em]) simp_all
next
  case False
  let ?e = "rnd_exp p em x"
  have "\<bar>x\<bar> < pow2 (ilog \<bar>x\<bar> + 1)"
    using False by (simp add: ilog_upper)
  also have "\<dots> \<le> pow2 (?e + int p)"
    unfolding pow2_le_iff by (simp add: rnd_exp_def)
  finally have b: "\<bar>x\<bar> / pow2 ?e \<le> of_int (2 ^ p)"
    by (simp add: pow2_add field_simps)
  have "rne (x / pow2 ?e) \<le> rne (of_int (2 ^ p))"
    using b by (intro rne_mono) (simp add: abs_le_iff divide_simps split: if_splits)
  moreover have "rne (of_int (- (2 ^ p))) \<le> rne (x / pow2 ?e)"
    using b by (intro rne_mono) (simp add: abs_le_iff divide_simps split: if_splits)
  ultimately have "\<bar>rne (x / pow2 ?e)\<bar> \<le> 2 ^ p"
    by (simp only: rne_of_int abs_le_iff) (simp add: minus_le_iff)
  with False show ?thesis
    by (intro that [of "rne (x / pow2 ?e)" ?e])
      (simp_all add: rnd_to_def Let_def, simp add: rnd_exp_def)
qed

lemma rnd_to_idem [simp]: "rnd_to p em (rnd_to p em x) = rnd_to p em x"
  by (rule rnd_to_form [of x], rule rnd_to_exact)

end

section \<open>The two formats\<close>

datatype fmt = F32 | F64

text \<open>Significant bits, exponent of the smallest subnormal, exponent of the overflow limit.\<close>

fun prec :: "fmt \<Rightarrow> nat" where
  "prec F32 = 24"
| "prec F64 = 53"

fun emin :: "fmt \<Rightarrow> int" where
  "emin F32 = -149"
| "emin F64 = -1074"

fun elim :: "fmt \<Rightarrow> nat" where
  "elim F32 = 128"
| "elim F64 = 1024"

interpretation ff: float_format "prec f" "emin f" for f
  by unfold_locales (cases f; simp)

datatype flt = Fin rat | PInf | NInf | NaN

definition rnd :: "fmt \<Rightarrow> rat \<Rightarrow> flt" where
  "rnd f x = (let q = rnd_to (prec f) (emin f) x in
     if 2 ^ elim f \<le> q then PInf else if q \<le> - (2 ^ elim f) then NInf else Fin q)"

text \<open>The finite values of a format.\<close>

definition representable :: "fmt \<Rightarrow> rat \<Rightarrow> bool" where
  "representable f q \<longleftrightarrow> rnd f q = Fin q"

definition is_flt :: "fmt \<Rightarrow> flt \<Rightarrow> bool" where
  "is_flt f x = (case x of Fin q \<Rightarrow> representable f q | _ \<Rightarrow> True)"

fun finite_flt :: "flt \<Rightarrow> bool" where
  "finite_flt (Fin q) = True"
| "finite_flt _ = False"

lemma rnd_zero [simp]: "rnd f 0 = Fin 0"
  by (cases f) (simp_all add: rnd_def)

lemma rep_zero [simp]: "representable f 0"
  by (simp add: representable_def)

lemma rnd_rep: "representable f q \<Longrightarrow> rnd f q = Fin q"
  by (simp add: representable_def)

lemma rnd_Fin_rep: "rnd f x = Fin q \<Longrightarrow> representable f q"
  by (auto simp: representable_def rnd_def Let_def split: if_splits)

lemma is_flt_rnd [simp]: "is_flt f (rnd f x)"
  by (cases "rnd f x") (auto simp: is_flt_def dest: rnd_Fin_rep)

lemma rep_iff: "representable f q \<longleftrightarrow> rnd_to (prec f) (emin f) q = q \<and> \<bar>q\<bar> < 2 ^ elim f"
  by (auto simp: representable_def rnd_def Let_def abs_less_iff)

lemma rep_minus: "representable f (- q) \<longleftrightarrow> representable f q"
  by (simp add: rep_iff rnd_to_minus)

lemma rep_dyadic:
  assumes "\<bar>m\<bar> \<le> 2 ^ prec f" "emin f \<le> e" "e + int (prec f) < int (elim f)"
  shows "representable f (of_int m * pow2 e)"
proof -
  have "\<bar>of_int m * pow2 e\<bar> \<le> of_int (2 ^ prec f) * pow2 e"
    using assms(1) by (simp add: abs_mult mult_right_mono flip: of_int_abs of_int_power)
  also have "\<dots> = pow2 (e + int (prec f))"
    by (simp add: power_int_add)
  also have "\<dots> < pow2 (int (elim f))"
    using assms(3) by (simp only: pow2_less_iff)
  finally show ?thesis
    using assms(1,2) by (simp add: rep_iff ff.rnd_to_exact)
qed

lemma rep_int: "\<bar>m\<bar> \<le> 2 ^ prec f \<Longrightarrow> representable f (of_int m)"
  using rep_dyadic [of m f 0] by (cases f) simp_all

lemma rnd_Fin_bounds:
  assumes "representable f a" "representable f b" "a \<le> x" "x \<le> b"
  shows "\<exists>q. rnd f x = Fin q \<and> a \<le> q \<and> q \<le> b"
proof -
  let ?q = "rnd_to (prec f) (emin f) x"
  have "a \<le> ?q" "?q \<le> b"
    using ff.rnd_to_mono [OF assms(3), of f] ff.rnd_to_mono [OF assms(4), of f] assms(1,2)
    by (simp_all add: rep_iff)
  moreover have "\<bar>a\<bar> < 2 ^ elim f" "\<bar>b\<bar> < 2 ^ elim f"
    using assms(1,2) by (simp_all add: rep_iff)
  ultimately show ?thesis
    by (auto simp: rnd_def Let_def)
qed

text \<open>The error bound for a result that is neither subnormal nor too large.\<close>

lemma rnd_error:
  assumes "pow2 (emin f + int (prec f) - 1) \<le> \<bar>x\<bar>" and "\<bar>x\<bar> \<le> 2 ^ (elim f - 1)"
  shows "\<exists>q. rnd f x = Fin q \<and> \<bar>q - x\<bar> \<le> \<bar>x\<bar> / 2 ^ prec f"
proof -
  let ?b = "2 ^ (elim f - 1) :: rat"
  have b: "representable f ?b"
    using rep_dyadic [of 1 f "int (elim f) - int (prec f) - 1"]
      rep_dyadic [of "2 ^ prec f" f "int (elim f) - 1 - int (prec f)"]
    by (cases f) (simp_all flip: power_int_add)
  then have "representable f (- ?b)"
    by (simp add: rep_minus)
  with b assms(2) have "\<exists>q. rnd f x = Fin q"
    using rnd_Fin_bounds [of f "- ?b" ?b x] by (auto simp: abs_le_iff)
  then obtain q where q: "rnd f x = Fin q" by blast
  then have "q = rnd_to (prec f) (emin f) x"
    by (auto simp: rnd_def Let_def split: if_splits)
  with q ff.rnd_to_error [OF assms(1)] show ?thesis by auto
qed

text \<open>The value of a rounding, from its binade and its significand.\<close>

lemma rnd_eval:
  assumes "pow2 k \<le> x" "x < pow2 (k + 1)" "e = k + 1 - int (prec f)" "emin f \<le> e"
    "\<bar>x / pow2 e - of_int m\<bar> < 1 / 2" "\<bar>of_int m * pow2 e\<bar> < 2 ^ elim f"
  shows "rnd f x = Fin (of_int m * pow2 e)"
proof -
  have "0 < x" using assms(1) pow2_pos less_le_trans by blast
  moreover have "rnd_exp (prec f) (emin f) x = e"
    using calculation assms(3,4) ilog_unique [OF assms(1,2)] by (simp add: rnd_exp_def)
  ultimately have "rnd_to (prec f) (emin f) x = of_int m * pow2 e"
    using rne_near [OF assms(5)] by (simp add: rnd_to_def)
  then show ?thesis
    using assms(6) by (auto simp: rnd_def Let_def abs_less_iff)
qed

lemma rnd_abs_error:
  assumes "\<bar>x\<bar> < pow2 k" "emin f \<le> k - int (prec f)" "k < int (elim f)"
  shows "\<exists>q. rnd f x = Fin q \<and> \<bar>q - x\<bar> \<le> pow2 (k - int (prec f)) / 2"
proof -
  have r: "representable f (pow2 k)"
    using rep_dyadic [of "2 ^ prec f" f "k - int (prec f)"] assms(2,3)
    by (simp add: pow2_diff)
  have "- pow2 k \<le> x" "x \<le> pow2 k"
    using assms(1) by linarith+
  then obtain q where q: "rnd f x = Fin q"
    using rnd_Fin_bounds [OF rep_minus [THEN iffD2, OF r] r] by blast
  then have "q = rnd_to (prec f) (emin f) x"
    by (auto simp: rnd_def Let_def split: if_splits)
  with q ff.rnd_to_abs_error [OF assms(1,2)] show ?thesis by auto
qed

section \<open>Arithmetic and comparison\<close>

fun fneg :: "flt \<Rightarrow> flt" where
  "fneg (Fin x) = Fin (- x)"
| "fneg PInf = NInf"
| "fneg NInf = PInf"
| "fneg NaN = NaN"

text \<open>Infinity with the sign of a nonzero rational; \<open>0 * Inf\<close> is NaN.\<close>

definition inf_signed :: "rat \<Rightarrow> flt" where
  "inf_signed q = (if q = 0 then NaN else if 0 < q then PInf else NInf)"

fun fadd :: "fmt \<Rightarrow> flt \<Rightarrow> flt \<Rightarrow> flt" where
  "fadd f (Fin a) (Fin b) = rnd f (a + b)"
| "fadd f NaN _ = NaN"
| "fadd f _ NaN = NaN"
| "fadd f PInf NInf = NaN"
| "fadd f NInf PInf = NaN"
| "fadd f PInf _ = PInf"
| "fadd f NInf _ = NInf"
| "fadd f _ PInf = PInf"
| "fadd f _ NInf = NInf"

definition fsub :: "fmt \<Rightarrow> flt \<Rightarrow> flt \<Rightarrow> flt" where
  "fsub f a b = fadd f a (fneg b)"

fun fmul :: "fmt \<Rightarrow> flt \<Rightarrow> flt \<Rightarrow> flt" where
  "fmul f (Fin a) (Fin b) = rnd f (a * b)"
| "fmul f NaN _ = NaN"
| "fmul f _ NaN = NaN"
| "fmul f (Fin a) PInf = inf_signed a"
| "fmul f (Fin a) NInf = inf_signed (- a)"
| "fmul f PInf (Fin b) = inf_signed b"
| "fmul f NInf (Fin b) = inf_signed (- b)"
| "fmul f PInf PInf = PInf"
| "fmul f PInf NInf = NInf"
| "fmul f NInf PInf = NInf"
| "fmul f NInf NInf = PInf"

text \<open>C++ division; used with a finite nonzero divisor only.\<close>

fun fdiv :: "fmt \<Rightarrow> flt \<Rightarrow> flt \<Rightarrow> flt" where
  "fdiv f (Fin a) (Fin b) = (if b = 0 then inf_signed a else rnd f (a / b))"
| "fdiv f NaN _ = NaN"
| "fdiv f _ NaN = NaN"
| "fdiv f (Fin a) _ = Fin 0"
| "fdiv f PInf (Fin b) = (if b < 0 then NInf else PInf)"
| "fdiv f NInf (Fin b) = (if b < 0 then PInf else NInf)"
| "fdiv f _ _ = NaN"

text \<open>Comparisons are false as soon as one side is NaN; \<open>==\<close> is not reflexive on NaN.\<close>

fun flt_less :: "flt \<Rightarrow> flt \<Rightarrow> bool" where
  "flt_less (Fin a) (Fin b) = (a < b)"
| "flt_less NaN _ = False"
| "flt_less _ NaN = False"
| "flt_less NInf b = (b \<noteq> NInf)"
| "flt_less PInf _ = False"
| "flt_less _ PInf = True"
| "flt_less _ NInf = False"

definition feq :: "flt \<Rightarrow> flt \<Rightarrow> bool" where
  "feq a b \<longleftrightarrow> a = b \<and> a \<noteq> NaN"

lemma feq_Fin [simp]: "feq (Fin a) (Fin b) \<longleftrightarrow> a = b"
  by (simp add: feq_def)

lemma fsub_Fin [simp]: "fsub f (Fin a) (Fin b) = rnd f (a - b)"
  by (simp add: fsub_def)

section \<open>Conversions\<close>

text \<open>Python float to C++ \<open>float\<close> (the narrowing every parameter setter makes).\<close>

definition to_f32 :: "flt \<Rightarrow> flt" where
  "to_f32 x = (case x of Fin q \<Rightarrow> rnd F32 q | _ \<Rightarrow> x)"

text \<open>\<open>static_cast<float>\<close> of an integer.\<close>

definition f32_of_int :: "int \<Rightarrow> flt" where
  "f32_of_int n = rnd F32 (of_int n)"

text \<open>Python \<open>float(n)\<close>, which raises when the integer is too large.\<close>

definition float_of_int :: "int \<Rightarrow> pyexc + flt" where
  "float_of_int n = (case rnd F64 (of_int n) of Fin q \<Rightarrow> Inr (Fin q) | _ \<Rightarrow> Inl OverflowError)"

text \<open>Python \<open>int(round(x))\<close> and \<open>int(x)\<close> on a float.\<close>

definition round_int :: "flt \<Rightarrow> pyexc + int" where
  "round_int x = (case x of Fin q \<Rightarrow> Inr (rne q) | NaN \<Rightarrow> Inl ValueError | _ \<Rightarrow> Inl OverflowError)"

definition trunc_int :: "flt \<Rightarrow> pyexc + int" where
  "trunc_int x =
     (case x of Fin q \<Rightarrow> Inr (if 0 \<le> q then \<lfloor>q\<rfloor> else \<lceil>q\<rceil>) | NaN \<Rightarrow> Inl ValueError
      | _ \<Rightarrow> Inl OverflowError)"

text \<open>C \<open>lround\<close>: to nearest, ties away from zero.\<close>

definition lround :: "rat \<Rightarrow> int" where
  "lround q = (if 0 \<le> q then \<lfloor>q + 1 / 2\<rfloor> else \<lceil>q - 1 / 2\<rceil>)"

lemma is_flt_to_f32 [simp]: "is_flt F32 (to_f32 x)"
  by (cases x) (simp_all add: to_f32_def, simp_all add: is_flt_def)

lemma to_f32_id: "is_flt F32 x \<Longrightarrow> to_f32 x = x"
  by (cases x) (simp_all add: to_f32_def is_flt_def representable_def)

lemma to_f32_unit [simp]: "to_f32 (Fin 0) = Fin 0" "to_f32 (Fin 1) = Fin 1"
  using rep_int [of 0 F32] rep_int [of 1 F32] by (simp_all add: to_f32_def representable_def)

lemma is_flt_fadd [simp]: "is_flt f (fadd f a b)"
  by (cases a; cases b) (simp_all, simp_all add: is_flt_def)

lemma is_flt_inf_signed [simp]: "is_flt f (inf_signed q)"
  by (simp add: inf_signed_def is_flt_def)

lemma is_flt_fmul [simp]: "is_flt f (fmul f a b)"
  by (cases a; cases b) (simp_all, simp_all add: is_flt_def)

lemma is_flt_fdiv [simp]: "is_flt f (fdiv f a b)"
  by (cases a; cases b) (simp_all, simp_all add: is_flt_def)

lemma is_flt_Fin_zero [simp]: "is_flt f (Fin 0)"
  by (simp add: is_flt_def)

lemma lround_near:
  assumes "\<bar>q - of_int n\<bar> < 1 / 2"
  shows "lround q = n"
proof (cases "0 \<le> q")
  case True
  have "\<lfloor>q + 1 / 2\<rfloor> = n"
    using assms by (intro floor_unique) linarith+
  with True show ?thesis by (simp add: lround_def)
next
  case False
  have "\<lceil>q - 1 / 2\<rceil> = n"
    using assms by (intro ceiling_unique) linarith+
  with False show ?thesis by (simp add: lround_def)
qed

lemma lround_of_int [simp]: "lround (of_int n) = n"
  by (simp add: lround_near)

lemma lround_numeral [simp]: "lround 0 = 0" "lround (numeral k) = numeral k"
    "lround (- numeral k) = - numeral k"
  using lround_of_int [of 0] lround_of_int [of "numeral k"] lround_of_int [of "- numeral k"]
  by simp_all

lemma lround_error: "\<bar>of_int (lround q) - q\<bar> \<le> 1 / 2"
proof (cases "0 \<le> q")
  case True
  have "\<bar>of_int \<lfloor>q + 1 / 2\<rfloor> - q\<bar> \<le> 1 / 2"
    by linarith
  with True show ?thesis by (simp add: lround_def)
next
  case False
  have "\<bar>of_int \<lceil>q - 1 / 2\<rceil> - q\<bar> \<le> 1 / 2"
    by linarith
  with False show ?thesis by (simp add: lround_def)
qed

lemma lround_mono: "a \<le> b \<Longrightarrow> lround a \<le> lround b"
  unfolding lround_def by (simp split: if_splits) linarith

lemma lround_le: "q \<le> of_int n \<Longrightarrow> lround q \<le> n"
  using lround_mono [of q "of_int n"] by simp

lemma lround_ge: "of_int n \<le> q \<Longrightarrow> n \<le> lround q"
  using lround_mono [of "of_int n" q] by simp

end
