(* ===== verification/Buffer_Ops.thy ===== *)
theory Buffer_Ops
  imports Py_Float "HOL-Library.Word"
begin

text \<open>
  The sample-level primitives of \<open>src/shared/buffer_ops.hpp\<close> and their bindings in
  \<open>src/softcut/_core.cpp\<close> (\<open>_buffer_apply\<close>, \<open>_buffer_extract_channel\<close>, \<open>_pcm_decode\<close>,
  \<open>_pcm_encode_s16\<close>), which every buffer and WAV operation of the Python layers reduces to.

  A buffer is the list of its binary32 samples. A C++ loop that writes \<open>buf[start + i]\<close> for
  \<open>i = 0, 1, ..\<close> is \<open>for_upd\<close>, a fold of list updates; its pointwise description
  \<open>nth_for_upd\<close> is what every later proof uses. The loop of the blended write, which reads a
  second array too, is \<open>for_loop\<close>, which fails when an access leaves its array; \<open>blended\<close> is what it
  computes when none does. Frame counts are \<open>int\<close> (C++ \<open>long\<close>); an
  argument outside the 64-bit range is the \<open>TypeError\<close> of the binding.

  Not modelled: fused multiply-add contraction (the arithmetic is the one of a target
  without it) and the undefined negation of the least 64-bit integer as a start frame.
\<close>

unbundle bit_operations_syntax

type_synonym samples = "flt list"
type_synonym byte = "8 word"

named_theorems buffer_simps
  \<open>pointwise and length facts about the buffer primitives\<close>

section \<open>The C++ update loop\<close>

text \<open>\<open>for (i = 0; i < n; ++i) buf[st + i] = g(i, buf[st + i]);\<close>\<close>

definition for_upd :: "(nat \<Rightarrow> 'a \<Rightarrow> 'a) \<Rightarrow> nat \<Rightarrow> nat \<Rightarrow> 'a list \<Rightarrow> 'a list" where
  "for_upd g st n buf = fold (\<lambda>i b. b[st + i := g i (b ! (st + i))]) [0..<n] buf"

lemma for_upd_0 [simp]: "for_upd g st 0 buf = buf"
  by (simp add: for_upd_def)

lemma for_upd_Suc:
  "for_upd g st (Suc n) buf =
     (let b = for_upd g st n buf in b[st + n := g n (b ! (st + n))])"
  by (simp add: for_upd_def Let_def)

lemma length_for_upd [simp, buffer_simps]: "length (for_upd g st n buf) = length buf"
  by (induction n) (simp_all add: for_upd_Suc Let_def)

lemma nth_for_upd [buffer_simps]:
  "k < length buf \<Longrightarrow>
   for_upd g st n buf ! k = (if st \<le> k \<and> k < st + n then g (k - st) (buf ! k) else buf ! k)"
  by (induction n) (auto simp: for_upd_Suc Let_def nth_list_update less_Suc_eq)

lemma for_upd_outside:
  "k < length buf \<Longrightarrow> k < st \<or> st + n \<le> k \<Longrightarrow> for_upd g st n buf ! k = buf ! k"
  by (auto simp: nth_for_upd)

lemma for_upd_inside:
  "st \<le> k \<Longrightarrow> k < st + n \<Longrightarrow> k < length buf \<Longrightarrow> for_upd g st n buf ! k = g (k - st) (buf ! k)"
  by (auto simp: nth_for_upd)

lemma for_upd_cong:
  assumes "\<And>i. i < n \<Longrightarrow> st + i < length buf \<Longrightarrow> g i (buf ! (st + i)) = h i (buf ! (st + i))"
  shows "for_upd g st n buf = for_upd h st n buf"
proof (rule nth_equalityI)
  fix k
  assume "k < length (for_upd g st n buf)"
  then show "for_upd g st n buf ! k = for_upd h st n buf ! k"
    using assms [of "k - st"] by (auto simp: nth_for_upd)
qed simp

text \<open>
  The same loop with its accesses checked: \<open>g\<close> computes the new value, and fails if it reads outside
  its own array.
\<close>

definition load :: "'a list \<Rightarrow> nat \<Rightarrow> 'a option" where
  "load xs i = (if i < length xs then Some (xs ! i) else None)"

definition for_loop :: "(nat \<Rightarrow> 'a \<Rightarrow> 'a option) \<Rightarrow> nat \<Rightarrow> nat \<Rightarrow> 'a list \<Rightarrow> 'a list option" where
  "for_loop g st n buf =
     fold (\<lambda>i r. Option.bind r (\<lambda>b. Option.bind (load b (st + i)) (\<lambda>d. map_option (\<lambda>v. b[st + i := v]) (g i d))))
       [0..<n] (Some buf)"

lemma for_loop_reads:
  assumes "st + n \<le> length buf"
  shows "for_loop (\<lambda>i d. map_option (h i d) (r i)) st n buf =
    (if \<forall>i < n. r i \<noteq> None then Some (for_upd (\<lambda>i d. h i d (the (r i))) st n buf) else None)"
  using assms
proof (induction n)
  case (Suc n)
  let ?b = "for_upd (\<lambda>i d. h i d (the (r i))) st n buf"
  have "st + n < length buf"
    using Suc.prems by simp
  then show ?case
    using Suc by (cases "r n") (auto simp: for_loop_def for_upd_Suc load_def Let_def less_Suc_eq)
qed (simp add: for_loop_def)

lemma for_loop_total:
  assumes "st + n \<le> length buf"
  shows "for_loop (\<lambda>i d. Some (h i d)) st n buf = Some (for_upd h st n buf)"
  using for_loop_reads [OF assms, of "\<lambda>i d _. h i d" "\<lambda>_. Some ()"] by simp

section \<open>The blended write\<close>

definition fade_env_at :: "int \<Rightarrow> int \<Rightarrow> int \<Rightarrow> flt" where
  "fade_env_at i n f =
     (if f \<le> 0 then Fin 1
      else if i < f then fdiv F32 (f32_of_int i) (f32_of_int f)
      else if n - f \<le> i then fdiv F32 (f32_of_int (n - 1 - i)) (f32_of_int f)
      else Fin 1)"

text \<open>One sample of the faded loop.\<close>

definition blend :: "flt \<Rightarrow> flt \<Rightarrow> flt \<Rightarrow> flt \<Rightarrow> flt \<Rightarrow> flt" where
  "blend preserve mix env d sv =
     (let target = fadd F32 (fmul F32 d preserve) (fmul F32 sv mix)
      in fadd F32 (fmul F32 d (fsub F32 (Fin 1) env)) (fmul F32 target env))"

text \<open>\<open>src ? src[j] : 0\<close>, which fails outside the source\<close>

definition src_at :: "samples option \<Rightarrow> nat \<Rightarrow> flt option" where
  "src_at src j = (case src of None \<Rightarrow> Some (Fin 0) | Some xs \<Rightarrow> load xs j)"

text \<open>The head of the source that a negative start trims, and the frames written.\<close>

definition trim_off :: "int \<Rightarrow> int" where
  "trim_off start = (if start < 0 then - start else 0)"

definition write_count :: "int \<Rightarrow> int \<Rightarrow> int \<Rightarrow> int" where
  "write_count bframes start nsrc =
     min (nsrc - trim_off start) (bframes - max start 0)"

text \<open>The buffer afterwards, or nothing if the loop leaves one of the two arrays.\<close>

definition apply_to_buffer ::
    "samples \<Rightarrow> int \<Rightarrow> samples option \<Rightarrow> int \<Rightarrow> flt \<Rightarrow> flt \<Rightarrow> int \<Rightarrow> samples option" where
  "apply_to_buffer buf start src nsrc preserve mix fade =
     (let off = nat (trim_off start);
          st = nat (max start 0);
          n = write_count (int (length buf)) start nsrc
      in if n \<le> 0 then Some buf
         else let f = min fade (n div 2)
         in if f \<le> 0 then
              (case src of
                 None \<Rightarrow>
                   if feq preserve (Fin 0) then for_loop (\<lambda>_ _. Some (Fin 0)) st (nat n) buf
                   else for_loop (\<lambda>_ d. Some (fmul F32 d preserve)) st (nat n) buf
               | Some xs \<Rightarrow>
                   for_loop (\<lambda>i d. map_option (\<lambda>x. fadd F32 (fmul F32 d preserve) (fmul F32 x mix)) (load xs (off + i)))
                     st (nat n) buf)
            else
              for_loop (\<lambda>i d. map_option (blend preserve mix (fade_env_at (int i) n f) d) (src_at src (off + i)))
                st (nat n) buf)"

definition int64 :: "int \<Rightarrow> bool" where
  "int64 i \<longleftrightarrow> - (2 ^ 63) \<le> i \<and> i < 2 ^ 63"

text \<open>
  \<open>_core._buffer_apply(dst, start, src, preserve, mix, fade, count)\<close>. The binding takes \<open>count\<close> as it
  comes, also where it is more than the source has; then C++ reads past the source (\<open>Crash\<close>). The
  Python layers give a count only without a source (\<open>buffer_apply_runs\<close>).
\<close>

definition buffer_apply ::
    "samples \<Rightarrow> int \<Rightarrow> samples option \<Rightarrow> flt \<Rightarrow> flt \<Rightarrow> int \<Rightarrow> int \<Rightarrow> pyexc + samples" where
  "buffer_apply dst start src preserve mix fade count =
     (if \<not> (int64 start \<and> int64 fade \<and> int64 count) then Inl TypeError
      else let n = (if 0 \<le> count then count
                    else case src of None \<Rightarrow> 0 | Some xs \<Rightarrow> int (length xs))
      in case apply_to_buffer dst start src n (to_f32 preserve) (to_f32 mix) fade of
           None \<Rightarrow> Inl Crash
         | Some dst' \<Rightarrow> Inr dst')"

section \<open>De-interleaving\<close>

definition extract_channel_into ::
    "nat \<Rightarrow> samples \<Rightarrow> int \<Rightarrow> int \<Rightarrow> int \<Rightarrow> int \<Rightarrow> samples" where
  "extract_channel_into ncopy data channels col s0 tot =
     map (\<lambda>i. let si = s0 + int i
              in if 0 \<le> si \<and> si < tot then data ! nat (si * channels + col) else Fin 0)
       [0..<ncopy]"

text \<open>\<open>_core._buffer_extract_channel(out, interleaved, channels, col, start, total)\<close>\<close>

definition buffer_extract_channel ::
    "samples \<Rightarrow> samples \<Rightarrow> int \<Rightarrow> int \<Rightarrow> int \<Rightarrow> int \<Rightarrow> pyexc + samples" where
  "buffer_extract_channel out data channels col start tot =
     (if \<not> (int64 start \<and> int64 tot) then Inl TypeError
      else let n = (if 0 \<le> tot then tot else int (length data) div channels)
      in Inr (extract_channel_into (length out) data channels col start n))"

section \<open>PCM conversion\<close>

text \<open>
  \<open>float_to_s16\<close>. A NaN passes both comparisons and \<open>std::lround\<close> of it is unspecified;
  the value here is the one x86-64 gives (the least \<open>long\<close>, clamped).
\<close>

definition float_to_s16 :: "flt \<Rightarrow> int" where
  "float_to_s16 x =
     (let v = (if flt_less x (Fin (- 1)) then Fin (- 1)
               else if flt_less (Fin 1) x then Fin 1 else x)
      in case fmul F32 v (Fin 32767) of
           Fin q \<Rightarrow> max (- 32768) (min 32767 (lround q))
         | _ \<Rightarrow> - 32768)"

definition s16_bytes :: "int \<Rightarrow> byte list" where
  "s16_bytes s =
     (let v = word_of_int s :: 16 word
      in [ucast (v AND 0xFF), ucast (drop_bit 8 v AND 0xFF)])"

definition pcm_encode_s16 :: "samples \<Rightarrow> byte list" where
  "pcm_encode_s16 src = concat (map (\<lambda>x. s16_bytes (float_to_s16 x)) src)"

text \<open>The sample at index \<open>i\<close> of a little-endian PCM byte string, per sample width.\<close>

definition pcm8_at :: "byte list \<Rightarrow> nat \<Rightarrow> flt" where
  "pcm8_at r i = fdiv F32 (fsub F32 (f32_of_int (uint (r ! i))) (Fin 128)) (Fin 128)"

definition pcm16_int :: "byte list \<Rightarrow> nat \<Rightarrow> int" where
  "pcm16_int r i =
     sint ((ucast (r ! (2 * i)) :: 16 word) OR push_bit 8 (ucast (r ! (2 * i + 1))))"

definition pcm16_at :: "byte list \<Rightarrow> nat \<Rightarrow> flt" where
  "pcm16_at r i = fdiv F32 (f32_of_int (pcm16_int r i)) (Fin 32768)"

definition pcm24_int :: "byte list \<Rightarrow> nat \<Rightarrow> int" where
  "pcm24_int r i =
     (let v = (ucast (r ! (3 * i)) :: 32 word) OR push_bit 8 (ucast (r ! (3 * i + 1)))
                OR push_bit 16 (ucast (r ! (3 * i + 2)))
      in if v AND 0x800000 \<noteq> 0 then sint v - 0x1000000 else sint v)"

definition pcm24_at :: "byte list \<Rightarrow> nat \<Rightarrow> flt" where
  "pcm24_at r i = fdiv F32 (f32_of_int (pcm24_int r i)) (Fin 8388608)"

definition pcm32_int :: "byte list \<Rightarrow> nat \<Rightarrow> int" where
  "pcm32_int r i =
     sint ((ucast (r ! (4 * i)) :: 32 word) OR push_bit 8 (ucast (r ! (4 * i + 1)))
             OR push_bit 16 (ucast (r ! (4 * i + 2))) OR push_bit 24 (ucast (r ! (4 * i + 3))))"

definition pcm32_at :: "byte list \<Rightarrow> nat \<Rightarrow> flt" where
  "pcm32_at r i = fdiv F32 (f32_of_int (pcm32_int r i)) (Fin 2147483648)"

text \<open>\<open>_core._pcm_decode(out, raw, width)\<close>: the first \<open>n\<close> samples of \<open>out\<close> are overwritten.\<close>

definition pcm_decode :: "samples \<Rightarrow> byte list \<Rightarrow> nat \<Rightarrow> samples" where
  "pcm_decode out raw width =
     (let n = min (length out) (length raw div width)
      in if width = 1 then for_upd (\<lambda>i _. pcm8_at raw i) 0 n out
         else if width = 2 then for_upd (\<lambda>i _. pcm16_at raw i) 0 n out
         else if width = 3 then for_upd (\<lambda>i _. pcm24_at raw i) 0 n out
         else if width = 4 then for_upd (\<lambda>i _. pcm32_at raw i) 0 n out
         else out)"

section \<open>Facts about the envelope and the blend\<close>

lemma f32_of_int_bounds:
  assumes "\<bar>n\<bar> \<le> 2 ^ 64"
  shows "\<exists>q. f32_of_int n = Fin q"
proof -
  have r: "representable F32 (of_int (2 ^ 64))"
    using rep_dyadic [of 1 F32 64] by (simp add: power_int_def)
  have "- of_int (2 ^ 64) \<le> (of_int n :: rat)"
    unfolding of_int_minus [symmetric] of_int_le_iff using assms by (rule abs_le_D2 [THEN minus_le_iff [THEN iffD1]])
  moreover have "(of_int n :: rat) \<le> of_int (2 ^ 64)"
    unfolding of_int_le_iff using assms by (rule abs_le_D1)
  ultimately show ?thesis
    unfolding f32_of_int_def using r rnd_Fin_bounds [of F32 "- of_int (2 ^ 64)" "of_int (2 ^ 64)" "of_int n"]
    unfolding rep_minus by blast
qed

lemma f32_of_int_small:
  assumes "\<bar>n\<bar> \<le> 2 ^ 24"
  shows "f32_of_int n = Fin (of_int n)"
  using rep_int [of n F32] assms by (simp add: f32_of_int_def representable_def)

lemma ratio_unit:
  assumes "0 \<le> a" "a \<le> b" "1 \<le> b" "b < 2 ^ 63"
  shows "\<exists>q. fdiv F32 (f32_of_int a) (f32_of_int b) = Fin q \<and> 0 \<le> q \<and> q \<le> 1"
proof -
  obtain x y where x: "f32_of_int a = Fin x" and y: "f32_of_int b = Fin y"
    using f32_of_int_bounds [of a] f32_of_int_bounds [of b] assms by auto
  have xq: "x = rnd_to (prec F32) (emin F32) (of_int a)"
    and yq: "y = rnd_to (prec F32) (emin F32) (of_int b)"
    using x y by (auto simp: f32_of_int_def rnd_def Let_def split: if_splits)
  have xy: "x \<le> y"
    unfolding xq yq using assms(2) by (intro ff.rnd_to_mono) simp
  have "rnd_to (prec F32) (emin F32) (of_int 0) \<le> x"
    unfolding xq using assms(1) by (intro ff.rnd_to_mono) simp
  then have x0: "0 \<le> x" by simp
  have "rnd_to (prec F32) (emin F32) (of_int 1) \<le> y"
    unfolding yq using assms(3) by (intro ff.rnd_to_mono) simp
  then have y1: "1 \<le> y"
    using ff.rnd_to_int [of F32 1] by simp
  have "representable F32 1"
    using rep_int [of 1 F32] by simp
  then have "\<exists>q. rnd F32 (x / y) = Fin q \<and> 0 \<le> q \<and> q \<le> 1"
    using x0 xy y1 by (intro rnd_Fin_bounds) simp_all
  then show ?thesis
    using x y y1 by simp
qed

lemma fade_env_unit:
  assumes "0 \<le> i" "i < n" "f < 2 ^ 63"
  shows "\<exists>q. fade_env_at i n f = Fin q \<and> 0 \<le> q \<and> q \<le> 1"
proof -
  have "\<exists>q. fdiv F32 (f32_of_int i) (f32_of_int f) = Fin q \<and> 0 \<le> q \<and> q \<le> 1"
    if "0 < f" "i < f"
    using that assms by (intro ratio_unit) simp_all
  moreover have "\<exists>q. fdiv F32 (f32_of_int (n - 1 - i)) (f32_of_int f) = Fin q \<and> 0 \<le> q \<and> q \<le> 1"
    if "0 < f" "n - f \<le> i"
    using that assms by (intro ratio_unit) simp_all
  ultimately show ?thesis
    by (auto simp: fade_env_at_def)
qed

lemma fdiv_zero_left:
  assumes "1 \<le> b" "b < 2 ^ 63"
  shows "fdiv F32 (f32_of_int 0) (f32_of_int b) = Fin 0"
proof -
  obtain y where y: "f32_of_int b = Fin y"
    using f32_of_int_bounds [of b] assms by auto
  have "f32_of_int 0 = Fin 0"
    by (simp add: f32_of_int_def)
  then show ?thesis
    using ratio_unit [of 0 b] assms y by (auto simp: inf_signed_def split: if_splits)
qed

lemma fade_env_edges:
  assumes "0 < f" "f < 2 ^ 63"
  shows "fade_env_at 0 n f = Fin 0" and "2 * f \<le> n \<Longrightarrow> fade_env_at (n - 1) n f = Fin 0"
  using fdiv_zero_left [of f] assms by (simp_all add: fade_env_at_def)

lemma fadd_zero_left: "is_flt F32 t \<Longrightarrow> fadd F32 (Fin 0) t = t"
  by (cases t) (simp_all add: is_flt_def representable_def)

lemma fadd_zero_right: "is_flt F32 t \<Longrightarrow> fadd F32 t (Fin 0) = t"
  by (cases t) (simp_all add: is_flt_def representable_def)

lemma fmul_one: "is_flt F32 t \<Longrightarrow> fmul F32 t (Fin 1) = t"
  by (cases t) (simp_all add: is_flt_def representable_def inf_signed_def)

lemma fmul_zero: "finite_flt d \<Longrightarrow> fmul f d (Fin 0) = Fin 0"
  by (cases d) simp_all

lemma fmul_zero_left: "finite_flt d \<Longrightarrow> fmul f (Fin 0) d = Fin 0"
  by (cases d) simp_all

lemma rnd_one [simp]: "rnd F32 1 = Fin 1"
  using rep_int [of 1 F32] by (simp add: representable_def)

text \<open>With the envelope at 1 the blend is the target; at 0 it is the old sample.\<close>

lemma blend_one:
  assumes "finite_flt d"
  shows "blend preserve mix (Fin 1) d sv = fadd F32 (fmul F32 d preserve) (fmul F32 sv mix)"
  using assms by (simp add: blend_def Let_def fmul_zero fmul_one fadd_zero_left)

lemma blend_zero:
  assumes "is_flt F32 d" "finite_flt (fadd F32 (fmul F32 d preserve) (fmul F32 sv mix))"
  shows "blend preserve mix (Fin 0) d sv = d"
  using assms by (simp add: blend_def Let_def fmul_zero fmul_one fadd_zero_right)

section \<open>What a blended write touches\<close>

text \<open>The buffer after a write that stays in bounds.\<close>

definition src_val :: "samples option \<Rightarrow> nat \<Rightarrow> flt" where
  "src_val src j = (case src of None \<Rightarrow> Fin 0 | Some xs \<Rightarrow> xs ! j)"

definition blended ::
    "samples \<Rightarrow> int \<Rightarrow> samples option \<Rightarrow> int \<Rightarrow> flt \<Rightarrow> flt \<Rightarrow> int \<Rightarrow> samples" where
  "blended buf start src nsrc preserve mix fade =
     (let off = nat (trim_off start);
          st = nat (max start 0);
          n = write_count (int (length buf)) start nsrc
      in if n \<le> 0 then buf
         else let f = min fade (n div 2)
         in if f \<le> 0 then
              (case src of
                 None \<Rightarrow>
                   if feq preserve (Fin 0) then for_upd (\<lambda>_ _. Fin 0) st (nat n) buf
                   else for_upd (\<lambda>_ d. fmul F32 d preserve) st (nat n) buf
               | Some xs \<Rightarrow>
                   for_upd (\<lambda>i d. fadd F32 (fmul F32 d preserve) (fmul F32 (xs ! (off + i)) mix))
                     st (nat n) buf)
            else
              for_upd (\<lambda>i d. blend preserve mix (fade_env_at (int i) n f) d (src_val src (off + i)))
                st (nat n) buf)"


lemma length_apply [simp, buffer_simps]:
  "length (blended buf start src nsrc preserve mix fade) = length buf"
  by (simp add: blended_def Let_def split: option.split)

lemma apply_outside [buffer_simps]:
  assumes "k < length buf"
    and "int k < max start 0 \<or> max start 0 + write_count (int (length buf)) start nsrc \<le> int k"
  shows "blended buf start src nsrc preserve mix fade ! k = buf ! k"
proof (cases "write_count (int (length buf)) start nsrc \<le> 0")
  case True
  then show ?thesis by (simp add: blended_def)
next
  case False
  then have "k < nat (max start 0) \<or>
      nat (max start 0) + nat (write_count (int (length buf)) start nsrc) \<le> k"
    using assms(2) by linarith
  note outside = for_upd_outside [OF assms(1) this]
  show ?thesis
    by (cases src) (simp_all add: blended_def Let_def outside)
qed

lemma write_window:
  assumes "0 < write_count bframes start nsrc"
  shows "max start 0 + write_count bframes start nsrc \<le> bframes"
    and "trim_off start + write_count bframes start nsrc \<le> nsrc"
    and "max start 0 - start = trim_off start"
  using assms by (auto simp: write_count_def trim_off_def)

text \<open>When the loop reads only frames the source has.\<close>

definition source_has :: "samples option \<Rightarrow> int \<Rightarrow> int \<Rightarrow> bool" where
  "source_has src off n \<longleftrightarrow> (\<forall>xs. src = Some xs \<longrightarrow> 0 < n \<longrightarrow> off + n \<le> int (length xs))"

lemma reads_all:
  assumes "0 < n" "0 \<le> off"
  shows "(\<forall>i < nat n. load xs (nat off + i) \<noteq> None) \<longleftrightarrow> off + n \<le> int (length xs)"
proof -
  have "(\<forall>i < nat n. load xs (nat off + i) \<noteq> None) \<longleftrightarrow> (\<forall>i < nat n. nat off + i < length xs)"
    by (auto simp: load_def)
  also have "\<dots> \<longleftrightarrow> nat off + (nat n - 1) < length xs"
    using assms(1) by (auto dest: spec [of _ "nat n - 1"])
  also have "\<dots> \<longleftrightarrow> off + n \<le> int (length xs)"
    using assms by linarith
  finally show ?thesis .
qed

lemma apply_to_buffer_eq:
  "apply_to_buffer buf start src nsrc preserve mix fade =
     (if source_has src (trim_off start) (write_count (int (length buf)) start nsrc)
      then Some (blended buf start src nsrc preserve mix fade) else None)"
proof (cases "0 < write_count (int (length buf)) start nsrc")
  case True
  let ?n = "write_count (int (length buf)) start nsrc" and ?off = "nat (trim_off start)" and ?st = "nat (max start 0)"
  have in_buf: "?st + nat ?n \<le> length buf"
    using write_window(1) [OF True] True by linarith
  have off: "0 \<le> trim_off start"
    by (simp add: trim_off_def)
  note reads = reads_all [OF True off]
  have h: "for_loop (\<lambda>i d. map_option (h i d) (load xs (?off + i))) ?st (nat ?n) buf =
      (if trim_off start + ?n \<le> int (length xs)
       then Some (for_upd (\<lambda>i d. h i d (xs ! (?off + i))) ?st (nat ?n) buf) else None)" for h xs
  proof (cases "trim_off start + ?n \<le> int (length xs)")
    case True
    then have "?off + i < length xs" if "i < nat ?n" for i
      using that off by (simp add: nat_less_iff flip: of_nat_less_iff)
    then have "the (load xs (?off + i)) = xs ! (?off + i)" if "i < nat ?n" for i
      using that by (simp add: load_def)
    then have "for_upd (\<lambda>i d. h i d (the (load xs (?off + i)))) ?st (nat ?n) buf
        = for_upd (\<lambda>i d. h i d (xs ! (?off + i))) ?st (nat ?n) buf"
      by (intro for_upd_cong) simp
    with True show ?thesis
      using for_loop_reads [OF in_buf, of h "\<lambda>i. load xs (?off + i)"] reads [of xs] by simp
  next
    case False
    then show ?thesis
      using for_loop_reads [OF in_buf, of h "\<lambda>i. load xs (?off + i)"] reads [of xs] by simp
  qed
  show ?thesis
    using True by (cases src) (simp_all add: apply_to_buffer_def blended_def Let_def source_has_def src_at_def src_val_def
        for_loop_total [OF in_buf] h)
qed (simp add: apply_to_buffer_def blended_def source_has_def)

text \<open>A source as long as it is said to be is never left.\<close>

lemma source_long_enough: "(\<forall>xs. src = Some xs \<longrightarrow> nsrc \<le> int (length xs)) \<Longrightarrow>
    source_has src (trim_off start) (write_count bframes start nsrc)"
  by (auto simp: source_has_def write_count_def)

lemma apply_runs [simp]:
  "apply_to_buffer buf start None nsrc preserve mix fade = Some (blended buf start None nsrc preserve mix fade)"
  "nsrc \<le> int (length xs) \<Longrightarrow>
     apply_to_buffer buf start (Some xs) nsrc preserve mix fade = Some (blended buf start (Some xs) nsrc preserve mix fade)"
  by (simp_all add: apply_to_buffer_eq source_long_enough)

text \<open>The calls of the Python layers: a source without a count, or a count without a source.\<close>

lemma buffer_apply_runs:
  assumes "src = None \<or> count < 0"
  shows "buffer_apply dst start src preserve mix fade count \<noteq> Inl Crash"
  using assms by (cases src) (auto simp: buffer_apply_def Let_def)

text \<open>C31. A blended write stays inside both arrays. Its loop leaves one of them exactly if the source is
  shorter than the frames it is told to read, and so never when the source is as long as the
  length it is given; it then keeps the length of the buffer and every frame outside the window
  \<open>[max start 0, max start 0 + n)\<close>, whatever the start, the length and the fade.\<close>

theorem apply_in_bounds:
  fixes buf :: samples
  defines "n start nsrc \<equiv> write_count (int (length buf)) start nsrc"
  shows "(apply_to_buffer buf start src nsrc preserve mix fade = None \<longleftrightarrow>
        (\<exists>xs. src = Some xs \<and> 0 < n start nsrc \<and> int (length xs) < trim_off start + n start nsrc))
    \<and> ((\<forall>xs. src = Some xs \<longrightarrow> nsrc \<le> int (length xs)) \<longrightarrow>
        apply_to_buffer buf start src nsrc preserve mix fade \<noteq> None)
    \<and> (\<forall>buf'. apply_to_buffer buf start src nsrc preserve mix fade = Some buf' \<longrightarrow>
        length buf' = length buf
        \<and> (\<forall>k < length buf. int k < max start 0 \<or> max start 0 + n start nsrc \<le> int k \<longrightarrow> buf' ! k = buf ! k))"
  unfolding n_def apply_to_buffer_eq
  using source_long_enough [of src nsrc start] by (auto simp: source_has_def intro: apply_outside)

theorem apply_in_bounds_witness:
  "\<exists>d. apply_to_buffer [Fin 1, Fin 2, Fin 3] (- 1) (Some [Fin 7, Fin 8]) 2 (Fin 0) (Fin 1) 0 = Some d
     \<and> length d = 3 \<and> d ! 2 = Fin 3
     \<and> apply_to_buffer [Fin 1, Fin 2, Fin 3] (- 1) (Some [Fin 7, Fin 8]) 3 (Fin 0) (Fin 1) 0 = None"
  using apply_in_bounds [of "[Fin 1, Fin 2, Fin 3]" "- 1" "Some [Fin 7, Fin 8]" 2 "Fin 0" "Fin 1" 0]
    apply_in_bounds [of "[Fin 1, Fin 2, Fin 3]" "- 1" "Some [Fin 7, Fin 8]" 3 "Fin 0" "Fin 1" 0]
  by (auto simp: write_count_def trim_off_def)

text \<open>The unfaded write, pointwise, for a start inside the buffer.\<close>

lemma apply_src_nth:
  assumes "fade \<le> 0" "0 \<le> start" "k < length buf" "start \<le> int k" "int k < start + nsrc"
  shows "blended buf start (Some xs) nsrc preserve mix fade ! k =
         fadd F32 (fmul F32 (buf ! k) preserve) (fmul F32 (xs ! (k - nat start)) mix)"
proof -
  let ?n = "write_count (int (length buf)) start nsrc"
  have n: "0 < ?n" "int k < start + ?n"
    using assms by (auto simp: write_count_def trim_off_def)
  then have "nat start \<le> k" "k < nat start + nat ?n"
    using assms by linarith+
  then show ?thesis
    using assms n by (simp add: blended_def Let_def min_def for_upd_inside trim_off_def)
qed

lemma apply_silent_nth:
  assumes "fade \<le> 0" "0 \<le> start" "k < length buf" "start \<le> int k" "int k < start + nsrc"
  shows "blended buf start None nsrc preserve mix fade ! k =
         (if feq preserve (Fin 0) then Fin 0 else fmul F32 (buf ! k) preserve)"
proof -
  let ?n = "write_count (int (length buf)) start nsrc"
  have n: "0 < ?n" "int k < start + ?n"
    using assms by (auto simp: write_count_def trim_off_def)
  then have "nat start \<le> k" "k < nat start + nat ?n"
    using assms by linarith+
  then show ?thesis
    using assms n by (simp add: blended_def Let_def min_def for_upd_inside trim_off_def)
qed

section \<open>The optimised loop and the reference blend\<close>

text \<open>
  The specification of the primitive: the one formula of the comment in \<open>buffer_ops.hpp\<close>,
  \<open>dst = dst*(1-env) + (dst*preserve + src*mix)*env\<close>, at every frame of the window.
\<close>

definition apply_reference ::
    "samples \<Rightarrow> int \<Rightarrow> samples option \<Rightarrow> int \<Rightarrow> flt \<Rightarrow> flt \<Rightarrow> int \<Rightarrow> samples" where
  "apply_reference buf start src nsrc preserve mix fade =
     (let n = write_count (int (length buf)) start nsrc
      in for_upd (\<lambda>i d. blend preserve mix (fade_env_at (int i) n (min fade (n div 2))) d
                        (src_val src (nat (trim_off start) + i)))
           (nat (max start 0)) (nat n) buf)"

lemma target_silent:
  assumes "finite_flt mix"
  shows "fadd F32 (fmul F32 d preserve) (fmul F32 (Fin 0) mix) = fmul F32 d preserve"
  using assms by (simp add: fmul_zero_left fadd_zero_right)

text \<open>The write that skips the envelope when there is no fade (and fills with zeros when
  there is neither source nor preserve) computes exactly the faded formula with the envelope
  at 1: on a buffer of finite samples, the optimised primitive equals the reference blend.\<close>

theorem apply_matches_reference:
  assumes fin: "\<forall>d \<in> set buf. finite_flt d" and mix: "src = None \<longrightarrow> finite_flt mix"
  shows "blended buf start src nsrc preserve mix fade =
         apply_reference buf start src nsrc preserve mix fade"
proof -
  let ?n = "write_count (int (length buf)) start nsrc"
  let ?st = "nat (max start 0)" and ?off = "nat (trim_off start)"
  have d: "finite_flt (buf ! k)" if "k < length buf" for k
    using that fin by simp
  show ?thesis
  proof (cases "0 < ?n \<and> min fade (?n div 2) \<le> 0")
    case False
    then show ?thesis
      by (auto simp: blended_def apply_reference_def Let_def)
  next
    case True
    then have env: "fade_env_at i ?n (min fade (?n div 2)) = Fin 1" for i
      by (simp add: fade_env_at_def)
    show ?thesis
    proof (cases src)
      case None
      have "for_upd (\<lambda>_ d. fmul F32 d preserve) ?st (nat ?n) buf =
            for_upd (\<lambda>i d. blend preserve mix (Fin 1) d (src_val None (?off + i))) ?st (nat ?n) buf"
        using mix None by (intro for_upd_cong) (simp add: blend_one d src_val_def target_silent)
      moreover have "for_upd (\<lambda>_ _. Fin 0) ?st (nat ?n) buf =
            for_upd (\<lambda>_ d. fmul F32 d preserve) ?st (nat ?n) buf" if "feq preserve (Fin 0)"
        using that by (intro for_upd_cong) (simp add: feq_def fmul_zero d)
      ultimately show ?thesis
        using True None by (simp add: blended_def apply_reference_def Let_def env)
    next
      case (Some xs)
      have "for_upd (\<lambda>i d. fadd F32 (fmul F32 d preserve) (fmul F32 (xs ! (?off + i)) mix)) ?st (nat ?n) buf =
            for_upd (\<lambda>i d. blend preserve mix (Fin 1) d (src_val src (?off + i))) ?st (nat ?n) buf"
        using Some by (intro for_upd_cong) (simp add: blend_one d src_val_def)
      then show ?thesis
        using True Some by (simp add: blended_def apply_reference_def Let_def env)
    qed
  qed
qed

theorem apply_matches_reference_witness:
  "blended [Fin 1, Fin 2] 0 None 2 (Fin (1 / 2)) (Fin 0) 0 =
   apply_reference [Fin 1, Fin 2] 0 None 2 (Fin (1 / 2)) (Fin 0) 0"
  by (rule apply_matches_reference) simp_all

section \<open>The edges of a fade\<close>

text \<open>A write with an edge fade (at least one faded frame) leaves the first and the last
  frame of its window exactly as they were: the crossfade starts from, and returns to, the
  surrounding audio. The samples there are binary32 values and the blend target is finite.\<close>

theorem fade_keeps_edges:
  fixes buf :: samples and start nsrc fade :: int
  defines "n \<equiv> write_count (int (length buf)) start nsrc"
    and "st \<equiv> nat (max start 0)" and "off \<equiv> nat (trim_off start)"
  assumes f: "0 < min fade (n div 2)" "fade < 2 ^ 63"
    and flt: "\<forall>d \<in> set buf. is_flt F32 d"
    and fin: "\<forall>i < nat n. finite_flt (fadd F32 (fmul F32 (buf ! (st + i)) preserve)
                                     (fmul F32 (src_val src (off + i)) mix))"
  shows "blended buf start src nsrc preserve mix fade ! st = buf ! st
    \<and> blended buf start src nsrc preserve mix fade ! (st + nat n - 1) =
        buf ! (st + nat n - 1)"
proof -
  define k where "k = min fade (n div 2)"
  have k: "0 < k" "k < 2 ^ 63" "2 * k \<le> n"
    using f by (auto simp: k_def)
  then have n: "2 \<le> n" by simp
  then have len: "st + nat n \<le> length buf"
    using write_window(1) [of "int (length buf)" start nsrc] unfolding n_def st_def by linarith
  have eq: "blended buf start src nsrc preserve mix fade =
      for_upd (\<lambda>i d. blend preserve mix (fade_env_at (int i) n k) d (src_val src (off + i))) st (nat n) buf"
    using n k unfolding n_def [symmetric] k_def [symmetric]
    by (simp add: blended_def Let_def flip: n_def k_def st_def off_def)
  have mem: "is_flt F32 (buf ! j)" if "j < length buf" for j
    using that flt by simp
  show ?thesis
  proof (rule conjI)
    show "blended buf start src nsrc preserve mix fade ! st = buf ! st"
      using n len fin [rule_format, of 0] k(1,2)
      unfolding eq by (subst for_upd_inside) (simp_all add: fade_env_edges blend_zero mem)
    have "int (nat n - 1) = n - 1"
      using n by simp
    then show "blended buf start src nsrc preserve mix fade ! (st + nat n - 1) =
        buf ! (st + nat n - 1)"
      using n len fin [rule_format, of "nat n - 1"] k
      unfolding eq by (subst for_upd_inside) (simp_all add: fade_env_edges blend_zero mem)
  qed
qed

section \<open>PCM samples: the integers behind the bytes\<close>

text \<open>The little-endian integer a byte string denotes.\<close>

fun le_int :: "byte list \<Rightarrow> int" where
  "le_int [] = 0"
| "le_int (b # bs) = uint b + 256 * le_int bs"

lemma le_int_Cons_or: "le_int (b # bs) = uint b OR push_bit 8 (le_int bs)"
proof -
  have "\<not> bit (uint b) k" if "8 \<le> k" for k
    using that by (simp add: bit_uint_iff)
  then have "uint b + push_bit 8 (le_int bs) = uint b OR push_bit 8 (le_int bs)"
    by (intro disjunctive_add) (auto simp: bit_push_bit_iff)
  then show ?thesis by (simp add: push_bit_eq_mult mult.commute)
qed

lemma take_drop_nths:
  "i + n \<le> length r \<Longrightarrow> take n (drop i r) = map (\<lambda>j. r ! j) [i..<i + n]"
  by (rule nth_equalityI) simp_all

lemma pcm16_value:
  assumes "2 * i + 2 \<le> length r"
  shows "pcm16_int r i = signed_take_bit 15 (le_int (take 2 (drop (2 * i) r)))"
  using assms by (simp only: take_drop_nths)
    (simp add: pcm16_int_def le_int_Cons_or sint_uint unsigned_or_eq unsigned_push_bit_eq
      unsigned_ucast_eq upt_rec [of _ "2 * i + 2"] signed_take_bit_take_bit del: le_int.simps(2),
     rule bit_eqI, auto simp: bit_simps)

lemma bit23: "(w :: 32 word) AND 0x800000 \<noteq> 0 \<longleftrightarrow> bit w 23"
proof -
  have "(0x800000 :: 32 word) = 2 ^ 23" by simp
  then show ?thesis by (simp only: and_exp_eq_0_iff_not_bit) simp
qed

lemma pcm24_value:
  assumes "3 * i + 3 \<le> length r"
  shows "pcm24_int r i = signed_take_bit 23 (le_int (take 3 (drop (3 * i) r)))"
proof -
  let ?a = "r ! (3 * i)" and ?b = "r ! (3 * i + 1)" and ?c = "r ! (3 * i + 2)"
  define w where "w = (ucast ?a :: 32 word) OR push_bit 8 (ucast ?b) OR push_bit 16 (ucast ?c)"
  define n where "n = le_int [?a, ?b, ?c]"
  have t: "take 3 (drop (3 * i) r) = [?a, ?b, ?c]"
    using assms by (simp only: take_drop_nths) (simp add: upt_rec [of _ "3 * i + 3"])
  have n: "0 \<le> n" "n < 2 ^ 24"
    using uint_lt2p [of ?a] uint_lt2p [of ?b] uint_lt2p [of ?c] by (simp_all add: n_def)
  have s: "sint w = n"
  proof -
    have "sint w = signed_take_bit 31 n"
      unfolding w_def n_def
      by (simp add: le_int_Cons_or sint_uint unsigned_or_eq unsigned_push_bit_eq
          unsigned_ucast_eq signed_take_bit_take_bit del: le_int.simps(2),
        rule bit_eqI, auto simp: bit_simps)
    then show ?thesis
      using n by (simp add: signed_take_bit_int_eq_self)
  qed
  have b: "bit w 23 \<longleftrightarrow> 2 ^ 23 \<le> n"
  proof -
    have "bit w 23 \<longleftrightarrow> bit n 23"
      unfolding s [symmetric] by (simp add: bit_simps)
    also have "\<dots> \<longleftrightarrow> odd (n div 8388608)"
      by (simp add: bit_iff_odd)
    also have "n div 8388608 = (if 2 ^ 23 \<le> n then 1 else 0)"
      using n by (simp add: div_pos_geq div_pos_pos_trivial)
    finally show ?thesis by simp
  qed
  show ?thesis
    unfolding t pcm24_int_def Let_def bit23 w_def [symmetric] n_def [symmetric]
    using n by (auto simp: b s signed_take_bit_int_eq_self signed_take_bit_eq_take_bit_shift
        take_bit_eq_mod mod_pos_geq)
qed

lemma pcm32_value:
  assumes "4 * i + 4 \<le> length r"
  shows "pcm32_int r i = signed_take_bit 31 (le_int (take 4 (drop (4 * i) r)))"
proof -
  let ?a = "r ! (4 * i)" and ?b = "r ! (4 * i + 1)" and ?c = "r ! (4 * i + 2)" and ?d = "r ! (4 * i + 3)"
  have t: "take 4 (drop (4 * i) r) = [?a, ?b, ?c, ?d]"
    using assms by (simp only: take_drop_nths) (simp add: upt_rec [of _ "4 * i + 4"] numeral_3_eq_3)
  have "sint ((ucast a :: 32 word) OR push_bit 8 (ucast b) OR push_bit 16 (ucast c)
           OR push_bit 24 (ucast d)) = signed_take_bit 31 (le_int [a, b, c, d])" for a b c d :: byte
    by (simp add: le_int_Cons_or sint_uint unsigned_or_eq unsigned_push_bit_eq
        unsigned_ucast_eq signed_take_bit_take_bit del: le_int.simps(2),
      rule bit_eqI, auto simp: bit_simps)
  then show ?thesis by (simp only: t pcm32_int_def)
qed

lemma byte_mask: "(255 :: 16 word) = mask 8"
  by (simp add: mask_eq_exp_minus_1)
lemma s16_bytes_value:
  "sint ((ucast (s16_bytes s ! 0) :: 16 word) OR push_bit 8 (ucast (s16_bytes s ! 1))) =
   signed_take_bit 15 s"
proof -
  have "ucast (s16_bytes s ! 0) OR push_bit 8 (ucast (s16_bytes s ! 1)) = (word_of_int s :: 16 word)"
    unfolding s16_bytes_def Let_def byte_mask by (rule bit_word_eqI) (auto simp: bit_simps)
  then show ?thesis by (simp only:) (simp add: signed_of_int)
qed

lemma float_to_s16_range: "- 32768 \<le> float_to_s16 x \<and> float_to_s16 x \<le> 32767"
  by (simp add: float_to_s16_def Let_def split: flt.split)

lemma length_s16_bytes [simp]: "length (s16_bytes s) = 2"
  by (simp add: s16_bytes_def Let_def)

lemma length_pcm_encode [simp]: "length (pcm_encode_s16 xs) = 2 * length xs"
  unfolding pcm_encode_s16_def by (rule length_concat_map) simp

lemma pcm16_int_encode:
  assumes "i < length xs"
  shows "pcm16_int (pcm_encode_s16 xs) i = float_to_s16 (xs ! i)"
proof -
  let ?f = "\<lambda>x. s16_bytes (float_to_s16 x)"
  have "pcm_encode_s16 xs ! (2 * i + j) = ?f (xs ! i) ! j" if "j < 2" for j
    unfolding pcm_encode_s16_def using assms that by (intro nth_concat_map) simp_all
  from this [of 0] this [of 1]
  have "pcm16_int (pcm_encode_s16 xs) i = signed_take_bit 15 (float_to_s16 (xs ! i))"
    by (simp add: pcm16_int_def s16_bytes_value [unfolded One_nat_def])
  then show ?thesis
    using float_to_s16_range [of "xs ! i"] by (simp add: signed_take_bit_int_eq_self)
qed

text \<open>The 16-bit encoder and decoder agree on the byte layout: reading back the bytes
  written for a buffer gives, sample by sample, exactly the integers it was quantised to.\<close>

theorem pcm16_bytes_roundtrip:
  assumes "i < length xs"
  shows "pcm16_int (pcm_encode_s16 xs) i = float_to_s16 (xs ! i)"
  using assms by (rule pcm16_int_encode)

section \<open>PCM samples: accuracy\<close>

lemma rep_s16:
  assumes "\<bar>v\<bar> \<le> 2 ^ 24" "-149 \<le> e" "e \<le> 0"
  shows "representable F32 (of_int v * pow2 e)"
  using assms by (intro rep_dyadic) simp_all

lemma s16_decoded:
  assumes "- 32768 \<le> v" "v \<le> 32767"
  shows "fdiv F32 (f32_of_int v) (Fin 32768) = Fin (of_int v / 32768)"
proof -
  have "f32_of_int v = Fin (of_int v)"
    using assms by (intro f32_of_int_small) simp
  moreover have "representable F32 (of_int v * pow2 (- 15))"
    using assms by (intro rep_s16) simp_all
  then have "representable F32 (of_int v / 32768)"
    by (simp add: power_int_minus field_simps)
  ultimately show ?thesis
    by (simp add: representable_def)
qed

text \<open>The product \<open>v * 32767.0f\<close> of a sample in [-1, 1] and its rounding.\<close>

lemma s16_product:
  assumes "- 1 \<le> q" "q \<le> 1"
  shows "\<exists>y. fmul F32 (Fin q) (Fin 32767) = Fin y \<and> \<bar>y - q * 32767\<bar> \<le> 1 / 1024
           \<and> float_to_s16 (Fin q) = lround y"
proof -
  have "\<bar>q * 32767\<bar> < pow2 15"
    using assms by (simp add: abs_mult)
  then obtain y where y: "rnd F32 (q * 32767) = Fin y" "\<bar>y - q * 32767\<bar> \<le> pow2 (15 - int (prec F32)) / 2"
    using rnd_abs_error [of "q * 32767" 15 F32] by auto
  have e: "pow2 (15 - int (prec F32)) / 2 = 1 / 1024"
    by (simp add: power_int_minus)
  have "representable F32 32767" "representable F32 (- 32767)"
    using rep_int [of 32767 F32] by (simp_all add: rep_minus)
  then have "- 32767 \<le> y" "y \<le> 32767"
    using rnd_Fin_bounds [of F32 "- 32767" 32767 "q * 32767"] assms y(1) by auto
  then have "- 32767 \<le> lround y" "lround y \<le> 32767"
    by (simp_all add: lround_le lround_ge)
  then have "float_to_s16 (Fin q) = lround y"
    using assms y(1) by (simp add: float_to_s16_def Let_def)
  with y e show ?thesis by auto
qed

text \<open>Loading a 16-bit sample and saving it again returns the same sample up to half of
  full scale and is never off by more than one unit: reading divides by 32768 while writing
  multiplies by 32767, so louder samples may lose their last unit (20000 becomes 19999).\<close>

theorem pcm16_reencode:
  assumes "- 32768 \<le> v" "v \<le> 32767"
  shows "\<bar>float_to_s16 (fdiv F32 (f32_of_int v) (Fin 32768)) - v\<bar> \<le> 1
    \<and> (\<bar>v\<bar> \<le> 16384 \<longrightarrow> float_to_s16 (fdiv F32 (f32_of_int v) (Fin 32768)) = v)"
proof -
  let ?q = "of_int v / 32768 :: rat" and ?v = "of_int v :: rat"
  have v: "- 32768 \<le> ?v" "?v \<le> 32767"
    using assms by linarith+
  obtain y where y: "rnd F32 (?q * 32767) = Fin y" "\<bar>y - ?q * 32767\<bar> \<le> 1 / 1024"
    and s: "float_to_s16 (Fin ?q) = lround y"
    using s16_product [of ?q] v by auto
  have "\<bar>of_int (lround y) - ?v\<bar> < 2"
    using lround_error [of y] y(2) v by linarith
  then have "\<bar>lround y - v\<bar> < 2"
    by (metis of_int_abs of_int_diff of_int_less_iff of_int_numeral)
  moreover have "lround y = v" if small: "\<bar>v\<bar> \<le> 16384"
  proof -
    have half: "representable F32 (of_int (2 * v + d) / 2)" if "\<bar>d\<bar> \<le> 1" for d
      using rep_s16 [of "2 * v + d" "- 1"] small that by (simp add: power_int_minus field_simps)
    show ?thesis
    proof (cases "0 \<le> v")
      case True
      then have "\<exists>y. rnd F32 (?q * 32767) = Fin y \<and> of_int (2 * v + -1) / 2 \<le> y \<and> y \<le> of_int (2 * v + 0) / 2"
        using small by (intro rnd_Fin_bounds half) (simp_all add: field_simps)
      then have "?v - 1 / 2 \<le> y" "y \<le> ?v"
        using y(1) by (auto simp: field_simps)
      then have "lround (?v - 1 / 2) \<le> lround y" "lround y \<le> v"
        by (simp_all add: lround_mono lround_le)
      moreover have "lround (?v - 1 / 2) = v" if "v \<noteq> 0"
        using True that by (simp add: lround_def)
      moreover have "lround y = 0" if "v = 0"
        using that y by simp
      ultimately show ?thesis
        by (cases "v = 0") simp_all
    next
      case False
      then have "\<exists>y. rnd F32 (?q * 32767) = Fin y \<and> of_int (2 * v + 0) / 2 \<le> y \<and> y \<le> of_int (2 * v + 1) / 2"
        using small by (intro rnd_Fin_bounds half) (simp_all add: field_simps)
      then have "?v \<le> y" "y \<le> ?v + 1 / 2"
        using y(1) by (auto simp: field_simps)
      then have "v \<le> lround y" "lround y \<le> lround (?v + 1 / 2)"
        by (simp_all add: lround_mono lround_ge)
      moreover have "lround (?v + 1 / 2) = v"
        using False by (simp add: lround_def)
      ultimately show ?thesis by simp
    qed
  qed
  ultimately show ?thesis
    using s assms by (auto simp: s16_decoded)
qed

theorem pcm16_reencode_witness:
  "\<bar>float_to_s16 (fdiv F32 (f32_of_int 20000) (Fin 32768)) - 20000\<bar> \<le> 1
   \<and> float_to_s16 (fdiv F32 (f32_of_int 20000) (Fin 32768)) = 19999
   \<and> float_to_s16 (fdiv F32 (f32_of_int (- 16384)) (Fin 32768)) = - 16384"
proof -
  have "float_to_s16 (fdiv F32 (f32_of_int 20000) (Fin 32768)) = 19999"
    by code_simp
  then show ?thesis
    using pcm16_reencode [of 20000] pcm16_reencode [of "- 16384"] by simp
qed

lemma pcm16_sample_value:
  assumes "2 * i + 2 \<le> length r"
  shows "pcm16_at r i = Fin (of_int (pcm16_int r i) / 32768)"
proof -
  have "- (2 ^ 15) \<le> pcm16_int r i" "pcm16_int r i < 2 ^ 15"
    by (simp_all only: pcm16_value [OF assms] signed_take_bit_int_greater_eq_minus_exp
        signed_take_bit_int_less_exp)
  then show ?thesis
    unfolding pcm16_at_def by (intro s16_decoded) simp_all
qed

lemma pcm16_sample_accuracy:
  assumes "i < length xs" "xs ! i = Fin q" "- 1 \<le> q" "q \<le> 1"
  shows "\<exists>p. pcm16_at (pcm_encode_s16 xs) i = Fin p \<and> \<bar>p - q\<bar> < 1 / 2 ^ 14"
proof -
  obtain y where y: "\<bar>y - q * 32767\<bar> \<le> 1 / 1024" "float_to_s16 (xs ! i) = lround y"
    using s16_product [OF assms(3,4)] assms(2) by auto
  have "pcm16_at (pcm_encode_s16 xs) i = Fin (of_int (lround y) / 32768)"
    using assms(1) y(2) by (subst pcm16_sample_value) (simp_all add: pcm16_int_encode)
  moreover have "\<bar>of_int (lround y) / 32768 - q\<bar> < 1 / 2 ^ 14"
  proof -
    have "\<bar>of_int (lround y) / 32768 - q\<bar> < 1 / 16384"
      using lround_error [of y] y(1) assms(3,4) by linarith
    then show ?thesis by simp
  qed
  ultimately show ?thesis by blast
qed

text \<open>A sample in [-1, 1] that goes to a 16-bit file and back differs from the original
  by less than 2^-14.\<close>

theorem pcm16_store_accuracy:
  assumes "i < length xs" "xs ! i = Fin q" "- 1 \<le> q" "q \<le> 1"
  shows "\<exists>p. pcm16_at (pcm_encode_s16 xs) i = Fin p \<and> \<bar>p - q\<bar> < 1 / 2 ^ 14"
  using assms by (rule pcm16_sample_accuracy)


section \<open>Decoding\<close>

text \<open>The value a sample of each width must denote: the two's complement (8-bit: offset)
  integer, divided by its full scale.\<close>

definition pcm_value :: "nat \<Rightarrow> byte list \<Rightarrow> nat \<Rightarrow> rat" where
  "pcm_value w r i =
     (let k = le_int (take w (drop (w * i) r))
      in if w = 1 then (of_int k - 128) / 128
         else of_int (signed_take_bit (8 * w - 1) k) / 2 ^ (8 * w - 1))"

lemma le_int_one: "i < length r \<Longrightarrow> le_int (take 1 (drop i r)) = uint (r ! i)"
  using take_drop_nths [of i 1 r] by simp

lemma signed_take_bit_range:
  "- (2 ^ n) \<le> signed_take_bit n (k :: int)" "signed_take_bit n (k :: int) < 2 ^ n"
  by (simp_all add: signed_take_bit_int_greater_eq_minus_exp signed_take_bit_int_less_exp)

lemma byte_range: "0 \<le> uint (b :: byte)" "uint (b :: byte) < 256"
  using uint_lt2p [of b] by simp_all

lemma pcm_value_range:
  assumes "w \<in> {1, 2, 3, 4}" "w * i + w \<le> length r"
  shows "- 1 \<le> pcm_value w r i \<and> pcm_value w r i < 1"
proof (cases "w = 1")
  case True
  define u where "u = le_int (take 1 (drop i r))"
  have "u = uint (r ! i)"
    using True assms(2) unfolding u_def by (intro le_int_one) simp
  then have "0 \<le> u" "u < 256"
    using byte_range [of "r ! i"] by simp_all
  then have "0 \<le> (of_int u :: rat)" "(of_int u :: rat) < 256"
    by simp_all
  moreover have "pcm_value w r i = (of_int u - 128) / 128"
    using True by (simp add: pcm_value_def u_def)
  ultimately show ?thesis by simp
next
  case False
  let ?n = "8 * w - 1" and ?k = "signed_take_bit (8 * w - 1) (le_int (take w (drop (w * i) r)))"
  have "of_int (- (2 ^ ?n)) \<le> (of_int ?k :: rat)" "(of_int ?k :: rat) < of_int (2 ^ ?n)"
    unfolding of_int_le_iff of_int_less_iff by (rule signed_take_bit_range)+
  then show ?thesis
    using False by (simp add: pcm_value_def Let_def field_simps)
qed

lemma pcm8_sample:
  assumes "i < length r"
  shows "pcm8_at r i = rnd F32 (pcm_value 1 r i)"
proof -
  define u where "u = le_int (take 1 (drop i r))"
  have ur: "u = uint (r ! i)"
    using assms by (simp only: u_def le_int_one)
  then have u: "0 \<le> u" "u < 256"
    using byte_range [of "r ! i"] by simp_all
  then have "f32_of_int u = Fin (of_int u)"
    by (intro f32_of_int_small) simp
  moreover have "rnd F32 (of_int (u - 128)) = Fin (of_int (u - 128))"
    using u by (intro rnd_rep rep_int) simp
  ultimately have "fdiv F32 (fsub F32 (f32_of_int u) (Fin 128)) (Fin 128) = rnd F32 ((of_int u - 128) / 128)"
    by simp
  moreover have "pcm_value 1 r i = (of_int u - 128) / 128"
    by (simp add: pcm_value_def u_def)
  ultimately show ?thesis
    by (simp only: pcm8_at_def ur)
qed

lemma pcm16_sample:
  assumes "2 * i + 2 \<le> length r"
  shows "pcm16_at r i = rnd F32 (pcm_value 2 r i)"
proof -
  define v where "v = signed_take_bit 15 (le_int (take 2 (drop (2 * i) r)))"
  have "\<bar>v\<bar> \<le> 2 ^ 24"
    using signed_take_bit_range [of 15 "le_int (take 2 (drop (2 * i) r))"] unfolding v_def by simp
  then show ?thesis
    using assms by (simp add: pcm16_at_def pcm16_value f32_of_int_small pcm_value_def v_def)
qed

lemma pcm24_sample:
  assumes "3 * i + 3 \<le> length r"
  shows "pcm24_at r i = rnd F32 (pcm_value 3 r i)"
proof -
  define v where "v = signed_take_bit 23 (le_int (take 3 (drop (3 * i) r)))"
  have "- 8388608 \<le> v" "v < 8388608"
    using signed_take_bit_range [of 23 "le_int (take 3 (drop (3 * i) r))"] by (simp_all add: v_def)
  then have "\<bar>v\<bar> \<le> 2 ^ 24" by simp
  then show ?thesis
    using assms by (simp add: pcm24_at_def pcm24_value f32_of_int_small pcm_value_def v_def)
qed

lemma rnd_scale_int:
  assumes "f32_of_int v = Fin q" "\<bar>v\<bar> \<le> 2 ^ 31"
  shows "rnd F32 (q / 2147483648) = rnd F32 (of_int v / 2147483648)"
proof -
  have q: "q = rnd_to 24 (- 149) (of_int v)"
    using assms(1) by (auto simp: f32_of_int_def rnd_def Let_def split: if_splits)
  have "0 \<le> ilog \<bar>of_int v\<bar>" if "v \<noteq> 0"
  proof -
    have "ilog 1 \<le> ilog \<bar>of_int v\<bar>"
      using that by (intro ilog_mono) (simp_all flip: of_int_abs)
    then show ?thesis using ilog_pow2 [of 0] by simp
  qed
  then have "rnd_to 24 (- 149) (of_int v * pow2 (- 31)) = q * pow2 (- 31)"
    unfolding q using ff.rnd_to_scale [of F32 "of_int v" "- 31"] by (cases "v = 0") simp_all
  then have eq: "rnd_to 24 (- 149) (of_int v / 2147483648) = q / 2147483648"
    by (simp add: power_int_minus field_simps)
  have "rnd_to 24 (- 149) (q / 2147483648) = q / 2147483648"
    using ff.rnd_to_idem [of F32 "of_int v / 2147483648"] unfolding prec.simps emin.simps eq .
  then show ?thesis
    by (simp only: rnd_def prec.simps emin.simps eq)
qed

lemma pcm32_sample:
  assumes "4 * i + 4 \<le> length r"
  shows "pcm32_at r i = rnd F32 (pcm_value 4 r i)"
proof -
  define v where "v = signed_take_bit 31 (le_int (take 4 (drop (4 * i) r)))"
  have "- 2147483648 \<le> v" "v < 2147483648"
    using signed_take_bit_range [of 31 "le_int (take 4 (drop (4 * i) r))"] by (simp_all add: v_def)
  then have v: "\<bar>v\<bar> \<le> 2 ^ 31" "\<bar>v\<bar> \<le> 2 ^ 64"
    by simp_all
  obtain q where q: "f32_of_int v = Fin q"
    using f32_of_int_bounds [OF v(2)] by blast
  have "pcm32_at r i = fdiv F32 (f32_of_int v) (Fin 2147483648)"
    using assms by (simp add: pcm32_at_def pcm32_value v_def)
  also have "\<dots> = rnd F32 (of_int v / 2147483648)"
    using rnd_scale_int [OF q v(1)] by (simp add: q)
  finally show ?thesis
    by (simp add: pcm_value_def v_def)
qed

text \<open>The decoder reads every sample of every supported width as its little-endian
  two's complement (8-bit: unsigned, offset 128) value over full scale, rounded once to
  binary32, so every decoded sample is a finite number in [-1, 1].\<close>

theorem pcm_decode_value:
  assumes w: "w \<in> {1, 2, 3, 4}" and i: "i < length out" "i < length raw div w"
  shows "pcm_decode out raw w ! i = rnd F32 (pcm_value w raw i)
    \<and> (\<exists>q. pcm_decode out raw w ! i = Fin q \<and> - 1 \<le> q \<and> q \<le> 1)"
proof -
  have "0 < w"
    using w by auto
  have "Suc i \<le> length raw div w"
    using i(2) by simp
  then have "Suc i * w \<le> length raw"
    using \<open>0 < w\<close> by (simp only: less_eq_div_iff_mult_less_eq)
  then have len: "w * i + w \<le> length raw"
    by (simp add: algebra_simps)
  have eq: "pcm_decode out raw w ! i = rnd F32 (pcm_value w raw i)"
    using w i len
    by (auto simp: pcm_decode_def for_upd_inside pcm8_sample [unfolded One_nat_def] pcm16_sample
        pcm24_sample pcm32_sample)
  have "representable F32 (- 1)" "representable F32 1"
    using rep_int [of 1 F32] by (simp_all add: rep_minus)
  then have "\<exists>q. rnd F32 (pcm_value w raw i) = Fin q \<and> - 1 \<le> q \<and> q \<le> 1"
    using pcm_value_range [OF w len] by (intro rnd_Fin_bounds) simp_all
  with eq show ?thesis by simp
qed

theorem pcm_decode_value_witness:
  "pcm_decode [Fin 0, Fin 0] [0, 0, 128, 0, 0, 64] 3 ! 1 = Fin (1 / 2)"
proof -
  have "pcm_decode [Fin 0, Fin 0] [0, 0, 128, 0, 0, 64] 3 ! 1 = rnd F32 (pcm_value 3 [0, 0, 128, 0, 0, 64] 1)"
    using pcm_decode_value [of 3 1 "[Fin 0, Fin 0]" "[0, 0, 128, 0, 0, 64]"] by simp
  also have "pcm_value 3 [0, 0, 128, 0, 0, 64] 1 = 1 / 2"
    by code_simp
  also have "rnd F32 (1 / 2) = Fin (1 / 2)"
    by code_simp
  finally show ?thesis .
qed

end
