(* ===== verification/Py_Store.thy ===== *)
theory Py_Store
  imports Buffer_Ops
begin

text \<open>
  The mutable world the Python layers work on: the sample arrays (\<open>array.array("f")\<close>
  objects, or any float32 buffer a caller owns) addressed by a reference, because voices
  share them, and the file system, as far as the \<open>wave\<close> module and \<open>pathlib\<close> are used.

  A path is the list of its parts. A file is a WAV file (what \<open>wave.open\<close> and
  \<open>readframes(getnframes())\<close> give: channels, sample width, frame rate, bytes) or a file
  \<open>wave\<close> refuses, with the exception it raises on it. Reading and writing errors of the
  device (permissions, a full disk) are not modelled.

  The locale \<open>array_store\<close> is the contract of the array memory: what a read returns after a
  write, at the same and at another reference. Its lemmas on in-place editing are used by the
  buffer operations of the host, through the interpretation on \<open>store\<close>.
\<close>

type_synonym aref = nat
type_synonym path = "string list"

record wav =
  nchannels :: int
  sampwidth :: nat
  framerate :: int
  frames :: "byte list"

datatype node = Dir | Wav wav | Bad pyexc

record store =
  mem :: "aref \<Rightarrow> samples"
  brk :: aref
  files :: "path \<Rightarrow> node option"

definition empty_store :: store where
  "empty_store = \<lparr>mem = (\<lambda>_. []), brk = 0, files = (\<lambda>_. None)\<rparr>"

text \<open>\<open>array.array("f", bytes(4 * n))\<close>: a negative size is the \<open>ValueError\<close> of \<open>bytes\<close>.\<close>

definition zeros :: "int \<Rightarrow> pyexc + samples" where
  "zeros n = (if n < 0 then Inl ValueError else Inr (replicate (nat n) (Fin 0)))"

definition new_array :: "samples \<Rightarrow> ('z store_scheme, aref) py" where
  "new_array xs =
     (\<lambda>s. (Inr (brk s), s\<lparr>mem := (mem s)(brk s := xs), brk := Suc (brk s)\<rparr>))"

definition put_array :: "aref \<Rightarrow> samples \<Rightarrow> 'z store_scheme \<Rightarrow> 'z store_scheme" where
  "put_array a xs s = s\<lparr>mem := (mem s)(a := xs)\<rparr>"

lemma put_array_simps [simp]:
  "mem (put_array a xs s) = (mem s)(a := xs)"
  "brk (put_array a xs s) = brk s"
  "files (put_array a xs s) = files s"
  "store.more (put_array a xs s) = store.more s"
  by (simp_all add: put_array_def)

text \<open>An edit of one array in place: read it, compute, write it back (or raise).\<close>

definition edit_array :: "aref \<Rightarrow> (samples \<Rightarrow> pyexc + samples) \<Rightarrow> ('z store_scheme, unit) py" where
  "edit_array a f =
     (\<lambda>s. case f (mem s a) of Inl e \<Rightarrow> (Inl e, s) | Inr xs \<Rightarrow> (Inr (), put_array a xs s))"

locale array_store =
  fixes get :: "'s \<Rightarrow> aref \<Rightarrow> samples"
    and put :: "aref \<Rightarrow> samples \<Rightarrow> 's \<Rightarrow> 's"
  assumes get_put: "get (put a xs s) a = xs"
    and get_put_other: "a \<noteq> b \<Longrightarrow> get (put a xs s) b = get s b"
begin

lemma get_put_if: "get (put a xs s) b = (if a = b then xs else get s b)"
  by (simp add: get_put get_put_other)

lemma put_keeps_length:
  "length xs = length (get s a) \<Longrightarrow> length (get (put a xs s) b) = length (get s b)"
  by (simp add: get_put_if)

text \<open>Edits of one array compose on that array and leave every other alone.\<close>

lemma fold_put:
  "get (fold (\<lambda>f t. put a (f (get t a)) t) fs s) b =
     (if a = b then fold (\<lambda>f. f) fs (get s a) else get s b)"
  by (induction fs arbitrary: s) (simp_all add: get_put_if)

lemma fold_put_length:
  assumes "\<And>f xs. f \<in> set fs \<Longrightarrow> length (f xs) = length xs"
  shows "length (get (fold (\<lambda>f t. put a (f (get t a)) t) fs s) b) = length (get s b)"
proof -
  have "length (fold (\<lambda>f. f) fs xs) = length xs" for xs
    using assms by (induction fs arbitrary: xs) simp_all
  then show ?thesis by (simp add: fold_put)
qed

end

interpretation arrays: array_store mem put_array
  by unfold_locales simp_all

lemma edit_array_cases:
  obtains (fail) e where "f (mem s a) = Inl e" "edit_array a f s = (Inl e, s)"
  | (ok) xs where "f (mem s a) = Inr xs" "edit_array a f s = (Inr (), put_array a xs s)"
  by (cases "f (mem s a)") (auto simp: edit_array_def)

lemma edit_array_mem:
  "mem (snd (edit_array a f s)) b =
     (if a = b then (case f (mem s a) of Inl _ \<Rightarrow> mem s a | Inr xs \<Rightarrow> xs) else mem s b)"
  by (cases "f (mem s a)") (auto simp: edit_array_def)

lemma edit_array_frame:
  "brk (snd (edit_array a f s)) = brk s" "files (snd (edit_array a f s)) = files s"
  "store.more (snd (edit_array a f s)) = store.more s"
  by (cases "f (mem s a)"; simp add: edit_array_def)+

section \<open>The file system\<close>

text \<open>
  The parts of a path string as \<open>pathlib\<close> splits it: empty and \<open>.\<close> parts are dropped and a
  leading slash is a part of its own. (Symbolic links and \<open>..\<close> are not resolved.)
\<close>

fun split_slash :: "string \<Rightarrow> string \<Rightarrow> string list" where
  "split_slash acc [] = [acc]"
| "split_slash acc (c # cs) =
     (if c = CHR ''/'' then acc # split_slash [] cs else split_slash (acc @ [c]) cs)"

definition path_of :: "string \<Rightarrow> path" where
  "path_of str =
     (if str \<noteq> [] \<and> hd str = CHR ''/'' then [''/''] else [])
     @ filter (\<lambda>x. x \<noteq> [] \<and> x \<noteq> ''.'') (split_slash [] str)"

definition node_at :: "(path \<Rightarrow> node option) \<Rightarrow> path \<Rightarrow> node option" where
  "node_at fs p = (if p = [] \<or> p = [''/''] then Some Dir else fs p)"

text \<open>What \<open>open\<close> finds at a path, walking down from \<open>pre\<close>.\<close>

fun resolve :: "(path \<Rightarrow> node option) \<Rightarrow> path \<Rightarrow> path \<Rightarrow> pyexc + node" where
  "resolve fs pre [] = Inr Dir"
| "resolve fs pre (x # xs) =
     (case node_at fs (pre @ [x]) of
        None \<Rightarrow> Inl FileNotFoundError
      | Some Dir \<Rightarrow> resolve fs (pre @ [x]) xs
      | Some n \<Rightarrow> if xs = [] then Inr n else Inl NotADirectoryError)"

text \<open>
  \<open>Path.mkdir(parents=True, exist_ok=True)\<close>: the missing ancestors are created from the
  shortest on; a file in the way raises, \<open>FileExistsError\<close> when it is the directory itself.
\<close>

fun mkdirs :: "path \<Rightarrow> path \<Rightarrow> (path \<Rightarrow> node option) \<Rightarrow> pyexc + (path \<Rightarrow> node option)" where
  "mkdirs pre [] fs = Inr fs"
| "mkdirs pre (x # xs) fs =
     (case node_at fs (pre @ [x]) of
        None \<Rightarrow> mkdirs (pre @ [x]) xs (fs(pre @ [x] \<mapsto> Dir))
      | Some Dir \<Rightarrow> mkdirs (pre @ [x]) xs fs
      | Some _ \<Rightarrow> Inl (if xs = [] then FileExistsError else NotADirectoryError))"

lemma node_at_upd: "node_at (fs(q \<mapsto> n)) p = (if p = q \<and> q \<noteq> [] \<and> q \<noteq> [''/''] then Some n else node_at fs p)"
  by (auto simp: node_at_def)

text \<open>A file that existed is still there, and what is new is a directory on the path.\<close>

lemma mkdirs_frame:
  assumes "mkdirs pre xs fs = Inr fs'"
  shows "fs' p = fs p \<or> (fs p = None \<and> fs' p = Some Dir \<and> (\<exists>ys zs. xs = ys @ zs \<and> ys \<noteq> [] \<and> p = pre @ ys))"
  using assms
proof (induction xs arbitrary: pre fs)
  case Nil
  then show ?case by simp
next
  case (Cons x xs)
  let ?q = "pre @ [x]"
  have ext: "\<exists>ys zs. x # xs = ys @ zs \<and> ys \<noteq> [] \<and> p = pre @ ys"
    if "p = ?q \<or> (\<exists>ys zs. xs = ys @ zs \<and> ys \<noteq> [] \<and> p = ?q @ ys)"
    using that by (metis append.assoc append_Cons append_Nil list.distinct(1))
  show ?case
  proof (cases "node_at fs ?q")
    case None
    then have q: "fs ?q = None"
      by (simp add: node_at_def split: if_splits)
    from Cons.prems None have "mkdirs ?q xs (fs(?q \<mapsto> Dir)) = Inr fs'"
      by simp
    note ih = Cons.IH [OF this]
    show ?thesis
      using ih q ext by (cases "p = ?q") auto
  next
    case (Some m)
    with Cons.prems have "mkdirs ?q xs fs = Inr fs'"
      by (cases m) (simp_all split: if_splits)
    note ih = Cons.IH [OF this]
    show ?thesis
      using ih ext by blast
  qed
qed

lemma mkdirs_node_at: "mkdirs pre xs fs = Inr fs' \<Longrightarrow> node_at fs p = Some n \<Longrightarrow> node_at fs' p = Some n"
  using mkdirs_frame [of pre xs fs fs' p] by (auto simp: node_at_def split: if_splits)

lemma mkdirs_dirs:
  assumes "mkdirs pre xs fs = Inr fs'" "xs = ys @ zs" "ys \<noteq> []"
  shows "node_at fs' (pre @ ys) = Some Dir"
  using assms
proof (induction xs arbitrary: pre fs ys)
  case Nil
  then show ?case by simp
next
  case (Cons x xs)
  let ?q = "pre @ [x]"
  from Cons.prems obtain us where us: "ys = x # us" "xs = us @ zs"
    by (cases ys) auto
  obtain fs1 where fs1: "mkdirs ?q xs fs1 = Inr fs'" "node_at fs1 ?q = Some Dir"
    using Cons.prems(1)
    by (auto simp: node_at_upd node_at_def split: option.splits node.splits if_splits)
  show ?case
  proof (cases "us = []")
    case True
    then show ?thesis using mkdirs_node_at [OF fs1] us by simp
  next
    case False
    then show ?thesis using Cons.IH [OF fs1(1) us(2)] us(1) by simp
  qed
qed

lemma resolve_upd:
  assumes "xs \<noteq> []" "pre @ xs \<noteq> []" "pre @ xs \<noteq> [''/'']"
    and "\<And>ys zs. xs = ys @ zs \<Longrightarrow> ys \<noteq> [] \<Longrightarrow> zs \<noteq> [] \<Longrightarrow> node_at fs (pre @ ys) = Some Dir"
    and "n \<noteq> Dir"
  shows "resolve (fs(pre @ xs \<mapsto> n)) pre xs = Inr n"
  using assms
proof (induction xs arbitrary: pre)
  case Nil
  then show ?case by simp
next
  case (Cons x xs)
  show ?case
  proof (cases "xs = []")
    case True
    with Cons.prems show ?thesis
      by (cases n) (auto simp: node_at_def)
  next
    case False
    have "node_at fs (pre @ [x]) = Some Dir"
      using Cons.prems(4) [of "[x]" xs] False by simp
    then have "node_at (fs(pre @ x # xs \<mapsto> n)) (pre @ [x]) = Some Dir"
      using False by (simp add: node_at_upd)
    moreover have "resolve (fs((pre @ [x]) @ xs \<mapsto> n)) (pre @ [x]) xs = Inr n"
    proof (rule Cons.IH [OF False _ _ _ Cons.prems(5)])
      show "(pre @ [x]) @ xs \<noteq> []" "(pre @ [x]) @ xs \<noteq> [''/'']"
        using False by (cases xs; cases pre; simp)+
      show "node_at fs ((pre @ [x]) @ ys) = Some Dir"
        if "xs = ys @ zs" "ys \<noteq> []" "zs \<noteq> []" for ys zs
        using Cons.prems(4) [of "x # ys" zs] that by simp
    qed
    ultimately show ?thesis by (simp del: fun_upd_apply)
  qed
qed

end
