(* ===== verification/Voice.thy ===== *)
theory Voice
  imports Py_Store
begin

text \<open>
  The voice object of the extension (\<open>struct Voice\<close> of \<open>src/softcut/_core.cpp\<close>): the mirrors of
  the write-only DSP parameters, the mix scalars, the buffer it points at, and the counters of
  pending flag changes and dropped commands.

  The DSP object it wraps (softcut-lib's \<open>softcut::Voice\<close>, vendored under \<open>src/thirdparty\<close>) is
  the list of the calls made on it, newest first (\<open>dsp_ev\<close>). What the wrapper relies on of that
  object is computed from the list: the parameter values (\<open>fvalue\<close>, \<open>bvalue\<close>), the record flags
  it publishes (\<open>rec_flags\<close>) and the buffer it points at (\<open>dsp_buffer\<close>). Its signal processing,
  head positions and phases are the functions of the parameter record \<open>dsp_lib\<close>.
\<close>

section \<open>Attributes\<close>

datatype fattr =
    Rate | LoopStart | LoopEnd | FadeTime | RecLevel | PreLevel | RecOffset
  | RecPreSlewTime | RateSlewTime | PhaseQuant | PhaseOffset | RecDelayRatio | PreWindowRatio
  | PreFilterFc | PreFilterRq | PreFilterLp | PreFilterHp | PreFilterBp | PreFilterBr
  | PreFilterDry | PreFilterFcMod
  | PostFilterFc | PostFilterRq | PostFilterLp | PostFilterHp | PostFilterBp | PostFilterBr
  | PostFilterDry

datatype mattr = Level | Pan | InputGain

datatype battr = Loop | Rec | RecOnce | Play

datatype sattr = RecFadeShape | PreFadeShape

datatype attr = FAttr fattr | MAttr mattr | BAttr battr

text \<open>The float and bool properties of the class, by name.\<close>

definition attr_table :: "(string \<times> attr) list" where
  "attr_table =
    [(''rate'', FAttr Rate), (''loop_start'', FAttr LoopStart), (''loop_end'', FAttr LoopEnd),
     (''loop'', BAttr Loop), (''fade_time'', FAttr FadeTime), (''rec_level'', FAttr RecLevel),
     (''pre_level'', FAttr PreLevel), (''rec'', BAttr Rec), (''rec_once'', BAttr RecOnce),
     (''play'', BAttr Play), (''rec_offset'', FAttr RecOffset),
     (''rec_pre_slew_time'', FAttr RecPreSlewTime), (''rate_slew_time'', FAttr RateSlewTime),
     (''phase_quant'', FAttr PhaseQuant), (''phase_offset'', FAttr PhaseOffset),
     (''rec_delay_ratio'', FAttr RecDelayRatio), (''pre_window_ratio'', FAttr PreWindowRatio),
     (''pre_filter_fc'', FAttr PreFilterFc), (''pre_filter_rq'', FAttr PreFilterRq),
     (''pre_filter_lp'', FAttr PreFilterLp), (''pre_filter_hp'', FAttr PreFilterHp),
     (''pre_filter_bp'', FAttr PreFilterBp), (''pre_filter_br'', FAttr PreFilterBr),
     (''pre_filter_dry'', FAttr PreFilterDry), (''pre_filter_fc_mod'', FAttr PreFilterFcMod),
     (''post_filter_fc'', FAttr PostFilterFc), (''post_filter_rq'', FAttr PostFilterRq),
     (''post_filter_lp'', FAttr PostFilterLp), (''post_filter_hp'', FAttr PostFilterHp),
     (''post_filter_bp'', FAttr PostFilterBp), (''post_filter_br'', FAttr PostFilterBr),
     (''post_filter_dry'', FAttr PostFilterDry),
     (''level'', MAttr Level), (''pan'', MAttr Pan), (''input_gain'', MAttr InputGain)]"

text \<open>\<open>fade_shape(name)\<close>: linear, sine and raised, by their index.\<close>

definition fade_shape :: "string \<Rightarrow> pyexc + nat" where
  "fade_shape name =
     (case map_of [(''linear'', 0), (''sine'', 1), (''raised'', 2)] name of
        None \<Rightarrow> Inl ValueError | Some k \<Rightarrow> Inr k)"

section \<open>The DSP object\<close>

datatype dsp_ev =
    DFloat fattr flt
  | DBool battr bool
  | DShape sattr nat
  | DCut flt
  | DStop
  | DReset
  | DSampleRate flt
  | DBuffer aref nat
  | DProcess samples samples

record dsp_lib =
  lib_process :: "dsp_ev list \<Rightarrow> samples \<Rightarrow> samples \<Rightarrow> samples \<times> samples"
  lib_position :: "dsp_ev list \<Rightarrow> flt"
  lib_quant_phase :: "dsp_ev list \<Rightarrow> flt"
  lib_once_done :: "dsp_ev list \<Rightarrow> bool"
  lib_heads :: "dsp_ev list \<Rightarrow> flt \<times> flt \<times> flt \<times> flt \<times> int"
  lib_cos :: "flt \<Rightarrow> flt"
  lib_sin :: "flt \<Rightarrow> flt"

text \<open>A DSP object that passes its input through and stays at 0, for concrete runs.\<close>

definition thru_lib :: dsp_lib where
  "thru_lib = \<lparr>lib_process = (\<lambda>h b x. (x, b)), lib_position = (\<lambda>h. Fin 0),
     lib_quant_phase = (\<lambda>h. Fin 0), lib_once_done = (\<lambda>h. False),
     lib_heads = (\<lambda>h. (Fin 0, Fin 0, Fin 0, Fin 0, 0)), lib_cos = (\<lambda>x. x), lib_sin = (\<lambda>x. x)\<rparr>"

text \<open>The defaults: the initializers of the mirrors, which \<open>reset_params\<close> repeats.\<close>

definition f32_lit :: "rat \<Rightarrow> flt" where
  "f32_lit q = rnd F32 q"

fun fdefault :: "bool \<Rightarrow> fattr \<Rightarrow> flt" where
  "fdefault fx Rate = Fin 1"
| "fdefault fx FadeTime = (if fx then f32_lit (1 / 100) else f32_lit (1 / 10))"
| "fdefault fx RecOffset = fdiv F32 (Fin (- 8)) (Fin 48000)"
| "fdefault fx RecPreSlewTime = f32_lit (1 / 1000)"
| "fdefault fx RateSlewTime = f32_lit (1 / 1000)"
| "fdefault fx RecDelayRatio = Fin (1 / 128)"
| "fdefault fx PreWindowRatio = Fin (1 / 8)"
| "fdefault fx PreFilterFc = Fin 16000"
| "fdefault fx PreFilterRq = Fin 4"
| "fdefault fx PreFilterLp = Fin 1"
| "fdefault fx PreFilterFcMod = Fin 1"
| "fdefault fx PostFilterFc = Fin 12000"
| "fdefault fx PostFilterRq = Fin 4"
| "fdefault fx PostFilterDry = Fin 1"
| "fdefault fx _ = Fin 0"

fun sdefault :: "sattr \<Rightarrow> nat" where
  "sdefault RecFadeShape = 2"
| "sdefault PreFadeShape = 0"

text \<open>
  What a parameter of the DSP object is after a list of calls. \<open>softcut::Voice::reset\<close> restores
  every default but two: the base frequency of the pre filter, which it re-applies, and the
  loop flag, which \<open>ReadWriteHead::init\<close> does not touch.
\<close>

fun fvalue :: "bool \<Rightarrow> dsp_ev list \<Rightarrow> fattr \<Rightarrow> flt" where
  "fvalue fx [] a = fdefault fx a"
| "fvalue fx (DFloat b x # h) a = (if a = b then x else fvalue fx h a)"
| "fvalue fx (DReset # h) a = (if a = PreFilterFc then fvalue fx h a else fdefault fx a)"
| "fvalue fx (e # h) a = fvalue fx h a"

fun svalue :: "dsp_ev list \<Rightarrow> sattr \<Rightarrow> nat" where
  "svalue [] a = sdefault a"
| "svalue (DShape b k # h) a = (if a = b then k else svalue h a)"
| "svalue (DReset # h) a = sdefault a"
| "svalue (e # h) a = svalue h a"

text \<open>The loop and play flags.\<close>

fun bvalue :: "dsp_ev list \<Rightarrow> battr \<Rightarrow> bool" where
  "bvalue [] a = False"
| "bvalue (DBool b x # h) a = (if a = b then x else bvalue h a)"
| "bvalue (DReset # h) a = (a = Loop \<and> bvalue h a)"
| "bvalue (e # h) a = bvalue h a"

text \<open>
  The record flags it publishes: recording off cancels record-once, record-once on sets
  recording, and a processed block that finishes a record-once pass clears both.
\<close>

fun rec_flags :: "dsp_lib \<Rightarrow> dsp_ev list \<Rightarrow> bool \<times> bool" where
  "rec_flags lib [] = (False, False)"
| "rec_flags lib (e # h) =
     (let (r, once) = rec_flags lib h
      in case e of
           DBool Rec x \<Rightarrow> (x, x \<and> once)
         | DBool RecOnce x \<Rightarrow> (x \<or> r, x)
         | DReset \<Rightarrow> (False, False)
         | DProcess _ _ \<Rightarrow> if r \<and> once \<and> lib_once_done lib (e # h) then (False, False) else (r, once)
         | _ \<Rightarrow> (r, once))"

fun dsp_buffer :: "dsp_ev list \<Rightarrow> (aref \<times> nat) option" where
  "dsp_buffer [] = None"
| "dsp_buffer (DBuffer a n # h) = Some (a, n)"
| "dsp_buffer (e # h) = dsp_buffer h"

section \<open>The voice\<close>

record voice =
  fixed_quirks :: bool
  vsample_rate :: flt
  fmir :: "fattr \<Rightarrow> flt"
  mixp :: "mattr \<Rightarrow> flt"
  bmir :: "battr \<Rightarrow> bool"
  smir :: "sattr \<Rightarrow> nat"
  vbuf :: "aref option"
  vframes :: nat
  flags_pending :: int
  dropped :: nat
  dsp :: "dsp_ev list"

fun mix_default :: "mattr \<Rightarrow> flt" where
  "mix_default Level = Fin 1"
| "mix_default Pan = Fin 0"
| "mix_default InputGain = Fin 1"

text \<open>The constructor; the binding checks \<open>quirks\<close> first.\<close>

definition new_voice :: "flt \<Rightarrow> string \<Rightarrow> pyexc + voice" where
  "new_voice sr quirks =
     (if quirks \<noteq> ''upstream'' \<and> quirks \<noteq> ''fixed'' then Inl ValueError
      else let fx = (quirks = ''fixed'')
      in Inr \<lparr>fixed_quirks = fx, vsample_rate = to_f32 sr, fmir = fdefault fx, mixp = mix_default,
              bmir = (\<lambda>_. False), smir = sdefault, vbuf = None, vframes = 0,
              flags_pending = 0, dropped = 0, dsp = [DSampleRate (to_f32 sr)]\<rparr>)"

definition reset_params :: "voice \<Rightarrow> voice" where
  "reset_params v = v\<lparr>fmir := fdefault (fixed_quirks v), bmir := (\<lambda>_. False), smir := sdefault\<rparr>"

definition store_float :: "fattr \<Rightarrow> flt \<Rightarrow> voice \<Rightarrow> voice" where
  "store_float a x v = v\<lparr>fmir := (fmir v)(a := x)\<rparr>"

definition store_mix :: "mattr \<Rightarrow> flt \<Rightarrow> voice \<Rightarrow> voice" where
  "store_mix a x v = v\<lparr>mixp := (mixp v)(a := x)\<rparr>"

definition store_shape :: "sattr \<Rightarrow> nat \<Rightarrow> voice \<Rightarrow> voice" where
  "store_shape a k v = v\<lparr>smir := (smir v)(a := k)\<rparr>"

text \<open>The mirrors of the bool attributes: rec off clears rec_once, rec_once on sets rec.\<close>

definition store_bool :: "battr \<Rightarrow> bool \<Rightarrow> voice \<Rightarrow> voice" where
  "store_bool b x v =
     v\<lparr>bmir := (case b of
        Rec \<Rightarrow> if x then (bmir v)(Rec := True) else (bmir v)(Rec := False, RecOnce := False)
      | RecOnce \<Rightarrow> if x then (bmir v)(RecOnce := True, Rec := True) else (bmir v)(RecOnce := False)
      | _ \<Rightarrow> (bmir v)(b := x))\<rparr>"

text \<open>\<open>v.rec\<close> and \<open>v.rec_once\<close>: the mirror while a change is pending, else what the DSP published.\<close>

definition get_bool :: "dsp_lib \<Rightarrow> voice \<Rightarrow> battr \<Rightarrow> bool" where
  "get_bool lib v b =
     (case b of
        Rec \<Rightarrow> if 0 < flags_pending v then bmir v Rec else fst (rec_flags lib (dsp v))
      | RecOnce \<Rightarrow> if 0 < flags_pending v then bmir v RecOnce else snd (rec_flags lib (dsp v))
      | _ \<Rightarrow> bmir v b)"

text \<open>One call on the DSP object; \<open>fl\<close> marks the flag changes, which count themselves off.\<close>

definition apply_ev :: "dsp_ev \<Rightarrow> bool \<Rightarrow> voice \<Rightarrow> voice" where
  "apply_ev e fl v =
     v\<lparr>dsp := e # dsp v, flags_pending := flags_pending v - (if fl then 1 else 0)\<rparr>"

lemmas store_defs = store_float_def store_mix_def store_shape_def store_bool_def

text \<open>The record flags the mirrors predict are the ones the DSP object sets.\<close>

lemma rec_flags_predicted:
  "(bmir (store_bool b x v) Rec, bmir (store_bool b x v) RecOnce)
     = (let (r, once) = (bmir v Rec, bmir v RecOnce)
        in case b of Rec \<Rightarrow> (x, x \<and> once) | RecOnce \<Rightarrow> (x \<or> r, x) | _ \<Rightarrow> (r, once))"
  by (cases b) (auto simp: store_bool_def)

end
