(* ===== verification/Command_Queue.thy ===== *)
theory Command_Queue
  imports Softcut_Prelude "HOL-Library.Word"
begin

text \<open>
  \<open>src/shared/command_queue.hpp\<close>: the single-producer, single-consumer ring of commands
  through which control threads change DSP state that the audio thread owns.

  \<^item> \<open>ring\<close>, \<open>push\<close>, \<open>pop\<close>: the ring as the code has it, a buffer of \<open>CAP\<close> slots with
    a head and a tail index masked by \<open>CAP - 1\<close>.
  \<^item> \<open>bounded_queue\<close>: the contract, a FIFO queue of at most \<open>CAP - 1\<close> commands, with the
    clients' lemmas (draining, the order of any sequence of operations) proved once; the ring
    is its interpretation.
  \<^item> \<open>spsc_step\<close>: the two threads at the granularity of the atomic loads and stores, in any
    interleaving (under sequential consistency, which the acquire/release pairs provide for
    the two indices).
\<close>

unbundle bit_operations_syntax

section \<open>The ring\<close>

definition CAP :: nat where "CAP = 4096"

record 'c ring =
  rbuf :: "nat \<Rightarrow> 'c option"
  head :: nat
  tail :: nat

definition empty_ring :: "'c ring" where
  "empty_ring = \<lparr>rbuf = (\<lambda>_. None), head = 0, tail = 0\<rparr>"

definition next_index :: "nat \<Rightarrow> nat" where
  "next_index h = (h + 1) AND (CAP - 1)"

text \<open>\<open>push\<close>: \<open>None\<close> is the code's \<open>false\<close> (full).\<close>

definition push :: "'c \<Rightarrow> 'c ring \<Rightarrow> 'c ring option" where
  "push fn q =
     (let h = head q; n = next_index h
      in if n = tail q then None
         else Some (q\<lparr>rbuf := (rbuf q)(h := Some fn), head := n\<rparr>))"

text \<open>\<open>pop\<close>: \<open>None\<close> is the code's \<open>false\<close> (empty).\<close>

definition pop :: "'c ring \<Rightarrow> ('c \<times> 'c ring) option" where
  "pop q =
     (let t = tail q
      in if t = head q then None
         else case rbuf q t of
                None \<Rightarrow> None
              | Some fn \<Rightarrow> Some (fn, q\<lparr>tail := next_index t\<rparr>))"

text \<open>\<open>while (queue.pop(fn)) ...\<close>, with as much fuel as the ring has slots.\<close>

fun pop_all :: "nat \<Rightarrow> 'c ring \<Rightarrow> 'c list \<times> 'c ring" where
  "pop_all 0 q = ([], q)"
| "pop_all (Suc n) q =
     (case pop q of
        None \<Rightarrow> ([], q)
      | Some (x, q') \<Rightarrow> (let (xs, q'') = pop_all n q' in (x # xs, q'')))"

section \<open>The contract of a bounded queue\<close>

datatype 'c queue_op = Push 'c | Pop

locale bounded_queue =
  fixes put :: "'c \<Rightarrow> 'q \<Rightarrow> 'q option"
    and take1 :: "'q \<Rightarrow> ('c \<times> 'q) option"
    and contents :: "'q \<Rightarrow> 'c list"
    and wf :: "'q \<Rightarrow> bool"
    and room :: nat
  assumes len: "wf q \<Longrightarrow> length (contents q) \<le> room"
    and put_ok: "wf q \<Longrightarrow> length (contents q) < room \<Longrightarrow>
                 \<exists>q'. put x q = Some q' \<and> wf q' \<and> contents q' = contents q @ [x]"
    and put_full: "wf q \<Longrightarrow> length (contents q) = room \<Longrightarrow> put x q = None"
    and take_nil: "wf q \<Longrightarrow> contents q = [] \<Longrightarrow> take1 q = None"
    and take_cons: "wf q \<Longrightarrow> contents q = x # xs \<Longrightarrow>
                    \<exists>q'. take1 q = Some (x, q') \<and> wf q' \<and> contents q' = xs"
begin

lemma put_cases:
  assumes "wf q"
  obtains (full) "put x q = None" "length (contents q) = room"
  | (room) q' where "put x q = Some q'" "wf q'" "contents q' = contents q @ [x]"
      "length (contents q) < room"
  using len [OF assms] put_ok [OF assms, of x] put_full [OF assms, of x] by force

lemma take_cases:
  assumes "wf q"
  obtains (empty) "take1 q = None" "contents q = []"
  | (some) x q' where "take1 q = Some (x, q')" "wf q'" "contents q = x # contents q'"
  using take_nil [OF assms] take_cons [OF assms] by (cases "contents q") force+

text \<open>Any sequence of operations: what was accepted, and what came out.\<close>

fun run :: "'c queue_op list \<Rightarrow> 'q \<Rightarrow> 'c list \<times> 'c list \<times> 'q" where
  "run [] q = ([], [], q)"
| "run (Push x # ops) q =
     (case put x q of
        None \<Rightarrow> run ops q
      | Some q' \<Rightarrow> (let (acc, out, r) = run ops q' in (x # acc, out, r)))"
| "run (Pop # ops) q =
     (case take1 q of
        None \<Rightarrow> run ops q
      | Some (x, q') \<Rightarrow> (let (acc, out, r) = run ops q' in (acc, x # out, r)))"

lemma run_fifo:
  "wf q \<Longrightarrow> run ops q = (acc, out, r) \<Longrightarrow> wf r \<and> contents q @ acc = out @ contents r"
proof (induction ops arbitrary: q acc out)
  case Nil
  then show ?case by simp
next
  case (Cons op ops)
  show ?case
  proof (cases op)
    case (Push x)
    with Cons show ?thesis
      by (cases rule: put_cases [OF Cons.prems(1), of x]) (fastforce split: prod.splits)+
  next
    case Pop
    with Cons show ?thesis
      by (cases rule: take_cases [OF Cons.prems(1)]) (fastforce split: prod.splits)+
  qed
qed

end

section \<open>The ring implements it\<close>

definition used :: "('c, 'z) ring_scheme \<Rightarrow> nat" where
  "used q = (if tail q \<le> head q then head q - tail q else head q + CAP - tail q)"

definition slot :: "('c, 'z) ring_scheme \<Rightarrow> nat \<Rightarrow> nat" where
  "slot q i = (if tail q + i < CAP then tail q + i else tail q + i - CAP)"

definition ring_wf :: "('c, 'z) ring_scheme \<Rightarrow> bool" where
  "ring_wf q \<longleftrightarrow> head q < CAP \<and> tail q < CAP \<and> (\<forall>i < used q. rbuf q (slot q i) \<noteq> None)"

definition queued :: "('c, 'z) ring_scheme \<Rightarrow> 'c list" where
  "queued q = map (\<lambda>i. the (rbuf q (slot q i))) [0..<used q]"

lemma next_index_eq: "h < CAP \<Longrightarrow> next_index h = (if h + 1 = CAP then 0 else h + 1)"
proof -
  assume h: "h < CAP"
  have "CAP - 1 = mask 12"
    by (simp add: CAP_def mask_eq_exp_minus_1)
  then have "next_index h = (h + 1) mod 2 ^ 12"
    by (simp only: next_index_def take_bit_eq_mask [symmetric] take_bit_eq_mod)
  then have "next_index h = (h + 1) mod CAP"
    by (simp add: CAP_def)
  with h show ?thesis by auto
qed

lemma length_queued [simp]: "length (queued q) = used q"
  by (simp add: queued_def)

lemma used_less: "ring_wf q \<Longrightarrow> used q < CAP"
  by (auto simp: ring_wf_def used_def)

lemma queued_empty_ring [simp]: "queued empty_ring = []"
  by (simp add: queued_def used_def empty_ring_def)

lemma ring_wf_empty [simp]: "ring_wf empty_ring"
  by (simp add: ring_wf_def used_def empty_ring_def CAP_def)

lemma push_ring:
  assumes "ring_wf q" "used q < CAP - 1"
  shows "\<exists>q'. push x q = Some q' \<and> ring_wf q' \<and> queued q' = queued q @ [x]"
proof -
  let ?q = "q\<lparr>rbuf := (rbuf q)(head q := Some x), head := next_index (head q)\<rparr>"
  have b: "head q < CAP" "tail q < CAP"
    using assms(1) by (auto simp: ring_wf_def)
  have p: "push x q = Some ?q"
    using b assms(2) by (auto simp: push_def Let_def next_index_eq used_def CAP_def split: if_splits)
  have u: "used ?q = Suc (used q)"
    using b assms(2) by (auto simp: used_def next_index_eq CAP_def split: if_splits)
  have sl: "slot ?q i = slot q i" for i
    by (simp add: slot_def)
  have new: "slot q (used q) = head q"
    using b by (auto simp: slot_def used_def)
  have old: "slot q i \<noteq> head q" if "i < used q" for i
    using that b by (auto simp: slot_def used_def split: if_splits)
  have "ring_wf ?q"
    using assms(1) b u sl old new unfolding ring_wf_def
    by (auto simp: less_Suc_eq next_index_eq)
  moreover have "queued ?q = queued q @ [x]"
    unfolding queued_def u using sl old new by simp
  ultimately show ?thesis using p by blast
qed

lemma push_ring_full:
  assumes "ring_wf q" "used q = CAP - 1"
  shows "push x q = None"
  using assms by (auto simp: ring_wf_def push_def Let_def next_index_eq used_def CAP_def split: if_splits)

lemma pop_ring:
  assumes "ring_wf q" "queued q = x # xs"
  shows "\<exists>q'. pop q = Some (x, q') \<and> ring_wf q' \<and> queued q' = xs"
proof -
  let ?q = "q\<lparr>tail := next_index (tail q)\<rparr>"
  have b: "head q < CAP" "tail q < CAP"
    using assms(1) by (auto simp: ring_wf_def)
  obtain n where n: "used q = Suc n"
    using assms(2) by (metis length_Cons length_queued)
  have u: "used ?q = n"
    using b n by (auto simp: used_def next_index_eq split: if_splits)
  have sl: "slot ?q i = slot q (Suc i)" if "i < n" for i
    using that b n by (auto simp: slot_def used_def next_index_eq split: if_splits)
  have z: "slot q 0 = tail q"
    using b by (simp add: slot_def)
  have eq: "queued q = the (rbuf q (tail q)) # map (\<lambda>i. the (rbuf q (slot q (Suc i)))) [0..<n]"
    unfolding queued_def n upt_conv_Cons [OF zero_less_Suc] map_Suc_upt [symmetric]
    by (simp add: z)
  moreover have "rbuf q (tail q) \<noteq> None"
    using assms(1) n z unfolding ring_wf_def by (metis zero_less_Suc)
  moreover have "tail q \<noteq> head q"
    using n by (auto simp: used_def)
  ultimately have "pop q = Some (x, ?q)"
    using assms(2) by (auto simp: pop_def Let_def)
  moreover have "ring_wf ?q"
    using assms(1) b u sl n unfolding ring_wf_def by (auto simp: next_index_eq)
  moreover have "queued ?q = xs"
    using eq assms(2) sl unfolding queued_def [of ?q] u by (auto intro: map_cong)
  ultimately show ?thesis by blast
qed

lemma pop_ring_empty: "ring_wf q \<Longrightarrow> queued q = [] \<Longrightarrow> pop q = None"
  by (auto simp: queued_def used_def pop_def Let_def ring_wf_def split: if_splits)

interpretation ring: bounded_queue push pop "queued :: 'c ring \<Rightarrow> 'c list" ring_wf "CAP - 1"
proof unfold_locales
  show "length (queued q) \<le> CAP - 1" if "ring_wf q" for q :: "'c ring"
    using used_less [OF that] by simp
qed (simp_all add: push_ring push_ring_full pop_ring pop_ring_empty)

lemma pop_all_ring:
  "ring_wf q \<Longrightarrow> used q \<le> n \<Longrightarrow> fst (pop_all n q) = queued q \<and> queued (snd (pop_all n q)) = []
     \<and> ring_wf (snd (pop_all n q))"
proof (induction n arbitrary: q)
  case 0
  then show ?case by (simp add: queued_def)
next
  case (Suc n)
  show ?case
  proof (cases rule: ring.take_cases [OF Suc.prems(1)])
    case 1
    then show ?thesis using Suc.prems by simp
  next
    case (2 x q')
    moreover from this have "used q' \<le> n"
      using Suc.prems(2) by (metis length_Cons length_queued not_less_eq_eq)
    ultimately show ?thesis
      using Suc.IH [of q'] by (simp add: case_prod_beta)
  qed
qed

section \<open>The two threads\<close>

text \<open>
  Where each thread stands. The producer has loaded both indices and found room (\<open>PReady\<close>),
  or has stored its command and not yet published the head (\<open>PStored\<close>); the consumer has
  loaded both indices and found a command (\<open>CReady\<close>), or has moved it out and not yet
  published the tail (\<open>CTaken\<close>). A moved-from slot is empty.
\<close>

datatype 'c producer = PIdle | PReady 'c nat nat | PStored 'c nat
datatype 'c consumer = CIdle | CReady nat | CTaken 'c nat

record 'c spsc = "'c ring" +
  producer :: "'c producer"
  consumer :: "'c consumer"
  sent :: "'c list"
  got :: "'c list"

definition spsc_init :: "'c spsc" where
  "spsc_init = \<lparr>rbuf = (\<lambda>_. None), head = 0, tail = 0, producer = PIdle, consumer = CIdle,
                sent = [], got = []\<rparr>"

inductive spsc_step :: "'c spsc \<Rightarrow> 'c spsc \<Rightarrow> bool" where
  push_load: "producer s = PIdle \<Longrightarrow> next_index (head s) \<noteq> tail s \<Longrightarrow>
    spsc_step s (s\<lparr>producer := PReady fn (head s) (next_index (head s))\<rparr>)"
| push_store: "producer s = PReady fn h n \<Longrightarrow>
    spsc_step s (s\<lparr>rbuf := (rbuf s)(h := Some fn), producer := PStored fn n\<rparr>)"
| push_publish: "producer s = PStored fn n \<Longrightarrow>
    spsc_step s (s\<lparr>head := n, producer := PIdle, sent := sent s @ [fn]\<rparr>)"
| pop_load: "consumer s = CIdle \<Longrightarrow> tail s \<noteq> head s \<Longrightarrow>
    spsc_step s (s\<lparr>consumer := CReady (tail s)\<rparr>)"
| pop_take: "consumer s = CReady t \<Longrightarrow> rbuf s t = Some fn \<Longrightarrow>
    spsc_step s (s\<lparr>rbuf := (rbuf s)(t := None), consumer := CTaken fn t\<rparr>)"
| pop_publish: "consumer s = CTaken fn t \<Longrightarrow>
    spsc_step s (s\<lparr>tail := next_index t, consumer := CIdle, got := got s @ [fn]\<rparr>)"

inductive spsc_reach :: "'c spsc \<Rightarrow> bool" where
  init: "spsc_reach spsc_init"
| step: "spsc_reach s \<Longrightarrow> spsc_step s t \<Longrightarrow> spsc_reach t"

text \<open>The commands between the two published indices, the one being moved out included.\<close>

definition in_flight :: "'c spsc \<Rightarrow> 'c list" where
  "in_flight s = map (\<lambda>i. case consumer s of
        CTaken fn _ \<Rightarrow> if i = 0 then fn else the (rbuf s (slot s i))
      | _ \<Rightarrow> the (rbuf s (slot s i))) [0..<used s]"

definition producer_ok :: "'c spsc \<Rightarrow> bool" where
  "producer_ok s = (case producer s of
       PIdle \<Rightarrow> True
     | PReady fn h n \<Rightarrow> h = head s \<and> n = next_index h \<and> n \<noteq> tail s
     | PStored fn n \<Rightarrow> n = next_index (head s) \<and> n \<noteq> tail s \<and> rbuf s (head s) = Some fn)"

definition consumer_ok :: "'c spsc \<Rightarrow> bool" where
  "consumer_ok s = (case consumer s of
       CIdle \<Rightarrow> True
     | CReady t \<Rightarrow> t = tail s \<and> tail s \<noteq> head s
     | CTaken fn t \<Rightarrow> t = tail s \<and> tail s \<noteq> head s)"

definition spsc_inv :: "'c spsc \<Rightarrow> bool" where
  "spsc_inv s \<longleftrightarrow> head s < CAP \<and> tail s < CAP \<and> producer_ok s \<and> consumer_ok s
     \<and> (\<forall>i < used s. rbuf s (slot s i) \<noteq> None \<or> (i = 0 \<and> (\<exists>fn t. consumer s = CTaken fn t)))
     \<and> sent s = got s @ in_flight s"

lemma used_slot_frame [simp]:
  "used (s\<lparr>producer := p\<rparr>) = used s" "used (s\<lparr>consumer := c\<rparr>) = used s"
  "used (s\<lparr>rbuf := b\<rparr>) = used s"
  "slot (s\<lparr>producer := p\<rparr>) i = slot s i" "slot (s\<lparr>consumer := c\<rparr>) i = slot s i"
  "slot (s\<lparr>rbuf := b\<rparr>) i = slot s i"
  by (simp_all add: used_def slot_def)

lemma slot_head: "head s < CAP \<Longrightarrow> tail s < CAP \<Longrightarrow> slot s (used s) = head s"
  by (auto simp: slot_def used_def)

lemma slot_not_head: "head s < CAP \<Longrightarrow> tail s < CAP \<Longrightarrow> i < used s \<Longrightarrow> slot s i \<noteq> head s"
  by (auto simp: slot_def used_def split: if_splits)

lemma slot_zero: "tail s < CAP \<Longrightarrow> slot s 0 = tail s"
  by (simp add: slot_def)

lemma slot_inj_zero: "tail s < CAP \<Longrightarrow> i < used s \<Longrightarrow> head s < CAP \<Longrightarrow> slot s i = tail s \<Longrightarrow> i = 0"
  by (auto simp: slot_def used_def split: if_splits)

lemma used_pos: "tail s < CAP \<Longrightarrow> head s < CAP \<Longrightarrow> tail s \<noteq> head s \<Longrightarrow> 0 < used s"
  by (auto simp: used_def)


lemma next_index_inj: "h < CAP \<Longrightarrow> t < CAP \<Longrightarrow> next_index h = next_index t \<Longrightarrow> h = t"
  by (auto simp: next_index_eq split: if_splits)

lemma next_index_less: "h < CAP \<Longrightarrow> next_index h < CAP"
  by (auto simp: next_index_eq)

lemma in_flight_store:
  assumes "spsc_inv s" "p \<noteq> PIdle"
  shows "in_flight (s\<lparr>rbuf := (rbuf s)(head s := Some fn), producer := p\<rparr>) = in_flight s"
proof -
  have "slot s i \<noteq> head s" if "i < used s" for i
    using slot_not_head that assms(1) by (auto simp: spsc_inv_def)
  then show ?thesis
    by (auto simp: in_flight_def used_def slot_def split: consumer.split intro!: map_cong)
qed

lemma spsc_push_store:
  assumes "spsc_inv s" "producer s = PReady fn h n"
  shows "spsc_inv (s\<lparr>rbuf := (rbuf s)(h := Some fn), producer := PStored fn n\<rparr>)"
proof -
  let ?t = "s\<lparr>rbuf := (rbuf s)(h := Some fn), producer := PStored fn n\<rparr>"
  have h: "h = head s" and n: "n = next_index h" "n \<noteq> tail s"
    using assms by (auto simp: spsc_inv_def producer_ok_def)
  have eq: "used ?t = used s" "slot ?t i = slot s i" for i
    by (simp_all add: used_def slot_def)
  have "in_flight ?t = in_flight s"
    using in_flight_store [OF assms(1)] h by simp
  then show ?thesis
    using assms h n eq unfolding spsc_inv_def
    by (auto simp: producer_ok_def consumer_ok_def slot_not_head split: consumer.splits)
qed

lemma spsc_push_publish:
  assumes "spsc_inv s" "producer s = PStored fn n"
  shows "spsc_inv (s\<lparr>head := n, producer := PIdle, sent := sent s @ [fn]\<rparr>)"
proof -
  let ?t = "s\<lparr>head := n, producer := PIdle, sent := sent s @ [fn]\<rparr>"
  have b: "head s < CAP" "tail s < CAP"
    and n: "n = next_index (head s)" "n \<noteq> tail s" "rbuf s (head s) = Some fn"
    using assms by (auto simp: spsc_inv_def producer_ok_def)
  have u: "used ?t = Suc (used s)"
    using b n by (auto simp: used_def next_index_eq split: if_splits)
  have sl: "slot ?t i = slot s i" for i
    by (simp add: slot_def)
  have c: "consumer s = CTaken x t \<Longrightarrow> 0 < used s" for x t
    using assms(1) b by (auto simp: spsc_inv_def consumer_ok_def used_pos)
  have "in_flight ?t = in_flight s @ [fn]"
    unfolding in_flight_def u using sl slot_head [OF b] n(3) c
    by (auto split: consumer.split)
  moreover have "rbuf s (slot s i) \<noteq> None \<or> (i = 0 \<and> (\<exists>fn t. consumer s = CTaken fn t))"
    if "i < Suc (used s)" for i
    using that assms(1) slot_head [OF b] n(3) by (auto simp: spsc_inv_def less_Suc_eq)
  moreover have "consumer_ok ?t"
    using assms(1) b n by (auto simp: spsc_inv_def consumer_ok_def split: consumer.splits)
  ultimately show ?thesis
    using assms(1) b n u sl unfolding spsc_inv_def
    by (simp add: producer_ok_def next_index_less)
qed

lemma spsc_pop_take:
  assumes "spsc_inv s" "consumer s = CReady t" "rbuf s t = Some fn"
  shows "spsc_inv (s\<lparr>rbuf := (rbuf s)(t := None), consumer := CTaken fn t\<rparr>)"
proof -
  let ?t = "s\<lparr>rbuf := (rbuf s)(t := None), consumer := CTaken fn t\<rparr>"
  have b: "head s < CAP" "tail s < CAP" and t: "t = tail s" "tail s \<noteq> head s"
    using assms by (auto simp: spsc_inv_def consumer_ok_def)
  have eq: "used ?t = used s" "slot ?t i = slot s i" for i
    by (simp_all add: used_def slot_def)
  have ne: "slot s i = tail s \<longleftrightarrow> i = 0" if "i < used s" for i
    using slot_inj_zero [OF b(2) that b(1)] slot_zero [OF b(2)] by auto
  have "in_flight ?t = in_flight s"
    unfolding in_flight_def eq using ne assms(2,3) t slot_zero [OF b(2)]
    by (auto intro!: map_cong)
  moreover have "producer_ok ?t"
    using assms(1) t by (auto simp: spsc_inv_def producer_ok_def split: producer.splits)
  moreover have "rbuf s (slot s i) \<noteq> None" if "i < used s" for i
    using that assms(1,2) by (auto simp: spsc_inv_def)
  ultimately show ?thesis
    using assms(1) b t eq ne unfolding spsc_inv_def
    by (auto simp: consumer_ok_def)
qed

lemma spsc_pop_publish:
  assumes "spsc_inv s" "consumer s = CTaken fn t"
  shows "spsc_inv (s\<lparr>tail := next_index t, consumer := CIdle, got := got s @ [fn]\<rparr>)"
proof -
  let ?t = "s\<lparr>tail := next_index t, consumer := CIdle, got := got s @ [fn]\<rparr>"
  have b: "head s < CAP" "tail s < CAP" and t: "t = tail s" "tail s \<noteq> head s"
    using assms by (auto simp: spsc_inv_def consumer_ok_def)
  obtain n where n: "used s = Suc n"
    using used_pos [OF b(2,1) t(2)] gr0_implies_Suc by blast
  have u: "used ?t = n"
    using b n t by (auto simp: used_def next_index_eq split: if_splits)
  have sl: "slot ?t i = slot s (Suc i)" if "i < n" for i
    using that b n t by (auto simp: slot_def used_def next_index_eq split: if_splits)
  have "in_flight s = fn # map (\<lambda>i. the (rbuf s (slot s (Suc i)))) [0..<n]"
    unfolding in_flight_def n upt_conv_Cons [OF zero_less_Suc] map_Suc_upt [symmetric]
    using assms(2) by simp
  moreover have "in_flight ?t = map (\<lambda>i. the (rbuf s (slot s (Suc i)))) [0..<n]"
    unfolding in_flight_def u using sl by (auto intro!: map_cong)
  moreover have "rbuf s (slot ?t i) \<noteq> None" if "i < n" for i
    using that assms n sl by (auto simp: spsc_inv_def)
  moreover have "producer_ok ?t"
    using assms(1) b t next_index_inj [OF b]
    by (auto simp: spsc_inv_def producer_ok_def split: producer.splits)
  ultimately show ?thesis
    using assms(1) b t u unfolding spsc_inv_def
    by (simp add: consumer_ok_def next_index_less)
qed

lemma spsc_inv_step:
  assumes "spsc_step s t" "spsc_inv s"
  shows "spsc_inv t"
  using assms
proof cases
  case (push_load fn)
  have "in_flight t = in_flight s" "used t = used s" "slot t i = slot s i" for i
    by (simp_all add: push_load(1) in_flight_def split: consumer.split)
  with push_load assms(2) show ?thesis
    by (auto simp: spsc_inv_def producer_ok_def consumer_ok_def split: consumer.splits)
next
  case pop_load
  have "in_flight t = in_flight s" "used t = used s" "slot t i = slot s i" for i
    using pop_load(2) by (simp_all add: pop_load(1) in_flight_def split: consumer.split)
  with pop_load assms(2) show ?thesis
    by (auto simp: spsc_inv_def producer_ok_def consumer_ok_def split: producer.splits)
qed (use assms(2) in \<open>simp_all add: spsc_push_store spsc_push_publish spsc_pop_take spsc_pop_publish\<close>)

lemma spsc_reach_inv: "spsc_reach s \<Longrightarrow> spsc_inv s"
proof (induction rule: spsc_reach.induct)
  case init
  then show ?case
    by (simp add: spsc_inv_def spsc_init_def producer_ok_def consumer_ok_def in_flight_def used_def CAP_def)
next
  case (step s t)
  then show ?case using spsc_inv_step by blast
qed

text \<open>C4. In every interleaving of the two threads: the commands delivered are a prefix of those
  published, in order, and at most \<open>CAP - 1\<close> are in flight; the consumer never finds an empty
  slot; and the producer never stores into the slot the consumer is moving a command out of.\<close>

theorem spsc_safe:
  assumes "spsc_reach s"
  shows "(\<exists>rest. sent s = got s @ rest \<and> length rest \<le> CAP - 1)
    \<and> (\<forall>t. consumer s = CReady t \<longrightarrow> rbuf s t \<noteq> None)
    \<and> (\<forall>fn h n t. producer s = PReady fn h n \<and> consumer s = CReady t \<longrightarrow> h \<noteq> t)"
proof -
  from assms have inv: "spsc_inv s"
    by (rule spsc_reach_inv)
  then have b: "head s < CAP" "tail s < CAP"
    by (simp_all add: spsc_inv_def)
  have "used s \<le> CAP - 1"
    using b by (auto simp: used_def)
  then have "length (in_flight s) \<le> CAP - 1"
    by (simp add: in_flight_def)
  moreover have "rbuf s t \<noteq> None" if "consumer s = CReady t" for t
  proof -
    have t: "t = tail s" "tail s \<noteq> head s"
      using inv that by (simp_all add: spsc_inv_def consumer_ok_def)
    have "\<forall>i < used s. rbuf s (slot s i) \<noteq> None"
      using inv that by (simp add: spsc_inv_def)
    then have "rbuf s (slot s 0) \<noteq> None"
      using used_pos [OF b(2,1) t(2)] by blast
    then show ?thesis
      using t(1) slot_zero [OF b(2)] by simp
  qed
  moreover have "h \<noteq> t" if "producer s = PReady fn h n" "consumer s = CReady t" for fn h n t
    using inv that by (auto simp: spsc_inv_def producer_ok_def consumer_ok_def)
  moreover have "sent s = got s @ in_flight s"
    using inv by (simp add: spsc_inv_def)
  ultimately show ?thesis
    by blast
qed

theorem spsc_safe_witness:
  "\<exists>s. spsc_reach s \<and> sent s = [7 :: nat] \<and> producer s = PIdle \<and> consumer s = CReady 0
     \<and> rbuf s 0 \<noteq> None"
proof -
  have r: "spsc_reach (spsc_init \<lparr>producer := PReady (7 :: nat) 0 1\<rparr>)"
    using spsc_reach.step [OF spsc_reach.init push_load [of spsc_init 7]]
    by (simp add: spsc_init_def next_index_eq CAP_def)
  note r2 = spsc_reach.step [OF r push_store [of _ 7 0 1]]
  have r3: "spsc_reach (spsc_init \<lparr>rbuf := [0 \<mapsto> 7 :: nat], head := 1, sent := [7]\<rparr>)"
    using spsc_reach.step [OF r2 push_publish [of _ 7 1]] by (simp add: spsc_init_def)
  let ?s = "spsc_init \<lparr>rbuf := [0 \<mapsto> 7 :: nat], head := 1, sent := [7], consumer := CReady 0\<rparr>"
  have s: "spsc_reach ?s"
    using spsc_reach.step [OF r3 pop_load] by (simp add: spsc_init_def)
  then have "rbuf ?s 0 \<noteq> None"
    using spsc_safe [OF s] by simp
  with s show ?thesis
    by (intro exI [of _ ?s]) (simp add: spsc_init_def)
qed

text \<open>C10. The ring is a FIFO queue of \<open>CAP - 1\<close> commands: over any sequence of pushes and pops
  from the empty ring, what was accepted is what came out, in order, followed by what is still
  queued; nothing is lost, duplicated or reordered, and a push is refused only at
  \<open>CAP - 1\<close> queued commands.\<close>

theorem ring_fifo:
  assumes "ring.run ops empty_ring = (acc, out, r)"
  shows "acc = out @ queued r \<and> length (queued r) \<le> CAP - 1
    \<and> (push x r = None \<longleftrightarrow> length (queued r) = CAP - 1)"
proof -
  have wf: "ring_wf r" and "acc = out @ queued r"
    using ring.run_fifo [OF ring_wf_empty assms] by simp_all
  moreover have "push x r = None \<longleftrightarrow> length (queued r) = CAP - 1"
    by (cases rule: ring.put_cases [OF wf, of x]) auto
  ultimately show ?thesis
    using ring.len [OF wf] by blast
qed

theorem ring_fifo_witness:
  "\<exists>r. ring.run [Push 1, Push 2, Pop, Pop, Pop, Push 3] empty_ring = ([1, 2, 3 :: nat], [1, 2], r)
     \<and> queued r = [3]"
proof -
  obtain r where r: "ring.run [Push 1, Push 2, Pop, Pop, Pop, Push 3] empty_ring = ([1, 2, 3 :: nat], [1, 2], r)"
    by (simp add: push_def pop_def empty_ring_def Let_def next_index_eq CAP_def)
  then show ?thesis
    using ring_fifo [OF r] by simp
qed

end
