(* ===== verification/Wav_IO.thy ===== *)
theory Wav_IO
  imports Py_Store
begin

text \<open>
  \<open>src/softcut/_wavio.py\<close>: reading a WAV file into interleaved float32 samples, averaging
  it to mono, and writing 16-bit PCM. The \<open>wave\<close> module is the standard library's; what the
  code uses of it is modelled here: what \<open>open\<close> raises, the checks of \<open>setframerate\<close> and of
  the header fields, and the file it leaves when one of them fails (an empty file, or one
  whose header is cut short).

  A buffer argument is what \<open>memoryview\<close> shows of it: a format, a shape, whether it is
  C-contiguous, and its samples in order.
\<close>

section \<open>Reading\<close>

text \<open>\<open>wave.open(path, "rb")\<close>\<close>

definition open_rb :: "(path \<Rightarrow> node option) \<Rightarrow> path \<Rightarrow> pyexc + wav" where
  "open_rb fs p =
     ebind (resolve fs [] p)
       (\<lambda>n. case n of Dir \<Rightarrow> Inl IsADirectoryError | Wav w \<Rightarrow> Inr w | Bad e \<Rightarrow> Inl e)"

text \<open>\<open>_empty(n)\<close>\<close>

definition empty_samples :: "int \<Rightarrow> samples" where
  "empty_samples n = replicate (nat n) (Fin 0)"

definition read_wav :: "(path \<Rightarrow> node option) \<Rightarrow> path \<Rightarrow> pyexc + samples \<times> int \<times> int" where
  "read_wav fs p =
     ebind (open_rb fs p)
       (\<lambda>w. let raw = frames w; width = sampwidth w
            in if width \<notin> {1, 2, 3, 4} then Inl ValueError
               else Inr (pcm_decode (empty_samples (int (length raw div width))) raw width,
                         nchannels w, framerate w))"

text \<open>One turn of the averaging loop: extract a channel into the scratch buffer, add it in.\<close>

definition mono_step ::
    "samples \<Rightarrow> int \<Rightarrow> int \<Rightarrow> int \<Rightarrow> samples \<times> samples \<Rightarrow> pyexc + samples \<times> samples" where
  "mono_step data channels nframes col = (\<lambda>(mono, scratch).
     ebind (buffer_extract_channel scratch data channels col 0 nframes)
       (\<lambda>scratch'. ebind (buffer_apply mono 0 (Some scratch') (Fin 1) (Fin 1) 0 (- 1))
         (\<lambda>mono'. Inr (mono', scratch'))))"

text \<open>\<open>1.0 / channels\<close>\<close>

definition reciprocal :: "int \<Rightarrow> pyexc + flt" where
  "reciprocal n = (if n = 0 then Inl ZeroDivisionError else Inr (rnd F64 (1 / of_int n)))"

definition average_channels :: "samples \<Rightarrow> int \<Rightarrow> pyexc + samples" where
  "average_channels data channels =
     (let n = (if channels \<noteq> 0 then int (length data) div channels else 0)
      in ebind (efold (mono_step data channels n) [0..channels - 1]
                 (empty_samples n, empty_samples n))
           (\<lambda>(mono, _). ebind (reciprocal channels)
             (\<lambda>r. buffer_apply mono 0 None r (Fin 0) 0 n)))"

definition read_wav_mono :: "(path \<Rightarrow> node option) \<Rightarrow> path \<Rightarrow> pyexc + samples \<times> int" where
  "read_wav_mono fs p =
     ebind (read_wav fs p)
       (\<lambda>(data, channels, sr).
          if channels = 1 then Inr (data, sr)
          else ebind (average_channels data channels) (\<lambda>mono. Inr (mono, sr)))"

section \<open>Writing\<close>

record view =
  vformat :: string
  vshape :: "nat list"
  vcontig :: bool
  vdata :: samples

definition array_view :: "samples \<Rightarrow> view" where
  "array_view xs = \<lparr>vformat = ''f'', vshape = [length xs], vcontig = True, vdata = xs\<rparr>"

text \<open>The argument checks of \<open>write_wav\<close>: the channel count it settles on, or the exception.\<close>

definition inferred_channels :: "view \<Rightarrow> int option" where
  "inferred_channels v = (if length (vshape v) = 2 then Some (int (vshape v ! 1)) else None)"

definition check_view :: "view \<Rightarrow> int option \<Rightarrow> pyexc + int" where
  "check_view v channels =
     (if vformat v \<noteq> ''f'' then Inl ValueError
      else if length (vshape v) \<notin> {1, 2} then Inl ValueError
      else let inferred = inferred_channels v;
               ch = (case channels of Some c \<Rightarrow> c
                     | None \<Rightarrow> (case inferred of Some c \<Rightarrow> c | None \<Rightarrow> 1))
           in if ch < 1 then Inl ValueError
              else if inferred \<noteq> None \<and> inferred \<noteq> Some ch then Inl ValueError
              else if \<not> vcontig v \<or> (length (vshape v) \<noteq> 1 \<and> 0 \<in> set (vshape v)) then Inl TypeError
              else if int (length (vdata v)) mod ch \<noteq> 0 then Inl ValueError
              else Inr ch)"

text \<open>The header fields \<open>wave\<close> packs as unsigned 16- and 32-bit integers.\<close>

definition header_fits :: "int \<Rightarrow> int \<Rightarrow> nat \<Rightarrow> bool" where
  "header_fits ch sr nbytes \<longleftrightarrow>
     ch * 2 < 2 ^ 16 \<and> sr < 2 ^ 32 \<and> ch * sr * 2 < 2 ^ 32 \<and> 36 + int nbytes < 2 ^ 32"

text \<open>The \<open>with wave.open(path, "wb")\<close> block.\<close>

definition wave_write ::
    "path \<Rightarrow> int \<Rightarrow> int \<Rightarrow> samples \<Rightarrow> ('z store_scheme, unit) py" where
  "wave_write p ch sr xs = (\<lambda>s.
     let left = (\<lambda>n. s\<lparr>files := (files s)(p \<mapsto> n)\<rparr>); raw = pcm_encode_s16 xs
     in if node_at (files s) p = Some Dir then (Inl IsADirectoryError, s)
        else if sr \<le> 0 then (Inl WaveError, left (Bad EOFError))
        else if \<not> header_fits ch sr (length raw) then (Inl StructError, left (Bad WaveError))
        else (Inr (), left (Wav \<lparr>nchannels = ch, sampwidth = 2, framerate = sr, frames = raw\<rparr>)))"

definition mkdir_parents :: "path \<Rightarrow> ('z store_scheme, unit) py" where
  "mkdir_parents p = (\<lambda>s.
     case mkdirs [] p (files s) of Inl e \<Rightarrow> (Inl e, s) | Inr fs \<Rightarrow> (Inr (), s\<lparr>files := fs\<rparr>))"

definition write_wav ::
    "path \<Rightarrow> view \<Rightarrow> int \<Rightarrow> int option \<Rightarrow> ('z store_scheme, path) py" where
  "write_wav p v sr channels =
     bnd (lift (check_view v channels))
       (\<lambda>ch. seqn (mkdir_parents (butlast p)) (seqn (wave_write p ch sr (vdata v)) (ret p)))"

section \<open>What a write leaves behind\<close>

lemma write_wav_cases:
  obtains (check) e where "check_view v ch = Inl e" "write_wav p v sr ch s = (Inl e, s)"
  | (dirs) c e where "check_view v ch = Inr c" "mkdirs [] (butlast p) (files s) = Inl e"
      "write_wav p v sr ch s = (Inl e, s)"
  | (through) c fs where "check_view v ch = Inr c" "mkdirs [] (butlast p) (files s) = Inr fs"
      "write_wav p v sr ch s =
         seqn (wave_write p c sr (vdata v)) (ret p) (s\<lparr>files := fs\<rparr>)"
proof (cases "check_view v ch")
  case (Inl e)
  then show ?thesis
    by (intro check [of e]) (simp_all add: write_wav_def py_simps)
next
  case (Inr c)
  show ?thesis
  proof (cases "mkdirs [] (butlast p) (files s)")
    case (Inl e)
    with Inr show ?thesis
      by (intro dirs [of c e]) (simp_all add: write_wav_def py_simps mkdir_parents_def)
  next
    case (Inr fs)
    with \<open>check_view v ch = Inr c\<close> show ?thesis
      by (intro through [of c fs]) (simp_all add: write_wav_def py_simps mkdir_parents_def)
  qed
qed

lemma wave_write_ok:
  "wave_write p c sr xs s = (Inr (), s') \<longleftrightarrow>
     node_at (files s) p \<noteq> Some Dir \<and> 0 < sr \<and> header_fits c sr (2 * length xs) \<and>
     s' = s\<lparr>files := (files s)(p \<mapsto> Wav \<lparr>nchannels = c, sampwidth = 2, framerate = sr,
                                            frames = pcm_encode_s16 xs\<rparr>)\<rparr>"
  by (auto simp: wave_write_def Let_def split: if_splits)

lemma wave_write_frame:
  "mem (snd (wave_write p c sr xs s)) = mem s" "brk (snd (wave_write p c sr xs s)) = brk s"
  "store.more (snd (wave_write p c sr xs s)) = store.more s"
  "q \<noteq> p \<Longrightarrow> files (snd (wave_write p c sr xs s)) q = files s q"
  by (auto simp: wave_write_def Let_def)

lemma snd_seqn_ret [simp]: "snd (seqn m (ret x) s) = snd (m s)"
  by (cases "m s"; cases "fst (m s)") (auto simp: bnd_def ret_def split: sum.splits prod.splits)

lemma wave_write_files:
  assumes "mkdirs [] (butlast p) (files s) = Inr fs"
  shows "q = p \<or> files (snd (wave_write p c sr xs (s\<lparr>files := fs\<rparr>))) q = files s q
    \<or> (files s q = None \<and> files (snd (wave_write p c sr xs (s\<lparr>files := fs\<rparr>))) q = Some Dir
       \<and> (\<exists>zs. butlast p = q @ zs))"
proof (cases "q = p")
  case False
  then have "files (snd (wave_write p c sr xs (s\<lparr>files := fs\<rparr>))) q = fs q"
    using wave_write_frame(4) [of q p c sr xs "s\<lparr>files := fs\<rparr>"] by simp
  then show ?thesis
    using mkdirs_frame [OF assms, of q] by auto
qed simp

text \<open>Writing a WAV file never touches a sample array, whatever it returns or raises; of the
  file system it changes only the file named, apart from creating directories that were
  missing on the way to it; and a buffer that fails the checks changes nothing at all.\<close>

theorem write_wav_frame:
  shows "mem (snd (write_wav p v sr ch s)) = mem s
    \<and> store.more (snd (write_wav p v sr ch s)) = store.more s
    \<and> (q = p \<or> files (snd (write_wav p v sr ch s)) q = files s q
          \<or> (files s q = None \<and> files (snd (write_wav p v sr ch s)) q = Some Dir
             \<and> (\<exists>zs. butlast p = q @ zs)))
    \<and> (\<forall>e. check_view v ch = Inl e \<longrightarrow> write_wav p v sr ch s = (Inl e, s))"
proof (cases rule: write_wav_cases [of v ch p sr s])
  case (check e)
  then show ?thesis by simp
next
  case (dirs c e)
  then show ?thesis by simp
next
  case (through c fs)
  then show ?thesis
    using wave_write_files [OF through(2), of q c sr "vdata v"] by (simp add: wave_write_frame)
qed

lemma write_wav_ok:
  "write_wav p v sr ch s = (Inr r, s') \<longleftrightarrow>
     (\<exists>c fs. check_view v ch = Inr c \<and> mkdirs [] (butlast p) (files s) = Inr fs \<and>
        wave_write p c sr (vdata v) (s\<lparr>files := fs\<rparr>) = (Inr (), s') \<and> r = p)"
proof (cases rule: write_wav_cases [of v ch p sr s])
  case (through c fs)
  obtain w t where "wave_write p c sr (vdata v) (s\<lparr>files := fs\<rparr>) = (w, t)"
    by (cases "wave_write p c sr (vdata v) (s\<lparr>files := fs\<rparr>)")
  with through show ?thesis
    by (cases w) (auto simp: bnd_def ret_def)
qed auto

text \<open>Exactly when a write succeeds: the buffer passes the checks, no file is in the way of
  the parent directories, the target is not a directory, the sample rate is positive and the
  sizes fit the WAV header.\<close>

theorem write_wav_succeeds_iff:
  "(\<exists>r s'. write_wav p v sr ch s = (Inr r, s')) \<longleftrightarrow>
     (\<exists>c fs. check_view v ch = Inr c \<and> mkdirs [] (butlast p) (files s) = Inr fs
        \<and> node_at fs p \<noteq> Some Dir \<and> 0 < sr \<and> header_fits c sr (2 * length (vdata v)))"
  by (simp add: write_wav_ok wave_write_ok) blast

lemma check_view_ok:
  assumes "check_view v ch = Inr c"
  shows "1 \<le> c" "int (length (vdata v)) mod c = 0"
  using assms by (simp_all add: check_view_def Let_def split: if_splits)

lemma resolve_written:
  assumes "mkdirs [] (butlast p) fs0 = Inr fs" "node_at fs p \<noteq> Some Dir" "n \<noteq> Dir"
  shows "resolve (fs(p \<mapsto> n)) [] p = Inr n"
proof -
  have p: "p \<noteq> []" "p \<noteq> [''/'']"
    using assms(2) by (auto simp: node_at_def)
  have "node_at fs ys = Some Dir" if "p = ys @ zs" "ys \<noteq> []" "zs \<noteq> []" for ys zs
    using mkdirs_dirs [OF assms(1), of ys "butlast zs"] that by (simp add: butlast_append)
  then have "resolve (fs([] @ p \<mapsto> n)) [] p = Inr n"
    using p assms(3) by (intro resolve_upd) simp_all
  then show ?thesis
    by (simp only: append_Nil)
qed

lemma pcm16_decode_encode:
  "pcm_decode (replicate (length xs) (Fin 0)) (pcm_encode_s16 xs) 2
   = map (pcm16_at (pcm_encode_s16 xs)) [0..<length xs]"
  by (rule nth_equalityI) (simp_all add: pcm_decode_def nth_for_upd)

text \<open>What is read back: the decoded encoding of the samples.\<close>

lemma written_wav:
  assumes "write_wav p v sr ch s = (Inr r, s')"
  shows "\<exists>c. check_view v ch = Inr c \<and> 0 < sr \<and> sr < 2 ^ 32
    \<and> read_wav (files s') p = Inr (map (pcm16_at (pcm_encode_s16 (vdata v))) [0..<length (vdata v)], c, sr)"
proof -
  obtain c fs where c: "check_view v ch = Inr c" and fs: "mkdirs [] (butlast p) (files s) = Inr fs"
    and w: "wave_write p c sr (vdata v) (s\<lparr>files := fs\<rparr>) = (Inr (), s')"
    using assms by (auto simp: write_wav_ok)
  let ?raw = "pcm_encode_s16 (vdata v)"
  let ?w = "\<lparr>nchannels = c, sampwidth = 2, framerate = sr, frames = ?raw\<rparr>"
  from w have "files s' = fs(p \<mapsto> Wav ?w)" and nd: "node_at fs p \<noteq> Some Dir"
    and sr: "0 < sr" "sr < 2 ^ 32"
    by (auto simp: wave_write_ok header_fits_def)
  then have "open_rb (files s') p = Inr ?w"
    using resolve_written [OF fs nd, of "Wav ?w"] by (simp add: open_rb_def)
  then have "read_wav (files s') p = Inr (map (pcm16_at ?raw) [0..<length (vdata v)], c, sr)"
    by (simp add: read_wav_def empty_samples_def pcm16_decode_encode)
  with c sr show ?thesis by blast
qed

text \<open>C23. The file round trip: what \<open>write_wav\<close> wrote, \<open>read_wav\<close> reads back with the same
  sample rate, the channel count that was asked for or inferred from the shape, the same
  number of samples in whole frames, and every sample of [-1, 1] within 2^-14.\<close>

theorem wav_file_roundtrip:
  assumes "write_wav p v sr ch s = (Inr r, s')"
  shows "\<exists>data c. read_wav (files s') p = Inr (data, c, sr)
    \<and> check_view v ch = Inr c \<and> int (length data) mod c = 0
    \<and> length data = length (vdata v)
    \<and> (\<forall>i q. i < length data \<and> vdata v ! i = Fin q \<and> \<bar>q\<bar> \<le> 1 \<longrightarrow>
          (\<exists>d. data ! i = Fin d \<and> \<bar>d - q\<bar> < 1 / 2 ^ 14))"
proof -
  let ?raw = "pcm_encode_s16 (vdata v)"
  obtain c where c: "check_view v ch = Inr c"
    and r: "read_wav (files s') p = Inr (map (pcm16_at ?raw) [0..<length (vdata v)], c, sr)"
    using written_wav [OF assms] by blast
  have "\<exists>d. pcm16_at ?raw i = Fin d \<and> \<bar>d - q\<bar> < 1 / 2 ^ 14"
    if "i < length (vdata v)" "vdata v ! i = Fin q" "\<bar>q\<bar> \<le> 1" for i q
    using that by (intro pcm16_sample_accuracy) (auto simp: abs_le_iff)
  then show ?thesis
    using c r check_view_ok [OF c] by auto
qed

theorem wav_file_roundtrip_witness:
  "\<exists>data c s'. snd (write_wav [''d'', ''x.wav''] (array_view [Fin (1 / 2), Fin (- 1)]) 48000 (Some 2) empty_store) = s'
     \<and> read_wav (files s') [''d'', ''x.wav''] = Inr (data, c, 48000) \<and> length data = 2"
proof -
  let ?v = "array_view [Fin (1 / 2), Fin (- 1)]"
  have c: "check_view ?v (Some 2) = Inr 2"
    by code_simp
  have f: "mkdirs [] [''d''] (files empty_store) = Inr [[''d''] \<mapsto> Dir]"
    by (simp add: empty_store_def node_at_def)
  obtain r s' where w: "write_wav [''d'', ''x.wav''] ?v 48000 (Some 2) empty_store = (Inr r, s')"
    using c f by (auto simp: write_wav_ok wave_write_ok node_at_def header_fits_def array_view_def)
  show ?thesis
    using wav_file_roundtrip [OF w] w by (auto simp: array_view_def)
qed

section \<open>Averaging to mono\<close>

text \<open>
  The specification: frame \<open>i\<close> of the mono buffer is the binary32 sum of the frame's channels,
  in order, times the binary32 reciprocal of their number.
\<close>

definition channel_sum :: "samples \<Rightarrow> nat \<Rightarrow> nat \<Rightarrow> nat \<Rightarrow> flt" where
  "channel_sum data n k i = fold (\<lambda>c acc. fadd F32 acc (data ! (i * n + c))) [0..<k] (Fin 0)"

lemma channel_sum_Suc:
  "channel_sum data n (Suc k) i = fadd F32 (channel_sum data n k i) (data ! (i * n + k))"
  by (simp add: channel_sum_def)

lemma is_flt_channel_sum: "is_flt F32 (channel_sum data n k i)"
  by (induction k) (simp_all add: channel_sum_Suc, simp add: channel_sum_def)

lemma read_wav_flt:
  assumes "read_wav fs p = Inr (data, c, sr)"
  shows "\<forall>d \<in> set data. is_flt F32 d"
proof -
  have "\<forall>i < length data. is_flt F32 (data ! i)"
    using assms
    by (auto simp: read_wav_def ebind_eq_Inr Let_def pcm_decode_def empty_samples_def nth_for_upd
        pcm8_at_def pcm16_at_def pcm24_at_def pcm32_at_def split: if_splits)
  then show ?thesis
    by (simp add: all_set_conv_all_nth)
qed

lemma reciprocal_pos:
  assumes "1 \<le> n" "n < 2 ^ 16"
  shows "\<exists>q. to_f32 (rnd F64 (1 / of_nat n)) = Fin q \<and> 0 < q \<and> q \<le> 1"
proof -
  have r: "representable F64 (1 / 65536)" "representable F64 1" "representable F32 (1 / 65536)"
      "representable F32 1"
    using rep_dyadic [of 1 F64 "- 16"] rep_dyadic [of 1 F32 "- 16"] rep_int [of 1 F64] rep_int [of 1 F32]
    by (simp_all add: power_int_minus inverse_eq_divide)
  have "of_nat n < (2 ^ 16 :: rat)"
    using assms(2) by (metis of_nat_less_iff of_nat_numeral of_nat_power)
  then have "1 / 65536 \<le> 1 / (of_nat n :: rat)" "1 / (of_nat n :: rat) \<le> 1"
    using assms(1) by (simp_all add: field_simps)
  then obtain x where x: "rnd F64 (1 / of_nat n) = Fin x" "1 / 65536 \<le> x" "x \<le> 1"
    using rnd_Fin_bounds [OF r(1,2)] by blast
  then obtain y where y: "rnd F32 x = Fin y" "1 / 65536 \<le> y" "y \<le> 1"
    using rnd_Fin_bounds [OF r(3,4)] by blast
  then have "to_f32 (rnd F64 (1 / of_nat n)) = Fin y" "0 < y"
    using x by (simp_all add: to_f32_def)
  then show ?thesis using y by blast
qed

lemma extract_channel_map:
  assumes "int m < 2 ^ 63" "length scratch = m"
  shows "buffer_extract_channel scratch data (int n) (int k) 0 (int m)
         = Inr (map (\<lambda>i. data ! (i * n + k)) [0..<m])"
proof -
  have "nat (int i * int n + int k) = i * n + k" for i
    by (simp add: nat_eq_iff)
  then show ?thesis
    using assms
    by (simp add: buffer_extract_channel_def int64_def extract_channel_into_def Let_def)
qed

lemma mono_step_sum:
  assumes data: "n * m \<le> length data" "\<forall>d \<in> set data. is_flt F32 d"
    and k: "k < n" and m: "int m < 2 ^ 63" "length scratch = m"
  shows "mono_step data (int n) (int m) (int k) (map (channel_sum data n k) [0..<m], scratch)
    = Inr (map (channel_sum data n (Suc k)) [0..<m], map (\<lambda>i. data ! (i * n + k)) [0..<m])"
proof -
  let ?acc = "map (channel_sum data n k) [0..<m]" and ?scr = "map (\<lambda>i. data ! (i * n + k)) [0..<m]"
  have "is_flt F32 (data ! (i * n + k))" if "i < m" for i
  proof -
    have "i * n + k < Suc i * n"
      using k by simp
    also have "\<dots> \<le> m * n"
      using that by (intro mult_le_mono1) simp
    also have "\<dots> \<le> length data"
      using data(1) by (simp add: mult.commute)
    finally show ?thesis
      using data(2) by simp
  qed
  then have "blended ?acc 0 (Some ?scr) (int m) (Fin 1) (Fin 1) 0
      = map (channel_sum data n (Suc k)) [0..<m]"
    by (intro nth_equalityI)
      (simp_all add: apply_src_nth fmul_one is_flt_channel_sum channel_sum_Suc)
  then show ?thesis
    using m by (simp add: mono_step_def extract_channel_map buffer_apply_def int64_def to_f32_def)
qed

lemma mono_loop_sum:
  assumes data: "n * m \<le> length data" "\<forall>d \<in> set data. is_flt F32 d"
    and k: "k \<le> n" and m: "int m < 2 ^ 63" "length scratch = m"
  shows "\<exists>scratch'. efold (mono_step data (int n) (int m)) (map int [0..<k])
      (map (channel_sum data n 0) [0..<m], scratch)
    = Inr (map (channel_sum data n k) [0..<m], scratch') \<and> length scratch' = m"
  using k
proof (induction k)
  case 0
  then show ?case using m by simp
next
  case (Suc k)
  then obtain scr where "efold (mono_step data (int n) (int m)) (map int [0..<k])
      (map (channel_sum data n 0) [0..<m], scratch)
    = Inr (map (channel_sum data n k) [0..<m], scr)" "length scr = m"
    by auto
  then show ?case
    using mono_step_sum [OF data _ m(1), of k scr] Suc.prems by (simp add: efold_append)
qed

text \<open>Averaging to mono: for a file of two or more channels, \<open>read_wav_mono\<close> gives one
  sample per whole frame, each the sum of that frame's channels (accumulated in order in
  binary32 by the blended write) scaled by the reciprocal of the channel count; it never
  raises on a file that \<open>read_wav\<close> accepts.\<close>

theorem read_wav_mono_average:
  assumes "read_wav fs p = Inr (data, int n, sr)" "2 \<le> n" "n < 2 ^ 16"
    and "length data < 2 ^ 62"
  shows "read_wav_mono fs p = Inr
    (map (\<lambda>i. fmul F32 (channel_sum data n n i) (to_f32 (rnd F64 (1 / of_nat n))))
       [0..<length data div n], sr)"
proof -
  let ?m = "length data div n" and ?r = "rnd F64 (1 / of_nat n)"
  have len: "n * ?m \<le> length data" and m: "int ?m < 2 ^ 63"
    using le_less_trans [OF div_le_dividend [of "length data" n] assms(4)]
    by (simp_all add: times_div_less_eq_dividend)
  have flt: "\<forall>d \<in> set data. is_flt F32 d"
    using read_wav_flt [OF assms(1)] .
  have z: "empty_samples (int ?m) = map (channel_sum data n 0) [0..<?m]"
    by (rule nth_equalityI) (simp_all add: empty_samples_def channel_sum_def)
  obtain scr where loop: "efold (mono_step data (int n) (int ?m)) [0..int n - 1]
      (empty_samples (int ?m), empty_samples (int ?m))
    = Inr (map (channel_sum data n n) [0..<?m], scr)"
    using mono_loop_sum [OF len flt le_refl m, of "empty_samples (int ?m)"]
    unfolding upto_int_upt z by auto
  have nz: "to_f32 ?r \<noteq> Fin 0"
    using reciprocal_pos [of n] assms(2,3) by auto
  have "blended (map (channel_sum data n n) [0..<?m]) 0 None (int ?m) (to_f32 ?r) (Fin 0) 0
      = map (\<lambda>i. fmul F32 (channel_sum data n n i) (to_f32 ?r)) [0..<?m]"
    using nz by (intro nth_equalityI) (simp_all add: apply_silent_nth feq_def)
  moreover have "int64 (int ?m)"
    using m by (simp add: int64_def)
  ultimately have "buffer_apply (map (channel_sum data n n) [0..<?m]) 0 None ?r (Fin 0) 0 (int ?m)
      = Inr (map (\<lambda>i. fmul F32 (channel_sum data n n i) (to_f32 ?r)) [0..<?m])"
    by (simp add: buffer_apply_def int64_def)
  then have "average_channels data (int n)
      = Inr (map (\<lambda>i. fmul F32 (channel_sum data n n i) (to_f32 ?r)) [0..<?m])"
    using loop assms(2)
    by (simp add: average_channels_def reciprocal_def zdiv_int)
  then show ?thesis
    using assms(1,2) by (simp add: read_wav_mono_def)
qed

end
