(* ===== verification/Engine.thy ===== *)
theory Engine
  imports Voice Command_Queue Wav_IO
begin

text \<open>
  The multi-voice host: \<open>struct Engine\<close> and the voice setters of \<open>src/softcut/_core.cpp\<close>, the mixer
  of \<open>src/shared/mixer.hpp\<close>, and the Python facade \<open>Engine\<close> with the sugar attached to
  \<open>Voice\<close> (\<open>src/softcut/__init__.py\<close>).

  The state extends the store. While the device is stopped a setter calls the DSP object at
  once; while it is running it pushes a command, which the audio callback applies at its next
  block (\<open>drain\<close>). Two queues, one per producer thread: the Python control thread and the
  native OSC receiver. A full queue is retried for about two blocks and then the change is
  dropped and counted; the callbacks that may run during the wait are separate steps before
  the operation, so here a push on a full queue is a drop.

  Whether the audio device opens and starts is the field \<open>device_ok\<close> of the environment.
\<close>

type_synonym cmd = "nat \<times> dsp_ev \<times> bool"

record engine = store +
  voices :: "voice list"
  esr :: flt
  emode :: string
  block :: nat
  outch :: nat
  running :: bool
  device_ok :: bool
  cmdq :: "cmd ring"
  oscq :: "cmd ring"
  fbk :: "nat \<Rightarrow> nat \<Rightarrow> flt"
  prev_out :: "samples list"
  cur_out :: "samples list"

section \<open>Commands\<close>

definition upd_voice :: "nat \<Rightarrow> (voice \<Rightarrow> voice) \<Rightarrow> 'z engine_scheme \<Rightarrow> 'z engine_scheme" where
  "upd_voice i f s = s\<lparr>voices := (voices s)[i := f (voices s ! i)]\<rparr>"

definition run_cmd :: "cmd \<Rightarrow> 'z engine_scheme \<Rightarrow> 'z engine_scheme" where
  "run_cmd c s = (case c of (i, e, fl) \<Rightarrow> upd_voice i (apply_ev e fl) s)"

text \<open>\<open>drain_commands\<close>: first the control queue, then the OSC queue.\<close>

definition drain_ctl :: "'z engine_scheme \<Rightarrow> 'z engine_scheme" where
  "drain_ctl s = (let (cs, q) = pop_all CAP (cmdq s) in fold run_cmd cs (s\<lparr>cmdq := q\<rparr>))"

definition drain_osc :: "'z engine_scheme \<Rightarrow> 'z engine_scheme" where
  "drain_osc s = (let (cs, q) = pop_all CAP (oscq s) in fold run_cmd cs (s\<lparr>oscq := q\<rparr>))"

definition drain :: "'z engine_scheme \<Rightarrow> 'z engine_scheme" where
  "drain s = drain_osc (drain_ctl s)"

datatype qid = Ctl | Osc

definition queue_apply :: "qid \<Rightarrow> cmd \<Rightarrow> 'z engine_scheme \<Rightarrow> bool \<times> 'z engine_scheme" where
  "queue_apply q c s =
     (case q of
        Ctl \<Rightarrow> (case push c (cmdq s) of
                 Some r \<Rightarrow> (True, s\<lparr>cmdq := r\<rparr>)
               | None \<Rightarrow> (False, upd_voice (fst c) (\<lambda>v. v\<lparr>dropped := dropped v + 1\<rparr>) s))
      | Osc \<Rightarrow> (case push c (oscq s) of
                 Some r \<Rightarrow> (True, s\<lparr>oscq := r\<rparr>)
               | None \<Rightarrow> (False, upd_voice (fst c) (\<lambda>v. v\<lparr>dropped := dropped v + 1\<rparr>) s)))"

text \<open>\<open>dsp_apply\<close> and \<open>osc_apply\<close>: now, or through the queue of the calling thread.\<close>

definition dsp_apply :: "qid \<Rightarrow> nat \<Rightarrow> dsp_ev \<Rightarrow> bool \<Rightarrow> 'z engine_scheme \<Rightarrow> bool \<times> 'z engine_scheme" where
  "dsp_apply q i e fl s =
     (if running s then queue_apply q (i, e, fl) s
      else (True, run_cmd (i, e, fl) s))"

definition flag_apply :: "qid \<Rightarrow> nat \<Rightarrow> dsp_ev \<Rightarrow> 'z engine_scheme \<Rightarrow> 'z engine_scheme" where
  "flag_apply q i e s =
     (let s1 = upd_voice i (\<lambda>v. v\<lparr>flags_pending := flags_pending v + 1\<rparr>) s;
          (ok, s2) = dsp_apply q i e True s1
      in if ok then s2 else upd_voice i (\<lambda>v. v\<lparr>flags_pending := flags_pending v - 1\<rparr>) s2)"

section \<open>Voice setters\<close>

text \<open>Store the mirror, then apply or queue the DSP setter. The value is already binary32.\<close>

definition post_float :: "qid \<Rightarrow> nat \<Rightarrow> fattr \<Rightarrow> flt \<Rightarrow> 'z engine_scheme \<Rightarrow> 'z engine_scheme" where
  "post_float q i a x s = snd (dsp_apply q i (DFloat a x) False (upd_voice i (store_float a x) s))"

definition post_bool :: "qid \<Rightarrow> nat \<Rightarrow> battr \<Rightarrow> bool \<Rightarrow> 'z engine_scheme \<Rightarrow> 'z engine_scheme" where
  "post_bool q i b x s =
     (let s1 = upd_voice i (store_bool b x) s
      in if b = Rec \<or> b = RecOnce then flag_apply q i (DBool b x) s1
         else snd (dsp_apply q i (DBool b x) False s1))"

definition set_float :: "nat \<Rightarrow> fattr \<Rightarrow> flt \<Rightarrow> ('z engine_scheme, unit) py" where
  "set_float i a x = modify (post_float Ctl i a (to_f32 x))"

definition set_mix :: "nat \<Rightarrow> mattr \<Rightarrow> flt \<Rightarrow> ('z engine_scheme, unit) py" where
  "set_mix i a x = modify (upd_voice i (store_mix a (to_f32 x)))"

definition set_bool :: "nat \<Rightarrow> battr \<Rightarrow> bool \<Rightarrow> ('z engine_scheme, unit) py" where
  "set_bool i b x = modify (post_bool Ctl i b x)"

definition set_shape :: "nat \<Rightarrow> sattr \<Rightarrow> string \<Rightarrow> ('z engine_scheme, unit) py" where
  "set_shape i a name =
     bnd (lift (fade_shape name))
       (\<lambda>k. modify (\<lambda>s. snd (dsp_apply Ctl i (DShape a k) False (upd_voice i (store_shape a k) s))))"

definition set_voice_rate :: "nat \<Rightarrow> flt \<Rightarrow> ('z engine_scheme, unit) py" where
  "set_voice_rate i hz =
     modify (\<lambda>s. snd (dsp_apply Ctl i (DSampleRate (to_f32 hz)) False
                        (upd_voice i (\<lambda>v. v\<lparr>vsample_rate := to_f32 hz\<rparr>) s)))"

definition cut_to :: "nat \<Rightarrow> flt \<Rightarrow> ('z engine_scheme, unit) py" where
  "cut_to i x = modify (\<lambda>s. snd (dsp_apply Ctl i (DCut (to_f32 x)) False s))"

definition voice_stop :: "nat \<Rightarrow> ('z engine_scheme, unit) py" where
  "voice_stop i = modify (\<lambda>s. snd (dsp_apply Ctl i DStop False s))"

definition voice_reset :: "nat \<Rightarrow> ('z engine_scheme, unit) py" where
  "voice_reset i = modify (\<lambda>s. upd_voice i reset_params (flag_apply Ctl i DReset s))"

definition pow2_length :: "nat \<Rightarrow> bool" where
  "pow2_length n \<longleftrightarrow> n \<noteq> 0 \<and> n AND (n - 1) = 0"

definition set_buffer :: "nat \<Rightarrow> aref \<Rightarrow> ('z engine_scheme, unit) py" where
  "set_buffer i a = (\<lambda>s.
     let n = length (mem s a)
     in if \<not> pow2_length n then (Inl ValueError, s)
        else if \<not> running s then
          (Inr (), upd_voice i (\<lambda>v. v\<lparr>dsp := DBuffer a n # dsp v, vbuf := Some a, vframes := n\<rparr>) s)
        else if n \<noteq> vframes (voices s ! i) then (Inl RuntimeError, s)
        else let (ok, s1) = queue_apply Ctl (i, DBuffer a n, False) s
             in if ok then (Inr (), upd_voice i (\<lambda>v. v\<lparr>vbuf := Some a\<rparr>) s1)
                else (Inl RuntimeError, s1))"

text \<open>\<open>setattr(voice, name, value)\<close> with a float or a bool: a bool property takes only a bool.\<close>

datatype pyarg = PF flt | PB bool

definition pyarg_float :: "pyarg \<Rightarrow> flt" where
  "pyarg_float x = (case x of PF f \<Rightarrow> f | PB b \<Rightarrow> if b then Fin 1 else Fin 0)"

definition set_attr :: "nat \<Rightarrow> string \<Rightarrow> pyarg \<Rightarrow> ('z engine_scheme, unit) py" where
  "set_attr i name x =
     (case map_of attr_table name of
        None \<Rightarrow> raise AttributeError
      | Some (FAttr a) \<Rightarrow> set_float i a (pyarg_float x)
      | Some (MAttr a) \<Rightarrow> set_mix i a (pyarg_float x)
      | Some (BAttr b) \<Rightarrow> (case x of PB v \<Rightarrow> set_bool i b v | PF _ \<Rightarrow> raise TypeError))"

section \<open>The sugar attached to the voice\<close>

definition voice_configure :: "nat \<Rightarrow> (string \<times> pyarg) list \<Rightarrow> ('z engine_scheme, unit) py" where
  "voice_configure i params = for_each params (\<lambda>(k, x). set_attr i k x)"

definition voice_loop_region :: "nat \<Rightarrow> 'z engine_scheme \<Rightarrow> flt \<times> flt" where
  "voice_loop_region i s = (fmir (voices s ! i) LoopStart, fmir (voices s ! i) LoopEnd)"

definition voice_set_loop_region :: "nat \<Rightarrow> flt \<times> flt \<Rightarrow> ('z engine_scheme, unit) py" where
  "voice_set_loop_region i region =
     (case region of (start, stop) \<Rightarrow>
        seqn (set_float i LoopStart start)
          (seqn (set_float i LoopEnd stop) (set_bool i Loop True)))"

text \<open>The \<open>with voice.record(at=...)\<close> block around a body, which may raise.\<close>

definition voice_record ::
    "nat \<Rightarrow> flt option \<Rightarrow> ('z engine_scheme, 'a) py \<Rightarrow> ('z engine_scheme, 'a) py" where
  "voice_record i at_pos body =
     seqn (case at_pos of None \<Rightarrow> ret () | Some x \<Rightarrow> cut_to i x)
       (seqn (set_bool i Play True)
          (seqn (set_bool i Rec True)
             (\<lambda>s. case body s of (r, s') \<Rightarrow>
                (case set_bool i Rec False s' of
                   (Inl e, s'') \<Rightarrow> (Inl e, s'') | (Inr _, s'') \<Rightarrow> (r, s'')))))"

text \<open>\<open>record_for\<close> is the same block with a sleep as its body (the audio thread's work during
  the sleep is the argument).\<close>

definition voice_record_for ::
    "nat \<Rightarrow> ('z engine_scheme, unit) py \<Rightarrow> flt option \<Rightarrow> ('z engine_scheme, unit) py" where
  "voice_record_for i sleep at_pos = voice_record i at_pos sleep"

record head_state =
  h_position :: flt
  h_fade :: flt
  h_gain :: flt
  h_active :: bool

text \<open>\<open>math.sin\<close> and \<open>math.pi / 2\<close> are the argument \<open>gain\<close>.\<close>

definition voice_heads :: "dsp_lib \<Rightarrow> (flt \<Rightarrow> flt) \<Rightarrow> voice \<Rightarrow> head_state \<times> head_state" where
  "voice_heads lib gain v =
     (case lib_heads lib (dsp v) of (p0, f0, p1, f1, active) \<Rightarrow>
        (\<lparr>h_position = p0, h_fade = f0, h_gain = gain f0, h_active = (active = 0)\<rparr>,
         \<lparr>h_position = p1, h_fade = f1, h_gain = gain f1, h_active = (active = 1)\<rparr>))"

section \<open>What the queues amount to\<close>

text \<open>
  The specification of the control side: the voices as they will be once both queues are
  drained (\<open>settled\<close>). A setter, queued or not, is on the settled voices the direct call: this
  is the refinement the control-thread lemmas below establish, operation by operation.
\<close>

definition vrun :: "cmd \<Rightarrow> voice list \<Rightarrow> voice list" where
  "vrun c vs = (case c of (i, e, fl) \<Rightarrow> vs[i := apply_ev e fl (vs ! i)])"

definition settled :: "'z engine_scheme \<Rightarrow> voice list" where
  "settled s = fold vrun (queued (cmdq s) @ queued (oscq s)) (voices s)"

definition vupd :: "nat \<Rightarrow> (voice \<Rightarrow> voice) \<Rightarrow> voice list \<Rightarrow> voice list" where
  "vupd i f vs = vs[i := f (vs ! i)]"

lemma length_vrun [simp]: "length (vrun c vs) = length vs"
  by (simp add: vrun_def split: prod.split)

lemma length_fold_vrun [simp]: "length (fold vrun cs vs) = length vs"
  by (induction cs arbitrary: vs) simp_all

lemma length_settled [simp]: "length (settled s) = length (voices s)"
  by (simp add: settled_def)

lemma length_vupd [simp]: "length (vupd i f vs) = length vs"
  by (simp add: vupd_def)

lemma nth_vupd: "j < length vs \<Longrightarrow> vupd i f vs ! j = (if i = j then f (vs ! j) else vs ! j)"
  by (simp add: vupd_def nth_list_update)

lemma vrun_vupd: "vrun (i, e, fl) = vupd i (apply_ev e fl)"
  by (rule ext) (simp add: vrun_def vupd_def)

lemma upd_voice_simps [simp]:
  "voices (upd_voice i f s) = vupd i f (voices s)"
  "cmdq (upd_voice i f s) = cmdq s" "oscq (upd_voice i f s) = oscq s"
  "running (upd_voice i f s) = running s" "mem (upd_voice i f s) = mem s"
  "brk (upd_voice i f s) = brk s" "files (upd_voice i f s) = files s"
  "esr (upd_voice i f s) = esr s" "outch (upd_voice i f s) = outch s"
  "block (upd_voice i f s) = block s" "fbk (upd_voice i f s) = fbk s"
  "prev_out (upd_voice i f s) = prev_out s" "cur_out (upd_voice i f s) = cur_out s"
  "device_ok (upd_voice i f s) = device_ok s" "emode (upd_voice i f s) = emode s"
  "engine.more (upd_voice i f s) = engine.more s"
  by (simp_all add: upd_voice_def vupd_def)

lemma run_cmd_simps [simp]:
  "voices (run_cmd c s) = vrun c (voices s)"
  "cmdq (run_cmd c s) = cmdq s" "oscq (run_cmd c s) = oscq s"
  "running (run_cmd c s) = running s" "mem (run_cmd c s) = mem s"
  "brk (run_cmd c s) = brk s" "files (run_cmd c s) = files s"
  "esr (run_cmd c s) = esr s" "outch (run_cmd c s) = outch s"
  "block (run_cmd c s) = block s" "fbk (run_cmd c s) = fbk s"
  "prev_out (run_cmd c s) = prev_out s" "cur_out (run_cmd c s) = cur_out s"
  "device_ok (run_cmd c s) = device_ok s" "emode (run_cmd c s) = emode s"
  "engine.more (run_cmd c s) = engine.more s"
  by (simp_all add: run_cmd_def vrun_def vupd_def split: prod.split)

lemma fold_run_cmd_simps [simp]:
  "voices (fold run_cmd cs s) = fold vrun cs (voices s)"
  "cmdq (fold run_cmd cs s) = cmdq s" "oscq (fold run_cmd cs s) = oscq s"
  "running (fold run_cmd cs s) = running s" "mem (fold run_cmd cs s) = mem s"
  "brk (fold run_cmd cs s) = brk s" "files (fold run_cmd cs s) = files s"
  "esr (fold run_cmd cs s) = esr s" "outch (fold run_cmd cs s) = outch s"
  "block (fold run_cmd cs s) = block s" "fbk (fold run_cmd cs s) = fbk s"
  "prev_out (fold run_cmd cs s) = prev_out s" "cur_out (fold run_cmd cs s) = cur_out s"
  "device_ok (fold run_cmd cs s) = device_ok s" "emode (fold run_cmd cs s) = emode s"
  "engine.more (fold run_cmd cs s) = engine.more s"
  by (induction cs arbitrary: s) simp_all

definition queues_wf :: "'z engine_scheme \<Rightarrow> bool" where
  "queues_wf s \<longleftrightarrow> ring_wf (cmdq s) \<and> ring_wf (oscq s)
     \<and> (\<not> running s \<longrightarrow> queued (cmdq s) = [] \<and> queued (oscq s) = [])"

text \<open>Draining empties both queues, and the voices become the settled ones.\<close>

lemma pop_all_queued:
  assumes "ring_wf q"
  obtains q' where "pop_all CAP q = (queued q, q')" "queued q' = []" "ring_wf q'"
  using pop_all_ring [OF assms, of CAP] used_less [OF assms]
  by (metis less_imp_le prod.collapse)

lemma drain_settles:
  assumes "ring_wf (cmdq s)" "ring_wf (oscq s)"
  shows "voices (drain s) = settled s \<and> queued (cmdq (drain s)) = [] \<and> queued (oscq (drain s)) = []
    \<and> ring_wf (cmdq (drain s)) \<and> ring_wf (oscq (drain s))
    \<and> running (drain s) = running s \<and> mem (drain s) = mem s \<and> brk (drain s) = brk s
    \<and> files (drain s) = files s \<and> engine.more (drain s) = engine.more s"
proof -
  obtain q1 where q1: "pop_all CAP (cmdq s) = (queued (cmdq s), q1)" "queued q1 = []" "ring_wf q1"
    using assms(1) by (rule pop_all_queued)
  obtain q2 where q2: "pop_all CAP (oscq s) = (queued (oscq s), q2)" "queued q2 = []" "ring_wf q2"
    using assms(2) by (rule pop_all_queued)
  show ?thesis
    using q1 q2 by (simp add: drain_def drain_ctl_def drain_osc_def settled_def)
qed

lemma fold_vrun_vupd_comm:
  assumes "\<And>e fl v. f (apply_ev e fl v) = apply_ev e fl (f v)"
  shows "fold vrun cs (vupd i f vs) = vupd i f (fold vrun cs vs)"
proof (induction cs arbitrary: vs)
  case (Cons c cs)
  have "vrun c (vupd i f vs) = vupd i f (vrun c vs)"
  proof (rule nth_equalityI)
    fix j
    assume "j < length (vrun c (vupd i f vs))"
    then show "vrun c (vupd i f vs) ! j = vupd i f (vrun c vs) ! j"
      using assms by (cases c rule: prod_cases3) (auto simp: vrun_vupd nth_vupd)
  qed simp
  then show ?case
    using Cons.IH by simp
qed simp

lemma settled_upd_voice:
  assumes "\<And>e fl v. f (apply_ev e fl v) = apply_ev e fl (f v)"
  shows "settled (upd_voice i f s) = vupd i f (settled s)"
  using fold_vrun_vupd_comm [of f, OF assms] by (simp add: settled_def)

text \<open>A call through \<open>dsp_apply\<close> that is not dropped is a direct call on the settled voices.\<close>

definition has_room :: "'z engine_scheme \<Rightarrow> bool" where
  "has_room s \<longleftrightarrow> (running s \<longrightarrow> used (cmdq s) < CAP - 1)"

lemma dsp_apply_settled:
  assumes wf: "queues_wf s" and room: "has_room s" and osc: "queued (oscq s) = []"
  shows "fst (dsp_apply Ctl i e fl s) \<and> settled (snd (dsp_apply Ctl i e fl s)) = vupd i (apply_ev e fl) (settled s)
    \<and> queues_wf (snd (dsp_apply Ctl i e fl s))
    \<and> queued (oscq (snd (dsp_apply Ctl i e fl s))) = []
    \<and> running (snd (dsp_apply Ctl i e fl s)) = running s
    \<and> length (queued (cmdq (snd (dsp_apply Ctl i e fl s))))
        = length (queued (cmdq s)) + (if running s then 1 else 0)"
proof (cases "running s")
  case True
  with wf room have "ring_wf (cmdq s)" "length (queued (cmdq s)) < CAP - 1"
    by (simp_all add: queues_wf_def has_room_def)
  then obtain r where r: "push (i, e, fl) (cmdq s) = Some r" "ring_wf r"
      "queued r = queued (cmdq s) @ [(i, e, fl)]"
    using ring.put_ok [of "cmdq s" "(i, e, fl)"] by auto
  have "length (queued r) = Suc (length (queued (cmdq s)))"
    by (simp only: r(3)) simp
  then show ?thesis
    using True wf osc r
    by (simp add: dsp_apply_def queue_apply_def settled_def queues_wf_def vrun_vupd)
next
  case False
  with wf have "queued (cmdq s) = []" "queued (oscq s) = []"
    by (simp_all add: queues_wf_def)
  with False wf show ?thesis
    by (simp add: dsp_apply_def run_cmd_def settled_def queues_wf_def)
qed

section \<open>The control operations refine direct calls\<close>

datatype ctl =
    CFloat nat fattr flt | CMix nat mattr flt | CBool nat battr bool | CShape nat sattr string
  | CRate nat flt | CCut nat flt | CStop nat | CReset nat

fun ctl_exec :: "ctl \<Rightarrow> 'z engine_scheme \<Rightarrow> 'z engine_scheme" where
  "ctl_exec (CFloat i a x) s = snd (set_float i a x s)"
| "ctl_exec (CMix i a x) s = snd (set_mix i a x s)"
| "ctl_exec (CBool i b x) s = snd (set_bool i b x s)"
| "ctl_exec (CShape i a n) s = snd (set_shape i a n s)"
| "ctl_exec (CRate i x) s = snd (set_voice_rate i x s)"
| "ctl_exec (CCut i x) s = snd (cut_to i x s)"
| "ctl_exec (CStop i) s = snd (voice_stop i s)"
| "ctl_exec (CReset i) s = snd (voice_reset i s)"

text \<open>The specification: the same change made at once on a voice that no engine hosts.\<close>

fun ctl_voice :: "ctl \<Rightarrow> voice \<Rightarrow> voice" where
  "ctl_voice (CFloat i a x) v = apply_ev (DFloat a (to_f32 x)) False (store_float a (to_f32 x) v)"
| "ctl_voice (CMix i a x) v = store_mix a (to_f32 x) v"
| "ctl_voice (CBool i b x) v = apply_ev (DBool b x) False (store_bool b x v)"
| "ctl_voice (CShape i a n) v =
     (case fade_shape n of Inl _ \<Rightarrow> v | Inr k \<Rightarrow> apply_ev (DShape a k) False (store_shape a k v))"
| "ctl_voice (CRate i x) v = apply_ev (DSampleRate (to_f32 x)) False (v\<lparr>vsample_rate := to_f32 x\<rparr>)"
| "ctl_voice (CCut i x) v = apply_ev (DCut (to_f32 x)) False v"
| "ctl_voice (CStop i) v = apply_ev DStop False v"
| "ctl_voice (CReset i) v = reset_params (apply_ev DReset False v)"

fun ctl_target :: "ctl \<Rightarrow> nat" where
  "ctl_target (CFloat i a x) = i"
| "ctl_target (CMix i a x) = i"
| "ctl_target (CBool i b x) = i"
| "ctl_target (CShape i a n) = i"
| "ctl_target (CRate i x) = i"
| "ctl_target (CCut i x) = i"
| "ctl_target (CStop i) = i"
| "ctl_target (CReset i) = i"

text \<open>The states the refinement is about: no command of the OSC thread is waiting.\<close>

definition ctl_ready :: "'z engine_scheme \<Rightarrow> bool" where
  "ctl_ready s \<longleftrightarrow> queues_wf s \<and> queued (oscq s) = []"

definition backlog :: "'z engine_scheme \<Rightarrow> nat" where
  "backlog s = length (queued (cmdq s))"

lemma vupd_vupd: "vupd i g (vupd i f vs) = vupd i (\<lambda>v. g (f v)) vs"
  by (rule nth_equalityI) (auto simp: nth_vupd)

lemma vupd_id: "vupd i (\<lambda>v. v) vs = vs"
  by (simp add: vupd_def)

lemma ready_upd_voice [simp]:
  "ctl_ready (upd_voice i f s) = ctl_ready s" "has_room (upd_voice i f s) = has_room s"
  "backlog (upd_voice i f s) = backlog s"
  by (simp_all add: ctl_ready_def queues_wf_def has_room_def backlog_def)

text \<open>The shape every operation has: store something, then make one DSP call.\<close>

lemma store_then_apply:
  fixes s :: "'z engine_scheme" and f :: "voice \<Rightarrow> voice" and i :: nat and e :: dsp_ev and fl :: bool
  assumes "ctl_ready s" "has_room s" "\<And>e fl v. f (apply_ev e fl v) = apply_ev e fl (f v)"
  defines "t \<equiv> snd (dsp_apply Ctl i e fl (upd_voice i f s))"
  shows "settled t = vupd i (\<lambda>v. apply_ev e fl (f v)) (settled s)"
    and "ctl_ready t" "running t = running s" "backlog t = backlog s + (if running s then 1 else 0)"
    and "fst (dsp_apply Ctl i e fl (upd_voice i f s))"
proof -
  let ?s = "upd_voice i f s"
  have r: "queues_wf ?s" "has_room ?s" "queued (oscq ?s) = []"
    using assms(1,2) by (simp_all add: ctl_ready_def queues_wf_def has_room_def)
  note d = dsp_apply_settled [OF r, of i e fl]
  show "settled t = vupd i (\<lambda>v. apply_ev e fl (f v)) (settled s)"
    using d settled_upd_voice [of f i s, OF assms(3)] by (simp add: t_def vupd_vupd)
  show "ctl_ready t" "running t = running s" "backlog t = backlog s + (if running s then 1 else 0)"
    "fst (dsp_apply Ctl i e fl ?s)"
    using d by (simp_all add: t_def ctl_ready_def backlog_def del: length_queued)
qed

lemma apply_store_comm:
  "store_float a x (apply_ev e fl v) = apply_ev e fl (store_float a x v)"
  "store_mix m x (apply_ev e fl v) = apply_ev e fl (store_mix m x v)"
  "store_shape c k (apply_ev e fl v) = apply_ev e fl (store_shape c k v)"
  "store_bool b y (apply_ev e fl v) = apply_ev e fl (store_bool b y v)"
  by (cases b; simp add: apply_ev_def store_defs)+

lemma flag_apply_settled:
  assumes "ctl_ready s" "has_room s"
  shows "settled (flag_apply Ctl i e s) = vupd i (apply_ev e False) (settled s)"
    and "ctl_ready (flag_apply Ctl i e s)" "running (flag_apply Ctl i e s) = running s"
    "backlog (flag_apply Ctl i e s) = backlog s + (if running s then 1 else 0)"
proof -
  let ?f = "\<lambda>v. v\<lparr>flags_pending := flags_pending v + 1\<rparr>"
  have comm: "?f (apply_ev e fl v) = apply_ev e fl (?f v)" for e fl v
    by (simp add: apply_ev_def)
  note d = store_then_apply [OF assms, of ?f i e True, OF comm]
  have f: "flag_apply Ctl i e s = snd (dsp_apply Ctl i e True (upd_voice i ?f s))"
    using d(5) by (simp add: flag_apply_def Let_def case_prod_beta)
  have "apply_ev e True (?f v) = apply_ev e False v" for v
    by (simp add: apply_ev_def)
  then show "settled (flag_apply Ctl i e s) = vupd i (apply_ev e False) (settled s)"
    using d(1) by (simp add: f)
  show "ctl_ready (flag_apply Ctl i e s)" "running (flag_apply Ctl i e s) = running s"
    "backlog (flag_apply Ctl i e s) = backlog s + (if running s then 1 else 0)"
    using d(2-4) by (simp_all add: f)
qed

lemma ctl_voice_fun:
  "ctl_voice (CFloat i a x) = (\<lambda>v. apply_ev (DFloat a (to_f32 x)) False (store_float a (to_f32 x) v))"
  "ctl_voice (CMix i m x) = store_mix m (to_f32 x)"
  "ctl_voice (CBool i b y) = (\<lambda>v. apply_ev (DBool b y) False (store_bool b y v))"
  "fade_shape n = Inl e \<Longrightarrow> ctl_voice (CShape i c n) = (\<lambda>v. v)"
  "fade_shape n = Inr k \<Longrightarrow>
     ctl_voice (CShape i c n) = (\<lambda>v. apply_ev (DShape c k) False (store_shape c k v))"
  "ctl_voice (CRate i x) = (\<lambda>v. apply_ev (DSampleRate (to_f32 x)) False (v\<lparr>vsample_rate := to_f32 x\<rparr>))"
  "ctl_voice (CCut i x) = apply_ev (DCut (to_f32 x)) False"
  "ctl_voice (CStop i) = apply_ev DStop False"
  "ctl_voice (CReset i) = (\<lambda>v. reset_params (apply_ev DReset False v))"
  by (rule ext, simp)+

lemma ctl_exec_sim:
  assumes "ctl_ready s" "has_room s"
  shows "settled (ctl_exec op s) = vupd (ctl_target op) (ctl_voice op) (settled s)
    \<and> ctl_ready (ctl_exec op s) \<and> running (ctl_exec op s) = running s
    \<and> backlog (ctl_exec op s) \<le> backlog s + (if running s then 1 else 0)"
proof (cases op)
  case (CFloat i a x)
  show ?thesis
    using store_then_apply [OF assms, of "store_float a (to_f32 x)" i "DFloat a (to_f32 x)" False]
    by (simp add: CFloat ctl_voice_fun set_float_def post_float_def modify_apply apply_store_comm)
next
  case (CMix i a x)
  show ?thesis
    using assms(1) settled_upd_voice [of "store_mix a (to_f32 x)" i s]
    by (simp add: CMix ctl_voice_fun set_mix_def modify_apply apply_store_comm)
next
  case (CBool i b x)
  let ?s = "upd_voice i (store_bool b x) s"
  have st: "settled ?s = vupd i (store_bool b x) (settled s)"
    by (rule settled_upd_voice) (simp add: apply_store_comm)
  show ?thesis
  proof (cases "b = Rec \<or> b = RecOnce")
    case True
    have "ctl_ready ?s" "has_room ?s"
      using assms by simp_all
    note fa = flag_apply_settled [OF this, of i "DBool b x"]
    show ?thesis
      using True fa st
      by (simp add: CBool ctl_voice_fun set_bool_def post_bool_def modify_apply Let_def vupd_vupd)
  next
    case False
    show ?thesis
      using False store_then_apply [OF assms, of "store_bool b x" i "DBool b x" False]
      by (simp add: CBool ctl_voice_fun set_bool_def post_bool_def modify_apply apply_store_comm)
  qed
next
  case (CShape i a n)
  show ?thesis
  proof (cases "fade_shape n")
    case (Inl e)
    then show ?thesis
      using assms by (simp add: CShape ctl_voice_fun set_shape_def py_simps vupd_id)
  next
    case (Inr k)
    then show ?thesis
      using store_then_apply [OF assms, of "store_shape a k" i "DShape a k" False]
      by (simp add: CShape ctl_voice_fun set_shape_def py_simps apply_store_comm)
  qed
next
  case (CRate i x)
  show ?thesis
    using store_then_apply [OF assms, of "\<lambda>v. v\<lparr>vsample_rate := to_f32 x\<rparr>" i "DSampleRate (to_f32 x)" False]
    by (simp add: CRate ctl_voice_fun set_voice_rate_def modify_apply apply_ev_def)
next
  case (CCut i x)
  have "upd_voice i (\<lambda>v. v) s = s"
    by (simp add: upd_voice_def)
  then show ?thesis
    using store_then_apply [OF assms, of "\<lambda>v. v" i "DCut (to_f32 x)" False]
    by (simp add: CCut ctl_voice_fun cut_to_def modify_apply)
next
  case (CStop i)
  have "upd_voice i (\<lambda>v. v) s = s"
    by (simp add: upd_voice_def)
  then show ?thesis
    using store_then_apply [OF assms, of "\<lambda>v. v" i DStop False]
    by (simp add: CStop ctl_voice_fun voice_stop_def modify_apply)
next
  case (CReset i)
  note fa = flag_apply_settled [OF assms, of i DReset]
  have "settled (upd_voice i reset_params (flag_apply Ctl i DReset s))
      = vupd i reset_params (settled (flag_apply Ctl i DReset s))"
    by (rule settled_upd_voice) (simp add: reset_params_def apply_ev_def)
  with fa show ?thesis
    by (simp add: CReset ctl_voice_fun voice_reset_def modify_apply vupd_vupd)
qed

lemma ctl_ops_sim:
  assumes "ctl_ready s" "running s \<longrightarrow> backlog s + length ops \<le> CAP - 1"
  shows "settled (fold ctl_exec ops s)
           = fold (\<lambda>op. vupd (ctl_target op) (ctl_voice op)) ops (settled s)
    \<and> ctl_ready (fold ctl_exec ops s) \<and> running (fold ctl_exec ops s) = running s"
  using assms
proof (induction ops arbitrary: s)
  case Nil
  then show ?case by simp
next
  case (Cons op ops)
  have "has_room s"
    using Cons.prems(2) by (auto simp: has_room_def backlog_def)
  note one = ctl_exec_sim [OF Cons.prems(1) this, of op]
  then have "running (ctl_exec op s) \<longrightarrow> backlog (ctl_exec op s) + length ops \<le> CAP - 1"
    using Cons.prems(2) by auto
  with one show ?case
    using Cons.IH [of "ctl_exec op s"] by simp
qed

text \<open>C5. Refinement of the control side: while no command is dropped, executing any sequence of
  voice operations on a running engine leaves the voices, once the queue is drained, exactly
  as if every change had been made directly and in order on voices no engine hosts; the same
  holds while the engine is stopped, where nothing is queued.\<close>

theorem control_ops_refine_direct:
  assumes "ctl_ready s" "running s \<longrightarrow> backlog s + length ops \<le> CAP - 1"
  shows "settled (fold ctl_exec ops s)
           = fold (\<lambda>op. vupd (ctl_target op) (ctl_voice op)) ops (settled s)
    \<and> ctl_ready (fold ctl_exec ops s) \<and> running (fold ctl_exec ops s) = running s"
  using assms by (rule ctl_ops_sim)

text \<open>A stopped engine around given voices, for concrete runs.\<close>

definition bare_engine :: "voice list \<Rightarrow> engine" where
  "bare_engine vs =
     \<lparr>mem = (\<lambda>_. []), brk = 0, files = (\<lambda>_. None), voices = vs, esr = Fin 48000,
      emode = ''playback'', block = 512, outch = 2, running = False, device_ok = True,
      cmdq = empty_ring, oscq = empty_ring, fbk = (\<lambda>_ _. Fin 0),
      prev_out = map (\<lambda>_. replicate 512 (Fin 0)) vs, cur_out = map (\<lambda>_. replicate 512 (Fin 0)) vs\<rparr>"

lemma ready_bare_engine [simp]:
  "ctl_ready (bare_engine vs)" "ctl_ready (bare_engine vs\<lparr>running := True\<rparr>)"
  "settled (bare_engine vs) = vs" "settled (bare_engine vs\<lparr>running := True\<rparr>) = vs"
  "backlog (bare_engine vs\<lparr>running := True\<rparr>) = 0"
  by (simp_all add: ctl_ready_def queues_wf_def bare_engine_def settled_def backlog_def del: length_queued)

theorem control_ops_refine_direct_witness:
  "\<exists>v. new_voice (Fin 48000) ''fixed'' = Inr v
     \<and> settled (fold ctl_exec [CFloat 0 Rate (Fin 2), CReset 0] (bare_engine [v]\<lparr>running := True\<rparr>))
         = [ctl_voice (CReset 0) (ctl_voice (CFloat 0 Rate (Fin 2)) v)]"
proof -
  obtain v where v: "new_voice (Fin 48000) ''fixed'' = Inr v"
    by (simp add: new_voice_def Let_def)
  have "settled (fold ctl_exec [CFloat 0 Rate (Fin 2), CReset 0] (bare_engine [v]\<lparr>running := True\<rparr>))
      = fold (\<lambda>op. vupd (ctl_target op) (ctl_voice op)) [CFloat 0 Rate (Fin 2), CReset 0] [v]"
    using control_ops_refine_direct [of "bare_engine [v]\<lparr>running := True\<rparr>" "[CFloat 0 Rate (Fin 2), CReset 0]"]
    by (simp add: CAP_def)
  with v show ?thesis
    by (simp add: vupd_def)
qed

section \<open>Read-backs agree with the DSP\<close>

text \<open>
  What a getter answers is a mirror; \<open>coherent\<close> says that the mirrors of a voice are the values
  its DSP object holds. Two float parameters are left out: the record offset, whose default
  the DSP object keeps in samples (-8) and the mirror in seconds at 48 kHz, and the pre-filter
  frequency, which \<open>reset\<close> does not restore; so is the loop flag
  (\<open>reset_leaves_loop_and_filter\<close> below). \<open>Live_Getters\<close> says when these agree too.
\<close>

definition coherent :: "voice \<Rightarrow> bool" where
  "coherent v \<longleftrightarrow>
     (\<forall>a. a \<noteq> PreFilterFc \<longrightarrow> a \<noteq> RecOffset \<longrightarrow> fmir v a = fvalue (fixed_quirks v) (dsp v) a)
     \<and> (\<forall>a. smir v a = svalue (dsp v) a) \<and> bmir v Play = bvalue (dsp v) Play"

definition flags_coherent :: "dsp_lib \<Rightarrow> voice \<Rightarrow> bool" where
  "flags_coherent lib v \<longleftrightarrow> (bmir v Rec, bmir v RecOnce) = rec_flags lib (dsp v)"

lemma ctl_voice_coherent: "coherent v \<Longrightarrow> coherent (ctl_voice op v)"
proof (cases op)
  case (CBool i b x)
  then show "coherent v \<Longrightarrow> ?thesis"
    by (cases b) (simp_all add: coherent_def apply_ev_def store_bool_def)
next
  case (CShape i a n)
  then show "coherent v \<Longrightarrow> ?thesis"
    by (cases "fade_shape n") (simp_all add: coherent_def apply_ev_def store_shape_def)
qed (simp_all add: coherent_def apply_ev_def store_defs reset_params_def)

lemma ctl_voice_flags: "flags_coherent lib v \<Longrightarrow> flags_coherent lib (ctl_voice op v)"
proof (cases op)
  case (CBool i b x)
  then show "flags_coherent lib v \<Longrightarrow> ?thesis"
    by (cases b; cases "rec_flags lib (dsp v)") (auto simp: flags_coherent_def apply_ev_def store_bool_def)
next
  case (CShape i a n)
  then show "flags_coherent lib v \<Longrightarrow> ?thesis"
    by (cases "fade_shape n"; cases "rec_flags lib (dsp v)")
      (auto simp: flags_coherent_def apply_ev_def store_shape_def)
qed (auto simp: flags_coherent_def apply_ev_def store_defs reset_params_def split: prod.splits)

lemma ctl_voice_pending: "flags_pending (ctl_voice op v) = flags_pending v"
  by (cases op) (auto simp: apply_ev_def store_defs reset_params_def split: sum.split)

lemma vrun_mirrors:
  assumes "i < length vs"
  shows "fmir (fold vrun cs vs ! i) = fmir (vs ! i)" "smir (fold vrun cs vs ! i) = smir (vs ! i)"
    "bmir (fold vrun cs vs ! i) = bmir (vs ! i)"
    "fixed_quirks (fold vrun cs vs ! i) = fixed_quirks (vs ! i)"
proof -
  have "fmir (fold vrun cs vs ! i) = fmir (vs ! i) \<and> smir (fold vrun cs vs ! i) = smir (vs ! i)
    \<and> bmir (fold vrun cs vs ! i) = bmir (vs ! i)
    \<and> fixed_quirks (fold vrun cs vs ! i) = fixed_quirks (vs ! i)"
    using assms
  proof (induction cs arbitrary: vs)
    case (Cons c cs)
    obtain j e fl where "c = (j, e, fl)"
      by (cases c rule: prod_cases3)
    with Cons show ?case
      by (simp add: vrun_vupd nth_vupd apply_ev_def)
  qed simp
  then show "fmir (fold vrun cs vs ! i) = fmir (vs ! i)" "smir (fold vrun cs vs ! i) = smir (vs ! i)"
    "bmir (fold vrun cs vs ! i) = bmir (vs ! i)"
    "fixed_quirks (fold vrun cs vs ! i) = fixed_quirks (vs ! i)"
    by simp_all
qed

text \<open>An unflagged command leaves the record flags alone; the flagged ones are counted.\<close>

fun flag_event :: "dsp_ev \<Rightarrow> bool" where
  "flag_event (DBool Rec x) = True"
| "flag_event (DBool RecOnce x) = True"
| "flag_event DReset = True"
| "flag_event (DProcess b x) = True"
| "flag_event e = False"

definition cmd_ok :: "cmd \<Rightarrow> bool" where
  "cmd_ok c = (case c of (i, e, fl) \<Rightarrow> flag_event e \<longrightarrow> fl)"

lemma rec_flags_other: "\<not> flag_event e \<Longrightarrow> rec_flags lib (e # h) = rec_flags lib h"
proof (cases e)
  case (DBool b x)
  then show "\<not> flag_event e \<Longrightarrow> ?thesis"
    by (cases b) (simp_all add: case_prod_beta)
qed (simp_all add: case_prod_beta)

lemma vrun_pending:
  assumes "i < length vs" "\<forall>c \<in> set cs. cmd_ok c"
  shows "flags_pending (fold vrun cs vs ! i) \<le> flags_pending (vs ! i)
    \<and> (flags_pending (fold vrun cs vs ! i) = flags_pending (vs ! i) \<longrightarrow>
         rec_flags lib (dsp (fold vrun cs vs ! i)) = rec_flags lib (dsp (vs ! i)))"
  using assms
proof (induction cs arbitrary: vs)
  case (Cons c cs)
  obtain j e fl where c: "c = (j, e, fl)"
    by (cases c rule: prod_cases3)
  have ih: "flags_pending (fold vrun cs (vrun c vs) ! i) \<le> flags_pending (vrun c vs ! i)
    \<and> (flags_pending (fold vrun cs (vrun c vs) ! i) = flags_pending (vrun c vs ! i) \<longrightarrow>
         rec_flags lib (dsp (fold vrun cs (vrun c vs) ! i)) = rec_flags lib (dsp (vrun c vs ! i)))"
    using Cons by simp
  have "flag_event e \<longrightarrow> fl"
    using Cons.prems c by (simp add: cmd_ok_def)
  then have "flags_pending (vrun c vs ! i) \<le> flags_pending (vs ! i)
    \<and> (flags_pending (vrun c vs ! i) = flags_pending (vs ! i) \<longrightarrow>
         rec_flags lib (dsp (vrun c vs ! i)) = rec_flags lib (dsp (vs ! i)))"
    using Cons.prems(1) c
    by (auto simp: vrun_vupd nth_vupd apply_ev_def rec_flags_other simp del: rec_flags.simps)
  with ih show ?case by auto
qed simp

definition cmds_ok :: "'z engine_scheme \<Rightarrow> bool" where
  "cmds_ok s \<longleftrightarrow> (\<forall>c \<in> set (queued (cmdq s)). cmd_ok c)"

lemma dsp_apply_cmds_ok:
  assumes "queues_wf s" "cmds_ok s" "flag_event e \<longrightarrow> fl"
  shows "cmds_ok (snd (dsp_apply Ctl i e fl s))"
proof (cases "running s")
  case True
  have wf: "ring_wf (cmdq s)"
    using assms(1) by (simp add: queues_wf_def)
  show ?thesis
    using True assms(2,3)
    by (cases rule: ring.put_cases [OF wf, of "(i, e, fl)"])
      (simp_all add: dsp_apply_def queue_apply_def cmds_ok_def cmd_ok_def)
next
  case False
  then show ?thesis
    using assms by (simp add: dsp_apply_def cmds_ok_def)
qed

lemma cmds_ok_upd_voice [simp]: "cmds_ok (upd_voice i f s) = cmds_ok s"
  by (simp add: cmds_ok_def)

lemma queues_wf_upd_voice [simp]: "queues_wf (upd_voice i f s) = queues_wf s"
  by (simp add: queues_wf_def)

lemma flag_apply_cmds_ok:
  "queues_wf s \<Longrightarrow> cmds_ok s \<Longrightarrow> cmds_ok (flag_apply Ctl i e s)"
  using dsp_apply_cmds_ok [of "upd_voice i (\<lambda>v. v\<lparr>flags_pending := flags_pending v + 1\<rparr>) s" e True i]
  by (simp add: flag_apply_def Let_def case_prod_beta)

lemma ctl_exec_cmds_ok:
  assumes "queues_wf s" "cmds_ok s"
  shows "cmds_ok (ctl_exec op s)"
proof (cases op)
  case (CBool i b x)
  then show ?thesis
    using assms
    by (cases b) (simp_all add: set_bool_def post_bool_def modify_apply flag_apply_cmds_ok dsp_apply_cmds_ok)
next
  case (CShape i a n)
  then show ?thesis
    using assms
    by (cases "fade_shape n") (simp_all add: set_shape_def py_simps dsp_apply_cmds_ok)
qed (use assms in \<open>simp_all add: set_float_def post_float_def set_mix_def set_voice_rate_def cut_to_def
      voice_stop_def voice_reset_def modify_apply dsp_apply_cmds_ok flag_apply_cmds_ok\<close>)

lemma set_vupd: "w \<in> set (vupd i f vs) \<Longrightarrow> w \<in> set vs \<or> (\<exists>v \<in> set vs. w = f v)"
proof -
  assume "w \<in> set (vupd i f vs)"
  then obtain j where "j < length vs" "vupd i f vs ! j = w"
    by (auto simp: in_set_conv_nth)
  then show "w \<in> set vs \<or> (\<exists>v \<in> set vs. w = f v)"
    by (auto simp: nth_vupd split: if_splits)
qed

lemma new_voice_coherent:
  assumes "new_voice sr quirks = Inr v"
  shows "flags_pending v = 0 \<and> coherent v \<and> flags_coherent lib v"
  using assms
  by (auto simp: new_voice_def Let_def coherent_def flags_coherent_def split: if_splits)

text \<open>Two read-backs that \<open>reset\<close> makes wrong: it restores every mirror, but the DSP object keeps
  its loop flag and its pre-filter frequency. After turning the loop on, setting the frequency
  and resetting, \<open>voice.loop\<close> reads \<open>False\<close> and \<open>voice.pre_filter_fc\<close> 16000 while the DSP object
  still loops and still filters at the frequency set.\<close>

theorem reset_leaves_loop_and_filter:
  fixes s :: "'z engine_scheme" and i :: nat and x :: flt
  assumes "ctl_ready s" "running s \<longrightarrow> backlog s + 3 \<le> CAP - 1" "i < length (voices s)"
  defines "t \<equiv> fold ctl_exec [CBool i Loop True, CFloat i PreFilterFc x, CReset i] s"
  shows "get_bool lib (voices t ! i) Loop = False \<and> bvalue (dsp (settled t ! i)) Loop = True
    \<and> fmir (voices t ! i) PreFilterFc = Fin 16000
    \<and> fvalue (fixed_quirks (voices t ! i)) (dsp (settled t ! i)) PreFilterFc = to_f32 x"
proof -
  let ?ops = "[CBool i Loop True, CFloat i PreFilterFc x, CReset i]"
  have "running s \<longrightarrow> backlog s + length ?ops \<le> CAP - 1"
    using assms(2) by (simp add: numeral_3_eq_3)
  then have sim: "settled t = fold (\<lambda>op. vupd (ctl_target op) (ctl_voice op)) ?ops (settled s) \<and> ctl_ready t"
    using ctl_ops_sim [OF assms(1), of ?ops] unfolding t_def by blast
  then have st: "settled t = fold vrun (queued (cmdq t)) (voices t)"
    by (simp add: ctl_ready_def settled_def)
  have len: "length (voices t) = length (voices s)"
    using arg_cong [OF conjunct1 [OF sim], of length] by simp
  have w: "settled t ! i = ctl_voice (CReset i) (ctl_voice (CFloat i PreFilterFc x)
      (ctl_voice (CBool i Loop True) (settled s ! i)))"
    using sim assms(3) by (simp add: nth_vupd)
  note m = vrun_mirrors [of i "voices t" "queued (cmdq t)", folded st]
  have "bmir (voices t ! i) = bmir (settled t ! i)" "fmir (voices t ! i) = fmir (settled t ! i)"
    using m assms(3) len by simp_all
  then show ?thesis
    unfolding w by (simp add: get_bool_def reset_params_def apply_ev_def store_bool_def store_float_def)
qed


text \<open>C39. With the native receiver running, the two queues can leave a read-back wrong: when the
  OSC thread posts a value and the Python thread then posts another one within the same block,
  the getter answers Python's (the later), but the audio thread drains the Python queue first,
  so the DSP object ends up with the value of the OSC message.\<close>

theorem two_queues_reorder:
  fixes s :: "'z engine_scheme" and i :: nat and a :: fattr and x y :: flt
  assumes "queues_wf s" "running s" "queued (cmdq s) = []" "queued (oscq s) = []" "i < length (voices s)"
  defines "t \<equiv> post_float Ctl i a y (post_float Osc i a x s)"
  shows "fmir (voices t ! i) a = y \<and> fvalue fx (dsp (voices (drain t) ! i)) a = x"
proof -
  have wf: "ring_wf (cmdq s)" "ring_wf (oscq s)"
    using assms(1) by (simp_all add: queues_wf_def)
  obtain r where r: "push (i, DFloat a y, False) (cmdq s) = Some r" "ring_wf r"
      "queued r = [(i, DFloat a y, False)]"
    using ring.put_ok [OF wf(1), of "(i, DFloat a y, False)"] assms(3) by (auto simp: CAP_def simp del: length_queued)
  obtain q where q: "push (i, DFloat a x, False) (oscq s) = Some q" "ring_wf q"
      "queued q = [(i, DFloat a x, False)]"
    using ring.put_ok [OF wf(2), of "(i, DFloat a x, False)"] assms(4) by (auto simp: CAP_def simp del: length_queued)
  have t: "t = upd_voice i (store_float a y) (upd_voice i (store_float a x) s)\<lparr>oscq := q, cmdq := r\<rparr>"
    using assms(2) q(1) r(1)
    by (simp add: t_def post_float_def dsp_apply_def queue_apply_def upd_voice_def)
  have "voices (drain t) = settled t"
    using drain_settles [of t] q(2) r(2) by (simp add: t)
  then have "dsp (voices (drain t) ! i) = DFloat a x # DFloat a y # dsp (voices s ! i)"
    using assms(5) q(3) r(3) by (simp add: t settled_def vrun_vupd nth_vupd apply_ev_def store_float_def)
  then show ?thesis
    using assms(5) by (simp add: t nth_vupd store_float_def)
qed

theorem two_queues_reorder_witness:
  "\<exists>v. new_voice (Fin 48000) ''upstream'' = Inr v \<and>
     (let t = post_float Ctl 0 Rate (Fin 3) (post_float Osc 0 Rate (Fin 2) (bare_engine [v]\<lparr>running := True\<rparr>))
      in fmir (voices t ! 0) Rate = Fin 3 \<and> fvalue False (dsp (voices (drain t) ! 0)) Rate = Fin 2)"
proof -
  obtain v where v: "new_voice (Fin 48000) ''upstream'' = Inr v"
    by (simp add: new_voice_def Let_def)
  let ?s = "bare_engine [v]\<lparr>running := True\<rparr>"
  have "queues_wf ?s" "queued (cmdq ?s) = []" "queued (oscq ?s) = []" "voices ?s = [v]" "running ?s"
    by (simp_all add: bare_engine_def queues_wf_def)
  with v show ?thesis
    using two_queues_reorder [of ?s 0 Rate "Fin 3" "Fin 2" False] by (simp add: Let_def)
qed

end
