(* ===== verification/Engine_Audio.thy ===== *)
theory Engine_Audio
  imports Engine
begin

text \<open>
  The audio side of the engine: \<open>process_block\<close> of \<open>src/shared/mixer.hpp\<close> with the per-voice
  input gain, the voice-to-voice feedback delayed by one block and the equal-power pan, the
  block loop shared by the device callback and the offline \<open>render\<close>, and start and stop.

  Input and output live in the store, so a render whose input or output array is also a
  voice's buffer is covered. A block length that is not the block size leaves the tail of the
  per-voice output of two blocks ago in place, as the two swapped C++ arrays do.

  The DSP object's processing, \<open>cos\<close> and \<open>sin\<close> are parameters (\<open>dsp_lib\<close>).
\<close>

section \<open>One block\<close>

text \<open>\<open>voice_in\<close>: the scaled external input plus what the other voices fed back.\<close>

definition add_feedback :: "'z engine_scheme \<Rightarrow> nat \<Rightarrow> nat \<Rightarrow> samples \<Rightarrow> samples" where
  "add_feedback s dst src vin =
     (let g = fbk s src dst; po = prev_out s ! src
      in if feq g (Fin 0) then vin
         else map (\<lambda>i. fadd F32 (vin ! i) (fmul F32 (po ! i) g)) [0..<length vin])"

definition voice_input :: "'z engine_scheme \<Rightarrow> samples \<Rightarrow> nat \<Rightarrow> samples" where
  "voice_input s ext dst =
     fold (add_feedback s dst) [0..<length (voices s)]
       (map (\<lambda>x. fmul F32 x (mixp (voices s ! dst) InputGain)) ext)"

definition pan_angle :: "flt \<Rightarrow> flt" where
  "pan_angle p =
     fmul F32 (fadd F32 (fmul F32 p (Fin (1 / 2))) (Fin (1 / 2)))
       (f32_lit (15707963267948966 / 10000000000000000))"

text \<open>\<open>out[f * out_channels + 0] += o[f] * gl\<close>, and the second channel if there is one.\<close>

definition mix_frame :: "nat \<Rightarrow> nat \<Rightarrow> samples \<Rightarrow> flt \<Rightarrow> flt \<Rightarrow> nat \<Rightarrow> samples \<Rightarrow> samples" where
  "mix_frame off ch ys gl gr f out =
     (let k = off + f * ch;
          out1 = out[k := fadd F32 (out ! k) (fmul F32 (ys ! f) gl)]
      in if 1 < ch then out1[k + 1 := fadd F32 (out1 ! (k + 1)) (fmul F32 (ys ! f) gr)] else out1)"

definition mix_frames :: "nat \<Rightarrow> nat \<Rightarrow> samples \<Rightarrow> flt \<Rightarrow> flt \<Rightarrow> samples \<Rightarrow> samples" where
  "mix_frames off ch ys gl gr out = fold (mix_frame off ch ys gl gr) [0..<length ys] out"

definition buffer_content :: "'z engine_scheme \<Rightarrow> nat \<Rightarrow> samples" where
  "buffer_content s i =
     (case dsp_buffer (dsp (voices s ! i)) of None \<Rightarrow> [] | Some (a, n) \<Rightarrow> mem s a)"

text \<open>\<open>processBlockMono\<close> on voice \<open>i\<close>: it may write into the buffer the DSP object points at.\<close>

definition run_voice :: "dsp_lib \<Rightarrow> nat \<Rightarrow> samples \<Rightarrow> 'z engine_scheme \<Rightarrow> samples \<times> 'z engine_scheme" where
  "run_voice lib i vin s =
     (let h = dsp (voices s ! i); b = buffer_content s i; (ys, b') = lib_process lib h b vin;
          s1 = (case dsp_buffer h of None \<Rightarrow> s | Some (a, n) \<Rightarrow> put_array a b' s)
      in (ys, upd_voice i (\<lambda>v. v\<lparr>dsp := DProcess b vin # dsp v\<rparr>) s1))"

text \<open>The body of the \<open>dst\<close> loop. \<open>inp\<close> names the input array and its offset.\<close>

definition mix_voice ::
    "dsp_lib \<Rightarrow> (aref \<times> nat) \<Rightarrow> (aref \<times> nat) \<Rightarrow> nat \<Rightarrow> nat \<Rightarrow> 'z engine_scheme \<Rightarrow> 'z engine_scheme" where
  "mix_voice lib inp out nframes dst s =
     (let ext = take nframes (drop (snd inp) (mem s (fst inp)));
          (ys, s1) = run_voice lib dst (voice_input s ext dst) s;
          s2 = s1\<lparr>cur_out := (cur_out s1)[dst := ys @ drop nframes (cur_out s1 ! dst)]\<rparr>;
          v = voices s2 ! dst; theta = pan_angle (mixp v Pan);
          gl = fmul F32 (mixp v Level) (lib_cos lib theta);
          gr = fmul F32 (mixp v Level) (lib_sin lib theta)
      in put_array (fst out) (mix_frames (snd out) (outch s) ys gl gr (mem s2 (fst out))) s2)"

definition process_core ::
    "dsp_lib \<Rightarrow> (aref \<times> nat) \<Rightarrow> (aref \<times> nat) \<Rightarrow> nat \<Rightarrow> 'z engine_scheme \<Rightarrow> 'z engine_scheme" where
  "process_core lib inp out nframes s =
     (let s1 = put_array (fst out)
                 (for_upd (\<lambda>_ _. Fin 0) (snd out) (nframes * outch s) (mem s (fst out))) s;
          s2 = fold (mix_voice lib inp out nframes) [0..<length (voices s)] s1
      in s2\<lparr>prev_out := cur_out s2, cur_out := prev_out s2\<rparr>)"

section \<open>The block loop\<close>

text \<open>
  \<open>while (done < n)\<close> with chunks of the block size. The constructor refuses a block size
  below 1 (\<open>new_engine\<close>), which is what makes the loop end; \<open>bs\<close> is that constant.
\<close>

function block_loop ::
    "dsp_lib \<Rightarrow> nat \<Rightarrow> aref \<Rightarrow> aref \<Rightarrow> nat \<Rightarrow> nat \<Rightarrow> 'z engine_scheme \<Rightarrow> 'z engine_scheme" where
  "block_loop lib bs inp out d n s =
     (if d < n \<and> 1 \<le> bs then
        let chunk = min bs (n - d)
        in block_loop lib bs inp out (d + chunk) n
             (process_core lib (inp, d) (out, d * outch s) chunk s)
      else s)"
  by pat_completeness auto
termination
  by (relation "measure (\<lambda>(lib, bs, inp, out, d, n, s). n - d)") auto

declare block_loop.simps [simp del]

text \<open>\<open>_Engine.render(input, dest)\<close>\<close>

definition core_render :: "dsp_lib \<Rightarrow> aref \<Rightarrow> aref \<Rightarrow> ('z engine_scheme, aref) py" where
  "core_render lib inp dest = (\<lambda>s.
     let n = length (mem s inp)
     in if length (mem s dest) < n * outch s then (Inl ValueError, s)
        else (Inr dest, block_loop lib (block s) inp dest 0 n s))"

text \<open>
  \<open>callback_process\<close>: drain the queues, then the same loop on the device's arrays. \<open>ext\<close> is
  what the device captured; in playback mode the input is silence.
\<close>

definition callback :: "dsp_lib \<Rightarrow> samples \<Rightarrow> 'z engine_scheme \<Rightarrow> 'z engine_scheme" where
  "callback lib ext s =
     (let n = length ext;
          captured = (if emode s = ''duplex'' then ext else replicate n (Fin 0));
          s1 = drain s; (ri, s2) = new_array captured s1;
          inp = brk s1; out = Suc inp; s3 = snd (new_array (replicate (n * outch s) (Fin 0)) s2)
      in block_loop lib (block s) inp out 0 n s3)"

section \<open>Start and stop\<close>

definition core_start :: "('z engine_scheme, unit) py" where
  "core_start = (\<lambda>s.
     if running s then (Inr (), s)
     else if \<not> device_ok s then (Inl RuntimeError, s)
     else (Inr (), s\<lparr>running := True\<rparr>))"

definition core_stop :: "('z engine_scheme, unit) py" where
  "core_stop = (\<lambda>s. if running s then (Inr (), drain (s\<lparr>running := False\<rparr>)) else (Inr (), s))"

section \<open>The feedback matrix\<close>

definition int32 :: "int \<Rightarrow> bool" where
  "int32 i \<longleftrightarrow> - (2 ^ 31) \<le> i \<and> i < 2 ^ 31"

definition check_pair :: "int \<Rightarrow> int \<Rightarrow> 'z engine_scheme \<Rightarrow> pyexc + nat \<times> nat" where
  "check_pair src dst s =
     (if \<not> (int32 src \<and> int32 dst) then Inl TypeError
      else if src < 0 \<or> int (length (voices s)) \<le> src \<or> dst < 0 \<or> int (length (voices s)) \<le> dst
      then Inl IndexError else Inr (nat src, nat dst))"

definition set_feedback :: "int \<Rightarrow> int \<Rightarrow> flt \<Rightarrow> ('z engine_scheme, unit) py" where
  "set_feedback src dst amount = (\<lambda>s.
     case check_pair src dst s of
       Inl e \<Rightarrow> (Inl e, s)
     | Inr (i, j) \<Rightarrow>
         (Inr (), s\<lparr>fbk := (fbk s)(i := (fbk s i)(j := to_f32 amount))\<rparr>))"

definition get_feedback :: "int \<Rightarrow> int \<Rightarrow> ('z engine_scheme, flt) py" where
  "get_feedback src dst = (\<lambda>s.
     case check_pair src dst s of Inl e \<Rightarrow> (Inl e, s) | Inr (i, j) \<Rightarrow> (Inr (fbk s i j), s))"

end
