(* ===== verification/Engine_Host.thy ===== *)
theory Engine_Host
  imports Engine_Audio
begin

text \<open>
  The Python facade of \<open>src/softcut/__init__.py\<close>: \<open>next_power_of_two\<close>, the constructor of
  \<open>Engine\<close> and of the deprecated \<open>Softcut\<close>, indexing, \<open>allocate\<close>, \<open>sync\<close>, \<open>feedback\<close>,
  \<open>render\<close>, \<open>render_to\<close>, \<open>start\<close>, \<open>stop\<close> and the context manager.

  A buffer argument is a reference to a float32 array of the store; \<open>memoryview\<close> of such an
  array is 1-D and of format \<open>f\<close>, so the check of \<open>_samples\<close> passes and gives its length.
\<close>

section \<open>Sizes\<close>

definition next_power_of_two :: "int \<Rightarrow> int" where
  "next_power_of_two n = (if n \<le> 1 then 1 else push_bit (nat (bitlen (n - 1))) 1)"

text \<open>\<open>_zeros(n)\<close> into a new array.\<close>

definition new_zeros :: "int \<Rightarrow> ('z store_scheme, aref) py" where
  "new_zeros n = bnd (lift (zeros n)) new_array"

text \<open>\<open>int(round(float(seconds) * sample_rate))\<close>\<close>

definition seconds_to_frames :: "flt \<Rightarrow> flt \<Rightarrow> pyexc + int" where
  "seconds_to_frames seconds sr = round_int (fmul F64 seconds sr)"

section \<open>Construction\<close>

definition int_args_ok :: "int list \<Rightarrow> bool" where
  "int_args_ok xs = list_all int32 xs"

text \<open>
  \<open>Engine(voices, sample_rate, mode, block_size, out_channels, output_device, input_device,
  quirks=...)\<close> over a store; \<open>dev\<close> says whether its device will start. The core sets each
  voice's sample rate again and refuses a block size or a channel count below 1.
\<close>

definition new_engine ::
    "store \<Rightarrow> bool \<Rightarrow> int \<Rightarrow> flt \<Rightarrow> string \<Rightarrow> int \<Rightarrow> int \<Rightarrow> int \<Rightarrow> int \<Rightarrow> string \<Rightarrow> pyexc + engine" where
  "new_engine st dev nvoices sr mode bs ch outdev indev quirks =
     (if nvoices < 1 then Inl ValueError
      else if mode \<noteq> ''duplex'' \<and> mode \<noteq> ''playback'' then Inl ValueError
      else ebind (new_voice sr quirks)
        (\<lambda>v. if \<not> int_args_ok [bs, ch, outdev, indev] then Inl TypeError
             else if bs < 1 \<or> ch < 1 then Inl ValueError
             else let n = nat nvoices;
                      w = apply_ev (DSampleRate (to_f32 sr)) False v;
                      block_zeros = replicate (nat bs) (Fin 0)
             in Inr \<lparr>mem = mem st, brk = brk st, files = files st, voices = replicate n w, esr = sr,
                     emode = mode, block = nat bs, outch = nat ch, running = False, device_ok = dev,
                     cmdq = empty_ring, oscq = empty_ring, fbk = (\<lambda>_ _. Fin 0),
                     prev_out = replicate n block_zeros, cur_out = replicate n block_zeros\<rparr>))"

text \<open>The deprecated alias, which also warns.\<close>

definition new_softcut :: "store \<Rightarrow> bool \<Rightarrow> int \<Rightarrow> flt \<Rightarrow> pyexc + engine" where
  "new_softcut st dev nvoices sr =
     new_engine st dev nvoices sr ''playback'' 512 2 (- 1) (- 1) ''upstream''"

section \<open>Operations\<close>

text \<open>\<open>engine[index]\<close>, as the index of the voice.\<close>

definition get_voice :: "int \<Rightarrow> ('z engine_scheme, nat) py" where
  "get_voice i = (\<lambda>s. (py_index (length (voices s)) i, s))"

definition engine_len :: "'z engine_scheme \<Rightarrow> nat" where
  "engine_len s = length (voices s)"

definition all_voices :: "'z engine_scheme \<Rightarrow> nat list" where
  "all_voices s = [0..<length (voices s)]"

definition check_one :: "'a option \<Rightarrow> 'b option \<Rightarrow> pyexc + unit" where
  "check_one a b = (if (a = None) = (b = None) then Inl ValueError else Inr ())"

definition requested_frames :: "flt option \<Rightarrow> int option \<Rightarrow> flt \<Rightarrow> pyexc + int" where
  "requested_frames seconds nframes sr =
     (case nframes of
        Some n \<Rightarrow> Inr n
      | None \<Rightarrow> (case seconds of Some x \<Rightarrow> seconds_to_frames x sr | None \<Rightarrow> Inl AssertionError))"

text \<open>The new arrays, in voice order; with \<open>shared\<close> the one array of all voices.\<close>

fun new_arrays :: "nat \<Rightarrow> int \<Rightarrow> ('z store_scheme, aref list) py" where
  "new_arrays 0 n = ret []"
| "new_arrays (Suc k) n = bnd (new_zeros n) (\<lambda>a. bnd (new_arrays k n) (\<lambda>as. ret (a # as)))"

definition allocate ::
    "flt option \<Rightarrow> int option \<Rightarrow> bool \<Rightarrow> ('z engine_scheme, aref list) py" where
  "allocate seconds nframes shared =
     bnd (lift (check_one seconds nframes)) (\<lambda>_.
     bnd (gets esr) (\<lambda>sr.
     bnd (lift (requested_frames seconds nframes sr)) (\<lambda>requested.
     bnd (guard (1 \<le> requested) ValueError) (\<lambda>_.
     bnd (gets all_voices) (\<lambda>vs.
     let n = next_power_of_two requested
     in if shared then
          bnd (new_zeros n) (\<lambda>a. seqn (for_each vs (\<lambda>i. set_buffer i a)) (ret [a]))
        else
          bnd (new_arrays (length vs) n)
            (\<lambda>as. seqn (for_each (zip vs as) (\<lambda>(i, a). set_buffer i a)) (ret as)))))))"

definition position :: "dsp_lib \<Rightarrow> nat \<Rightarrow> 'z engine_scheme \<Rightarrow> flt" where
  "position lib i s = lib_position lib (dsp (voices s ! i))"

definition quant_phase :: "dsp_lib \<Rightarrow> nat \<Rightarrow> 'z engine_scheme \<Rightarrow> flt" where
  "quant_phase lib i s = lib_quant_phase lib (dsp (voices s ! i))"

definition sync :: "dsp_lib \<Rightarrow> int \<Rightarrow> int \<Rightarrow> flt \<Rightarrow> ('z engine_scheme, unit) py" where
  "sync lib follow lead offset =
     bnd (get_voice follow) (\<lambda>i. bnd (get_voice lead) (\<lambda>j.
       bnd (gets (position lib j)) (\<lambda>p. cut_to i (fadd F64 p offset))))"

text \<open>\<open>feedback(src, dst)\<close> reads, \<open>feedback(src, dst, amount)\<close> writes.\<close>

definition feedback :: "int \<Rightarrow> int \<Rightarrow> flt option \<Rightarrow> ('z engine_scheme, flt option) py" where
  "feedback src dst amount =
     (case amount of
        None \<Rightarrow> bnd (get_feedback src dst) (\<lambda>g. ret (Some g))
      | Some x \<Rightarrow> seqn (set_feedback src dst x) (ret None))"

definition render ::
    "dsp_lib \<Rightarrow> aref option \<Rightarrow> aref option \<Rightarrow> flt option \<Rightarrow> ('z engine_scheme, aref) py" where
  "render lib inp out seconds =
     bnd (gets running) (\<lambda>r.
     bnd (guard (\<not> r) RuntimeError) (\<lambda>_.
     bnd (lift (check_one inp seconds)) (\<lambda>_.
     bnd (case seconds of
            Some x \<Rightarrow> bnd (gets esr) (\<lambda>sr. bnd (lift (seconds_to_frames x sr)) new_zeros)
          | None \<Rightarrow> ret (the inp)) (\<lambda>a.
     bnd (gets (\<lambda>s. int (length (mem s a)) * int (outch s))) (\<lambda>needed.
     bnd (case out of Some o' \<Rightarrow> ret o' | None \<Rightarrow> new_zeros needed) (\<lambda>dest.
     core_render lib a dest))))))"

definition render_to ::
    "dsp_lib \<Rightarrow> path \<Rightarrow> aref option \<Rightarrow> aref option \<Rightarrow> flt option \<Rightarrow> ('z engine_scheme, path) py" where
  "render_to lib p inp out seconds =
     bnd (render lib inp out seconds) (\<lambda>a.
     bnd (gets (\<lambda>s. array_view (mem s a))) (\<lambda>v.
     bnd (gets esr) (\<lambda>sr. bnd (lift (trunc_int sr)) (\<lambda>rate.
     bnd (gets outch) (\<lambda>ch. write_wav p v rate (Some (int ch)))))))"

definition engine_start :: "('z engine_scheme, unit) py" where
  "engine_start = core_start"

definition engine_stop :: "('z engine_scheme, unit) py" where
  "engine_stop = core_stop"

text \<open>\<open>with engine: body\<close>\<close>

definition with_engine :: "('z engine_scheme, 'a) py \<Rightarrow> ('z engine_scheme, 'a) py" where
  "with_engine body =
     seqn engine_start
       (\<lambda>s. case body s of (r, s') \<Rightarrow>
          (case engine_stop s' of (Inl e, s'') \<Rightarrow> (Inl e, s'') | (Inr _, s'') \<Rightarrow> (r, s'')))"

text \<open>\<open>Voice.process(input, out)\<close> on one voice, which must not run under the device.\<close>

definition voice_process ::
    "dsp_lib \<Rightarrow> nat \<Rightarrow> aref \<Rightarrow> aref option \<Rightarrow> ('z engine_scheme, aref) py" where
  "voice_process lib i inp out =
     bnd (gets (\<lambda>s. int (length (mem s inp)))) (\<lambda>n.
     bnd (case out of Some o' \<Rightarrow> ret o' | None \<Rightarrow> new_zeros n) (\<lambda>dest.
       (\<lambda>s. if length (mem s dest) < nat n then (Inl ValueError, s)
            else let (ys, s1) = run_voice lib i (mem s inp) s
            in (Inr dest, put_array dest (ys @ drop (nat n) (mem s1 dest)) s1))))"

section \<open>Powers of two\<close>

lemma bit_top:
  assumes "2 ^ k \<le> (n :: nat)" "n < 2 ^ (k + 1)"
  shows "bit n k"
proof -
  have "n div 2 ^ k = 1"
    using assms by (intro div_nat_eqI) simp_all
  then show ?thesis by (simp add: bit_iff_odd)
qed

lemma pow2_length_iff: "pow2_length n \<longleftrightarrow> (\<exists>k. n = 2 ^ k)"
proof
  assume p: "pow2_length n"
  then have "1 \<le> n"
    by (simp add: pow2_length_def)
  then obtain k where k: "2 ^ k \<le> n" "n < 2 ^ (k + 1)"
    using ex_power_ivl1 [of 2 n] by auto
  have "n = 2 ^ k"
  proof (rule ccontr)
    assume "n \<noteq> 2 ^ k"
    with k have "2 ^ k \<le> n - 1" "n - 1 < 2 ^ (k + 1)"
      by simp_all
    then have "bit (n AND (n - 1)) k"
      using bit_top k by (simp add: bit_and_iff)
    moreover have "n AND (n - 1) = 0"
      using p by (simp add: pow2_length_def)
    ultimately show False by simp
  qed
  then show "\<exists>k. n = 2 ^ k" by blast
next
  assume "\<exists>k. n = 2 ^ k"
  then obtain k where n: "n = 2 ^ k" by blast
  have "n AND (n - 1) = take_bit k n"
    by (simp add: n take_bit_eq_mask mask_eq_exp_minus_1)
  also have "\<dots> = 0"
    by (simp add: n)
  finally show "pow2_length n"
    by (simp add: pow2_length_def n)
qed

lemma masked_index_less: "pow2_length n \<Longrightarrow> k AND (n - 1) < n"
proof -
  assume "pow2_length n"
  then obtain m where n: "n = 2 ^ m"
    by (auto simp: pow2_length_iff)
  have "k AND (n - 1) = take_bit m k"
    by (simp add: n take_bit_eq_mask mask_eq_exp_minus_1)
  then show "k AND (n - 1) < n"
    by (simp add: n)
qed

lemma next_power_of_two_pow: "\<exists>k. next_power_of_two n = 2 ^ k"
  by (auto simp: next_power_of_two_def push_bit_eq_mult intro: exI [of _ 0])

lemma next_power_of_two_length: "pow2_length (nat (next_power_of_two n))"
proof -
  obtain k where "next_power_of_two n = 2 ^ k"
    using next_power_of_two_pow by blast
  then have "nat (next_power_of_two n) = 2 ^ k"
    by (simp add: nat_power_eq)
  then show ?thesis
    using pow2_length_iff by blast
qed

lemma next_power_of_two_pos: "1 \<le> next_power_of_two n"
proof -
  obtain k where "next_power_of_two n = 2 ^ k"
    using next_power_of_two_pow by blast
  then show ?thesis by simp
qed

text \<open>\<open>next_power_of_two(n)\<close> is a power of two, at least \<open>n\<close> and at least 1, the least such, and
  so always a length that a voice accepts as its buffer's.\<close>

theorem next_power_of_two_least:
  shows "n \<le> next_power_of_two n \<and> 1 \<le> next_power_of_two n \<and> (\<exists>k. next_power_of_two n = 2 ^ k)
    \<and> (\<forall>k. 2 ^ k < next_power_of_two n \<longrightarrow> 2 ^ k < n)
    \<and> pow2_length (nat (next_power_of_two n))"
proof (cases "n \<le> 1")
  case True
  then have "next_power_of_two n = 1"
    by (simp add: next_power_of_two_def)
  moreover have "\<not> (2 :: int) ^ k < 1" for k
    by (simp add: linorder_not_less)
  ultimately show ?thesis
    using True by (auto simp: pow2_length_def intro: exI [of _ 0])
next
  case False
  let ?b = "nat (bitlen (n - 1))"
  have b: "next_power_of_two n = 2 ^ ?b"
    using False by (simp add: next_power_of_two_def push_bit_eq_mult)
  have bounds: "2 ^ nat (bitlen (n - 1) - 1) \<le> n - 1" "n - 1 < 2 ^ ?b"
    using bitlen_bounds [of "n - 1"] False by simp_all
  have pos: "0 < bitlen (n - 1)"
    using bounds(2) False by (cases "0 < bitlen (n - 1)") simp_all
  have "2 ^ k < n" if "2 ^ k < (2 ^ ?b :: int)" for k
  proof -
    have "k \<le> nat (bitlen (n - 1) - 1)"
      using that pos by (simp add: nat_diff_distrib)
    then have "(2 :: int) ^ k \<le> 2 ^ nat (bitlen (n - 1) - 1)"
      by (rule power_increasing) simp
    then show ?thesis
      using bounds(1) by linarith
  qed
  moreover have "nat (2 ^ ?b) = 2 ^ ?b"
    by (simp add: nat_power_eq)
  then have "pow2_length (nat (2 ^ ?b))"
    using pow2_length_iff by blast
  ultimately show ?thesis
    using b bounds(2) by auto
qed

section \<open>Allocation on a stopped engine\<close>

definition assign_buffer :: "aref \<Rightarrow> nat \<Rightarrow> voice \<Rightarrow> voice" where
  "assign_buffer a n v = v\<lparr>dsp := DBuffer a n # dsp v, vbuf := Some a, vframes := n\<rparr>"

lemma for_each_map: "for_each (map g xs) f = for_each xs (\<lambda>x. f (g x))"
  by (induction xs) simp_all

lemma for_each_set_buffer:
  assumes "\<not> running s" "\<forall>(i, a) \<in> set ps. length (mem s a) = n" "pow2_length n"
  shows "for_each ps (\<lambda>(i, a). set_buffer i a) s
       = (Inr (), fold (\<lambda>(i, a). upd_voice i (assign_buffer a n)) ps s)"
  using assms
proof (induction ps arbitrary: s)
  case Nil
  then show ?case by (simp add: ret_apply)
next
  case (Cons p ps)
  obtain i a where p: "p = (i, a)" by (cases p)
  have "set_buffer i a s = (Inr (), upd_voice i (assign_buffer a n) s)"
    using Cons.prems p by (auto simp: set_buffer_def assign_buffer_def Let_def upd_voice_def)
  then show ?case
    using Cons p by (simp add: bnd_Inr)
qed

lemma voices_fold_upd:
  "voices (fold (\<lambda>(i, a). upd_voice i (f a)) ps s) = fold (\<lambda>(i, a). vupd i (f a)) ps (voices s)"
  "mem (fold (\<lambda>(i, a). upd_voice i (f a)) ps s) = mem s"
  by (induction ps arbitrary: s) (auto split: prod.split)

lemma fold_vupd_nth:
  "distinct (map fst ps) \<Longrightarrow> j < length vs \<Longrightarrow>
   fold (\<lambda>(i, a). vupd i (f a)) ps vs ! j
     = (case map_of ps j of None \<Rightarrow> vs ! j | Some a \<Rightarrow> f a (vs ! j))"
proof (induction ps arbitrary: vs)
  case (Cons p ps)
  obtain i a where p: "p = (i, a)" by (cases p)
  have "map_of ps j = None" if "i = j"
    using Cons.prems(1) p that by (simp add: map_of_eq_None_iff)
  then show ?case
    using Cons.IH [of "vupd i (f a) vs"] Cons.prems p by (auto simp: nth_vupd split: option.split)
qed simp

text \<open>A new array, in detail.\<close>

lemma new_zeros_eq:
  "0 \<le> n \<Longrightarrow> new_zeros n s = (Inr (brk s), snd (new_array (replicate (nat n) (Fin 0)) s))"
  by (simp add: new_zeros_def zeros_def py_simps new_array_def)

lemma new_arrays_eq:
  assumes "0 \<le> n"
  shows "new_arrays k n s = (Inr [brk s..<brk s + k],
    s\<lparr>mem := (\<lambda>a. if brk s \<le> a \<and> a < brk s + k then replicate (nat n) (Fin 0) else mem s a),
      brk := brk s + k\<rparr>)"
proof (induction k arbitrary: s)
  case 0
  have "(\<lambda>a. if brk s \<le> a \<and> a < brk s then replicate (nat n) (Fin 0) else mem s a) = mem s"
    by (rule ext) auto
  then show ?case by (simp add: ret_apply)
next
  case (Suc k)
  let ?z = "replicate (nat n) (Fin 0)"
  let ?s = "s\<lparr>mem := (mem s)(brk s := ?z), brk := Suc (brk s)\<rparr>"
  have z: "new_zeros n s = (Inr (brk s), ?s)"
    using new_zeros_eq [OF assms, of s] by (simp add: new_array_def)
  have l: "brk s # [Suc (brk s)..<Suc (brk s) + k] = [brk s..<brk s + Suc k]"
    by (simp add: upt_conv_Cons del: upt_Suc)
  have f: "(\<lambda>a. if Suc (brk s) \<le> a \<and> a < Suc (brk s) + k then ?z else ((mem s)(brk s := ?z)) a)
      = (\<lambda>a. if brk s \<le> a \<and> a < brk s + Suc k then ?z else mem s a)"
    by (rule ext) auto
  have "new_arrays k n ?s = (Inr [Suc (brk s)..<Suc (brk s) + k],
      s\<lparr>mem := (\<lambda>a. if brk s \<le> a \<and> a < brk s + Suc k then ?z else mem s a), brk := brk s + Suc k\<rparr>)"
    using Suc.IH [of ?s] f by (simp cong: if_cong del: upt_Suc)
  then show ?case
    using z l by (simp add: bnd_Inr ret_apply del: upt_Suc)
qed

text \<open>Assigning one array to each voice of a stopped engine.\<close>

lemma assign_all:
  assumes "\<not> running t" "pow2_length n" "length as = length (voices t)"
    and "\<forall>a \<in> set as. length (mem t a) = n"
  shows "\<exists>u. for_each (zip [0..<length (voices t)] as) (\<lambda>(i, a). set_buffer i a) t = (Inr (), u)
    \<and> mem u = mem t
    \<and> voices u = map (\<lambda>i. assign_buffer (as ! i) n (voices t ! i)) [0..<length (voices t)]"
proof -
  let ?ps = "zip [0..<length (voices t)] as"
  let ?u = "fold (\<lambda>(i, a). upd_voice i (assign_buffer a n)) ?ps t"
  have "for_each ?ps (\<lambda>(i, a). set_buffer i a) t = (Inr (), ?u)"
    using assms by (intro for_each_set_buffer) (auto dest: set_zip_rightD)
  moreover have "voices ?u = map (\<lambda>i. assign_buffer (as ! i) n (voices t ! i)) [0..<length (voices t)]"
  proof (rule nth_equalityI)
    have "length (fold (\<lambda>(i, a). vupd i (assign_buffer a n)) qs vs) = length vs" for qs vs
      by (induction qs arbitrary: vs) (auto split: prod.split)
    then show len: "length (voices ?u)
        = length (map (\<lambda>i. assign_buffer (as ! i) n (voices t ! i)) [0..<length (voices t)])"
      by (simp add: voices_fold_upd)
    fix j
    assume "j < length (voices ?u)"
    then have j: "j < length (voices t)"
      using len by simp
    have d: "distinct (map fst ?ps)"
      using assms(3) by (simp add: map_fst_zip)
    have "(j, as ! j) \<in> set ?ps"
      using j assms(3) by (force simp: in_set_zip)
    then have "map_of ?ps j = Some (as ! j)"
      using d by (simp add: map_of_is_SomeI)
    then show "voices ?u ! j = map (\<lambda>i. assign_buffer (as ! i) n (voices t ! i)) [0..<length (voices t)] ! j"
      using j d by (simp add: voices_fold_upd fold_vupd_nth)
  qed
  ultimately show ?thesis
    by (intro exI [of _ ?u]) (simp add: voices_fold_upd)
qed

lemma for_each_zip_replicate:
  "for_each (zip xs (replicate (length xs) a)) (\<lambda>(i, a). f i a) = for_each xs (\<lambda>i. f i a)"
  by (induction xs) simp_all

lemma allocate_stopped:
  fixes s :: "'z engine_scheme" and r :: int and shared :: bool
  assumes "\<not> running s" "(seconds = None) \<noteq> (nframes = None)"
    and req: "requested_frames seconds nframes (esr s) = Inr r" "1 \<le> r"
  defines "n \<equiv> nat (next_power_of_two r)"
    and "count \<equiv> if shared then 1 else length (voices s)"
  shows "\<exists>s'. allocate seconds nframes shared s = (Inr [brk s..<brk s + count], s')
    \<and> (\<forall>a. mem s' a = (if brk s \<le> a \<and> a < brk s + count then replicate n (Fin 0) else mem s a))
    \<and> voices s' = map (\<lambda>i. assign_buffer (if shared then brk s else brk s + i) n (voices s ! i)) [0..<length (voices s)]"
proof -
  let ?N = "next_power_of_two r" and ?vs = "[0..<length (voices s)]"
  have N: "0 \<le> ?N"
    using next_power_of_two_pos [of r] by simp
  have p2: "pow2_length n"
    unfolding n_def by (rule next_power_of_two_length)
  let ?M = "\<lambda>a. if brk s \<le> a \<and> a < brk s + count then replicate n (Fin 0) else mem s a"
  let ?t = "s\<lparr>mem := ?M, brk := brk s + count\<rparr>"
  let ?as = "map (\<lambda>i. if shared then brk s else brk s + i) ?vs"
  have t: "\<not> running ?t" "voices ?t = voices s"
    using assms(1) by simp_all
  have "\<forall>a \<in> set ?as. length (mem ?t a) = n"
    by (auto simp: count_def)
  then obtain u where u: "for_each (zip ?vs ?as) (\<lambda>(i, a). set_buffer i a) ?t = (Inr (), u)"
    "mem u = ?M"
    "voices u = map (\<lambda>i. assign_buffer (?as ! i) n (voices s ! i)) ?vs"
    using assign_all [of ?t n ?as] t p2 by auto
  have "allocate seconds nframes shared s = (Inr [brk s..<brk s + count], u)"
  proof (cases shared)
    case True
    have "new_zeros ?N s = (Inr (brk s), ?t)"
      using True new_zeros_eq [OF N, of s]
      by (auto simp: new_array_def count_def n_def fun_eq_iff intro!: store.equality)
    moreover have as: "?as = replicate (length ?vs) (brk s)"
      using True by (intro nth_equalityI) simp_all
    have "for_each ?vs (\<lambda>i. set_buffer i (brk s)) ?t = (Inr (), u)"
      using u(1) unfolding as for_each_zip_replicate .
    ultimately show ?thesis
      using assms(1,2) req True
      by (simp add: allocate_def check_one_def all_voices_def py_simps bnd_Inr Let_def count_def)
  next
    case False
    have "new_arrays (length ?vs) ?N s = (Inr [brk s..<brk s + count], ?t)"
      using False new_arrays_eq [OF N, of "length ?vs" s] unfolding n_def count_def by simp
    moreover have "?as = [brk s..<brk s + count]"
      using False by (intro nth_equalityI) (simp_all add: count_def)
    ultimately show ?thesis
      using assms(1,2) req False u(1)
      by (simp add: allocate_def check_one_def all_voices_def py_simps bnd_Inr Let_def count_def)
  qed
  moreover have "voices u = map (\<lambda>i. assign_buffer (if shared then brk s else brk s + i) n (voices s ! i)) ?vs"
    unfolding u(3) by (rule map_cong) simp_all
  ultimately show ?thesis
    using u(2) by auto
qed

text \<open>C38. Allocation on a stopped engine always succeeds for a request of at least one frame: it
  leaves every existing array as it was, and every voice points at a new zeroed array of the
  next power of two frames: one array for all of them, or with \<open>shared=False\<close> one each.\<close>

theorem allocate_gives_buffers:
  fixes s :: "'z engine_scheme" and r :: int and shared :: bool
  assumes "\<not> running s" "(seconds = None) \<noteq> (nframes = None)"
    and "requested_frames seconds nframes (esr s) = Inr r" "1 \<le> r"
  defines "n \<equiv> nat (next_power_of_two r)"
  shows "\<exists>as s'. allocate seconds nframes shared s = (Inr as, s')
    \<and> distinct as \<and> length as = (if shared then 1 else length (voices s))
    \<and> (\<forall>a < brk s. mem s' a = mem s a)
    \<and> (\<forall>a \<in> set as. brk s \<le> a \<and> mem s' a = replicate n (Fin 0))
    \<and> (\<forall>i < length (voices s). let a = as ! (if shared then 0 else i); v = voices s' ! i in
          vbuf v = Some a \<and> vframes v = n \<and> dsp_buffer (dsp v) = Some (a, n))"
proof -
  let ?count = "if shared then 1 else length (voices s)"
  obtain s' where s': "allocate seconds nframes shared s = (Inr [brk s..<brk s + ?count], s')"
    "\<forall>a. mem s' a = (if brk s \<le> a \<and> a < brk s + ?count then replicate n (Fin 0) else mem s a)"
    "voices s' = map (\<lambda>i. assign_buffer (if shared then brk s else brk s + i) n (voices s ! i)) [0..<length (voices s)]"
    using allocate_stopped [OF assms(1-4), of shared] unfolding n_def by blast
  show ?thesis
    using s' by (intro exI [of _ "[brk s..<brk s + ?count]"] exI [of _ s'])
      (auto simp: assign_buffer_def Let_def)
qed

theorem allocate_gives_buffers_witness:
  "\<exists>v s'. new_voice (Fin 48000) ''upstream'' = Inr v
     \<and> allocate None (Some 100) False (bare_engine [v, v]) = (Inr [0, 1], s')
     \<and> vframes (voices s' ! 1) = 128 \<and> vbuf (voices s' ! 1) = Some 1"
proof -
  obtain v where v: "new_voice (Fin 48000) ''upstream'' = Inr v"
    by (simp add: new_voice_def Let_def)
  let ?s = "bare_engine [v, v]"
  have s: "\<not> running ?s" "length (voices ?s) = 2" "brk ?s = 0"
    by (simp_all add: bare_engine_def)
  have n: "next_power_of_two 100 = 128"
    by code_simp
  have r: "requested_frames None (Some 100) (esr ?s) = Inr 100"
    by (simp add: requested_frames_def)
  obtain as s' where as: "allocate None (Some 100) False ?s = (Inr as, s')" "length as = 2"
      "vframes (voices s' ! 1) = 128" "vbuf (voices s' ! 1) = Some (as ! 1)"
    using allocate_gives_buffers [OF s(1) _ r, of False] s n by (auto simp: Let_def)
  moreover have "as = [0, 1]"
    using allocate_stopped [OF s(1) _ r, of False] as(1) s by (auto simp: upt_rec)
  ultimately show ?thesis
    using v by auto
qed

end
