(* ===== verification/Live_Engine.thy ===== *)
theory Live_Engine
  imports Engine_Host
begin

text \<open>
  The engine as a transition system: control-thread calls, OSC-thread posts, device callbacks,
  offline renders, allocations and in-place edits of arrays, in any order (\<open>live_step\<close>). Its
  safety invariant is about the memory the DSP objects hold pointers to: every buffer ever
  handed to a DSP object, applied or still queued, is an array that is still there with the
  length it was registered with, a power of two, so the masked head index stays inside it.

  Of the DSP library it uses that processing gives one output per input and does not resize
  the buffer (\<open>lib_ok\<close>).
\<close>

definition lib_ok :: "dsp_lib \<Rightarrow> bool" where
  "lib_ok lib \<longleftrightarrow> (\<forall>h b x. length (fst (lib_process lib h b x)) = length x
                       \<and> length (snd (lib_process lib h b x)) = length b)"

definition ev_ok :: "(aref \<Rightarrow> samples) \<Rightarrow> dsp_ev \<Rightarrow> bool" where
  "ev_ok M e = (case e of DBuffer a n \<Rightarrow> pow2_length n \<and> length (M a) = n | _ \<Rightarrow> True)"

definition fresh_mem :: "'z store_scheme \<Rightarrow> bool" where
  "fresh_mem s \<longleftrightarrow> (\<forall>a. brk s \<le> a \<longrightarrow> mem s a = [])"

definition buffers_ok :: "'z engine_scheme \<Rightarrow> bool" where
  "buffers_ok s \<longleftrightarrow> ring_wf (cmdq s) \<and> ring_wf (oscq s) \<and> fresh_mem s
     \<and> (\<forall>v \<in> set (voices s). \<forall>e \<in> set (dsp v). ev_ok (mem s) e)
     \<and> (\<forall>c \<in> set (queued (cmdq s)) \<union> set (queued (oscq s)). ev_ok (mem s) (fst (snd c)))"

text \<open>What a step may do to the arrays: allocate new ones, and rewrite without resizing.\<close>

definition mem_kept :: "'y store_scheme \<Rightarrow> 'z store_scheme \<Rightarrow> bool" where
  "mem_kept s t \<longleftrightarrow> fresh_mem t \<and> (\<forall>a. mem s a \<noteq> [] \<longrightarrow> length (mem t a) = length (mem s a))"

lemma ev_ok_kept: "mem_kept s t \<Longrightarrow> ev_ok (mem s) e \<Longrightarrow> ev_ok (mem t) e"
  by (auto simp: ev_ok_def mem_kept_def pow2_length_def split: dsp_ev.splits)

lemma mem_kept_refl: "fresh_mem s \<Longrightarrow> mem t = mem s \<Longrightarrow> brk t = brk s \<Longrightarrow> mem_kept s t"
  by (simp add: mem_kept_def fresh_mem_def)

lemma mem_kept_trans: "mem_kept s t \<Longrightarrow> mem_kept t u \<Longrightarrow> mem_kept s u"
  unfolding mem_kept_def by (metis length_0_conv)

lemma mem_kept_put:
  assumes "fresh_mem s" "length xs = length (mem s a)"
  shows "mem_kept s (put_array a xs s)"
  using assms by (auto simp: mem_kept_def fresh_mem_def)

lemma mem_kept_new:
  assumes "fresh_mem s"
  shows "mem_kept s (snd (new_array xs s))"
  using assms by (auto simp: mem_kept_def fresh_mem_def new_array_def)

lemma buffers_ok_kept:
  assumes "buffers_ok s" "mem_kept s t" "ring_wf (cmdq t)" "ring_wf (oscq t)"
    and "\<And>v e. v \<in> set (voices t) \<Longrightarrow> e \<in> set (dsp v) \<Longrightarrow>
           ev_ok (mem t) e \<or> (\<exists>w \<in> set (voices s). e \<in> set (dsp w))"
    and "\<And>c. c \<in> set (queued (cmdq t)) \<union> set (queued (oscq t)) \<Longrightarrow>
           ev_ok (mem t) (fst (snd c)) \<or> c \<in> set (queued (cmdq s)) \<union> set (queued (oscq s))"
  shows "buffers_ok t"
proof -
  have "ev_ok (mem t) e" if "v \<in> set (voices t)" "e \<in> set (dsp v)" for v e
    using assms(5) [OF that] ev_ok_kept [OF assms(2)] assms(1) by (auto simp: buffers_ok_def)
  moreover have "ev_ok (mem t) (fst (snd c))"
    if "c \<in> set (queued (cmdq t)) \<union> set (queued (oscq t))" for c
    using assms(6) [OF that] ev_ok_kept [OF assms(2)] assms(1) by (auto simp: buffers_ok_def)
  moreover have "fresh_mem t"
    using assms(2) by (simp add: mem_kept_def)
  ultimately show ?thesis
    using assms(3,4) by (auto simp: buffers_ok_def)
qed

text \<open>Same voices and queues, other memory.\<close>

lemma buffers_ok_mem:
  assumes "buffers_ok s" "mem_kept s t" "voices t = voices s" "cmdq t = cmdq s" "oscq t = oscq s"
  shows "buffers_ok t"
  using assms by (intro buffers_ok_kept [OF assms(1,2)]) (auto simp: buffers_ok_def)

section \<open>Voices and queues\<close>

lemma buffers_ok_voice:
  assumes "buffers_ok s" "\<And>v e. e \<in> set (dsp (f v)) \<Longrightarrow> e \<in> set (dsp v) \<or> ev_ok (mem s) e"
  shows "buffers_ok (upd_voice i f s)"
proof (rule buffers_ok_kept [OF assms(1)])
  show "mem_kept s (upd_voice i f s)"
    using assms(1) by (intro mem_kept_refl) (simp_all add: buffers_ok_def)
  fix v e
  assume "v \<in> set (voices (upd_voice i f s))" "e \<in> set (dsp v)"
  then show "ev_ok (mem (upd_voice i f s)) e \<or> (\<exists>w \<in> set (voices s). e \<in> set (dsp w))"
    using set_vupd [of v i f "voices s"] assms(2) by auto
qed (use assms(1) in \<open>simp_all add: buffers_ok_def\<close>)

lemma buffers_ok_run_cmd:
  assumes "buffers_ok s" "ev_ok (mem s) (fst (snd c))"
  shows "buffers_ok (run_cmd c s)"
  using assms by (auto simp: run_cmd_def apply_ev_def split: prod.split intro!: buffers_ok_voice)

lemma buffers_ok_fold_cmds:
  "buffers_ok s \<Longrightarrow> (\<forall>c \<in> set cs. ev_ok (mem s) (fst (snd c))) \<Longrightarrow> buffers_ok (fold run_cmd cs s)"
  by (induction cs arbitrary: s) (simp_all add: buffers_ok_run_cmd)

lemma buffers_ok_drain:
  assumes "buffers_ok s"
  shows "buffers_ok (drain s)"
proof -
  obtain q where q: "pop_all CAP (cmdq s) = (queued (cmdq s), q)" "queued q = []" "ring_wf q"
    using assms pop_all_queued [of "cmdq s"] by (auto simp: buffers_ok_def)
  have 1: "buffers_ok (s\<lparr>cmdq := q\<rparr>)"
    using assms q by (auto simp: buffers_ok_def fresh_mem_def)
  have "buffers_ok (drain_ctl s)"
    using assms buffers_ok_fold_cmds [OF 1, of "queued (cmdq s)"] q(1)
    by (simp add: drain_ctl_def buffers_ok_def)
  then have d: "buffers_ok (drain_ctl s)" "ring_wf (oscq (drain_ctl s))"
    by (simp_all add: buffers_ok_def)
  obtain r where r: "pop_all CAP (oscq (drain_ctl s)) = (queued (oscq (drain_ctl s)), r)"
      "queued r = []" "ring_wf r"
    using pop_all_queued [OF d(2)] by auto
  have 2: "buffers_ok (drain_ctl s\<lparr>oscq := r\<rparr>)"
    using d r by (auto simp: buffers_ok_def fresh_mem_def)
  show ?thesis
    using d(1) buffers_ok_fold_cmds [OF 2, of "queued (oscq (drain_ctl s))"] r(1)
    by (simp add: drain_def drain_osc_def buffers_ok_def)
qed

lemma buffers_ok_queue:
  assumes "buffers_ok s" "ev_ok (mem s) e"
  shows "buffers_ok (snd (queue_apply q (i, e, fl) s))"
proof -
  have wf: "ring_wf (cmdq s)" "ring_wf (oscq s)"
    using assms(1) by (simp_all add: buffers_ok_def)
  have d: "buffers_ok (upd_voice i (\<lambda>v. v\<lparr>dropped := dropped v + 1\<rparr>) s)"
    using assms(1) by (rule buffers_ok_voice) simp
  show ?thesis
  proof (cases q)
    case Ctl
    show ?thesis
      using assms d
      by (cases rule: ring.put_cases [OF wf(1), of "(i, e, fl)"])
        (auto simp: Ctl queue_apply_def buffers_ok_def fresh_mem_def)
  next
    case Osc
    show ?thesis
      using assms d
      by (cases rule: ring.put_cases [OF wf(2), of "(i, e, fl)"])
        (auto simp: Osc queue_apply_def buffers_ok_def fresh_mem_def)
  qed
qed

lemma buffers_ok_dsp_apply:
  assumes "buffers_ok s" "ev_ok (mem s) e"
  shows "buffers_ok (snd (dsp_apply q i e fl s))"
  using assms buffers_ok_queue [OF assms] by (simp add: dsp_apply_def buffers_ok_run_cmd)

lemma ev_ok_simps [simp]:
  "ev_ok M (DFloat a x)" "ev_ok M (DBool b y)" "ev_ok M (DShape c k)" "ev_ok M (DCut x)"
  "ev_ok M DStop" "ev_ok M DReset" "ev_ok M (DSampleRate x)" "ev_ok M (DProcess bs xs)"
  by (simp_all add: ev_ok_def)

lemma queue_apply_mem [simp]:
  "mem (snd (queue_apply q c s)) = mem s" "brk (snd (queue_apply q c s)) = brk s"
  by (simp_all add: queue_apply_def split: qid.split option.split)

lemma dsp_apply_mem [simp]:
  "mem (snd (dsp_apply q i e fl s)) = mem s" "brk (snd (dsp_apply q i e fl s)) = brk s"
  by (simp_all add: dsp_apply_def)

lemma buffers_ok_flag_apply:
  assumes "buffers_ok s" "ev_ok (mem s) e"
  shows "buffers_ok (flag_apply q i e s)"
proof -
  let ?s = "upd_voice i (\<lambda>v. v\<lparr>flags_pending := flags_pending v + 1\<rparr>) s"
  have "buffers_ok ?s"
    using assms(1) by (rule buffers_ok_voice) simp
  then have d: "buffers_ok (snd (dsp_apply q i e True ?s))"
    using assms(2) by (intro buffers_ok_dsp_apply) simp_all
  then have "buffers_ok (upd_voice i (\<lambda>v. v\<lparr>flags_pending := flags_pending v - 1\<rparr>) (snd (dsp_apply q i e True ?s)))"
    by (rule buffers_ok_voice) simp
  with d show ?thesis
    by (simp add: flag_apply_def Let_def case_prod_beta)
qed

section \<open>Operations\<close>

lemma dsp_store [simp]:
  "dsp (store_float a x v) = dsp v" "dsp (store_mix m x v) = dsp v"
  "dsp (store_bool b y v) = dsp v" "dsp (store_shape c k v) = dsp v"
  "dsp (reset_params v) = dsp v"
  by (simp_all add: store_defs reset_params_def)

lemma buffers_ok_post_float: "buffers_ok s \<Longrightarrow> buffers_ok (post_float q i a x s)"
  unfolding post_float_def by (intro buffers_ok_dsp_apply buffers_ok_voice) simp_all

lemma buffers_ok_post_bool: "buffers_ok s \<Longrightarrow> buffers_ok (post_bool q i b x s)"
  unfolding post_bool_def Let_def
  by (auto intro!: buffers_ok_dsp_apply buffers_ok_flag_apply buffers_ok_voice)

lemma keeps_set_float [keeps_intro]: "keeps buffers_ok (set_float i a x)"
  and keeps_set_bool [keeps_intro]: "keeps buffers_ok (set_bool i b y)"
  and keeps_set_mix [keeps_intro]: "keeps buffers_ok (set_mix i m x)"
  and keeps_cut_to [keeps_intro]: "keeps buffers_ok (cut_to i x)"
  and keeps_voice_stop [keeps_intro]: "keeps buffers_ok (voice_stop i)"
  and keeps_voice_reset [keeps_intro]: "keeps buffers_ok (voice_reset i)"
  unfolding set_float_def set_bool_def set_mix_def cut_to_def voice_stop_def voice_reset_def
  by (auto intro!: keeps_modify buffers_ok_post_float buffers_ok_post_bool buffers_ok_voice
      buffers_ok_dsp_apply buffers_ok_flag_apply)

lemma keeps_set_shape [keeps_intro]: "keeps buffers_ok (set_shape i c n)"
  and keeps_set_rate [keeps_intro]: "keeps buffers_ok (set_voice_rate i x)"
  unfolding set_shape_def set_voice_rate_def
  by (auto intro!: keeps_intro buffers_ok_dsp_apply buffers_ok_voice)

lemma buffers_ok_ctl: "buffers_ok s \<Longrightarrow> buffers_ok (ctl_exec op s)"
  by (cases op) (auto intro!: keepsD [of buffers_ok] keeps_intro)

text \<open>A buffer is accepted only with a power-of-two length, and registered with it.\<close>

lemma set_buffer_keeps [keeps_intro]: "keeps buffers_ok (set_buffer i a)"
proof (rule keepsI)
  fix s :: "'z engine_scheme"
  assume s: "buffers_ok s"
  let ?n = "length (mem s a)"
  have "buffers_ok (upd_voice i (\<lambda>v. v\<lparr>dsp := DBuffer a ?n # dsp v, vbuf := Some a, vframes := ?n\<rparr>) s)"
    if "pow2_length ?n"
    using s that by (intro buffers_ok_voice) (auto simp: ev_ok_def)
  moreover have q: "buffers_ok (snd (queue_apply Ctl (i, DBuffer a ?n, False) s))" if "pow2_length ?n"
    using s that by (intro buffers_ok_queue) (auto simp: ev_ok_def)
  moreover have "buffers_ok (upd_voice i (\<lambda>v. v\<lparr>vbuf := Some a\<rparr>) (snd (queue_apply Ctl (i, DBuffer a ?n, False) s)))"
    if "pow2_length ?n"
    using q [OF that] by (rule buffers_ok_voice) simp
  ultimately show "buffers_ok (snd (set_buffer i a s))"
    using s by (auto simp: set_buffer_def Let_def case_prod_beta)
qed

lemma keeps_new_array [keeps_intro]: "keeps buffers_ok (new_array xs)"
proof (rule keepsI)
  fix s :: "'z engine_scheme"
  assume s: "buffers_ok s"
  then have "mem_kept s (snd (new_array xs s))"
    by (intro mem_kept_new) (simp add: buffers_ok_def)
  then show "buffers_ok (snd (new_array xs s))"
    by (rule buffers_ok_mem [OF s]) (simp_all add: new_array_def)
qed

lemma keeps_new_zeros [keeps_intro]: "keeps buffers_ok (new_zeros n)"
  unfolding new_zeros_def by (intro keeps_intro)

lemma keeps_new_arrays [keeps_intro]: "keeps buffers_ok (new_arrays k n)"
  by (induction k) (auto intro!: keeps_intro)

lemma keeps_allocate [keeps_intro]: "keeps buffers_ok (allocate seconds nframes shared)"
  unfolding allocate_def Let_def by (intro keeps_intro)

lemma keeps_edit:
  assumes "\<And>xs ys. f xs = Inr ys \<Longrightarrow> length ys = length xs"
  shows "keeps buffers_ok (edit_array a f)"
proof (rule keepsI)
  fix s :: "'z engine_scheme"
  assume s: "buffers_ok s"
  show "buffers_ok (snd (edit_array a f s))"
  proof (cases "f (mem s a)")
    case (Inl e)
    then show ?thesis using s by (simp add: edit_array_def)
  next
    case (Inr xs)
    have "mem_kept s (put_array a xs s)"
      using s assms [OF Inr] by (intro mem_kept_put) (simp_all add: buffers_ok_def)
    then have "buffers_ok (put_array a xs s)"
      by (rule buffers_ok_mem [OF s]) (simp_all add: put_array_def)
    then show ?thesis
      using Inr by (simp add: edit_array_def)
  qed
qed

section \<open>Blocks\<close>

lemma put_array_engine [simp]:
  "voices (put_array a xs s) = voices s" "cmdq (put_array a xs s) = cmdq s"
  "oscq (put_array a xs s) = oscq s" "running (put_array a xs s) = running s"
  "outch (put_array a xs s) = outch s" "block (put_array a xs s) = block s"
  by (simp_all add: put_array_def)

lemma buffers_ok_put:
  assumes "buffers_ok s" "length xs = length (mem s a)"
  shows "buffers_ok (put_array a xs s)"
  using assms by (intro buffers_ok_mem [OF assms(1)] mem_kept_put) (simp_all add: buffers_ok_def)

lemma buffers_ok_run_voice:
  assumes "lib_ok lib" "buffers_ok s"
  shows "buffers_ok (snd (run_voice lib i vin s))"
proof -
  let ?h = "dsp (voices s ! i)" and ?b = "buffer_content s i"
  let ?s = "case dsp_buffer ?h of None \<Rightarrow> s
            | Some (a, n) \<Rightarrow> put_array a (snd (lib_process lib ?h ?b vin)) s"
  have "buffers_ok ?s"
  proof (cases "dsp_buffer ?h")
    case None
    then show ?thesis using assms(2) by simp
  next
    case (Some p)
    obtain a n where p: "p = (a, n)" by (cases p)
    then have "?b = mem s a"
      using Some by (simp add: buffer_content_def)
    then show ?thesis
      using assms Some p by (auto simp: lib_ok_def intro: buffers_ok_put)
  qed
  then show ?thesis
    by (auto simp: run_voice_def Let_def case_prod_beta intro!: buffers_ok_voice)
qed

lemma length_mix_frame [simp]: "length (mix_frame off ch ys gl gr f out) = length out"
  by (simp add: mix_frame_def Let_def)

lemma length_fold_mix [simp]: "length (fold (mix_frame off ch ys gl gr) fs out) = length out"
  by (induction fs arbitrary: out) simp_all

lemma length_mix_frames [simp]: "length (mix_frames off ch ys gl gr out) = length out"
  by (simp add: mix_frames_def)

lemma buffers_ok_out:
  "buffers_ok s \<Longrightarrow> buffers_ok (s\<lparr>cur_out := c\<rparr>)"
  "buffers_ok s \<Longrightarrow> buffers_ok (s\<lparr>prev_out := p, cur_out := c\<rparr>)"
  by (auto simp: buffers_ok_def fresh_mem_def)

lemma buffers_ok_mix_voice:
  assumes "lib_ok lib" "buffers_ok s"
  shows "buffers_ok (mix_voice lib inp out n dst s)"
proof -
  let ?ext = "take n (drop (snd inp) (mem s (fst inp)))"
  have "buffers_ok (snd (run_voice lib dst (voice_input s ?ext dst) s))"
    using assms by (rule buffers_ok_run_voice)
  then show ?thesis
    unfolding mix_voice_def Let_def case_prod_beta
    by (intro buffers_ok_put buffers_ok_out) simp_all
qed

lemma buffers_ok_fold_mix:
  "lib_ok lib \<Longrightarrow> buffers_ok s \<Longrightarrow> buffers_ok (fold (mix_voice lib inp out n) ds s)"
  by (induction ds arbitrary: s) (simp_all add: buffers_ok_mix_voice)

lemma buffers_ok_core:
  assumes "lib_ok lib" "buffers_ok s"
  shows "buffers_ok (process_core lib inp out n s)"
  unfolding process_core_def Let_def
  by (intro buffers_ok_out buffers_ok_fold_mix buffers_ok_put assms) simp

lemma buffers_ok_loop:
  "lib_ok lib \<Longrightarrow> buffers_ok s \<Longrightarrow> buffers_ok (block_loop lib bs inp out d n s)"
proof (induction lib bs inp out d n s rule: block_loop.induct)
  case (1 lib bs inp out d n s)
  then show ?case
    by (subst block_loop.simps) (simp add: Let_def buffers_ok_core)
qed

lemma keeps_core_render [keeps_intro]: "lib_ok lib \<Longrightarrow> keeps buffers_ok (core_render lib inp dest)"
  by (rule keepsI) (simp add: core_render_def Let_def buffers_ok_loop)

lemma keeps_render [keeps_intro]: "lib_ok lib \<Longrightarrow> keeps buffers_ok (render lib inp out seconds)"
  unfolding render_def by (intro keeps_intro) (auto intro!: keeps_intro)

lemma buffers_ok_callback:
  assumes "lib_ok lib" "buffers_ok s"
  shows "buffers_ok (callback lib ext s)"
  unfolding callback_def Let_def case_prod_beta
  by (intro buffers_ok_loop assms keepsD [OF keeps_new_array] buffers_ok_drain)

section \<open>Any interleaving\<close>

text \<open>
  The steps: what the control thread calls, what the OSC receiver posts, and what the audio
  thread runs. An edit stands for any in-place buffer operation of the host.
\<close>

inductive live_step :: "dsp_lib \<Rightarrow> engine \<Rightarrow> engine \<Rightarrow> bool" for lib where
  call: "live_step lib s (ctl_exec op s)"
| assign: "live_step lib s (snd (set_buffer i a s))"
| alloc: "live_step lib s (snd (allocate seconds nframes shared s))"
| new: "live_step lib s (snd (new_array xs s))"
| edit: "length xs = length (mem s a) \<Longrightarrow> live_step lib s (put_array a xs s)"
| offline: "live_step lib s (snd (render lib inp out seconds s))"
| start: "live_step lib s (snd (engine_start s))"
| stop: "live_step lib s (snd (engine_stop s))"
| osc_float: "live_step lib s (post_float Osc i a x s)"
| osc_bool: "live_step lib s (post_bool Osc i b y s)"
| audio: "running s \<Longrightarrow> live_step lib s (callback lib ext s)"

inductive live_reach :: "dsp_lib \<Rightarrow> engine \<Rightarrow> bool" for lib where
  init: "new_engine empty_store dev n sr mode bs ch outdev indev quirks = Inr s \<Longrightarrow> live_reach lib s"
| step: "live_reach lib s \<Longrightarrow> live_step lib s t \<Longrightarrow> live_reach lib t"

lemma new_engine_ok:
  assumes "new_engine st dev n sr mode bs ch outdev indev quirks = Inr s"
  shows "\<exists>v. new_voice sr quirks = Inr v \<and> voices s = replicate (nat n) (apply_ev (DSampleRate (to_f32 sr)) False v)
    \<and> 1 \<le> n \<and> cmdq s = empty_ring \<and> oscq s = empty_ring \<and> \<not> running s \<and> 1 \<le> block s \<and> 1 \<le> outch s
    \<and> mem s = mem st \<and> brk s = brk st \<and> files s = files st \<and> esr s = sr"
  using assms
  by (auto simp: new_engine_def ebind_eq_Inr Let_def split: if_splits)

lemma buffers_ok_new_engine:
  assumes "new_engine st dev n sr mode bs ch outdev indev quirks = Inr s" "mem st = (\<lambda>_. [])"
  shows "buffers_ok s"
proof -
  obtain v where v: "new_voice sr quirks = Inr v"
    and s: "voices s = replicate (nat n) (apply_ev (DSampleRate (to_f32 sr)) False v)"
      "cmdq s = empty_ring" "oscq s = empty_ring" "mem s = mem st"
    using new_engine_ok [OF assms(1)] by blast
  have "dsp v = [DSampleRate (to_f32 sr)]"
    using v by (auto simp: new_voice_def Let_def split: if_splits)
  then show ?thesis
    using s assms(2) by (auto simp: buffers_ok_def fresh_mem_def apply_ev_def)
qed

lemma buffers_ok_step:
  assumes "lib_ok lib" "live_step lib s t" "buffers_ok s"
  shows "buffers_ok t"
  using assms(2,3,1)
proof cases
  case start
  then show ?thesis
    using assms(3) by (auto simp: engine_start_def core_start_def buffers_ok_def fresh_mem_def)
next
  case stop
  have "buffers_ok (s\<lparr>running := False\<rparr>)"
    using assms(3) by (simp add: buffers_ok_def fresh_mem_def)
  then show ?thesis
    using stop assms(3) by (auto simp: engine_stop_def core_stop_def buffers_ok_drain)
qed (use assms(1,3) in \<open>auto intro: buffers_ok_ctl keepsD [OF set_buffer_keeps] keepsD [OF keeps_allocate]
      keepsD [OF keeps_new_array] buffers_ok_put keepsD [OF keeps_render] buffers_ok_post_float
      buffers_ok_post_bool buffers_ok_callback\<close>)

lemma live_reach_buffers_ok:
  assumes "lib_ok lib" "live_reach lib s"
  shows "buffers_ok s"
  using assms(2)
  by (induction rule: live_reach.induct) (auto intro: buffers_ok_new_engine buffers_ok_step [OF assms(1)] simp: empty_store_def)

lemma dsp_buffer_mem: "dsp_buffer h = Some (a, n) \<Longrightarrow> DBuffer a n \<in> set h"
  by (induction h rule: dsp_buffer.induct) auto

text \<open>C1. Buffer safety: whatever the control, OSC and audio threads do and in whatever order, the
  array a voice's DSP object points at has the length it was registered with, and the masked
  index \<open>phase & (frames - 1)\<close> its heads use always falls inside it. The same holds of every
  swap still waiting in a queue.\<close>

theorem dsp_buffer_index_safe:
  assumes "lib_ok lib" "live_reach lib s" "i < length (voices s)"
  shows "(\<forall>a n k. dsp_buffer (dsp (voices s ! i)) = Some (a, n) \<longrightarrow>
            length (mem s a) = n \<and> k AND (n - 1) < length (mem s a))
    \<and> (\<forall>j a n fl k. (j, DBuffer a n, fl) \<in> set (queued (cmdq s)) \<longrightarrow> k AND (n - 1) < length (mem s a))"
proof -
  have ok: "buffers_ok s"
    using assms(1,2) by (rule live_reach_buffers_ok)
  have "ev_ok (mem s) (DBuffer a n)" if "dsp_buffer (dsp (voices s ! i)) = Some (a, n)" for a n
    using ok dsp_buffer_mem [OF that] assms(3) by (auto simp: buffers_ok_def)
  moreover have "ev_ok (mem s) (DBuffer a n)" if "(j, DBuffer a n, fl) \<in> set (queued (cmdq s))" for j a n fl
    using ok that by (force simp: buffers_ok_def)
  ultimately show ?thesis
    by (auto simp: ev_ok_def intro: masked_index_less [unfolded One_nat_def])
qed

theorem dsp_buffer_index_safe_witness:
  "\<exists>s. live_reach thru_lib s
     \<and> dsp_buffer (dsp (voices s ! 0)) = Some (0, 4) \<and> (13 :: nat) AND (4 - 1) < length (mem s 0)"
proof -
  let ?zs = "replicate 4 (Fin 0)"
  obtain s where s: "new_engine empty_store True 1 (Fin 48000) ''duplex'' 64 2 (- 1) (- 1) ''upstream'' = Inr s"
    by (simp add: new_engine_def new_voice_def int_args_ok_def int32_def Let_def)
  then have len: "length (voices s) = 1" "brk s = 0" "\<not> running s"
    using new_engine_ok [OF s] by (auto simp: empty_store_def)
  have lib: "lib_ok thru_lib"
    by (simp add: lib_ok_def thru_lib_def)
  let ?t = "snd (new_array ?zs s)" and ?u = "snd (set_buffer 0 0 (snd (new_array ?zs s)))"
  have r: "live_reach thru_lib ?u"
    using s by (blast intro: live_reach.intros live_step.intros)
  have "mem ?t 0 = ?zs" "voices ?t = voices s" "\<not> running ?t"
    using len by (simp_all add: new_array_def)
  then have u: "voices ?u = vupd 0 (\<lambda>v. v\<lparr>dsp := DBuffer 0 4 # dsp v, vbuf := Some 0, vframes := 4\<rparr>) (voices s)"
    by (simp add: set_buffer_def pow2_length_def)
  then have d: "dsp_buffer (dsp (voices ?u ! 0)) = Some (0, 4)" "0 < length (voices ?u)"
    using len by (simp_all add: nth_vupd)
  then have "(13 :: nat) AND (4 - 1) < length (mem ?u 0)"
    using dsp_buffer_index_safe [OF lib r d(2)] by blast
  with r d(1) show ?thesis by blast
qed

end
