(* ===== verification/Engine_Frame.thy ===== *)
theory Engine_Frame
  imports Live_Engine
begin

text \<open>
  What the engine operations leave alone: the state of the host built on the engine
  (\<open>engine.more\<close>), which buffer each voice holds (\<open>holds\<close>), and the arrays that exist, which
  keep their length. \<open>same_frame s t\<close> says so of two states; every operation except the
  assignment of a buffer keeps it (\<open>keeps (same_frame s)\<close>), the audio callback included. The
  host invariants are proved from these facts, without looking into the engine again.
\<close>

definition holds :: "voice \<Rightarrow> aref option \<times> nat" where
  "holds v = (vbuf v, vframes v)"

definition same_frame :: "'z engine_scheme \<Rightarrow> 'z engine_scheme \<Rightarrow> bool" where
  "same_frame s t \<longleftrightarrow> engine.more t = engine.more s \<and> map holds (voices t) = map holds (voices s)
     \<and> brk s \<le> brk t \<and> (\<forall>a < brk s. length (mem t a) = length (mem s a))"

named_theorems frame_intro \<open>operations that keep the frame of a state\<close>

lemma same_frame_refl: "same_frame s s"
  by (simp add: same_frame_def)

lemma same_frame_trans: "same_frame s t \<Longrightarrow> same_frame t u \<Longrightarrow> same_frame s u"
  by (simp add: same_frame_def)

lemma same_frame_length: "same_frame s t \<Longrightarrow> length (voices t) = length (voices s)"
  unfolding same_frame_def by (metis length_map)

lemma same_frame_holds:
  "same_frame s t \<Longrightarrow> i < length (voices s) \<Longrightarrow> holds (voices t ! i) = holds (voices s ! i)"
  unfolding same_frame_def by (metis length_map nth_map)

lemma keeps_frameI: "(\<And>t. same_frame t (snd (m t))) \<Longrightarrow> keeps (same_frame s) m"
  by (rule keepsI) (blast intro: same_frame_trans)

lemma keeps_frameD: "(\<And>s. keeps (same_frame s) m) \<Longrightarrow> same_frame t (snd (m t))"
  by (rule keepsD [of "same_frame t" m t, OF _ same_frame_refl])

section \<open>Voices and queues\<close>

lemma holds_updates [simp]:
  "holds (v\<lparr>dsp := h\<rparr>) = holds v" "holds (v\<lparr>flags_pending := k\<rparr>) = holds v"
  "holds (v\<lparr>dropped := n\<rparr>) = holds v" "holds (v\<lparr>vsample_rate := r\<rparr>) = holds v"
  "holds (apply_ev e fl v) = holds v" "holds (reset_params v) = holds v"
  "holds (store_float a x v) = holds v" "holds (store_mix m x v) = holds v"
  "holds (store_bool b y v) = holds v" "holds (store_shape c j v) = holds v"
  by (simp_all add: holds_def apply_ev_def reset_params_def store_defs)

lemma map_holds_vupd:
  assumes "\<And>v. holds (f v) = holds v"
  shows "map holds (vupd i f vs) = map holds vs"
proof (rule nth_equalityI)
  fix j
  assume "j < length (map holds (vupd i f vs))"
  then show "map holds (vupd i f vs) ! j = map holds vs ! j"
    using assms by (simp add: nth_vupd)
qed simp

lemma frame_upd_voice [frame_intro]: "(\<And>v. holds (f v) = holds v) \<Longrightarrow> same_frame s (upd_voice i f s)"
  by (simp add: same_frame_def map_holds_vupd)

lemma map_holds_vrun: "map holds (vrun c vs) = map holds vs"
  by (cases c) (simp add: vrun_vupd map_holds_vupd)

lemma map_holds_fold_vrun: "map holds (fold vrun cs vs) = map holds vs"
  by (induction cs arbitrary: vs) (simp_all add: map_holds_vrun)

lemma frame_run_cmds:
  "same_frame s (fold run_cmd cs (s\<lparr>cmdq := q\<rparr>))" "same_frame s (fold run_cmd cs (s\<lparr>oscq := q\<rparr>))"
  by (simp_all add: same_frame_def map_holds_fold_vrun)

lemma frame_drain [frame_intro]: "same_frame s (drain s)"
  unfolding drain_def drain_osc_def drain_ctl_def
  by (auto simp: case_prod_beta intro: same_frame_trans frame_run_cmds)

lemma frame_queue [frame_intro]: "same_frame s (snd (queue_apply q c s))"
  by (auto simp: queue_apply_def split: qid.split option.split intro!: frame_upd_voice)
    (simp_all add: same_frame_def)

lemma frame_dsp_apply [frame_intro]: "same_frame s (snd (dsp_apply q i e fl s))"
  by (auto simp: dsp_apply_def run_cmd_def intro!: frame_queue frame_upd_voice)

lemma frame_flag_apply [frame_intro]: "same_frame s (flag_apply q i e s)"
proof -
  let ?s = "upd_voice i (\<lambda>v. v\<lparr>flags_pending := flags_pending v + 1\<rparr>) s"
  have 1: "same_frame s (snd (dsp_apply q i e True ?s))"
    by (rule same_frame_trans [OF frame_upd_voice frame_dsp_apply]) simp
  moreover have "same_frame s (upd_voice i (\<lambda>v. v\<lparr>flags_pending := flags_pending v - 1\<rparr>) (snd (dsp_apply q i e True ?s)))"
    by (rule same_frame_trans [OF 1 frame_upd_voice]) simp
  ultimately show ?thesis
    by (simp add: flag_apply_def Let_def case_prod_beta)
qed

lemma frame_post_float [frame_intro]: "same_frame s (post_float q i a x s)"
  unfolding post_float_def by (rule same_frame_trans [OF frame_upd_voice frame_dsp_apply]) simp

lemma frame_post_bool [frame_intro]: "same_frame s (post_bool q i b x s)"
proof -
  have "same_frame s (upd_voice i (store_bool b x) s)"
    by (rule frame_upd_voice) simp
  then show ?thesis
    by (auto simp: post_bool_def Let_def intro: same_frame_trans frame_flag_apply frame_dsp_apply)
qed

lemma frame_voice_setters [frame_intro]:
  "keeps (same_frame s) (set_float i a x)" "keeps (same_frame s) (set_mix i m x)"
  "keeps (same_frame s) (set_bool i b y)" "keeps (same_frame s) (cut_to i x)"
  "keeps (same_frame s) (voice_stop i)"
  unfolding set_float_def set_mix_def set_bool_def cut_to_def voice_stop_def
  by (auto simp: modify_def intro!: keeps_frameI frame_intro)

lemma frame_voice_reset [frame_intro]: "keeps (same_frame s) (voice_reset i)"
proof -
  have "same_frame t (upd_voice i reset_params (flag_apply Ctl i DReset t))" for t :: "'a engine_scheme"
    by (rule same_frame_trans [OF frame_flag_apply frame_upd_voice]) simp
  then show ?thesis
    by (auto simp: voice_reset_def modify_def intro!: keeps_frameI)
qed

lemma frame_set_attr [frame_intro]: "keeps (same_frame s) (set_attr i name x)"
  unfolding set_attr_def
  by (auto split: option.split attr.split pyarg.split intro!: keeps_intro frame_intro)

lemma frame_feedback [frame_intro]: "keeps (same_frame s) (feedback src dst x)"
proof -
  have "keeps (same_frame s) (get_feedback src dst)"
    by (auto simp: get_feedback_def split: sum.split intro!: keeps_frameI same_frame_refl)
  moreover have "keeps (same_frame s) (set_feedback src dst y)" for y
    by (auto simp: set_feedback_def split: sum.split intro!: keeps_frameI)
      (simp_all add: same_frame_def)
  ultimately show ?thesis
    by (auto simp: feedback_def split: option.split intro!: keeps_intro)
qed

lemma frame_get_voice [frame_intro]: "keeps (same_frame s) (get_voice i)"
  by (auto simp: get_voice_def intro!: keeps_frameI same_frame_refl)

lemma frame_sync [frame_intro]: "keeps (same_frame s) (sync lib i j x)"
  unfolding sync_def by (intro keeps_intro frame_intro)

section \<open>Arrays and blocks\<close>

lemma frame_put [frame_intro]: "length xs = length (mem s a) \<Longrightarrow> same_frame s (put_array a xs s)"
  by (simp add: same_frame_def put_array_def)

lemma frame_new_array [frame_intro]: "keeps (same_frame s) (new_array xs)"
  by (rule keeps_frameI) (simp add: same_frame_def new_array_def)

lemma frame_new_zeros [frame_intro]: "keeps (same_frame s) (new_zeros n)"
  unfolding new_zeros_def by (intro keeps_intro frame_intro)

lemma frame_edit:
  assumes "\<And>d d'. f d = Inr d' \<Longrightarrow> length d' = length d"
  shows "keeps (same_frame s) (edit_array a f)"
proof (rule keeps_frameI)
  fix t :: "'a engine_scheme"
  show "same_frame t (snd (edit_array a f t))"
    using assms by (cases "f (mem t a)") (auto simp: edit_array_def intro: same_frame_refl frame_put)
qed

lemma frame_run_voice [frame_intro]:
  assumes "lib_ok lib"
  shows "same_frame s (snd (run_voice lib i vin s))"
proof -
  let ?h = "dsp (voices s ! i)" and ?b = "buffer_content s i"
  let ?s = "case dsp_buffer ?h of None \<Rightarrow> s | Some (a, n) \<Rightarrow> put_array a (snd (lib_process lib ?h ?b vin)) s"
  have "same_frame s ?s"
    using assms
    by (auto simp: lib_ok_def buffer_content_def split: option.split intro: same_frame_refl frame_put)
  then have "same_frame s (upd_voice i (\<lambda>v. v\<lparr>dsp := DProcess ?b vin # dsp v\<rparr>) ?s)"
    by (rule same_frame_trans [OF _ frame_upd_voice]) simp
  then show ?thesis
    by (simp add: run_voice_def Let_def case_prod_beta)
qed

lemma frame_outs: "same_frame s (s\<lparr>cur_out := c\<rparr>)" "same_frame s (s\<lparr>prev_out := p, cur_out := c\<rparr>)"
  by (simp_all add: same_frame_def)

lemma frame_mix_voice [frame_intro]:
  assumes "lib_ok lib"
  shows "same_frame s (mix_voice lib inp out n dst s)"
proof -
  let ?ext = "take n (drop (snd inp) (mem s (fst inp)))"
  have "same_frame s (snd (run_voice lib dst (voice_input s ?ext dst) s))"
    using assms by (rule frame_run_voice)
  then show ?thesis
    unfolding mix_voice_def Let_def case_prod_beta
    by (rule same_frame_trans [OF same_frame_trans [OF _ frame_outs(1)] frame_put]) simp
qed

lemma frame_fold_mix: "lib_ok lib \<Longrightarrow> same_frame s (fold (mix_voice lib inp out n) ds s)"
  by (induction ds arbitrary: s) (auto intro: same_frame_refl same_frame_trans frame_mix_voice)

lemma frame_core [frame_intro]:
  assumes "lib_ok lib"
  shows "same_frame s (process_core lib inp out n s)"
  unfolding process_core_def Let_def
  by (rule same_frame_trans [OF same_frame_trans [OF frame_put frame_fold_mix] frame_outs(2)])
    (simp_all add: assms)

lemma frame_loop [frame_intro]: "lib_ok lib \<Longrightarrow> same_frame s (block_loop lib bs inp out d n s)"
proof (induction lib bs inp out d n s rule: block_loop.induct)
  case (1 lib bs inp out d n s)
  then show ?case
    by (subst block_loop.simps)
      (auto simp: Let_def intro: same_frame_refl same_frame_trans frame_core)
qed

lemma frame_core_render [frame_intro]: "lib_ok lib \<Longrightarrow> keeps (same_frame s) (core_render lib inp dest)"
  by (auto simp: core_render_def Let_def intro!: keeps_frameI same_frame_refl frame_loop)

lemma frame_render [frame_intro]: "lib_ok lib \<Longrightarrow> keeps (same_frame s) (render lib inp out seconds)"
  unfolding render_def by (auto split: option.split intro!: keeps_intro frame_intro)

lemma frame_callback [frame_intro]:
  assumes "lib_ok lib"
  shows "same_frame s (callback lib ext s)"
proof -
  let ?xs = "if emode s = ''duplex'' then ext else replicate (length ext) (Fin 0)"
  let ?s2 = "snd (new_array ?xs (drain s))"
  have a: "same_frame t (snd (new_array ys t))" for t :: "'a engine_scheme" and ys
    by (rule keeps_frameD [OF frame_new_array])
  have "same_frame s ?s2"
    using frame_drain a by (rule same_frame_trans)
  then have "same_frame s (snd (new_array (replicate (length ext * outch s) (Fin 0)) ?s2))"
    using a by (rule same_frame_trans)
  then show ?thesis
    unfolding callback_def Let_def case_prod_beta
    using assms by (blast intro: same_frame_trans frame_loop)
qed

lemma frame_start_stop [frame_intro]:
  "keeps (same_frame s) engine_start" "keeps (same_frame s) engine_stop"
proof -
  have r: "same_frame t (t\<lparr>running := b\<rparr>)" for t :: "'a engine_scheme" and b
    by (simp add: same_frame_def)
  show "keeps (same_frame s) engine_start"
    using r by (auto simp: engine_start_def core_start_def intro!: keeps_frameI same_frame_refl)
  have "same_frame t (drain (t\<lparr>running := False\<rparr>))" for t :: "'a engine_scheme"
    using r frame_drain by (rule same_frame_trans)
  then show "keeps (same_frame s) engine_stop"
    by (auto simp: engine_stop_def core_stop_def intro!: keeps_frameI same_frame_refl)
qed

section \<open>Assigning a buffer\<close>

text \<open>A buffer assignment keeps everything but what the voice holds.\<close>

definition same_arrays :: "'z engine_scheme \<Rightarrow> 'z engine_scheme \<Rightarrow> bool" where
  "same_arrays s t \<longleftrightarrow> engine.more t = engine.more s \<and> length (voices t) = length (voices s)
     \<and> mem t = mem s \<and> brk t = brk s \<and> running t = running s
     \<and> device_ok t = device_ok s"

lemma queue_same_arrays: "same_arrays s (snd (queue_apply q c s))"
  by (auto simp: queue_apply_def same_arrays_def split: qid.split option.split)

lemma set_buffer_result:
  assumes "set_buffer i a s = (r, t)" "i < length (voices s)"
  shows "same_arrays s t
    \<and> (\<forall>j < length (voices s). j \<noteq> i \<longrightarrow> holds (voices t ! j) = holds (voices s ! j))
    \<and> (r = Inr () \<longrightarrow> holds (voices t ! i) = (Some a, length (mem s a)))
    \<and> (r \<noteq> Inr () \<longrightarrow> holds (voices t ! i) = holds (voices s ! i))"
proof -
  let ?n = "length (mem s a)"
  obtain ok s1 where q: "queue_apply Ctl (i, DBuffer a ?n, False) s = (ok, s1)"
    by (metis surj_pair)
  have f: "same_frame s s1" and sa: "same_arrays s s1"
    using frame_queue queue_same_arrays q by (metis snd_conv)+
  have h: "holds (voices s1 ! j) = holds (voices s ! j)" if "j < length (voices s)" for j
    using same_frame_holds [OF f that] .
  have l: "length (voices s1) = length (voices s)"
    using f by (rule same_frame_length)
  have v: "vbuf (voices s1 ! i) = vbuf (voices s ! i)" "vframes (voices s1 ! i) = vframes (voices s ! i)"
    using h [OF assms(2)] by (simp_all add: holds_def)
  show ?thesis
    using assms q h l sa v
    by (auto simp: set_buffer_def Let_def same_arrays_def holds_def nth_vupd
        split: if_splits)
qed

end
