(* ===== verification/Norns_Host.thy ===== *)
theory Norns_Host
  imports Engine_Frame
begin

text \<open>
  \<open>src/softcut/norns.py\<close>: the norns-compatible host \<open>NornsSoftcut\<close>, one engine and two global
  buffers, with voices and buffers numbered from 1.

  Numbers arrive here as Python ints and floats (the \<open>int()\<close> and \<open>float()\<close> conversions the
  methods make on their arguments are modelled where strings can arrive, in the OSC server).
  A time in seconds becomes frames by a binary64 multiplication and rounding to even. The
  arrays that are passed as a source are always copies, so they are values.
\<close>

section \<open>Parameter tables\<close>

definition FLOAT_PARAMS :: "(string \<times> string) list" where
  "FLOAT_PARAMS =
    [(''rate'', ''rate''), (''level'', ''level''), (''pan'', ''pan''),
     (''rec_level'', ''rec_level''), (''pre_level'', ''pre_level''),
     (''loop_start'', ''loop_start''), (''loop_end'', ''loop_end''), (''fade_time'', ''fade_time''),
     (''rec_offset'', ''rec_offset''), (''rate_slew_time'', ''rate_slew_time''),
     (''recpre_slew_time'', ''rec_pre_slew_time''), (''phase_quant'', ''phase_quant''),
     (''phase_offset'', ''phase_offset''), (''pre_filter_fc'', ''pre_filter_fc''),
     (''pre_filter_fc_mod'', ''pre_filter_fc_mod''), (''pre_filter_rq'', ''pre_filter_rq''),
     (''pre_filter_lp'', ''pre_filter_lp''), (''pre_filter_hp'', ''pre_filter_hp''),
     (''pre_filter_bp'', ''pre_filter_bp''), (''pre_filter_br'', ''pre_filter_br''),
     (''pre_filter_dry'', ''pre_filter_dry''), (''post_filter_fc'', ''post_filter_fc''),
     (''post_filter_rq'', ''post_filter_rq''), (''post_filter_lp'', ''post_filter_lp''),
     (''post_filter_hp'', ''post_filter_hp''), (''post_filter_bp'', ''post_filter_bp''),
     (''post_filter_br'', ''post_filter_br''), (''post_filter_dry'', ''post_filter_dry'')]"

definition BOOL_PARAMS :: "(string \<times> string) list" where
  "BOOL_PARAMS =
    [(''play'', ''play''), (''rec'', ''rec''), (''loop'', ''loop''), (''rec_once'', ''rec_once'')]"

definition BUFFERS :: "int list" where "BUFFERS = [1, 2]"

definition DEFAULT_VOICES :: int where "DEFAULT_VOICES = 6"

definition DEFAULT_BUFFER_FRAMES :: int where "DEFAULT_BUFFER_FRAMES = push_bit 24 1"

section \<open>State\<close>

record norns = engine +
  nsr :: flt
  nvoices :: int
  bufs :: "int \<Rightarrow> aref option"
  assigned :: "int \<Rightarrow> int option"

text \<open>\<open>self._buf[b]\<close>\<close>

definition get_buf :: "int \<Rightarrow> ('z norns_scheme, aref) py" where
  "get_buf b = (\<lambda>s. ((case bufs s b of None \<Rightarrow> Inl KeyError | Some a \<Rightarrow> Inr a), s))"

section \<open>Voices\<close>

text \<open>\<open>_v(i)\<close>: 1-based, with its own range check.\<close>

definition voice_at :: "int \<Rightarrow> ('z norns_scheme, nat) py" where
  "voice_at i = (\<lambda>s.
     let idx = i - 1
     in if idx < 0 \<or> nvoices s \<le> idx then (Inl IndexError, s) else get_voice idx s)"

text \<open>The generated setters.\<close>

definition truthy :: "flt \<Rightarrow> bool" where
  "truthy x \<longleftrightarrow> \<not> feq x (Fin 0)"

definition float_setter :: "string \<Rightarrow> int \<Rightarrow> flt \<Rightarrow> ('z norns_scheme, unit) py" where
  "float_setter att i x = bnd (voice_at i) (\<lambda>k. set_attr k att (PF x))"

definition bool_setter :: "string \<Rightarrow> int \<Rightarrow> bool \<Rightarrow> ('z norns_scheme, unit) py" where
  "bool_setter att i x = bnd (voice_at i) (\<lambda>k. set_attr k att (PB x))"

text \<open>\<open>host.<name>(i, value)\<close> for a generated name, the value a float (\<open>bool(value)\<close> for a flag).\<close>

definition set_param :: "string \<Rightarrow> int \<Rightarrow> flt \<Rightarrow> ('z norns_scheme, unit) py" where
  "set_param name i x =
     (case map_of FLOAT_PARAMS name of
        Some att \<Rightarrow> float_setter att i x
      | None \<Rightarrow> (case map_of BOOL_PARAMS name of
                  Some att \<Rightarrow> bool_setter att i (truthy x)
                | None \<Rightarrow> raise AttributeError))"

definition set_position :: "int \<Rightarrow> flt \<Rightarrow> ('z norns_scheme, unit) py" where
  "set_position i pos = bnd (voice_at i) (\<lambda>k. cut_to k pos)"

definition buffer :: "int \<Rightarrow> int \<Rightarrow> ('z norns_scheme, unit) py" where
  "buffer i b =
     bnd (gets (\<lambda>s. bufs s b)) (\<lambda>x. case x of
       None \<Rightarrow> raise ValueError
     | Some a \<Rightarrow>
         bnd (voice_at i) (\<lambda>k. seqn (set_buffer k a)
           (modify (\<lambda>s. s\<lparr>assigned := (assigned s)(i \<mapsto> b)\<rparr>))))"

definition voice_sync :: "dsp_lib \<Rightarrow> int \<Rightarrow> int \<Rightarrow> flt \<Rightarrow> ('z norns_scheme, unit) py" where
  "voice_sync lib dst src offset = sync lib (dst - 1) (src - 1) offset"

definition level_cut_cut :: "int \<Rightarrow> int \<Rightarrow> flt \<Rightarrow> ('z norns_scheme, unit) py" where
  "level_cut_cut src dst amount = seqn (feedback (src - 1) (dst - 1) (Some amount)) (ret ())"

definition reset_all :: "('z norns_scheme, unit) py" where
  "reset_all =
     bnd (gets all_voices) (\<lambda>vs. seqn (for_each vs voice_reset)
       (bnd (gets nvoices) (\<lambda>n. for_each [1..n] (\<lambda>i. buffer i 1))))"

text \<open>The constructor (the engine's block size and channel count are the defaults).\<close>

definition new_norns ::
    "store \<Rightarrow> bool \<Rightarrow> flt \<Rightarrow> int \<Rightarrow> int \<Rightarrow> string \<Rightarrow> string \<Rightarrow> pyexc + norns" where
  "new_norns st dev sr nv buffer_frames mode quirks =
     ebind (new_engine st dev nv sr mode 512 2 (- 1) (- 1) quirks)
       (\<lambda>e. let n = next_power_of_two buffer_frames;
                m = bnd (new_arrays 2 n) (\<lambda>as.
                      seqn (modify (\<lambda>s. s\<lparr>bufs := [1 \<mapsto> as ! 0, 2 \<mapsto> as ! 1]\<rparr>))
                        (for_each [1..nv] (\<lambda>i. buffer i 1)))
            in case m (engine.extend e \<lparr>nsr = sr, nvoices = nv, bufs = (\<lambda>_. None), assigned = (\<lambda>_. None)\<rparr>) of
                 (Inl x, _) \<Rightarrow> Inl x | (Inr _, s) \<Rightarrow> Inr s)"

section \<open>Buffer operations\<close>

definition get_frames :: "flt \<Rightarrow> ('z norns_scheme, int) py" where
  "get_frames seconds = bnd (gets nsr) (\<lambda>sr. lift (seconds_to_frames seconds sr))"

text \<open>\<open>_apply\<close>: the blended in-place write of a source.\<close>

definition apply_src ::
    "aref \<Rightarrow> int \<Rightarrow> samples \<Rightarrow> flt \<Rightarrow> flt \<Rightarrow> int \<Rightarrow> ('z norns_scheme, unit) py" where
  "apply_src a start src preserve mix fade =
     edit_array a (\<lambda>d. buffer_apply d start (Some src) preserve mix fade (- 1))"

text \<open>\<open>int(round(x * file_sr))\<close> with an integer rate.\<close>

definition file_frames :: "flt \<Rightarrow> int \<Rightarrow> pyexc + int" where
  "file_frames x file_sr = ebind (float_of_int file_sr) (\<lambda>r. round_int (fmul F64 x r))"

text \<open>\<open>_channel\<close>: one channel of an interleaved file, from \<open>start_src\<close>, for \<open>dur\<close> or to its end.\<close>

definition file_channel ::
    "samples \<Rightarrow> int \<Rightarrow> int \<Rightarrow> flt \<Rightarrow> flt \<Rightarrow> int \<Rightarrow> pyexc + samples" where
  "file_channel data channels col start_src dur file_sr =
     (let tot = (if channels \<noteq> 0 then int (length data) div channels else 0)
      in ebind (file_frames start_src file_sr) (\<lambda>s0.
         let avail = max (tot - s0) 0
         in ebind (if flt_less dur (Fin 0) then Inr avail
                   else ebind (file_frames dur file_sr) (\<lambda>d. Inr (min d avail))) (\<lambda>n.
            let out = empty_samples n
            in if 0 < n then buffer_extract_channel out data channels col s0 tot else Inr out)))"

definition file_read :: "path \<Rightarrow> ('z norns_scheme, samples \<times> int \<times> int) py" where
  "file_read p = (\<lambda>s. (read_wav (files s) p, s))"

definition buffer_read_mono ::
    "path \<Rightarrow> flt \<Rightarrow> flt \<Rightarrow> flt \<Rightarrow> int \<Rightarrow> int \<Rightarrow> flt \<Rightarrow> flt \<Rightarrow> ('z norns_scheme, unit) py" where
  "buffer_read_mono p start_src start_dst dur ch_src ch_dst preserve mix =
     bnd (file_read p) (\<lambda>(data, channels, file_sr).
       let col = min (max ch_src 1) channels - 1
       in bnd (lift (file_channel data channels col start_src dur file_sr)) (\<lambda>src.
          bnd (get_buf ch_dst) (\<lambda>a.
          bnd (get_frames start_dst) (\<lambda>d0. apply_src a d0 src preserve mix 0))))"

definition buffer_read_stereo ::
    "path \<Rightarrow> flt \<Rightarrow> flt \<Rightarrow> flt \<Rightarrow> flt \<Rightarrow> flt \<Rightarrow> ('z norns_scheme, unit) py" where
  "buffer_read_stereo p start_src start_dst dur preserve mix =
     bnd (file_read p) (\<lambda>(data, channels, file_sr).
       bnd (get_frames start_dst) (\<lambda>d0.
         for_each BUFFERS (\<lambda>b.
           let col = min b channels - 1
           in bnd (lift (file_channel data channels col start_src dur file_sr)) (\<lambda>src.
              bnd (get_buf b) (\<lambda>a. apply_src a d0 src preserve mix 0)))))"

text \<open>\<open>buf[s0:]\<close> or \<open>buf[s0 : s0 + frames(dur)]\<close>\<close>

definition region :: "aref \<Rightarrow> int \<Rightarrow> flt \<Rightarrow> ('z norns_scheme, samples) py" where
  "region a s0 dur =
     (if flt_less dur (Fin 0) then gets (\<lambda>s. py_slice_from (mem s a) s0)
      else bnd (get_frames dur) (\<lambda>d. gets (\<lambda>s. py_slice (mem s a) s0 (s0 + d))))"

definition host_rate :: "('z norns_scheme, int) py" where
  "host_rate = bnd (gets nsr) (\<lambda>sr. lift (trunc_int sr))"

definition buffer_write_mono :: "path \<Rightarrow> flt \<Rightarrow> flt \<Rightarrow> int \<Rightarrow> ('z norns_scheme, unit) py" where
  "buffer_write_mono p start dur ch =
     bnd (get_buf ch) (\<lambda>a. bnd (get_frames start) (\<lambda>s0. bnd (region a s0 dur) (\<lambda>seg.
       bnd host_rate (\<lambda>rate. seqn (write_wav p (array_view seg) rate None) (ret ())))))"

text \<open>\<open>frames[0::2] = a; frames[1::2] = b\<close> on two segments of the same length.\<close>

definition interleave :: "samples \<Rightarrow> samples \<Rightarrow> samples" where
  "interleave a b = concat (map (\<lambda>(x, y). [x, y]) (zip a b))"

definition buffer_write_stereo :: "path \<Rightarrow> flt \<Rightarrow> flt \<Rightarrow> ('z norns_scheme, unit) py" where
  "buffer_write_stereo p start dur =
     bnd (get_frames start) (\<lambda>s0.
     bnd (get_buf 1) (\<lambda>a1. bnd (get_buf 2) (\<lambda>a2.
     bnd (region a1 s0 dur) (\<lambda>a. bnd (region a2 s0 dur) (\<lambda>b.
       let n = min (length a) (length b)
       in bnd host_rate (\<lambda>rate.
          seqn (write_wav p (array_view (interleave (take n a) (take n b))) rate (Some 2)) (ret ())))))))"

definition clear_region_of :: "int \<Rightarrow> flt \<Rightarrow> flt \<Rightarrow> flt \<Rightarrow> flt \<Rightarrow> ('z norns_scheme, unit) py" where
  "clear_region_of ch start dur fade_time preserve =
     bnd (get_buf ch) (\<lambda>a. bnd (get_frames start) (\<lambda>s0.
     bnd (if flt_less dur (Fin 0) then gets (\<lambda>s. int (length (mem s a)) - s0) else get_frames dur) (\<lambda>cnt.
     bnd (get_frames fade_time) (\<lambda>fd.
       edit_array a (\<lambda>d. buffer_apply d s0 None preserve (Fin 0) fd (max cnt 0))))))"

definition buffer_clear_channel :: "int \<Rightarrow> ('z norns_scheme, unit) py" where
  "buffer_clear_channel ch = clear_region_of ch (Fin 0) (Fin (- 1)) (Fin 0) (Fin 0)"

definition buffer_clear :: "('z norns_scheme, unit) py" where
  "buffer_clear = for_each BUFFERS buffer_clear_channel"

definition buffer_clear_region :: "flt \<Rightarrow> flt \<Rightarrow> flt \<Rightarrow> flt \<Rightarrow> ('z norns_scheme, unit) py" where
  "buffer_clear_region start dur fade_time preserve =
     for_each BUFFERS (\<lambda>b. clear_region_of b start dur fade_time preserve)"

definition buffer_clear_region_channel ::
    "int \<Rightarrow> flt \<Rightarrow> flt \<Rightarrow> flt \<Rightarrow> flt \<Rightarrow> ('z norns_scheme, unit) py" where
  "buffer_clear_region_channel ch start dur fade_time preserve =
     clear_region_of ch start dur fade_time preserve"

definition buffer_copy_mono ::
    "int \<Rightarrow> int \<Rightarrow> flt \<Rightarrow> flt \<Rightarrow> flt \<Rightarrow> flt \<Rightarrow> flt \<Rightarrow> bool \<Rightarrow> ('z norns_scheme, unit) py" where
  "buffer_copy_mono src_ch dst_ch start_src start_dst dur fade_time preserve reverse =
     bnd (get_buf src_ch) (\<lambda>sa. bnd (get_frames start_src) (\<lambda>ss.
     bnd (if flt_less dur (Fin 0) then gets (\<lambda>s. int (length (mem s sa)) - ss) else get_frames dur) (\<lambda>cnt.
     bnd (gets (\<lambda>s. py_slice (mem s sa) ss (ss + max cnt 0))) (\<lambda>seg.
     bnd (get_buf dst_ch) (\<lambda>da. bnd (get_frames start_dst) (\<lambda>d0. bnd (get_frames fade_time) (\<lambda>fd.
       apply_src da d0 (if reverse then rev seg else seg) preserve (Fin 1) fd)))))))"

definition buffer_copy_stereo ::
    "flt \<Rightarrow> flt \<Rightarrow> flt \<Rightarrow> flt \<Rightarrow> flt \<Rightarrow> bool \<Rightarrow> ('z norns_scheme, unit) py" where
  "buffer_copy_stereo start_src start_dst dur fade_time preserve reverse =
     for_each BUFFERS (\<lambda>b. buffer_copy_mono b b start_src start_dst dur fade_time preserve reverse)"

section \<open>Engine control\<close>

definition norns_start :: "('z norns_scheme, unit) py" where
  "norns_start = engine_start"

definition norns_stop :: "('z norns_scheme, unit) py" where
  "norns_stop = engine_stop"

definition norns_render ::
    "dsp_lib \<Rightarrow> aref option \<Rightarrow> aref option \<Rightarrow> flt option \<Rightarrow> ('z norns_scheme, aref) py" where
  "norns_render lib inp out seconds = render lib inp out seconds"

section \<open>Buffer operations work in place\<close>

datatype buf_op =
    ReadMono path flt flt flt int int flt flt
  | ReadStereo path flt flt flt flt flt
  | WriteMono path flt flt int
  | WriteStereo path flt flt
  | Clear
  | ClearChannel int
  | ClearRegion flt flt flt flt
  | ClearRegionChannel int flt flt flt flt
  | CopyMono int int flt flt flt flt flt bool
  | CopyStereo flt flt flt flt flt bool

fun buf_exec :: "buf_op \<Rightarrow> ('z norns_scheme, unit) py" where
  "buf_exec (ReadMono p ss sd d cs cd pre mx) = buffer_read_mono p ss sd d cs cd pre mx"
| "buf_exec (ReadStereo p ss sd d pre mx) = buffer_read_stereo p ss sd d pre mx"
| "buf_exec (WriteMono p st d ch) = buffer_write_mono p st d ch"
| "buf_exec (WriteStereo p st d) = buffer_write_stereo p st d"
| "buf_exec Clear = buffer_clear"
| "buf_exec (ClearChannel ch) = buffer_clear_channel ch"
| "buf_exec (ClearRegion st d f pre) = buffer_clear_region st d f pre"
| "buf_exec (ClearRegionChannel ch st d f pre) = buffer_clear_region_channel ch st d f pre"
| "buf_exec (CopyMono cs cd ss sd d f pre r) = buffer_copy_mono cs cd ss sd d f pre r"
| "buf_exec (CopyStereo ss sd d f pre r) = buffer_copy_stereo ss sd d f pre r"

text \<open>The buffers an operation may write.\<close>

fun buf_targets :: "buf_op \<Rightarrow> int set" where
  "buf_targets (ReadMono p ss sd d cs cd pre mx) = {cd}"
| "buf_targets (WriteMono p st d ch) = {}"
| "buf_targets (WriteStereo p st d) = {}"
| "buf_targets (ClearChannel ch) = {ch}"
| "buf_targets (ClearRegionChannel ch st d f pre) = {ch}"
| "buf_targets (CopyMono cs cd ss sd d f pre r) = {cd}"
| "buf_targets _ = {1, 2}"

text \<open>
  \<open>in_place s B t\<close>: from \<open>s\<close> to \<open>t\<close> only samples and files changed, no array was resized, and
  only the arrays of the buffers in \<open>B\<close> were written.
\<close>

definition in_place :: "'z norns_scheme \<Rightarrow> int set \<Rightarrow> 'z norns_scheme \<Rightarrow> bool" where
  "in_place s B t \<longleftrightarrow> (\<exists>M F. t = s\<lparr>mem := M, files := F\<rparr>
     \<and> (\<forall>a. length (M a) = length (mem s a))
     \<and> (\<forall>a. (\<forall>b \<in> B. bufs s b \<noteq> Some a) \<longrightarrow> M a = mem s a))"

lemma in_placeE:
  assumes "in_place s B t"
  obtains M F where "t = s\<lparr>mem := M, files := F\<rparr>" "\<And>a. length (M a) = length (mem s a)"
    "\<And>a. (\<And>b. b \<in> B \<Longrightarrow> bufs s b \<noteq> Some a) \<Longrightarrow> M a = mem s a"
  using assms unfolding in_place_def by blast

lemma in_place_refl: "in_place s B s"
  unfolding in_place_def by (intro exI [of _ "mem s"] exI [of _ "files s"]) simp

lemma in_place_host: "in_place s B t \<Longrightarrow> bufs t = bufs s" "in_place s B t \<Longrightarrow> nsr t = nsr s"
  by (auto elim: in_placeE)

lemma keeps_get_buf:
  assumes "\<And>a. bufs s b = Some a \<Longrightarrow> keeps (in_place s B) (k a)"
  shows "keeps (in_place s B) (bnd (get_buf b) k)"
proof (rule keepsI)
  fix t
  assume t: "in_place s B t"
  then have "bufs t = bufs s"
    by (rule in_place_host)
  then show "in_place s B (snd (bnd (get_buf b) k t))"
    using t assms
    by (cases "bufs s b") (auto simp: get_buf_def bnd_def keeps_def)
qed

lemma buffer_apply_length: "buffer_apply d st src pre mx f c = Inr d' \<Longrightarrow> length d' = length d"
  by (auto simp: buffer_apply_def Let_def apply_to_buffer_eq split: if_splits)

lemma keeps_edit_in_place:
  assumes "b \<in> B" "bufs s b = Some a" "\<And>d d'. f d = Inr d' \<Longrightarrow> length d' = length d"
  shows "keeps (in_place s B) (edit_array a f)"
proof (rule keepsI)
  fix t
  assume t: "in_place s B t"
  show "in_place s B (snd (edit_array a f t))"
  proof (cases "f (mem t a)")
    case (Inl e)
    with t show ?thesis by (simp add: edit_array_def)
  next
    case (Inr xs)
    from t obtain M F where M: "t = s\<lparr>mem := M, files := F\<rparr>" "\<And>a. length (M a) = length (mem s a)"
      "\<And>a. (\<And>b. b \<in> B \<Longrightarrow> bufs s b \<noteq> Some a) \<Longrightarrow> M a = mem s a"
      unfolding in_place_def by blast
    have "length xs = length (M a)"
      using assms(3) [OF Inr] M(1) by simp
    then have "in_place s B (put_array a xs t)"
      unfolding in_place_def
      using M assms(1,2) by (intro exI [of _ "M(a := xs)"] exI [of _ F]) (auto simp: put_array_def)
    then show ?thesis
      using Inr by (simp add: edit_array_def)
  qed
qed

lemma keeps_files_in_place:
  assumes "\<And>t. mem (snd (m t)) = mem t \<and> store.more (snd (m t)) = store.more t \<and> brk (snd (m t)) = brk t"
  shows "keeps (in_place s B) m"
proof (rule keepsI)
  fix t
  assume "in_place s B t"
  then obtain M F where M: "t = s\<lparr>mem := M, files := F\<rparr>" "\<And>a. length (M a) = length (mem s a)"
      "\<And>a. (\<And>b. b \<in> B \<Longrightarrow> bufs s b \<noteq> Some a) \<Longrightarrow> M a = mem s a"
    unfolding in_place_def by blast
  have "snd (m t) = s\<lparr>mem := M, files := files (snd (m t))\<rparr>"
    using assms [of t] M(1) by (intro store.equality) simp_all
  then show "in_place s B (snd (m t))"
    unfolding in_place_def using M(2,3) by blast
qed

lemma write_wav_brk: "brk (snd (write_wav p v sr ch s)) = brk s"
  and write_wav_mem: "mem (snd (write_wav p v sr ch s)) = mem s"
  and write_wav_more: "store.more (snd (write_wav p v sr ch s)) = store.more s"
  by (cases rule: write_wav_cases [of v ch p sr s]; simp add: wave_write_frame)+

lemma keeps_write_wav: "keeps (in_place s B) (write_wav p v sr ch)"
  by (rule keeps_files_in_place) (simp add: write_wav_brk write_wav_mem write_wav_more)

lemma keeps_clear_in_place: "ch \<in> B \<Longrightarrow> keeps (in_place s B) (clear_region_of ch start dur fd pre)"
  unfolding clear_region_of_def get_frames_def
  by (rule keeps_get_buf) (intro keeps_intro keeps_edit_in_place; auto dest: buffer_apply_length)

end
