(* ===== verification/Norns_Buffers.thy ===== *)
theory Norns_Buffers
  imports Norns_Host
begin

text \<open>
  The buffer and disk operations of the norns host as the user sees them: they work in place
  on the two global buffers whatever their arguments and outcome, times on the frame grid are
  exact, clearing silences, copying moves exactly the requested frames, and a saved buffer reads
  back up to the 16-bit quantisation.
\<close>

lemma keeps_copy_in_place: "cd \<in> B \<Longrightarrow> keeps (in_place s B) (buffer_copy_mono cs cd ss sd d f pre r)"
  unfolding buffer_copy_mono_def get_frames_def apply_src_def
  by (rule keeps_get_buf) (intro keeps_intro keeps_get_buf keeps_edit_in_place; auto dest: buffer_apply_length)

lemma keeps_read_mono_in_place:
  "cd \<in> B \<Longrightarrow> keeps (in_place s B) (buffer_read_mono p ss sd d cs cd pre mx)"
  unfolding buffer_read_mono_def get_frames_def apply_src_def file_read_def Let_def
  by (intro keeps_intro keeps_get_buf keeps_edit_in_place keeps_files_in_place; auto dest: buffer_apply_length)

lemma keeps_read_stereo_in_place:
  "set BUFFERS \<subseteq> B \<Longrightarrow> keeps (in_place s B) (buffer_read_stereo p ss sd d pre mx)"
  unfolding buffer_read_stereo_def get_frames_def apply_src_def file_read_def Let_def
  by (intro keeps_intro keeps_get_buf keeps_edit_in_place keeps_files_in_place; auto dest: buffer_apply_length)

lemma keeps_writes_in_place:
  "keeps (in_place s B) (buffer_write_mono p st d ch)"
  "keeps (in_place s B) (buffer_write_stereo p st d)"
  unfolding buffer_write_mono_def buffer_write_stereo_def get_frames_def region_def host_rate_def Let_def
  by (intro keeps_intro keeps_get_buf keeps_write_wav)+

lemma buf_exec_in_place: "keeps (in_place s (buf_targets op)) (buf_exec op)"
proof (cases op)
  case Clear
  show ?thesis
    unfolding Clear buf_exec.simps buffer_clear_def buffer_clear_channel_def BUFFERS_def
    by (intro keeps_for_each keeps_clear_in_place) auto
next
  case (ClearRegion st d f pre)
  show ?thesis
    unfolding ClearRegion buf_exec.simps buffer_clear_region_def BUFFERS_def
    by (intro keeps_for_each keeps_clear_in_place) auto
next
  case (CopyStereo ss sd d f pre r)
  show ?thesis
    unfolding CopyStereo buf_exec.simps buffer_copy_stereo_def BUFFERS_def
    by (intro keeps_for_each keeps_copy_in_place) auto
qed (simp_all add: keeps_read_mono_in_place keeps_read_stereo_in_place keeps_writes_in_place
    keeps_clear_in_place keeps_copy_in_place buffer_clear_channel_def
    buffer_clear_region_channel_def BUFFERS_def)

text \<open>C25. Every buffer operation of the host works in place: no array of the store is resized
  (so the masked heads of a running engine stay inside), only the arrays of the buffers the
  operation names are written, and apart from samples and files the engine is untouched.\<close>

theorem buffer_ops_in_place:
  "length (mem (snd (buf_exec op s)) a) = length (mem s a)
   \<and> ((\<forall>b \<in> buf_targets op. bufs s b \<noteq> Some a) \<longrightarrow> mem (snd (buf_exec op s)) a = mem s a)
   \<and> (\<exists>F. snd (buf_exec op s) = s\<lparr>mem := mem (snd (buf_exec op s)), files := F\<rparr>)"
proof -
  have "in_place s (buf_targets op) (snd (buf_exec op s))"
    using buf_exec_in_place in_place_refl by (rule keepsD)
  then show ?thesis
    by (auto elim!: in_placeE)
qed

definition small_host :: norns where
  "small_host = engine.extend (bare_engine [])
     \<lparr>nsr = Fin 48000, nvoices = 0, bufs = [1 \<mapsto> 0, 2 \<mapsto> 1], assigned = (\<lambda>_. None)\<rparr>
     \<lparr>mem := (\<lambda>_. [])(0 := [Fin 1, Fin 1, Fin 0, Fin 0], 1 := [Fin 1, Fin 0, Fin 1, Fin 0])\<rparr>"

lemma small_host_simps [simp]:
  "bufs small_host = [1 \<mapsto> 0, 2 \<mapsto> 1]" "nsr small_host = Fin 48000"
  "mem small_host = (\<lambda>_. [])(0 := [Fin 1, Fin 1, Fin 0, Fin 0], 1 := [Fin 1, Fin 0, Fin 1, Fin 0])"
  by (simp_all add: small_host_def engine.defs)

theorem buffer_ops_in_place_witness:
  "mem (snd (buf_exec (ClearChannel 1) small_host)) 1 = [Fin 1, Fin 0, Fin 1, Fin 0]"
  using buffer_ops_in_place [of "ClearChannel 1" small_host 1] by simp

section \<open>Frames and seconds\<close>

lemma frames_zero: "nsr s = Fin r \<Longrightarrow> get_frames (Fin 0) s = (Inr 0, s)"
  by (simp add: get_frames_def seconds_to_frames_def round_int_def py_simps)

lemma rnd_error64:
  assumes "1 / 2 ^ 40 \<le> x" "x \<le> 2 ^ 60"
  shows "\<exists>q. rnd F64 x = Fin q \<and> \<bar>q - x\<bar> \<le> x / 2 ^ 53"
proof -
  have "0 < 1 / (2 :: rat) ^ 40" by simp
  then have x: "\<bar>x\<bar> = x"
    using assms(1) by linarith
  have "pow2 (emin F64 + int (prec F64) - 1) \<le> pow2 (- 40)"
    by (subst pow2_le_iff) simp
  also have "\<dots> = 1 / 2 ^ 40"
    by (simp add: power_int_minus inverse_eq_divide)
  also have "\<dots> \<le> \<bar>x\<bar>"
    using assms(1) x by simp
  finally have 1: "pow2 (emin F64 + int (prec F64) - 1) \<le> \<bar>x\<bar>" .
  have "(2 :: rat) ^ 60 \<le> 2 ^ (elim F64 - 1)"
    by (rule power_increasing) simp_all
  then have "\<bar>x\<bar> \<le> 2 ^ (elim F64 - 1)"
    using assms(2) x by linarith
  from rnd_error [OF 1 this] show ?thesis using x by simp
qed

text \<open>Times on the frame grid are exact: \<open>n / sr\<close> seconds, computed in binary64, is \<open>n\<close>
  frames again, for every integer rate below 2^32 and every length below 2^50 frames.\<close>

theorem frames_on_grid:
  assumes "0 \<le> n" "n \<le> 2 ^ 50" "1 \<le> sr" "sr \<le> 2 ^ 32"
  shows "seconds_to_frames (rnd F64 (of_int n / of_int sr)) (Fin (of_int sr)) = Inr n"
proof (cases "n = 0")
  case True
  then show ?thesis by (simp add: seconds_to_frames_def round_int_def)
next
  case False
  let ?n = "of_int n :: rat" and ?r = "of_int sr :: rat"
  have n: "1 \<le> ?n" "?n \<le> 2 ^ 50"
    using assms(1,2) False of_int_le_iff [of 1 n, where ?'a = rat] of_int_le_iff [of n "2 ^ 50", where ?'a = rat]
    by simp_all
  have r: "1 \<le> ?r" "?r \<le> 2 ^ 32"
    using assms(3,4) of_int_le_iff [of 1 sr, where ?'a = rat] of_int_le_iff [of sr "2 ^ 32", where ?'a = rat]
    by simp_all
  have "1 / 2 ^ 40 \<le> ?n / ?r" "?n / ?r \<le> ?n"
    using n r by (simp_all add: field_simps)
  moreover from this(2) n(2) have "?n / ?r \<le> 2 ^ 60"
    by (rule order.trans [OF order.trans]) simp
  ultimately obtain q where q: "rnd F64 (?n / ?r) = Fin q" "\<bar>q - ?n / ?r\<bar> \<le> ?n / ?r / 2 ^ 53"
    using rnd_error64 [of "?n / ?r"] by metis
  have "q * ?r - ?n = (q - ?n / ?r) * ?r" "\<bar>?r\<bar> = ?r"
    using r(1) by (simp_all add: left_diff_distrib)
  then have "\<bar>q * ?r - ?n\<bar> = \<bar>q - ?n / ?r\<bar> * ?r"
    by (simp only: abs_mult)
  also have "\<dots> \<le> ?n / ?r / 2 ^ 53 * ?r"
    using q(2) r by (intro mult_right_mono) simp_all
  also have "\<dots> \<le> 1 / 8"
    using n r by (simp add: field_simps)
  finally have e: "\<bar>q * ?r - ?n\<bar> \<le> 1 / 8" .
  then have "1 / 2 \<le> q * ?r" "q * ?r \<le> 2 ^ 50 + 1 / 8"
    using e n by linarith+
  moreover have "(2 :: rat) ^ 50 + 1 / 8 \<le> 2 ^ 51" by simp
  ultimately have y: "1 / 2 \<le> q * ?r" "q * ?r \<le> 2 ^ 51"
    by (blast intro: order.trans)+
  have "1 / 2 ^ 40 \<le> q * ?r"
    by (rule order.trans [OF _ y(1)]) simp
  moreover have "q * ?r \<le> 2 ^ 60"
    by (rule order.trans [OF y(2)]) simp
  ultimately obtain z where z: "rnd F64 (q * ?r) = Fin z" "\<bar>z - q * ?r\<bar> \<le> q * ?r / 2 ^ 53"
    using rnd_error64 [of "q * ?r"] by metis
  have "q * ?r / 2 ^ 53 \<le> 2 ^ 51 / 2 ^ 53"
    using y(2) by (rule divide_right_mono) simp
  moreover have "(2 :: rat) ^ 51 / 2 ^ 53 = 1 / 4" by simp
  ultimately have "\<bar>z - ?n\<bar> < 1 / 2"
    using e z(2) by linarith
  then have "rne z = n"
    by (rule rne_near)
  then show ?thesis
    using q(1) z(1) by (simp add: seconds_to_frames_def round_int_def)
qed


section \<open>Clearing\<close>

lemma apply_silence_all:
  "blended d 0 None (int (length d)) (Fin 0) mix 0 = replicate (length d) (Fin 0)"
proof (rule nth_equalityI)
  fix k
  assume "k < length (blended d 0 None (int (length d)) (Fin 0) mix 0)"
  then show "blended d 0 None (int (length d)) (Fin 0) mix 0 ! k = replicate (length d) (Fin 0) ! k"
    using apply_silent_nth [of 0 0 k d "int (length d)" "Fin 0" mix] by simp
qed simp

lemma clear_channel:
  assumes "bufs s ch = Some a" "nsr s = Fin r" "length (mem s a) < 2 ^ 63"
  shows "buffer_clear_channel ch s = (Inr (), put_array a (replicate (length (mem s a)) (Fin 0)) s)"
proof -
  have "int (length (mem s a)) < int (2 ^ 63)"
    using assms(3) by (subst of_nat_less_iff)
  then have "buffer_apply (mem s a) 0 None (Fin 0) (Fin 0) 0 (int (length (mem s a)))
      = Inr (replicate (length (mem s a)) (Fin 0))"
    by (simp add: buffer_apply_def int64_def apply_silence_all)
  then show ?thesis
    using assms(1,2)
    by (simp add: buffer_clear_channel_def clear_region_of_def get_buf_def bnd_def frames_zero
        gets_def edit_array_def)
qed

text \<open>Clearing empties both global buffers whatever they hold, infinities and NaNs
  included, keeps their lengths, and changes nothing else.\<close>

theorem buffer_clear_silences:
  assumes "bufs s 1 = Some a" "bufs s 2 = Some b" "a \<noteq> b" "nsr s = Fin r"
    and "length (mem s a) < 2 ^ 63" "length (mem s b) < 2 ^ 63"
  shows "buffer_clear s = (Inr (), s\<lparr>mem := (mem s)
     (a := replicate (length (mem s a)) (Fin 0), b := replicate (length (mem s b)) (Fin 0))\<rparr>)"
proof -
  let ?s = "put_array a (replicate (length (mem s a)) (Fin 0)) s"
  have "buffer_clear_channel 1 s = (Inr (), ?s)"
    using assms by (intro clear_channel)
  moreover have "buffer_clear_channel 2 ?s
      = (Inr (), put_array b (replicate (length (mem ?s b)) (Fin 0)) ?s)"
    using assms by (intro clear_channel) (simp_all add: put_array_def)
  ultimately show ?thesis
    using assms(3) by (simp add: buffer_clear_def BUFFERS_def py_simps bnd_Inr put_array_def)
qed

section \<open>Copying\<close>

text \<open>A source laid over finite samples with nothing preserved and no fade replaces them.\<close>

lemma apply_replace:
  assumes "0 \<le> start" "start + int (length xs) \<le> int (length d)" "k < length d"
    and "\<forall>x \<in> set d. finite_flt x" "\<forall>x \<in> set xs. is_flt F32 x"
  shows "blended d start (Some xs) (int (length xs)) (Fin 0) (Fin 1) 0 ! k =
     (if nat start \<le> k \<and> k < nat start + length xs then xs ! (k - nat start) else d ! k)"
proof (cases "start \<le> int k \<and> int k < start + int (length xs)")
  case True
  then have k: "nat start \<le> k" "k < nat start + length xs"
    using assms(1) by linarith+
  have "fadd F32 (fmul F32 (d ! k) (Fin 0)) (fmul F32 (xs ! (k - nat start)) (Fin 1)) = xs ! (k - nat start)"
    using assms(3-5) k by (simp add: fmul_zero fmul_one fadd_zero_left)
  then show ?thesis
    using True k assms by (simp add: apply_src_nth)
next
  case False
  then have "\<not> (nat start \<le> k \<and> k < nat start + length xs)"
    using assms(1) by linarith
  moreover have "int k < max start 0 \<or> max start 0 + write_count (int (length d)) start (int (length xs)) \<le> int k"
    using False assms(1) by (auto simp: write_count_def trim_off_def)
  ultimately show ?thesis
    using apply_outside [OF assms(3)] by auto
qed

lemma nth_slice_segment:
  assumes "i < n" "p + n \<le> length xs"
  shows "take n (drop p xs) ! i = xs ! (p + i)" "rev (take n (drop p xs)) ! i = xs ! (p + n - 1 - i)"
proof -
  show "take n (drop p xs) ! i = xs ! (p + i)"
    using assms by simp
  have "n - 1 - i < n" "p + (n - 1 - i) = p + n - 1 - i"
    using assms(1) by linarith+
  then show "rev (take n (drop p xs)) ! i = xs ! (p + n - 1 - i)"
    using assms by (simp add: rev_nth)
qed

text \<open>C40. Copying between (or within) buffers with nothing preserved and no fade moves exactly the
  requested frames, reversed when asked to, and leaves every other frame of the destination
  alone. The source is read before anything is written, so overlapping regions of one buffer
  are copied as they were.\<close>

theorem buffer_copy_moves:
  assumes "bufs s cs = Some a" "bufs s cd = Some b" "nsr s = Fin r"
    and "seconds_to_frames ss (nsr s) = Inr (int p)" "seconds_to_frames sd (nsr s) = Inr (int q)"
    and "seconds_to_frames dur (nsr s) = Inr (int n)" "\<not> flt_less dur (Fin 0)"
    and "p + n \<le> length (mem s a)" "q + n \<le> length (mem s b)" "length (mem s b) < 2 ^ 63"
    and "\<forall>x \<in> set (mem s b). finite_flt x" "\<forall>x \<in> set (mem s a). is_flt F32 x"
    and "buffer_copy_mono cs cd ss sd dur (Fin 0) (Fin 0) reverse s = (res, t)" "k < length (mem s b)"
  shows "res = Inr () \<and> length (mem t b) = length (mem s b) \<and> mem t b ! k =
     (if q \<le> k \<and> k < q + n
      then if reverse then mem s a ! (p + n - 1 - (k - q)) else mem s a ! (p + (k - q))
      else mem s b ! k)"
proof -
  let ?seg = "take n (drop p (mem s a))"
  define src where "src = (if reverse then rev ?seg else ?seg)"
  have len: "length src = n" and flt: "\<forall>x \<in> set src. is_flt F32 x"
    using assms(8,12) by (auto simp: src_def dest!: in_set_takeD in_set_dropD)
  have "int (length (mem s b)) < int (2 ^ 63)"
    using assms(10) by (subst of_nat_less_iff)
  then have i64: "int64 (int q)" "int64 0" "int64 (- 1)"
    using assms(9) by (simp_all add: int64_def)
  let ?d = "blended (mem s b) (int q) (Some src) (int (length src)) (Fin 0) (Fin 1) 0"
  have "edit_array b (\<lambda>d. buffer_apply d (int q) (Some src) (Fin 0) (Fin 1) 0 (- 1)) s = (Inr (), put_array b ?d s)"
    using i64 by (simp add: edit_array_def buffer_apply_def)
  moreover have "get_frames ss s = (Inr (int p), s)" "get_frames sd s = (Inr (int q), s)"
      "get_frames dur s = (Inr (int n), s)" "get_frames (Fin 0) s = (Inr 0, s)"
    using assms(3-6) frames_zero [OF assms(3)] by (simp_all add: get_frames_def py_simps)
  moreover have eq: "(if reverse then rev (py_slice (mem s a) (int p) (int p + max (int n) 0))
      else py_slice (mem s a) (int p) (int p + max (int n) 0)) = src"
    by (simp add: src_def slice_nonneg)
  ultimately have "buffer_copy_mono cs cd ss sd dur (Fin 0) (Fin 0) reverse s = (Inr (), put_array b ?d s)"
    using assms(1,2,7) eq
    by (simp add: buffer_copy_mono_def get_buf_def apply_src_def bnd_def gets_def split del: if_split)
  then have t: "res = Inr ()" "mem t b = ?d"
    using assms(13) by auto
  have "?d ! k = (if nat (int q) \<le> k \<and> k < nat (int q) + length src then src ! (k - nat (int q)) else mem s b ! k)"
    using assms(9,11,14) flt len by (intro apply_replace) simp_all
  then show ?thesis
    unfolding t using nth_slice_segment [of "k - q" n p "mem s a"] assms(8) len
    by (auto simp: src_def)
qed

lemma is_flt_one [simp]: "is_flt f (Fin 1)"
  using rep_int [of 1 f] by (simp add: is_flt_def)

theorem buffer_copy_moves_witness:
  "mem (snd (buffer_copy_mono 1 1 (Fin 0) (Fin (1 / 48000)) (Fin (1 / 24000)) (Fin 0) (Fin 0) False small_host)) 0
   ! 2 = Fin 1"
proof -
  have "rne 1 = 1" "rne 2 = 2"
    using rne_of_int [of 1] rne_of_int [of 2] by simp_all
  then have "seconds_to_frames (Fin 0) (Fin 48000) = Inr (int 0)"
      "seconds_to_frames (Fin (1 / 48000)) (Fin 48000) = Inr (int 1)"
      "seconds_to_frames (Fin (1 / 24000)) (Fin 48000) = Inr (int 2)"
    using rep_int [of 1 F64] rep_int [of 2 F64]
    by (simp_all add: seconds_to_frames_def round_int_def rnd_rep)
  then show ?thesis
    using buffer_copy_moves [of small_host 1 0 1 0 48000 "Fin 0" 0 "Fin (1 / 48000)" 1 "Fin (1 / 24000)" 2
        False "fst (buffer_copy_mono 1 1 (Fin 0) (Fin (1 / 48000)) (Fin (1 / 24000)) (Fin 0) (Fin 0) False small_host)"
        "snd (buffer_copy_mono 1 1 (Fin 0) (Fin (1 / 48000)) (Fin (1 / 24000)) (Fin 0) (Fin 0) False small_host)" 2]
    by simp
qed

section \<open>Saving and loading\<close>

lemma int64_length: "length xs < 2 ^ 63 \<Longrightarrow> n \<le> length xs \<Longrightarrow> int64 (int n)"
proof -
  assume "length xs < 2 ^ 63" "n \<le> length xs"
  then have "int n < int (2 ^ 63)"
    by (subst of_nat_less_iff) linarith
  then show "int64 (int n)" by (simp add: int64_def)
qed

lemma rate_float:
  assumes "0 < sr" "sr < 2 ^ 32"
  shows "float_of_int sr = Inr (Fin (of_int sr))"
proof -
  have "\<bar>sr\<bar> \<le> 2 ^ prec F64"
    using assms by simp
  then show ?thesis
    using rnd_rep [OF rep_int] by (simp add: float_of_int_def)
qed

text \<open>The whole of a mono file, from its start.\<close>

lemma file_channel_all:
  assumes "0 < sr" "sr < 2 ^ 32" "length data < 2 ^ 63"
  shows "file_channel data 1 0 (Fin 0) (Fin (- 1)) sr = Inr data"
proof -
  have s0: "file_frames (Fin 0) sr = Inr 0"
    using assms by (simp add: file_frames_def rate_float round_int_def)
  have i: "int64 0" "int64 (int (length data))"
    using int64_length [OF assms(3)] by (simp_all add: int64_def)
  have "extract_channel_into (length data) data 1 0 0 (int (length data)) = data"
    by (rule nth_equalityI) (simp_all add: extract_channel_into_def)
  then have "buffer_extract_channel (empty_samples (int (length data))) data 1 0 0 (int (length data)) = Inr data"
    using i by (simp add: buffer_extract_channel_def empty_samples_def)
  then show ?thesis
    using s0 by (simp add: file_channel_def empty_samples_def Let_def)
qed

text \<open>A load from the start of a mono file lays its samples over the destination.\<close>

lemma load_mono:
  assumes "read_wav (files t) path = Inr (data, 1, sr)" "0 < sr" "sr < 2 ^ 32"
    and "bufs t cd = Some b" "seconds_to_frames sd (nsr t) = Inr (int q)"
    and "q + length data \<le> length (mem t b)" "length (mem t b) < 2 ^ 63"
  shows "buffer_read_mono path (Fin 0) sd (Fin (- 1)) ch cd (Fin 0) (Fin 1) t =
    (Inr (), put_array b (blended (mem t b) (int q) (Some data) (int (length data)) (Fin 0) (Fin 1) 0) t)"
proof -
  have "file_channel data 1 0 (Fin 0) (Fin (- 1)) sr = Inr data"
    using assms by (intro file_channel_all) simp_all
  moreover have "min (max ch 1) 1 - 1 = (0 :: int)" by simp
  moreover have "int64 (int q)" "int64 0" "int64 (- 1)"
    using int64_length [OF assms(7)] assms(6) by (simp_all add: int64_def)
  ultimately show ?thesis
    using assms(1,4,5)
    by (simp add: buffer_read_mono_def file_read_def get_buf_def get_frames_def apply_src_def
        edit_array_def buffer_apply_def bnd_def gets_def lift_def)
qed

text \<open>A save writes the requested frames of the buffer and touches no array.\<close>

lemma save_mono:
  assumes "bufs s ch = Some a" "seconds_to_frames start (nsr s) = Inr (int p)"
    and "seconds_to_frames dur (nsr s) = Inr (int n)" "\<not> flt_less dur (Fin 0)"
    and "buffer_write_mono path start dur ch s = (Inr (), t)"
  shows "\<exists>rate r. write_wav path (array_view (take n (drop p (mem s a)))) rate None s = (Inr r, t)"
proof -
  have "py_slice (mem s a) (int p) (int p + int n) = take n (drop p (mem s a))"
    by (simp add: slice_nonneg)
  then show ?thesis
    using assms
    by (auto simp: buffer_write_mono_def get_buf_def get_frames_def region_def host_rate_def bnd_def
        gets_def lift_def ret_def split: sum.splits prod.splits)
qed

lemma write_wav_host:
  assumes "write_wav p v sr ch (s :: 'z norns_scheme) = (r, t)"
  shows "mem t = mem s" "bufs t = bufs s" "nsr t = nsr s"
proof -
  have "in_place s {} (snd (write_wav p v sr ch s))"
    using keeps_write_wav in_place_refl by (rule keepsD)
  then have "in_place s {} t"
    using assms by simp
  then show "mem t = mem s" "bufs t = bufs s" "nsr t = nsr s"
    by (auto elim!: in_placeE)
qed

text \<open>C27. Saving a region of a buffer and loading the file gives the region back: with nothing
  preserved the loaded frames are within 2^-14 of what was saved, for samples of [-1, 1], and the
  rest of the destination keeps its frames. The file may be loaded anywhere it fits, into the
  same buffer or the other.\<close>

theorem save_load_roundtrip:
  assumes "bufs s ch = Some a" "seconds_to_frames start (nsr s) = Inr (int p)"
    and "seconds_to_frames dur (nsr s) = Inr (int n)" "\<not> flt_less dur (Fin 0)"
    and "p + n \<le> length (mem s a)"
    and "buffer_write_mono path start dur ch s = (Inr (), t)"
    and "bufs s cd = Some b" "seconds_to_frames sd (nsr s) = Inr (int q)"
    and "q + n \<le> length (mem s b)" "length (mem s b) < 2 ^ 63" "\<forall>x \<in> set (mem s b). finite_flt x"
    and "buffer_read_mono path (Fin 0) sd (Fin (- 1)) src cd (Fin 0) (Fin 1) t = (res, u)"
  shows "res = Inr () \<and> length (mem u b) = length (mem s b)
    \<and> (\<forall>k < length (mem s b). k < q \<or> q + n \<le> k \<longrightarrow> mem u b ! k = mem s b ! k)
    \<and> (\<forall>i < n. \<forall>x. mem s a ! (p + i) = Fin x \<and> \<bar>x\<bar> \<le> 1 \<longrightarrow>
          (\<exists>y. mem u b ! (q + i) = Fin y \<and> \<bar>y - x\<bar> < 1 / 2 ^ 14))"
proof -
  let ?seg = "take n (drop p (mem s a))"
  let ?data = "map (pcm16_at (pcm_encode_s16 ?seg)) [0..<n]"
  obtain rate r where w: "write_wav path (array_view ?seg) rate None s = (Inr r, t)"
    using save_mono [OF assms(1-4,6)] by blast
  have len: "length ?seg = n"
    using assms(5) by simp
  obtain c where c: "check_view (array_view ?seg) None = Inr c" "0 < rate" "rate < 2 ^ 32"
    and rd: "read_wav (files t) path = Inr (?data, c, rate)"
    using written_wav [OF w] len by (auto simp: array_view_def)
  have "c = 1"
    using c(1) by (simp add: check_view_def inferred_channels_def array_view_def Let_def split: if_splits)
  note host = write_wav_host [OF w]
  let ?d = "blended (mem s b) (int q) (Some ?data) (int (length ?data)) (Fin 0) (Fin 1) 0"
  have "buffer_read_mono path (Fin 0) sd (Fin (- 1)) src cd (Fin 0) (Fin 1) t =
    (Inr (), put_array b (blended (mem t b) (int q) (Some ?data) (int (length ?data)) (Fin 0) (Fin 1) 0) t)"
    using rd c assms(7-10) host \<open>c = 1\<close> by (intro load_mono) simp_all
  then have u: "res = Inr ()" "mem u b = ?d"
    using assms(12) host by auto
  have flt: "\<forall>x \<in> set ?data. is_flt F32 x"
    by (auto simp: pcm16_at_def)
  have nth: "?d ! k = (if q \<le> k \<and> k < q + n then ?data ! (k - q) else mem s b ! k)"
    if "k < length (mem s b)" for k
    using apply_replace [of "int q" ?data "mem s b" k] assms(9,11) flt that by simp
  have "\<exists>y. ?d ! (q + i) = Fin y \<and> \<bar>y - x\<bar> < 1 / 2 ^ 14"
    if "i < n" "mem s a ! (p + i) = Fin x" "\<bar>x\<bar> \<le> 1" for i x
  proof -
    have "?seg ! i = Fin x"
      using that nth_slice_segment(1) [of i n p "mem s a"] assms(5) by simp
    then have "\<exists>y. pcm16_at (pcm_encode_s16 ?seg) i = Fin y \<and> \<bar>y - x\<bar> < 1 / 2 ^ 14"
      using that len by (intro pcm16_sample_accuracy) (auto simp: abs_le_iff)
    then show ?thesis
      using nth [of "q + i"] that(1) assms(9) by simp
  qed
  then show ?thesis
    unfolding u using nth by auto
qed

theorem save_load_roundtrip_witness:
  "\<exists>t u y. buffer_write_mono [''x.wav''] (Fin 0) (Fin (1 / 24000)) 1 small_host = (Inr (), t)
     \<and> buffer_read_mono [''x.wav''] (Fin 0) (Fin (1 / 48000)) (Fin (- 1)) 1 2 (Fin 0) (Fin 1) t = (Inr (), u)
     \<and> mem u 1 ! 1 = Fin y \<and> \<bar>y - 1\<bar> < 1 / 2 ^ 14"
proof -
  have "rne 1 = 1" "rne 2 = 2"
    using rne_of_int [of 1] rne_of_int [of 2] by simp_all
  then have fr: "seconds_to_frames (Fin 0) (Fin 48000) = Inr (int 0)"
      "seconds_to_frames (Fin (1 / 48000)) (Fin 48000) = Inr (int 1)"
      "seconds_to_frames (Fin (1 / 24000)) (Fin 48000) = Inr (int 2)"
    using rep_int [of 1 F64] rep_int [of 2 F64]
    by (simp_all add: seconds_to_frames_def round_int_def rnd_rep)
  let ?v = "array_view [Fin 1, Fin 1]"
  have "check_view ?v None = Inr 1" by code_simp
  then obtain r t where w: "write_wav [''x.wav''] ?v 48000 None small_host = (Inr r, t)"
    by (auto simp: write_wav_ok wave_write_ok node_at_def header_fits_def array_view_def
        small_host_def engine.defs bare_engine_def)
  have "py_slice [Fin 1, Fin 1, Fin 0, Fin 0] 0 2 = [Fin 1, Fin 1]" by code_simp
  then have s: "buffer_write_mono [''x.wav''] (Fin 0) (Fin (1 / 24000)) 1 small_host = (Inr (), t)"
    using fr w by (simp add: buffer_write_mono_def get_buf_def get_frames_def region_def host_rate_def
        trunc_int_def bnd_def gets_def lift_def ret_def)
  obtain res u where l: "buffer_read_mono [''x.wav''] (Fin 0) (Fin (1 / 48000)) (Fin (- 1)) 1 2 (Fin 0) (Fin 1) t = (res, u)"
    by (metis surj_pair)
  have "res = Inr () \<and> (\<exists>y. mem u 1 ! 1 = Fin y \<and> \<bar>y - 1\<bar> < 1 / 2 ^ 14)"
    using save_load_roundtrip [of small_host 1 0 "Fin 0" 0 "Fin (1 / 24000)" 2 "[''x.wav'']" t 2 1
        "Fin (1 / 48000)" 1 1 res u] fr s l by (auto dest: spec [of _ 0])
  then show ?thesis
    using s l by blast
qed

end
