(* ===== verification/Norns_Live.thy ===== *)
theory Norns_Live
  imports Norns_Buffers
begin

text \<open>
  The norns host as a transition system: every method of \<open>NornsSoftcut\<close> (\<open>host_op\<close>), the
  parameter posts of the native OSC receiver and the audio callback, in any order
  (\<open>host_step\<close>, \<open>host_reach\<close>). The invariant \<open>host_wf\<close> ties the host's own tables to the
  engine: two global buffers of one power-of-two length, a voice count that is the engine's,
  and an assignment table that says which of the two every voice holds.
\<close>

section \<open>The invariant\<close>

definition host_table :: "aref \<Rightarrow> aref \<Rightarrow> nat \<Rightarrow> 'z norns_scheme \<Rightarrow> bool" where
  "host_table a1 a2 n s \<longleftrightarrow> bufs s = [1 \<mapsto> a1, 2 \<mapsto> a2] \<and> a1 \<noteq> a2 \<and> a1 < brk s \<and> a2 < brk s
     \<and> pow2_length n \<and> length (mem s a1) = n \<and> length (mem s a2) = n
     \<and> nvoices s = int (length (voices s))
     \<and> (\<forall>i < length (voices s). \<exists>b \<in> {1, 2}.
          assigned s (int i + 1) = Some b \<and> holds (voices s ! i) = (Some (if b = 1 then a1 else a2), n))"

definition host_wf :: "'z norns_scheme \<Rightarrow> bool" where
  "host_wf s \<longleftrightarrow> (\<exists>a1 a2 n. host_table a1 a2 n s)"

lemma norns_more:
  assumes "engine.more t = engine.more (s :: 'z norns_scheme)"
  shows "nsr t = nsr s" "nvoices t = nvoices s" "bufs t = bufs s" "assigned t = assigned s"
    "norns.more t = norns.more s"
  using assms by (cases s; cases t; simp)+

lemma host_table_frame:
  assumes "same_frame s t" "host_table a1 a2 n s"
  shows "host_table a1 a2 n t"
proof -
  have m: "engine.more t = engine.more s" "brk s \<le> brk t"
    and l: "\<And>a. a < brk s \<Longrightarrow> length (mem t a) = length (mem s a)"
    using assms(1) by (simp_all add: same_frame_def)
  show ?thesis
    using assms(2) norns_more [OF m(1)] same_frame_length [OF assms(1)] same_frame_holds [OF assms(1)] m(2) l
    by (simp add: host_table_def)
qed

lemma host_wf_frame: "same_frame s t \<Longrightarrow> host_wf s \<Longrightarrow> host_wf t"
  unfolding host_wf_def by (blast intro: host_table_frame)

lemma keeps_host_wf: "(\<And>s. keeps (same_frame s) m) \<Longrightarrow> keeps host_wf m"
  by (rule keepsI) (blast intro: host_wf_frame keeps_frameD)

section \<open>Operations\<close>

lemma frame_in_place: "in_place s B t \<Longrightarrow> same_frame s t"
  by (auto elim!: in_placeE simp: same_frame_def)

lemma frame_buf_exec [frame_intro]: "keeps (same_frame s) (buf_exec op)"
  by (rule keeps_frameI)
    (rule frame_in_place [OF keepsD [OF buf_exec_in_place in_place_refl]])

lemma frame_voice_at [frame_intro]: "keeps (same_frame s) (voice_at i)"
  by (rule keeps_frameI) (simp add: voice_at_def get_voice_def Let_def same_frame_refl)

lemma frame_set_param [frame_intro]: "keeps (same_frame s) (set_param name i x)"
  unfolding set_param_def float_setter_def bool_setter_def
  by (auto split: option.split intro!: keeps_intro frame_intro)

lemma frame_host_calls [frame_intro]:
  "keeps (same_frame s) (set_position i x)" "keeps (same_frame s) (voice_sync lib i j x)"
  "keeps (same_frame s) (level_cut_cut i j x)" "keeps (same_frame s) norns_start"
  "keeps (same_frame s) norns_stop"
  "lib_ok lib \<Longrightarrow> keeps (same_frame s) (norns_render lib inp out secs)"
  unfolding set_position_def voice_sync_def level_cut_cut_def norns_start_def norns_stop_def
    norns_render_def
  by (intro keeps_intro frame_intro; assumption?)+

text \<open>What \<open>voice_at\<close> gives, and the assignment of a buffer in detail.\<close>

lemma voice_at_ok:
  assumes "nvoices s = int (length (voices s))" "1 \<le> i" "i \<le> nvoices s"
  shows "voice_at i s = (Inr (nat (i - 1)), s)" "nat (i - 1) < length (voices s)"
  using assms by (auto simp: voice_at_def get_voice_def py_index_def Let_def)

lemma voice_at_error:
  assumes "i < 1 \<or> nvoices s < i"
  shows "voice_at i s = (Inl IndexError, s)"
  using assms by (auto simp: voice_at_def Let_def)

lemma buffer_cases [consumes 1, case_names no_buffer no_voice refused assigned]:
  assumes "nvoices s = int (length (voices s))"
  obtains (no_buffer) "bufs s b = None" "buffer i b s = (Inl ValueError, s)"
  | (no_voice) "i < 1 \<or> nvoices s < i" "buffer i b s = (Inl IndexError, s)"
  | (refused) a k e t where "bufs s b = Some a" "k < length (voices s)" "i = int k + 1"
      "set_buffer k a s = (Inl e, t)" "buffer i b s = (Inl e, t)"
  | (assigned) a k t where "bufs s b = Some a" "k < length (voices s)" "i = int k + 1"
      "set_buffer k a s = (Inr (), t)"
      "buffer i b s = (Inr (), t\<lparr>assigned := (assigned t)(i \<mapsto> b)\<rparr>)"
proof (cases "bufs s b")
  case None
  then show ?thesis
    by (intro no_buffer) (simp_all add: buffer_def py_simps)
next
  case (Some a)
  show ?thesis
  proof (cases "1 \<le> i \<and> i \<le> nvoices s")
    case True
    then have i: "i = int (nat (i - 1)) + 1" by simp
    note v = voice_at_ok [OF assms True [THEN conjunct1] True [THEN conjunct2]]
    obtain r t where r: "set_buffer (nat (i - 1)) a s = (r, t)"
      by (metis surj_pair)
    show ?thesis
    proof (cases r)
      case (Inl e)
      then show ?thesis
        using Some v r by (intro refused [OF Some v(2) i]) (simp_all add: buffer_def py_simps bnd_def)
    next
      case (Inr u)
      then show ?thesis
        using Some v r by (intro assigned [OF Some v(2) i]) (simp_all add: buffer_def py_simps bnd_def)
    qed
  next
    case False
    then have o: "i < 1 \<or> nvoices s < i" by auto
    then show ?thesis
      using Some voice_at_error [OF o]
      by (intro no_voice) (simp_all add: buffer_def py_simps bnd_Inl)
  qed
qed

lemma same_arrays_host:
  assumes "same_arrays s (t :: 'z norns_scheme)"
  shows "mem t = mem s" "brk t = brk s" "running t = running s" "length (voices t) = length (voices s)"
    "nsr t = nsr s" "nvoices t = nvoices s" "bufs t = bufs s" "assigned t = assigned s"
    "norns.more t = norns.more s" "device_ok t = device_ok s"
  using assms norns_more [of t s] by (simp_all add: same_arrays_def)

lemma host_table_buffer:
  assumes w: "host_table a1 a2 n s"
  shows "host_table a1 a2 n (snd (buffer i b s))"
proof -
  have nv: "nvoices s = int (length (voices s))"
    using w by (simp add: host_table_def)
  then show ?thesis
  proof (cases rule: buffer_cases [of s b i])
    case (refused a k e t)
    note f = set_buffer_result [OF refused(4,2)]
    then have h: "holds (voices t ! j) = holds (voices s ! j)" if "j < length (voices s)" for j
      using that by (cases "j = k") auto
    show ?thesis
      using w h same_arrays_host [OF f [THEN conjunct1]] refused(5) by (simp add: host_table_def)
  next
    case (assigned a k t)
    note f = set_buffer_result [OF assigned(4,2)]
    note sa = same_arrays_host [OF f [THEN conjunct1]]
    have b: "b \<in> {1, 2}" "length (mem s a) = n" "a = (if b = 1 then a1 else a2)"
      using assigned(1) w by (auto simp: host_table_def split: if_splits)
    have "\<exists>c \<in> {1, 2}. ((norns.assigned t)(i \<mapsto> b)) (int j + 1) = Some c \<and> holds (voices t ! j) = (Some (if c = 1 then a1 else a2), n)"
      if "j < length (voices s)" for j
    proof (cases "j = k")
      case True
      then show ?thesis using f b assigned(3) by (intro bexI [of _ b]) auto
    next
      case False
      then show ?thesis using f w that assigned(3) sa by (auto simp: host_table_def)
    qed
    then show ?thesis
      using w sa assigned(5) by (simp add: host_table_def)
  qed (use w in simp_all)
qed

lemma host_wf_buffer: "keeps host_wf (buffer i b)"
  unfolding host_wf_def by (rule keepsI) (blast intro: host_table_buffer)

lemma host_wf_reset: "keeps host_wf reset_all"
  unfolding reset_all_def
  by (intro keeps_intro host_wf_buffer keeps_host_wf frame_intro)

section \<open>Construction\<close>

lemma for_each_append: "for_each (xs @ ys) f s = seqn (for_each xs f) (for_each ys f) s"
proof (induction xs arbitrary: s)
  case Nil
  show ?case by (simp add: py_simps)
next
  case (Cons x xs)
  show ?case
  proof (cases "f x s")
    case (Pair r t)
    then show ?thesis
      using Cons by (cases r) (simp_all add: bnd_def)
  qed
qed

lemma for_each_snoc:
  assumes "for_each xs f s = (Inr (), t)"
  shows "for_each (xs @ [x]) f s = f x t"
proof (cases "f x t")
  case (Pair r u)
  then show ?thesis
    using assms by (cases r) (simp_all add: for_each_append bnd_Inr bnd_def ret_def)
qed

text \<open>On a stopped engine an assignment never fails.\<close>

lemma buffer_stopped:
  assumes "\<not> running s" "bufs s b = Some a" "pow2_length (length (mem s a))"
    and "nvoices s = int (length (voices s))" "k < length (voices s)"
  shows "\<exists>t. buffer (int k + 1) b s = (Inr (), t\<lparr>assigned := (assigned t)(int k + 1 \<mapsto> b)\<rparr>)
    \<and> set_buffer k a s = (Inr (), t) \<and> cmdq t = cmdq s \<and> oscq t = oscq s"
proof -
  have "set_buffer k a s = (Inr (), snd (set_buffer k a s))"
    "cmdq (snd (set_buffer k a s)) = cmdq s" "oscq (snd (set_buffer k a s)) = oscq s"
    using assms(1,3) by (simp_all add: set_buffer_def Let_def)
  then obtain t where t: "set_buffer k a s = (Inr (), t)" "cmdq t = cmdq s" "oscq t = oscq s"
    by (metis snd_conv)
  have "voice_at (int k + 1) s = (Inr k, s)"
    using voice_at_ok [OF assms(4), of "int k + 1"] assms(4,5) by simp
  then show ?thesis
    using t assms(2) by (simp add: buffer_def py_simps bnd_Inr)
qed

lemma assign_first:
  assumes "\<not> running s" "bufs s 1 = Some a" "pow2_length (length (mem s a))"
    and "nvoices s = int (length (voices s))" "k \<le> length (voices s)"
  shows "\<exists>t. for_each (map (\<lambda>i. int i + 1) [0..<k]) (\<lambda>i. buffer i 1) s = (Inr (), t)
    \<and> mem t = mem s \<and> brk t = brk s \<and> running t = running s \<and> length (voices t) = length (voices s)
    \<and> nvoices t = nvoices s \<and> bufs t = bufs s \<and> nsr t = nsr s \<and> device_ok t = device_ok s
    \<and> cmdq t = cmdq s \<and> oscq t = oscq s
    \<and> (\<forall>i < k. assigned t (int i + 1) = Some 1 \<and> holds (voices t ! i) = (Some a, length (mem s a)))"
  using assms(5)
proof (induction k)
  case 0
  then show ?case by (simp add: ret_def)
next
  case (Suc k)
  then obtain t where t: "for_each (map (\<lambda>i. int i + 1) [0..<k]) (\<lambda>i. buffer i 1) s = (Inr (), t)"
    "mem t = mem s" "brk t = brk s" "running t = running s" "length (voices t) = length (voices s)"
    "nvoices t = nvoices s" "bufs t = bufs s" "nsr t = nsr s" "device_ok t = device_ok s"
    "cmdq t = cmdq s" "oscq t = oscq s"
    and h: "\<And>i. i < k \<Longrightarrow> assigned t (int i + 1) = Some 1 \<and> holds (voices t ! i) = (Some a, length (mem s a))"
    by auto
  have k: "k < length (voices t)"
    using Suc.prems t(5) by simp
  obtain u where u: "buffer (int k + 1) 1 t = (Inr (), u\<lparr>assigned := (assigned u)(int k + 1 \<mapsto> 1)\<rparr>)"
    "set_buffer k a t = (Inr (), u)" "cmdq u = cmdq t" "oscq u = oscq t"
    using buffer_stopped [of t 1 a k] assms(1-4) t k by auto
  note f = set_buffer_result [OF u(2) k]
  note sa = same_arrays_host [OF f [THEN conjunct1]]
  have "holds (voices u ! i) = (Some a, length (mem s a))" if "i < Suc k" for i
    using that f h [of i] t k by (cases "i = k") auto
  moreover have "for_each (map (\<lambda>i. int i + 1) [0..<Suc k]) (\<lambda>i. buffer i 1) s
      = (Inr (), u\<lparr>assigned := (assigned u)(int k + 1 \<mapsto> 1)\<rparr>)"
    using for_each_snoc [OF t(1), of "int k + 1"] u(1) by simp
  ultimately show ?case
    using t sa h u(3,4) by (auto simp: less_Suc_eq)
qed

lemma upto_voices: "[1..int n] = map (\<lambda>i. int i + 1) [0..<n]"
  by (rule nth_equalityI) simp_all

lemma buffers_ok_norns_field:
  "buffers_ok (s\<lparr>bufs := x\<rparr>) = buffers_ok s" "buffers_ok (s\<lparr>assigned := y\<rparr>) = buffers_ok s"
  by (simp_all add: buffers_ok_def fresh_mem_def)

lemma keeps_buffer_ok [keeps_intro]: "keeps buffers_ok (buffer i b)"
  unfolding buffer_def
  by (intro keeps_intro) (auto simp: voice_at_def get_voice_def Let_def buffers_ok_norns_field keeps_def)

text \<open>A new host: two cleared buffers, every voice on the first.\<close>

lemma new_norns_runs:
  assumes e: "new_engine st dev nv sr mode 512 2 (- 1) (- 1) quirks = Inr e" and "mem st = (\<lambda>_. [])"
  shows "\<exists>s. new_norns st dev sr nv bf mode quirks = Inr s
    \<and> host_wf s \<and> buffers_ok s \<and> nvoices s = nv \<and> nsr s = sr \<and> \<not> running s \<and> device_ok s = dev
    \<and> cmdq s = empty_ring \<and> oscq s = empty_ring
    \<and> (\<exists>a1 a2. host_table a1 a2 (nat (next_power_of_two bf)) s)"
proof -
  let ?n = "next_power_of_two bf"
  note ne = new_engine_ok [OF e]
  define s0 where "s0 = engine.extend e \<lparr>nsr = sr, nvoices = nv, bufs = (\<lambda>_. None), assigned = (\<lambda>_. None)\<rparr>"
  have s0: "voices s0 = voices e" "running s0 = running e" "brk s0 = brk e" "nvoices s0 = nv" "nsr s0 = sr"
    "buffers_ok s0 = buffers_ok e" "device_ok s0 = device_ok e"
    unfolding s0_def by (simp_all add: engine.defs buffers_ok_def fresh_mem_def)
  let ?z = "replicate (nat ?n) (Fin 0)"
  define s1 where "s1 = s0\<lparr>mem := (\<lambda>a. if brk s0 \<le> a \<and> a < brk s0 + 2 then ?z else mem s0 a), brk := brk s0 + 2\<rparr>"
  define s2 where "s2 = s1\<lparr>bufs := [1 \<mapsto> brk s0, 2 \<mapsto> Suc (brk s0)]\<rparr>"
  have pos: "0 \<le> ?n" using next_power_of_two_pos [of bf] by simp
  have arr: "new_arrays 2 ?n s0 = (Inr [brk s0, Suc (brk s0)], s1)"
    using new_arrays_eq [OF pos, of 2 s0] unfolding s1_def by (simp add: upt_rec)
  have nv: "1 \<le> nv" "voices s2 = voices e" "length (voices e) = nat nv" "\<not> running s2"
    using ne s0 by (auto simp: s2_def s1_def)
  have f2: "nvoices s2 = nv" "nsr s2 = sr" "bufs s2 = [1 \<mapsto> brk s0, 2 \<mapsto> Suc (brk s0)]"
    "mem s2 (brk s0) = ?z" "mem s2 (Suc (brk s0)) = ?z" "brk s2 = brk s0 + 2"
    using s0 by (simp_all add: s2_def s1_def)
  have run: "bnd (new_arrays 2 ?n) (\<lambda>as. seqn (modify (\<lambda>s. s\<lparr>bufs := [1 \<mapsto> as ! 0, 2 \<mapsto> as ! 1]\<rparr>))
        (for_each [1..nv] (\<lambda>i. buffer i 1))) s0 = for_each [1..nv] (\<lambda>i. buffer i 1) s2"
    using arr by (simp add: bnd_def modify_def s2_def)
  have dev: "device_ok s2 = dev" "cmdq s2 = empty_ring" "oscq s2 = empty_ring"
    using e s0 by (auto simp: s2_def s1_def s0_def engine.defs new_engine_def ebind_eq_Inr Let_def split: if_splits)
  have l: "[1..nv] = map (\<lambda>i. int i + 1) [0..<length (voices s2)]"
    using upto_voices [of "nat nv"] nv by simp
  have p2: "pow2_length (nat ?n)"
    by (rule next_power_of_two_length)
  obtain t where t: "for_each [1..nv] (\<lambda>i. buffer i 1) s2 = (Inr (), t)"
    "mem t = mem s2" "brk t = brk s2" "running t = running s2" "length (voices t) = length (voices s2)"
    "nvoices t = nvoices s2" "bufs t = bufs s2" "nsr t = nsr s2" "device_ok t = device_ok s2"
    "cmdq t = cmdq s2" "oscq t = oscq s2"
    and h: "\<forall>i < length (voices s2). assigned t (int i + 1) = Some 1
      \<and> holds (voices t ! i) = (Some (brk s0), length (mem s2 (brk s0)))"
    using assign_first [of s2 "brk s0" "length (voices s2)"] nv p2 f2 unfolding l by auto
  have new: "new_norns st dev sr nv bf mode quirks = Inr t"
    using e run t(1) by (simp add: new_norns_def Let_def flip: s0_def)
  have "host_table (brk s0) (Suc (brk s0)) (nat ?n) t"
    using t h nv p2 f2 unfolding host_table_def by simp
  moreover have "buffers_ok s0"
    using buffers_ok_new_engine [OF e assms(2)] s0 by simp
  then have "buffers_ok s1"
    using keepsD [OF keeps_new_arrays, of s0 2 ?n] arr by simp
  then have "buffers_ok s2"
    by (simp add: buffers_ok_norns_field s2_def)
  then have "buffers_ok t"
    using keepsD [of buffers_ok "for_each [1..nv] (\<lambda>i. buffer i 1)" s2] t(1)
    by (simp add: keeps_for_each keeps_buffer_ok)
  moreover have "device_ok t = dev" "cmdq t = empty_ring" "oscq t = empty_ring"
    using t dev f2 by simp_all
  ultimately show ?thesis
    using new t nv f2 unfolding host_wf_def by (intro exI [of _ t]) auto
qed

lemma new_norns_wf:
  assumes "new_norns st dev sr nv bf mode quirks = Inr s" "mem st = (\<lambda>_. [])"
  shows "host_wf s \<and> buffers_ok s \<and> nvoices s = nv \<and> nsr s = sr \<and> \<not> running s \<and> device_ok s = dev
    \<and> cmdq s = empty_ring \<and> oscq s = empty_ring"
proof -
  obtain e where "new_engine st dev nv sr mode 512 2 (- 1) (- 1) quirks = Inr e"
    using assms by (auto simp: new_norns_def ebind_eq_Inr)
  then show ?thesis
    using new_norns_runs [of st dev nv sr mode quirks e bf] assms by auto
qed

text \<open>When a host can be made.\<close>

lemma new_norns_ok:
  assumes "mem st = (\<lambda>_. [])" "1 \<le> nv" "mode = ''duplex'' \<or> mode = ''playback''" "quirks = ''upstream'' \<or> quirks = ''fixed''"
  shows "\<exists>s. new_norns st dev sr nv bf mode quirks = Inr s"
proof -
  have "\<exists>e. new_engine st dev nv sr mode 512 2 (- 1) (- 1) quirks = Inr e"
    using assms by (auto simp: new_engine_def new_voice_def int_args_ok_def int32_def Let_def)
  then show ?thesis
    using new_norns_runs assms(1) by blast
qed


section \<open>Any interleaving\<close>

datatype host_op =
    HParam string int flt
  | HPosition int flt
  | HBuffer int int
  | HSync int int flt
  | HCutCut int int flt
  | HReset
  | HBuf buf_op
  | HStart
  | HStop
  | HRender "aref option" "aref option" "flt option"

fun host_exec :: "dsp_lib \<Rightarrow> host_op \<Rightarrow> 'z norns_scheme \<Rightarrow> 'z norns_scheme" where
  "host_exec lib (HParam name i x) s = snd (set_param name i x s)"
| "host_exec lib (HPosition i x) s = snd (set_position i x s)"
| "host_exec lib (HBuffer i b) s = snd (buffer i b s)"
| "host_exec lib (HSync i j x) s = snd (voice_sync lib i j x s)"
| "host_exec lib (HCutCut i j x) s = snd (level_cut_cut i j x s)"
| "host_exec lib HReset s = snd (reset_all s)"
| "host_exec lib (HBuf op) s = snd (buf_exec op s)"
| "host_exec lib HStart s = snd (norns_start s)"
| "host_exec lib HStop s = snd (norns_stop s)"
| "host_exec lib (HRender inp out secs) s = snd (norns_render lib inp out secs s)"

lemma host_exec_frame:
  assumes "lib_ok lib" "\<forall>i b. op \<noteq> HBuffer i b" "op \<noteq> HReset"
  shows "same_frame s (host_exec lib op s)"
  using assms by (cases op) (auto intro!: keeps_frameD frame_intro)

lemma host_wf_exec: "lib_ok lib \<Longrightarrow> host_wf s \<Longrightarrow> host_wf (host_exec lib op s)"
  using host_exec_frame [of lib op s] host_wf_frame keepsD [OF host_wf_buffer] keepsD [OF host_wf_reset]
  by (cases op) auto

lemma keeps_ok_set_attr [keeps_intro]: "keeps buffers_ok (set_attr i name x)"
  unfolding set_attr_def
  by (auto split: option.split attr.split pyarg.split intro!: keeps_intro)

lemma keeps_ok_get_voice [keeps_intro]: "keeps buffers_ok (get_voice i)" "keeps buffers_ok (voice_at i)"
  by (simp_all add: get_voice_def voice_at_def Let_def keeps_def)

lemma buffers_ok_fields:
  "buffers_ok (s\<lparr>running := b\<rparr>) = buffers_ok s" "buffers_ok (s\<lparr>fbk := f\<rparr>) = buffers_ok s"
  by (simp_all add: buffers_ok_def fresh_mem_def)

lemma keeps_ok_start_stop [keeps_intro]: "keeps buffers_ok engine_start" "keeps buffers_ok engine_stop"
  by (auto simp: engine_start_def core_start_def engine_stop_def core_stop_def keeps_def
      buffers_ok_fields intro!: buffers_ok_drain)

lemma keeps_ok_feedback [keeps_intro]: "keeps buffers_ok (feedback src dst (Some x))"
proof -
  have "keeps buffers_ok (set_feedback src dst x)"
    by (auto simp: set_feedback_def keeps_def buffers_ok_fields split: sum.split)
  then show ?thesis
    by (auto simp: feedback_def intro!: keeps_intro)
qed

lemma buffers_ok_in_place:
  assumes "in_place s B t" "buffers_ok s"
  shows "buffers_ok t"
proof -
  obtain M F where t: "t = s\<lparr>mem := M, files := F\<rparr>" and l: "\<And>a. length (M a) = length (mem s a)"
    using assms(1) by (auto elim: in_placeE)
  have "M a = []" if "brk s \<le> a" for a
  proof -
    have "mem s a = []" using assms(2) that by (simp add: buffers_ok_def fresh_mem_def)
    then show ?thesis using l [of a] by simp
  qed
  then have "mem_kept s t"
    using l by (simp add: mem_kept_def fresh_mem_def t)
  then show ?thesis
    by (rule buffers_ok_mem [OF assms(2)]) (simp_all add: t)
qed

lemma keeps_ok_buf_exec [keeps_intro]: "keeps buffers_ok (buf_exec op)"
proof (rule keepsI)
  fix s :: "'a norns_scheme"
  assume "buffers_ok s"
  then show "buffers_ok (snd (buf_exec op s))"
    by (rule buffers_ok_in_place [OF keepsD [OF buf_exec_in_place in_place_refl]])
qed

lemma keeps_ok_host_calls [keeps_intro]:
  "keeps buffers_ok (set_position i x)" "keeps buffers_ok (voice_sync lib i j x)"
  "keeps buffers_ok (level_cut_cut i j x)" "keeps buffers_ok reset_all"
  unfolding set_position_def voice_sync_def sync_def level_cut_cut_def reset_all_def
  by (intro keeps_intro)+

lemma keeps_ok_set_param [keeps_intro]: "keeps buffers_ok (set_param name i x)"
  unfolding set_param_def float_setter_def bool_setter_def
  by (auto split: option.split intro!: keeps_intro)

lemma keeps_ok_control [keeps_intro]:
  "keeps buffers_ok norns_start" "keeps buffers_ok norns_stop"
  "lib_ok lib \<Longrightarrow> keeps buffers_ok (norns_render lib inp out secs)"
  unfolding norns_start_def norns_stop_def norns_render_def
  by (intro keeps_intro; assumption?)+

lemma buffers_ok_exec: "lib_ok lib \<Longrightarrow> buffers_ok s \<Longrightarrow> buffers_ok (host_exec lib op s)"
  by (cases op) (simp_all add: keepsD keeps_intro)

inductive host_step :: "dsp_lib \<Rightarrow> norns \<Rightarrow> norns \<Rightarrow> bool" for lib where
  call: "host_step lib s (host_exec lib op s)"
| osc_float: "host_step lib s (post_float Osc k a x s)"
| osc_bool: "host_step lib s (post_bool Osc k b y s)"
| audio: "running s \<Longrightarrow> host_step lib s (callback lib ext s)"

inductive host_reach :: "dsp_lib \<Rightarrow> norns \<Rightarrow> bool" for lib where
  init: "new_norns st dev sr nv bf mode quirks = Inr s \<Longrightarrow> mem st = (\<lambda>_. []) \<Longrightarrow> host_reach lib s"
| step: "host_reach lib s \<Longrightarrow> host_step lib s t \<Longrightarrow> host_reach lib t"

inductive_cases host_stepE: "host_step lib s t"

lemma host_reach_inv:
  assumes "host_reach lib s" "lib_ok lib"
  shows "host_wf s \<and> buffers_ok s"
  using assms(1)
proof (induction rule: host_reach.induct)
  case (init st dev sr nv bf mode quirks s)
  then show ?case using new_norns_wf by blast
next
  case (step s t)
  from step(2) show ?case
    using step.IH assms(2)
    by (cases rule: host_stepE)
      (auto intro: host_wf_exec buffers_ok_exec host_wf_frame frame_post_float frame_post_bool
        frame_callback buffers_ok_post_float buffers_ok_post_bool buffers_ok_callback)
qed

lemma fresh_host:
  obtains s where "new_norns empty_store True (Fin 48000) 2 4 ''duplex'' ''upstream'' = Inr s"
    "host_wf s" "nvoices s = 2" "\<not> running s" "buffers_ok s" "device_ok s"
    "cmdq s = empty_ring" "oscq s = empty_ring"
proof -
  obtain s where s: "new_norns empty_store True (Fin 48000) 2 4 ''duplex'' ''upstream'' = Inr s"
    using new_norns_ok [of empty_store 2 "''duplex''" "''upstream''" True "Fin 48000" 4]
    by (auto simp: empty_store_def)
  then show ?thesis
    using new_norns_wf [OF s] that by (auto simp: empty_store_def)
qed

lemma lib_ok_thru [simp]: "lib_ok thru_lib"
  by (simp add: lib_ok_def thru_lib_def)

section \<open>Voice numbers\<close>

lemma known_floats: "list_all (\<lambda>(n, att). case map_of attr_table att of
    Some (FAttr a) \<Rightarrow> True | Some (MAttr m) \<Rightarrow> True | _ \<Rightarrow> False) FLOAT_PARAMS"
  by code_simp

lemma known_bools: "list_all (\<lambda>(n, att). case map_of attr_table att of
    Some (BAttr b) \<Rightarrow> True | _ \<Rightarrow> False) BOOL_PARAMS"
  by code_simp

lemma setters_ok:
  "(n, att) \<in> set FLOAT_PARAMS \<Longrightarrow> fst (set_attr k att (PF x) s) = Inr ()"
  "(n, att) \<in> set BOOL_PARAMS \<Longrightarrow> fst (set_attr k att (PB y) s) = Inr ()"
  using known_floats known_bools
  by (fastforce simp: list_all_iff set_attr_def set_float_def set_mix_def set_bool_def modify_def
      split: option.splits attr.splits)+

text \<open>Voice numbers are 1-based and checked by the parameter setters: a known parameter can be
  set exactly on voices 1 to n, and otherwise nothing changes. \<open>voice_sync\<close> has no such check:
  numbers from 1 - n to 0 count from the last voice.\<close>

theorem voice_numbers:
  assumes "host_wf s" "name \<in> fst ` set (FLOAT_PARAMS @ BOOL_PARAMS)"
  shows "(1 \<le> i \<and> i \<le> nvoices s \<longrightarrow> fst (set_param name i x s) = Inr ())
    \<and> (i < 1 \<or> nvoices s < i \<longrightarrow> set_param name i x s = (Inl IndexError, s))
    \<and> (1 - nvoices s \<le> i \<and> i \<le> 0 \<longrightarrow> voice_sync lib i j x s = voice_sync lib (i + nvoices s) j x s)"
proof -
  have nv: "nvoices s = int (length (voices s))"
    using assms(1) by (auto simp: host_wf_def host_table_def)
  have k: "(\<exists>att. map_of FLOAT_PARAMS name = Some att)
      \<or> map_of FLOAT_PARAMS name = None \<and> (\<exists>att. map_of BOOL_PARAMS name = Some att)"
    using assms(2) by (auto simp: map_of_eq_None_iff dest!: weak_map_of_SomeI)
  have "fst (set_param name i x s) = Inr ()" if "1 \<le> i" "i \<le> nvoices s"
    using k voice_at_ok [OF nv that]
    by (auto simp: set_param_def float_setter_def bool_setter_def bnd_Inr intro: setters_ok [OF map_of_SomeD])
  moreover have "set_param name i x s = (Inl IndexError, s)" if "i < 1 \<or> nvoices s < i"
    using k voice_at_error [OF that]
    by (auto simp: set_param_def float_setter_def bool_setter_def bnd_Inl)
  moreover have "voice_sync lib i j x s = voice_sync lib (i + nvoices s) j x s"
    if "1 - nvoices s \<le> i" "i \<le> 0"
  proof -
    have "get_voice (i - 1) s = get_voice (i + nvoices s - 1) s"
      using that nv by (auto simp: get_voice_def py_index_def algebra_simps)
    then show ?thesis
      by (simp add: voice_sync_def sync_def bnd_def)
  qed
  ultimately show ?thesis by blast
qed


end
