(* ===== verification/Py_Text.thy ===== *)
theory Py_Text
  imports Py_Float
begin

text \<open>
  Numbers as text, the way Python reads and writes them: \<open>str\<close> of an integer, \<open>int\<close> and
  \<open>float\<close> of a string (blanks, signs, underscores between digits, exponents, \<open>inf\<close> and
  \<open>nan\<close>), \<open>repr\<close> of a float (the shortest text that reads back to it) and the \<open>:g\<close> format (six
  significant digits). They are what the OSC handlers apply to the arguments of a message and
  what the surface builder puts into captions and constant arguments.

  Text is ASCII. A float is an exact rational (\<open>Py_Float\<close>), so both directions are exact
  decimal arithmetic followed by one rounding; a zero has no sign here.
\<close>

section \<open>Digits\<close>

fun nat_str :: "nat \<Rightarrow> string" where
  "nat_str n = (if n < 10 then [char_of (48 + n)] else nat_str (n div 10) @ [char_of (48 + n mod 10)])"

declare nat_str.simps [simp del]

definition int_str :: "int \<Rightarrow> string" where
  "int_str i = (if i < 0 then CHR ''-'' # nat_str (nat (- i)) else nat_str (nat i))"

definition is_digit :: "char \<Rightarrow> bool" where
  "is_digit c \<longleftrightarrow> 48 \<le> (of_char c :: nat) \<and> (of_char c :: nat) \<le> 57"

definition digit_val :: "char \<Rightarrow> nat" where
  "digit_val c = (of_char c :: nat) - 48"

definition digits_val :: "string \<Rightarrow> nat" where
  "digits_val ds = foldl (\<lambda>n c. 10 * n + digit_val c) 0 ds"

text \<open>The digits a text starts with, underscores between two digits dropped, and the rest.\<close>

fun take_digits :: "string \<Rightarrow> string \<times> string" where
  "take_digits [] = ([], [])"
| "take_digits (c # cs) =
     (if \<not> is_digit c then ([], c # cs)
      else case cs of
          u # d # r \<Rightarrow>
            if u = CHR ''_'' \<and> is_digit d then (case take_digits (d # r) of (ds, t) \<Rightarrow> (c # ds, t))
            else (case take_digits cs of (ds, t) \<Rightarrow> (c # ds, t))
        | _ \<Rightarrow> (case take_digits cs of (ds, t) \<Rightarrow> (c # ds, t)))"

section \<open>Reading numbers\<close>

definition is_blank :: "char \<Rightarrow> bool" where
  "is_blank c \<longleftrightarrow> (of_char c :: nat) = 32 \<or> (9 \<le> (of_char c :: nat) \<and> (of_char c :: nat) \<le> 13)"

definition strip :: "string \<Rightarrow> string" where
  "strip s = rev (dropWhile is_blank (rev (dropWhile is_blank s)))"

fun take_sign :: "string \<Rightarrow> bool \<times> string" where
  "take_sign (c # cs) =
     (if c = CHR ''-'' then (True, cs) else if c = CHR ''+'' then (False, cs) else (False, c # cs))"
| "take_sign [] = (False, [])"

text \<open>\<open>int(text)\<close>, with the interpreter's limit of 4300 digits.\<close>

definition parse_int :: "string \<Rightarrow> pyexc + int" where
  "parse_int s =
     (case take_sign (strip s) of (neg, t) \<Rightarrow>
        case take_digits t of (ds, rest) \<Rightarrow>
          if ds = [] \<or> rest \<noteq> [] \<or> 4300 < length ds then Inl ValueError
          else Inr (if neg then - int (digits_val ds) else int (digits_val ds)))"

definition lower :: "char \<Rightarrow> char" where
  "lower c = (if 65 \<le> (of_char c :: nat) \<and> (of_char c :: nat) \<le> 90 then char_of (of_char c + (32 :: nat)) else c)"

text \<open>\<open>float(text)\<close>: the mantissa digits, the exponent of ten, and one rounding.\<close>

definition scale10 :: "rat \<Rightarrow> int \<Rightarrow> rat" where
  "scale10 x e = (if 0 \<le> e then x * 10 ^ nat e else x / 10 ^ nat (- e))"

fun take_exponent :: "string \<Rightarrow> (int \<times> string) option" where
  "take_exponent [] = Some (0, [])"
| "take_exponent (c # cs) =
     (if c \<noteq> CHR ''e'' then Some (0, c # cs)
      else case take_sign cs of (neg, t) \<Rightarrow>
        case take_digits t of (ds, rest) \<Rightarrow>
          if ds = [] then None
          else Some (if neg then - int (digits_val ds) else int (digits_val ds), rest))"

definition take_fraction :: "string \<Rightarrow> string \<times> string" where
  "take_fraction t = (if t \<noteq> [] \<and> hd t = CHR ''.'' then take_digits (tl t) else ([], t))"

definition parse_decimal :: "string \<Rightarrow> pyexc + flt" where
  "parse_decimal t =
     (let (ip, r1) = take_digits t; (fp, r2) = take_fraction r1
      in if ip = [] \<and> fp = [] then Inl ValueError
         else (case take_exponent r2 of
             None \<Rightarrow> Inl ValueError
           | Some (e, r3) \<Rightarrow>
               if r3 \<noteq> [] then Inl ValueError
               else Inr (rnd F64 (scale10 (of_nat (digits_val (ip @ fp))) (e - int (length fp))))))"

definition parse_float :: "string \<Rightarrow> pyexc + flt" where
  "parse_float s =
     (let (neg, t) = take_sign (map lower (strip s))
      in ebind (if t = ''inf'' \<or> t = ''infinity'' then Inr PInf
                else if t = ''nan'' then Inr NaN
                else parse_decimal t)
           (\<lambda>x. Inr (if neg then fneg x else x)))"

section \<open>Writing floats\<close>

text \<open>The decimal exponent of a positive number, by its integer digits or its leading zeros.\<close>

definition dec_exp :: "rat \<Rightarrow> int" where
  "dec_exp x =
     (if 1 \<le> x then int (length (nat_str (nat \<lfloor>x\<rfloor>))) - 1
      else case find (\<lambda>n. 1 \<le> x * 10 ^ n) [1..<400] of Some n \<Rightarrow> - int n | None \<Rightarrow> 0)"

text \<open>\<open>x\<close> rounded to \<open>k\<close> significant digits: the digits and the exponent of the first.\<close>

definition sig_digits :: "nat \<Rightarrow> rat \<Rightarrow> string \<times> int" where
  "sig_digits k x =
     (let e = dec_exp x; m = rne (scale10 x (int k - 1 - e))
      in if m = 10 ^ k then (nat_str (10 ^ (k - 1)), e + 1) else (nat_str (nat m), e))"

definition strip_zeros :: "string \<Rightarrow> string" where
  "strip_zeros ds = rev (dropWhile (\<lambda>c. c = CHR ''0'') (rev ds))"

text \<open>Digits with the first one of weight \<open>10 ^ e\<close>, as a plain decimal and in scientific form.\<close>

definition plain_text :: "string \<Rightarrow> int \<Rightarrow> string \<times> string" where
  "plain_text ds e =
     (if 0 \<le> e
      then let n = nat e + 1
           in (take n ds @ replicate (n - length ds) CHR ''0'', strip_zeros (drop n ds))
      else (''0'', replicate (nat (- e) - 1) CHR ''0'' @ strip_zeros ds))"

definition point :: "string \<Rightarrow> string" where
  "point fp = (if fp = [] then [] else CHR ''.'' # fp)"

definition sci_text :: "string \<Rightarrow> int \<Rightarrow> string" where
  "sci_text ds e =
     take 1 ds @ point (strip_zeros (drop 1 ds)) @ (if e < 0 then ''e-'' else ''e+'')
     @ (if \<bar>e\<bar> < 10 then ''0'' else []) @ nat_str (nat \<bar>e\<bar>)"

text \<open>\<open>f"{x:g}"\<close>\<close>

definition fmt_g :: "flt \<Rightarrow> string" where
  "fmt_g x = (case x of
       Fin q \<Rightarrow>
         if q = 0 then ''0''
         else let (ds, e) = sig_digits 6 \<bar>q\<bar>
              in (if q < 0 then ''-'' else [])
                 @ (if - 4 \<le> e \<and> e < 6
                    then case plain_text ds e of (ip, fp) \<Rightarrow> ip @ point fp
                    else sci_text ds e)
     | PInf \<Rightarrow> ''inf'' | NInf \<Rightarrow> ''-inf'' | NaN \<Rightarrow> ''nan'')"

text \<open>
  \<open>repr(x)\<close>: the fewest digits that read back to \<open>x\<close>, and of the two neighbours with that many
  digits the one nearer to \<open>x\<close>.
\<close>

definition neighbours :: "nat \<Rightarrow> rat \<Rightarrow> int list" where
  "neighbours k x =
     (let y = scale10 x (int k - 1 - dec_exp x); m = rne y; m' = (if m = \<lfloor>y\<rfloor> then m + 1 else m - 1)
      in [m, m'])"

definition shortest :: "rat \<Rightarrow> int \<times> nat" where
  "shortest x =
     (let good = (\<lambda>k m. rnd F64 (scale10 (of_int m) (dec_exp x + 1 - int k)) = Fin x)
      in case find (\<lambda>(k, m). good k m) (concat (map (\<lambda>k. map (Pair k) (neighbours k x)) [1..<18])) of
           Some (k, m) \<Rightarrow> (m, k) | None \<Rightarrow> (rne (scale10 x (16 - dec_exp x)), 17))"

definition float_repr :: "flt \<Rightarrow> string" where
  "float_repr x = (case x of
       Fin q \<Rightarrow>
         if q = 0 then ''0.0''
         else let (m, k) = shortest \<bar>q\<bar>; ds = nat_str (nat m);
                  e = dec_exp \<bar>q\<bar> + int (length ds) - int k
              in (if q < 0 then ''-'' else [])
                 @ (if - 4 \<le> e \<and> e < 16
                    then case plain_text ds e of (ip, fp) \<Rightarrow> ip @ CHR ''.'' # (if fp = [] then ''0'' else fp)
                    else sci_text ds e)
     | PInf \<Rightarrow> ''inf'' | NInf \<Rightarrow> ''-inf'' | NaN \<Rightarrow> ''nan'')"

section \<open>Values and their coercions\<close>

text \<open>
  The values an OSC message carries into Python: integers, floats, text, booleans, \<open>None\<close> and
  any other object (a list, a time tag), of which only its text is known. \<open>int\<close> and \<open>float\<close>
  refuse \<open>None\<close> and other objects. (A blob, whose bytes they would read as a number, is not
  modelled.)
\<close>

datatype pyval = VInt int | VFloat flt | VStr string | VBool bool | VNone | VObj string

fun py_int :: "pyval \<Rightarrow> pyexc + int" where
  "py_int (VInt i) = Inr i"
| "py_int (VFloat x) = trunc_int x"
| "py_int (VStr s) = parse_int s"
| "py_int (VBool b) = Inr (if b then 1 else 0)"
| "py_int _ = Inl TypeError"

fun py_float :: "pyval \<Rightarrow> pyexc + flt" where
  "py_float (VInt i) = float_of_int i"
| "py_float (VFloat x) = Inr x"
| "py_float (VStr s) = parse_float s"
| "py_float (VBool b) = Inr (Fin (if b then 1 else 0))"
| "py_float _ = Inl TypeError"

fun py_str :: "pyval \<Rightarrow> string" where
  "py_str (VInt i) = int_str i"
| "py_str (VFloat x) = float_repr x"
| "py_str (VStr s) = s"
| "py_str (VBool b) = (if b then ''True'' else ''False'')"
| "py_str VNone = ''None''"
| "py_str (VObj r) = r"

section \<open>Reading back what was written\<close>

lemma is_digit_char_of: "d < 10 \<Longrightarrow> is_digit (char_of (48 + d)) \<and> digit_val (char_of (48 + d)) = d"
  by (simp add: is_digit_def digit_val_def)

lemma digits_val_append: "digits_val (xs @ [c]) = 10 * digits_val xs + digit_val c"
  by (simp add: digits_val_def)

lemma nat_str_digits:
  "digits_val (nat_str n) = n \<and> (\<forall>c \<in> set (nat_str n). is_digit c) \<and> nat_str n \<noteq> []"
proof (induction n rule: nat_str.induct)
  case (1 n)
  show ?case
  proof (cases "n < 10")
    case True
    then show ?thesis
      using is_digit_char_of [of n] by (simp add: nat_str.simps digits_val_def)
  next
    case False
    then show ?thesis
      using 1 is_digit_char_of [of "n mod 10"]
      by (subst (1 2 3) nat_str.simps) (simp add: digits_val_append)
  qed
qed

lemma not_digit: "\<not> is_digit CHR ''_''"
  by (simp add: is_digit_def)

lemma take_digits_all: "\<forall>c \<in> set ds. is_digit c \<Longrightarrow> take_digits ds = (ds, [])"
  by (induction ds rule: take_digits.induct) (auto simp: not_digit split: list.splits)

lemma digit_neq:
  assumes "is_digit c"
  shows "c \<noteq> CHR ''-''" "c \<noteq> CHR ''+''" "\<not> is_blank c"
  using assms by (auto simp: is_digit_def is_blank_def)

text \<open>An integer argument survives a trip through text.\<close>

lemma strip_id: "(\<forall>c \<in> set s. \<not> is_blank c) \<Longrightarrow> strip s = s"
proof -
  assume "\<forall>c \<in> set s. \<not> is_blank c"
  then have "dropWhile is_blank s = s" "dropWhile is_blank (rev s) = rev s"
    by (auto simp: dropWhile_eq_self_iff hd_rev)
  then show ?thesis by (simp add: strip_def)
qed

lemma parse_int_str:
  assumes "length (int_str i) \<le> 4300"
  shows "parse_int (int_str i) = Inr i"
proof -
  let ?n = "nat_str (nat \<bar>i\<bar>)"
  have n: "digits_val ?n = nat \<bar>i\<bar>" "\<forall>c \<in> set ?n. is_digit c" "?n \<noteq> []"
    using nat_str_digits by blast+
  have s: "int_str i = (if i < 0 then CHR ''-'' # ?n else ?n)"
    by (simp add: int_str_def)
  have "\<not> is_blank CHR ''-''" by (simp add: is_blank_def)
  then have "strip (int_str i) = int_str i"
    using n(2) digit_neq(3) s by (intro strip_id) auto
  moreover have "take_sign ?n = (False, ?n)"
    using n(2,3) digit_neq by (cases ?n) auto
  moreover have "length ?n \<le> 4300"
    using assms s by (simp split: if_splits)
  ultimately show ?thesis
    using n s take_digits_all [OF n(2)]
    by (cases "i < 0") (simp_all add: parse_int_def)
qed

end
