(* ===== verification/Osc_Server.thy ===== *)
theory Osc_Server
  imports Norns_Live Py_Text
begin

text \<open>
  \<open>src/softcut/osc.py\<close>: the OSC server \<open>SoftcutOSC\<close> over the norns host, its phase poll, and the
  parts of the native transport of \<open>src/softcut/_core.cpp\<close> it is built on (\<open>_OscReceiver\<close>'s
  dispatch, \<open>_OscPhasePoll\<close>).

  The state extends the host's. A message is an address and a list of tagged arguments, as
  tinyosc or python-osc parsed it; the socket and the codec are outside. Whether a transport is
  available, whether the port can be bound and whether a reply goes out are arguments. Log
  output is the \<open>outcome\<close> of a dispatch.
\<close>

section \<open>The address table\<close>

definition PARAM_MAP :: "(string \<times> string) list" where
  "PARAM_MAP =
    [(''rate'', ''rate''), (''loop_start'', ''loop_start''), (''loop_end'', ''loop_end''),
     (''loop_flag'', ''loop''), (''fade_time'', ''fade_time''), (''rec_level'', ''rec_level''),
     (''pre_level'', ''pre_level''), (''rec_flag'', ''rec''), (''rec_once'', ''rec_once''),
     (''play_flag'', ''play''), (''rec_offset'', ''rec_offset''), (''position'', ''position''),
     (''recpre_slew_time'', ''recpre_slew_time''), (''rate_slew_time'', ''rate_slew_time''),
     (''phase_quant'', ''phase_quant''), (''phase_offset'', ''phase_offset''),
     (''pre_filter_fc'', ''pre_filter_fc''), (''pre_filter_fc_mod'', ''pre_filter_fc_mod''),
     (''pre_filter_rq'', ''pre_filter_rq''), (''pre_filter_lp'', ''pre_filter_lp''),
     (''pre_filter_hp'', ''pre_filter_hp''), (''pre_filter_bp'', ''pre_filter_bp''),
     (''pre_filter_br'', ''pre_filter_br''), (''pre_filter_dry'', ''pre_filter_dry''),
     (''post_filter_fc'', ''post_filter_fc''), (''post_filter_rq'', ''post_filter_rq''),
     (''post_filter_lp'', ''post_filter_lp''), (''post_filter_hp'', ''post_filter_hp''),
     (''post_filter_bp'', ''post_filter_bp''), (''post_filter_br'', ''post_filter_br''),
     (''post_filter_dry'', ''post_filter_dry'')]"

text \<open>The host methods \<open>_v_f\<close> and \<open>_ii_f\<close> wrap, and the handlers of \<open>_build_handlers\<close>.\<close>

datatype vf = VfParam string | VfPosition | VfEnabled

datatype iif = CutCut | VoiceSync

datatype handler =
    Hello | Quit | PollStart | PollStop | Unsupported | Ignore
  | SetVF vf | SetIIF iif | InCut | SetBuffer
  | OnReadMono | OnReadStereo | OnWriteMono | OnWriteStereo
  | OnClear | OnClearChannel | OnClearRegion | OnClearRegionChannel | OnReset

text \<open>\<open>getattr(host, method)\<close>\<close>

definition host_method :: "string \<Rightarrow> vf" where
  "host_method name = (if name = ''position'' then VfPosition else VfParam name)"

definition build_handlers :: "(string \<times> handler) list" where
  "build_handlers =
    [(''/hello'', Hello), (''/goodbye'', Quit), (''/quit'', Quit),
     (''/poll/start/cut/phase'', PollStart), (''/poll/stop/cut/phase'', PollStop),
     (''/poll/start/vu'', Unsupported), (''/poll/stop/vu'', Ignore),
     (''/set/level/cut'', SetVF (VfParam ''level'')), (''/set/pan/cut'', SetVF (VfParam ''pan'')),
     (''/set/enabled/cut'', SetVF VfEnabled), (''/set/level/cut_cut'', SetIIF CutCut),
     (''/set/level/in_cut'', InCut)]
    @ map (\<lambda>(suffix, name). (''/set/param/cut/'' @ suffix, SetVF (host_method name))) PARAM_MAP
    @ [(''/set/param/cut/voice_sync'', SetIIF VoiceSync), (''/set/param/cut/buffer'', SetBuffer),
       (''/set/param/cut/level_slew_time'', Unsupported), (''/set/param/cut/pan_slew_time'', Unsupported),
       (''/softcut/buffer/read_mono'', OnReadMono), (''/softcut/buffer/read_stereo'', OnReadStereo),
       (''/softcut/buffer/write_mono'', OnWriteMono), (''/softcut/buffer/write_stereo'', OnWriteStereo),
       (''/softcut/buffer/clear'', OnClear), (''/softcut/buffer/clear_channel'', OnClearChannel),
       (''/softcut/buffer/clear_region'', OnClearRegion),
       (''/softcut/buffer/clear_region_channel'', OnClearRegionChannel), (''/softcut/reset'', OnReset)]"

section \<open>State\<close>

datatype backend = Native | PythonOsc

text \<open>
  \<open>poll_last\<close> is the last phase sent per voice; \<open>None\<close> before the first (the native poll marks it
  with a NaN, which compares the same way). \<open>serving\<close>: the receive thread is up; \<open>blocking\<close>:
  the serve loop runs on the caller's own thread (\<open>serve_forever\<close>).
\<close>

record osc = norns +
  obackend :: backend
  oquit :: bool
  poll_last :: "flt option list"
  poll_on :: bool
  poll_errors :: nat
  sent :: "(string \<times> pyval list) list"
  serving :: bool
  blocking :: bool
  sock_open :: bool
  listen_host :: string
  bound_port :: int

text \<open>\<open>_resolve_backend\<close>, from what is built (\<open>native\<close>) and installed (\<open>pyosc\<close>).\<close>

definition resolve_backend :: "bool \<Rightarrow> bool \<Rightarrow> string \<Rightarrow> pyexc + backend" where
  "resolve_backend native pyosc name =
     (if name = ''auto'' then
        (if native then Inr Native else if pyosc then Inr PythonOsc else Inl ImportError)
      else if name = ''native'' then (if native then Inr Native else Inl RuntimeError)
      else if name = ''python-osc'' then (if pyosc then Inr PythonOsc else Inl ImportError)
      else Inl ValueError)"

text \<open>
  The constructor over a given host. \<open>bind\<close> is the port the system binds the socket to, or
  nothing when it refuses (the native receiver raises \<open>RuntimeError\<close>, the Python one \<open>OSError\<close>).
\<close>

definition new_osc ::
    "bool \<Rightarrow> bool \<Rightarrow> string \<Rightarrow> string \<Rightarrow> int option \<Rightarrow> norns \<Rightarrow> pyexc + osc" where
  "new_osc native pyosc name lhost bind h =
     ebind (resolve_backend native pyosc name) (\<lambda>be.
       case bind of
         None \<Rightarrow> Inl (if be = Native then RuntimeError else OSError)
       | Some port \<Rightarrow> Inr (norns.extend h
           \<lparr>obackend = be, oquit = False, poll_last = replicate (length (voices h)) None,
            poll_on = False, poll_errors = 0, sent = [], serving = False, blocking = False,
            sock_open = True, listen_host = lhost, bound_port = port\<rparr>))"

definition server_address :: "osc \<Rightarrow> string \<times> int" where
  "server_address s = (listen_host s, bound_port s)"

section \<open>Phase poll\<close>

definition PHASE_ADDRESS :: string where "PHASE_ADDRESS = ''/poll/softcut/phase''"

text \<open>\<open>phase != last\<close>, where a NaN differs from itself and everything from \<open>None\<close>.\<close>

definition phase_changed :: "flt \<Rightarrow> flt option \<Rightarrow> bool" where
  "phase_changed phase prev = (case prev of None \<Rightarrow> True | Some x \<Rightarrow> \<not> feq phase x)"

text \<open>The reply client: \<open>up i\<close> says whether the message for voice \<open>i\<close> goes out.\<close>

definition send_message :: "bool \<Rightarrow> string \<Rightarrow> pyval list \<Rightarrow> (osc, unit) py" where
  "send_message up addr args =
     (\<lambda>s. if up then (Inr (), s\<lparr>sent := sent s @ [(addr, args)]\<rparr>) else (Inl OSError, s))"

definition poll_voice :: "dsp_lib \<Rightarrow> (nat \<Rightarrow> bool) \<Rightarrow> nat \<Rightarrow> (osc, unit) py" where
  "poll_voice lib up i =
     bnd (get_voice (int i)) (\<lambda>k. bnd (gets (quant_phase lib k)) (\<lambda>phase.
       bnd (gets (\<lambda>s. poll_last s ! i)) (\<lambda>prev.
         if phase_changed phase prev
         then seqn (send_message (up i) PHASE_ADDRESS [VInt (int i), VFloat phase])
                (modify (\<lambda>s. s\<lparr>poll_last := (poll_last s)[i := Some phase]\<rparr>))
         else ret ())))"

definition poll_once :: "dsp_lib \<Rightarrow> (nat \<Rightarrow> bool) \<Rightarrow> (osc, unit) py" where
  "poll_once lib up =
     bnd (gets (\<lambda>s. length (poll_last s))) (\<lambda>n. for_each [0..<n] (poll_voice lib up))"

definition poll_reset :: "osc \<Rightarrow> osc" where
  "poll_reset s = s\<lparr>poll_last := replicate (length (poll_last s)) None\<rparr>"

text \<open>The native scan: the phase is recorded first and a lost datagram goes unnoticed.\<close>

definition scan_voice :: "dsp_lib \<Rightarrow> (nat \<Rightarrow> bool) \<Rightarrow> nat \<Rightarrow> osc \<Rightarrow> osc" where
  "scan_voice lib up i s =
     (let phase = quant_phase lib i s
      in if phase_changed phase (poll_last s ! i)
         then let s1 = s\<lparr>poll_last := (poll_last s)[i := Some phase]\<rparr>
              in if up i then s1\<lparr>sent := sent s1 @ [(PHASE_ADDRESS, [VInt (int i), VFloat (to_f32 phase)])]\<rparr>
                 else s1
         else s)"

definition scan_locked :: "dsp_lib \<Rightarrow> (nat \<Rightarrow> bool) \<Rightarrow> osc \<Rightarrow> osc" where
  "scan_locked lib up s = fold (scan_voice lib up) [0..<length (poll_last s)] s"

text \<open>One turn of the poll thread: \<open>_run\<close> catches and counts what a scan raises.\<close>

definition poll_tick :: "dsp_lib \<Rightarrow> (nat \<Rightarrow> bool) \<Rightarrow> osc \<Rightarrow> osc" where
  "poll_tick lib up s =
     (if \<not> poll_on s then s
      else case obackend s of
          Native \<Rightarrow> scan_locked lib up s
        | PythonOsc \<Rightarrow> (case poll_once lib up s of
              (Inl _, s') \<Rightarrow> s'\<lparr>poll_errors := poll_errors s' + 1\<rparr>
            | (Inr _, s') \<Rightarrow> s'))"

text \<open>Starting the Python poll forgets the phases and the error count; the native one keeps them.\<close>

definition poll_start :: "osc \<Rightarrow> osc" where
  "poll_start s =
     (if poll_on s then s
      else case obackend s of
          Native \<Rightarrow> s\<lparr>poll_on := True\<rparr>
        | PythonOsc \<Rightarrow> (poll_reset s)\<lparr>poll_errors := 0, poll_on := True\<rparr>)"

definition poll_stop :: "osc \<Rightarrow> osc" where
  "poll_stop s = s\<lparr>poll_on := False\<rparr>"

section \<open>Handlers\<close>

text \<open>\<open>args[k]\<close>, and \<open>float(args[k]) if len(args) > k else d\<close>.\<close>

definition arg :: "pyval list \<Rightarrow> nat \<Rightarrow> pyexc + pyval" where
  "arg args k = (if k < length args then Inr (args ! k) else Inl IndexError)"

definition opt_float :: "pyval list \<Rightarrow> nat \<Rightarrow> flt \<Rightarrow> pyexc + flt" where
  "opt_float args k d = (if k < length args then py_float (args ! k) else Inr d)"

definition opt_int :: "pyval list \<Rightarrow> nat \<Rightarrow> int \<Rightarrow> pyexc + int" where
  "opt_int args k d = (if k < length args then py_int (args ! k) else Inr d)"

fun vf_call :: "vf \<Rightarrow> int \<Rightarrow> flt \<Rightarrow> ('z norns_scheme, unit) py" where
  "vf_call (VfParam name) i x = set_param name i x"
| "vf_call VfPosition i x = set_position i x"
| "vf_call VfEnabled i x = bool_setter ''play'' i (truthy x)"

fun iif_call :: "dsp_lib \<Rightarrow> iif \<Rightarrow> int \<Rightarrow> int \<Rightarrow> flt \<Rightarrow> ('z norns_scheme, unit) py" where
  "iif_call lib CutCut i j x = level_cut_cut i j x"
| "iif_call lib VoiceSync i j x = voice_sync lib i j x"

definition v_f :: "vf \<Rightarrow> pyval list \<Rightarrow> ('z norns_scheme, unit) py" where
  "v_f m args =
     bnd (lift (arg args 0)) (\<lambda>v. bnd (lift (arg args 1)) (\<lambda>x.
     bnd (lift (py_int v)) (\<lambda>i. bnd (lift (py_float x)) (\<lambda>f. vf_call m (i + 1) f))))"

definition ii_f :: "dsp_lib \<Rightarrow> iif \<Rightarrow> pyval list \<Rightarrow> ('z norns_scheme, unit) py" where
  "ii_f lib m args =
     bnd (lift (arg args 0)) (\<lambda>a. bnd (lift (arg args 1)) (\<lambda>b. bnd (lift (arg args 2)) (\<lambda>x.
     bnd (lift (py_int a)) (\<lambda>i. bnd (lift (py_int b)) (\<lambda>j. bnd (lift (py_float x)) (\<lambda>f.
       iif_call lib m (i + 1) (j + 1) f))))))"

text \<open>The right side is evaluated before the voice is looked up.\<close>

definition on_in_cut :: "pyval list \<Rightarrow> ('z norns_scheme, unit) py" where
  "on_in_cut args =
     bnd (lift (arg args 0)) (\<lambda>_. bnd (lift (arg args 1)) (\<lambda>v. bnd (lift (arg args 2)) (\<lambda>level.
     bnd (lift (py_float level)) (\<lambda>x. bnd (lift (py_int v)) (\<lambda>i. bnd (get_voice i) (\<lambda>k.
       set_attr k ''input_gain'' (PF x)))))))"

definition on_buffer :: "pyval list \<Rightarrow> ('z norns_scheme, unit) py" where
  "on_buffer args =
     bnd (lift (arg args 0)) (\<lambda>v. bnd (lift (arg args 1)) (\<lambda>b.
     bnd (lift (py_int v)) (\<lambda>i. bnd (lift (py_int b)) (\<lambda>j. buffer (i + 1) (j + 1)))))"

text \<open>The path argument as \<open>wave.open\<close> and \<open>pathlib\<close> take it.\<close>

definition arg_path :: "pyval list \<Rightarrow> pyexc + path" where
  "arg_path args = ebind (arg args 0) (\<lambda>v. Inr (path_of (py_str v)))"

definition on_read_mono :: "pyval list \<Rightarrow> ('z norns_scheme, unit) py" where
  "on_read_mono args =
     bnd (lift (arg_path args)) (\<lambda>p.
     bnd (lift (opt_float args 1 (Fin 0))) (\<lambda>start_src.
     bnd (lift (opt_float args 2 (Fin 0))) (\<lambda>start_dst.
     bnd (lift (opt_float args 3 (Fin (- 1)))) (\<lambda>dur.
     bnd (lift (opt_int args 4 0)) (\<lambda>ch_src.
     bnd (lift (opt_int args 5 0)) (\<lambda>ch_dst.
       buffer_read_mono p start_src start_dst dur (ch_src + 1) (ch_dst + 1) (Fin 0) (Fin 1)))))))"

definition on_read_stereo :: "pyval list \<Rightarrow> ('z norns_scheme, unit) py" where
  "on_read_stereo args =
     bnd (lift (arg_path args)) (\<lambda>p.
     bnd (lift (opt_float args 1 (Fin 0))) (\<lambda>start_src.
     bnd (lift (opt_float args 2 (Fin 0))) (\<lambda>start_dst.
     bnd (lift (opt_float args 3 (Fin (- 1)))) (\<lambda>dur.
       buffer_read_stereo p start_src start_dst dur (Fin 0) (Fin 1)))))"

definition on_write_mono :: "pyval list \<Rightarrow> ('z norns_scheme, unit) py" where
  "on_write_mono args =
     bnd (lift (arg_path args)) (\<lambda>p.
     bnd (lift (opt_float args 1 (Fin 0))) (\<lambda>start.
     bnd (lift (opt_float args 2 (Fin (- 1)))) (\<lambda>dur.
     bnd (lift (opt_int args 3 0)) (\<lambda>ch. buffer_write_mono p start dur (ch + 1)))))"

definition on_write_stereo :: "pyval list \<Rightarrow> ('z norns_scheme, unit) py" where
  "on_write_stereo args =
     bnd (lift (arg_path args)) (\<lambda>p.
     bnd (lift (opt_float args 1 (Fin 0))) (\<lambda>start.
     bnd (lift (opt_float args 2 (Fin (- 1)))) (\<lambda>dur. buffer_write_stereo p start dur)))"

definition on_clear_channel :: "pyval list \<Rightarrow> ('z norns_scheme, unit) py" where
  "on_clear_channel args =
     bnd (lift (ebind (arg args 0) py_int)) (\<lambda>ch. buffer_clear_channel (ch + 1))"

definition on_clear_region :: "pyval list \<Rightarrow> ('z norns_scheme, unit) py" where
  "on_clear_region args =
     bnd (lift (ebind (arg args 0) py_float)) (\<lambda>start. bnd (lift (ebind (arg args 1) py_float)) (\<lambda>dur.
       buffer_clear_region start dur (Fin 0) (Fin 0)))"

definition on_clear_region_channel :: "pyval list \<Rightarrow> ('z norns_scheme, unit) py" where
  "on_clear_region_channel args =
     bnd (lift (ebind (arg args 0) py_int)) (\<lambda>ch. bnd (lift (ebind (arg args 1) py_float)) (\<lambda>start.
     bnd (lift (ebind (arg args 2) py_float)) (\<lambda>dur.
       buffer_clear_region_channel (ch + 1) start dur (Fin 0) (Fin 0))))"

text \<open>The handlers that act on the host; the others act on the server itself.\<close>

fun host_handler :: "dsp_lib \<Rightarrow> handler \<Rightarrow> pyval list \<Rightarrow> ('z norns_scheme, unit) py" where
  "host_handler lib (SetVF m) args = v_f m args"
| "host_handler lib (SetIIF m) args = ii_f lib m args"
| "host_handler lib InCut args = on_in_cut args"
| "host_handler lib SetBuffer args = on_buffer args"
| "host_handler lib OnReadMono args = on_read_mono args"
| "host_handler lib OnReadStereo args = on_read_stereo args"
| "host_handler lib OnWriteMono args = on_write_mono args"
| "host_handler lib OnWriteStereo args = on_write_stereo args"
| "host_handler lib OnClear args = buffer_clear"
| "host_handler lib OnClearChannel args = on_clear_channel args"
| "host_handler lib OnClearRegion args = on_clear_region args"
| "host_handler lib OnClearRegionChannel args = on_clear_region_channel args"
| "host_handler lib OnReset args = reset_all"
| "host_handler lib _ args = ret ()"

fun run_handler :: "dsp_lib \<Rightarrow> handler \<Rightarrow> pyval list \<Rightarrow> (osc, unit) py" where
  "run_handler lib Quit args = modify (\<lambda>s. s\<lparr>oquit := True\<rparr>)"
| "run_handler lib PollStart args = modify poll_start"
| "run_handler lib PollStop args = modify poll_stop"
| "run_handler lib h args = host_handler lib h args"

text \<open>\<open>_dispatch\<close>: an unknown address is ignored, an exception of the handler is logged.\<close>

datatype outcome = Unknown | Handled | Failed pyexc

definition dispatch :: "dsp_lib \<Rightarrow> string \<Rightarrow> pyval list \<Rightarrow> osc \<Rightarrow> outcome \<times> osc" where
  "dispatch lib addr args s =
     (case map_of build_handlers addr of
        None \<Rightarrow> (Unknown, s)
      | Some h \<Rightarrow> (case run_handler lib h args s of
          (Inl e, s') \<Rightarrow> (Failed e, s') | (Inr _, s') \<Rightarrow> (Handled, s')))"

section \<open>The native receiver\<close>

text \<open>A parsed message: the address and the arguments with their type tags.\<close>

type_synonym tagged = "(char \<times> pyval) list"

definition float_params :: "(string \<times> fattr) list" where
  "float_params =
    [(''/set/param/cut/rate'', Rate), (''/set/param/cut/loop_start'', LoopStart),
     (''/set/param/cut/loop_end'', LoopEnd), (''/set/param/cut/fade_time'', FadeTime),
     (''/set/param/cut/rec_level'', RecLevel), (''/set/param/cut/pre_level'', PreLevel),
     (''/set/param/cut/rec_offset'', RecOffset), (''/set/param/cut/recpre_slew_time'', RecPreSlewTime),
     (''/set/param/cut/rate_slew_time'', RateSlewTime), (''/set/param/cut/phase_quant'', PhaseQuant),
     (''/set/param/cut/phase_offset'', PhaseOffset), (''/set/param/cut/pre_filter_fc'', PreFilterFc),
     (''/set/param/cut/pre_filter_fc_mod'', PreFilterFcMod), (''/set/param/cut/pre_filter_rq'', PreFilterRq),
     (''/set/param/cut/pre_filter_lp'', PreFilterLp), (''/set/param/cut/pre_filter_hp'', PreFilterHp),
     (''/set/param/cut/pre_filter_bp'', PreFilterBp), (''/set/param/cut/pre_filter_br'', PreFilterBr),
     (''/set/param/cut/pre_filter_dry'', PreFilterDry), (''/set/param/cut/post_filter_fc'', PostFilterFc),
     (''/set/param/cut/post_filter_rq'', PostFilterRq), (''/set/param/cut/post_filter_lp'', PostFilterLp),
     (''/set/param/cut/post_filter_hp'', PostFilterHp), (''/set/param/cut/post_filter_bp'', PostFilterBp),
     (''/set/param/cut/post_filter_br'', PostFilterBr), (''/set/param/cut/post_filter_dry'', PostFilterDry)]"

definition bool_params :: "(string \<times> battr) list" where
  "bool_params =
    [(''/set/param/cut/loop_flag'', Loop), (''/set/param/cut/rec_flag'', Rec),
     (''/set/param/cut/rec_once'', RecOnce), (''/set/param/cut/play_flag'', Play)]"

text \<open>
  The value of a fast message: tag \<open>f\<close> is already binary32, tag \<open>i\<close> is a 32-bit integer that is
  cast. Any other shape is not for the fast path.
\<close>

fun fast_args :: "tagged \<Rightarrow> (int \<times> flt) option" where
  "fast_args [(t0, VInt v), (t1, x)] =
     (if t0 \<noteq> CHR ''i'' then None
      else case x of
          VFloat f \<Rightarrow> if t1 = CHR ''f'' then Some (v, f) else None
        | VInt n \<Rightarrow> if t1 = CHR ''i'' then Some (v, f32_of_int n) else None
        | _ \<Rightarrow> None)"
| "fast_args _ = None"

text \<open>\<open>try_fast_dispatch\<close>: nothing when the message is left to the Python callback.\<close>

definition try_fast_dispatch :: "string \<Rightarrow> tagged \<Rightarrow> 'z engine_scheme \<Rightarrow> 'z engine_scheme option" where
  "try_fast_dispatch addr args s =
     (case fast_args args of
        None \<Rightarrow> None
      | Some (v, raw) \<Rightarrow>
          let bad = v < 0 \<or> int (length (voices s)) \<le> v
          in case map_of float_params addr of
               Some a \<Rightarrow> Some (if bad then s else post_float Osc (nat v) a raw s)
             | None \<Rightarrow> (case map_of bool_params addr of
                 Some b \<Rightarrow> Some (if bad then s else post_bool Osc (nat v) b (truthy raw) s)
               | None \<Rightarrow> None))"

text \<open>\<open>deliver\<close>: the arguments up to the first unknown tag, to \<open>_dispatch\<close> under the GIL.\<close>

definition delivered :: "tagged \<Rightarrow> pyval list" where
  "delivered args = map snd (takeWhile (\<lambda>(t, _). t \<in> set ''ifshdTF'') args)"

definition native_handle :: "dsp_lib \<Rightarrow> string \<Rightarrow> tagged \<Rightarrow> osc \<Rightarrow> osc" where
  "native_handle lib addr args s =
     (case try_fast_dispatch addr args s of
        Some s' \<Rightarrow> s'
      | None \<Rightarrow> snd (dispatch lib addr (delivered args) s))"

text \<open>A message on the socket of a serving server, whichever transport it has.\<close>

definition receive :: "dsp_lib \<Rightarrow> string \<Rightarrow> tagged \<Rightarrow> osc \<Rightarrow> osc" where
  "receive lib addr args s =
     (if \<not> ((serving s \<or> blocking s) \<and> sock_open s) then s
      else case obackend s of
          Native \<Rightarrow> native_handle lib addr args s
        | PythonOsc \<Rightarrow> snd (dispatch lib addr (map snd args) s))"

section \<open>Lifecycle\<close>

definition osc_start :: "osc \<Rightarrow> osc" where
  "osc_start s = s\<lparr>serving := True\<rparr>"

text \<open>
  \<open>shutdown\<close>. The Python transport's serve loop is told to stop only when it runs on the thread
  \<open>start\<close> made; a loop on the caller's own thread (\<open>blocking\<close>) is not.
\<close>

definition osc_shutdown :: "osc \<Rightarrow> osc" where
  "osc_shutdown s =
     (poll_stop s)\<lparr>blocking := (blocking s \<and> \<not> (obackend s = PythonOsc \<and> serving s)),
       serving := False, sock_open := False\<rparr>"

text \<open>
  What happens while the main thread waits: messages, audio blocks, poll turns, a \<open>shutdown\<close>
  from another thread, or Ctrl-C.
\<close>

datatype event = Message string tagged | Audio samples | Turn "nat \<Rightarrow> bool" | Shutdown | Interrupt

fun osc_event :: "dsp_lib \<Rightarrow> event \<Rightarrow> osc \<Rightarrow> osc" where
  "osc_event lib (Message addr args) s = receive lib addr args s"
| "osc_event lib (Audio ext) s = (if running s then callback lib ext s else s)"
| "osc_event lib (Turn up) s = poll_tick lib up s"
| "osc_event lib Shutdown s = osc_shutdown s"
| "osc_event lib Interrupt s = s"

text \<open>
  \<open>wait_for_quit\<close> over the events \<open>env k\<close>, \<open>env (k + 1)\<close>, ...: nothing when it never returns; the
  flag says that Ctrl-C ended the wait.
\<close>

partial_function (option) wait_for_quit ::
    "dsp_lib \<Rightarrow> (nat \<Rightarrow> event) \<Rightarrow> nat \<Rightarrow> osc \<Rightarrow> (bool \<times> osc) option" where
  "wait_for_quit lib env k s =
     (if oquit s then Some (False, s)
      else if env k = Interrupt then Some (True, s)
      else wait_for_quit lib env (Suc k) (osc_event lib (env k) s))"

text \<open>The serve loop of the Python transport on the caller's thread.\<close>

partial_function (option) serve_loop ::
    "dsp_lib \<Rightarrow> (nat \<Rightarrow> event) \<Rightarrow> nat \<Rightarrow> osc \<Rightarrow> (bool \<times> osc) option" where
  "serve_loop lib env k s =
     (if \<not> blocking s then Some (False, s)
      else if env k = Interrupt then Some (True, s\<lparr>blocking := False\<rparr>)
      else serve_loop lib env (Suc k) (osc_event lib (env k) s))"

definition serve_forever ::
    "dsp_lib \<Rightarrow> (nat \<Rightarrow> event) \<Rightarrow> osc \<Rightarrow> (bool \<times> osc) option" where
  "serve_forever lib env s =
     (case obackend s of
        Native \<Rightarrow> wait_for_quit lib env 0 (osc_start s)
      | PythonOsc \<Rightarrow> serve_loop lib env 0 (s\<lparr>blocking := True\<rparr>))"

text \<open>The command line of \<open>python -m softcut.osc\<close>, parsed.\<close>

record options =
  opt_listen_host :: string
  opt_backend :: string
  opt_voices :: int
  opt_rate :: flt
  opt_quirks :: string
  opt_no_audio :: bool

text \<open>
  \<open>main\<close>: the exit code 0 with the final state, or the exception it ends with; nothing when it
  runs forever. \<open>fs\<close> is the file system and \<open>dev\<close> says whether the audio device starts.
\<close>

definition main_osc ::
    "dsp_lib \<Rightarrow> bool \<Rightarrow> bool \<Rightarrow> int option \<Rightarrow> (path \<Rightarrow> node option) \<Rightarrow> bool \<Rightarrow> options
     \<Rightarrow> (nat \<Rightarrow> event) \<Rightarrow> (pyexc + int \<times> osc) option" where
  "main_osc lib native pyosc bind fs dev a env =
     (case new_norns (empty_store\<lparr>files := fs\<rparr>) dev (opt_rate a) (opt_voices a) DEFAULT_BUFFER_FRAMES ''duplex'' (opt_quirks a) of
        Inl e \<Rightarrow> Some (Inl e)
      | Inr h \<Rightarrow> (case new_osc native pyosc (opt_backend a) (opt_listen_host a) bind h of
          Inl e \<Rightarrow> Some (Inl e)
        | Inr s \<Rightarrow> (case (if opt_no_audio a then ret () else norns_start) s of
            (Inl e, _) \<Rightarrow> Some (Inl e)
          | (Inr _, s1) \<Rightarrow> (case wait_for_quit lib env 0 (osc_start s1) of
              None \<Rightarrow> None
            | Some (_, s2) \<Rightarrow>
                (case (if opt_no_audio a then ret () else norns_stop) (osc_shutdown s2) of
                   (Inl e, _) \<Rightarrow> Some (Inl e)
                 | (Inr _, s3) \<Rightarrow> Some (Inr (0, s3)))))))"

end
