(* ===== verification/Osc_Frame.thy ===== *)
theory Osc_Frame
  imports Osc_Server
begin

text \<open>
  What an OSC message may do to the host. The contract the handlers are written against is the
  locale \<open>host_kept\<close>: a property of the host state that every method of the host keeps is kept
  by every handler, whatever the arguments. It is instantiated with the host's invariant
  (\<open>wf\<close>), with the safety of the DSP buffers (\<open>safe\<close>) and with the state of the server itself,
  which no host method touches (\<open>more\<close>).
\<close>

locale host_kept =
  fixes J :: "'z norns_scheme \<Rightarrow> bool" and lib :: dsp_lib
  assumes param: "keeps J (set_param name i x)"
    and position: "keeps J (set_position i x)"
    and flag: "keeps J (bool_setter att i y)"
    and cut_cut: "keeps J (level_cut_cut i j x)"
    and sync: "keeps J (voice_sync lib i j x)"
    and voice: "keeps J (get_voice i)"
    and attrib: "keeps J (set_attr k att z)"
    and assign: "keeps J (buffer i b)"
    and buffers: "keeps J (buf_exec op)"
    and reset: "keeps J reset_all"
begin

lemma buffer_ops:
  "keeps J (buffer_read_mono p ss sd d cs cd pre mx)" "keeps J (buffer_read_stereo p ss sd d pre mx)"
  "keeps J (buffer_write_mono p st d ch)" "keeps J (buffer_write_stereo p st d)"
  "keeps J buffer_clear" "keeps J (buffer_clear_channel ch)" "keeps J (buffer_clear_region st d f pre)"
  "keeps J (buffer_clear_region_channel ch st d f pre)"
  using buffers [of "ReadMono p ss sd d cs cd pre mx"] buffers [of "ReadStereo p ss sd d pre mx"]
    buffers [of "WriteMono p st d ch"] buffers [of "WriteStereo p st d"] buffers [of Clear]
    buffers [of "ClearChannel ch"] buffers [of "ClearRegion st d f pre"]
    buffers [of "ClearRegionChannel ch st d f pre"]
  by simp_all

lemma calls: "keeps J (vf_call m i x)" "keeps J (iif_call lib n i j x)"
  by (cases m; simp add: param position flag) (cases n; simp add: cut_cut sync)

lemma handler: "keeps J (host_handler lib h args)"
proof -
  have "keeps J (v_f m args)" "keeps J (ii_f lib n args)" "keeps J (on_in_cut args)"
    "keeps J (on_buffer args)" for m n
    unfolding v_f_def ii_f_def on_in_cut_def on_buffer_def
    by (intro keeps_intro calls voice attrib assign)+
  moreover have "keeps J (on_read_mono args)" "keeps J (on_read_stereo args)"
    "keeps J (on_write_mono args)" "keeps J (on_write_stereo args)" "keeps J (on_clear_channel args)"
    "keeps J (on_clear_region args)" "keeps J (on_clear_region_channel args)"
    unfolding on_read_mono_def on_read_stereo_def on_write_mono_def on_write_stereo_def
      on_clear_channel_def on_clear_region_def on_clear_region_channel_def
    by (intro keeps_intro buffer_ops)+
  ultimately show ?thesis
    by (cases h) (simp_all add: reset buffer_ops keeps_ret)
qed

end

section \<open>The three instances\<close>

lemma frame_bool_setter [frame_intro]: "keeps (same_frame s) (bool_setter att i y)"
  unfolding bool_setter_def by (intro keeps_intro frame_intro)

interpretation wf: host_kept host_wf lib for lib
  by unfold_locales (auto intro!: keeps_host_wf host_wf_buffer host_wf_reset frame_intro)

interpretation safe: host_kept buffers_ok lib for lib
  by unfold_locales (auto simp: bool_setter_def intro!: keeps_intro)

text \<open>The fields of the host that only its constructor sets, and what extends it.\<close>

definition host_consts :: "'z norns_scheme \<Rightarrow> flt \<times> int \<times> (int \<Rightarrow> aref option) \<times> 'z" where
  "host_consts s = (nsr s, nvoices s, bufs s, norns.more s)"

lemma consts_more: "engine.more t = engine.more s \<Longrightarrow> host_consts t = host_consts s"
  using norns_more [of t s] by (simp add: host_consts_def)

lemma consts_assigned [simp]: "host_consts (s\<lparr>assigned := f\<rparr>) = host_consts s"
  by (simp add: host_consts_def)

lemma keeps_more: "(\<And>s. keeps (same_frame s) m) \<Longrightarrow> keeps (\<lambda>s. host_consts s = c) m"
  by (rule keepsI) (use keeps_frameD consts_more in \<open>force simp: same_frame_def\<close>)

lemma set_buffer_more: "engine.more (snd (set_buffer i a s)) = engine.more s"
proof -
  have "engine.more (snd (queue_apply Ctl c s)) = engine.more s" for c
    using frame_queue [of s Ctl c] by (simp add: same_frame_def)
  then show ?thesis
    by (simp add: set_buffer_def Let_def case_prod_beta)
qed

lemma keeps_more_buffer: "keeps (\<lambda>s. host_consts s = c) (buffer i b)"
proof -
  have sb: "keeps (\<lambda>s. host_consts s = c) (set_buffer k a)" for k a
    by (rule keepsI) (metis consts_more set_buffer_more)
  have v: "keeps (\<lambda>s. host_consts s = c) (voice_at i)"
    by (intro keeps_more frame_intro)
  show ?thesis
    unfolding buffer_def by (intro keeps_intro sb v) simp
qed

lemma keeps_more_reset: "keeps (\<lambda>s. host_consts s = c) reset_all"
  unfolding reset_all_def by (intro keeps_intro keeps_more_buffer keeps_more frame_intro)

interpretation more: host_kept "\<lambda>s. host_consts s = c" lib for c lib
  by unfold_locales (auto intro!: keeps_more keeps_more_buffer keeps_more_reset frame_intro)

section \<open>Dispatch\<close>

lemma osc_more:
  assumes "norns.more t = norns.more (s :: osc)"
  shows "obackend t = obackend s" "oquit t = oquit s" "poll_last t = poll_last s" "poll_on t = poll_on s"
    "poll_errors t = poll_errors s" "sent t = sent s" "serving t = serving s" "blocking t = blocking s"
    "sock_open t = sock_open s" "listen_host t = listen_host s" "bound_port t = bound_port s"
  using assms by (cases s; cases t; simp)+

text \<open>An update of the server's own fields is invisible to the host invariants.\<close>

lemma host_fields:
  assumes "norns.truncate t = norns.truncate s"
  shows "host_wf t = host_wf (s :: 'z norns_scheme)" "buffers_ok t = buffers_ok s"
  using assms
  by (cases s; cases t; simp add: norns.defs host_wf_def host_table_def buffers_ok_def fresh_mem_def)+

lemma handler_consts: "host_consts (snd (host_handler lib h args s)) = host_consts s"
  by (rule keepsD [OF more.handler]) simp

text \<open>What a message leaves alone.\<close>

definition same_server :: "osc \<Rightarrow> osc \<Rightarrow> bool" where
  "same_server s t \<longleftrightarrow> obackend t = obackend s \<and> sent t = sent s \<and> serving t = serving s
     \<and> blocking t = blocking s \<and> sock_open t = sock_open s \<and> listen_host t = listen_host s
     \<and> bound_port t = bound_port s \<and> length (poll_last t) = length (poll_last s)"

lemma poll_start_server:
  "same_server s (poll_start s)" "norns.truncate (poll_start s) = norns.truncate s"
  "oquit (poll_start s) = oquit s"
  by (cases "obackend s"; simp add: poll_start_def poll_reset_def same_server_def norns.defs)+

lemma run_handler_server:
  "same_server s (snd (run_handler lib h args s))
   \<and> oquit (snd (run_handler lib h args s)) = (oquit s \<or> h = Quit)"
proof -
  have "norns.more (snd (host_handler lib h args s)) = norns.more s"
    using handler_consts [of lib h args s] by (simp add: host_consts_def)
  then have "same_server s (snd (host_handler lib h args s))"
      "oquit (snd (host_handler lib h args s)) = oquit s"
    using osc_more [of "snd (host_handler lib h args s)" s] by (simp_all add: same_server_def)
  then show ?thesis
    using poll_start_server [of s]
    by (cases h) (simp_all add: modify_def poll_stop_def same_server_def)
qed

lemma run_handler_host:
  assumes "host_wf s" "buffers_ok s"
  shows "host_wf (snd (run_handler lib h args s)) \<and> buffers_ok (snd (run_handler lib h args s))"
proof -
  have "host_wf (snd (host_handler lib h args s))" "buffers_ok (snd (host_handler lib h args s))"
    using keepsD [OF wf.handler assms(1)] keepsD [OF safe.handler assms(2)] by blast+
  then show ?thesis
    using assms host_fields [of "poll_start s" s] host_fields [of "poll_stop s" s]
      host_fields [of "s\<lparr>oquit := True\<rparr>" s] poll_start_server(2) [of s]
    by (cases h) (simp_all add: modify_def poll_stop_def norns.defs)
qed

lemma run_handler_voices:
  "nvoices (snd (run_handler lib h args s)) = nvoices s"
  using handler_consts [of lib h args s]
  by (cases h) (simp_all add: host_consts_def modify_def poll_start_def poll_stop_def poll_reset_def
      split: backend.split)

lemma dispatch_result:
  "dispatch lib addr args s =
    (case map_of build_handlers addr of None \<Rightarrow> (Unknown, s)
     | Some h \<Rightarrow> (case fst (run_handler lib h args s) of Inl e \<Rightarrow> Failed e | Inr _ \<Rightarrow> Handled,
                 snd (run_handler lib h args s)))"
  by (auto simp: dispatch_def split: option.split prod.split sum.split)

lemma dispatch_server:
  "same_server s (snd (dispatch lib addr args s))
   \<and> oquit (snd (dispatch lib addr args s)) = (oquit s \<or> map_of build_handlers addr = Some Quit)"
  using run_handler_server [of s lib _ args]
  by (auto simp: dispatch_result same_server_def split: option.split)

lemma dispatch_host:
  assumes "host_wf s" "buffers_ok s"
  shows "host_wf (snd (dispatch lib addr args s)) \<and> buffers_ok (snd (dispatch lib addr args s))"
  using assms run_handler_host [OF assms, of lib _ args]
  by (auto simp: dispatch_result split: option.split)

lemma dispatch_voices: "nvoices (snd (dispatch lib addr args s)) = nvoices s"
  using run_handler_voices [of lib _ args s]
  by (auto simp: dispatch_result split: option.split)

section \<open>Polling\<close>

text \<open>The poll touches nothing but what it sent and remembers.\<close>

definition poll_frame :: "osc \<Rightarrow> osc \<Rightarrow> bool" where
  "poll_frame s t \<longleftrightarrow> norns.truncate t = norns.truncate s \<and> oquit t = oquit s \<and> obackend t = obackend s
     \<and> serving t = serving s \<and> blocking t = blocking s \<and> sock_open t = sock_open s
     \<and> poll_on t = poll_on s \<and> length (poll_last t) = length (poll_last s)"

lemma poll_frame_refl: "poll_frame s s"
  by (simp add: poll_frame_def)

lemma poll_frame_trans: "poll_frame s t \<Longrightarrow> poll_frame t u \<Longrightarrow> poll_frame s u"
  by (simp add: poll_frame_def)

lemma poll_voice_frame: "keeps (poll_frame s) (poll_voice lib up i)"
proof -
  have "keeps (poll_frame s) (get_voice k)" for k
    by (simp add: keeps_def get_voice_def)
  moreover have "keeps (poll_frame s) (send_message b addr args)" for b addr args
    by (simp add: keeps_def send_message_def poll_frame_def norns.defs)
  ultimately show ?thesis
    unfolding poll_voice_def by (intro keeps_intro) (simp_all add: poll_frame_def norns.defs)
qed

lemma poll_once_frame: "keeps (poll_frame s) (poll_once lib up)"
  unfolding poll_once_def by (intro keeps_intro poll_voice_frame)

lemma scan_voice_frame: "poll_frame s (scan_voice lib up i s)"
  by (simp add: scan_voice_def Let_def poll_frame_def norns.defs)

lemma scan_frame: "poll_frame s (scan_locked lib up s)"
proof -
  have "poll_frame s (fold (scan_voice lib up) is s)" for "is"
    by (induction "is" arbitrary: s) (auto intro: poll_frame_refl poll_frame_trans scan_voice_frame)
  then show ?thesis by (simp add: scan_locked_def)
qed

lemma poll_tick_frame: "poll_frame s (poll_tick lib up s)"
proof -
  obtain r t where t: "poll_once lib up s = (r, t)"
    by (metis surj_pair)
  have "poll_frame s t"
    using keepsD [OF poll_once_frame poll_frame_refl, of s lib up] t by simp
  moreover have "poll_frame t (t\<lparr>poll_errors := n\<rparr>)" for n
    by (simp add: poll_frame_def norns.defs)
  ultimately have "poll_frame s (case r of Inl _ \<Rightarrow> t\<lparr>poll_errors := poll_errors t + 1\<rparr> | Inr _ \<Rightarrow> t)"
    by (cases r) (auto intro: poll_frame_trans)
  then show ?thesis
    using scan_frame [of s lib up] t poll_frame_refl [of s]
    by (cases "obackend s"; cases r) (simp_all add: poll_tick_def)
qed

lemma poll_frame_host:
  assumes "poll_frame s t"
  shows "host_wf t = host_wf s" "buffers_ok t = buffers_ok s" "nvoices t = nvoices s"
proof -
  have tr: "norns.truncate t = norns.truncate s"
    using assms by (simp add: poll_frame_def)
  show "host_wf t = host_wf s" "buffers_ok t = buffers_ok s"
    using host_fields [OF tr] by simp_all
  show "nvoices t = nvoices s"
    using tr by (cases s; cases t) (simp add: norns.defs)
qed

end
