(* ===== verification/Osc_Props.thy ===== *)
theory Osc_Props
  imports Osc_Frame
begin

text \<open>
  The OSC server as a transition system: outside events and the calls of the program that owns
  it, in any order (\<open>osc_step\<close>, \<open>osc_reach\<close>), and its invariant \<open>osc_inv\<close>. Then two properties of
  a single message: it cannot corrupt the server, and the native fast path is the Python path.
\<close>

section \<open>The server's invariant\<close>

definition osc_inv :: "osc \<Rightarrow> bool" where
  "osc_inv s \<longleftrightarrow> host_wf s \<and> buffers_ok s \<and> length (poll_last s) = length (voices s)"

lemma host_wf_nvoices: "host_wf s \<Longrightarrow> nvoices s = int (length (voices s))"
  by (auto simp: host_wf_def host_table_def)

lemma osc_inv_frame:
  assumes "osc_inv s" "same_frame s t" "buffers_ok t"
  shows "osc_inv t"
proof -
  have "norns.more t = norns.more s"
    using assms(2) norns_more(5) by (auto simp: same_frame_def)
  then show ?thesis
    using assms host_wf_frame [OF assms(2)] osc_more [of t s] same_frame_length [OF assms(2)]
    by (simp add: osc_inv_def)
qed

lemma osc_inv_dispatch: "osc_inv s \<Longrightarrow> osc_inv (snd (dispatch lib addr args s))"
  using dispatch_host [of s lib addr args] dispatch_server [of s lib addr args]
    dispatch_voices [of lib addr args s]
    host_wf_nvoices [of s] host_wf_nvoices [of "snd (dispatch lib addr args s)"]
  by (simp add: osc_inv_def same_server_def)

lemma fast_frame:
  assumes "try_fast_dispatch addr args s = Some t"
  shows "same_frame s t" "buffers_ok s \<Longrightarrow> buffers_ok t"
  using assms
  by (auto simp: try_fast_dispatch_def Let_def same_frame_refl split: option.splits if_splits
      intro: frame_post_float frame_post_bool buffers_ok_post_float buffers_ok_post_bool)

lemma osc_inv_receive: "osc_inv s \<Longrightarrow> osc_inv (receive lib addr args s)"
proof -
  assume s: "osc_inv s"
  have "osc_inv (native_handle lib addr args s)"
  proof (cases "try_fast_dispatch addr args s")
    case None
    then show ?thesis using osc_inv_dispatch [OF s] by (simp add: native_handle_def)
  next
    case (Some t)
    then show ?thesis
      using osc_inv_frame [OF s fast_frame(1) [OF Some]] fast_frame(2) [OF Some] s
      by (simp add: native_handle_def osc_inv_def)
  qed
  then show ?thesis
    using s osc_inv_dispatch [OF s] by (simp add: receive_def split: backend.split)
qed

lemma osc_inv_fields:
  assumes "osc_inv s" "norns.truncate t = norns.truncate s" "length (poll_last t) = length (poll_last s)"
  shows "osc_inv t"
proof -
  have "voices t = voices s"
    using assms(2) by (cases s; cases t) (simp add: norns.defs)
  then show ?thesis
    using assms host_fields [OF assms(2)] by (simp add: osc_inv_def)
qed

lemma osc_inv_event:
  assumes "lib_ok lib" "osc_inv s"
  shows "osc_inv (osc_event lib e s)"
proof (cases e)
  case (Message addr args)
  then show ?thesis using osc_inv_receive assms(2) by simp
next
  case (Audio ext)
  have "osc_inv (callback lib ext s)"
    using assms by (intro osc_inv_frame [OF assms(2)] frame_callback buffers_ok_callback)
      (simp_all add: osc_inv_def)
  then show ?thesis using Audio assms(2) by simp
next
  case (Turn up)
  have "osc_inv (poll_tick lib up s)"
    using poll_tick_frame [of s lib up] by (intro osc_inv_fields [OF assms(2)]) (simp_all add: poll_frame_def)
  then show ?thesis using Turn by simp
next
  case Shutdown
  then show ?thesis
    by (auto simp: osc_shutdown_def poll_stop_def norns.defs intro!: osc_inv_fields [OF assms(2)])
qed (simp add: assms)

lemma osc_inv_exec:
  assumes "lib_ok lib" "osc_inv s"
  shows "osc_inv (host_exec lib op s)"
proof -
  have wf: "host_wf (host_exec lib op s)" "buffers_ok (host_exec lib op s)"
    using assms by (auto simp: osc_inv_def intro: host_wf_exec buffers_ok_exec)
  have "host_consts (host_exec lib op s) = host_consts s"
  proof (cases "(\<exists>i b. op = HBuffer i b) \<or> op = HReset")
    case True
    then show ?thesis
      by (auto intro!: keepsD [OF keeps_more_buffer] keepsD [OF keeps_more_reset])
  next
    case False
    then show ?thesis
      using host_exec_frame [OF assms(1), of op s] by (intro consts_more) (auto simp: same_frame_def)
  qed
  then show ?thesis
    using wf assms(2) osc_more(3) [of "host_exec lib op s" s] host_wf_nvoices [OF wf(1)]
      host_wf_nvoices [of s]
    by (simp add: osc_inv_def host_consts_def)
qed

section \<open>Reachable servers\<close>

text \<open>Events of the outside, and the calls of the program that owns the server.\<close>

inductive osc_step :: "dsp_lib \<Rightarrow> osc \<Rightarrow> osc \<Rightarrow> bool" for lib where
  event: "osc_step lib s (osc_event lib e s)"
| start: "osc_step lib s (osc_start s)"
| block: "osc_step lib s (s\<lparr>blocking := True\<rparr>)"
| host: "osc_step lib s (host_exec lib op s)"

inductive osc_reach :: "dsp_lib \<Rightarrow> osc \<Rightarrow> bool" for lib where
  init: "new_norns st dev sr nv bf mode quirks = Inr h \<Longrightarrow> mem st = (\<lambda>_. []) \<Longrightarrow>
         new_osc native pyosc name lhost bind h = Inr s \<Longrightarrow> osc_reach lib s"
| step: "osc_reach lib s \<Longrightarrow> osc_step lib s t \<Longrightarrow> osc_reach lib t"

lemma new_osc_eq:
  assumes "new_osc native pyosc name lhost bind h = Inr s"
  shows "\<exists>be port. resolve_backend native pyosc name = Inr be \<and> bind = Some port \<and> s = norns.extend h
    \<lparr>obackend = be, oquit = False, poll_last = replicate (length (voices h)) None, poll_on = False,
     poll_errors = 0, sent = [], serving = False, blocking = False, sock_open = True,
     listen_host = lhost, bound_port = port\<rparr>"
  using assms by (auto simp: new_osc_def ebind_eq_Inr split: option.splits)

lemma new_osc_ok:
  assumes "new_osc native pyosc name lhost bind h = Inr s"
  shows "length (poll_last s) = length (voices h)" "\<not> oquit s" "\<not> poll_on s"
    "\<not> serving s" "\<not> blocking s" "sock_open s" "voices s = voices h" "running s = running h"
    "device_ok s = device_ok h" "resolve_backend native pyosc name = Inr (obackend s)"
  using new_osc_eq [OF assms] by (auto simp: norns.defs)

lemma extend_host:
  "host_wf (norns.extend h m) = host_wf h" "buffers_ok (norns.extend h m) = buffers_ok h"
  by (simp_all add: host_wf_def host_table_def buffers_ok_def fresh_mem_def norns.defs)

lemma new_osc_inv:
  assumes "new_osc native pyosc name lhost bind h = Inr s" "host_wf h" "buffers_ok h"
  shows "osc_inv s"
proof -
  obtain m where "s = norns.extend h m"
    using new_osc_eq [OF assms(1)] by blast
  then have "host_wf s" "buffers_ok s"
    using assms(2,3) extend_host [of h m] by simp_all
  then show ?thesis
    using new_osc_ok(1,7) [OF assms(1)] by (simp add: osc_inv_def)
qed

lemma osc_reach_inv:
  assumes "lib_ok lib" "osc_reach lib s"
  shows "osc_inv s"
  using assms(2)
proof (induction rule: osc_reach.induct)
  case (init st dev sr nv bf mode quirks h native pyosc name lhost bind s)
  then show ?case
    using new_norns_wf [OF init(1,2)] by (blast intro: new_osc_inv)
next
  case (step s t)
  from step(2) show ?case
  proof (cases rule: osc_step.cases)
    case (event e)
    then show ?thesis using osc_inv_event [OF assms(1) step.IH] by simp
  next
    case start
    then show ?thesis
      by (auto simp: osc_start_def norns.defs intro!: osc_inv_fields [OF step.IH])
  next
    case block
    then show ?thesis
      by (auto simp: norns.defs intro!: osc_inv_fields [OF step.IH])
  next
    case (host op)
    then show ?thesis using osc_inv_exec [OF assms(1) step.IH] by simp
  qed
qed

lemma fresh_server:
  obtains s where "osc_reach thru_lib s" "host_wf s" "nvoices s = 2" "\<not> running s" "device_ok s"
    "obackend s = (if native then Native else PythonOsc)" "poll_last s = [None, None]" "sent s = []"
    "queues_wf s" "queued (oscq s) = []" "\<not> oquit s" "\<not> poll_on s" "\<not> serving s"
proof -
  obtain h where h: "new_norns empty_store True (Fin 48000) 2 4 ''duplex'' ''upstream'' = Inr h"
    and w: "host_wf h" "nvoices h = 2" "\<not> running h" "buffers_ok h" "device_ok h"
      "cmdq h = empty_ring" "oscq h = empty_ring"
    by (rule fresh_host)
  obtain s where s: "new_osc native True ''auto'' ''0.0.0.0'' (Some 9999) h = Inr s"
    by (cases native) (simp_all add: new_osc_def resolve_backend_def)
  then have r: "osc_reach thru_lib s"
    using h by (intro osc_reach.init [of empty_store]) (simp_all add: empty_store_def)
  have v: "length (voices h) = 2"
    using host_wf_nvoices [OF w(1)] w(2) by simp
  obtain be where "resolve_backend native True ''auto'' = Inr be" and
    s': "s = norns.extend h \<lparr>obackend = be, oquit = False, poll_last = replicate (length (voices h)) None,
      poll_on = False, poll_errors = 0, sent = [], serving = False, blocking = False, sock_open = True,
      listen_host = ''0.0.0.0'', bound_port = 9999\<rparr>"
    using new_osc_eq [OF s] by auto
  then have be: "be = (if native then Native else PythonOsc)"
    by (simp add: resolve_backend_def split: if_splits)
  have "host_wf s"
    unfolding s' extend_host by (rule w(1))
  moreover have "cmdq s = empty_ring" "oscq s = empty_ring" "nvoices s = 2" "\<not> running s" "device_ok s"
    "obackend s = be" "poll_last s = [None, None]" "sent s = []" "\<not> oquit s" "\<not> poll_on s" "\<not> serving s"
    unfolding s' using w v by (simp_all add: norns.defs numeral_2_eq_2)
  ultimately show ?thesis
    using that [OF r] be by (simp add: queues_wf_def)
qed

section \<open>The fast path\<close>

text \<open>The host parameter an address sets, if that is what it does.\<close>

definition param_name :: "string \<Rightarrow> string option" where
  "param_name addr = (case map_of build_handlers addr of
     Some (SetVF (VfParam name)) \<Rightarrow> Some name | _ \<Rightarrow> None)"

lemma param_name_Some: "param_name addr = Some name \<Longrightarrow> map_of build_handlers addr = Some (SetVF (VfParam name))"
  by (auto simp: param_name_def split: option.splits handler.splits vf.splits)

text \<open>The two dispatch tables agree, entry by entry.\<close>

lemma fast_floats_table:
  "list_all (\<lambda>(addr, a). Option.bind (Option.bind (param_name addr) (map_of FLOAT_PARAMS)) (map_of attr_table)
     = Some (FAttr a)) float_params"
  by code_simp

lemma fast_bools_table:
  "list_all (\<lambda>(addr, b). map_of float_params addr = None
     \<and> Option.bind (param_name addr) (map_of FLOAT_PARAMS) = None
     \<and> Option.bind (Option.bind (param_name addr) (map_of BOOL_PARAMS)) (map_of attr_table)
         = Some (BAttr b)) bool_params"
  by code_simp

lemma fast_float_handler:
  assumes "map_of float_params addr = Some a"
  obtains name att where "map_of build_handlers addr = Some (SetVF (VfParam name))"
    "map_of FLOAT_PARAMS name = Some att" "map_of attr_table att = Some (FAttr a)"
proof -
  have "Option.bind (Option.bind (param_name addr) (map_of FLOAT_PARAMS)) (map_of attr_table) = Some (FAttr a)"
    using fast_floats_table map_of_SomeD [OF assms] unfolding list_all_iff by blast
  then show ?thesis
    using that param_name_Some by (auto simp: bind_eq_Some_conv)
qed

lemma fast_bool_handler:
  assumes "map_of bool_params addr = Some b"
  obtains name att where "map_of float_params addr = None"
    "map_of build_handlers addr = Some (SetVF (VfParam name))" "map_of FLOAT_PARAMS name = None"
    "map_of BOOL_PARAMS name = Some att" "map_of attr_table att = Some (BAttr b)"
proof -
  have "map_of float_params addr = None \<and> Option.bind (param_name addr) (map_of FLOAT_PARAMS) = None
      \<and> Option.bind (Option.bind (param_name addr) (map_of BOOL_PARAMS)) (map_of attr_table) = Some (BAttr b)"
    using fast_bools_table map_of_SomeD [OF assms] unfolding list_all_iff by blast
  then show ?thesis
    using that param_name_Some by (auto simp: bind_eq_Some_conv)
qed

text \<open>The value of the message, as C casts it and as Python converts it.\<close>

fun wire_value :: "pyval \<Rightarrow> bool" where
  "wire_value (VFloat f) = is_flt F32 f"
| "wire_value (VInt n) = int32 n"
| "wire_value _ = False"

lemma f32_of_int_truthy:
  assumes "int32 n"
  shows "truthy (f32_of_int n) = (n \<noteq> 0)"
proof -
  have r: "representable F32 1" "representable F32 (2 ^ 64)"
    using rep_int [of 1 F32] rep_dyadic [of 1 F32 64] by (simp_all add: power_int_def)
  have big: "(of_int m :: rat) \<le> 2 ^ 64" if "m < 2 ^ 32" for m :: int
  proof -
    have "m \<le> 2 ^ 64" using that by simp
    then have "(of_int m :: rat) \<le> of_int (2 ^ 64)" by (subst of_int_le_iff)
    then show ?thesis by simp
  qed
  consider (zero) "n = 0" | (pos) "1 \<le> n" | (neg) "n \<le> - 1" by linarith
  then show ?thesis
  proof cases
    case zero
    then show ?thesis by (simp add: f32_of_int_def truthy_def)
  next
    case pos
    then have "1 \<le> (of_int n :: rat)" by simp
    then obtain q where "rnd F32 (of_int n) = Fin q" "1 \<le> q"
      using rnd_Fin_bounds [OF r, of "of_int n"] big [of n] assms by (auto simp: int32_def)
    then show ?thesis using pos by (simp add: f32_of_int_def truthy_def)
  next
    case neg
    then have "(of_int n :: rat) \<le> - 1"
      using of_int_le_iff [of n "- 1", where ?'a = rat] by simp
    moreover have "- (2 ^ 64) \<le> (of_int n :: rat)"
      using big [of "- n"] assms by (simp add: int32_def)
    ultimately obtain q where "rnd F32 (of_int n) = Fin q" "q \<le> - 1"
      using rnd_Fin_bounds [of F32 "- (2 ^ 64)" "- 1" "of_int n"] r by (auto simp: rep_minus)
    then show ?thesis using neg by (simp add: f32_of_int_def truthy_def)
  qed
qed

lemma wire_value_casts:
  assumes "wire_value x" "fast_args [(CHR ''i'', VInt v), (t, x)] = Some (v', raw)"
  obtains f where "v' = v" "py_float x = Inr f" "to_f32 f = raw" "truthy f = truthy raw"
proof (cases x)
  case (VInt n)
  then have n: "int32 n" "v' = v" "raw = f32_of_int n"
    using assms by (auto split: if_splits)
  have "rnd F64 (of_int n) = Fin (of_int n)"
    using n(1) by (intro rnd_rep rep_int) (auto simp: int32_def)
  then have "py_float x = Inr (Fin (of_int n))"
    using VInt by (simp add: float_of_int_def)
  then show ?thesis
    using that n f32_of_int_truthy [OF n(1)] by (simp add: to_f32_def f32_of_int_def truthy_def)
next
  case (VFloat f)
  then show ?thesis
    using assms that [of f] to_f32_id by (auto split: if_splits)
qed (use assms in auto)

lemma dsp_apply_any_queue:
  assumes "queues_wf s" "running s \<longrightarrow> used (cmdq s) < CAP - 1 \<and> used (oscq s) < CAP - 1"
    and "queued (oscq s) = []"
  shows "fst (dsp_apply q i e fl s) \<and> settled (snd (dsp_apply q i e fl s)) = vupd i (apply_ev e fl) (settled s)"
proof (cases q)
  case Ctl
  then show ?thesis
    using dsp_apply_settled [OF assms(1) _ assms(3)] assms(2) by (simp add: has_room_def)
next
  case Osc
  show ?thesis
  proof (cases "running s")
    case True
    then have "ring_wf (oscq s)" "length (queued (oscq s)) < CAP - 1"
      using assms(1,2) unfolding length_queued by (auto simp: queues_wf_def)
    then obtain r where "push (i, e, fl) (oscq s) = Some r" "queued r = queued (oscq s) @ [(i, e, fl)]"
      using ring.put_ok [of "oscq s" "(i, e, fl)"] by auto
    then show ?thesis
      using True assms(3) by (simp add: Osc dsp_apply_def queue_apply_def settled_def vrun_vupd)
  next
    case False
    then show ?thesis
      using assms(1) by (simp add: dsp_apply_def run_cmd_def settled_def queues_wf_def)
  qed
qed

definition both_room :: "'z engine_scheme \<Rightarrow> bool" where
  "both_room s \<longleftrightarrow> queues_wf s \<and> queued (oscq s) = []
     \<and> (running s \<longrightarrow> used (cmdq s) < CAP - 1 \<and> used (oscq s) < CAP - 1)"

lemma both_room_upd [simp]: "both_room (upd_voice i f s) = both_room s"
  by (simp add: both_room_def)

lemma dsp_apply_both:
  "both_room s \<Longrightarrow> fst (dsp_apply q i e fl s)"
  "both_room s \<Longrightarrow> settled (snd (dsp_apply q i e fl s)) = vupd i (apply_ev e fl) (settled s)"
  using dsp_apply_any_queue [of s q i e fl] by (simp_all add: both_room_def)

lemma post_any_queue:
  assumes "both_room s"
  shows "settled (post_float q i a x s) = settled (post_float q' i a x s)"
    and "settled (post_bool q i b y s) = settled (post_bool q' i b y s)"
  using assms
  by (simp_all add: post_float_def post_bool_def flag_apply_def Let_def case_prod_beta dsp_apply_both)

lemma dsp_apply_stopped: "\<not> running s \<Longrightarrow> dsp_apply q i e fl s = dsp_apply q' i e fl s"
  by (simp add: dsp_apply_def)

lemma post_stopped:
  assumes "\<not> running s"
  shows "post_float q i a x s = post_float q' i a x s" "post_bool q i b y s = post_bool q' i b y s"
  using assms dsp_apply_stopped [of "upd_voice i f s" q _ _ _ q' for f]
  by (simp_all add: post_float_def post_bool_def flag_apply_def Let_def case_prod_beta dsp_apply_def)

text \<open>C12. The native fast path is the Python path: a parameter message it takes over (a voice and a
  float or integer value, as they come off the wire) leaves the voices, once the queues are
  drained, exactly as the Python dispatch of the same message does, the same state when the
  engine is stopped, and the host tables untouched.\<close>

theorem fast_path_agrees:
  assumes "host_wf s" "both_room s" "wire_value x"
    and "try_fast_dispatch addr [(CHR ''i'', VInt v), (t, x)] s = Some s'"
    and "dispatch lib addr [VInt v, x] s = (r, s'')"
  shows "settled s' = settled s'' \<and> host_consts s' = host_consts s'' \<and> (\<not> running s \<longrightarrow> s' = s'')"
proof -
  obtain v' raw where fa: "fast_args [(CHR ''i'', VInt v), (t, x)] = Some (v', raw)"
    using assms(4) by (auto simp: try_fast_dispatch_def split: option.splits)
  obtain f where f: "v' = v" "py_float x = Inr f" "to_f32 f = raw" "truthy f = truthy raw"
    by (rule wire_value_casts [OF assms(3) fa])
  let ?bad = "v < 0 \<or> int (length (voices s)) \<le> v"
  note nv = host_wf_nvoices [OF assms(1)]
  have bad: "voice_at (v + 1) s = (Inl IndexError, s)" if ?bad
    using that nv by (intro voice_at_error) auto
  have good: "voice_at (v + 1) s = (Inr (nat v), s)" if "\<not> ?bad"
    using that voice_at_ok [OF nv, of "v + 1"] nv by simp
  have frame: "host_consts (post_float q i a y s) = host_consts s" "host_consts (post_bool q i b z s) = host_consts s"
    for q i a b y z
    using frame_post_float [of s q i a y] frame_post_bool [of s q i b z]
    by (auto simp: same_frame_def intro: consts_more)
  show ?thesis
  proof (cases "map_of float_params addr")
    case (Some a)
    obtain name att where h: "map_of build_handlers addr = Some (SetVF (VfParam name))"
      "map_of FLOAT_PARAMS name = Some att" "map_of attr_table att = Some (FAttr a)"
      by (rule fast_float_handler [OF Some])
    have "s'' = (if ?bad then s else post_float Ctl (nat v) a raw s)"
      using assms(5) h f bad good
      by (auto simp: dispatch_result v_f_def arg_def py_simps bnd_lift set_param_def float_setter_def
          bnd_Inl bnd_Inr set_attr_def set_float_def modify_def pyarg_float_def)
    moreover have "s' = (if ?bad then s else post_float Osc (nat v) a raw s)"
      using assms(4) fa f(1) Some by (simp add: try_fast_dispatch_def)
    ultimately show ?thesis
      using post_any_queue(1) [OF assms(2)] post_stopped(1) frame(1) by auto
  next
    case None
    then obtain b where b: "map_of bool_params addr = Some b"
      using assms(4) fa by (auto simp: try_fast_dispatch_def split: option.splits)
    obtain name att where h: "map_of build_handlers addr = Some (SetVF (VfParam name))"
      "map_of FLOAT_PARAMS name = None" "map_of BOOL_PARAMS name = Some att"
      "map_of attr_table att = Some (BAttr b)"
      by (rule fast_bool_handler [OF b])
    have "s'' = (if ?bad then s else post_bool Ctl (nat v) b (truthy raw) s)"
      using assms(5) h f bad good
      by (auto simp: dispatch_result v_f_def arg_def py_simps bnd_lift set_param_def bool_setter_def
          bnd_Inl bnd_Inr set_attr_def set_bool_def modify_def)
    moreover have "s' = (if ?bad then s else post_bool Osc (nat v) b (truthy raw) s)"
      using assms(4) fa f(1) None b by (simp add: try_fast_dispatch_def)
    ultimately show ?thesis
      using post_any_queue(2) [OF assms(2)] post_stopped(2) frame(2) by auto
  qed
qed

theorem fast_path_agrees_witness:
  "\<exists>s :: osc. try_fast_dispatch ''/set/param/cut/rate'' [(CHR ''i'', VInt 1), (CHR ''f'', VFloat (Fin 1))] s
     = Some (snd (dispatch thru_lib ''/set/param/cut/rate'' [VInt 1, VFloat (Fin 1)] s))"
proof -
  obtain s where "osc_reach thru_lib s" and s: "host_wf s" and "nvoices s = 2" and r: "\<not> running s"
    and "device_ok s" "obackend s = Native" "poll_last s = [None, None]" "sent s = []"
    and q: "queues_wf s" "queued (oscq s) = []"
    by (rule fresh_server [of True]) simp
  then have b: "both_room s" by (simp add: both_room_def)
  have w: "wire_value (VFloat (Fin 1))" by simp
  obtain s' where f: "try_fast_dispatch ''/set/param/cut/rate'' [(CHR ''i'', VInt 1), (CHR ''f'', VFloat (Fin 1))] s
      = Some s'"
    by (simp add: try_fast_dispatch_def float_params_def Let_def)
  obtain r s'' where d: "dispatch thru_lib ''/set/param/cut/rate'' [VInt 1, VFloat (Fin 1)] s = (r, s'')"
    by (metis surj_pair)
  show ?thesis
    using fast_path_agrees [OF s b w f d] r f d by (intro exI [of _ s]) simp
qed

end
