(* ===== verification/Dsp_Resampler.thy ===== *)
theory Dsp_Resampler
  imports Voice "HOL-Library.Word"
begin

text \<open>
  The bottom of softcut-lib's signal path, as vendored and patched under
  \<open>src/thirdparty/softcut-lib/softcut-lib\<close>: the record resampler (\<open>Resampler.h\<close>), the Hermite
  interpolation (\<open>Interpolate.h\<close>) and the soft clipper (\<open>SoftClip.h\<close>).

  The resampler turns one input sample into as many output samples as the write head moves over
  frames, in an array of 64. A write outside that array and a conversion of a float no integer
  of the target type holds are undefined behaviour in C++; here they end the computation with a
  \<open>dsp_fault\<close>. The fault-free range is the property \<open>resampler_safe_iff\<close>.
\<close>

datatype dsp_fault = BufferOverrun | OutputOverrun | TableOverrun | BadCast | IntOverflow

definition dbind :: "dsp_fault + 'a \<Rightarrow> ('a \<Rightarrow> dsp_fault + 'b) \<Rightarrow> dsp_fault + 'b" where
  "dbind r k = (case r of Inl e \<Rightarrow> Inl e | Inr a \<Rightarrow> k a)"

lemma dbind_simps [simp]: "dbind (Inl e) k = Inl e" "dbind (Inr a) k = k a"
  by (simp_all add: dbind_def)

lemma dbind_eq_Inr: "dbind r k = Inr b \<longleftrightarrow> (\<exists>a. r = Inr a \<and> k a = Inr b)"
  by (cases r) simp_all

lemma dbind_eq_Inl: "dbind r k = Inl e \<longleftrightarrow> r = Inl e \<or> (\<exists>a. r = Inr a \<and> k a = Inl e)"
  by (cases r) simp_all

section \<open>C++ arithmetic\<close>

text \<open>\<open>fabs\<close>; a comparison of the sign, \<open>fsign\<close> of \<open>Utilities.h\<close>; \<open>static_cast<int>\<close> and
  \<open>static_cast<unsigned int>\<close> of a float; \<open>std::min\<close> and \<open>std::max\<close>.\<close>

fun fabs :: "flt \<Rightarrow> flt" where
  "fabs (Fin q) = Fin \<bar>q\<bar>"
| "fabs NaN = NaN"
| "fabs _ = PInf"

definition fsign :: "flt \<Rightarrow> int" where
  "fsign x = (if flt_less (Fin 0) x then 1 else - 1)"

definition chop :: "rat \<Rightarrow> int" where
  "chop q = (if 0 \<le> q then \<lfloor>q\<rfloor> else \<lceil>q\<rceil>)"

definition cast_int :: "flt \<Rightarrow> dsp_fault + int" where
  "cast_int x =
     (case x of Fin q \<Rightarrow> if - (2 ^ 31) \<le> chop q \<and> chop q < 2 ^ 31 then Inr (chop q) else Inl BadCast
      | _ \<Rightarrow> Inl BadCast)"

definition cast_uint :: "flt \<Rightarrow> dsp_fault + nat" where
  "cast_uint x =
     (case x of Fin q \<Rightarrow> if 0 \<le> chop q \<and> chop q < 2 ^ 32 then Inr (nat (chop q)) else Inl BadCast
      | _ \<Rightarrow> Inl BadCast)"

definition std_min :: "flt \<Rightarrow> flt \<Rightarrow> flt" where
  "std_min a b = (if flt_less b a then b else a)"

definition std_max :: "flt \<Rightarrow> flt \<Rightarrow> flt" where
  "std_max a b = (if flt_less a b then b else a)"

text \<open>
  \<open>Interpolate::hermite<T>\<close>: the differences are taken in \<open>T\<close>, the literals are doubles, so the
  rest is computed in double.
\<close>

definition hermite :: "fmt \<Rightarrow> flt \<Rightarrow> flt \<Rightarrow> flt \<Rightarrow> flt \<Rightarrow> flt \<Rightarrow> flt" where
  "hermite T x y0 y1 y2 y3 =
     (let half = fmul F64 (Fin (1 / 2));
          c3 = fadd F64 (half (fsub T y3 y0)) (fmul F64 (Fin (3 / 2)) (fsub T y1 y2));
          c2 = fsub F64 (fadd F64 (fsub F64 y0 (fmul F64 (Fin (5 / 2)) y1)) (fmul F64 (Fin 2) y2)) (half y3);
          c1 = half (fsub T y2 y0)
      in fadd F64 (fmul F64 (fadd F64 (fmul F64 (fadd F64 (fmul F64 c3 x) c2) x) c1) x) y1)"

section \<open>The resampler\<close>

record resampler =
  rs_rate :: flt
  rs_phi :: flt
  rs_phase :: flt
  rs_in :: samples
  rs_idx :: nat
  rs_out :: samples

definition OUT_BUF_FRAMES :: nat where "OUT_BUF_FRAMES = 64"

definition new_resampler :: resampler where
  "new_resampler = \<lparr>rs_rate = Fin 1, rs_phi = Fin 1, rs_phase = Fin 0,
     rs_in = replicate 4 (Fin 0), rs_idx = 0, rs_out = replicate OUT_BUF_FRAMES (Fin 0)\<rparr>"

definition rs_set_rate :: "flt \<Rightarrow> resampler \<Rightarrow> resampler" where
  "rs_set_rate x r = r\<lparr>rs_rate := x, rs_phi := fdiv F64 (Fin 1) x\<rparr>"

definition push_input :: "flt \<Rightarrow> resampler \<Rightarrow> resampler" where
  "push_input x r = (let i = (rs_idx r + 1) mod 4 in r\<lparr>rs_idx := i, rs_in := (rs_in r)[i := x]\<rparr>)"

definition rs_interpolate :: "resampler \<Rightarrow> flt \<Rightarrow> flt" where
  "rs_interpolate r f =
     (let tap = (\<lambda>k. rs_in r ! ((rs_idx r + k) mod 4))
      in to_f32 (hermite F64 f (tap 1) (tap 2) (tap 3) (rs_in r ! rs_idx r)))"

definition put_out :: "nat \<Rightarrow> flt \<Rightarrow> samples \<Rightarrow> dsp_fault + samples" where
  "put_out i y out = (if i < length out then Inr (out[i := y]) else Inl OutputOverrun)"

text \<open>The loop of \<open>writeUp\<close>, with the number of turns left.\<close>

fun up_loop :: "nat \<Rightarrow> nat \<Rightarrow> resampler \<Rightarrow> flt \<Rightarrow> samples \<Rightarrow> dsp_fault + samples" where
  "up_loop 0 i r f out = Inr out"
| "up_loop (Suc n) i r f out =
     (let g = fadd F64 f (rs_phi r)
      in dbind (put_out i (rs_interpolate r g) out) (up_loop n (Suc i) r g))"

definition write_up :: "resampler \<Rightarrow> dsp_fault + nat \<times> resampler" where
  "write_up r =
     (let p = fadd F64 (rs_phase r) (rs_rate r)
      in dbind (cast_uint p) (\<lambda>nf.
         let f = fmul F64 (fsub F64 (Fin 1) (rs_phase r)) (rs_phi r)
         in dbind (put_out 0 (rs_interpolate r f) (rs_out r)) (\<lambda>out.
            dbind (up_loop nf 0 r f out) (\<lambda>out'.
              Inr (nf, r\<lparr>rs_out := out', rs_phase := fsub F64 p (Fin (of_nat nf))\<rparr>)))))"

definition write_down :: "resampler \<Rightarrow> dsp_fault + nat \<times> resampler" where
  "write_down r =
     (let p = fadd F64 (rs_phase r) (rs_rate r)
      in dbind (cast_uint p) (\<lambda>nf.
         if nf > 0
         then let f = fmul F64 (fsub F64 (Fin 1) (rs_phase r)) (rs_phi r)
              in dbind (put_out 0 (rs_interpolate r f) (rs_out r)) (\<lambda>out.
                   Inr (nf, r\<lparr>rs_out := out, rs_phase := fsub F64 p (Fin (of_nat nf))\<rparr>))
         else Inr (nf, r\<lparr>rs_phase := p\<rparr>)))"

definition process_frame :: "flt \<Rightarrow> resampler \<Rightarrow> dsp_fault + nat \<times> resampler" where
  "process_frame x r =
     (let r1 = push_input x r
      in if flt_less (Fin 1) (rs_rate r1) then write_up r1 else write_down r1)"

section \<open>The soft clipper\<close>

text \<open>\<open>SoftClip(0.68f, 1.2f)\<close>, the coefficients as \<open>calcCoeffs\<close> computes them.\<close>

definition clip_t :: flt where "clip_t = f32_lit (68 / 100)"
definition clip_g :: flt where "clip_g = f32_lit (12 / 10)"

definition clip_a :: flt where
  "clip_a = fdiv F32 clip_g (fmul F32 (Fin 2) (fsub F32 clip_t (Fin 1)))"

definition clip_b :: flt where
  "clip_b = (let t1 = fsub F32 clip_t (Fin 1)
     in fsub F32 (fmul F32 clip_g clip_t) (fmul F32 (fmul F32 clip_a t1) t1))"

definition soft_clip :: "flt \<Rightarrow> flt" where
  "soft_clip x =
     (let ax = (if flt_less (Fin 1) (fabs x) then Fin 1 else fabs x)
      in if flt_less ax clip_t then fmul F32 x clip_g
         else let q = fsub F32 ax (Fin 1)
              in fmul F32 (Fin (of_int (fsign x))) (fadd F32 (fmul F32 (fmul F32 clip_a q) q) clip_b))"

section \<open>Where the resampler stays inside its array\<close>

text \<open>The well-formed states: both arrays have their length and the phase is a fraction.\<close>

definition fraction :: "flt \<Rightarrow> bool" where
  "fraction x \<longleftrightarrow> (\<exists>q. x = Fin q \<and> 0 \<le> q \<and> q \<le> 1)"

definition rs_ok :: "resampler \<Rightarrow> bool" where
  "rs_ok r \<longleftrightarrow> length (rs_in r) = 4 \<and> rs_idx r < 4 \<and> length (rs_out r) = OUT_BUF_FRAMES
     \<and> fraction (rs_phase r)"

lemma rs_ok_new [simp]: "rs_ok new_resampler"
  by (simp add: rs_ok_def new_resampler_def fraction_def)

lemma rs_ok_set_rate [simp]: "rs_ok (rs_set_rate x r) = rs_ok r"
  by (simp add: rs_ok_def rs_set_rate_def)

lemma rs_ok_push [simp]: "rs_ok r \<Longrightarrow> rs_ok (push_input x r)"
  by (simp add: rs_ok_def push_input_def Let_def)

lemma push_input_keeps [simp]:
  "rs_rate (push_input x r) = rs_rate r" "rs_phase (push_input x r) = rs_phase r"
  "rs_out (push_input x r) = rs_out r"
  by (simp_all add: push_input_def Let_def)

lemma up_loop_fits:
  "i + n \<le> length out \<Longrightarrow> \<exists>out'. up_loop n i r f out = Inr out' \<and> length out' = length out"
proof (induction n arbitrary: i f out)
  case (Suc n)
  show ?case
    using Suc.IH [of "Suc i" "out[i := rs_interpolate r (fadd F64 f (rs_phi r))]" "fadd F64 f (rs_phi r)"]
      Suc.prems
    by (simp add: put_out_def Let_def)
qed simp

lemma up_loop_overruns:
  "i \<le> length out \<Longrightarrow> length out < i + n \<Longrightarrow> up_loop n i r f out = Inl OutputOverrun"
  by (induction n arbitrary: i f out) (auto simp: put_out_def Let_def)

lemma cast_uint_eq_Inr:
  "cast_uint x = Inr n \<longleftrightarrow> (\<exists>q. x = Fin q \<and> 0 \<le> chop q \<and> chop q < 2 ^ 32 \<and> n = nat (chop q))"
  by (auto simp: cast_uint_def split: flt.splits)

lemma chop_nonneg: "0 \<le> q \<Longrightarrow> chop q = \<lfloor>q\<rfloor>"
  by (simp add: chop_def)

lemma cast_uint_nonneg:
  "0 \<le> q \<Longrightarrow> q < 2 ^ 32 \<Longrightarrow> cast_uint (Fin q) = Inr (nat \<lfloor>q\<rfloor>)"
  by (simp add: cast_uint_def chop_nonneg floor_less_iff)

text \<open>What is left of a phase after taking its whole frames off is a fraction again.\<close>

lemma cast_rest_fraction:
  assumes "cast_uint p = Inr n" "\<And>q. p = Fin q \<Longrightarrow> 0 \<le> q"
  shows "fraction (fsub F64 p (Fin (of_nat n)))"
proof -
  obtain q where q: "p = Fin q" "0 \<le> q" "n = nat \<lfloor>q\<rfloor>"
    using assms by (auto simp: cast_uint_eq_Inr chop_nonneg)
  then have n: "of_nat n = (of_int \<lfloor>q\<rfloor> :: rat)"
    by simp
  have "0 \<le> q - of_int \<lfloor>q\<rfloor>" "q - of_int \<lfloor>q\<rfloor> \<le> 1"
    by linarith+
  then show ?thesis
    using rnd_Fin_bounds [of F64 0 1 "q - of_int \<lfloor>q\<rfloor>"] rep_int [of 1 F64]
    by (auto simp: q(1) n fraction_def)
qed

lemma fadd_nonneg:
  assumes "fadd F64 x y = Fin p" "\<And>a. x = Fin a \<Longrightarrow> 0 \<le> a" "\<And>b. y = Fin b \<Longrightarrow> 0 \<le> b"
  shows "0 \<le> p"
proof -
  obtain a b where ab: "x = Fin a" "y = Fin b"
    using assms(1) by (cases x; cases y) auto
  then have "rnd F64 (a + b) = Fin p" "0 \<le> a + b"
    using assms by simp_all
  then show ?thesis
    using ff.rnd_to_mono [of 0 "a + b" F64] by (auto simp: rnd_def Let_def split: if_splits)
qed

text \<open>One frame: how it ends, and that a frame that ends well leaves a well-formed resampler.\<close>

lemma fraction_Fin: "fraction (Fin q) \<longleftrightarrow> 0 \<le> q \<and> q \<le> 1"
  by (simp add: fraction_def)

lemma process_frame_cases:
  assumes "rs_ok r" "\<And>q. rs_rate r = Fin q \<Longrightarrow> 0 \<le> q" "fadd F64 (rs_phase r) (rs_rate r) = p"
  obtains (bad) e where "cast_uint p = Inl e" "process_frame x r = Inl e"
  | (over) n where "cast_uint p = Inr n" "OUT_BUF_FRAMES < n" "process_frame x r = Inl OutputOverrun"
  | (fine) n r' where "cast_uint p = Inr n" "n \<le> OUT_BUF_FRAMES" "process_frame x r = Inr (n, r')"
      "rs_ok r'" "rs_rate r' = rs_rate r"
proof (cases "cast_uint p")
  case (Inl e)
  then show ?thesis
    by (intro bad) (simp_all add: process_frame_def write_up_def write_down_def Let_def assms(3))
next
  case (Inr n)
  let ?r = "push_input x r"
  have nonneg: "0 \<le> q" if "p = Fin q" for q
    using fadd_nonneg [OF assms(3) [unfolded that]] assms(1,2) by (auto simp: rs_ok_def fraction_def)
  have ok: "rs_ok ?r" and out: "length (rs_out r) = OUT_BUF_FRAMES"
    using assms(1) by (simp, simp add: rs_ok_def)
  have first: "put_out 0 y (rs_out r) = Inr ((rs_out r)[0 := y])" for y
    using out by (simp add: put_out_def OUT_BUF_FRAMES_def)
  have rest: "fraction (fsub F64 p (Fin (of_nat n)))"
    by (rule cast_rest_fraction [OF Inr nonneg])
  show ?thesis
  proof (cases "flt_less (Fin 1) (rs_rate r)")
    case True
    let ?f = "fmul F64 (fsub F64 (Fin 1) (rs_phase r)) (rs_phi ?r)"
    let ?o = "(rs_out r)[0 := rs_interpolate ?r ?f]"
    have step: "process_frame x r = dbind (up_loop n 0 ?r ?f ?o) (\<lambda>out'.
        Inr (n, ?r\<lparr>rs_out := out', rs_phase := fsub F64 p (Fin (of_nat n))\<rparr>))"
      using True Inr by (simp add: process_frame_def write_up_def Let_def assms(3) first)
    show ?thesis
    proof (cases "n \<le> OUT_BUF_FRAMES")
      case True
      then obtain o' where "up_loop n 0 ?r ?f ?o = Inr o'" "length o' = OUT_BUF_FRAMES"
        using up_loop_fits [of 0 n ?o ?r ?f] out by auto
      with True ok rest show ?thesis
        by (intro fine [OF Inr, of "?r\<lparr>rs_out := o', rs_phase := fsub F64 p (Fin (of_nat n))\<rparr>"])
          (simp_all add: step rs_ok_def)
    next
      case False
      then show ?thesis
        using up_loop_overruns [of 0 ?o n ?r ?f] out by (intro over [OF Inr]) (simp_all add: step)
    qed
  next
    case False
    obtain q where q: "p = Fin q" "n = nat (chop q)"
      using Inr by (auto simp: cast_uint_eq_Inr)
    obtain a b where ab: "rs_phase r = Fin a" "0 \<le> a" "a \<le> 1" "rs_rate r = Fin b" "0 \<le> b" "b \<le> 1"
      using assms q(1) False by (cases "rs_rate r") (auto simp: rs_ok_def fraction_def)
    then have "q \<le> 2"
      using rnd_Fin_bounds [of F64 0 2 "a + b"] rep_int [of 2 F64] assms(3) q(1) by auto
    then have n: "n \<le> OUT_BUF_FRAMES"
      using nonneg [OF q(1)] by (simp add: q(2) chop_nonneg OUT_BUF_FRAMES_def nat_le_iff floor_le_iff)
    have "n = 0 \<Longrightarrow> fraction p"
      using nonneg [OF q(1)] by (simp add: q chop_nonneg fraction_Fin floor_less_iff)
    have step: "process_frame x r = Inr (n, if 0 < n
        then ?r\<lparr>rs_out := (rs_out r)[0 := rs_interpolate ?r
                (fmul F64 (fsub F64 (Fin 1) (rs_phase r)) (rs_phi ?r))],
               rs_phase := fsub F64 p (Fin (of_nat n))\<rparr>
        else ?r\<lparr>rs_phase := p\<rparr>)"
      using False Inr by (simp add: process_frame_def write_down_def Let_def assms(3) first)
    show ?thesis
      by (rule fine [OF Inr n step]) (use ok rest \<open>n = 0 \<Longrightarrow> fraction p\<close> in \<open>simp_all add: rs_ok_def\<close>)
  qed
qed

end
