(* ===== verification/Dsp_Curves.thy ===== *)
theory Dsp_Curves
  imports Dsp_Resampler
begin

text \<open>
  The fade curves of a voice (\<open>FadeCurves.cpp\<close>): two tables of 1001 points, rebuilt whenever a
  shape or a ratio changes, and read by linear interpolation (\<open>Interpolate::tabLinear\<close>) at the
  fade of a head. \<open>cosf\<close> and \<open>sinf\<close> of the C library are the parameter \<open>libm\<close>.

  The table filling loops write into a stack array of 1001 floats; \<open>put_at\<close> is such a write,
  which a point outside the array ends in \<open>TableOverrun\<close>. That no ratio, not even an infinite or
  undefined one, gets there is \<open>curves_total\<close>; that a fade in [0, 1] reads inside the tables is
  \<open>tab_linear_inside\<close>.
\<close>

record libm =
  lm_cos :: "flt \<Rightarrow> flt"
  lm_sin :: "flt \<Rightarrow> flt"
  lm_exp :: "flt \<Rightarrow> flt"
  lm_tan :: "flt \<Rightarrow> flt"

definition fadeBufSize :: nat where "fadeBufSize = 1001"

text \<open>\<open>fpi\<close> and \<open>(float) M_PI_2\<close>.\<close>

definition fpi :: flt where "fpi = f32_lit (31415926535898 / 10000000000000)"
definition half_pi :: flt where "half_pi = Fin (13176795 / 8388608)"

record fade_curves =
  rec_delay_ratio :: flt
  pre_window_ratio :: flt
  rec_delay_min :: nat
  pre_window_min :: nat
  rec_fade_buf :: samples
  pre_fade_buf :: samples
  rec_shape :: nat
  pre_shape :: nat
  curves_fixed :: bool

section \<open>Filling the tables\<close>

definition tableFrames :: "flt \<Rightarrow> nat \<Rightarrow> nat" where
  "tableFrames ratio mx =
     (let x = fmul F32 ratio (Fin (of_nat fadeBufSize))
      in if \<not> flt_less (Fin 0) x then 0
         else if \<not> flt_less x (Fin (of_nat mx)) then mx
         else (case x of Fin q \<Rightarrow> nat \<lfloor>q\<rfloor> | _ \<Rightarrow> mx))"

definition put_at :: "nat \<Rightarrow> flt \<Rightarrow> samples \<Rightarrow> dsp_fault + samples" where
  "put_at i y buf = (if i < length buf then Inr (buf[i := y]) else Inl TableOverrun)"

text \<open>\<open>while (i < n) { buf[i++] = g(x); x += phi; }\<close> with \<open>n - i\<close> turns left.\<close>

fun fill :: "nat \<Rightarrow> nat \<Rightarrow> (flt \<Rightarrow> flt) \<Rightarrow> flt \<Rightarrow> flt \<Rightarrow> samples \<Rightarrow> dsp_fault + samples" where
  "fill 0 i g x phi buf = Inr buf"
| "fill (Suc k) i g x phi buf =
     dbind (put_at i (g x) buf) (fill k (Suc i) g (fadd F32 x phi) phi)"

text \<open>
  The table of \<open>calcRecFade\<close>: zeros for the delay of \<open>d\<close> points, the curve over the rest, and 1 at
  the end. That of \<open>calcPreFade\<close>: the curve over a window of \<open>w\<close> points, zeros after it. The stack
  array starts uninitialized; every point is written before it is copied out.
\<close>

definition rec_table :: "samples \<Rightarrow> nat \<Rightarrow> flt \<Rightarrow> (flt \<Rightarrow> flt) \<Rightarrow> flt \<Rightarrow> dsp_fault + samples" where
  "rec_table stack d phi g x =
     dbind (fill d 0 (\<lambda>_. Fin 0) (Fin 0) (Fin 0) stack) (\<lambda>b.
     dbind (fill (fadeBufSize - 1 - d) d g x phi b)
       (put_at (fadeBufSize - 1) (Fin 1)))"

definition pre_table :: "samples \<Rightarrow> nat \<Rightarrow> flt \<Rightarrow> (flt \<Rightarrow> flt) \<Rightarrow> dsp_fault + samples" where
  "pre_table stack w phi g =
     dbind (fill w 0 g (Fin 0) phi stack)
       (fill (fadeBufSize - w) w (\<lambda>_. Fin 0) (Fin 0) (Fin 0))"

definition raised_cos :: "libm \<Rightarrow> flt \<Rightarrow> flt" where
  "raised_cos lm x = fadd F32 (fmul F32 (lm_cos lm x) (Fin (1 / 2))) (Fin (1 / 2))"

definition rec_delay_points :: "fade_curves \<Rightarrow> nat" where
  "rec_delay_points c = (let n = fadeBufSize - 1
     in min n (max (rec_delay_min c) (tableFrames (rec_delay_ratio c) n)))"

definition pre_window_points :: "fade_curves \<Rightarrow> nat" where
  "pre_window_points c =
     min fadeBufSize (max (pre_window_min c) (tableFrames (pre_window_ratio c) fadeBufSize))"

text \<open>A shape that is none of the three leaves the table as it was.\<close>

definition calc_rec_fade :: "libm \<Rightarrow> samples \<Rightarrow> fade_curves \<Rightarrow> dsp_fault + fade_curves" where
  "calc_rec_fade lm stack c =
     (let d = rec_delay_points c;
          nr = fadeBufSize - 1 - d;
          install = (\<lambda>t. dbind t (\<lambda>b. Inr (c\<lparr>rec_fade_buf := b\<rparr>)))
      in if rec_shape c = 1
         then install (rec_table stack d (fdiv F32 fpi (Fin (of_nat nr))) (raised_cos lm) fpi)
         else if rec_shape c = 0
         then install (rec_table stack d (fdiv F32 (Fin 1) (Fin (of_nat nr))) (\<lambda>x. x) (Fin 0))
         else if rec_shape c = 2
         then install (rec_table stack d (fdiv F32 fpi (Fin (of_nat (nr * 2))))
                (\<lambda>x. fmul F32 (lm_sin lm x) (if curves_fixed c then Fin 1 else Fin (- 1))) (Fin 0))
         else Inr c)"

definition calc_pre_fade :: "libm \<Rightarrow> samples \<Rightarrow> fade_curves \<Rightarrow> dsp_fault + fade_curves" where
  "calc_pre_fade lm stack c =
     (let w = pre_window_points c;
          install = (\<lambda>t. dbind t (\<lambda>b. Inr (c\<lparr>pre_fade_buf := b\<rparr>)))
      in if pre_shape c = 1
         then install (pre_table stack w (fdiv F32 fpi (Fin (of_nat w))) (raised_cos lm))
         else if pre_shape c = 0
         then install (pre_table stack w (fdiv F32 (Fin 1) (Fin (of_nat w))) (fsub F32 (Fin 1)))
         else if (if curves_fixed c then pre_shape c else rec_shape c) = 2
         then install (pre_table stack w (fdiv F32 fpi (Fin (of_nat (w * 2)))) (lm_cos lm))
         else Inr c)"

text \<open>The setters; \<open>init\<close> calls them in this order. \<open>stack\<close> is what the stack array holds.\<close>

definition set_rec_shape :: "libm \<Rightarrow> samples \<Rightarrow> nat \<Rightarrow> fade_curves \<Rightarrow> dsp_fault + fade_curves" where
  "set_rec_shape lm stack k c = calc_rec_fade lm stack (c\<lparr>rec_shape := k\<rparr>)"

definition set_pre_shape :: "libm \<Rightarrow> samples \<Rightarrow> nat \<Rightarrow> fade_curves \<Rightarrow> dsp_fault + fade_curves" where
  "set_pre_shape lm stack k c = calc_pre_fade lm stack (c\<lparr>pre_shape := k\<rparr>)"

definition set_rec_delay_ratio :: "libm \<Rightarrow> samples \<Rightarrow> flt \<Rightarrow> fade_curves \<Rightarrow> dsp_fault + fade_curves" where
  "set_rec_delay_ratio lm stack x c = calc_rec_fade lm stack (c\<lparr>rec_delay_ratio := x\<rparr>)"

definition set_pre_window_ratio :: "libm \<Rightarrow> samples \<Rightarrow> flt \<Rightarrow> fade_curves \<Rightarrow> dsp_fault + fade_curves" where
  "set_pre_window_ratio lm stack x c = calc_pre_fade lm stack (c\<lparr>pre_window_ratio := x\<rparr>)"

definition curves_init :: "libm \<Rightarrow> samples \<Rightarrow> bool \<Rightarrow> fade_curves \<Rightarrow> dsp_fault + fade_curves" where
  "curves_init lm stack fx c =
     dbind (set_pre_shape lm stack 0 (c\<lparr>curves_fixed := fx\<rparr>)) (\<lambda>c1.
     dbind (set_rec_shape lm stack 2 c1) (\<lambda>c2.
     dbind (calc_pre_fade lm stack (c2\<lparr>pre_window_min := 0\<rparr>)) (\<lambda>c3.
     dbind (calc_rec_fade lm stack (c3\<lparr>rec_delay_min := 0\<rparr>)) (\<lambda>c4.
     dbind (set_pre_window_ratio lm stack (Fin (1 / 8)) c4)
       (set_rec_delay_ratio lm stack (Fin (1 / 128)))))))"

section \<open>Reading them\<close>

definition tab_at :: "samples \<Rightarrow> nat \<Rightarrow> dsp_fault + flt" where
  "tab_at buf i = (if i < length buf then Inr (buf ! i) else Inl TableOverrun)"

definition tab_linear :: "samples \<Rightarrow> flt \<Rightarrow> dsp_fault + flt" where
  "tab_linear buf x =
     (let fi = fmul F32 x (Fin (of_nat (fadeBufSize - 2)))
      in dbind (cast_uint fi) (\<lambda>i.
         dbind (tab_at buf i) (\<lambda>a.
         dbind (tab_at buf (i + 1)) (\<lambda>b.
           Inr (fadd F32 a (fmul F32 (fsub F32 fi (f32_of_int (int i))) (fsub F32 b a)))))))"

section \<open>No write or read leaves a table\<close>

definition curves_ok :: "fade_curves \<Rightarrow> bool" where
  "curves_ok c \<longleftrightarrow> length (rec_fade_buf c) = fadeBufSize \<and> length (pre_fade_buf c) = fadeBufSize"

lemma fill_fits:
  "i + k \<le> length buf \<Longrightarrow> \<exists>b. fill k i g x phi buf = Inr b \<and> length b = length buf"
proof (induction k arbitrary: i x buf)
  case (Suc k)
  then show ?case
    using Suc.IH [of "Suc i" "buf[i := g x]" "fadd F32 x phi"] by (simp add: put_at_def)
qed simp

lemma rec_table_total:
  assumes "length stack = fadeBufSize" "d \<le> fadeBufSize - 1"
  shows "\<exists>b. rec_table stack d phi g x = Inr b \<and> length b = fadeBufSize"
proof -
  obtain b where b: "fill d 0 (\<lambda>_. Fin 0) (Fin 0) (Fin 0) stack = Inr b" "length b = fadeBufSize"
    using fill_fits [of 0 d stack] assms by (force simp: fadeBufSize_def)
  obtain b' where "fill (fadeBufSize - 1 - d) d g x phi b = Inr b'" "length b' = fadeBufSize"
    using fill_fits [of d "fadeBufSize - 1 - d" b] assms(2) b(2) by (force simp: fadeBufSize_def)
  with b show ?thesis
    by (simp add: rec_table_def put_at_def) (simp add: fadeBufSize_def)
qed

lemma pre_table_total:
  assumes "length stack = fadeBufSize" "w \<le> fadeBufSize"
  shows "\<exists>b. pre_table stack w phi g = Inr b \<and> length b = fadeBufSize"
proof -
  obtain b where b: "fill w 0 g (Fin 0) phi stack = Inr b" "length b = fadeBufSize"
    using fill_fits [of 0 w stack] assms by force
  then show ?thesis
    using fill_fits [of w "fadeBufSize - w" b] assms(2) by (force simp: pre_table_def)
qed

text \<open>
  What recomputing does: it succeeds on a stack array of the right size, whatever the ratios,
  and changes the one table only.
\<close>

lemma if_both: "P a \<Longrightarrow> P b \<Longrightarrow> P (if c then a else b)"
  by simp

lemma calc_rec_fade_total:
  assumes "length stack = fadeBufSize" "curves_ok c"
  shows "\<exists>b. calc_rec_fade lm stack c = Inr (c\<lparr>rec_fade_buf := b\<rparr>) \<and> length b = fadeBufSize"
proof -
  have d: "rec_delay_points c \<le> fadeBufSize - 1"
    by (simp add: rec_delay_points_def Let_def)
  have 1: "\<exists>b'. dbind (rec_table stack (rec_delay_points c) phi g x) (\<lambda>b. Inr (c\<lparr>rec_fade_buf := b\<rparr>))
      = Inr (c\<lparr>rec_fade_buf := b'\<rparr>) \<and> length b' = fadeBufSize" for phi g x
    using rec_table_total [OF assms(1) d, of phi g x] by auto
  have 2: "\<exists>b. Inr c = (Inr (c\<lparr>rec_fade_buf := b\<rparr>) :: dsp_fault + fade_curves) \<and> length b = fadeBufSize"
    using assms(2) by (intro exI [of _ "rec_fade_buf c"]) (simp add: curves_ok_def)
  show ?thesis
    unfolding calc_rec_fade_def Let_def
    by (intro if_both [where P = "\<lambda>t. \<exists>b. t = Inr (c\<lparr>rec_fade_buf := b\<rparr>) \<and> length b = fadeBufSize"] 1 2)
qed

lemma calc_pre_fade_total:
  assumes "length stack = fadeBufSize" "curves_ok c"
  shows "\<exists>b. calc_pre_fade lm stack c = Inr (c\<lparr>pre_fade_buf := b\<rparr>) \<and> length b = fadeBufSize"
proof -
  have w: "pre_window_points c \<le> fadeBufSize"
    by (simp add: pre_window_points_def)
  have 1: "\<exists>b'. dbind (pre_table stack (pre_window_points c) phi g) (\<lambda>b. Inr (c\<lparr>pre_fade_buf := b\<rparr>))
      = Inr (c\<lparr>pre_fade_buf := b'\<rparr>) \<and> length b' = fadeBufSize" for phi g
    using pre_table_total [OF assms(1) w, of phi g] by auto
  have 2: "\<exists>b. Inr c = (Inr (c\<lparr>pre_fade_buf := b\<rparr>) :: dsp_fault + fade_curves) \<and> length b = fadeBufSize"
    using assms(2) by (intro exI [of _ "pre_fade_buf c"]) (simp add: curves_ok_def)
  show ?thesis
    unfolding calc_pre_fade_def Let_def
    by (intro if_both [where P = "\<lambda>t. \<exists>b. t = Inr (c\<lparr>pre_fade_buf := b\<rparr>) \<and> length b = fadeBufSize"] 1 2)
qed

text \<open>Every setter succeeds and keeps the tables at their size.\<close>

lemma curves_ok_fields [simp]:
  "curves_ok (c\<lparr>rec_shape := k\<rparr>) = curves_ok c" "curves_ok (c\<lparr>pre_shape := k\<rparr>) = curves_ok c"
  "curves_ok (c\<lparr>rec_delay_ratio := x\<rparr>) = curves_ok c"
  "curves_ok (c\<lparr>pre_window_ratio := x\<rparr>) = curves_ok c"
  "curves_ok (c\<lparr>rec_delay_min := n\<rparr>) = curves_ok c" "curves_ok (c\<lparr>pre_window_min := n\<rparr>) = curves_ok c"
  "curves_ok (c\<lparr>curves_fixed := fx\<rparr>) = curves_ok c"
  by (simp_all add: curves_ok_def)

definition settings :: "fade_curves \<Rightarrow> flt \<times> flt \<times> nat \<times> nat" where
  "settings c = (rec_delay_ratio c, pre_window_ratio c, rec_shape c, pre_shape c)"

lemma recalc_total:
  assumes "length stack = fadeBufSize" "curves_ok c"
  shows "\<exists>c'. calc_rec_fade lm stack c = Inr c' \<and> curves_ok c' \<and> settings c' = settings c"
    and "\<exists>c'. calc_pre_fade lm stack c = Inr c' \<and> curves_ok c' \<and> settings c' = settings c"
  using calc_rec_fade_total [OF assms, of lm] calc_pre_fade_total [OF assms, of lm] assms(2)
  by (auto simp: curves_ok_def settings_def)

lemma curves_setters_total:
  assumes "length stack = fadeBufSize" "curves_ok c"
  shows "\<exists>c'. set_rec_shape lm stack k c = Inr c' \<and> curves_ok c' \<and> settings c' = settings (c\<lparr>rec_shape := k\<rparr>)"
    and "\<exists>c'. set_pre_shape lm stack k c = Inr c' \<and> curves_ok c' \<and> settings c' = settings (c\<lparr>pre_shape := k\<rparr>)"
    and "\<exists>c'. set_rec_delay_ratio lm stack x c = Inr c' \<and> curves_ok c'
           \<and> settings c' = settings (c\<lparr>rec_delay_ratio := x\<rparr>)"
    and "\<exists>c'. set_pre_window_ratio lm stack x c = Inr c' \<and> curves_ok c'
           \<and> settings c' = settings (c\<lparr>pre_window_ratio := x\<rparr>)"
  unfolding set_rec_shape_def set_pre_shape_def set_rec_delay_ratio_def set_pre_window_ratio_def
  by (rule recalc_total; simp add: assms)+

lemma curves_init_total:
  assumes "length stack = fadeBufSize" "curves_ok c"
  shows "\<exists>c'. curves_init lm stack fx c = Inr c' \<and> curves_ok c'
           \<and> settings c' = (Fin (1 / 128), Fin (1 / 8), 2, 0)"
proof -
  note set = curves_setters_total [OF assms(1)] and calc = recalc_total [OF assms(1)]
  obtain c1 where 1: "set_pre_shape lm stack 0 (c\<lparr>curves_fixed := fx\<rparr>) = Inr c1" "curves_ok c1"
      "settings c1 = settings (c\<lparr>curves_fixed := fx, pre_shape := 0\<rparr>)"
    using set(2) [of "c\<lparr>curves_fixed := fx\<rparr>"] assms(2) by auto
  obtain c2 where 2: "set_rec_shape lm stack 2 c1 = Inr c2" "curves_ok c2"
      "settings c2 = settings (c1\<lparr>rec_shape := 2\<rparr>)"
    using set(1) [OF 1(2)] by blast
  obtain c3 where 3: "calc_pre_fade lm stack (c2\<lparr>pre_window_min := 0\<rparr>) = Inr c3" "curves_ok c3"
      "settings c3 = settings c2"
    using calc(2) [of "c2\<lparr>pre_window_min := 0\<rparr>"] 2(2) by (auto simp: settings_def)
  obtain c4 where 4: "calc_rec_fade lm stack (c3\<lparr>rec_delay_min := 0\<rparr>) = Inr c4" "curves_ok c4"
      "settings c4 = settings c3"
    using calc(1) [of "c3\<lparr>rec_delay_min := 0\<rparr>"] 3(2) by (auto simp: settings_def)
  obtain c5 where 5: "set_pre_window_ratio lm stack (Fin (1 / 8)) c4 = Inr c5" "curves_ok c5"
      "settings c5 = settings (c4\<lparr>pre_window_ratio := Fin (1 / 8)\<rparr>)"
    using set(4) [OF 4(2)] by blast
  obtain c6 where 6: "set_rec_delay_ratio lm stack (Fin (1 / 128)) c5 = Inr c6" "curves_ok c6"
      "settings c6 = settings (c5\<lparr>rec_delay_ratio := Fin (1 / 128)\<rparr>)"
    using set(3) [OF 5(2)] by blast
  show ?thesis
    using 1 2 3 4 5 6 by (simp add: curves_init_def settings_def)
qed

text \<open>A fade in [0, 1] reads two points of the table.\<close>

lemma tab_linear_inside:
  assumes "fraction x" "length buf = fadeBufSize"
  shows "\<exists>y. tab_linear buf x = Inr y"
proof -
  obtain q where q: "x = Fin q" "0 \<le> q" "q \<le> 1"
    using assms(1) by (auto simp: fraction_def)
  have "\<exists>r. rnd F32 (q * of_nat (fadeBufSize - 2)) = Fin r \<and> 0 \<le> r \<and> r \<le> 999"
    using rnd_Fin_bounds [of F32 0 999 "q * of_nat (fadeBufSize - 2)"] rep_int [of 999 F32] q
    by (simp add: fadeBufSize_def)
  then obtain r where r: "rnd F32 (q * of_nat (fadeBufSize - 2)) = Fin r" "0 \<le> r" "r \<le> 999"
    by blast
  have "cast_uint (Fin r) = Inr (nat \<lfloor>r\<rfloor>)" "nat \<lfloor>r\<rfloor> \<le> 999"
    using r by (simp_all add: cast_uint_nonneg nat_le_iff floor_le_iff)
  then show ?thesis
    by (simp add: tab_linear_def Let_def q(1) r(1) tab_at_def assms(2))
      (simp add: fadeBufSize_def)
qed

end
