(* ===== verification/Dsp_Heads.thy ===== *)
theory Dsp_Heads
  imports Dsp_Curves
begin

text \<open>
  The crossfaded read/write head of a voice: the two subheads (\<open>SubHead.cpp\<close>) and the state machine
  that cuts, loops and fades between them (\<open>ReadWriteHead.cpp\<close>).

  Subheads are indexed by bool (0 is \<open>False\<close>). The sample buffer belongs to the caller: processing
  takes its contents and gives back the new ones, and an access outside them is \<open>BufferOverrun\<close>.
  Positions are doubles, gains and fades are floats, and indices are 32-bit words, as declared.
\<close>

unbundle bit_operations_syntax

type_synonym u32 = "32 word"

datatype hstate = Playing | Stopped | FadeIn | FadeOut
datatype action = NoAction | StopAction | LoopPos | LoopNeg

section \<open>One subhead\<close>

record sub_head =
  resamp :: resampler
  wr_idx :: u32
  buf_frames :: u32
  buf_mask :: u32
  hstate :: hstate
  hrate :: flt
  inc_dir :: int
  hphase :: flt
  hfade :: flt
  hactive :: bool
  rec_off :: int

definition new_sub_head :: sub_head where
  "new_sub_head = \<lparr>resamp = new_resampler, wr_idx = 0, buf_frames = 0, buf_mask = 0,
     hstate = Stopped, hrate = Fin 1, inc_dir = 1, hphase = Fin 0, hfade = Fin 0,
     hactive = False, rec_off = - 8\<rparr>"

definition sub_init :: "sub_head \<Rightarrow> sub_head" where
  "sub_init h = h\<lparr>hphase := Fin 0, hfade := Fin 0, hstate := Stopped,
     resamp := (resamp h)\<lparr>rs_phase := Fin 0\<rparr>, inc_dir := 1, rec_off := - 8\<rparr>"

definition wrap_index :: "u32 \<Rightarrow> sub_head \<Rightarrow> u32" where
  "wrap_index x h = (x + buf_frames h) AND buf_mask h"

text \<open>\<open>updatePhase\<close>: the two branches on the sign of the rate differ in the action only.\<close>

definition update_phase :: "flt \<Rightarrow> flt \<Rightarrow> bool \<Rightarrow> sub_head \<Rightarrow> action \<times> sub_head" where
  "update_phase start stop loop h =
     (if hstate h = Stopped then (NoAction, h)
      else let p = fadd F64 (hphase h) (hrate h)
           in if hactive h \<and> (flt_less stop p \<or> flt_less p start)
              then if loop then (if flt_less (Fin 0) (hrate h) then LoopPos else LoopNeg, h\<lparr>hphase := p\<rparr>)
                   else (StopAction, h\<lparr>hstate := FadeOut, hphase := p\<rparr>)
              else (NoAction, h\<lparr>hphase := p\<rparr>))"

definition update_fade :: "flt \<Rightarrow> sub_head \<Rightarrow> sub_head" where
  "update_fade inc h =
     (case hstate h of
        FadeIn \<Rightarrow> (let f = fadd F32 (hfade h) inc
                  in if flt_less (Fin 1) f then h\<lparr>hfade := Fin 1, hstate := Playing\<rparr> else h\<lparr>hfade := f\<rparr>)
      | FadeOut \<Rightarrow> (let f = fsub F32 (hfade h) inc
                   in if flt_less f (Fin 0) then h\<lparr>hfade := Fin 0, hstate := Stopped\<rparr> else h\<lparr>hfade := f\<rparr>)
      | _ \<Rightarrow> h)"

definition buf_at :: "samples \<Rightarrow> nat \<Rightarrow> dsp_fault + flt" where
  "buf_at buf i = (if i < length buf then Inr (buf ! i) else Inl BufferOverrun)"

definition step_index :: "sub_head \<Rightarrow> sub_head" where
  "step_index h = h\<lparr>wr_idx := wrap_index (wr_idx h + word_of_int (inc_dir h)) h\<rparr>"

text \<open>The write loop of \<open>poke\<close> over the resampled input: \<open>buf[w] *= pre; buf[w] += clip(y) * rec\<close>.\<close>

fun write_loop :: "flt \<Rightarrow> flt \<Rightarrow> flt list \<Rightarrow> samples \<Rightarrow> sub_head \<Rightarrow> dsp_fault + samples \<times> sub_head" where
  "write_loop pre rc [] buf h = Inr (buf, h)"
| "write_loop pre rc (y # ys) buf h =
     dbind (buf_at buf (unat (wr_idx h))) (\<lambda>old.
       write_loop pre rc ys
         (buf[unat (wr_idx h) := fadd F32 (fmul F32 old pre) (fmul F32 (soft_clip y) rc)])
         (step_index h))"

definition poke :: "fade_curves \<Rightarrow> flt \<Rightarrow> flt \<Rightarrow> flt \<Rightarrow> samples \<Rightarrow> sub_head \<Rightarrow> dsp_fault + samples \<times> sub_head" where
  "poke c x pre rc buf h =
     dbind (process_frame x (resamp h)) (\<lambda>(n, r).
       let h1 = h\<lparr>resamp := r\<rparr>
       in if hstate h = Stopped then Inr (buf, h1)
          else dbind (tab_linear (pre_fade_buf c) (hfade h)) (\<lambda>pf.
               dbind (tab_linear (rec_fade_buf c) (hfade h)) (\<lambda>rf.
                 write_loop (fadd F32 pre (fmul F32 (fsub F32 (Fin 1) pre) pf)) (fmul F32 rc rf)
                   (take n (rs_out r)) buf h1)))"

text \<open>\<open>peek4\<close>; the neighbours of the truncated phase are computed in \<open>int\<close>.\<close>

definition peek :: "samples \<Rightarrow> sub_head \<Rightarrow> dsp_fault + flt" where
  "peek buf h =
     dbind (cast_int (hphase h)) (\<lambda>p1.
       if p1 - 1 < - (2 ^ 31) \<or> 2 ^ 31 \<le> p1 + 2 then Inl IntOverflow
       else let tap = (\<lambda>k. buf_at buf (unat (wrap_index (word_of_int (p1 + k)) h)))
       in dbind (tap (- 1)) (\<lambda>y0. dbind (tap 0) (\<lambda>y1. dbind (tap 2) (\<lambda>y3. dbind (tap 1) (\<lambda>y2.
            let x = to_f32 (fsub F64 (hphase h) (f32_of_int p1))
            in Inr (to_f32 (hermite F32 x y0 y1 y2 y3)))))))"

definition set_phase :: "flt \<Rightarrow> sub_head \<Rightarrow> dsp_fault + sub_head" where
  "set_phase p h =
     dbind (cast_int p) (\<lambda>i.
       let w = i + inc_dir h * rec_off h
       in if - (2 ^ 31) \<le> w \<and> w < 2 ^ 31
          then Inr (h\<lparr>hphase := p, wr_idx := wrap_index (word_of_int w) h\<rparr>)
          else Inl IntOverflow)"

definition sub_set_buffer :: "nat \<Rightarrow> sub_head \<Rightarrow> sub_head" where
  "sub_set_buffer n h = h\<lparr>buf_frames := word_of_nat n, buf_mask := word_of_nat n - 1\<rparr>"

definition sub_set_rate :: "flt \<Rightarrow> sub_head \<Rightarrow> sub_head" where
  "sub_set_rate x h = h\<lparr>hrate := x, inc_dir := fsign (to_f32 x),
     resamp := rs_set_rate (fabs x) (resamp h)\<rparr>"

definition set_hstate :: "hstate \<Rightarrow> sub_head \<Rightarrow> sub_head" where
  "set_hstate st h = h\<lparr>hstate := st,
     hfade := (if st = Stopped then Fin 0 else if st = Playing then Fin 1 else hfade h)\<rparr>"

section \<open>The crossfading head\<close>

record rw_head =
  heads :: "bool \<Rightarrow> sub_head"
  act :: bool
  sr :: flt
  loop_start :: flt
  loop_end :: flt
  queued_pos :: flt
  queued_cut :: bool
  fade_time :: flt
  fade_inc :: flt
  loop_flag :: bool
  pre_lvl :: flt
  rec_lvl :: flt
  once_flag :: bool
  once_done :: bool
  once_head :: "bool option"
  rw_rate :: flt

definition calc_fade_inc :: "rw_head \<Rightarrow> rw_head" where
  "calc_fade_inc s =
     (let inc = fdiv F32 (to_f32 (fabs (rw_rate s))) (std_max (Fin 1) (fmul F32 (fade_time s) (sr s)))
      in s\<lparr>fade_inc := std_max (Fin 0) (std_min inc (Fin 1))\<rparr>)"

definition set_once_flag :: "bool \<Rightarrow> rw_head \<Rightarrow> rw_head" where
  "set_once_flag x s = s\<lparr>once_flag := x, once_done := False, once_head := None\<rparr>"

definition set_fade_time :: "flt \<Rightarrow> rw_head \<Rightarrow> rw_head" where
  "set_fade_time x s = calc_fade_inc (s\<lparr>fade_time := x\<rparr>)"

text \<open>The constructor's initializers, and \<open>init\<close>.\<close>

definition new_rw_head :: rw_head where
  "new_rw_head = \<lparr>heads = (\<lambda>_. new_sub_head), act = False, sr = Fin 48000, loop_start = Fin 0,
     loop_end = Fin 0, queued_pos = Fin 0, queued_cut = False, fade_time = f32_lit (1 / 10),
     fade_inc = Fin 0, loop_flag = False, pre_lvl = Fin 0, rec_lvl = Fin 0,
     once_flag = False, once_done = False, once_head = None, rw_rate = Fin 1\<rparr>"

definition rw_init :: "rw_head \<Rightarrow> rw_head" where
  "rw_init s =
     set_once_flag False
       ((set_fade_time (f32_lit (1 / 10)) (s\<lparr>loop_start := Fin 0, loop_end := Fin 0, act := False,
            rw_rate := Fin 1\<rparr>))
        \<lparr>queued_pos := Fin 0, queued_cut := False, heads := (\<lambda>i. sub_init (heads s i))\<rparr>)"

definition upd_head :: "bool \<Rightarrow> (sub_head \<Rightarrow> sub_head) \<Rightarrow> rw_head \<Rightarrow> rw_head" where
  "upd_head i f s = s\<lparr>heads := (heads s)(i := f (heads s i))\<rparr>"

definition both_heads :: "(sub_head \<Rightarrow> sub_head) \<Rightarrow> rw_head \<Rightarrow> rw_head" where
  "both_heads f s = s\<lparr>heads := (\<lambda>i. f (heads s i))\<rparr>"

definition fading :: "rw_head \<Rightarrow> bool" where
  "fading s \<longleftrightarrow> hstate (heads s (act s)) \<in> {FadeIn, FadeOut}"

text \<open>\<open>cutToPhase\<close>: the other head takes over, and a record-once pass starts or ends with it.\<close>

definition start_once :: "bool \<Rightarrow> rw_head \<Rightarrow> rw_head" where
  "start_once i s =
     (let s1 = (if once_head s = Some i then s\<lparr>once_head := None, once_done := True\<rparr> else s)
      in if once_flag s1 then s1\<lparr>once_flag := False, once_head := Some i\<rparr> else s1)"

definition cut_to_phase :: "flt \<Rightarrow> rw_head \<Rightarrow> dsp_fault + rw_head" where
  "cut_to_phase pos s =
     (if fading s then Inr s
      else let new = (\<not> act s);
               s1 = (if hstate (heads s (act s)) \<noteq> Stopped
                     then upd_head (act s) (set_hstate FadeOut) s else s);
               s2 = upd_head new (set_hstate FadeIn) (start_once new s1)
           in dbind (set_phase pos (heads s2 new)) (\<lambda>h.
                Inr ((upd_head new (\<lambda>_. h\<lparr>hactive := True\<rparr>)
                       (upd_head (act s) (\<lambda>h. h\<lparr>hactive := False\<rparr>) s2))\<lparr>act := new\<rparr>)))"

definition enqueue_cut :: "flt \<Rightarrow> rw_head \<Rightarrow> rw_head" where
  "enqueue_cut pos s = s\<lparr>queued_pos := pos, queued_cut := True\<rparr>"

definition dequeue_cut :: "rw_head \<Rightarrow> dsp_fault + rw_head" where
  "dequeue_cut s =
     (if fading s then Inr s
      else dbind (if queued_cut s then cut_to_phase (queued_pos s) s else Inr s)
             (\<lambda>t. Inr (t\<lparr>queued_cut := False\<rparr>)))"

definition take_action :: "action \<Rightarrow> rw_head \<Rightarrow> rw_head" where
  "take_action a s =
     (case a of LoopPos \<Rightarrow> enqueue_cut (loop_start s) s
      | LoopNeg \<Rightarrow> enqueue_cut (loop_end s) s
      | _ \<Rightarrow> s)"

definition cut_to_pos :: "flt \<Rightarrow> rw_head \<Rightarrow> dsp_fault + rw_head" where
  "cut_to_pos x s =
     (let pos = fmul F32 x (sr s)
      in if fading s then Inr (enqueue_cut pos s) else cut_to_phase pos s)"

section \<open>One sample\<close>

text \<open>
  The three variants of \<open>processSample\<close> share the move of the heads (\<open>advance\<close>), the write
  (\<open>write_heads\<close>) and the read (\<open>read_heads\<close>).
\<close>

definition move_head :: "bool \<Rightarrow> rw_head \<Rightarrow> rw_head" where
  "move_head i s =
     (let (a, h) = update_phase (loop_start s) (loop_end s) (loop_flag s) (heads s i)
      in take_action a (upd_head i (\<lambda>_. h) s))"

definition advance :: "rw_head \<Rightarrow> dsp_fault + rw_head" where
  "advance s =
     (let s1 = move_head True (move_head False s)
      in dequeue_cut (both_heads (update_fade (fade_inc s1)) s1))"

definition poke_head :: "fade_curves \<Rightarrow> flt \<Rightarrow> bool \<Rightarrow> samples \<times> rw_head \<Rightarrow> dsp_fault + samples \<times> rw_head" where
  "poke_head c x i = (\<lambda>(buf, s).
     dbind (poke c x (pre_lvl s) (rec_lvl s) buf (heads s i)) (\<lambda>(buf', h).
       Inr (buf', upd_head i (\<lambda>_. h) s)))"

definition once_active :: "rw_head \<Rightarrow> bool" where
  "once_active s \<longleftrightarrow> once_done s \<or> once_flag s \<or> once_head s \<noteq> None"

definition write_heads :: "fade_curves \<Rightarrow> flt \<Rightarrow> samples \<times> rw_head \<Rightarrow> dsp_fault + samples \<times> rw_head" where
  "write_heads c x bs =
     (if once_active (snd bs)
      then (case once_head (snd bs) of None \<Rightarrow> Inr bs | Some i \<Rightarrow> poke_head c x i bs)
      else dbind (poke_head c x False bs) (poke_head c x True))"

definition mix_fade :: "libm \<Rightarrow> flt \<Rightarrow> flt \<Rightarrow> flt \<Rightarrow> flt \<Rightarrow> flt" where
  "mix_fade lm x y a b =
     fadd F32 (fmul F32 x (lm_sin lm (fmul F32 a half_pi))) (fmul F32 y (lm_sin lm (fmul F32 b half_pi)))"

definition read_heads :: "libm \<Rightarrow> samples \<Rightarrow> rw_head \<Rightarrow> dsp_fault + flt" where
  "read_heads lm buf s =
     dbind (peek buf (heads s False)) (\<lambda>x. dbind (peek buf (heads s True)) (\<lambda>y.
       Inr (mix_fade lm x y (hfade (heads s False)) (hfade (heads s True)))))"

text \<open>
  A sample with the play and record flags: \<open>processSample\<close>, \<open>processSampleNoWrite\<close>,
  \<open>processSampleNoRead\<close> and the case of neither. The third leaves the output variable of the
  caller as it was, which is \<open>None\<close>.
\<close>

definition process_sample ::
  "libm \<Rightarrow> fade_curves \<Rightarrow> bool \<Rightarrow> bool \<Rightarrow> flt \<Rightarrow> samples \<times> rw_head \<Rightarrow> dsp_fault + flt option \<times> samples \<times> rw_head" where
  "process_sample lm c play rc x bs =
     (if \<not> play \<and> \<not> rc then Inr (Some (Fin 0), bs)
      else dbind (if play then dbind (read_heads lm (fst bs) (snd bs)) (\<lambda>y. Inr (Some y)) else Inr None) (\<lambda>out.
           dbind (if rc then write_heads c x bs else Inr bs) (\<lambda>(buf, s).
           dbind (advance s) (\<lambda>t. Inr (out, buf, t)))))"

section \<open>The other operations\<close>

definition rw_set_rate :: "flt \<Rightarrow> rw_head \<Rightarrow> rw_head" where
  "rw_set_rate x s = both_heads (sub_set_rate x) (calc_fade_inc (s\<lparr>rw_rate := x\<rparr>))"

definition set_loop_start :: "flt \<Rightarrow> rw_head \<Rightarrow> rw_head" where
  "set_loop_start x s = s\<lparr>loop_start := fmul F32 x (sr s), queued_cut := False\<rparr>"

definition set_loop_end :: "flt \<Rightarrow> rw_head \<Rightarrow> rw_head" where
  "set_loop_end x s = s\<lparr>loop_end := fmul F32 x (sr s), queued_cut := False\<rparr>"

definition rw_set_buffer :: "nat \<Rightarrow> rw_head \<Rightarrow> rw_head" where
  "rw_set_buffer n s = both_heads (sub_set_buffer n) s"

definition rw_stop :: "rw_head \<Rightarrow> rw_head" where
  "rw_stop s = both_heads (set_hstate Stopped) s"

definition rw_run :: "rw_head \<Rightarrow> rw_head" where
  "rw_run s = upd_head (act s) (set_hstate Playing) s"

definition set_rec_offset :: "int \<Rightarrow> rw_head \<Rightarrow> rw_head" where
  "set_rec_offset d s = both_heads (\<lambda>h. h\<lparr>rec_off := d\<rparr>) s"

lemmas head_ops = rw_set_rate_def set_loop_start_def set_loop_end_def rw_set_buffer_def rw_stop_def
  rw_run_def set_rec_offset_def set_fade_time_def set_once_flag_def enqueue_cut_def

end
