(* ===== verification/Dsp_Safe.thy ===== *)
theory Dsp_Safe
  imports Dsp_Heads
begin

text \<open>
  The invariant of the head state machine, and what follows for memory: after any operation at
  most one head leads (the other is stopped or fading out), both fades and the fade increment are
  in [0, 1], and as long as the buffer is the one the indices were computed for, no access
  leaves the buffer or a fade table.

  \<open>safe M P r\<close>: a result of \<open>r\<close> satisfies \<open>P\<close>, and, if \<open>M\<close>, no memory fault ends it. With \<open>M\<close> false
  it is partial correctness, which the invariant of the state machine needs and which holds whatever
  the buffer; with \<open>M\<close> true it is memory safety. \<open>safe_bind\<close> is the rule for sequencing.
\<close>

definition memory_fault :: "dsp_fault \<Rightarrow> bool" where
  "memory_fault f \<longleftrightarrow> f = BufferOverrun \<or> f = TableOverrun"

definition safe :: "bool \<Rightarrow> ('a \<Rightarrow> bool) \<Rightarrow> dsp_fault + 'a \<Rightarrow> bool" where
  "safe M P r = (case r of Inl f \<Rightarrow> M \<longrightarrow> \<not> memory_fault f | Inr a \<Rightarrow> P a)"

lemma safe_simps [simp]: "safe M P (Inl f) \<longleftrightarrow> (M \<longrightarrow> \<not> memory_fault f)" "safe M P (Inr a) \<longleftrightarrow> P a"
  by (simp_all add: safe_def)

lemma safe_bind: "safe M Q r \<Longrightarrow> (\<And>a. Q a \<Longrightarrow> safe M P (k a)) \<Longrightarrow> safe M P (dbind r k)"
  by (cases r) simp_all

lemma safe_weaken: "safe M Q r \<Longrightarrow> (\<And>a. Q a \<Longrightarrow> P a) \<Longrightarrow> safe M P r"
  by (cases r) simp_all

lemma safe_cast: "safe M (\<lambda>_. True) (cast_int x)" "safe M (\<lambda>_. True) (cast_uint x)"
  by (simp_all add: safe_def cast_int_def cast_uint_def memory_fault_def split: flt.split)

lemma safe_total: "(M \<Longrightarrow> \<exists>a. r = Inr a) \<Longrightarrow> safe M (\<lambda>_. True) r"
  by (cases r) auto

section \<open>Fractions\<close>

lemma fraction_between:
  assumes "x = rnd F32 q" "0 \<le> q" "q \<le> 1"
  shows "fraction x"
  using rnd_Fin_bounds [of F32 0 1 q] rep_int [of 1 F32] assms by (auto simp: fraction_def)

text \<open>The clamp of \<open>calcFadeInc\<close> is a fraction whatever it is applied to, a NaN included.\<close>

lemma fraction_clamp [simp]: "fraction (std_max (Fin 0) (std_min x (Fin 1)))"
  by (cases x) (auto simp: std_max_def std_min_def fraction_def)

lemma fraction_fade_in:
  assumes "fraction x" "fraction y"
  shows "flt_less (Fin 1) (fadd F32 x y) \<or> fraction (fadd F32 x y)"
proof -
  obtain a b where ab: "x = Fin a" "y = Fin b" "0 \<le> a" "a \<le> 1" "0 \<le> b" "b \<le> 1"
    using assms by (auto simp: fraction_def)
  obtain q where "rnd F32 (a + b) = Fin q" "0 \<le> q"
    using rnd_Fin_bounds [of F32 0 2 "a + b"] rep_int [of 2 F32] ab by auto
  with ab show ?thesis by (auto simp: fraction_def)
qed

lemma fraction_fade_out:
  assumes "fraction x" "fraction y"
  shows "flt_less (fsub F32 x y) (Fin 0) \<or> fraction (fsub F32 x y)"
proof -
  obtain a b where ab: "x = Fin a" "y = Fin b" "0 \<le> a" "a \<le> 1" "0 \<le> b" "b \<le> 1"
    using assms by (auto simp: fraction_def)
  obtain q where "rnd F32 (a - b) = Fin q" "q \<le> 1"
    using rnd_Fin_bounds [of F32 "-1" 1 "a - b"] rep_int [of 1 F32] rep_int [of "-1" F32] ab by auto
  with ab show ?thesis by (auto simp: fraction_def)
qed

section \<open>One subhead\<close>

definition sub_ok :: "sub_head \<Rightarrow> bool" where
  "sub_ok h \<longleftrightarrow> rs_ok (resamp h) \<and> (\<forall>q. rs_rate (resamp h) = Fin q \<longrightarrow> 0 \<le> q) \<and> fraction (hfade h)"

text \<open>The write index of a head is one that its mask lets through.\<close>

definition fits :: "u32 \<Rightarrow> sub_head \<Rightarrow> bool" where
  "fits m h \<longleftrightarrow> buf_mask h = m \<and> wr_idx h \<le> m"

lemma wrap_le: "wrap_index x h \<le> buf_mask h"
  by (simp add: wrap_index_def word_and_le1)

lemma wrap_inside: "unat (buf_mask h) < n \<Longrightarrow> unat (wrap_index x h) < n"
  using wrap_le [of x h] by (simp add: word_le_nat_alt)

lemma update_phase_keeps:
  "sub_ok h \<Longrightarrow> sub_ok (snd (update_phase a b l h))" "fits m h \<Longrightarrow> fits m (snd (update_phase a b l h))"
  by (simp_all add: update_phase_def sub_ok_def fits_def Let_def)

lemma update_phase_state:
  "hstate (snd (update_phase a b l h)) = hstate h \<or>
   hstate h \<noteq> Stopped \<and> hstate (snd (update_phase a b l h)) = FadeOut"
  by (simp add: update_phase_def Let_def)

lemma update_fade_keeps:
  "sub_ok h \<Longrightarrow> fraction inc \<Longrightarrow> sub_ok (update_fade inc h)" "fits m h \<Longrightarrow> fits m (update_fade inc h)"
  using fraction_fade_in [of "hfade h" inc] fraction_fade_out [of "hfade h" inc]
  by (auto simp: update_fade_def sub_ok_def fits_def Let_def fraction_Fin split: hstate.split)

lemma update_fade_state:
  "hstate h \<in> {Stopped, FadeOut} \<Longrightarrow> hstate (update_fade inc h) \<in> {Stopped, FadeOut}"
  by (auto simp: update_fade_def Let_def split: hstate.split)

lemma set_hstate_keeps [simp]:
  "sub_ok h \<Longrightarrow> sub_ok (set_hstate st h)" "fits m h \<Longrightarrow> fits m (set_hstate st h)"
  "hstate (set_hstate st h) = st"
  by (simp_all add: set_hstate_def sub_ok_def fits_def fraction_Fin)

lemma fabs_nonneg: "fabs x = Fin q \<Longrightarrow> 0 \<le> q"
  by (cases x) auto

lemma sub_set_rate_keeps [simp]:
  "sub_ok h \<Longrightarrow> sub_ok (sub_set_rate x h)" "fits m h \<Longrightarrow> fits m (sub_set_rate x h)"
  "hstate (sub_set_rate x h) = hstate h"
  using fabs_nonneg [of x] by (auto simp: sub_set_rate_def sub_ok_def fits_def rs_set_rate_def rs_ok_def)

lemma set_phase_safe:
  "safe M (\<lambda>h'. (sub_ok h \<longrightarrow> sub_ok h') \<and> (\<forall>m. fits m h \<longrightarrow> fits m h') \<and> hstate h' = hstate h) (set_phase p h)"
  unfolding set_phase_def
  by (intro safe_bind [OF safe_cast(1)])
    (auto simp: Let_def memory_fault_def sub_ok_def fits_def wrap_le)

lemma step_index_keeps:
  "sub_ok h \<Longrightarrow> sub_ok (step_index h)" "fits m h \<Longrightarrow> fits m (step_index h)"
  "hstate (step_index h) = hstate h"
  by (auto simp: step_index_def sub_ok_def fits_def wrap_index_def word_and_le1)

lemma write_loop_keeps:
  "write_loop pre rc ys buf h = Inr (buf', h') \<Longrightarrow> length buf' = length buf \<and> hstate h' = hstate h
     \<and> (fits m h \<longrightarrow> fits m h') \<and> (sub_ok h \<longrightarrow> sub_ok h')"
proof (induction ys arbitrary: buf h)
  case (Cons y ys)
  obtain old where "write_loop pre rc ys (buf[unat (wr_idx h) := fadd F32 (fmul F32 old pre)
      (fmul F32 (soft_clip y) rc)]) (step_index h) = Inr (buf', h')"
    using Cons.prems by (auto simp: dbind_eq_Inr)
  from Cons.IH [OF this] show ?case
    using step_index_keeps by simp
qed simp

lemma write_loop_inside:
  "fits m h \<Longrightarrow> unat m < length buf \<Longrightarrow> \<exists>r. write_loop pre rc ys buf h = Inr r"
proof (induction ys arbitrary: buf h)
  case (Cons y ys)
  have "unat (wr_idx h) < length buf"
    using Cons.prems by (simp add: fits_def word_le_nat_alt)
  with Cons.IH [of "step_index h"] step_index_keeps(2) [OF Cons.prems(1)] Cons.prems(2) show ?case
    by (simp add: buf_at_def)
qed simp

lemma frame_safe:
  assumes "sub_ok h"
  shows "safe M (\<lambda>(n, r). sub_ok (h\<lparr>resamp := r\<rparr>)) (process_frame x (resamp h))"
proof -
  have ok: "rs_ok (resamp h)" "\<And>q. rs_rate (resamp h) = Fin q \<Longrightarrow> 0 \<le> q"
    using assms by (auto simp: sub_ok_def)
  show ?thesis
  proof (rule process_frame_cases [OF ok refl, of x])
    fix e
    assume "cast_uint (fadd F64 (rs_phase (resamp h)) (rs_rate (resamp h))) = Inl e"
      "process_frame x (resamp h) = Inl e"
    then show ?thesis
      by (auto simp: memory_fault_def cast_uint_def split: flt.splits if_splits)
  qed (use assms in \<open>simp_all add: memory_fault_def sub_ok_def\<close>)
qed

lemma poke_safe:
  assumes "sub_ok h" "M \<Longrightarrow> curves_ok c" "M \<Longrightarrow> fits m h \<and> unat m < length buf"
  shows "safe M (\<lambda>(buf', h'). length buf' = length buf \<and> sub_ok h' \<and> (fits m h \<longrightarrow> fits m h')
           \<and> hstate h' = hstate h) (poke c x pre rc buf h)"
  unfolding poke_def
proof (rule safe_bind [OF frame_safe [OF assms(1)]])
  let ?P = "\<lambda>(buf', h'). length buf' = length buf \<and> sub_ok h' \<and> (fits m h \<longrightarrow> fits m h')
      \<and> hstate h' = hstate h"
  fix nr :: "nat \<times> resampler"
  assume nr: "case nr of (n, r) \<Rightarrow> sub_ok (h\<lparr>resamp := r\<rparr>)"
  obtain n r where nr_def: "nr = (n, r)"
    by force
  let ?h = "h\<lparr>resamp := r\<rparr>"
  have h: "sub_ok ?h" "fits m ?h = fits m h"
    using nr by (simp_all add: nr_def fits_def)
  have tab: "safe M (\<lambda>_. True) (tab_linear b (hfade h))" if "b = pre_fade_buf c \<or> b = rec_fade_buf c" for b
    using assms(1,2) that tab_linear_inside [of "hfade h" b]
    by (intro safe_total) (auto simp: sub_ok_def curves_ok_def)
  have loop: "safe M ?P (write_loop a b ys buf ?h)" for a b ys
  proof (cases "write_loop a b ys buf ?h")
    case (Inl f)
    then show ?thesis
      using write_loop_inside [of m ?h buf a b ys] assms(3) h(2) by auto
  next
    case (Inr q)
    then obtain buf' h' where "write_loop a b ys buf ?h = Inr (buf', h')" "q = (buf', h')"
      by (cases q) simp
    then show ?thesis
      using write_loop_keeps [of a b ys buf ?h buf' h' m] h by simp
  qed
  show "safe M ?P (case nr of (n, r) \<Rightarrow> let h1 = h\<lparr>resamp := r\<rparr> in
            if hstate h = Stopped then Inr (buf, h1)
            else dbind (tab_linear (pre_fade_buf c) (hfade h)) (\<lambda>pf.
                 dbind (tab_linear (rec_fade_buf c) (hfade h)) (\<lambda>rf.
                   write_loop (fadd F32 pre (fmul F32 (fsub F32 (Fin 1) pre) pf)) (fmul F32 rc rf)
                     (take n (rs_out r)) buf h1)))"
    using h by (auto simp: nr_def Let_def intro!: safe_bind [OF tab] loop)
qed

lemma peek_safe:
  assumes "M \<Longrightarrow> fits m h \<and> unat m < length buf"
  shows "safe M (\<lambda>_. True) (peek buf h)"
  unfolding peek_def
  using assms wrap_inside [of h "length buf"]
  by (intro safe_bind [OF safe_cast(1)])
    (cases M; auto simp: buf_at_def memory_fault_def Let_def fits_def safe_def split: sum.split)

section \<open>The crossfading head\<close>

definition one_leads :: "rw_head \<Rightarrow> bool" where
  "one_leads s \<longleftrightarrow> hstate (heads s (\<not> act s)) \<in> {Stopped, FadeOut}"

definition rw_ok :: "rw_head \<Rightarrow> bool" where
  "rw_ok s \<longleftrightarrow> (\<forall>i. sub_ok (heads s i)) \<and> fraction (fade_inc s) \<and> one_leads s"

definition rw_fits :: "u32 \<Rightarrow> rw_head \<Rightarrow> bool" where
  "rw_fits m s \<longleftrightarrow> (\<forall>i. fits m (heads s i))"

text \<open>Two heads never play at once: the assertion of \<open>processSampleNoRead\<close>.\<close>

lemma one_leads_not_both: "one_leads s \<Longrightarrow> \<not> (hstate (heads s False) = Playing \<and> hstate (heads s True) = Playing)"
  by (cases "act s") (auto simp: one_leads_def)

lemma rw_okI:
  assumes "rw_ok s" "\<And>i. sub_ok (heads s i) \<Longrightarrow> sub_ok (heads t i)" "fraction (fade_inc t)"
    "hstate (heads t (\<not> act t)) \<in> {Stopped, FadeOut}"
  shows "rw_ok t"
  using assms by (simp add: rw_ok_def one_leads_def)

lemma upd_head_simps [simp]:
  "heads (upd_head i f s) = (heads s)(i := f (heads s i))" "act (upd_head i f s) = act s"
  "fade_inc (upd_head i f s) = fade_inc s" "heads (both_heads g s) = (\<lambda>i. g (heads s i))"
  "act (both_heads g s) = act s" "fade_inc (both_heads g s) = fade_inc s"
  by (simp_all add: upd_head_def both_heads_def)

lemma start_once_simps [simp]:
  "heads (start_once i s) = heads s" "act (start_once i s) = act s" "fade_inc (start_once i s) = fade_inc s"
  by (simp_all add: start_once_def Let_def)

lemma take_action_simps [simp]:
  "heads (take_action a s) = heads s" "act (take_action a s) = act s"
  "fade_inc (take_action a s) = fade_inc s"
  by (simp_all add: take_action_def enqueue_cut_def split: action.split)

lemma set_phase_keeps:
  assumes "set_phase p h = Inr h'"
  shows "sub_ok h' = sub_ok h" "fits m h \<Longrightarrow> fits m h'" "hstate h' = hstate h"
  using assms
  by (auto simp: set_phase_def Let_def sub_ok_def fits_def dbind_eq_Inr wrap_index_def word_and_le1 split: if_splits)

lemma cut_to_phase_safe:
  assumes "rw_ok s"
  shows "safe M (\<lambda>t. rw_ok t \<and> (\<forall>m. rw_fits m s \<longrightarrow> rw_fits m t)) (cut_to_phase pos s)"
proof (cases "fading s")
  case True
  with assms show ?thesis by (simp add: cut_to_phase_def)
next
  case False
  let ?a = "act s"
  let ?s2 = "upd_head (\<not> ?a) (set_hstate FadeIn) (start_once (\<not> ?a)
      (if hstate (heads s ?a) \<noteq> Stopped then upd_head ?a (set_hstate FadeOut) s else s))"
  have s2: "heads ?s2 (\<not> ?a) = set_hstate FadeIn (heads s (\<not> ?a))" "fade_inc ?s2 = fade_inc s"
      "heads ?s2 ?a = (if hstate (heads s ?a) \<noteq> Stopped then set_hstate FadeOut (heads s ?a) else heads s ?a)"
    by simp_all
  have result: "cut_to_phase pos s = dbind (set_phase pos (heads ?s2 (\<not> ?a))) (\<lambda>h.
      Inr ((upd_head (\<not> ?a) (\<lambda>_. h\<lparr>hactive := True\<rparr>)
              (upd_head ?a (\<lambda>h. h\<lparr>hactive := False\<rparr>) ?s2))\<lparr>act := \<not> ?a\<rparr>))"
    using False by (simp only: cut_to_phase_def Let_def if_False)
  show ?thesis
  proof (cases "set_phase pos (heads ?s2 (\<not> ?a))")
    case (Inl f)
    then show ?thesis
      using set_phase_safe [where h = "heads ?s2 (\<not> ?a)" and p = pos] unfolding result Inl by simp
  next
    case (Inr h)
    note h = set_phase_keeps [OF Inr]
    let ?t = "(upd_head (\<not> ?a) (\<lambda>_. h\<lparr>hactive := True\<rparr>)
              (upd_head ?a (\<lambda>h. h\<lparr>hactive := False\<rparr>) ?s2))\<lparr>act := \<not> ?a\<rparr>"
    have t: "heads ?t (\<not> ?a) = h\<lparr>hactive := True\<rparr>" "heads ?t ?a = (heads ?s2 ?a)\<lparr>hactive := False\<rparr>"
      by simp_all
    have ext: "sub_ok (g\<lparr>hactive := b\<rparr>) = sub_ok g" "fits m (g\<lparr>hactive := b\<rparr>) = fits m g" for g b m
      by (simp_all add: sub_ok_def fits_def)
    have each: "P (heads ?t i)" if "P (heads ?t (\<not> ?a))" "P (heads ?t ?a)" for P i
      using that by (cases "i = ?a") simp_all
    have "sub_ok (heads ?t i)" for i
      by (rule each) (use assms h(1) in \<open>simp_all only: t ext s2, simp_all add: rw_ok_def\<close>)
    moreover have "fits m (heads ?t i)" if "rw_fits m s" for m i
      by (rule each) (use that h(2) [of m] in \<open>simp_all only: t ext s2, simp_all add: rw_fits_def\<close>)
    moreover have "hstate (heads ?t (\<not> act ?t)) \<in> {Stopped, FadeOut}"
      using False by (cases "hstate (heads s ?a)") (simp_all add: fading_def)
    ultimately have "rw_ok ?t \<and> (\<forall>m. rw_fits m s \<longrightarrow> rw_fits m ?t)"
      using assms by (simp add: rw_ok_def rw_fits_def one_leads_def del: upd_head_simps(1))
    then show ?thesis
      unfolding result Inr dbind_simps safe_simps .
  qed
qed

text \<open>\<open>goes s\<close>: where an operation on the head \<open>s\<close> of a well-formed voice may lead.\<close>

definition goes :: "rw_head \<Rightarrow> rw_head \<Rightarrow> bool" where
  "goes s t \<longleftrightarrow> rw_ok t \<and> (\<forall>m. rw_fits m s \<longrightarrow> rw_fits m t)"

lemma goes_refl: "rw_ok s \<Longrightarrow> goes s s"
  by (simp add: goes_def)

lemma goes_trans: "goes s t \<Longrightarrow> goes t u \<Longrightarrow> goes s u"
  by (simp add: goes_def)

lemma goes_heads:
  assumes "rw_ok s" "\<And>i. sub_ok (heads s i) \<Longrightarrow> sub_ok (heads t i)"
    "\<And>i m. fits m (heads s i) \<Longrightarrow> fits m (heads t i)" "fraction (fade_inc t)"
    "hstate (heads t (\<not> act t)) \<in> {Stopped, FadeOut}"
  shows "goes s t"
  using assms by (simp add: goes_def rw_ok_def one_leads_def rw_fits_def)

lemma inactive_state: "rw_ok s \<Longrightarrow> hstate (heads s (\<not> act s)) \<in> {Stopped, FadeOut}"
  by (simp add: rw_ok_def one_leads_def)

lemma fade_inc_ok: "rw_ok s \<Longrightarrow> fraction (fade_inc s)"
  by (simp add: rw_ok_def)

lemma dequeue_safe: "rw_ok s \<Longrightarrow> safe M (goes s) (dequeue_cut s)"
  using cut_to_phase_safe [where s = s and pos = "queued_pos s"]
  by (cases "cut_to_phase (queued_pos s) s")
    (auto simp: dequeue_cut_def goes_def rw_ok_def rw_fits_def one_leads_def)

lemma cut_to_pos_safe: "rw_ok s \<Longrightarrow> safe M (goes s) (cut_to_pos x s)"
  using cut_to_phase_safe [where s = s and pos = "fmul F32 x (sr s)"]
  by (auto simp: cut_to_pos_def Let_def goes_def [abs_def] enqueue_cut_def rw_ok_def rw_fits_def one_leads_def)

lemma move_head_goes:
  assumes "rw_ok s"
  shows "goes s (move_head i s)"
proof -
  let ?u = "update_phase (loop_start s) (loop_end s) (loop_flag s) (heads s i)"
  have "move_head i s = take_action (fst ?u) (upd_head i (\<lambda>_. snd ?u) s)"
    by (simp add: move_head_def split: prod.split)
  then show ?thesis
    using update_phase_state [of "loop_start s" "loop_end s" "loop_flag s" "heads s i"]
      inactive_state [OF assms] fade_inc_ok [OF assms]
    by (intro goes_heads [OF assms]) (auto simp: update_phase_keeps split: if_splits)
qed

lemma advance_safe:
  assumes "rw_ok s"
  shows "safe M (goes s) (advance s)"
proof -
  let ?m = "move_head True (move_head False s)"
  have m: "goes s ?m"
    using assms move_head_goes by (meson goes_def goes_trans)
  then have ok: "rw_ok ?m"
    by (simp add: goes_def)
  have f: "goes ?m (both_heads (update_fade (fade_inc ?m)) ?m)"
    using inactive_state [OF ok] fade_inc_ok [OF ok]
    by (intro goes_heads [OF ok]) (simp_all add: update_fade_keeps update_fade_state [simplified])
  then have "rw_ok (both_heads (update_fade (fade_inc ?m)) ?m)"
    by (simp add: goes_def)
  then show ?thesis
    unfolding advance_def Let_def
    by (rule safe_weaken [OF dequeue_safe]) (use m f goes_trans in blast)
qed

text \<open>A state of a block in progress: the buffer's contents and the head.\<close>

definition block_ok :: "bool \<Rightarrow> u32 \<Rightarrow> nat \<Rightarrow> samples \<times> rw_head \<Rightarrow> bool" where
  "block_ok M m n bs \<longleftrightarrow> length (fst bs) = n \<and> rw_ok (snd bs) \<and> (M \<longrightarrow> unat m < n \<and> rw_fits m (snd bs))"

lemma block_ok_goes: "block_ok M m n (buf, s) \<Longrightarrow> goes s t \<Longrightarrow> block_ok M m n (buf, t)"
  by (simp add: block_ok_def goes_def)

lemma poke_head_safe:
  assumes "block_ok M m n bs" "M \<Longrightarrow> curves_ok c"
  shows "safe M (block_ok M m n) (poke_head c x i bs)"
proof -
  obtain buf s where bs: "bs = (buf, s)"
    by force
  have h: "length buf = n" "sub_ok (heads s i)" "rw_ok s" "M \<Longrightarrow> rw_fits m s"
    "M \<Longrightarrow> fits m (heads s i) \<and> unat m < length buf"
    using assms(1) by (simp_all add: bs block_ok_def rw_ok_def rw_fits_def)
  show ?thesis
    unfolding bs poke_head_def prod.case
  proof (rule safe_bind [OF poke_safe [OF h(2) assms(2) h(5)]])
    fix r :: "samples \<times> sub_head"
    assume r: "case r of (buf', h') \<Rightarrow> length buf' = length buf \<and> sub_ok h'
        \<and> (fits m (heads s i) \<longrightarrow> fits m h') \<and> hstate h' = hstate (heads s i)"
    obtain buf' h' where r_def: "r = (buf', h')"
      by force
    have "rw_ok (upd_head i (\<lambda>_. h') s)"
      using r inactive_state [OF h(3)] fade_inc_ok [OF h(3)]
      by (intro rw_okI [OF h(3)]) (auto simp: r_def split: if_splits)
    moreover have "M \<Longrightarrow> rw_fits m (upd_head i (\<lambda>_. h') s)"
      using r h(4,5) by (simp add: r_def rw_fits_def)
    ultimately show "safe M (block_ok M m n) (case r of (buf', h) \<Rightarrow> Inr (buf', upd_head i (\<lambda>_. h) s))"
      using r h(1,5) by (simp add: r_def block_ok_def)
  qed
qed

lemma write_heads_safe:
  assumes "block_ok M m n bs" "M \<Longrightarrow> curves_ok c"
  shows "safe M (block_ok M m n) (write_heads c x bs)"
proof -
  have "safe M (block_ok M m n) (dbind (poke_head c x False bs) (poke_head c x True))"
    by (rule safe_bind [OF poke_head_safe [OF assms] poke_head_safe [OF _ assms(2)]])
  then show ?thesis
    using assms(1) poke_head_safe [OF assms] by (auto simp: write_heads_def split: option.split)
qed

lemma read_heads_safe:
  assumes "block_ok M m n (buf, s)"
  shows "safe M (\<lambda>_. True) (read_heads lm buf s)"
proof -
  have f: "M \<Longrightarrow> fits m (heads s i) \<and> unat m < length buf" for i
    using assms by (simp add: block_ok_def rw_fits_def)
  show ?thesis
    unfolding read_heads_def
    by (intro safe_bind [OF peek_safe [OF f]] safe_simps(2) [THEN iffD2] TrueI)
qed

lemma process_sample_safe:
  assumes "block_ok M m n bs" "M \<Longrightarrow> curves_ok c"
  shows "safe M (\<lambda>(y, bs'). block_ok M m n bs') (process_sample lm c play rc x bs)"
proof -
  have out: "safe M (\<lambda>_. True) (if play then dbind (read_heads lm (fst bs) (snd bs)) (\<lambda>y. Inr (Some y)) else Inr None)"
    using assms(1) by (cases play; cases bs) (auto intro: safe_bind [OF read_heads_safe])
  have wr: "safe M (block_ok M m n) (if rc then write_heads c x bs else Inr bs)"
    using write_heads_safe [OF assms] assms(1) by simp
  have step: "safe M (\<lambda>(y, bs'). block_ok M m n bs') (case q of (b, t) \<Rightarrow> dbind (advance t) (\<lambda>u. Inr (y, b, u)))"
    if "block_ok M m n q" for q and y :: "flt option"
  proof -
    obtain b t where q: "q = (b, t)"
      by force
    have "rw_ok t"
      using that by (simp add: q block_ok_def)
    then show ?thesis
      unfolding q prod.case
      by (intro safe_bind [OF advance_safe]) (use that block_ok_goes in \<open>auto simp: q\<close>)
  qed
  have "safe M (\<lambda>(y, bs'). block_ok M m n bs')
      (dbind (if play then dbind (read_heads lm (fst bs) (snd bs)) (\<lambda>y. Inr (Some y)) else Inr None) (\<lambda>out.
         dbind (if rc then write_heads c x bs else Inr bs) (\<lambda>(buf, s).
         dbind (advance s) (\<lambda>t. Inr (out, buf, t)))))"
    by (intro safe_bind [OF out] safe_bind [OF wr] step)
  then show ?thesis
    using assms(1) by (simp add: process_sample_def)
qed

section \<open>The setters\<close>

lemma rw_ok_new: "rw_ok new_rw_head"
  by (simp add: rw_ok_def one_leads_def new_rw_head_def new_sub_head_def sub_ok_def fraction_Fin)
    (simp add: new_resampler_def)

lemma calc_fade_inc_simps [simp]:
  "heads (calc_fade_inc s) = heads s" "act (calc_fade_inc s) = act s" "fraction (fade_inc (calc_fade_inc s))"
  by (simp_all add: calc_fade_inc_def Let_def)

lemma setters_go:
  assumes "rw_ok s"
  shows "goes s (rw_set_rate x s)" "goes s (set_loop_start x s)" "goes s (set_loop_end x s)"
    "goes s (rw_stop s)" "goes s (rw_run s)" "goes s (set_rec_offset d s)" "goes s (set_fade_time x s)"
    "goes s (set_once_flag b s)" "goes s (s\<lparr>loop_flag := b\<rparr>)" "goes s (s\<lparr>sr := x\<rparr>)"
    "goes s (s\<lparr>pre_lvl := x\<rparr>)" "goes s (s\<lparr>rec_lvl := x\<rparr>)"
  by (rule goes_heads [OF assms];
      use inactive_state [OF assms] fade_inc_ok [OF assms] in
        \<open>auto simp: head_ops sub_ok_def fits_def set_hstate_def fraction_Fin sub_set_rate_def rs_set_rate_def rs_ok_def fabs_nonneg\<close>)+

lemma rw_init_goes:
  assumes "rw_ok s"
  shows "goes s (rw_init s)"
  by (rule goes_heads [OF assms])
    (simp_all add: rw_init_def sub_init_def set_once_flag_def set_fade_time_def sub_ok_def fits_def
      rs_ok_def fraction_Fin)

lemma rw_set_buffer_ok: "rw_ok s \<Longrightarrow> rw_ok (rw_set_buffer n s)"
  by (rule rw_okI [where s = s])
    (simp_all add: rw_set_buffer_def sub_set_buffer_def sub_ok_def rw_ok_def one_leads_def)

text \<open>A buffer no shorter than the last one keeps the write indices inside.\<close>

lemma unat_frames:
  assumes "0 < n" "n < 2 ^ 32"
  shows "unat (word_of_nat n - 1 :: u32) = n - 1"
proof -
  have "unat (word_of_nat n :: u32) = n"
    using assms(2) by (simp add: unsigned_of_nat take_bit_nat_eq_self)
  then show ?thesis
    using assms(1) by (subst unat_sub) (auto simp: word_le_nat_alt)
qed

lemma rw_set_buffer_fits:
  assumes "0 < n" "n < 2 ^ 32" "rw_fits m s" "unat m < n"
  shows "rw_fits (word_of_nat n - 1) (rw_set_buffer n s)"
proof -
  have "m \<le> word_of_nat n - 1"
    using unat_frames [OF assms(1,2)] assms(4) by (simp add: word_le_nat_alt)
  then show ?thesis
    using assms(3) order_trans
    by (fastforce simp: rw_fits_def fits_def rw_set_buffer_def sub_set_buffer_def)
qed

end
