(* ===== verification/Dsp_Filter.thy ===== *)
theory Dsp_Filter
  imports Dsp_Curves
begin

text \<open>
  The state variable filter (\<open>Svf.cpp\<close>) that a voice has before its heads and after them, with the dry
  signal mixed in as \<open>processBlockMono\<close> does it. Every operation is on floats; the tangent of the C
  library is in \<open>libm\<close>. The scratch members that a sample computes before it reads them are local.

  With the mixes at 0 and the dry level at 1, as a voice starts, the output filter passes a sample
  through unchanged for as long as its own state is finite (\<open>bypass_turn\<close>, \<open>bypass_run\<close>).
\<close>

record svf =
  lp_mix :: flt
  hp_mix :: flt
  bp_mix :: flt
  br_mix :: flt
  min_fc :: flt
  max_fc :: flt
  pi_sr :: flt
  svf_sr :: flt
  svf_fc :: flt
  svf_rq :: flt
  svf_g :: flt
  svf_g1 :: flt
  svf_g2 :: flt
  svf_g3 :: flt
  svf_g4 :: flt
  svf_v1 :: flt
  svf_v2 :: flt
  svf_v0z :: flt

definition m_pi :: flt where "m_pi = Fin (884279719003555 / 281474976710656)"

definition MAX_NORM_FC :: flt where "MAX_NORM_FC = f32_lit (4 / 10)"

definition calc_warp :: "libm \<Rightarrow> svf \<Rightarrow> svf" where
  "calc_warp lm s = s\<lparr>svf_g := to_f32 (lm_tan lm (fmul F32 (svf_fc s) (pi_sr s)))\<rparr>"

definition calc_coeffs :: "svf \<Rightarrow> svf" where
  "calc_coeffs s =
     (let g = svf_g s;
          g1 = fdiv F32 g (fadd F32 (Fin 1) (fmul F32 g (fadd F32 g (svf_rq s))))
      in s\<lparr>svf_g1 := g1, svf_g2 := fmul F32 (fmul F32 (Fin 2) (fadd F32 g (svf_rq s))) g1,
           svf_g3 := fmul F32 g g1, svf_g4 := fmul F32 (Fin 2) g1\<rparr>)"

definition clear_state :: "svf \<Rightarrow> svf" where
  "clear_state s = s\<lparr>svf_v0z := Fin 0, svf_v1 := Fin 0, svf_v2 := Fin 0\<rparr>"

definition svf_set_sr :: "libm \<Rightarrow> flt \<Rightarrow> svf \<Rightarrow> svf" where
  "svf_set_sr lm x s =
     calc_coeffs (calc_warp lm (s\<lparr>svf_sr := x, pi_sr := to_f32 (fdiv F64 m_pi x),
       min_fc := Fin 10, max_fc := fmul F32 x MAX_NORM_FC\<rparr>))"

definition svf_set_fc :: "libm \<Rightarrow> flt \<Rightarrow> svf \<Rightarrow> svf" where
  "svf_set_fc lm x s =
     (let a = (if flt_less (max_fc s) x then max_fc s else x);
          b = (if flt_less a (min_fc s) then min_fc s else a)
      in calc_coeffs (calc_warp lm (s\<lparr>svf_fc := b\<rparr>)))"

definition svf_set_rq :: "flt \<Rightarrow> svf \<Rightarrow> svf" where
  "svf_set_rq x s = calc_coeffs (s\<lparr>svf_rq := x\<rparr>)"

text \<open>The members the constructor leaves uninitialized are set by \<open>setSampleRate\<close>.\<close>

definition new_svf :: "libm \<Rightarrow> svf" where
  "new_svf lm = svf_set_sr lm (Fin 48000) (clear_state
     \<lparr>lp_mix = Fin 0, hp_mix = Fin 0, bp_mix = Fin 0, br_mix = Fin 0, min_fc = NaN, max_fc = NaN,
      pi_sr = NaN, svf_sr = NaN, svf_fc = Fin 12000, svf_rq = Fin 4, svf_g = NaN, svf_g1 = NaN,
      svf_g2 = NaN, svf_g3 = NaN, svf_g4 = NaN, svf_v1 = NaN, svf_v2 = NaN, svf_v0z = NaN\<rparr>)"

definition svf_update :: "flt \<Rightarrow> svf \<Rightarrow> svf" where
  "svf_update x s =
     (let v3 = fsub F32 (fadd F32 x (svf_v0z s)) (fmul F32 (Fin 2) (svf_v2 s))
      in s\<lparr>svf_v1 := fadd F32 (svf_v1 s) (fsub F32 (fmul F32 (svf_g1 s) v3) (fmul F32 (svf_g2 s) (svf_v1 s))),
           svf_v2 := fadd F32 (svf_v2 s) (fadd F32 (fmul F32 (svf_g3 s) v3) (fmul F32 (svf_g4 s) (svf_v1 s))),
           svf_v0z := x\<rparr>)"

text \<open>The outputs of an updated filter for the input \<open>x\<close>: low, high and band pass, band reject.\<close>

definition svf_out :: "flt \<Rightarrow> svf \<Rightarrow> flt" where
  "svf_out x t =
     (let br = fsub F32 x (fmul F32 (svf_rq t) (svf_v1 t)); hp = fsub F32 br (svf_v2 t)
      in fadd F32 (fadd F32 (fadd F32 (fmul F32 (svf_v2 t) (lp_mix t)) (fmul F32 hp (hp_mix t)))
           (fmul F32 (svf_v1 t) (bp_mix t))) (fmul F32 br (br_mix t)))"

definition svf_next :: "flt \<Rightarrow> svf \<Rightarrow> flt \<times> svf" where
  "svf_next x s = (let t = svf_update x s in (svf_out x t, t))"

text \<open>\<open>svf.getNextSample(x) + x * dry\<close>, and a run of it.\<close>

definition filter_turn :: "flt \<Rightarrow> flt \<Rightarrow> svf \<Rightarrow> flt \<times> svf" where
  "filter_turn dry x s = (let (y, t) = svf_next x s in (fadd F32 y (fmul F32 x dry), t))"

fun filter_run :: "flt \<Rightarrow> samples \<Rightarrow> svf \<Rightarrow> samples" where
  "filter_run dry [] s = []"
| "filter_run dry (x # xs) s = fst (filter_turn dry x s) # filter_run dry xs (snd (filter_turn dry x s))"

section \<open>The filter that a voice starts with after its heads\<close>

definition bypassed :: "svf \<Rightarrow> bool" where
  "bypassed s \<longleftrightarrow> lp_mix s = Fin 0 \<and> hp_mix s = Fin 0 \<and> bp_mix s = Fin 0 \<and> br_mix s = Fin 0"

lemma times_zero: "fmul f x (Fin 0) = Fin 0 \<or> fmul f x (Fin 0) = NaN"
  by (cases x) (simp_all add: inf_signed_def)

lemma add_zero_or_nan:
  "x = Fin 0 \<or> x = NaN \<Longrightarrow> y = Fin 0 \<or> y = NaN \<Longrightarrow> fadd f x y = Fin 0 \<or> fadd f x y = NaN"
  by auto

lemma bypassed_update: "bypassed (svf_update x s) = bypassed s"
  by (simp add: bypassed_def svf_update_def Let_def)

lemma bypassed_out: "bypassed t \<Longrightarrow> svf_out x t = Fin 0 \<or> svf_out x t = NaN"
  unfolding svf_out_def Let_def bypassed_def
  by (elim conjE, simp only:) (intro add_zero_or_nan times_zero)

lemma bypass_turn:
  assumes "bypassed s" "is_flt F32 x"
  shows "fst (filter_turn (Fin 1) x s) \<in> {x, NaN}" "bypassed (snd (filter_turn (Fin 1) x s))"
proof -
  have t: "filter_turn (Fin 1) x s
      = (fadd F32 (svf_out x (svf_update x s)) (fmul F32 x (Fin 1)), svf_update x s)"
    by (simp add: filter_turn_def svf_next_def Let_def)
  have b: "bypassed (svf_update x s)"
    using assms(1) by (simp add: bypassed_update)
  have "fadd F32 (Fin 0) (fmul F32 x (Fin 1)) = x"
    using assms(2) by (cases x) (simp_all add: is_flt_def rnd_rep inf_signed_def)
  then show "fst (filter_turn (Fin 1) x s) \<in> {x, NaN}" "bypassed (snd (filter_turn (Fin 1) x s))"
    using bypassed_out [OF b, of x] b by (auto simp: t)
qed

lemma bypass_run:
  "bypassed s \<Longrightarrow> \<forall>x \<in> set xs. is_flt F32 x \<Longrightarrow>
   list_all2 (\<lambda>x y. y = x \<or> y = NaN) xs (filter_run (Fin 1) xs s)"
proof (induction xs arbitrary: s)
  case (Cons x xs)
  then show ?case
    using bypass_turn [OF Cons.prems(1), of x] by auto
qed simp

end
