(* ===== verification/Dsp_Voice.thy ===== *)
theory Dsp_Voice
  imports Dsp_Safe Dsp_Filter
begin

text \<open>
  \<open>softcut::Voice\<close> (\<open>Voice.cpp\<close>): the ramps on rate and levels (\<open>LogRamp\<close> of \<open>Utilities.h\<close>), the record
  and play flags with the record-once pass, the quantized phase, a block of samples, \<open>reset\<close>, and
  what it publishes to other threads.

  The theory \<open>Voice\<close> keeps the calls made on such an object as a list of \<open>dsp_ev\<close>, newest first.
  \<open>apply_call\<close> is one call, \<open>replay\<close> a whole list, and \<open>soft_lib\<close> the functions \<open>dsp_lib\<close> that the engine
  model takes from the object. Two parameters stand for memory that is read before it is written:
  \<open>stack\<close> is what an uninitialized array of the fade tables holds, and \<open>junk h\<close> what the uninitialized
  sample of a block after the calls \<open>h\<close> holds.
\<close>

section \<open>Ramps\<close>

record log_ramp =
  lr_sr :: flt
  lr_time :: flt
  lr_b :: flt
  lr_x0 :: flt
  lr_y0 :: flt

definition tau2pole :: "libm \<Rightarrow> flt \<Rightarrow> flt \<Rightarrow> flt" where
  "tau2pole lm t r = to_f32 (lm_exp lm (fdiv F32 (f32_lit (- 69 / 10)) (fmul F32 t r)))"

definition lr_set_time :: "libm \<Rightarrow> flt \<Rightarrow> log_ramp \<Rightarrow> log_ramp" where
  "lr_set_time lm t r = r\<lparr>lr_time := t, lr_b := tau2pole lm t (lr_sr r)\<rparr>"

definition lr_set_sr :: "libm \<Rightarrow> flt \<Rightarrow> log_ramp \<Rightarrow> log_ramp" where
  "lr_set_sr lm x r = lr_set_time lm (lr_time r) (r\<lparr>lr_sr := x\<rparr>)"

definition lr_new :: "libm \<Rightarrow> log_ramp" where
  "lr_new lm = lr_set_time lm (f32_lit (1 / 10))
     \<lparr>lr_sr = Fin 48000, lr_time = f32_lit (1 / 10), lr_b = Fin 1, lr_x0 = Fin 0, lr_y0 = Fin 0\<rparr>"

definition lr_set_target :: "flt \<Rightarrow> log_ramp \<Rightarrow> log_ramp" where
  "lr_set_target x r = r\<lparr>lr_x0 := x\<rparr>"

definition lr_reset :: "flt \<Rightarrow> log_ramp \<Rightarrow> log_ramp" where
  "lr_reset x r = r\<lparr>lr_x0 := x, lr_y0 := x\<rparr>"

text \<open>\<open>smooth1pole(x0, y0, b)\<close>\<close>

definition lr_update :: "log_ramp \<Rightarrow> log_ramp" where
  "lr_update r = r\<lparr>lr_y0 := fadd F32 (lr_x0 r) (fmul F32 (fsub F32 (lr_y0 r) (lr_x0 r)) (lr_b r))\<rparr>"

section \<open>The object\<close>

record dsp_voice =
  curves :: fade_curves
  sch :: rw_head
  rate_ramp :: log_ramp
  pre_ramp :: log_ramp
  rec_ramp :: log_ramp
  dv_sr :: flt
  play_on :: bool
  rec_on :: bool
  saved_rec :: bool
  saved_once :: bool
  svf_pre :: svf
  svf_post :: svf
  pre_fc_base :: flt
  pre_fc_mod :: flt
  pre_dry :: flt
  post_dry :: flt
  quant_unit :: flt
  quant_offset :: flt
  quant_pos :: flt
  raw_pos :: flt
  saved_heads :: "(flt \<times> flt) \<times> (flt \<times> flt) \<times> bool"
  dv_fixed :: bool

definition publish_flags :: "dsp_voice \<Rightarrow> dsp_voice" where
  "publish_flags v = v\<lparr>saved_rec := rec_on v, saved_once := once_active (sch v)\<rparr>"

definition publish_heads :: "dsp_voice \<Rightarrow> dsp_voice" where
  "publish_heads v =
     (let p = (\<lambda>i. (hphase (heads (sch v) i), hfade (heads (sch v) i)))
      in v\<lparr>saved_heads := (p False, p True, act (sch v))\<rparr>)"

definition set_rec_flag :: "bool \<Rightarrow> dsp_voice \<Rightarrow> dsp_voice" where
  "set_rec_flag x v =
     (let s1 = (if rec_on v then if \<not> (x \<or> play_on v) then rw_stop (sch v) else sch v
                else if x \<and> \<not> play_on v then rw_run (sch v) else sch v);
          s2 = (if \<not> x \<and> once_active s1 then set_once_flag False s1 else s1)
      in publish_flags (v\<lparr>rec_on := x, sch := s2\<rparr>))"

definition set_play_flag :: "bool \<Rightarrow> dsp_voice \<Rightarrow> dsp_voice" where
  "set_play_flag x v =
     (let s1 = (if play_on v then if \<not> (x \<or> rec_on v) then rw_stop (sch v) else sch v
                else if x \<and> \<not> rec_on v then rw_run (sch v) else sch v)
      in v\<lparr>play_on := x, sch := s1\<rparr>)"

definition set_rec_once :: "bool \<Rightarrow> dsp_voice \<Rightarrow> dsp_voice" where
  "set_rec_once x v =
     (let v1 = v\<lparr>sch := set_once_flag x (sch v)\<rparr>
      in publish_flags (if x then set_rec_flag True v1 else v1))"

definition dv_set_sample_rate :: "libm \<Rightarrow> flt \<Rightarrow> dsp_voice \<Rightarrow> dsp_voice" where
  "dv_set_sample_rate lm x v =
     v\<lparr>dv_sr := x, rate_ramp := lr_set_sr lm x (rate_ramp v), pre_ramp := lr_set_sr lm x (pre_ramp v),
       rec_ramp := lr_set_sr lm x (rec_ramp v), sch := (sch v)\<lparr>sr := x\<rparr>,
       svf_pre := svf_set_sr lm x (svf_pre v), svf_post := svf_set_sr lm x (svf_post v)\<rparr>"

text \<open>\<open>reset\<close>, the constructor (which calls it), and the object before its members are set.\<close>

definition dv_reset :: "libm \<Rightarrow> samples \<Rightarrow> dsp_voice \<Rightarrow> dsp_fault + dsp_voice" where
  "dv_reset lm stack v =
     dbind (curves_init lm stack (dv_fixed v) (curves v)) (\<lambda>c.
       let f001 = f32_lit (1 / 100); f0001 = f32_lit (1 / 1000);
           s1 = rw_init (set_rec_offset (- 8) (set_fade_time f001 (sch v)));
           s2 = (if dv_fixed v then set_fade_time f001 s1 else s1)
       in Inr (publish_heads (publish_flags
            (v\<lparr>curves := c, sch := s2,
               svf_pre := svf_set_fc lm (pre_fc_base v) (svf_set_rq (Fin 4) ((clear_state (svf_pre v))
                 \<lparr>lp_mix := Fin 1, hp_mix := Fin 0, bp_mix := Fin 0, br_mix := Fin 0\<rparr>)),
               pre_fc_mod := Fin 1, pre_dry := Fin 0,
               svf_post := svf_set_fc lm (Fin 12000) (svf_set_rq (Fin 4) ((clear_state (svf_post v))
                 \<lparr>lp_mix := Fin 0, hp_mix := Fin 0, bp_mix := Fin 0, br_mix := Fin 0\<rparr>)),
               post_dry := Fin 1,
               rate_ramp := lr_set_time lm f0001 (lr_reset (Fin 1) (rate_ramp v)),
               rec_ramp := lr_set_time lm f0001 (lr_reset (Fin 0) (rec_ramp v)),
               pre_ramp := lr_set_time lm f0001 (lr_reset (Fin 0) (pre_ramp v)),
               quant_unit := Fin 0, quant_offset := Fin 0, quant_pos := Fin 0, raw_pos := Fin 0,
               rec_on := False, play_on := False\<rparr>))))"

definition raw_curves :: "samples \<Rightarrow> fade_curves" where
  "raw_curves stack = \<lparr>rec_delay_ratio = Fin (1 / 128), pre_window_ratio = Fin (1 / 8),
     rec_delay_min = 0, pre_window_min = 0, rec_fade_buf = stack, pre_fade_buf = stack,
     rec_shape = 2, pre_shape = 0, curves_fixed = False\<rparr>"

definition raw_voice :: "libm \<Rightarrow> samples \<Rightarrow> bool \<Rightarrow> dsp_voice" where
  "raw_voice lm stack fx = \<lparr>curves = raw_curves stack, sch = new_rw_head,
     rate_ramp = lr_new lm, pre_ramp = lr_new lm, rec_ramp = lr_new lm, dv_sr = NaN,
     play_on = False, rec_on = False, saved_rec = False, saved_once = False,
     svf_pre = new_svf lm, svf_post = new_svf lm, pre_fc_base = Fin 16000, pre_fc_mod = Fin 1,
     pre_dry = Fin 1, post_dry = Fin 1, quant_unit = Fin 0, quant_offset = Fin 0, quant_pos = Fin 0, raw_pos = Fin 0,
     saved_heads = ((Fin 0, Fin 0), (Fin 0, Fin 0), False), dv_fixed = fx\<rparr>"

definition new_dsp_voice :: "libm \<Rightarrow> samples \<Rightarrow> bool \<Rightarrow> dsp_fault + dsp_voice" where
  "new_dsp_voice lm stack fx = dv_reset lm stack (raw_voice lm stack fx)"

section \<open>A block\<close>

fun ffloor :: "flt \<Rightarrow> flt" where
  "ffloor (Fin q) = Fin (of_int \<lfloor>q\<rfloor>)"
| "ffloor x = x"

definition active_phase :: "rw_head \<Rightarrow> flt" where
  "active_phase s = hphase (heads s (act s))"

definition update_quant_phase :: "dsp_voice \<Rightarrow> dsp_voice" where
  "update_quant_phase v =
     v\<lparr>quant_pos :=
        if feq (quant_unit v) (Fin 0) then fdiv F64 (active_phase (sch v)) (dv_sr v)
        else fmul F64 (ffloor (fdiv F64 (fadd F64 (active_phase (sch v)) (quant_offset v))
                                 (fmul F64 (dv_sr v) (quant_unit v)))) (quant_unit v)\<rparr>"

definition ramp_step :: "dsp_voice \<Rightarrow> dsp_voice" where
  "ramp_step v =
     (let ra = lr_update (rate_ramp v); pr = lr_update (pre_ramp v); re = lr_update (rec_ramp v);
          s1 = rw_set_rate (lr_y0 ra) (sch v)
      in v\<lparr>rate_ramp := ra, pre_ramp := pr, rec_ramp := re,
           sch := s1\<lparr>pre_lvl := lr_y0 pr, rec_lvl := lr_y0 re\<rparr>\<rparr>)"

text \<open>
  One turn of the sample loop: the input filter, the ramps, the heads, the output filter. The output
  variable is declared before the loop and uninitialized; a voice that records without playing
  never assigns it, and \<open>junk\<close> is what it holds then.
\<close>

definition sample_turn ::
  "libm \<Rightarrow> flt \<Rightarrow> flt \<Rightarrow> samples \<times> dsp_voice \<Rightarrow> dsp_fault + flt \<times> samples \<times> dsp_voice" where
  "sample_turn lm junk x = (\<lambda>(buf, v).
     let p = filter_turn (pre_dry v) x (svf_pre v);
         v1 = ramp_step (v\<lparr>svf_pre := snd p\<rparr>)
     in dbind (process_sample lm (curves v1) (play_on v1) (rec_on v1) (fst p) (buf, sch v1)) (\<lambda>(y, buf', s).
          let q = filter_turn (post_dry v1) (case y of Some z \<Rightarrow> z | None \<Rightarrow> junk) (svf_post v1)
          in Inr (fst q, buf', update_quant_phase (v1\<lparr>sch := s, svf_post := snd q\<rparr>))))"

fun sample_loop ::
  "libm \<Rightarrow> flt \<Rightarrow> samples \<Rightarrow> samples \<times> dsp_voice \<Rightarrow> dsp_fault + samples \<times> samples \<times> dsp_voice" where
  "sample_loop lm junk [] bv = Inr ([], bv)"
| "sample_loop lm junk (x # xs) bv =
     dbind (sample_turn lm junk x bv) (\<lambda>(y, bv').
     dbind (sample_loop lm junk xs bv') (\<lambda>(ys, bv''). Inr (y # ys, bv'')))"

text \<open>\<open>processBlockMono\<close> after its loop: a finished record-once pass turns recording off.\<close>

definition end_block :: "dsp_voice \<Rightarrow> dsp_voice" where
  "end_block v =
     (let v0 = v\<lparr>raw_pos := active_phase (sch v)\<rparr>;
          v1 = (if rec_on v0 \<and> once_done (sch v0)
                then v0\<lparr>rec_on := False, sch := set_once_flag False (sch v0)\<rparr> else v0)
      in publish_heads (publish_flags v1))"

definition process_block ::
  "libm \<Rightarrow> flt \<Rightarrow> samples \<Rightarrow> samples \<times> dsp_voice \<Rightarrow> dsp_fault + samples \<times> samples \<times> dsp_voice" where
  "process_block lm junk xs bv =
     dbind (sample_loop lm junk xs bv) (\<lambda>(ys, buf, v). Inr (ys, buf, end_block v))"

section \<open>One call, and a list of calls\<close>

definition on_sch :: "(rw_head \<Rightarrow> rw_head) \<Rightarrow> dsp_voice \<Rightarrow> dsp_voice" where
  "on_sch f v = v\<lparr>sch := f (sch v)\<rparr>"

definition on_curves :: "(fade_curves \<Rightarrow> dsp_fault + fade_curves) \<Rightarrow> dsp_voice \<Rightarrow> dsp_fault + dsp_voice" where
  "on_curves f v = dbind (f (curves v)) (\<lambda>c. Inr (v\<lparr>curves := c\<rparr>))"

text \<open>\<open>updatePreSvfFc\<close>: the corner of the input filter follows a rate below 1.\<close>

definition update_pre_fc :: "libm \<Rightarrow> dsp_voice \<Rightarrow> dsp_voice" where
  "update_pre_fc lm v =
     (let b = pre_fc_base v;
          f = std_min b (fmul F32 b (fabs (to_f32 (rw_rate (sch v)))))
      in v\<lparr>svf_pre := svf_set_fc lm (fadd F32 b (fmul F32 (pre_fc_mod v) (fsub F32 f b))) (svf_pre v)\<rparr>)"

text \<open>The float setters.\<close>

definition float_call :: "libm \<Rightarrow> samples \<Rightarrow> fattr \<Rightarrow> flt \<Rightarrow> dsp_voice \<Rightarrow> dsp_fault + dsp_voice" where
  "float_call lm stack a x v =
     (case a of
        Rate \<Rightarrow> Inr (update_pre_fc lm (v\<lparr>rate_ramp := lr_set_target x (rate_ramp v)\<rparr>))
      | LoopStart \<Rightarrow> Inr (on_sch (set_loop_start x) v)
      | LoopEnd \<Rightarrow> Inr (on_sch (set_loop_end x) v)
      | FadeTime \<Rightarrow> Inr (on_sch (set_fade_time x) v)
      | RecLevel \<Rightarrow> Inr (v\<lparr>rec_ramp := lr_set_target x (rec_ramp v)\<rparr>)
      | PreLevel \<Rightarrow> Inr (v\<lparr>pre_ramp := lr_set_target x (pre_ramp v)\<rparr>)
      | RecOffset \<Rightarrow> dbind (cast_int (fmul F32 x (dv_sr v))) (\<lambda>d. Inr (on_sch (set_rec_offset d) v))
      | RecPreSlewTime \<Rightarrow> Inr (v\<lparr>rec_ramp := lr_set_time lm x (rec_ramp v),
                               pre_ramp := lr_set_time lm x (pre_ramp v)\<rparr>)
      | RateSlewTime \<Rightarrow> Inr (v\<lparr>rate_ramp := lr_set_time lm x (rate_ramp v)\<rparr>)
      | PhaseQuant \<Rightarrow> Inr (v\<lparr>quant_unit := x\<rparr>)
      | PhaseOffset \<Rightarrow> Inr (v\<lparr>quant_offset := fmul F32 x (dv_sr v)\<rparr>)
      | RecDelayRatio \<Rightarrow> on_curves (set_rec_delay_ratio lm stack x) v
      | PreWindowRatio \<Rightarrow> on_curves (set_pre_window_ratio lm stack x) v
      | PreFilterFc \<Rightarrow> Inr (update_pre_fc lm (v\<lparr>pre_fc_base := x\<rparr>))
      | PreFilterRq \<Rightarrow> Inr (v\<lparr>svf_pre := svf_set_rq x (svf_pre v)\<rparr>)
      | PreFilterLp \<Rightarrow> Inr (v\<lparr>svf_pre := (svf_pre v)\<lparr>lp_mix := x\<rparr>\<rparr>)
      | PreFilterHp \<Rightarrow> Inr (v\<lparr>svf_pre := (svf_pre v)\<lparr>hp_mix := x\<rparr>\<rparr>)
      | PreFilterBp \<Rightarrow> Inr (v\<lparr>svf_pre := (svf_pre v)\<lparr>bp_mix := x\<rparr>\<rparr>)
      | PreFilterBr \<Rightarrow> Inr (v\<lparr>svf_pre := (svf_pre v)\<lparr>br_mix := x\<rparr>\<rparr>)
      | PreFilterDry \<Rightarrow> Inr (v\<lparr>pre_dry := x\<rparr>)
      | PreFilterFcMod \<Rightarrow> Inr (v\<lparr>pre_fc_mod := x\<rparr>)
      | PostFilterFc \<Rightarrow> Inr (v\<lparr>svf_post := svf_set_fc lm x (svf_post v)\<rparr>)
      | PostFilterRq \<Rightarrow> Inr (v\<lparr>svf_post := svf_set_rq x (svf_post v)\<rparr>)
      | PostFilterLp \<Rightarrow> Inr (v\<lparr>svf_post := (svf_post v)\<lparr>lp_mix := x\<rparr>\<rparr>)
      | PostFilterHp \<Rightarrow> Inr (v\<lparr>svf_post := (svf_post v)\<lparr>hp_mix := x\<rparr>\<rparr>)
      | PostFilterBp \<Rightarrow> Inr (v\<lparr>svf_post := (svf_post v)\<lparr>bp_mix := x\<rparr>\<rparr>)
      | PostFilterBr \<Rightarrow> Inr (v\<lparr>svf_post := (svf_post v)\<lparr>br_mix := x\<rparr>\<rparr>)
      | PostFilterDry \<Rightarrow> Inr (v\<lparr>post_dry := x\<rparr>))"

definition bool_call :: "battr \<Rightarrow> bool \<Rightarrow> dsp_voice \<Rightarrow> dsp_voice" where
  "bool_call b x v =
     (case b of Loop \<Rightarrow> on_sch (\<lambda>s. s\<lparr>loop_flag := x\<rparr>) v
      | Rec \<Rightarrow> set_rec_flag x v | RecOnce \<Rightarrow> set_rec_once x v | Play \<Rightarrow> set_play_flag x v)"

definition shape_call :: "libm \<Rightarrow> samples \<Rightarrow> sattr \<Rightarrow> nat \<Rightarrow> dsp_voice \<Rightarrow> dsp_fault + dsp_voice" where
  "shape_call lm stack a k v =
     on_curves (case a of RecFadeShape \<Rightarrow> set_rec_shape lm stack k | PreFadeShape \<Rightarrow> set_pre_shape lm stack k) v"

definition apply_call ::
  "libm \<Rightarrow> (dsp_ev list \<Rightarrow> flt) \<Rightarrow> samples \<Rightarrow> dsp_ev list \<Rightarrow> dsp_ev \<Rightarrow> dsp_voice \<Rightarrow> dsp_fault + dsp_voice" where
  "apply_call lm junk stack h e v =
     (case e of
        DFloat a x \<Rightarrow> float_call lm stack a x v
      | DBool b x \<Rightarrow> Inr (bool_call b x v)
      | DShape a k \<Rightarrow> shape_call lm stack a k v
      | DCut x \<Rightarrow> dbind (cut_to_pos x (sch v)) (\<lambda>s. Inr (v\<lparr>sch := s\<rparr>))
      | DStop \<Rightarrow> Inr (on_sch rw_stop v)
      | DReset \<Rightarrow> dv_reset lm stack v
      | DSampleRate x \<Rightarrow> Inr (dv_set_sample_rate lm x v)
      | DBuffer a n \<Rightarrow> Inr (on_sch (rw_set_buffer n) v)
      | DProcess buf xs \<Rightarrow>
          dbind (process_block lm (junk h) xs (buf, v)) (\<lambda>(ys, buf', v'). Inr v'))"

fun replay :: "libm \<Rightarrow> (dsp_ev list \<Rightarrow> flt) \<Rightarrow> samples \<Rightarrow> bool \<Rightarrow> dsp_ev list \<Rightarrow> dsp_fault + dsp_voice" where
  "replay lm junk stack fx [] = new_dsp_voice lm stack fx"
| "replay lm junk stack fx (e # h) = dbind (replay lm junk stack fx h) (apply_call lm junk stack h e)"

text \<open>
  The functions the engine model takes from the object. After undefined behaviour, which C++ does
  not constrain, they pass their input through.
\<close>

definition block_of :: "libm \<Rightarrow> (dsp_ev list \<Rightarrow> flt) \<Rightarrow> samples \<Rightarrow> bool \<Rightarrow> dsp_ev list \<Rightarrow> samples \<Rightarrow> samples \<Rightarrow>
    dsp_fault + samples \<times> samples \<times> dsp_voice" where
  "block_of lm junk stack fx h buf xs =
     dbind (replay lm junk stack fx h) (\<lambda>v. sample_loop lm (junk h) xs (buf, v))"

definition seconds :: "flt \<Rightarrow> dsp_voice \<Rightarrow> flt" where
  "seconds p v = to_f32 (fdiv F64 p (dv_sr v))"

definition soft_lib :: "libm \<Rightarrow> (dsp_ev list \<Rightarrow> flt) \<Rightarrow> samples \<Rightarrow> bool \<Rightarrow> dsp_lib" where
  "soft_lib lm junk stack fx =
     \<lparr>lib_process = (\<lambda>h buf xs. case block_of lm junk stack fx h buf xs of
        Inl _ \<Rightarrow> (xs, buf) | Inr (ys, buf', _) \<Rightarrow> (ys, buf')),
      lib_position = (\<lambda>h. case replay lm junk stack fx h of
        Inl _ \<Rightarrow> NaN | Inr v \<Rightarrow> seconds (active_phase (sch v)) v),
      lib_quant_phase = (\<lambda>h. case replay lm junk stack fx h of Inl _ \<Rightarrow> NaN | Inr v \<Rightarrow> quant_pos v),
      lib_once_done = (\<lambda>h. case h of
          DProcess buf xs # h' \<Rightarrow> (case block_of lm junk stack fx h' buf xs of
              Inl _ \<Rightarrow> False | Inr (_, _, v) \<Rightarrow> once_done (sch v))
        | _ \<Rightarrow> False),
      lib_heads = (\<lambda>h. case replay lm junk stack fx h of
        Inl _ \<Rightarrow> (NaN, NaN, NaN, NaN, 0)
      | Inr v \<Rightarrow> (case saved_heads v of ((p0, f0), (p1, f1), a) \<Rightarrow>
          (seconds p0 v, f0, seconds p1 v, f1, if a then 1 else 0))),
      lib_cos = lm_cos lm, lib_sin = lm_sin lm\<rparr>"

end
