(* ===== verification/Dsp_Replay.thy ===== *)
theory Dsp_Replay
  imports Dsp_Voice
begin

text \<open>
  The voice object over any list of calls: the invariant of the heads always holds (\<open>voice_ok\<close>), and
  as long as no buffer replaces a longer one (\<open>grows\<close>) no call accesses memory outside the buffer
  or the fade tables.
\<close>

definition voice_ok :: "dsp_voice \<Rightarrow> bool" where
  "voice_ok v \<longleftrightarrow> rw_ok (sch v) \<and> curves_ok (curves v)"

text \<open>
  The lists of calls in which each buffer is at least as long as the one before it, blocks come
  after a first buffer, and come with the contents of the latest.
\<close>

fun grows :: "dsp_ev list \<Rightarrow> bool" where
  "grows [] = True"
| "grows (DBuffer a n # h) = (0 < n \<and> n < 2 ^ 32 \<and> grows h
     \<and> (case dsp_buffer h of None \<Rightarrow> True | Some (_, m) \<Rightarrow> m \<le> n))"
| "grows (DProcess buf xs # h) = (grows h
     \<and> (case dsp_buffer h of None \<Rightarrow> False | Some (_, m) \<Rightarrow> length buf = m))"
| "grows (e # h) = grows h"

definition mask_of :: "dsp_ev list \<Rightarrow> u32" where
  "mask_of h = (case dsp_buffer h of None \<Rightarrow> 0 | Some (_, n) \<Rightarrow> word_of_nat n - 1)"

lemma grows_Cons: "grows (e # h) \<Longrightarrow> grows h"
  by (cases e) simp_all

lemma grows_buffer: "grows h \<Longrightarrow> dsp_buffer h = Some (a, n) \<Longrightarrow> 0 < n \<and> n < 2 ^ 32"
proof (induction h)
  case (Cons e h)
  then show ?case by (cases e) (auto split: option.splits)
qed simp

lemma mask_inside:
  assumes "grows h" "dsp_buffer h = Some (a, n)"
  shows "unat (mask_of h) = n - 1" "0 < n"
  using grows_buffer [OF assms] unat_frames [of n] assms(2) by (auto simp: mask_of_def)

lemma safe_mono: "safe M P r \<Longrightarrow> (M' \<Longrightarrow> M) \<Longrightarrow> safe M' P r"
  by (cases r) auto

section \<open>A block\<close>

definition vblock :: "bool \<Rightarrow> u32 \<Rightarrow> nat \<Rightarrow> samples \<times> dsp_voice \<Rightarrow> bool" where
  "vblock M m n bv \<longleftrightarrow> block_ok M m n (fst bv, sch (snd bv)) \<and> curves_ok (curves (snd bv))"

lemma ramp_step_keeps:
  assumes "vblock M m n (buf, v)"
  shows "vblock M m n (buf, ramp_step v)" "curves (ramp_step v) = curves v"
    "play_on (ramp_step v) = play_on v" "rec_on (ramp_step v) = rec_on v"
proof -
  let ?x = "lr_y0 (lr_update (rate_ramp v))"
  have ok: "rw_ok (sch v)"
    using assms by (simp add: vblock_def block_ok_def)
  have "goes (sch v) (rw_set_rate ?x (sch v))"
    by (rule setters_go [OF ok])
  then have "goes (sch v) (sch (ramp_step v))"
    using setters_go(11,12) goes_trans by (simp add: ramp_step_def Let_def goes_def)
  then show "vblock M m n (buf, ramp_step v)" "curves (ramp_step v) = curves v"
    "play_on (ramp_step v) = play_on v" "rec_on (ramp_step v) = rec_on v"
    using assms block_ok_goes by (auto simp: vblock_def) (simp_all add: ramp_step_def Let_def)
qed

lemma sample_turn_safe:
  assumes "vblock M m n bv"
  shows "safe M (\<lambda>(y, bv'). vblock M m n bv') (sample_turn lm junk x bv)"
proof -
  obtain buf v where bv: "bv = (buf, v)"
    by force
  let ?v = "ramp_step (v\<lparr>svf_pre := snd (filter_turn (pre_dry v) x (svf_pre v))\<rparr>)"
  have v1: "vblock M m n (buf, ?v)"
    using assms by (intro ramp_step_keeps(1)) (simp add: bv vblock_def)
  then have c: "block_ok M m n (buf, sch ?v)" "M \<Longrightarrow> curves_ok (curves ?v)"
    by (simp_all add: vblock_def)
  show ?thesis
    unfolding bv sample_turn_def prod.case Let_def
    by (rule safe_bind [OF process_sample_safe [OF c]])
      (use v1 in \<open>auto simp: vblock_def update_quant_phase_def\<close>)
qed

lemma sample_loop_safe:
  "vblock M m n bv \<Longrightarrow> safe M (\<lambda>(ys, bv'). vblock M m n bv') (sample_loop lm junk xs bv)"
proof (induction xs arbitrary: bv)
  case (Cons x xs)
  have "safe M (\<lambda>(ys, bv'). vblock M m n bv') (case q of (y, bv') \<Rightarrow>
      dbind (sample_loop lm junk xs bv') (\<lambda>(ys, bv''). Inr (y # ys, bv'')))"
    if "case q of (y, bv') \<Rightarrow> vblock M m n bv'" for q
    using that by (auto intro!: safe_bind [OF Cons.IH] split: prod.splits)
  then show ?case
    unfolding sample_loop.simps by (rule safe_bind [OF sample_turn_safe [OF Cons.prems]])
qed simp

lemma sample_loop_length:
  "sample_loop lm junk xs bv = Inr (ys, bv') \<Longrightarrow> length ys = length xs"
proof (induction xs arbitrary: bv ys)
  case (Cons x xs)
  then show ?case by (auto simp: dbind_eq_Inr split: prod.splits)
qed simp

lemma end_block_keeps: "vblock M m n (buf, v) \<Longrightarrow> vblock M m n (buf, end_block v)"
  using setters_go(8) [of "sch v" False]
  by (auto simp: vblock_def block_ok_def end_block_def publish_heads_def publish_flags_def Let_def goes_def)

section \<open>One call\<close>

definition call_ok :: "dsp_ev list \<Rightarrow> dsp_voice \<Rightarrow> bool" where
  "call_ok h v \<longleftrightarrow> voice_ok v \<and> (grows h \<longrightarrow> rw_fits (mask_of h) (sch v))"

text \<open>A call that leaves the buffer alone and moves the heads as an operation on them does.\<close>

lemma call_ok_goes:
  assumes "call_ok h v" "goes (sch v) (sch v')" "curves_ok (curves v')"
    "mask_of (e # h) = mask_of h"
  shows "call_ok (e # h) v'"
  using assms grows_Cons [of e h] by (auto simp: call_ok_def voice_ok_def goes_def)

lemma flag_calls_go:
  assumes "rw_ok (sch v)"
  shows "goes (sch v) (sch (bool_call b x v))" "curves (bool_call b x v) = curves v"
proof -
  note st = setters_go [OF assms]
  have rf: "goes (sch u) (sch (set_rec_flag y u)) \<and> curves (set_rec_flag y u) = curves u"
    if "rw_ok (sch u)" for u y
  proof -
    note st = setters_go [OF that]
    let ?s = "if rec_on u then if \<not> (y \<or> play_on u) then rw_stop (sch u) else sch u
                else if y \<and> \<not> play_on u then rw_run (sch u) else sch u"
    have s: "goes (sch u) ?s"
      using st(4,5) goes_refl [OF that] by simp
    then have "goes ?s (set_once_flag False ?s)"
      by (intro setters_go) (simp add: goes_def)
    with s show ?thesis
      using goes_trans [OF s] by (simp add: set_rec_flag_def publish_flags_def Let_def)
  qed
  have once: "goes (sch v) (sch (set_rec_once x v)) \<and> curves (set_rec_once x v) = curves v"
  proof -
    let ?u = "v\<lparr>sch := set_once_flag x (sch v)\<rparr>"
    have "goes (sch v) (sch ?u)" "rw_ok (sch ?u)"
      using st(8) [of x] by (simp_all add: goes_def)
    then show ?thesis
      using rf [of ?u True] goes_trans by (auto simp: set_rec_once_def publish_flags_def Let_def)
  qed
  have "goes (sch v) (sch (set_play_flag x v)) \<and> curves (set_play_flag x v) = curves v"
    using st(4,5) goes_refl [OF assms] by (simp add: set_play_flag_def Let_def)
  then show "goes (sch v) (sch (bool_call b x v))" "curves (bool_call b x v) = curves v"
    using rf [OF assms] once st(9) by (cases b; simp add: bool_call_def on_sch_def)+
qed

text \<open>Each call that may fault.\<close>

lemma on_curves_total:
  assumes "\<exists>c'. f (curves v) = Inr c' \<and> curves_ok c' \<and> settings c' = S"
  shows "\<exists>v'. on_curves f v = Inr v' \<and> sch v' = sch v \<and> curves_ok (curves v')"
  using assms by (auto simp: on_curves_def)

lemma float_call_safe:
  assumes "length stack = fadeBufSize" "voice_ok v"
  shows "safe M (\<lambda>v'. goes (sch v) (sch v') \<and> curves_ok (curves v')) (float_call lm stack a x v)"
proof -
  have ok: "rw_ok (sch v)" "curves_ok (curves v)"
    using assms(2) by (simp_all add: voice_ok_def)
  note st = setters_go [OF ok(1)] goes_refl [OF ok(1)]
  note set = curves_setters_total [OF assms(1) ok(2)]
  have "safe M (\<lambda>v'. goes (sch v) (sch v') \<and> curves_ok (curves v'))
      (dbind (cast_int (fmul F32 x (dv_sr v))) (\<lambda>d. Inr (on_sch (set_rec_offset d) v)))"
    by (rule safe_bind [OF safe_cast(1)]) (simp add: on_sch_def st ok)
  moreover have "safe M (\<lambda>v'. goes (sch v) (sch v') \<and> curves_ok (curves v')) (on_curves f v)"
    if "\<exists>c'. f (curves v) = Inr c' \<and> curves_ok c' \<and> settings c' = S" for f S
    using on_curves_total [of f, OF that] st(13) by auto
  ultimately show ?thesis
    using st ok set(3) [of lm x] set(4) [of lm x]
    by (cases a) (simp_all add: float_call_def on_sch_def update_pre_fc_def Let_def)
qed

lemma shape_call_safe:
  assumes "length stack = fadeBufSize" "voice_ok v"
  shows "safe M (\<lambda>v'. goes (sch v) (sch v') \<and> curves_ok (curves v')) (shape_call lm stack a k v)"
proof -
  have ok: "rw_ok (sch v)" "curves_ok (curves v)"
    using assms(2) by (simp_all add: voice_ok_def)
  note set = curves_setters_total [OF assms(1) ok(2)]
  have "\<exists>v'. shape_call lm stack a k v = Inr v' \<and> sch v' = sch v \<and> curves_ok (curves v')"
    unfolding shape_call_def
    by (cases a; simp; rule on_curves_total) (rule set)+
  then show ?thesis
    using goes_refl [OF ok(1)] by auto
qed

lemma dv_reset_goes:
  assumes "length stack = fadeBufSize" "voice_ok v"
  shows "\<exists>v'. dv_reset lm stack v = Inr v' \<and> goes (sch v) (sch v') \<and> curves_ok (curves v')"
proof -
  have ok: "rw_ok (sch v)" "curves_ok (curves v)"
    using assms(2) by (simp_all add: voice_ok_def)
  obtain c where c: "curves_init lm stack (dv_fixed v) (curves v) = Inr c" "curves_ok c"
    using curves_init_total [OF assms(1) ok(2)] by blast
  let ?f = "f32_lit (1 / 100)"
  let ?s = "rw_init (set_rec_offset (- 8) (set_fade_time ?f (sch v)))"
  have 1: "goes (sch v) (set_fade_time ?f (sch v))"
    by (rule setters_go [OF ok(1)])
  then have 2: "goes (sch v) (set_rec_offset (- 8) (set_fade_time ?f (sch v)))"
    by (meson goes_def goes_trans setters_go(6))
  then have 3: "goes (sch v) ?s"
    by (meson goes_def goes_trans rw_init_goes)
  then have "goes (sch v) (set_fade_time ?f ?s)"
    by (meson goes_def goes_trans setters_go(7))
  with 3 c show ?thesis
    by (simp add: dv_reset_def Let_def publish_heads_def publish_flags_def)
qed

lemma process_block_safe:
  assumes "vblock M m n (buf, v)"
  shows "safe M (\<lambda>(ys, buf', v'). vblock M m n (buf', v')) (process_block lm junk xs (buf, v))"
  unfolding process_block_def
  by (rule safe_bind [OF sample_loop_safe [OF assms]]) (auto intro: end_block_keeps)

lemma call_safe:
  assumes len: "length stack = fadeBufSize" and v: "call_ok h v"
  shows "safe (grows (e # h)) (call_ok (e # h)) (apply_call lm junk stack h e v)"
proof -
  have ok: "voice_ok v" "rw_ok (sch v)" "curves_ok (curves v)"
    using v by (simp_all add: call_ok_def voice_ok_def)
  have moves: "safe M (call_ok (e # h)) r"
    if "safe M (\<lambda>v'. goes (sch v) (sch v') \<and> curves_ok (curves v')) r" "mask_of (e # h) = mask_of h" for M r
    using that(1) by (rule safe_weaken) (use v that(2) call_ok_goes in blast)
  show ?thesis
  proof (cases e)
    case (DBuffer a n)
    have "rw_fits (word_of_nat n - 1) (rw_set_buffer n (sch v))" if "grows (DBuffer a n # h)"
    proof (rule rw_set_buffer_fits)
      show "0 < n" "n < 2 ^ 32" "rw_fits (mask_of h) (sch v)"
        using that v by (simp_all add: call_ok_def)
      show "unat (mask_of h) < n"
      proof (cases "dsp_buffer h")
        case None
        with \<open>0 < n\<close> show ?thesis by (simp add: mask_of_def)
      next
        case (Some b)
        then show ?thesis
          using that mask_inside [of h "fst b" "snd b"] by (cases b) auto
      qed
    qed
    then show ?thesis
      using rw_set_buffer_ok [OF ok(2), of n] ok(3)
      by (simp add: DBuffer apply_call_def call_ok_def voice_ok_def on_sch_def mask_of_def)
  next
    case (DProcess buf xs)
    let ?M = "grows (e # h)" and ?m = "mask_of h"
    have "unat ?m < length buf \<and> rw_fits ?m (sch v)" if ?M
      using that v mask_inside [of h] by (auto simp: DProcess call_ok_def split: option.splits)
    then have b: "vblock ?M ?m (length buf) (buf, v)"
      using ok by (simp add: vblock_def block_ok_def)
    show ?thesis
      unfolding DProcess apply_call_def dsp_ev.case
      by (rule safe_bind [OF process_block_safe [OF b [unfolded DProcess]]])
        (auto simp: vblock_def block_ok_def call_ok_def voice_ok_def mask_of_def)
  next
    case (DCut x)
    have "safe M (\<lambda>v'. goes (sch v) (sch v') \<and> curves_ok (curves v'))
        (dbind (cut_to_pos x (sch v)) (\<lambda>s. Inr (v\<lparr>sch := s\<rparr>)))" for M
      by (rule safe_bind [OF cut_to_pos_safe [OF ok(2)]]) (simp add: ok)
    from moves [OF this] show ?thesis
      by (simp add: DCut apply_call_def mask_of_def)
  next
    case (DFloat a x)
    then show ?thesis
      using moves [OF float_call_safe [OF len ok(1)]] by (simp add: apply_call_def mask_of_def)
  next
    case (DShape a k)
    then show ?thesis
      using moves [OF shape_call_safe [OF len ok(1)]] by (simp add: apply_call_def mask_of_def)
  next
    case DReset
    then show ?thesis
      using dv_reset_goes [OF len ok(1), of lm]
      by (intro moves) (auto simp: apply_call_def mask_of_def)
  next
    case (DBool b x)
    then show ?thesis
      using flag_calls_go [OF ok(2)] ok(3) by (intro moves) (simp_all add: apply_call_def mask_of_def)
  next
    case DStop
    then show ?thesis
      using setters_go(4) [OF ok(2)] ok(3)
      by (intro moves) (simp_all add: apply_call_def mask_of_def on_sch_def)
  next
    case (DSampleRate x)
    then show ?thesis
      using setters_go(10) [OF ok(2)] ok(3)
      by (intro moves) (simp_all add: apply_call_def mask_of_def dv_set_sample_rate_def)
  qed
qed

text \<open>The constructed object, and every list of calls.\<close>

lemma new_dsp_voice_ok:
  assumes "length stack = fadeBufSize"
  shows "\<exists>v. new_dsp_voice lm stack fx = Inr v \<and> call_ok [] v"
proof -
  let ?r = "raw_voice lm stack fx"
  have "voice_ok ?r" "rw_fits 0 (sch ?r)"
    using rw_ok_new assms
    by (simp_all add: voice_ok_def raw_voice_def raw_curves_def curves_ok_def rw_fits_def fits_def)
      (simp add: new_rw_head_def new_sub_head_def)
  then show ?thesis
    using dv_reset_goes [OF assms, of ?r lm]
    by (auto simp: new_dsp_voice_def call_ok_def voice_ok_def goes_def mask_of_def)
qed

lemma replay_safe:
  assumes "length stack = fadeBufSize"
  shows "safe (grows h) (call_ok h) (replay lm junk stack fx h)"
proof (induction h)
  case Nil
  then show ?case
    using new_dsp_voice_ok [OF assms, of lm fx] by auto
next
  case (Cons e h)
  have "safe (grows (e # h)) (call_ok h) (replay lm junk stack fx h)"
    by (rule safe_mono [OF Cons.IH grows_Cons])
  then show ?case
    unfolding replay.simps by (rule safe_bind) (rule call_safe [OF assms])
qed

lemma replay_ok:
  assumes "length stack = fadeBufSize" "replay lm junk stack fx h = Inr v"
  shows "voice_ok v"
  using replay_safe [OF assms(1), of h lm junk fx] assms(2) by (simp add: call_ok_def)

lemma memory_safe:
  assumes "length stack = fadeBufSize" "grows h"
  shows "replay lm junk stack fx h \<notin> {Inl BufferOverrun, Inl TableOverrun}"
  using replay_safe [OF assms(1), of h lm junk fx] assms(2) by (auto simp: memory_fault_def)

end
