(* ===== verification/Dsp_View.thy ===== *)
theory Dsp_View
  imports Dsp_Replay
begin

text \<open>
  What the rest of the program knows of the voice object (\<open>Voice\<close>: \<open>rec_flags\<close>, \<open>fvalue\<close>, \<open>bvalue\<close>,
  \<open>svalue\<close>) as a function of its state, \<open>dsp_view\<close>, and how each call changes it. Moving the heads
  does not: \<open>same_view\<close> is the relation that every step of a block keeps.
\<close>

section \<open>The heads\<close>

definition rw_view :: "rw_head \<Rightarrow> bool \<times> flt \<times> bool" where
  "rw_view s = (loop_flag s, fade_time s, once_active s)"

lemma rw_view_upd [simp]: "rw_view (upd_head i f s) = rw_view s" "rw_view (both_heads f s) = rw_view s"
  by (simp_all add: rw_view_def upd_head_def both_heads_def once_active_def)

lemma rw_view_start_once [simp]: "rw_view (start_once i s) = rw_view s"
  by (auto simp: rw_view_def start_once_def once_active_def Let_def)

lemma rw_view_fields [simp]:
  "rw_view (s\<lparr>act := a\<rparr>) = rw_view s" "rw_view (s\<lparr>queued_cut := b\<rparr>) = rw_view s"
  "rw_view (s\<lparr>pre_lvl := x\<rparr>) = rw_view s" "rw_view (s\<lparr>rec_lvl := x\<rparr>) = rw_view s"
  "rw_view (s\<lparr>sr := x\<rparr>) = rw_view s" "rw_view (enqueue_cut p s) = rw_view s"
  "rw_view (take_action ac s) = rw_view s" "rw_view (rw_set_rate x s) = rw_view s"
  "rw_view (rw_stop s) = rw_view s" "rw_view (rw_run s) = rw_view s"
  "rw_view (rw_set_buffer n s) = rw_view s" "rw_view (set_rec_offset d s) = rw_view s"
  "rw_view (set_loop_start x s) = rw_view s" "rw_view (set_loop_end x s) = rw_view s"
  by (simp_all add: rw_view_def once_active_def enqueue_cut_def take_action_def head_ops both_heads_def
      upd_head_def calc_fade_inc_def Let_def split: action.split)

text \<open>\<open>leaves f r s\<close>: a successful \<open>r\<close> has the view of \<open>s\<close>.\<close>

lemma cut_to_phase_view:
  assumes "cut_to_phase p s = Inr t"
  shows "rw_view t = rw_view s"
proof (cases "fading s")
  case False
  let ?s2 = "upd_head (\<not> act s) (set_hstate FadeIn) (start_once (\<not> act s)
      (if hstate (heads s (act s)) \<noteq> Stopped then upd_head (act s) (set_hstate FadeOut) s else s))"
  obtain h where "t = (upd_head (\<not> act s) (\<lambda>_. h\<lparr>hactive := True\<rparr>)
              (upd_head (act s) (\<lambda>h. h\<lparr>hactive := False\<rparr>) ?s2))\<lparr>act := \<not> act s\<rparr>"
    using assms False unfolding cut_to_phase_def Let_def by (auto simp: dbind_eq_Inr)
  then have "rw_view t = rw_view ?s2"
    by (simp only: rw_view_fields rw_view_upd)
  then show ?thesis by simp
qed (use assms in \<open>simp add: cut_to_phase_def\<close>)

lemma cut_to_pos_view: "cut_to_pos x s = Inr t \<Longrightarrow> rw_view t = rw_view s"
  using cut_to_phase_view [of _ s t] by (auto simp: cut_to_pos_def Let_def split: if_splits)

lemma advance_view:
  assumes "advance s = Inr t"
  shows "rw_view t = rw_view s"
proof -
  have move: "rw_view (move_head i u) = rw_view u" for i u
    by (simp add: move_head_def split: prod.split)
  let ?m = "move_head True (move_head False s)"
  let ?f = "both_heads (update_fade (fade_inc ?m)) ?m"
  have "dequeue_cut ?f = Inr t"
    using assms by (simp add: advance_def Let_def)
  then have "rw_view t = rw_view ?f"
    using cut_to_phase_view by (auto simp: dequeue_cut_def dbind_eq_Inr split: if_splits)
  then show ?thesis
    by (simp add: move)
qed

lemma write_heads_view:
  assumes "write_heads c x (buf, s) = Inr (buf', t)"
  shows "rw_view t = rw_view s"
proof -
  have "rw_view u = rw_view s" if "poke_head c x i (b, s) = Inr (b', u)" for i b b' s u
    using that by (auto simp: poke_head_def dbind_eq_Inr)
  then show ?thesis
    using assms by (force simp: write_heads_def dbind_eq_Inr split: if_splits option.splits)
qed

lemma process_sample_view:
  assumes "process_sample lm c p r x (buf, s) = Inr (y, buf', t)"
  shows "rw_view t = rw_view s"
proof (cases "\<not> p \<and> \<not> r")
  case False
  then obtain b u where "(if r then write_heads c x (buf, s) else Inr (buf, s)) = Inr (b, u)" "advance u = Inr t"
    using assms by (auto simp: process_sample_def dbind_eq_Inr)
  then show ?thesis
    using advance_view [of u t] write_heads_view [of c x buf s b u] by (auto split: if_splits)
qed (use assms in \<open>simp add: process_sample_def\<close>)

section \<open>The object\<close>

definition float_view :: "dsp_voice \<Rightarrow> fattr \<Rightarrow> flt option" where
  "float_view v a =
     (case a of
        Rate \<Rightarrow> Some (lr_x0 (rate_ramp v)) | RecLevel \<Rightarrow> Some (lr_x0 (rec_ramp v))
      | PreLevel \<Rightarrow> Some (lr_x0 (pre_ramp v)) | FadeTime \<Rightarrow> Some (fade_time (sch v))
      | RecPreSlewTime \<Rightarrow> Some (lr_time (rec_ramp v)) | RateSlewTime \<Rightarrow> Some (lr_time (rate_ramp v))
      | PhaseQuant \<Rightarrow> Some (quant_unit v) | RecDelayRatio \<Rightarrow> Some (rec_delay_ratio (curves v))
      | PreWindowRatio \<Rightarrow> Some (pre_window_ratio (curves v))
      | PreFilterFc \<Rightarrow> Some (pre_fc_base v) | PreFilterFcMod \<Rightarrow> Some (pre_fc_mod v)
      | PreFilterRq \<Rightarrow> Some (svf_rq (svf_pre v)) | PreFilterLp \<Rightarrow> Some (lp_mix (svf_pre v))
      | PreFilterHp \<Rightarrow> Some (hp_mix (svf_pre v)) | PreFilterBp \<Rightarrow> Some (bp_mix (svf_pre v))
      | PreFilterBr \<Rightarrow> Some (br_mix (svf_pre v)) | PreFilterDry \<Rightarrow> Some (pre_dry v)
      | PostFilterRq \<Rightarrow> Some (svf_rq (svf_post v)) | PostFilterLp \<Rightarrow> Some (lp_mix (svf_post v))
      | PostFilterHp \<Rightarrow> Some (hp_mix (svf_post v)) | PostFilterBp \<Rightarrow> Some (bp_mix (svf_post v))
      | PostFilterBr \<Rightarrow> Some (br_mix (svf_post v)) | PostFilterDry \<Rightarrow> Some (post_dry v)
      | _ \<Rightarrow> None)"

definition shape_view :: "dsp_voice \<Rightarrow> sattr \<Rightarrow> nat" where
  "shape_view v a = (case a of RecFadeShape \<Rightarrow> rec_shape (curves v) | PreFadeShape \<Rightarrow> pre_shape (curves v))"

definition agrees :: "dsp_lib \<Rightarrow> bool \<Rightarrow> dsp_ev list \<Rightarrow> dsp_voice \<Rightarrow> bool" where
  "agrees lib fx h v \<longleftrightarrow> dv_fixed v = fx
     \<and> rec_flags lib h = (rec_on v, once_active (sch v))
     \<and> (saved_rec v, saved_once v) = (rec_on v, once_active (sch v))
     \<and> bvalue h Loop = loop_flag (sch v) \<and> bvalue h Play = play_on v
     \<and> (\<forall>a x. float_view v a = Some x \<longrightarrow> x = fvalue fx h a)
     \<and> (\<forall>a. shape_view v a = svalue h a)"

text \<open>All of it but the flags that a block may clear.\<close>

definition same_view :: "dsp_voice \<Rightarrow> dsp_voice \<Rightarrow> bool" where
  "same_view v w \<longleftrightarrow> dv_fixed w = dv_fixed v \<and> rec_on w = rec_on v \<and> play_on w = play_on v
     \<and> saved_rec w = saved_rec v \<and> saved_once w = saved_once v \<and> rw_view (sch w) = rw_view (sch v)
     \<and> float_view w = float_view v \<and> curves w = curves v"

lemma same_view_trans: "same_view u v \<Longrightarrow> same_view v w \<Longrightarrow> same_view u w"
  by (simp add: same_view_def)

text \<open>What an update of one member does to the view of the floats.\<close>

lemma float_view_sets:
  "float_view (v\<lparr>rate_ramp := r\<rparr>) = (float_view v)(Rate \<mapsto> lr_x0 r, RateSlewTime \<mapsto> lr_time r)"
  "float_view (v\<lparr>rec_ramp := r\<rparr>) = (float_view v)(RecLevel \<mapsto> lr_x0 r, RecPreSlewTime \<mapsto> lr_time r)"
  "float_view (v\<lparr>pre_ramp := r\<rparr>) = (float_view v)(PreLevel \<mapsto> lr_x0 r)"
  "float_view (v\<lparr>sch := s\<rparr>) = (float_view v)(FadeTime \<mapsto> fade_time s)"
  "float_view (v\<lparr>curves := c\<rparr>) =
     (float_view v)(RecDelayRatio \<mapsto> rec_delay_ratio c, PreWindowRatio \<mapsto> pre_window_ratio c)"
  "float_view (v\<lparr>quant_unit := x\<rparr>) = (float_view v)(PhaseQuant \<mapsto> x)"
  "float_view (v\<lparr>pre_fc_base := x\<rparr>) = (float_view v)(PreFilterFc \<mapsto> x)"
  "float_view (v\<lparr>pre_fc_mod := x\<rparr>) = (float_view v)(PreFilterFcMod \<mapsto> x)"
  "float_view (v\<lparr>pre_dry := x\<rparr>) = (float_view v)(PreFilterDry \<mapsto> x)"
  "float_view (v\<lparr>post_dry := x\<rparr>) = (float_view v)(PostFilterDry \<mapsto> x)"
  "float_view (v\<lparr>svf_pre := f\<rparr>) = (float_view v)(PreFilterRq \<mapsto> svf_rq f, PreFilterLp \<mapsto> lp_mix f,
     PreFilterHp \<mapsto> hp_mix f, PreFilterBp \<mapsto> bp_mix f, PreFilterBr \<mapsto> br_mix f)"
  "float_view (v\<lparr>svf_post := f\<rparr>) = (float_view v)(PostFilterRq \<mapsto> svf_rq f, PostFilterLp \<mapsto> lp_mix f,
     PostFilterHp \<mapsto> hp_mix f, PostFilterBp \<mapsto> bp_mix f, PostFilterBr \<mapsto> br_mix f)"
  "float_view (v\<lparr>quant_offset := x\<rparr>) = float_view v" "float_view (v\<lparr>quant_pos := x\<rparr>) = float_view v"
  "float_view (v\<lparr>raw_pos := x\<rparr>) = float_view v" "float_view (v\<lparr>dv_sr := x\<rparr>) = float_view v"
  "float_view (v\<lparr>rec_on := b\<rparr>) = float_view v" "float_view (v\<lparr>play_on := b\<rparr>) = float_view v"
  "float_view (v\<lparr>saved_rec := b\<rparr>) = float_view v" "float_view (v\<lparr>saved_once := b\<rparr>) = float_view v"
  "float_view (v\<lparr>saved_heads := k\<rparr>) = float_view v"
  by (rule ext, simp add: float_view_def split: fattr.split)+

lemma float_view_at:
  "float_view v RateSlewTime = Some (lr_time (rate_ramp v))" "float_view v Rate = Some (lr_x0 (rate_ramp v))"
  "float_view v RecLevel = Some (lr_x0 (rec_ramp v))" "float_view v RecPreSlewTime = Some (lr_time (rec_ramp v))"
  "float_view v PreLevel = Some (lr_x0 (pre_ramp v))" "float_view v FadeTime = Some (fade_time (sch v))"
  "float_view v PhaseQuant = Some (quant_unit v)" "float_view v PreFilterFc = Some (pre_fc_base v)"
  "float_view v PreFilterFcMod = Some (pre_fc_mod v)" "float_view v PreFilterDry = Some (pre_dry v)"
  "float_view v PostFilterDry = Some (post_dry v)"
  "float_view v PreFilterRq = Some (svf_rq (svf_pre v))" "float_view v PreFilterLp = Some (lp_mix (svf_pre v))"
  "float_view v PreFilterHp = Some (hp_mix (svf_pre v))" "float_view v PreFilterBp = Some (bp_mix (svf_pre v))"
  "float_view v PreFilterBr = Some (br_mix (svf_pre v))"
  "float_view v PostFilterRq = Some (svf_rq (svf_post v))" "float_view v PostFilterLp = Some (lp_mix (svf_post v))"
  "float_view v PostFilterHp = Some (hp_mix (svf_post v))" "float_view v PostFilterBp = Some (bp_mix (svf_post v))"
  "float_view v PostFilterBr = Some (br_mix (svf_post v))"
  "float_view v LoopStart = None" "float_view v LoopEnd = None" "float_view v RecOffset = None"
  "float_view v PhaseOffset = None" "float_view v PostFilterFc = None"
  by (simp_all add: float_view_def)

lemma rw_view_time: "rw_view s = rw_view t \<Longrightarrow> fade_time s = fade_time t"
  by (simp add: rw_view_def)

lemma ramp_step_view: "same_view v (ramp_step v)"
  by (auto simp: same_view_def ramp_step_def Let_def float_view_def lr_update_def fun_eq_iff
      split: fattr.split) (simp_all add: rw_set_rate_def both_heads_def calc_fade_inc_def Let_def)

text \<open>The settings of a filter, which its samples, its sample rate and its corner do not change.\<close>

definition svf_view :: "svf \<Rightarrow> flt \<times> flt \<times> flt \<times> flt \<times> flt" where
  "svf_view s = (svf_rq s, lp_mix s, hp_mix s, bp_mix s, br_mix s)"

lemma svf_view_ops [simp]:
  "svf_view (snd (filter_turn d x s)) = svf_view s" "svf_view (svf_set_sr lm x s) = svf_view s"
  "svf_view (svf_set_fc lm x s) = svf_view s"
  by (simp_all add: svf_view_def filter_turn_def svf_next_def svf_update_def svf_set_sr_def svf_set_fc_def
      calc_coeffs_def calc_warp_def Let_def)

lemma svf_view_eq:
  assumes "svf_view s = svf_view t"
  shows "svf_rq s = svf_rq t" "lp_mix s = lp_mix t" "hp_mix s = hp_mix t" "bp_mix s = bp_mix t" "br_mix s = br_mix t"
  using assms by (simp_all add: svf_view_def)

lemmas svf_views = svf_view_ops [THEN svf_view_eq(1)] svf_view_ops [THEN svf_view_eq(2)]
  svf_view_ops [THEN svf_view_eq(3)] svf_view_ops [THEN svf_view_eq(4)] svf_view_ops [THEN svf_view_eq(5)]

lemma sample_turn_view:
  assumes "sample_turn lm junk x (buf, v) = Inr (y, buf', w)"
  shows "same_view v w"
proof -
  let ?u = "v\<lparr>svf_pre := snd (filter_turn (pre_dry v) x (svf_pre v))\<rparr>"
  let ?v = "ramp_step ?u"
  obtain z p s g where s: "process_sample lm (curves ?v) (play_on ?v) (rec_on ?v) p (buf, sch ?v) = Inr (z, buf', s)"
      "w = update_quant_phase (?v\<lparr>sch := s, svf_post := snd (filter_turn (post_dry ?v) g (svf_post ?v))\<rparr>)"
    using assms by (auto simp: sample_turn_def dbind_eq_Inr Let_def)
  have "same_view ?v w"
    using process_sample_view [OF s(1)] rw_view_time [OF process_sample_view [OF s(1)]]
    by (auto simp: s(2) same_view_def update_quant_phase_def float_view_def fun_eq_iff svf_views split: fattr.split)
  moreover have "same_view v ?u"
    by (auto simp: same_view_def float_view_def fun_eq_iff svf_views split: fattr.split)
  ultimately show ?thesis
    using ramp_step_view same_view_trans by blast
qed

lemma sample_loop_view: "sample_loop lm junk xs (buf, v) = Inr (ys, buf', w) \<Longrightarrow> same_view v w"
proof (induction xs arbitrary: buf v ys)
  case Nil
  then show ?case by (simp add: same_view_def)
next
  case (Cons x xs)
  then obtain y b u zs where "sample_turn lm junk x (buf, v) = Inr (y, b, u)"
      "sample_loop lm junk xs (b, u) = Inr (zs, buf', w)"
    by (auto simp: dbind_eq_Inr)
  then show ?case
    using Cons.IH sample_turn_view same_view_trans by blast
qed

section \<open>Each call\<close>

text \<open>How the calls that are not blocks change the view; the fade tables keep their settings.\<close>

lemma agreesI:
  assumes "dv_fixed w = fx" "rec_flags lib h = (rec_on w, once_active (sch w))"
    "saved_rec w = rec_on w" "saved_once w = once_active (sch w)"
    "bvalue h Loop = loop_flag (sch w)" "bvalue h Play = play_on w"
    "\<And>a x. float_view w a = Some x \<Longrightarrow> x = fvalue fx h a"
    "rec_shape (curves w) = svalue h RecFadeShape" "pre_shape (curves w) = svalue h PreFadeShape"
  shows "agrees lib fx h w"
  using assms by (auto simp: agrees_def shape_view_def split: sattr.split)

lemma agreesD:
  assumes "agrees lib fx h v"
  shows "dv_fixed v = fx" "rec_flags lib h = (rec_on v, once_active (sch v))"
    "saved_rec v = rec_on v" "saved_once v = once_active (sch v)"
    "bvalue h Loop = loop_flag (sch v)" "bvalue h Play = play_on v"
    "float_view v a = Some x \<Longrightarrow> x = fvalue fx h a"
    "rec_shape (curves v) = svalue h RecFadeShape" "pre_shape (curves v) = svalue h PreFadeShape"
  using assms by (auto simp: agrees_def shape_view_def split: sattr.splits)

text \<open>A call that changes nothing of the view, and that the abstract functions ignore.\<close>

lemma agrees_same:
  assumes "agrees lib fx h v" "same_view v w"
    "rec_flags lib (e # h) = rec_flags lib h" "\<And>b. bvalue (e # h) b = bvalue h b"
    "\<And>a. fvalue fx (e # h) a = fvalue fx h a" "\<And>a. svalue (e # h) a = svalue h a"
  shows "agrees lib fx (e # h) w"
  by (rule agreesI)
    (use agreesD [OF assms(1)] assms(2) in
      \<open>simp_all add: same_view_def rw_view_def assms(3-6) del: rec_flags.simps\<close>)

lemma same_view_sch: "rw_view s = rw_view (sch v) \<Longrightarrow> same_view v (v\<lparr>sch := s\<rparr>)"
  by (auto simp: same_view_def float_view_def fun_eq_iff rw_view_def split: fattr.split)

lemma once_simps [simp]:
  "once_active (set_once_flag b s) = b" "loop_flag (set_once_flag b s) = loop_flag s"
  "fade_time (set_once_flag b s) = fade_time s"
  "once_active (rw_stop s) = once_active s" "once_active (rw_run s) = once_active s"
  "loop_flag (rw_stop s) = loop_flag s" "loop_flag (rw_run s) = loop_flag s"
  "fade_time (rw_stop s) = fade_time s" "fade_time (rw_run s) = fade_time s"
  by (simp_all add: once_active_def set_once_flag_def rw_stop_def rw_run_def both_heads_def upd_head_def)

lemma float_view_flags:
  "fade_time s = fade_time (sch v) \<Longrightarrow>
   float_view (v\<lparr>rec_on := r, sch := s, saved_rec := x, saved_once := y\<rparr>) = float_view v"
  "fade_time s = fade_time (sch v) \<Longrightarrow> float_view (v\<lparr>play_on := r, sch := s\<rparr>) = float_view v"
  by (auto simp: float_view_def fun_eq_iff split: fattr.split)

lemma set_rec_flag_view:
  "rec_on (set_rec_flag x v) = x" "saved_rec (set_rec_flag x v) = x"
  "once_active (sch (set_rec_flag x v)) = (x \<and> once_active (sch v))"
  "saved_once (set_rec_flag x v) = (x \<and> once_active (sch v))"
  "loop_flag (sch (set_rec_flag x v)) = loop_flag (sch v)" "play_on (set_rec_flag x v) = play_on v"
  "float_view (set_rec_flag x v) = float_view v" "curves (set_rec_flag x v) = curves v"
  "dv_fixed (set_rec_flag x v) = dv_fixed v"
  by (simp_all add: set_rec_flag_def publish_flags_def Let_def float_view_flags)

lemma set_play_flag_view:
  "rec_on (set_play_flag x v) = rec_on v" "saved_rec (set_play_flag x v) = saved_rec v"
  "once_active (sch (set_play_flag x v)) = once_active (sch v)"
  "saved_once (set_play_flag x v) = saved_once v"
  "loop_flag (sch (set_play_flag x v)) = loop_flag (sch v)" "play_on (set_play_flag x v) = x"
  "float_view (set_play_flag x v) = float_view v" "curves (set_play_flag x v) = curves v"
  "dv_fixed (set_play_flag x v) = dv_fixed v"
  by (simp_all add: set_play_flag_def Let_def float_view_flags)

lemma agrees_bool:
  assumes "agrees lib fx h v"
  shows "agrees lib fx (DBool b x # h) (bool_call b x v)"
proof -
  note old = agreesD [OF assms]
  show ?thesis
  proof (cases b)
    case Loop
    show ?thesis
      unfolding Loop bool_call_def on_sch_def battr.case
      by (rule agreesI) (use old in \<open>auto simp: once_active_def float_view_def split: fattr.splits\<close>)
  next
    case Rec
    show ?thesis
      unfolding Rec bool_call_def battr.case
      by (rule agreesI) (use old in \<open>auto simp: set_rec_flag_view\<close>)
  next
    case Play
    show ?thesis
      unfolding Play bool_call_def battr.case
      by (rule agreesI) (use old in \<open>auto simp: set_play_flag_view\<close>)
  next
    case RecOnce
    let ?u = "v\<lparr>sch := set_once_flag x (sch v)\<rparr>"
    have fv: "float_view (u\<lparr>saved_rec := p, saved_once := q\<rparr>) = float_view u" for u p q
      by (auto simp: float_view_def fun_eq_iff split: fattr.split)
    have fu: "float_view (v\<lparr>sch := set_once_flag z (sch v)\<rparr>) = float_view v" for z
      by (auto simp: float_view_def fun_eq_iff split: fattr.split)
    show ?thesis
      unfolding RecOnce bool_call_def battr.case
      by (rule agreesI; cases x)
        (use old in \<open>auto simp: set_rec_once_def publish_flags_def Let_def set_rec_flag_view fv fu\<close>)
  qed
qed

lemma svf_set_rq_view:
  "svf_rq (svf_set_rq x s) = x" "lp_mix (svf_set_rq x s) = lp_mix s" "hp_mix (svf_set_rq x s) = hp_mix s"
  "bp_mix (svf_set_rq x s) = bp_mix s" "br_mix (svf_set_rq x s) = br_mix s"
  by (simp_all add: svf_set_rq_def calc_coeffs_def Let_def)

lemma update_pre_fc_view: "float_view (update_pre_fc lm v) = float_view v"
  by (rule ext) (simp add: update_pre_fc_def Let_def float_view_sets float_view_at svf_views)

lemma update_pre_fc_fields:
  "lr_x0 (rate_ramp (update_pre_fc lm v)) = lr_x0 (rate_ramp v)" "pre_fc_base (update_pre_fc lm v) = pre_fc_base v"
  by (simp_all add: update_pre_fc_def Let_def)

lemma set_times:
  "fade_time (set_loop_start x s) = fade_time s" "fade_time (set_loop_end x s) = fade_time s"
  "fade_time (set_fade_time x s) = x" "fade_time (set_rec_offset d s) = fade_time s"
  by (simp_all add: head_ops calc_fade_inc_def both_heads_def Let_def)

lemma float_call_view:
  assumes "b \<noteq> RecDelayRatio" "b \<noteq> PreWindowRatio" "float_call lm stack b y v = Inr w"
  shows "float_view w a = (if a = b \<and> float_view v a \<noteq> None then Some y else float_view v a)"
  using assms
  by (cases b)
    (auto simp: float_call_def on_sch_def float_view_sets float_view_at update_pre_fc_view
      update_pre_fc_fields svf_set_rq_view svf_views set_times lr_set_target_def lr_set_time_def dbind_eq_Inr)

lemma agrees_float:
  assumes "agrees lib fx h v" "length stack = fadeBufSize" "voice_ok v" "float_call lm stack b y v = Inr w"
  shows "agrees lib fx (DFloat b y # h) w"
proof -
  note old = agreesD [OF assms(1)]
  have c: "curves_ok (curves v)"
    using assms(3) by (simp add: voice_ok_def)
  note set = curves_setters_total [OF assms(2) c]
  have one: "agrees lib fx (DFloat b y # h) w"
    if "dv_fixed w = dv_fixed v" "rec_on w = rec_on v" "play_on w = play_on v" "saved_rec w = saved_rec v"
      "saved_once w = saved_once v" "loop_flag (sch w) = loop_flag (sch v)"
      "once_active (sch w) = once_active (sch v)" "rec_shape (curves w) = rec_shape (curves v)"
      "pre_shape (curves w) = pre_shape (curves v)"
      "\<And>a. float_view w a = (if a = b \<and> float_view v a \<noteq> None then Some y else float_view v a)"
    using that old by (intro agreesI) (auto split: if_splits)
  have curves: ?thesis
    if c: "float_call lm stack b y v = on_curves f v" "\<exists>c'. f (curves v) = Inr c' \<and> curves_ok c' \<and> settings c' = S"
      and S: "S = (if b = RecDelayRatio then y else rec_delay_ratio (curves v),
            if b = PreWindowRatio then y else pre_window_ratio (curves v),
            rec_shape (curves v), pre_shape (curves v))"
      "b = RecDelayRatio \<or> b = PreWindowRatio" for f S
  proof -
    obtain c' where "w = v\<lparr>curves := c'\<rparr>" "settings c' = S"
      using c assms(4) by (auto simp: on_curves_def)
    then show ?thesis
      using S by (intro one) (auto simp: settings_def float_view_def split: fattr.split)
  qed
  have rest: ?thesis if "b \<noteq> RecDelayRatio" "b \<noteq> PreWindowRatio"
  proof (rule one)
    show "float_view w a = (if a = b \<and> float_view v a \<noteq> None then Some y else float_view v a)" for a
      using float_call_view [OF that assms(4)] .
  qed (use that assms(4) in \<open>cases b;
      auto simp: float_call_def on_sch_def head_ops calc_fade_inc_def once_active_def both_heads_def
        update_pre_fc_def Let_def dbind_eq_Inr\<close>)+
  show ?thesis
    using curves [where f = "set_rec_delay_ratio lm stack y", OF _ set(3)]
      curves [where f = "set_pre_window_ratio lm stack y", OF _ set(4)] rest
    by (cases "b = RecDelayRatio"; cases "b = PreWindowRatio") (simp_all add: float_call_def settings_def)
qed

lemma agrees_shape:
  assumes "agrees lib fx h v" "length stack = fadeBufSize" "voice_ok v" "shape_call lm stack b k v = Inr w"
  shows "agrees lib fx (DShape b k # h) w"
proof -
  note old = agreesD [OF assms(1)]
  have c: "curves_ok (curves v)"
    using assms(3) by (simp add: voice_ok_def)
  note set = curves_setters_total [OF assms(2) c]
  have "\<exists>c'. w = v\<lparr>curves := c'\<rparr> \<and> rec_delay_ratio c' = rec_delay_ratio (curves v)
      \<and> pre_window_ratio c' = pre_window_ratio (curves v)
      \<and> rec_shape c' = (if b = RecFadeShape then k else rec_shape (curves v))
      \<and> pre_shape c' = (if b = PreFadeShape then k else pre_shape (curves v))"
    using set(1) [of lm k] set(2) [of lm k] assms(4)
    by (cases b) (auto simp: shape_call_def on_curves_def settings_def)
  then obtain c' where w: "w = v\<lparr>curves := c'\<rparr>" "rec_delay_ratio c' = rec_delay_ratio (curves v)"
      "pre_window_ratio c' = pre_window_ratio (curves v)"
      "rec_shape c' = (if b = RecFadeShape then k else rec_shape (curves v))"
      "pre_shape c' = (if b = PreFadeShape then k else pre_shape (curves v))"
    by blast
  have "float_view w = float_view v"
    using w(2,3) by (auto simp: w(1) float_view_def fun_eq_iff split: fattr.split)
  with old w show ?thesis
    by (intro agreesI) auto
qed

lemma reset_view:
  assumes "dv_reset lm stack v = Inr w" "length stack = fadeBufSize" "curves_ok (curves v)"
  shows "dv_fixed w = dv_fixed v" "\<not> rec_on w" "\<not> play_on w" "\<not> saved_rec w" "\<not> saved_once w"
    "\<not> once_active (sch w)" "loop_flag (sch w) = loop_flag (sch v)" "rec_shape (curves w) = 2"
    "pre_shape (curves w) = 0" "pre_fc_base w = pre_fc_base v"
    "float_view w a = Some x \<Longrightarrow> a \<noteq> PreFilterFc \<Longrightarrow> x = fdefault (dv_fixed v) a"
proof -
  obtain c where c: "curves_init lm stack (dv_fixed v) (curves v) = Inr c"
      "settings c = (Fin (1 / 128), Fin (1 / 8), 2, 0)"
    using curves_init_total [OF assms(2,3)] by blast
  show "dv_fixed w = dv_fixed v" "\<not> rec_on w" "\<not> play_on w" "\<not> saved_rec w" "\<not> saved_once w"
    "\<not> once_active (sch w)" "loop_flag (sch w) = loop_flag (sch v)" "rec_shape (curves w) = 2"
    "pre_shape (curves w) = 0" "pre_fc_base w = pre_fc_base v"
    using assms(1) c
    by (auto simp: dv_reset_def Let_def publish_heads_def publish_flags_def rw_init_def settings_def
        set_fade_time_def calc_fade_inc_def once_active_def set_once_flag_def set_rec_offset_def both_heads_def
        split: if_splits)
  show "x = fdefault (dv_fixed v) a" if "float_view w a = Some x" "a \<noteq> PreFilterFc"
    using assms(1) c that
    by (cases a)
      (auto simp: dv_reset_def Let_def publish_heads_def publish_flags_def rw_init_def settings_def
        set_fade_time_def calc_fade_inc_def set_once_flag_def float_view_def lr_set_time_def lr_reset_def
        svf_views svf_set_rq_def calc_coeffs_def clear_state_def)
qed

lemma agrees_reset:
  assumes "agrees lib fx h v" "length stack = fadeBufSize" "voice_ok v" "dv_reset lm stack v = Inr w"
  shows "agrees lib fx (DReset # h) w"
proof -
  have "curves_ok (curves v)"
    using assms(3) by (simp add: voice_ok_def)
  note r = reset_view [OF assms(4,2) this]
  have base: "pre_fc_base v = fvalue fx h PreFilterFc"
    by (rule agreesD(7) [OF assms(1)]) (simp add: float_view_def)
  have "x = fvalue fx (DReset # h) a" if "float_view w a = Some x" for a x
    using r(10) r(11) [OF that] that base agreesD(1) [OF assms(1)]
    by (cases "a = PreFilterFc") (simp_all add: float_view_def)
  with r agreesD [OF assms(1)] show ?thesis
    by (intro agreesI) (auto simp del: fvalue.simps split: prod.split)
qed

lemma agrees_new:
  assumes "length stack = fadeBufSize" "new_dsp_voice lm stack fx = Inr w"
  shows "agrees lib fx [] w"
proof -
  have "curves_ok (curves (raw_voice lm stack fx))"
    using assms(1) by (simp add: raw_voice_def raw_curves_def curves_ok_def)
  note r = reset_view [OF assms(2) [unfolded new_dsp_voice_def] assms(1) this]
  have "x = fdefault fx a" if "float_view w a = Some x" for a x
    using r(10) r(11) [OF that] that
    by (cases "a = PreFilterFc") (simp_all add: float_view_def raw_voice_def)
  with r show ?thesis
    by (intro agreesI) (auto simp: raw_voice_def new_rw_head_def)
qed

text \<open>A block: its samples keep the view, and its end clears both flags when the pass is over.\<close>

lemma agrees_process:
  assumes "agrees lib fx h v" "sample_loop lm junk xs (buf, v) = Inr (ys, buf', u)"
    "lib_once_done lib (DProcess b x # h) = once_done (sch u)"
  shows "agrees lib fx (DProcess b x # h) (end_block u)"
proof -
  note old = agreesD [OF assms(1)]
  have u: "same_view v u"
    using assms(2) by (rule sample_loop_view)
  have once: "once_done (sch u) \<Longrightarrow> once_active (sch u)"
    by (simp add: once_active_def)
  have fv: "float_view (end_block u) = float_view u"
    by (auto simp: float_view_def end_block_def publish_heads_def publish_flags_def Let_def fun_eq_iff
        split: fattr.split)
  have "rec_on (end_block u) = (rec_on u \<and> \<not> once_done (sch u))"
      "once_active (sch (end_block u)) = (once_active (sch u) \<and> \<not> (rec_on u \<and> once_done (sch u)))"
      "saved_rec (end_block u) = rec_on (end_block u)"
      "saved_once (end_block u) = once_active (sch (end_block u))"
      "loop_flag (sch (end_block u)) = loop_flag (sch u)" "play_on (end_block u) = play_on u"
      "curves (end_block u) = curves u" "dv_fixed (end_block u) = dv_fixed u"
    by (auto simp: end_block_def publish_heads_def publish_flags_def Let_def)
  note eb = this fv
  show ?thesis
    by (rule agreesI; unfold eb)
      (use u old once in \<open>auto simp: same_view_def rw_view_def assms(3)\<close>)
qed

lemma agrees_call:
  fixes lm junk stack fx
  defines "lib \<equiv> soft_lib lm junk stack fx"
  assumes "length stack = fadeBufSize" "replay lm junk stack fx h = Inr v" "agrees lib fx h v"
    "apply_call lm junk stack h e v = Inr w"
  shows "agrees lib fx (e # h) w"
proof -
  have ok: "voice_ok v"
    by (rule replay_ok [OF assms(2,3)])
  note old = assms(4) and call = assms(5)
  show ?thesis
  proof (cases e)
    case (DFloat a x)
    with call agrees_float [OF old assms(2) ok] show ?thesis by (simp add: apply_call_def)
  next
    case (DBool b x)
    with call agrees_bool [OF old] show ?thesis by (auto simp: apply_call_def)
  next
    case (DShape a k)
    with call agrees_shape [OF old assms(2) ok] show ?thesis by (simp add: apply_call_def)
  next
    case (DCut x)
    with call obtain s where "cut_to_pos x (sch v) = Inr s" "w = v\<lparr>sch := s\<rparr>"
      by (auto simp: apply_call_def dbind_eq_Inr)
    then show ?thesis
      unfolding DCut by (intro agrees_same [OF old]) (simp_all add: same_view_sch cut_to_pos_view split: prod.split)
  next
    case DStop
    with call show ?thesis
      by (intro agrees_same [OF old]) (auto simp: apply_call_def on_sch_def same_view_sch split: prod.split)
  next
    case DReset
    with call agrees_reset [OF old assms(2) ok] show ?thesis by (simp add: apply_call_def)
  next
    case (DSampleRate x)
    with call have w: "w = dv_set_sample_rate lm x v"
      by (simp add: apply_call_def)
    have "same_view v w"
      by (auto simp: w same_view_def dv_set_sample_rate_def float_view_def lr_set_sr_def lr_set_time_def
          svf_views fun_eq_iff split: fattr.split)
    then show ?thesis
      unfolding DSampleRate by (intro agrees_same [OF old]) (simp_all split: prod.split)
  next
    case (DBuffer a n)
    with call show ?thesis
      by (intro agrees_same [OF old]) (auto simp: apply_call_def on_sch_def same_view_sch split: prod.split)
  next
    case (DProcess buf xs)
    with call obtain ys buf' u where
      u: "sample_loop lm (junk h) xs (buf, v) = Inr (ys, buf', u)" "w = end_block u"
      by (auto simp: apply_call_def process_block_def dbind_eq_Inr)
    then have "lib_once_done lib (DProcess buf xs # h) = once_done (sch u)"
      by (simp add: lib_def soft_lib_def block_of_def assms(3))
    with u show ?thesis
      unfolding DProcess u(2) by (intro agrees_process [OF old])
  qed
qed

lemma replay_agrees:
  assumes "length stack = fadeBufSize"
  shows "replay lm junk stack fx h = Inr v \<Longrightarrow> agrees (soft_lib lm junk stack fx) fx h v"
proof (induction h arbitrary: v)
  case Nil
  then show ?case using agrees_new [OF assms] by simp
next
  case (Cons e h)
  then show ?case
    using agrees_call [OF assms] by (auto simp: dbind_eq_Inr)
qed

end
