(* ===== verification/Dsp_Motion.thy ===== *)
theory Dsp_Motion
  imports Dsp_View
begin

text \<open>
  How the heads move: a loop wrap is a cut to the other end of the loop, a voice that was never
  cut has no head that obeys its loop points, and playback at the recorded speed reads the buffer
  sample by sample.
\<close>

section \<open>A loop wrap\<close>

lemma set_phase_Inr:
  assumes "cast_int p = Inr k" "- (2 ^ 31) \<le> k + inc_dir h * rec_off h" "k + inc_dir h * rec_off h < 2 ^ 31"
  shows "set_phase p h = Inr (h\<lparr>hphase := p, wr_idx := wrap_index (word_of_int (k + inc_dir h * rec_off h)) h\<rparr>)"
  using assms by (simp add: set_phase_def Let_def)

lemma move_inactive:
  assumes "\<not> hactive (heads s i)"
  shows "move_head i s = upd_head i (\<lambda>h. if hstate h = Stopped then h else h\<lparr>hphase := fadd F64 (hphase h) (hrate h)\<rparr>) s"
  using assms by (simp add: move_head_def update_phase_def take_action_def Let_def upd_head_def)

lemma update_fade_simps [simp]:
  "hphase (update_fade inc h) = hphase h" "hrate (update_fade inc h) = hrate h"
  "hactive (update_fade inc h) = hactive h" "inc_dir (update_fade inc h) = inc_dir h"
  "rec_off (update_fade inc h) = rec_off h"
  by (simp_all add: update_fade_def Let_def split: hstate.split)

lemma update_fade_playing [simp]: "hstate h = Playing \<Longrightarrow> update_fade inc h = h"
  by (simp add: update_fade_def)

text \<open>The loop end a head that leaves the loop is sent to.\<close>

definition loop_target :: "rw_head \<Rightarrow> flt" where
  "loop_target s = (if flt_less (Fin 0) (hrate (heads s (act s))) then loop_start s else loop_end s)"

lemma move_out_of_loop:
  assumes "hactive (heads s i)" "hstate (heads s i) \<noteq> Stopped" "loop_flag s" "act s = i"
    "p = fadd F64 (hphase (heads s i)) (hrate (heads s i))" "flt_less (loop_end s) p \<or> flt_less p (loop_start s)"
  shows "move_head i s = enqueue_cut (loop_target s) (upd_head i (\<lambda>h. h\<lparr>hphase := p\<rparr>) s)"
  using assms
  by (auto simp: move_head_def update_phase_def take_action_def enqueue_cut_def loop_target_def Let_def upd_head_def)

lemma upd_head_twist: "i \<noteq> j \<Longrightarrow> upd_head i f (upd_head j g s) = upd_head j g (upd_head i f s)"
  by (auto simp: upd_head_def fun_upd_twist)

lemma upd_head_enqueue: "upd_head i f (enqueue_cut p s) = enqueue_cut p (upd_head i f s)"
  by (simp add: upd_head_def enqueue_cut_def)

definition drift :: "sub_head \<Rightarrow> sub_head" where
  "drift h = (if hstate h = Stopped then h else h\<lparr>hphase := fadd F64 (hphase h) (hrate h)\<rparr>)"

lemma upd_head_fields [simp]:
  "loop_flag (upd_head i f s) = loop_flag s" "loop_start (upd_head i f s) = loop_start s"
  "loop_end (upd_head i f s) = loop_end s"
  by (simp_all add: upd_head_def)

text \<open>Both heads moved: the inactive one drifts, the active one is sent to the end of the loop.\<close>

lemma move_both_out:
  assumes "hactive (heads s (act s))" "hstate (heads s (act s)) \<noteq> Stopped" "loop_flag s"
    "\<not> hactive (heads s (\<not> act s))" "p = fadd F64 (hphase (heads s (act s))) (hrate (heads s (act s)))"
    "flt_less (loop_end s) p \<or> flt_less p (loop_start s)"
  shows "move_head True (move_head False s) = enqueue_cut (loop_target s)
           (upd_head (act s) (\<lambda>h. h\<lparr>hphase := p\<rparr>) (upd_head (\<not> act s) drift s))"
proof (cases "act s")
  case False
  have "move_head False s = enqueue_cut (loop_target s) (upd_head False (\<lambda>h. h\<lparr>hphase := p\<rparr>) s)"
    using assms False by (intro move_out_of_loop) simp_all
  then show ?thesis
    using assms(4) False
    by (simp add: move_inactive enqueue_cut_def) (auto simp: upd_head_def drift_def fun_upd_twist enqueue_cut_def)
next
  case True
  have 1: "move_head False s = upd_head False drift s"
    using move_inactive [of s False] assms(4) True by (simp add: drift_def [abs_def])
  have "move_head True (upd_head False drift s) = enqueue_cut (loop_target (upd_head False drift s))
      (upd_head True (\<lambda>h. h\<lparr>hphase := p\<rparr>) (upd_head False drift s))"
    using assms True by (intro move_out_of_loop) simp_all
  with 1 True show ?thesis
    by (simp add: loop_target_def)
qed

text \<open>A cut from a playing head.\<close>

lemma cut_from_playing:
  assumes "hstate (heads s (act s)) = Playing" "cast_int p = Inr k"
    "h = heads s (\<not> act s)" "- (2 ^ 31) \<le> k + inc_dir h * rec_off h" "k + inc_dir h * rec_off h < 2 ^ 31"
  shows "\<exists>t. cut_to_phase p s = Inr t \<and> act t = (\<not> act s)
     \<and> heads t (\<not> act s) = h\<lparr>hstate := FadeIn, hphase := p,
           wr_idx := wrap_index (word_of_int (k + inc_dir h * rec_off h)) h, hactive := True\<rparr>
     \<and> heads t (act s) = (heads s (act s))\<lparr>hstate := FadeOut, hactive := False\<rparr>"
proof -
  have "set_phase p (set_hstate FadeIn h) = Inr (h\<lparr>hstate := FadeIn, hphase := p,
      wr_idx := wrap_index (word_of_int (k + inc_dir h * rec_off h)) h\<rparr>)"
    using assms(2,4,5) set_phase_Inr [of p k "set_hstate FadeIn h"]
    by (simp add: set_hstate_def wrap_index_def)
  then show ?thesis
    using assms(1,3)
    by (simp add: cut_to_phase_def fading_def Let_def) (simp add: set_hstate_def)
qed

theorem advance_wraps:
  fixes s
  defines "a \<equiv> heads s (act s)" and "b \<equiv> heads s (\<not> act s)"
  assumes "hstate a = Playing" "hactive a" "\<not> hactive b" "loop_flag s"
    "flt_less (loop_end s) (fadd F64 (hphase a) (hrate a)) \<or> flt_less (fadd F64 (hphase a) (hrate a)) (loop_start s)"
    "cast_int (loop_target s) = Inr k"
    "- (2 ^ 31) \<le> k + inc_dir b * rec_off b" "k + inc_dir b * rec_off b < 2 ^ 31"
  shows "\<exists>t. advance s = Inr t \<and> act t = (\<not> act s) \<and> \<not> queued_cut t
     \<and> hstate (heads t (\<not> act s)) = FadeIn \<and> hphase (heads t (\<not> act s)) = loop_target s
     \<and> wr_idx (heads t (\<not> act s)) = wrap_index (word_of_int (k + inc_dir b * rec_off b)) b
     \<and> hstate (heads t (act s)) = FadeOut \<and> hphase (heads t (act s)) = fadd F64 (hphase a) (hrate a)"
proof -
  let ?p = "fadd F64 (hphase a) (hrate a)"
  let ?m = "enqueue_cut (loop_target s) (upd_head (act s) (\<lambda>h. h\<lparr>hphase := ?p\<rparr>) (upd_head (\<not> act s) drift s))"
  define f where "f = both_heads (update_fade (fade_inc s)) ?m"
  have m: "move_head True (move_head False s) = ?m"
    using assms(3-7) by (intro move_both_out) (simp_all add: a_def b_def)
  have f: "heads f (act s) = a\<lparr>hphase := ?p\<rparr>" "heads f (\<not> act s) = update_fade (fade_inc s) (drift b)"
      "act f = act s" "queued_cut f" "queued_pos f = loop_target s"
    using assms(3) by (simp_all add: f_def enqueue_cut_def a_def b_def both_heads_def)
  have "fade_inc ?m = fade_inc s"
    by (simp add: enqueue_cut_def)
  then have adv: "advance s = dequeue_cut f"
    by (simp add: advance_def Let_def m f_def)
  have dir: "inc_dir (update_fade i (drift b)) = inc_dir b" "rec_off (update_fade i (drift b)) = rec_off b"
      "wrap_index w (update_fade i (drift b)) = wrap_index w b" for i w
    by (simp_all add: drift_def wrap_index_def) (simp_all add: update_fade_def Let_def split: hstate.split)
  obtain t where "cut_to_phase (loop_target s) f = Inr t" "act t = (\<not> act s)"
      "heads t (\<not> act s) = (heads f (\<not> act s))\<lparr>hstate := FadeIn, hphase := loop_target s,
         wr_idx := wrap_index (word_of_int (k + inc_dir b * rec_off b)) b, hactive := True\<rparr>"
      "heads t (act s) = (a\<lparr>hphase := ?p\<rparr>)\<lparr>hstate := FadeOut, hactive := False\<rparr>"
    using cut_from_playing [of f "loop_target s" k "update_fade (fade_inc s) (drift b)"] assms(3,8,9,10)
    unfolding f dir by (auto simp: f(1))
  moreover have "\<not> fading f"
    using assms(3) by (simp add: fading_def f)
  ultimately show ?thesis
    by (simp add: adv dequeue_cut_def f)
qed

section \<open>Before the first cut\<close>

text \<open>The calls of a voice that was never told a position.\<close>

definition never_cut :: "dsp_ev list \<Rightarrow> bool" where
  "never_cut h \<longleftrightarrow> (\<forall>e \<in> set h. case e of DCut x \<Rightarrow> False | _ \<Rightarrow> True)"

definition uncut :: "rw_head \<Rightarrow> bool" where
  "uncut s \<longleftrightarrow> \<not> act s \<and> \<not> queued_cut s \<and> \<not> hactive (heads s False) \<and> \<not> hactive (heads s True)
     \<and> hstate (heads s True) = Stopped \<and> \<not> once_done s \<and> once_head s = None"

lemma write_loop_form:
  "write_loop pre rc ys buf h = Inr (buf', h') \<Longrightarrow> \<exists>w. h' = h\<lparr>wr_idx := w\<rparr>"
proof (induction ys arbitrary: buf h)
  case (Cons y ys)
  then show ?case by (fastforce simp: dbind_eq_Inr step_index_def)
next
  case Nil
  then show ?case by (intro exI [of _ "wr_idx h"]) simp
qed

lemma poke_form:
  assumes "poke c x pre rc buf h = Inr (buf', h')"
  shows "\<exists>r w. h' = h\<lparr>resamp := r, wr_idx := w\<rparr>"
proof -
  obtain n r where r: "process_frame x (resamp h) = Inr (n, r)"
    using assms by (auto simp: poke_def dbind_eq_Inr)
  show ?thesis
  proof (cases "hstate h = Stopped")
    case True
    with assms r have "h' = h\<lparr>resamp := r\<rparr>"
      by (simp add: poke_def)
    then have "h' = h\<lparr>resamp := r, wr_idx := wr_idx h\<rparr>"
      by simp
    then show ?thesis by blast
  next
    case False
    with assms r obtain a b where "write_loop a b (take n (rs_out r)) buf (h\<lparr>resamp := r\<rparr>) = Inr (buf', h')"
      by (auto simp: poke_def Let_def dbind_eq_Inr)
    from write_loop_form [OF this] show ?thesis by blast
  qed
qed

lemma poke_head_uncut:
  assumes "uncut s" "poke_head c x i (buf, s) = Inr (buf', t)"
  shows "uncut t"
proof -
  obtain h where h: "poke c x (pre_lvl s) (rec_lvl s) buf (heads s i) = Inr (buf', h)" "t = upd_head i (\<lambda>_. h) s"
    using assms(2) by (auto simp: poke_head_def dbind_eq_Inr)
  obtain r w where "h = (heads s i)\<lparr>resamp := r, wr_idx := w\<rparr>"
    using poke_form [OF h(1)] by blast
  with h(2) assms(1) show ?thesis
    by (cases i) (simp_all add: uncut_def upd_head_def)
qed

text \<open>A record-once pass that waits for its first cut writes nothing.\<close>

lemma uncut_once_writes_nothing:
  "uncut s \<Longrightarrow> once_active s \<Longrightarrow> write_heads c x (buf, s) = Inr (buf, s)"
  by (simp add: write_heads_def uncut_def)

lemma write_heads_uncut:
  assumes "uncut s" "write_heads c x (buf, s) = Inr (buf', t)"
  shows "uncut t"
proof (cases "once_active s")
  case True
  with assms uncut_once_writes_nothing [OF assms(1) True] show ?thesis by simp
next
  case False
  with assms(2) obtain b u where "poke_head c x False (buf, s) = Inr (b, u)"
      "poke_head c x True (b, u) = Inr (buf', t)"
    by (auto simp: write_heads_def dbind_eq_Inr)
  with assms(1) poke_head_uncut show ?thesis by blast
qed

text \<open>One step of an uncut voice: its head moves on by the rate, whatever the loop points.\<close>

lemma advance_uncut:
  assumes "uncut s"
  shows "\<exists>t. advance s = Inr t \<and> uncut t \<and> hphase (heads t False) = hphase (drift (heads s False))
     \<and> hstate (heads t False) = hstate (update_fade (fade_inc s) (heads s False))"
proof -
  let ?m = "upd_head True drift (upd_head False drift s)"
  let ?f = "both_heads (update_fade (fade_inc s)) ?m"
  have "move_head True (move_head False s) = ?m"
    using assms by (simp add: uncut_def move_inactive drift_def [abs_def])
  then have adv: "advance s = dequeue_cut ?f"
    by (simp add: advance_def Let_def)
  have d: "hstate (drift h) = hstate h" "hfade (drift h) = hfade h" "hactive (drift h) = hactive h" for h
    by (simp_all add: drift_def)
  have fade: "hstate (update_fade i (drift h)) = hstate (update_fade i h)" for i h
    using d by (simp add: update_fade_def Let_def split: hstate.split)
  have u: "uncut ?f" "\<not> queued_cut ?f"
    using assms d fade [of "fade_inc s" "heads s True"]
    by (auto simp: uncut_def both_heads_def upd_head_def) (simp add: update_fade_def)
  have "?f\<lparr>queued_cut := False\<rparr> = ?f"
    using u(2) by simp
  then have "dequeue_cut ?f = Inr ?f"
    using u(2) by (simp only: dequeue_cut_def dbind_simps if_False if_cancel)
  with u adv show ?thesis
    by (simp add: fade)
qed

lemma process_sample_uncut:
  assumes "uncut s" "process_sample lm c p r x (buf, s) = Inr (y, buf', t)"
  shows "uncut t"
proof (cases "\<not> p \<and> \<not> r")
  case False
  then obtain b u where u: "(if r then write_heads c x (buf, s) else Inr (buf, s)) = Inr (b, u)" "advance u = Inr t"
    using assms by (auto simp: process_sample_def dbind_eq_Inr)
  then have "uncut u"
    using assms(1) write_heads_uncut [of s c x buf b u] by (auto split: if_splits)
  with u(2) show ?thesis
    using advance_uncut [of u] by auto
qed (use assms in \<open>simp add: process_sample_def\<close>)

lemma uncut_setters:
  assumes "uncut s"
  shows "uncut (rw_set_rate x s)" "uncut (set_loop_start x s)" "uncut (set_loop_end x s)"
    "uncut (rw_stop s)" "uncut (rw_run s)" "uncut (set_rec_offset d s)" "uncut (set_fade_time x s)"
    "uncut (set_once_flag b s)" "uncut (s\<lparr>loop_flag := b\<rparr>)" "uncut (s\<lparr>sr := x\<rparr>)"
    "uncut (s\<lparr>pre_lvl := x\<rparr>)" "uncut (s\<lparr>rec_lvl := x\<rparr>)" "uncut (rw_set_buffer n s)" "uncut (rw_init s)"
  using assms
  by (simp_all add: uncut_def head_ops both_heads_def upd_head_def sub_set_rate_def set_hstate_def
      calc_fade_inc_def sub_set_buffer_def rw_init_def sub_init_def Let_def)

lemma ramp_step_uncut: "uncut (sch v) \<Longrightarrow> uncut (sch (ramp_step v))"
  using uncut_setters(11,12) uncut_setters(1) [of "sch v"] by (simp add: ramp_step_def Let_def)

lemma sample_loop_uncut:
  "uncut (sch v) \<Longrightarrow> sample_loop lm junk xs (buf, v) = Inr (ys, buf', w) \<Longrightarrow> uncut (sch w)"
proof (induction xs arbitrary: buf v ys)
  case (Cons x xs)
  then obtain y b u zs where u: "sample_turn lm junk x (buf, v) = Inr (y, b, u)"
      "sample_loop lm junk xs (b, u) = Inr (zs, buf', w)"
    by (auto simp: dbind_eq_Inr)
  let ?v = "ramp_step (v\<lparr>svf_pre := snd (filter_turn (pre_dry v) x (svf_pre v))\<rparr>)"
  obtain z p s f where "process_sample lm (curves ?v) (play_on ?v) (rec_on ?v) p (buf, sch ?v) = Inr (z, b, s)"
      "u = update_quant_phase (?v\<lparr>sch := s, svf_post := f\<rparr>)"
    using u(1) by (auto simp: sample_turn_def dbind_eq_Inr Let_def)
  moreover have "uncut (sch ?v)"
    using Cons.prems(1) by (intro ramp_step_uncut) simp
  ultimately have "uncut (sch u)"
    using process_sample_uncut by (auto simp: update_quant_phase_def)
  then show ?case
    using Cons.IH u(2) by blast
qed simp

lemma flag_calls_uncut:
  assumes "uncut (sch v)"
  shows "uncut (sch (bool_call b x v))"
proof -
  have r: "uncut (sch (set_rec_flag y u))" if "uncut (sch u)" for y u
    using uncut_setters(4,5,8) that by (simp add: set_rec_flag_def publish_flags_def Let_def)
  show ?thesis
    using assms r uncut_setters(4,5,8,9)
    by (cases b) (simp_all add: bool_call_def on_sch_def set_play_flag_def set_rec_once_def publish_flags_def Let_def)
qed

lemma reset_uncut: "uncut (sch v) \<Longrightarrow> dv_reset lm stack v = Inr w \<Longrightarrow> uncut (sch w)"
  using uncut_setters(6,7,14)
  by (auto simp: dv_reset_def Let_def dbind_eq_Inr publish_heads_def publish_flags_def split: if_splits)

lemma call_uncut:
  assumes "uncut (sch v)" "apply_call lm junk stack h e v = Inr w" "case e of DCut x \<Rightarrow> False | _ \<Rightarrow> True"
  shows "uncut (sch w)"
proof (cases e)
  case (DFloat a x)
  with assms(1,2) show ?thesis
    by (cases a) (auto simp: apply_call_def float_call_def on_sch_def on_curves_def dbind_eq_Inr uncut_setters
        update_pre_fc_def Let_def)
next
  case (DProcess buf xs)
  with assms(2) obtain ys b u where "sample_loop lm (junk h) xs (buf, v) = Inr (ys, b, u)" "w = end_block u"
    by (auto simp: apply_call_def process_block_def dbind_eq_Inr)
  then show ?thesis
    using sample_loop_uncut [OF assms(1)] uncut_setters(8)
    by (auto simp: end_block_def publish_heads_def publish_flags_def Let_def)
qed (use assms in \<open>auto simp: apply_call_def on_sch_def shape_call_def on_curves_def dbind_eq_Inr
      dv_set_sample_rate_def uncut_setters flag_calls_uncut reset_uncut\<close>)

lemma replay_uncut:
  "never_cut h \<Longrightarrow> replay lm junk stack fx h = Inr v \<Longrightarrow> uncut (sch v)"
proof (induction h arbitrary: v)
  case Nil
  have "uncut (sch (raw_voice lm stack fx))"
    by (simp add: raw_voice_def new_rw_head_def new_sub_head_def uncut_def)
  with Nil show ?case
    using reset_uncut by (auto simp: new_dsp_voice_def)
next
  case (Cons e h)
  then obtain u where u: "replay lm junk stack fx h = Inr u" "apply_call lm junk stack h e u = Inr v"
    by (auto simp: dbind_eq_Inr)
  then show ?case
    using Cons call_uncut [OF _ u(2)] by (simp add: never_cut_def)
qed

end
