(* ===== verification/Dsp_Unity.thy ===== *)
theory Dsp_Unity
  imports Dsp_Motion
begin

text \<open>
  Playback at the recorded speed from a whole frame gives the recorded samples back, one by one,
  as long as the position stays below \<open>2^24\<close> frames. From there on the read interpolates with a
  wrong fraction, because \<open>peek4\<close> subtracts the position rounded to a float.

  The arithmetic: samples up to \<open>2^100\<close> in size (\<open>tame\<close>) keep every intermediate value of the
  interpolation finite, and at the fraction 0 everything but the sample itself is multiplied
  away.
\<close>

section \<open>Finite intermediate values\<close>

definition tame :: "nat \<Rightarrow> flt \<Rightarrow> bool" where
  "tame k x \<longleftrightarrow> (\<exists>q. x = Fin q \<and> \<bar>q\<bar> \<le> 2 ^ k)"

lemma tame_rnd:
  assumes "\<bar>q\<bar> \<le> 2 ^ k" "k + prec f < elim f"
  shows "tame k (rnd f q)"
proof -
  have "representable f (2 ^ k)"
    using rep_dyadic [of 1 f "int k"] assms(2) by (cases f) simp_all
  moreover have "- (2 ^ k) \<le> q" "q \<le> 2 ^ k"
    using assms(1) by (simp_all add: abs_le_iff)
  ultimately show ?thesis
    using rnd_Fin_bounds [of f "- (2 ^ k)" "2 ^ k" q] by (auto simp: rep_minus tame_def abs_le_iff)
qed

lemma tame_fadd:
  assumes "tame k x" "tame k y" "Suc k + prec f < elim f"
  shows "tame (Suc k) (fadd f x y)"
proof -
  obtain a b where ab: "x = Fin a" "y = Fin b" "\<bar>a\<bar> \<le> 2 ^ k" "\<bar>b\<bar> \<le> 2 ^ k"
    using assms by (auto simp: tame_def)
  then have "\<bar>a + b\<bar> \<le> 2 ^ Suc k"
    using abs_triangle_ineq [of a b] by simp
  then show ?thesis
    using tame_rnd [OF _ assms(3)] ab by simp
qed

lemma tame_fneg: "tame k x \<Longrightarrow> tame k (fneg x)"
  by (auto simp: tame_def)

lemma tame_fsub: "tame k x \<Longrightarrow> tame k y \<Longrightarrow> Suc k + prec f < elim f \<Longrightarrow> tame (Suc k) (fsub f x y)"
  by (simp add: fsub_def tame_fadd tame_fneg)

lemma tame_scale:
  assumes "tame k x" "\<bar>c\<bar> \<le> 4" "k + 2 + prec f < elim f"
  shows "tame (k + 2) (fmul f (Fin c) x)"
proof -
  obtain a where a: "x = Fin a" "\<bar>a\<bar> \<le> 2 ^ k"
    using assms by (auto simp: tame_def)
  have "\<bar>c * a\<bar> \<le> 4 * 2 ^ k"
    unfolding abs_mult using assms(2) a(2) by (intro mult_mono) simp_all
  then have "\<bar>c * a\<bar> \<le> 2 ^ (k + 2)"
    by (simp add: power_add)
  then show ?thesis
    using tame_rnd [OF _ assms(3)] a by simp
qed

lemma tame_mono: "tame k x \<Longrightarrow> k \<le> m \<Longrightarrow> tame m x"
proof -
  assume x: "tame k x" and "k \<le> m"
  then have "(2 :: rat) ^ k \<le> 2 ^ m"
    by (intro power_increasing) simp_all
  then show "tame m x"
    using x order_trans unfolding tame_def by blast
qed

lemma tame_times_zero: "tame k x \<Longrightarrow> fmul f x (Fin 0) = Fin 0"
  by (auto simp: tame_def)

lemma rep_widen: "representable F32 q \<Longrightarrow> representable F64 q"
proof (cases "q = 0")
  case False
  assume r: "representable F32 q"
  then have q: "rnd_to 24 (-149) q = q" "\<bar>q\<bar> < 2 ^ 128"
    by (simp_all add: rep_iff)
  obtain m e where me: "q = of_int m * pow2 e" "\<bar>m\<bar> \<le> 2 ^ 24" "-149 \<le> e"
    using ff.rnd_to_form [of F32 q] q(1) by auto
  have "m \<noteq> 0"
    using False me(1) by auto
  then have "1 \<le> \<bar>of_int m :: rat\<bar>"
    by simp
  then have "pow2 e \<le> \<bar>q\<bar>"
    unfolding me(1) abs_mult using mult_right_mono [of 1 "\<bar>of_int m\<bar>" "pow2 e"] by simp
  also have "\<dots> < pow2 128"
    using q(2) by simp
  finally have "e < 128"
    by (simp only: pow2_less_iff)
  then show ?thesis
    using rep_dyadic [of m F64 e] me by simp
qed simp

section \<open>Reading at a whole frame\<close>

text \<open>A sample as buffers hold it, of a size that does not overflow the interpolation.\<close>

definition sample_ok :: "flt \<Rightarrow> bool" where
  "sample_ok y \<longleftrightarrow> is_flt F32 y \<and> tame 100 y"

lemma hermite_at_0:
  assumes "sample_ok y0" "sample_ok y1" "sample_ok y2" "sample_ok y3"
  shows "to_f32 (hermite F32 (Fin 0) y0 y1 y2 y3) = y1"
proof -
  let ?half = "fmul F64 (Fin (1 / 2))"
  let ?c3 = "fadd F64 (?half (fsub F32 y3 y0)) (fmul F64 (Fin (3 / 2)) (fsub F32 y1 y2))"
  let ?c2 = "fsub F64 (fadd F64 (fsub F64 y0 (fmul F64 (Fin (5 / 2)) y1)) (fmul F64 (Fin 2) y2)) (?half y3)"
  let ?c1 = "?half (fsub F32 y2 y0)"
  have t: "tame 100 y0" "tame 100 y1" "tame 100 y2" "tame 100 y3"
    using assms by (simp_all add: sample_ok_def)
  have d: "tame 101 (fsub F32 y3 y0)" "tame 101 (fsub F32 y1 y2)" "tame 101 (fsub F32 y2 y0)"
    using tame_fsub [of 100 _ _ F32] t by simp_all
  have c3: "tame 104 ?c3"
    using tame_fadd [of 103 _ _ F64] tame_scale [of 101 _ _ F64] d by simp
  have "tame 102 (fmul F64 (Fin (5 / 2)) y1)" "tame 102 (fmul F64 (Fin 2) y2)" "tame 102 (?half y3)"
    using tame_scale [of 100 _ _ F64] t by simp_all
  then have "tame 103 (fsub F64 y0 (fmul F64 (Fin (5 / 2)) y1))"
    using tame_fsub [of 102 _ _ F64] tame_mono [OF t(1), of 102] by simp
  then have "tame 104 (fadd F64 (fsub F64 y0 (fmul F64 (Fin (5 / 2)) y1)) (fmul F64 (Fin 2) y2))"
    using tame_fadd [of 103 _ _ F64] tame_mono [of 102 "fmul F64 (Fin 2) y2" 103]
      \<open>tame 102 (fmul F64 (Fin 2) y2)\<close> by simp
  then have c2: "tame 105 ?c2"
    using tame_fsub [of 104 _ _ F64] tame_mono [of 102 "?half y3" 104] \<open>tame 102 (?half y3)\<close> by simp
  have c1: "tame 105 ?c1"
    using tame_mono [OF tame_scale [of 101 _ "1 / 2" F64], of _ 105] d by simp
  obtain q where q: "y1 = Fin q" "representable F32 q"
    using assms(2) by (auto simp: sample_ok_def tame_def is_flt_def)
  have z: "tame 0 (Fin 0)"
    by (simp add: tame_def)
  have 1: "fmul F64 ?c3 (Fin 0) = Fin 0"
    by (rule tame_times_zero [OF c3])
  have "tame 106 (fadd F64 (Fin 0) ?c2)"
    using tame_fadd [of 105 "Fin 0" ?c2 F64] c2 tame_mono [OF z] by simp
  then have 2: "fmul F64 (fadd F64 (Fin 0) ?c2) (Fin 0) = Fin 0"
    by (rule tame_times_zero)
  have "tame 106 (fadd F64 (Fin 0) ?c1)"
    using tame_fadd [of 105 "Fin 0" ?c1 F64] c1 tame_mono [OF z] by simp
  then have 3: "fmul F64 (fadd F64 (Fin 0) ?c1) (Fin 0) = Fin 0"
    by (rule tame_times_zero)
  have "hermite F32 (Fin 0) y0 y1 y2 y3 = fadd F64 (Fin 0) y1"
    unfolding hermite_def Let_def 1 2 3 ..
  also have "\<dots> = Fin q"
    using rep_widen [OF q(2)] by (simp add: q(1) rnd_rep)
  finally show ?thesis
    using q by (simp add: to_f32_def rnd_rep)
qed

text \<open>The cell a position falls on, for a head that knows a buffer of a power of two frames.\<close>

definition cell :: "nat \<Rightarrow> int \<Rightarrow> nat" where
  "cell n p = nat (p mod int n)"

definition knows :: "nat \<Rightarrow> sub_head \<Rightarrow> bool" where
  "knows n h \<longleftrightarrow> buf_frames h = word_of_nat n \<and> buf_mask h = word_of_nat n - 1"

lemma wrap_index_cell:
  assumes "knows (2 ^ k) h" "k < 32"
  shows "unat (wrap_index (word_of_int p) h) = cell (2 ^ k) p"
proof -
  have m: "(2 ^ k - 1 :: u32) = mask k"
    by (simp add: mask_eq_exp_minus_1)
  have "wrap_index (word_of_int p) h = take_bit k (word_of_int (p + 2 ^ k) :: u32)"
    using assms(1) by (simp add: wrap_index_def knows_def m take_bit_eq_mask)
  moreover have gen: "uint (take_bit k (word_of_int z :: u32)) = z mod 2 ^ k" for z
    using assms(2) by (simp add: unsigned_take_bit_eq unsigned_of_int min_def) (simp add: take_bit_eq_mod)
  ultimately have "uint (wrap_index (word_of_int p) h) = (p + 2 ^ k) mod 2 ^ k"
    by (simp only: gen)
  then show ?thesis
    by (simp add: cell_def unat_eq_nat_uint)
qed

lemma cell_less: "0 < n \<Longrightarrow> cell n p < n"
  by (simp add: cell_def nat_less_iff)

lemma cast_int_of_int: "\<bar>p\<bar> < 2 ^ 31 \<Longrightarrow> cast_int (Fin (of_int p)) = Inr p"
  by (auto simp: cast_int_def chop_def)

lemma peek_whole_frame:
  assumes "hphase h = Fin (of_int p)" "\<bar>p\<bar> \<le> 2 ^ 24" "knows (2 ^ k) h" "k < 32" "length buf = 2 ^ k"
    "\<forall>y \<in> set buf. sample_ok y"
  shows "peek buf h = Inr (buf ! cell (2 ^ k) p)"
proof -
  have c: "cast_int (hphase h) = Inr p"
    using assms(1,2) cast_int_of_int [of p] by simp
  have tap: "buf_at buf (unat (wrap_index (word_of_int (p + j)) h)) = Inr (buf ! cell (2 ^ k) (p + j))"
    and ok: "sample_ok (buf ! cell (2 ^ k) (p + j))" for j
    using cell_less [of "2 ^ k" "p + j"] assms(3-6) wrap_index_cell [OF assms(3,4), of "p + j"]
    by (simp_all add: buf_at_def)
  have "representable F32 (of_int p)"
    using assms(2) by (intro rep_int) simp
  then have x: "to_f32 (fsub F64 (hphase h) (f32_of_int p)) = Fin 0"
    by (simp add: assms(1) f32_of_int_def rnd_rep)
  have "\<not> (p - 1 < - (2 ^ 31) \<or> 2 ^ 31 \<le> p + 2)"
    using assms(2) by (simp add: abs_le_iff)
  then have "peek buf h = Inr (to_f32 (hermite F32 (Fin 0) (buf ! cell (2 ^ k) (p + - 1))
      (buf ! cell (2 ^ k) (p + 0)) (buf ! cell (2 ^ k) (p + 1)) (buf ! cell (2 ^ k) (p + 2))))"
    unfolding peek_def c dbind_simps Let_def tap x by simp
  then show ?thesis
    unfolding hermite_at_0 [OF ok ok ok ok] by simp
qed

section \<open>Playing at the recorded speed\<close>

text \<open>A voice that plays, does not record, and has faded in: its rate has settled at 1, its active
  head is \<open>p\<close> frames into a buffer of \<open>n\<close> and between its loop points for \<open>len\<close> frames more.\<close>

definition settled_ramp :: "log_ramp \<Rightarrow> bool" where
  "settled_ramp r \<longleftrightarrow> lr_x0 r = Fin 1 \<and> lr_y0 r = Fin 1 \<and> finite_flt (lr_b r)"

definition at_unity :: "nat \<Rightarrow> int \<Rightarrow> nat \<Rightarrow> dsp_voice \<Rightarrow> bool" where
  "at_unity n p len v \<longleftrightarrow> play_on v \<and> \<not> rec_on v \<and> settled_ramp (rate_ramp v)
     \<and> (let s = sch v; a = heads s (act s); b = heads s (\<not> act s)
        in hstate a = Playing \<and> hfade a = Fin 1 \<and> hphase a = Fin (of_int p) \<and> knows n a
         \<and> hstate b = Stopped \<and> hfade b = Fin 0 \<and> hphase b = Fin 0 \<and> knows n b
         \<and> \<not> queued_cut s
         \<and> (\<exists>lo hi. loop_start s = Fin lo \<and> loop_end s = Fin hi \<and> lo \<le> of_int p \<and> of_int (p + int len) \<le> hi))"

lemma settled_update: "settled_ramp r \<Longrightarrow> lr_update r = r"
  using rep_int [of 1 F32]
  by (cases "lr_b r") (simp_all add: settled_ramp_def lr_update_def rnd_rep)

text \<open>What the read mixes when one head is fully in and the other fully out.\<close>

definition sin_ends :: "libm \<Rightarrow> bool" where
  "sin_ends lm \<longleftrightarrow> lm_sin lm half_pi = Fin 1 \<and> lm_sin lm (Fin 0) = Fin 0"

lemma rep_half_pi: "representable F32 (13176795 / 8388608)"
  using rep_dyadic [of 13176795 F32 "- 23"] by (simp add: power_int_minus)

lemma mix_fade_ends:
  assumes "sin_ends lm" "sample_ok x" "sample_ok y"
  shows "mix_fade lm x y (Fin 1) (Fin 0) = x" "mix_fade lm x y (Fin 0) (Fin 1) = y"
proof -
  have h: "fmul F32 (Fin 1) half_pi = half_pi" "fmul F32 (Fin 0) half_pi = Fin 0"
    using rep_half_pi by (simp_all add: half_pi_def rnd_rep)
  have one: "fmul F32 z (Fin 1) = z" "fmul F32 z (Fin 0) = Fin 0" "fadd F32 z (Fin 0) = z" "fadd F32 (Fin 0) z = z"
    if "sample_ok z" for z
    using that by (auto simp: sample_ok_def tame_def is_flt_def rnd_rep)
  show "mix_fade lm x y (Fin 1) (Fin 0) = x" "mix_fade lm x y (Fin 0) (Fin 1) = y"
    using assms(1) one [OF assms(2)] one [OF assms(3)] by (simp_all add: mix_fade_def h sin_ends_def)
qed

lemma read_at_unity:
  assumes "at_unity (2 ^ k) p len v" "0 \<le> p" "p \<le> 2 ^ 24" "k < 32" "length buf = 2 ^ k"
    "\<forall>y \<in> set buf. sample_ok y" "sin_ends lm"
  shows "read_heads lm buf (sch v) = Inr (buf ! cell (2 ^ k) p)"
proof -
  let ?s = "sch v"
  have s: "hphase (heads ?s (act ?s)) = Fin (of_int p)" "knows (2 ^ k) (heads ?s (act ?s))"
      "hphase (heads ?s (\<not> act ?s)) = Fin (of_int 0)" "knows (2 ^ k) (heads ?s (\<not> act ?s))"
      "hfade (heads ?s (act ?s)) = Fin 1" "hfade (heads ?s (\<not> act ?s)) = Fin 0"
    using assms(1) by (simp_all add: at_unity_def Let_def)
  have pk: "peek buf (heads ?s (act ?s)) = Inr (buf ! cell (2 ^ k) p)"
      "peek buf (heads ?s (\<not> act ?s)) = Inr (buf ! cell (2 ^ k) 0)"
    using peek_whole_frame [OF s(1) _ s(2) assms(4-6)] peek_whole_frame [OF s(3) _ s(4) assms(4-6)] assms(2,3)
    by simp_all
  have ok: "sample_ok (buf ! cell (2 ^ k) j)" for j
    using cell_less [of "2 ^ k" j] assms(5,6) by simp
  show ?thesis
    using pk s(5,6) mix_fade_ends [OF assms(7) ok ok]
    by (cases "act ?s") (simp_all add: read_heads_def)
qed

lemma both_heads_idle: "(\<And>j. f (heads t j) = heads t j) \<Longrightarrow> both_heads f t = t"
  by (simp add: both_heads_def)

lemma advance_in_loop:
  assumes "hstate (heads s (act s)) = Playing" "hphase (heads s (act s)) = Fin (of_int p)"
    "hrate (heads s (act s)) = Fin 1" "0 \<le> p" "p < 2 ^ 24" "hstate (heads s (\<not> act s)) = Stopped"
    "\<not> queued_cut s" "loop_start s = Fin lo" "loop_end s = Fin hi" "lo \<le> of_int (p + 1)" "of_int (p + 1) \<le> hi"
  shows "advance s = Inr (upd_head (act s) (\<lambda>h. h\<lparr>hphase := Fin (of_int (p + 1))\<rparr>) s)"
proof -
  let ?t = "upd_head (act s) (\<lambda>h. h\<lparr>hphase := Fin (of_int (p + 1))\<rparr>) s"
  have "representable F64 (of_int (p + 1))"
    using assms(4,5) by (intro rep_int) simp
  then have add: "fadd F64 (hphase (heads s (act s))) (hrate (heads s (act s))) = Fin (of_int (p + 1))"
    by (simp add: assms(2,3) rnd_rep)
  have a: "move_head (act s) u = upd_head (act s) (\<lambda>h. h\<lparr>hphase := Fin (of_int (p + 1))\<rparr>) u"
    if "heads u (act s) = heads s (act s)" "loop_start u = loop_start s" "loop_end u = loop_end s" for u
    using that assms(1,8-11) add
    by (simp add: move_head_def update_phase_def take_action_def upd_head_def Let_def)
  have b: "move_head (\<not> act s) u = u" if "heads u (\<not> act s) = heads s (\<not> act s)" for u
    using that assms(6) by (simp add: move_head_def update_phase_def take_action_def upd_head_def fun_upd_idem)
  have m: "move_head True (move_head False s) = ?t"
    using a [of s] a [of "move_head (\<not> act s) s"] b [of s] b [of ?t] by (cases "act s") simp_all
  have fade: "both_heads (update_fade i) ?t = ?t" for i
  proof -
    have "update_fade i (heads ?t j) = heads ?t j" for j
      using assms(1,6) by (cases "j = act s") (simp_all add: update_fade_def)
    then show ?thesis
      by (rule both_heads_idle)
  qed
  have "\<not> fading ?t" "\<not> queued_cut ?t"
    using assms(1,7) by (simp_all add: fading_def) (simp add: upd_head_def)
  moreover from this(2) have "?t\<lparr>queued_cut := False\<rparr> = ?t"
    by simp
  ultimately have "dequeue_cut ?t = Inr ?t"
    by (simp only: dequeue_cut_def dbind_simps if_False)
  then show ?thesis
    by (simp only: advance_def Let_def m fade)
qed

lemma ramp_step_at_unity:
  assumes "at_unity n p len v"
  shows "at_unity n p len (ramp_step v)" "hrate (heads (sch (ramp_step v)) i) = Fin 1"
proof -
  have r: "lr_update (rate_ramp v) = rate_ramp v" "lr_y0 (rate_ramp v) = Fin 1"
    using assms settled_update by (auto simp: at_unity_def settled_ramp_def)
  show "at_unity n p len (ramp_step v)"
    using assms
    by (simp add: at_unity_def ramp_step_def r rw_set_rate_def sub_set_rate_def both_heads_def
        calc_fade_inc_def Let_def knows_def)
  show "hrate (heads (sch (ramp_step v)) i) = Fin 1"
    by (simp add: ramp_step_def r rw_set_rate_def sub_set_rate_def both_heads_def Let_def)
qed

lemma at_unity_filters: "at_unity n p len (v\<lparr>svf_pre := f, svf_post := g\<rparr>) = at_unity n p len v"
  "at_unity n p len (v\<lparr>svf_pre := f\<rparr>) = at_unity n p len v"
  by (simp_all add: at_unity_def)

lemma turn_at_unity:
  assumes "at_unity (2 ^ k) p (Suc len) v" "0 \<le> p" "p < 2 ^ 24" "k < 32" "length buf = 2 ^ k"
    "\<forall>y \<in> set buf. sample_ok y" "sin_ends lm"
  shows "\<exists>w. sample_turn lm junk x (buf, v)
         = Inr (fst (filter_turn (post_dry v) (buf ! cell (2 ^ k) p) (svf_post v)), buf, w)
      \<and> at_unity (2 ^ k) (p + 1) len w \<and> post_dry w = post_dry v
      \<and> svf_post w = snd (filter_turn (post_dry v) (buf ! cell (2 ^ k) p) (svf_post v))"
proof -
  let ?u = "v\<lparr>svf_pre := snd (filter_turn (pre_dry v) x (svf_pre v))\<rparr>"
  let ?v = "ramp_step ?u"
  let ?s = "sch ?v"
  have u: "at_unity (2 ^ k) p (Suc len) ?u"
    using assms(1) by (simp add: at_unity_filters)
  have v: "at_unity (2 ^ k) p (Suc len) ?v"
    by (rule ramp_step_at_unity [OF u])
  obtain lo hi where lp: "loop_start ?s = Fin lo" "loop_end ?s = Fin hi" "lo \<le> of_int p"
      "of_int (p + int (Suc len)) \<le> hi"
    using v by (auto simp: at_unity_def Let_def)
  let ?t = "upd_head (act ?s) (\<lambda>h. h\<lparr>hphase := Fin (of_int (p + 1))\<rparr>) ?s"
  let ?q = "filter_turn (post_dry v) (buf ! cell (2 ^ k) p) (svf_post v)"
  have "advance ?s = Inr ?t"
    using v lp assms(2,3) ramp_step_at_unity(2) [OF u]
    by (intro advance_in_loop [of _ p lo hi]) (simp_all add: at_unity_def Let_def)
  moreover have "read_heads lm buf ?s = Inr (buf ! cell (2 ^ k) p)"
    using assms(2-7) by (intro read_at_unity [OF v]) simp_all
  moreover have "play_on ?v" "\<not> rec_on ?v"
    using v by (simp_all add: at_unity_def)
  moreover have f: "post_dry ?v = post_dry v" "svf_post ?v = svf_post v"
    by (simp_all add: ramp_step_def Let_def)
  ultimately have "sample_turn lm junk x (buf, v)
      = Inr (fst ?q, buf, update_quant_phase (?v\<lparr>sch := ?t, svf_post := snd ?q\<rparr>))"
    by (simp add: sample_turn_def process_sample_def Let_def)
  moreover have "at_unity (2 ^ k) (p + 1) len (update_quant_phase (?v\<lparr>sch := ?t, svf_post := snd ?q\<rparr>))"
    using v lp by (simp add: at_unity_def update_quant_phase_def Let_def knows_def) (simp add: upd_head_def)
  moreover have "post_dry (update_quant_phase (?v\<lparr>sch := ?t, svf_post := snd ?q\<rparr>)) = post_dry v"
      "svf_post (update_quant_phase (?v\<lparr>sch := ?t, svf_post := snd ?q\<rparr>)) = snd ?q"
    using f(1) by (simp_all add: update_quant_phase_def)
  ultimately show ?thesis
    by blast
qed

lemma loop_at_unity:
  assumes "k < 32" "length buf = 2 ^ k" "\<forall>y \<in> set buf. sample_ok y" "sin_ends lm"
  shows "at_unity (2 ^ k) p (length xs) v \<Longrightarrow> 0 \<le> p \<Longrightarrow> p + int (length xs) \<le> 2 ^ 24 \<Longrightarrow>
    \<exists>w. sample_loop lm junk xs (buf, v)
        = Inr (filter_run (post_dry v) (map (\<lambda>j. buf ! cell (2 ^ k) (p + int j)) [0..<length xs]) (svf_post v), buf, w)
      \<and> at_unity (2 ^ k) (p + int (length xs)) 0 w"
proof (induction xs arbitrary: p v)
  case (Cons x xs)
  let ?q = "filter_turn (post_dry v) (buf ! cell (2 ^ k) p) (svf_post v)"
  obtain u where u: "sample_turn lm junk x (buf, v) = Inr (fst ?q, buf, u)"
      "at_unity (2 ^ k) (p + 1) (length xs) u" "post_dry u = post_dry v" "svf_post u = snd ?q"
    using turn_at_unity [of k p "length xs" v buf lm junk x] Cons.prems assms by auto
  obtain w where "sample_loop lm junk xs (buf, u) = Inr (filter_run (post_dry u)
        (map (\<lambda>j. buf ! cell (2 ^ k) (p + 1 + int j)) [0..<length xs]) (svf_post u), buf, w)"
      "at_unity (2 ^ k) (p + 1 + int (length xs)) 0 w"
    using Cons.IH [OF u(2)] Cons.prems by auto
  then show ?case
    using u by (simp add: map_upt_Suc add.assoc del: upt_Suc)
qed simp

section \<open>Far into a long buffer\<close>

lemma rne_half_odd: "odd m \<Longrightarrow> rne (of_int m + 1 / 2) = m + 1"
proof -
  assume "odd m"
  moreover have "\<lfloor>of_int m + 1 / 2 :: rat\<rfloor> = m"
    by (intro floor_unique) simp_all
  ultimately show ?thesis
    by (simp add: rne_def)
qed

lemma rnd_F32_far:
  assumes "2 ^ 24 < p" "p < 2 ^ 25" "p mod 4 = 3"
  shows "rnd F32 (of_int p) = Fin (of_int (p + 1))"
proof -
  define j where "j = p div 4"
  have p: "p = 4 * j + 3"
    using assms(3) mult_div_mod_eq [of 4 p] by (simp add: j_def)
  have "ilog \<bar>of_int p\<bar> = 24"
    using assms(1,2) by (intro ilog_unique) simp_all
  then have e: "rnd_exp 24 (-149) (of_int p) = 1"
    by (simp add: rnd_exp_def)
  have "of_int p / (2 :: rat) = of_int (2 * j + 1) + 1 / 2"
    by (simp add: p field_simps)
  then have "rne (of_int p / 2) = 2 * j + 2"
    using rne_half_odd [of "2 * j + 1"] by (simp only: rne_half_odd) simp
  then have "of_int (rne (of_int p / 2)) * 2 = (of_int (p + 1) :: rat)"
    by (simp only: p) simp
  then have "rnd_to 24 (-149) (of_int p) = of_int (p + 1)"
    using assms(1) by (simp add: rnd_to_def e Let_def)
  moreover have "(of_int (p + 1) :: rat) < 2 ^ 128" "- (2 ^ 128) < (of_int (p + 1) :: rat)"
    using assms(1,2) by simp_all
  ultimately show ?thesis
    by (simp add: rnd_def Let_def)
qed

lemma rnd_halves: "\<bar>m\<bar> \<le> 2 ^ 24 \<Longrightarrow> rnd f (of_int m / 2) = Fin (of_int m / 2)"
  using rep_dyadic [of m f "- 1"] by (cases f) (simp_all add: rnd_rep power_int_minus)

lemma hermite_back_one:
  "to_f32 (hermite F32 (Fin (- 1)) (Fin 0) (Fin 1) (Fin 0) (Fin 0)) = Fin (- 3)"
proof -
  have "rnd f 1 = Fin 1" "rnd f (3 / 2) = Fin (3 / 2)" "rnd f (- 5 / 2) = Fin (- 5 / 2)" "rnd f (5 / 2) = Fin (5 / 2)"
    "rnd f (- 3 / 2) = Fin (- 3 / 2)" "rnd f (- 4) = Fin (- 4)" "rnd f 4 = Fin 4" "rnd f (- 3) = Fin (- 3)" for f
    using rnd_halves [of 2 f] rnd_halves [of 3 f] rnd_halves [of "-5" f] rnd_halves [of 5 f] rnd_halves [of "-3" f]
      rnd_halves [of "-8" f] rnd_halves [of 8 f] rnd_halves [of "-6" f] by simp_all
  then show ?thesis
    by (simp add: hermite_def Let_def to_f32_def)
qed

lemma peek_far:
  assumes "hphase h = Fin (of_int p)" "2 ^ 24 < p" "p < 2 ^ 25" "p mod 4 = 3" "knows (2 ^ k) h" "k < 32"
    "length buf = 2 ^ k" "buf ! cell (2 ^ k) p = Fin 1"
    "\<forall>j \<in> {- 1, 1, 2}. buf ! cell (2 ^ k) (p + j) = Fin 0"
  shows "peek buf h = Inr (Fin (- 3))"
proof -
  have c: "cast_int (hphase h) = Inr p"
    using assms(1-3) cast_int_of_int [of p] by simp
  have tap: "buf_at buf (unat (wrap_index (word_of_int (p + j)) h)) = Inr (buf ! cell (2 ^ k) (p + j))" for j
    using cell_less [of "2 ^ k" "p + j"] assms(7) wrap_index_cell [OF assms(5,6), of "p + j"]
    by (simp add: buf_at_def)
  have "rnd F64 (- 1) = Fin (- 1)" "to_f32 (Fin (- 1)) = Fin (- 1)"
    using rnd_halves [of "-2" F64] rnd_halves [of "-2" F32] by (simp_all add: to_f32_def)
  then have x: "to_f32 (fsub F64 (hphase h) (f32_of_int p)) = Fin (- 1)"
    by (simp add: assms(1) f32_of_int_def rnd_F32_far [OF assms(2-4)])
  have "\<not> (p - 1 < - (2 ^ 31) \<or> 2 ^ 31 \<le> p + 2)"
    using assms(2,3) by simp
  then show ?thesis
    unfolding peek_def c dbind_simps Let_def tap x using assms(8,9) hermite_back_one by simp
qed

end
