(* ===== verification/Dsp_Props.thy ===== *)
theory Dsp_Props
  imports Dsp_Unity Live_Engine
begin

text \<open>
  The properties of the voice object: its invariant and its memory safety over any list of calls,
  where the safety ends, and that the functions the engine model takes from the object
  (\<open>rec_flags\<close>, \<open>fvalue\<close>, \<open>bvalue\<close>, \<open>lib_ok\<close>) are what the object computes.
\<close>

section \<open>Any list of calls\<close>

text \<open>C7. Whatever calls a voice gets, with whatever parameters, at most one of its heads leads:
  the other one is stopped or fading out, so two heads never play at once, and the fades of both
  and the fade increment stay in [0, 1] even for infinite or undefined rates and fade times.\<close>

theorem one_head_leads:
  assumes "length stack = fadeBufSize" "replay lm junk stack fx h = Inr v"
  shows "hstate (heads (sch v) (\<not> act (sch v))) \<in> {Stopped, FadeOut}
     \<and> \<not> (hstate (heads (sch v) False) = Playing \<and> hstate (heads (sch v) True) = Playing)
     \<and> fraction (hfade (heads (sch v) i)) \<and> fraction (fade_inc (sch v))"
proof -
  have ok: "rw_ok (sch v)"
    using replay_ok [OF assms] by (simp add: voice_ok_def)
  then show ?thesis
    using one_leads_not_both [of "sch v"] by (auto simp: rw_ok_def one_leads_def sub_ok_def)
qed

definition plain_libm :: libm where
  "plain_libm = \<lparr>lm_cos = (\<lambda>x. Fin 0), lm_sin = (\<lambda>x. if x = half_pi then Fin 1 else Fin 0),
     lm_exp = (\<lambda>x. Fin 0), lm_tan = (\<lambda>x. x)\<rparr>"

definition no_junk :: "dsp_ev list \<Rightarrow> flt" where
  "no_junk h = Fin 0"

definition blank_stack :: samples where
  "blank_stack = replicate fadeBufSize (Fin 0)"

lemma blank_stack_length [simp]: "length blank_stack = fadeBufSize"
  by (simp add: blank_stack_def)

lemma replay_flag_calls:
  "\<exists>v. replay plain_libm no_junk blank_stack False [DBool b x, DBuffer 0 4] = Inr v"
  using new_dsp_voice_ok [of blank_stack plain_libm False] by (auto simp: apply_call_def)

theorem one_head_leads_witness:
  "\<exists>v. replay plain_libm no_junk blank_stack False [DBool Play True, DBuffer 0 4] = Inr v
     \<and> \<not> (hstate (heads (sch v) False) = Playing \<and> hstate (heads (sch v) True) = Playing)"
  using replay_flag_calls [of Play True]
    one_head_leads [of blank_stack plain_libm no_junk False "[DBool Play True, DBuffer 0 4]"]
  by force

text \<open>C2. As long as no buffer replaces a longer one, no call makes the voice read or write
  outside its buffer or its fade tables, whatever the parameters; what is left of undefined
  behaviour is a rate beyond the resampler's array and positions no integer holds.\<close>

theorem dsp_memory_safe:
  assumes "length stack = fadeBufSize" "grows h"
  shows "replay lm junk stack fx h \<notin> {Inl BufferOverrun, Inl TableOverrun}"
  using assms by (rule memory_safe)

theorem dsp_memory_safe_witness:
  "replay plain_libm no_junk blank_stack True
     [DProcess (replicate 8 (Fin 1)) [Fin 1], DBuffer 1 8, DProcess (replicate 4 (Fin 1)) [Fin 1, NaN],
      DFloat RecDelayRatio PInf, DCut (Fin 3), DBool Rec True, DFloat Rate NInf, DBuffer 0 4]
     \<notin> {Inl BufferOverrun, Inl TableOverrun}"
  by (rule dsp_memory_safe) simp_all

text \<open>C21. The hypothesis on the lengths is needed. A head that is moving and whose write index was
  computed for a longer buffer writes outside the buffer it is given, the index being masked only
  after the write: assigning a shorter buffer to a voice of a stopped engine and recording
  overruns the new buffer.
\<close>

theorem shorter_buffer_overruns:
  assumes "curves_ok c" "sub_ok h" "hstate h \<noteq> Stopped" "length buf \<le> unat (wr_idx h)"
    "process_frame x (resamp h) = Inr (Suc k, r)"
  shows "poke c x pre rc buf (sub_set_buffer (length buf) h) = Inl BufferOverrun"
proof -
  obtain pf rf where t: "tab_linear (pre_fade_buf c) (hfade h) = Inr pf"
      "tab_linear (rec_fade_buf c) (hfade h) = Inr rf"
    using assms(1,2) tab_linear_inside by (auto simp: sub_ok_def curves_ok_def) blast
  have "length (rs_out r) = OUT_BUF_FRAMES"
    using frame_safe [OF assms(2), of True x] assms(5) by (simp add: sub_ok_def rs_ok_def)
  then obtain y ys where "take (Suc k) (rs_out r) = y # ys"
    by (cases "rs_out r") (auto simp: OUT_BUF_FRAMES_def)
  then show ?thesis
    using assms(3,4,5) t by (simp add: poke_def sub_set_buffer_def Let_def buf_at_def)
qed

lemma first_frame: "\<exists>r. process_frame x new_resampler = Inr (Suc 0, r)"
proof -
  have "rnd F64 1 = Fin 1"
    using rep_int [of 1 F64] by (simp add: rnd_rep)
  then show ?thesis
    by (simp add: process_frame_def push_input_def new_resampler_def write_down_def put_out_def
        cast_uint_def chop_def Let_def OUT_BUF_FRAMES_def)
qed

theorem shorter_buffer_overruns_witness:
  "poke (raw_curves blank_stack) (Fin 1) (Fin 0) (Fin 1) [Fin 0, Fin 0]
     (sub_set_buffer 2 (new_sub_head\<lparr>hstate := Playing, wr_idx := 5\<rparr>)) = Inl BufferOverrun"
proof -
  let ?h = "new_sub_head\<lparr>hstate := Playing, wr_idx := 5\<rparr>"
  obtain r where "process_frame (Fin 1) (resamp ?h) = Inr (Suc 0, r)"
    using first_frame by (auto simp: new_sub_head_def)
  moreover have two: "length [Fin 0, Fin 0] = (2 :: nat)"
    by simp
  moreover have "curves_ok (raw_curves blank_stack)"
    by (simp add: curves_ok_def raw_curves_def)
  moreover have "sub_ok ?h"
    by (simp add: sub_ok_def new_sub_head_def fraction_Fin) (simp add: new_resampler_def)
  ultimately show ?thesis
    using shorter_buffer_overruns [of "raw_curves blank_stack" ?h "[Fin 0, Fin 0]" "Fin 1" 0 r "Fin 0" "Fin 1"]
    unfolding two by simp
qed

text \<open>C22. The record resampler stays inside its array of 64 samples exactly when its phase and
  the speed of the head add up to less than 65; the speed is not limited before it gets there.\<close>

theorem resampler_safe_iff:
  assumes "rs_ok r" "\<forall>q. rs_rate r = Fin q \<longrightarrow> 0 \<le> q"
  shows "(\<exists>n r'. process_frame x r = Inr (n, r')) \<longleftrightarrow>
    (\<exists>p. fadd F64 (rs_phase r) (rs_rate r) = Fin p \<and> p < 65)"
proof -
  define s where "s = fadd F64 (rs_phase r) (rs_rate r)"
  have cast: "(\<exists>n. cast_uint s = Inr n \<and> n \<le> OUT_BUF_FRAMES) \<longleftrightarrow> (\<exists>p. s = Fin p \<and> p < 65)"
  proof (cases s)
    case (Fin p)
    have "0 \<le> p"
      using fadd_nonneg [of "rs_phase r" "rs_rate r" p] assms Fin
      by (auto simp: s_def rs_ok_def fraction_def)
    moreover have "nat \<lfloor>p\<rfloor> \<le> 64 \<longleftrightarrow> p < 65"
      by (simp add: nat_le_iff floor_le_iff)
    ultimately show ?thesis
      by (auto simp: Fin OUT_BUF_FRAMES_def cast_uint_eq_Inr chop_nonneg floor_less_iff)
  qed (simp_all add: cast_uint_def)
  have ok: "rs_ok r" "\<And>q. rs_rate r = Fin q \<Longrightarrow> 0 \<le> q"
    using assms by auto
  have "(\<exists>n r'. process_frame x r = Inr (n, r')) \<longleftrightarrow> (\<exists>n. cast_uint s = Inr n \<and> n \<le> OUT_BUF_FRAMES)"
    by (rule process_frame_cases [OF ok s_def [symmetric], of x]) auto
  then show ?thesis
    unfolding cast by (simp add: s_def)
qed

theorem resampler_safe_iff_witness:
  "\<not> (\<exists>n r'. process_frame (Fin 1) (rs_set_rate (Fin 65) new_resampler) = Inr (n, r'))"
proof -
  have "rnd F64 65 = Fin 65"
    using rep_int [of 65 F64] by (simp add: rnd_rep)
  then show ?thesis
    using resampler_safe_iff [of "rs_set_rate (Fin 65) new_resampler" "Fin 1"]
    by (simp add: rs_set_rate_def new_resampler_def rs_ok_def OUT_BUF_FRAMES_def fraction_Fin)
qed

section \<open>What the engine model takes from the object\<close>

lemma vblock_length: "vblock M m n (buf, v) \<Longrightarrow> length buf = n"
  by (simp add: vblock_def block_ok_def)

lemma block_of_lengths:
  assumes "length stack = fadeBufSize" "block_of lm junk stack fx h buf xs = Inr (ys, buf', v)"
  shows "length ys = length xs" "length buf' = length buf"
proof -
  obtain u where u: "replay lm junk stack fx h = Inr u"
      "sample_loop lm (junk h) xs (buf, u) = Inr (ys, buf', v)"
    using assms(2) by (auto simp: block_of_def dbind_eq_Inr)
  have "vblock False 0 (length buf) (buf, u)"
    using replay_ok [OF assms(1) u(1)] by (simp add: vblock_def block_ok_def voice_ok_def)
  from sample_loop_safe [OF this, of lm "junk h" xs]
  have "vblock False 0 (length buf) (buf', v)"
    unfolding u(2) by simp
  then show "length buf' = length buf"
    by (rule vblock_length)
  show "length ys = length xs"
    by (rule sample_loop_length [OF u(2)])
qed

text \<open>The modelled object meets what the engine theorems ask of softcut-lib (\<open>lib_ok\<close>): a
  block has as many samples as its input and the buffer keeps its length, so they hold of it.\<close>

lemma soft_lib_meets_contract:
  assumes "length stack = fadeBufSize"
  shows "lib_ok (soft_lib lm junk stack fx)"
proof -
  have "length (fst (lib_process (soft_lib lm junk stack fx) h b x)) = length x
      \<and> length (snd (lib_process (soft_lib lm junk stack fx) h b x)) = length b" for h b x
  proof (cases "block_of lm junk stack fx h b x")
    case (Inr q)
    obtain ys b' v where "q = (ys, b', v)"
      by (cases q)
    with Inr block_of_lengths [OF assms, of lm junk fx h b x ys b' v] show ?thesis
      by (simp add: soft_lib_def)
  qed (simp add: soft_lib_def)
  then show ?thesis
    by (simp add: lib_ok_def)
qed

text \<open>C9. What the wrapper computes from the list of calls is what the object holds after them:
  the record flags it publishes, with a record-once pass ended by a block, the play and loop
  flags, and every float parameter that the object keeps as it was given: the targets and times of
  the ramps, the fade time, the settings of the fade curves and of both filters.\<close>

theorem calls_refined:
  assumes "length stack = fadeBufSize" "replay lm junk stack fx h = Inr v"
  shows "rec_flags (soft_lib lm junk stack fx) h = (saved_rec v, saved_once v)
     \<and> (saved_rec v, saved_once v) = (rec_on v, once_active (sch v))
     \<and> bvalue h Loop = loop_flag (sch v) \<and> bvalue h Play = play_on v
     \<and> (\<forall>a x. float_view v a = Some x \<longrightarrow> fvalue fx h a = x)
     \<and> (\<forall>a. float_view v a = None \<longleftrightarrow> a \<in> {LoopStart, LoopEnd, RecOffset, PhaseOffset, PostFilterFc})
     \<and> svalue h RecFadeShape = rec_shape (curves v) \<and> svalue h PreFadeShape = pre_shape (curves v)"
proof -
  note a = agreesD [OF replay_agrees [OF assms]]
  have "float_view v b = None \<longleftrightarrow> b \<in> {LoopStart, LoopEnd, RecOffset, PhaseOffset, PostFilterFc}" for b
    by (cases b) (simp_all add: float_view_def)
  then show ?thesis
    using a(2-9) by auto
qed

theorem calls_refined_witness:
  "\<exists>v. replay plain_libm no_junk blank_stack False [DBool Rec True, DBuffer 0 4] = Inr v
     \<and> rec_flags (soft_lib plain_libm no_junk blank_stack False) [DBool Rec True, DBuffer 0 4]
         = (saved_rec v, saved_once v)"
proof -
  obtain v where v: "replay plain_libm no_junk blank_stack False [DBool Rec True, DBuffer 0 4] = Inr v"
    using replay_flag_calls by blast
  show ?thesis
    by (intro exI [of _ v] conjI v calls_refined [OF blank_stack_length v, THEN conjunct1])
qed

section \<open>How the heads play\<close>

text \<open>C8. A voice that has faded in and plays at rate 1 from a whole frame feeds its output filter the
  samples of its buffer one after the other, wrapped at the end of the buffer, exactly and without
  writing it, for as long as it stays inside its loop and below frame \<open>2^24\<close>. With the filter
  settings a voice starts with, these samples come out unchanged, unless the state of the
  filter has overflowed, which gives NaN.\<close>

theorem unity_playback:
  assumes "at_unity (2 ^ k) p (length xs) v" "0 \<le> p" "p + int (length xs) \<le> 2 ^ 24"
    "k < 32" "length buf = 2 ^ k" "\<forall>y \<in> set buf. sample_ok y" "sin_ends lm"
    "exact = map (\<lambda>j. buf ! nat ((p + int j) mod 2 ^ k)) [0..<length xs]"
  shows "\<exists>ys w. sample_loop lm junk xs (buf, v) = Inr (ys, buf, w)
     \<and> active_phase (sch w) = Fin (of_int (p + int (length xs)))
     \<and> ys = filter_run (post_dry v) exact (svf_post v)
     \<and> (bypassed (svf_post v) \<and> post_dry v = Fin 1 \<longrightarrow> list_all2 (\<lambda>x y. y = x \<or> y = NaN) exact ys)"
proof -
  have e: "exact = map (\<lambda>j. buf ! cell (2 ^ k) (p + int j)) [0..<length xs]"
    by (simp add: assms(8) cell_def)
  obtain w where "sample_loop lm junk xs (buf, v) = Inr (filter_run (post_dry v) exact (svf_post v), buf, w)"
      "at_unity (2 ^ k) (p + int (length xs)) 0 w"
    using loop_at_unity [OF assms(4-7,1-3)] e by blast
  moreover have "\<forall>x \<in> set exact. is_flt F32 x"
    using assms(5,6) cell_less [of "2 ^ k"] by (auto simp: e sample_ok_def)
  ultimately show ?thesis
    using bypass_run [of "svf_post v" exact]
    by (intro exI [of _ w] exI [of _ "filter_run (post_dry v) exact (svf_post v)"])
      (auto simp: at_unity_def active_phase_def Let_def)
qed

definition four_frames :: samples where
  "four_frames = [Fin 1, Fin 0, Fin (- 1), Fin 0]"

definition four_frame_voice :: dsp_voice where
  "four_frame_voice =
     (let h = sub_set_buffer 4 new_sub_head
      in (raw_voice plain_libm blank_stack False)
           \<lparr>play_on := True, svf_post := svf.make (Fin 0) (Fin 0) (Fin 0) (Fin 0) (Fin 0) (Fin 0) (Fin 0) (Fin 0)
              (Fin 0) (Fin 0) (Fin 0) (Fin 0) (Fin 0) (Fin 0) (Fin 0) (Fin 0) (Fin 0) (Fin 0),
            rate_ramp := \<lparr>lr_sr = Fin 48000, lr_time = Fin 0, lr_b = Fin 0, lr_x0 = Fin 1, lr_y0 = Fin 1\<rparr>,
            sch := new_rw_head\<lparr>loop_end := Fin 9,
              heads := (\<lambda>i. if i then h else h\<lparr>hstate := Playing, hfade := Fin 1, hphase := Fin 2\<rparr>)\<rparr>\<rparr>)"

lemma four_frames_ok: "length four_frames = 2 ^ 2" "\<forall>y \<in> set four_frames. sample_ok y"
  using rep_int [of 1 F32] rep_int [of "-1" F32]
  by (simp_all add: four_frames_def sample_ok_def tame_def is_flt_def)

lemma four_frame_voice_unity: "at_unity (2 ^ 2) 2 3 four_frame_voice"
  by (simp add: at_unity_def four_frame_voice_def raw_voice_def new_rw_head_def new_sub_head_def
      sub_set_buffer_def knows_def settled_ramp_def Let_def)

lemma plain_sin: "sin_ends plain_libm"
  by (simp add: sin_ends_def plain_libm_def half_pi_def)

theorem unity_playback_witness:
  "\<exists>w. sample_loop plain_libm (Fin 0) [Fin 0, Fin 0, Fin 0] (four_frames, four_frame_voice)
     = Inr ([Fin (- 1), Fin 0, Fin 1], four_frames, w)"
proof -
  have "length [Fin 0, Fin 0, Fin 0] = (3 :: nat)"
    by simp
  then have "at_unity (2 ^ 2) 2 (length [Fin 0, Fin 0, Fin 0]) four_frame_voice"
    using four_frame_voice_unity by (simp only:)
  note u = unity_playback [OF this _ _ _ four_frames_ok plain_sin refl]
  have "rnd F32 1 = Fin 1" "rnd F32 (- 1) = Fin (- 1)"
    using rep_int [of 1 F32] rep_int [of "-1" F32] by (simp_all add: rnd_rep)
  then have "filter_run (post_dry four_frame_voice) [Fin (- 1), Fin 0, Fin 1] (svf_post four_frame_voice)
      = [Fin (- 1), Fin 0, Fin 1]"
    by (simp add: four_frame_voice_def Let_def raw_voice_def svf.defs filter_turn_def svf_next_def
        svf_update_def svf_out_def)
  with u [of "Fin 0"] show ?thesis
    by (simp add: four_frames_def upt_rec numeral_eq_Suc) blast
qed

text \<open>Beyond frame \<open>2^24\<close> a whole position is not read as its sample: the fraction is taken
  from the position rounded to a float, which can be a frame off, so at every fourth frame a
  single 1 among zeros is read as -3.\<close>

theorem far_positions_misread:
  assumes "hphase h = Fin (of_int p)" "2 ^ 24 < p" "p < 2 ^ 25" "p mod 4 = 3" "knows (2 ^ k) h" "k < 32"
    "length buf = 2 ^ k" "buf ! cell (2 ^ k) p = Fin 1"
    "\<forall>j \<in> {- 1, 1, 2}. buf ! cell (2 ^ k) (p + j) = Fin 0"
  shows "peek buf h = Inr (Fin (- 3))"
  using assms by (rule peek_far)

theorem far_positions_misread_witness:
  "peek [Fin 0, Fin 0, Fin 0, Fin 1] ((sub_set_buffer 4 new_sub_head)\<lparr>hphase := Fin 16777219\<rparr>) = Inr (Fin (- 3))"
  by (rule far_positions_misread [where p = 16777219 and k = 2])
    (simp_all add: knows_def sub_set_buffer_def cell_def)

text \<open>C13. A head that plays and steps past a loop point is sent to the other end of the loop at
  once: the other head becomes the active one, at the loop point, its write index the record
  offset away from it, and fades in, while the old head runs on and fades out.\<close>

theorem loop_wraps:
  assumes "hstate (heads s (act s)) = Playing" "hactive (heads s (act s))" "\<not> hactive (heads s (\<not> act s))"
    "loop_flag s" "p = fadd F64 (hphase (heads s (act s))) (hrate (heads s (act s)))"
    "flt_less (loop_end s) p \<or> flt_less p (loop_start s)" "cast_int (loop_target s) = Inr k"
    "w = k + inc_dir (heads s (\<not> act s)) * rec_off (heads s (\<not> act s))" "- (2 ^ 31) \<le> w" "w < 2 ^ 31"
  shows "\<exists>t. advance s = Inr t \<and> act t = (\<not> act s) \<and> \<not> queued_cut t
     \<and> hstate (heads t (act t)) = FadeIn \<and> hphase (heads t (act t)) = loop_target s
     \<and> wr_idx (heads t (act t)) = wrap_index (word_of_int w) (heads s (act t))
     \<and> hstate (heads t (act s)) = FadeOut \<and> hphase (heads t (act s)) = p"
proof -
  obtain t where t: "advance s = Inr t" "act t = (\<not> act s)" "\<not> queued_cut t"
      "hstate (heads t (\<not> act s)) = FadeIn" "hphase (heads t (\<not> act s)) = loop_target s"
      "wr_idx (heads t (\<not> act s)) = wrap_index (word_of_int w) (heads s (\<not> act s))"
      "hstate (heads t (act s)) = FadeOut" "hphase (heads t (act s)) = p"
    using advance_wraps [OF assms(1-4), of k] assms(5-10) by blast
  show ?thesis
    by (intro exI [of _ t], unfold t(2)) (simp only: t simp_thms)
qed

definition at_loop_end :: rw_head where
  "at_loop_end = new_rw_head\<lparr>loop_flag := True,
     heads := (\<lambda>i. if i then new_sub_head else new_sub_head\<lparr>hstate := Playing, hactive := True\<rparr>)\<rparr>"

theorem loop_wraps_witness:
  "\<exists>t. advance at_loop_end = Inr t \<and> act t \<and> hstate (heads t True) = FadeIn \<and> hstate (heads t False) = FadeOut"
proof -
  let ?s = at_loop_end
  have one: "rnd F64 1 = Fin 1"
    using rep_int [of 1 F64] by (simp add: rnd_rep)
  have s: "heads ?s False = new_sub_head\<lparr>hstate := Playing, hactive := True\<rparr>" "heads ?s True = new_sub_head"
      "act ?s = False" "loop_flag ?s" "loop_start ?s = Fin 0" "loop_end ?s = Fin 0"
    by (simp_all add: at_loop_end_def new_rw_head_def)
  have h: "hphase new_sub_head = Fin 0" "hrate new_sub_head = Fin 1" "inc_dir new_sub_head = 1"
      "rec_off new_sub_head = - 8" "\<not> hactive new_sub_head"
    by (simp_all add: new_sub_head_def)
  have "cast_int (loop_target ?s) = Inr 0"
    by (simp add: loop_target_def s h cast_int_def chop_def)
  then obtain t where "advance ?s = Inr t" "act t = (\<not> act ?s)" "hstate (heads t (act t)) = FadeIn"
      "hstate (heads t (act ?s)) = FadeOut"
    using loop_wraps [of ?s "Fin 1" 0 "- 8"] by (auto simp: s h one)
  then show ?thesis
    by (simp add: s)
qed

text \<open>C20. A voice that was never told a position does not obey its loop points: whatever else it is
  told, its one moving head steps on by the rate, and a record-once pass neither ends nor writes
  anything.\<close>

theorem uncut_voice_never_loops:
  assumes "never_cut h" "replay lm junk stack fx h = Inr v"
  shows "(\<exists>t. advance (sch v) = Inr t \<and> \<not> act t
       \<and> active_phase t = (if hstate (heads (sch v) False) = Stopped then active_phase (sch v)
                           else fadd F64 (active_phase (sch v)) (hrate (heads (sch v) False))))
     \<and> \<not> once_done (sch v)
     \<and> write_heads c x (buf, (sch v)\<lparr>once_flag := True\<rparr>) = Inr (buf, (sch v)\<lparr>once_flag := True\<rparr>)"
proof -
  have u: "uncut (sch v)"
    using assms by (rule replay_uncut)
  then obtain t where "advance (sch v) = Inr t" "uncut t"
      "hphase (heads t False) = hphase (drift (heads (sch v) False))"
    using advance_uncut by blast
  moreover have "uncut ((sch v)\<lparr>once_flag := True\<rparr>)"
    using u by (simp add: uncut_def)
  then have "write_heads c x (buf, (sch v)\<lparr>once_flag := True\<rparr>) = Inr (buf, (sch v)\<lparr>once_flag := True\<rparr>)"
    by (rule uncut_once_writes_nothing) (simp add: once_active_def)
  ultimately show ?thesis
    using u by (auto simp: uncut_def active_phase_def drift_def)
qed

theorem uncut_voice_never_loops_witness:
  "\<exists>v. replay plain_libm no_junk blank_stack False [DBool Play True, DBuffer 0 4] = Inr v \<and> \<not> once_done (sch v)"
proof -
  obtain v where v: "replay plain_libm no_junk blank_stack False [DBool Play True, DBuffer 0 4] = Inr v"
    using replay_flag_calls by blast
  have "never_cut [DBool Play True, DBuffer 0 4]"
    by (simp add: never_cut_def)
  with v show ?thesis
    using uncut_voice_never_loops by blast
qed

end
