(* ===== verification/Host_Memory.thy ===== *)
theory Host_Memory
  imports Osc_Props Dsp_Props
begin

text \<open>
  The memory safety of the voice object (\<open>dsp_memory_safe\<close>) carried to the host and the OSC server.
  Its hypothesis is about the calls a voice gets: buffers that do not shrink, and blocks that come
  with the contents of the latest. Here it is an invariant (\<open>fit\<close>) of the engine under a host whose
  two buffers have one length: every buffer a voice was ever given, or still waits for in a queue,
  has that length, and every block was processed over as many frames. The invariant is one more
  instance of the contract \<open>host_kept\<close>.
\<close>

section \<open>Histories of one buffer length\<close>

fun sized :: "nat \<Rightarrow> dsp_ev list \<Rightarrow> bool" where
  "sized n [] = True"
| "sized n (DBuffer a m # h) = (m = n \<and> sized n h)"
| "sized n (DProcess buf xs # h) = (length buf = n \<and> dsp_buffer h \<noteq> None \<and> sized n h)"
| "sized n (e # h) = sized n h"

definition cmd_fit :: "nat \<Rightarrow> dsp_ev \<Rightarrow> bool" where
  "cmd_fit n e = (case e of DBuffer a m \<Rightarrow> m = n | DProcess buf xs \<Rightarrow> False | _ \<Rightarrow> True)"

lemma cmd_fit_simps [simp]:
  "cmd_fit n (DFloat a x)" "cmd_fit n (DBool b y)" "cmd_fit n (DShape c k)" "cmd_fit n (DCut x)"
  "cmd_fit n DStop" "cmd_fit n DReset" "cmd_fit n (DSampleRate x)" "cmd_fit n (DBuffer r m) = (m = n)"
  by (simp_all add: cmd_fit_def)

lemma sized_cmd: "cmd_fit n e \<Longrightarrow> sized n (e # h) = sized n h"
  by (cases e) (simp_all add: cmd_fit_def)

lemma buffer_stays: "dsp_buffer h \<noteq> None \<Longrightarrow> dsp_buffer (e # h) \<noteq> None"
  by (cases e) simp_all

lemma sized_buffer: "sized n h \<Longrightarrow> dsp_buffer h = Some (a, m) \<Longrightarrow> m = n"
  by (induction n h rule: sized.induct) auto

lemma sized_grows: "sized n h \<Longrightarrow> 0 < n \<Longrightarrow> n < 2 ^ 32 \<Longrightarrow> grows h"
proof (induction n h rule: sized.induct)
  case (2 n a m h)
  then show ?case
    using sized_buffer [of n h] by (auto split: option.split)
next
  case (3 n buf xs h)
  then show ?case
    using sized_buffer [of n h] by (auto split: option.split)
qed auto

definition voice_fit :: "nat \<Rightarrow> voice \<Rightarrow> bool" where
  "voice_fit n v \<longleftrightarrow> sized n (dsp v) \<and> (vframes v \<noteq> 0 \<longrightarrow> dsp_buffer (dsp v) \<noteq> None)"

definition fit :: "nat \<Rightarrow> 'z engine_scheme \<Rightarrow> bool" where
  "fit n s \<longleftrightarrow> ring_wf (cmdq s) \<and> ring_wf (oscq s) \<and> (\<forall>v \<in> set (voices s). voice_fit n v)
     \<and> (\<forall>c \<in> set (queued (cmdq s)) \<union> set (queued (oscq s)). cmd_fit n (fst (snd c)))"

lemma voice_fit_fields:
  "dsp w = dsp v \<Longrightarrow> vframes w = vframes v \<Longrightarrow> voice_fit n w = voice_fit n v"
  by (simp add: voice_fit_def)

lemma voice_fit_apply: "cmd_fit n e \<Longrightarrow> voice_fit n v \<Longrightarrow> voice_fit n (apply_ev e fl v)"
  using buffer_stays [of "dsp v" e] by (auto simp: voice_fit_def apply_ev_def sized_cmd)

section \<open>Voices and queues\<close>

lemma ball_vupd:
  "\<forall>v \<in> set vs. P v \<Longrightarrow> (\<And>v. P v \<Longrightarrow> P (f v)) \<Longrightarrow> \<forall>v \<in> set (vupd i f vs). P v"
  using set_vupd [of _ i f vs] by blast

lemma fit_voice: "fit n s \<Longrightarrow> (\<And>v. voice_fit n v \<Longrightarrow> voice_fit n (f v)) \<Longrightarrow> fit n (upd_voice i f s)"
  using ball_vupd [of "voices s" "voice_fit n" f] by (simp add: fit_def)

lemma fit_same_voice:
  "fit n s \<Longrightarrow> (\<And>v. dsp (f v) = dsp v) \<Longrightarrow> (\<And>v. vframes (f v) = vframes v) \<Longrightarrow> fit n (upd_voice i f s)"
  by (rule fit_voice) (simp_all add: voice_fit_def)

lemma vframes_store [simp]:
  "vframes (store_float a x v) = vframes v" "vframes (store_mix m x v) = vframes v"
  "vframes (store_bool b y v) = vframes v" "vframes (store_shape c k v) = vframes v"
  "vframes (reset_params v) = vframes v"
  by (simp_all add: store_defs reset_params_def)

lemma fit_run_cmd: "fit n s \<Longrightarrow> cmd_fit n e \<Longrightarrow> fit n (run_cmd (i, e, fl) s)"
  by (simp add: run_cmd_def fit_voice voice_fit_apply)

lemma fit_fold_vrun:
  "\<forall>v \<in> set vs. voice_fit n v \<Longrightarrow> \<forall>c \<in> set cs. cmd_fit n (fst (snd c)) \<Longrightarrow>
   \<forall>v \<in> set (fold vrun cs vs). voice_fit n v"
proof (induction cs arbitrary: vs)
  case (Cons c cs)
  obtain i e fl where c: "c = (i, e, fl)"
    by (metis surj_pair)
  have "\<forall>v \<in> set (vrun c vs). voice_fit n v"
    unfolding c vrun_vupd using Cons.prems(1)
    by (rule ball_vupd) (use Cons.prems(2) voice_fit_apply in \<open>simp add: c\<close>)
  then show ?case
    using Cons by simp
qed simp

lemma fit_drain:
  assumes "fit n s"
  shows "fit n (drain s)"
proof -
  have wf: "ring_wf (cmdq s)" "ring_wf (oscq s)"
    using assms by (simp_all add: fit_def)
  have "\<forall>v \<in> set (settled s). voice_fit n v"
    unfolding settled_def by (rule fit_fold_vrun) (use assms in \<open>simp_all add: fit_def ball_Un\<close>)
  with drain_settles [OF wf] show ?thesis
    by (simp add: fit_def)
qed

lemma fit_queue:
  assumes "fit n s" "cmd_fit n e"
  shows "fit n (snd (queue_apply q (i, e, fl) s))"
proof -
  have wf: "ring_wf (cmdq s)" "ring_wf (oscq s)"
    using assms(1) by (simp_all add: fit_def)
  have d: "fit n (upd_voice i (\<lambda>v. v\<lparr>dropped := dropped v + 1\<rparr>) s)"
    using assms(1) by (rule fit_same_voice) simp_all
  show ?thesis
  proof (cases q)
    case Ctl
    show ?thesis
      using assms d
      by (cases rule: ring.put_cases [OF wf(1), of "(i, e, fl)"]) (auto simp: Ctl queue_apply_def fit_def)
  next
    case Osc
    show ?thesis
      using assms d
      by (cases rule: ring.put_cases [OF wf(2), of "(i, e, fl)"]) (auto simp: Osc queue_apply_def fit_def)
  qed
qed

lemma fit_dsp_apply: "fit n s \<Longrightarrow> cmd_fit n e \<Longrightarrow> fit n (snd (dsp_apply q i e fl s))"
  using fit_queue [of n s e q i fl] by (simp add: dsp_apply_def fit_run_cmd)

lemma fit_flag_apply:
  assumes "fit n s" "cmd_fit n e"
  shows "fit n (flag_apply q i e s)"
proof -
  let ?s = "upd_voice i (\<lambda>v. v\<lparr>flags_pending := flags_pending v + 1\<rparr>) s"
  have "fit n ?s"
    using assms(1) by (rule fit_same_voice) simp_all
  then have d: "fit n (snd (dsp_apply q i e True ?s))"
    using assms(2) by (rule fit_dsp_apply)
  then have "fit n (upd_voice i (\<lambda>v. v\<lparr>flags_pending := flags_pending v - 1\<rparr>) (snd (dsp_apply q i e True ?s)))"
    by (rule fit_same_voice) simp_all
  with d show ?thesis
    by (simp add: flag_apply_def Let_def case_prod_beta)
qed

lemma fit_post_float: "fit n s \<Longrightarrow> fit n (post_float q i a x s)"
  unfolding post_float_def by (intro fit_dsp_apply fit_same_voice) simp_all

lemma fit_post_bool: "fit n s \<Longrightarrow> fit n (post_bool q i b x s)"
  unfolding post_bool_def Let_def
  by (auto intro!: fit_dsp_apply fit_flag_apply fit_same_voice)

lemma fit_voice_setters [keeps_intro]:
  "keeps (fit n) (set_float i a x)" "keeps (fit n) (set_bool i b y)" "keeps (fit n) (set_mix i m x)"
  "keeps (fit n) (cut_to i x)" "keeps (fit n) (voice_stop i)" "keeps (fit n) (voice_reset i)"
  unfolding set_float_def set_bool_def set_mix_def cut_to_def voice_stop_def voice_reset_def
  by (auto intro!: keeps_modify fit_post_float fit_post_bool fit_same_voice fit_dsp_apply fit_flag_apply)

lemma fit_set_attr [keeps_intro]: "keeps (fit n) (set_attr i name x)"
  unfolding set_attr_def
  by (auto split: option.split attr.split pyarg.split intro!: keeps_intro)

lemma fit_fields:
  "fit n (s\<lparr>running := b\<rparr>) = fit n s" "fit n (s\<lparr>fbk := f\<rparr>) = fit n s" "fit n (s\<lparr>cur_out := c\<rparr>) = fit n s"
  "fit n (s\<lparr>prev_out := p\<rparr>) = fit n s"
  by (simp_all add: fit_def)

lemma fit_start_stop [keeps_intro]: "keeps (fit n) engine_start" "keeps (fit n) engine_stop"
  by (auto simp: engine_start_def core_start_def engine_stop_def core_stop_def keeps_def fit_fields
      intro!: fit_drain)

lemma fit_feedback [keeps_intro]: "keeps (fit n) (feedback src dst (Some x))"
proof -
  have "keeps (fit n) (set_feedback src dst x)"
    by (auto simp: set_feedback_def keeps_def fit_fields split: sum.split)
  then show ?thesis
    by (auto simp: feedback_def intro!: keeps_intro)
qed

text \<open>The assignment of an array of the right length.\<close>

lemma fit_set_buffer:
  assumes "fit n s" "length (mem s a) = n"
  shows "fit n (snd (set_buffer i a s))"
proof -
  have "fit n (upd_voice i (\<lambda>v. v\<lparr>dsp := DBuffer a n # dsp v, vbuf := Some a, vframes := n\<rparr>) s)"
    using assms(1) by (rule fit_voice) (simp add: voice_fit_def)
  moreover have q: "fit n (snd (queue_apply Ctl (i, DBuffer a n, False) s))"
    using assms(1) by (rule fit_queue) simp
  moreover have "fit n (upd_voice i (\<lambda>v. v\<lparr>vbuf := Some a\<rparr>) (snd (queue_apply Ctl (i, DBuffer a n, False) s)))"
    using q by (rule fit_same_voice) simp_all
  ultimately show ?thesis
    using assms by (auto simp: set_buffer_def Let_def case_prod_beta)
qed

section \<open>Blocks\<close>

lemma fit_mem: "voices t = voices s \<Longrightarrow> cmdq t = cmdq s \<Longrightarrow> oscq t = oscq s \<Longrightarrow> fit n t = fit n s"
  by (simp add: fit_def)

lemma fit_new_array [keeps_intro]: "keeps (fit n) (new_array xs)"
  by (rule keepsI) (simp add: new_array_def fit_def)

text \<open>A voice that has a buffer runs over the contents of an array of the right length.\<close>

definition block_fit :: "nat \<Rightarrow> 'z engine_scheme \<Rightarrow> bool" where
  "block_fit n s \<longleftrightarrow> fit n s \<and> buffers_ok s \<and> (\<forall>v \<in> set (voices s). vframes v \<noteq> 0)"

lemma frames_frame:
  assumes "same_frame s t" "\<forall>v \<in> set (voices s). vframes v \<noteq> 0"
  shows "\<forall>v \<in> set (voices t). vframes v \<noteq> 0"
proof
  fix v
  assume "v \<in> set (voices t)"
  then have "holds v \<in> set (map holds (voices t))"
    by simp
  then have "holds v \<in> set (map holds (voices s))"
    using assms(1) by (simp only: same_frame_def)
  then obtain w where "w \<in> set (voices s)" "holds v = holds w"
    by auto
  then show "vframes v \<noteq> 0"
    using assms(2) by (simp add: holds_def)
qed

lemma block_fit_frame: "block_fit n s \<Longrightarrow> same_frame s t \<Longrightarrow> buffers_ok t \<Longrightarrow> fit n t \<Longrightarrow> block_fit n t"
  using frames_frame by (auto simp: block_fit_def)

lemma fit_run_voice:
  assumes "block_fit n s" "i < length (voices s)"
  shows "fit n (snd (run_voice lib i vin s))"
proof -
  let ?v = "voices s ! i"
  have v: "voice_fit n ?v" "vframes ?v \<noteq> 0" "?v \<in> set (voices s)"
    using assms by (auto simp: block_fit_def fit_def)
  then obtain a where a: "dsp_buffer (dsp ?v) = Some (a, n)"
    using sized_buffer [of n "dsp ?v"] by (auto simp: voice_fit_def)
  then have "ev_ok (mem s) (DBuffer a n)"
    using dsp_buffer_mem [OF a] assms(1) v(3) by (auto simp: block_fit_def buffers_ok_def)
  then have len: "length (mem s a) = n"
    by (simp add: ev_ok_def)
  let ?s = "put_array a (snd (lib_process lib (dsp ?v) (mem s a) vin)) s"
  let ?w = "?v\<lparr>dsp := DProcess (mem s a) vin # dsp ?v\<rparr>"
  have "voice_fit n ?w"
    using v(1,2) len by (simp add: voice_fit_def)
  then have "set ((voices s)[i := ?w]) \<subseteq> {v. voice_fit n v}"
    using assms(1) by (intro set_update_subsetI) (auto simp: block_fit_def fit_def)
  then have "fit n (?s\<lparr>voices := (voices s)[i := ?w]\<rparr>)"
    using assms(1) by (auto simp: block_fit_def fit_def)
  then show ?thesis
    by (simp add: run_voice_def buffer_content_def a Let_def case_prod_beta upd_voice_def)
qed

lemma block_fit_mix_voice:
  assumes "lib_ok lib" "block_fit n s" "dst < length (voices s)"
  shows "block_fit n (mix_voice lib inp out k dst s)"
proof -
  have "buffers_ok s"
    using assms(2) by (simp add: block_fit_def)
  moreover have "fit n (mix_voice lib inp out k dst s)"
    using fit_run_voice [OF assms(2,3), of lib]
    by (simp add: mix_voice_def Let_def case_prod_beta fit_def)
  ultimately show ?thesis
    using assms by (intro block_fit_frame [OF assms(2)] frame_mix_voice buffers_ok_mix_voice)
qed

lemma block_fit_fold:
  "lib_ok lib \<Longrightarrow> block_fit n s \<Longrightarrow> \<forall>d \<in> set ds. d < length (voices s) \<Longrightarrow>
   block_fit n (fold (mix_voice lib inp out k) ds s)"
proof (induction ds arbitrary: s)
  case (Cons d ds)
  then show ?case
    using block_fit_mix_voice [of lib n s d] same_frame_length [OF frame_mix_voice [of lib s]] by simp
qed simp

lemma block_fit_core:
  assumes "lib_ok lib" "block_fit n s"
  shows "block_fit n (process_core lib inp out k s)"
proof -
  let ?xs = "for_upd (\<lambda>_ _. Fin 0) (snd out) (k * outch s) (mem s (fst out))"
  have "block_fit n (put_array (fst out) ?xs s)"
    using assms(2) by (auto simp: block_fit_def fit_def intro!: buffers_ok_put)
  then have f: "block_fit n (fold (mix_voice lib inp out k) [0..<length (voices s)] (put_array (fst out) ?xs s))"
    using assms(1) by (intro block_fit_fold) simp_all
  then show ?thesis
    by (simp add: process_core_def Let_def block_fit_def fit_def buffers_ok_out)
qed

lemma block_fit_loop:
  "lib_ok lib \<Longrightarrow> block_fit n s \<Longrightarrow> block_fit n (block_loop lib bs inp out d k s)"
proof (induction lib bs inp out d k s rule: block_loop.induct)
  case (1 lib bs inp out d k s)
  then show ?case
    by (subst block_loop.simps) (simp add: Let_def block_fit_core)
qed

lemma block_keeps:
  "keeps (fit n) m \<Longrightarrow> keeps buffers_ok m \<Longrightarrow> (\<And>s. keeps (same_frame s) m) \<Longrightarrow> keeps (block_fit n) m"
  by (rule keepsI) (metis block_fit_def block_fit_frame keepsD keeps_frameD)

lemma block_fit_render: "lib_ok lib \<Longrightarrow> keeps (block_fit n) (render lib inp out secs)"
proof -
  assume lib: "lib_ok lib"
  have z: "keeps (block_fit n) (new_zeros k)" for k
    unfolding new_zeros_def
    by (intro keeps_intro block_keeps frame_intro)
  have "keeps (block_fit n) (core_render lib a b)" for a b
    by (rule keepsI) (simp add: core_render_def Let_def block_fit_loop lib)
  then show ?thesis
    unfolding render_def by (intro keeps_intro z)
qed

lemma block_fit_drain: "block_fit n s \<Longrightarrow> block_fit n (drain s)"
  by (rule block_fit_frame [OF _ frame_drain]) (simp_all add: block_fit_def fit_drain buffers_ok_drain)

lemma block_fit_callback:
  assumes "lib_ok lib" "block_fit n s"
  shows "block_fit n (callback lib ext s)"
proof -
  have "keeps (block_fit n) (new_array xs)" for xs
    by (intro block_keeps keeps_intro frame_intro)
  then show ?thesis
    unfolding callback_def Let_def case_prod_beta
    by (intro block_fit_loop assms keepsD [of "block_fit n" "new_array _"] block_fit_drain)
qed

section \<open>The host\<close>

definition served :: "aref \<Rightarrow> aref \<Rightarrow> nat \<Rightarrow> 'z norns_scheme \<Rightarrow> bool" where
  "served a1 a2 n s \<longleftrightarrow> fit n s \<and> buffers_ok s \<and> host_table a1 a2 n s"

lemma served_frame:
  "served a1 a2 n s \<Longrightarrow> same_frame s t \<Longrightarrow> fit n t \<Longrightarrow> buffers_ok t \<Longrightarrow> served a1 a2 n t"
  using host_table_frame by (auto simp: served_def)

lemma served_keeps:
  "keeps (fit n) m \<Longrightarrow> keeps buffers_ok m \<Longrightarrow> (\<And>s. keeps (same_frame s) m) \<Longrightarrow> keeps (served a1 a2 n) m"
  by (rule keepsI) (metis keepsD keeps_frameD served_def served_frame)

lemma served_block: "served a1 a2 n s \<Longrightarrow> block_fit n s"
  by (force simp: served_def block_fit_def host_table_def holds_def pow2_length_def in_set_conv_nth)

lemma fit_assigned: "fit n (s\<lparr>assigned := f\<rparr>) = fit n s" "fit n (s\<lparr>bufs := g\<rparr>) = fit n s"
  by (simp_all add: fit_def)

text \<open>What \<open>buffer\<close> does is the assignment of the array of that number, or nothing.\<close>

lemma snd_bnd:
  "snd (bnd m k s) = (case fst (m s) of Inl e \<Rightarrow> snd (m s) | Inr a \<Rightarrow> snd (k a (snd (m s))))"
  by (simp add: bnd_def split: prod.split sum.split)

lemma buffer_state:
  "snd (buffer i b s) = s \<or> (\<exists>a k. bufs s b = Some a \<and>
     (snd (buffer i b s) = snd (set_buffer k a s)
      \<or> snd (buffer i b s) = (snd (set_buffer k a s))\<lparr>assigned := (assigned (snd (set_buffer k a s)))(i \<mapsto> b)\<rparr>))"
proof (cases "bufs s b")
  case None
  then show ?thesis by (simp add: buffer_def py_simps)
next
  case (Some a)
  have v: "snd (voice_at i s) = s"
    by (simp add: voice_at_def get_voice_def Let_def)
  show ?thesis
  proof (cases "fst (voice_at i s)")
    case (Inl e)
    then show ?thesis using Some v by (simp add: buffer_def snd_bnd gets_apply)
  next
    case (Inr k)
    with Some v have "snd (buffer i b s) = snd (bnd (set_buffer k a) (\<lambda>_. modify (\<lambda>s. s\<lparr>assigned := (assigned s)(i \<mapsto> b)\<rparr>)) s)"
      by (simp add: buffer_def snd_bnd gets_apply)
    also have "\<dots> = snd (set_buffer k a s) \<or>
        \<dots> = (snd (set_buffer k a s))\<lparr>assigned := (assigned (snd (set_buffer k a s)))(i \<mapsto> b)\<rparr>"
      by (simp add: snd_bnd modify_apply split: sum.split)
    finally show ?thesis using Some by blast
  qed
qed

lemma fit_buffer:
  assumes "fit n s" "\<And>a. bufs s b = Some a \<Longrightarrow> length (mem s a) = n"
  shows "fit n (snd (buffer i b s))"
  using buffer_state [of i b s] fit_set_buffer [OF assms(1)] assms by (auto simp: fit_assigned)

lemma served_buffer: "keeps (served a1 a2 n) (buffer i b)"
proof (rule keepsI)
  fix s :: "'a norns_scheme"
  assume s: "served a1 a2 n s"
  then have "fit n (snd (buffer i b s))"
    by (intro fit_buffer) (auto simp: served_def host_table_def split: if_splits)
  with s show "served a1 a2 n (snd (buffer i b s))"
    using host_table_buffer keepsD [OF keeps_buffer_ok] by (auto simp: served_def)
qed

lemma fit_host_reads [keeps_intro]: "keeps (fit n) (get_voice i)" "keeps (fit n) (voice_at i)"
  by (simp_all add: get_voice_def voice_at_def Let_def keeps_def)

lemma fit_buf_exec [keeps_intro]: "keeps (fit n) (buf_exec op)"
proof (rule keepsI)
  fix s :: "'a norns_scheme"
  assume "fit n s"
  moreover obtain M F where "snd (buf_exec op s) = s\<lparr>mem := M, files := F\<rparr>"
    using keepsD [OF buf_exec_in_place in_place_refl, of s op] by (auto elim: in_placeE)
  ultimately show "fit n (snd (buf_exec op s))"
    by (simp add: fit_def)
qed

lemma fit_host_calls [keeps_intro]:
  "keeps (fit n) (set_param name i x)" "keeps (fit n) (bool_setter att i y)"
  "keeps (fit n) (set_position i x)" "keeps (fit n) (voice_sync lib i j x)"
  "keeps (fit n) (level_cut_cut i j x)" "keeps (fit n) norns_start" "keeps (fit n) norns_stop"
  unfolding set_param_def float_setter_def bool_setter_def set_position_def voice_sync_def sync_def
    level_cut_cut_def norns_start_def norns_stop_def
  by (auto split: option.split intro!: keeps_intro)

lemma ok_bool_setter [keeps_intro]: "keeps buffers_ok (bool_setter att i y)"
  unfolding bool_setter_def by (intro keeps_intro)

lemma served_reset: "keeps (served a1 a2 n) reset_all"
proof -
  have "keeps (served a1 a2 n) (voice_reset k)" for k
    by (intro served_keeps keeps_intro frame_intro)
  then show ?thesis
    unfolding reset_all_def by (intro keeps_intro served_buffer)
qed

interpretation served: host_kept "served a1 a2 n" lib for a1 a2 n lib
  by unfold_locales (intro served_buffer served_reset served_keeps keeps_intro frame_intro)+

text \<open>A new host: its voices got nothing but a sample rate before their first buffer.\<close>

lemma new_norns_served:
  assumes new: "new_norns st dev rate nv bf mode quirks = Inr s" and st: "mem st = (\<lambda>_. [])"
  shows "\<exists>a1 a2. served a1 a2 (nat (next_power_of_two bf)) s"
proof -
  obtain e where e: "new_engine st dev nv rate mode 512 2 (- 1) (- 1) quirks = Inr e"
    using new by (auto simp: new_norns_def ebind_eq_Inr)
  let ?n = "nat (next_power_of_two bf)"
  define s0 where "s0 = engine.extend e \<lparr>nsr = rate, nvoices = nv, bufs = (\<lambda>_. None), assigned = (\<lambda>_. None)\<rparr>"
  define K where "K = (\<lambda>t :: norns. fit ?n t \<and> (\<forall>b a. bufs t b = Some a \<longrightarrow> length (mem t a) = ?n))"
  obtain v where v: "new_voice rate quirks = Inr v" "cmdq e = empty_ring" "oscq e = empty_ring"
      "voices e = replicate (nat nv) (apply_ev (DSampleRate (to_f32 rate)) False v)"
    using new_engine_ok [OF e] by blast
  then have "dsp v = [DSampleRate (to_f32 rate)]" "vframes v = 0"
    by (auto simp: new_voice_def Let_def split: if_splits)
  then have f0: "fit ?n s0"
    using v by (simp add: s0_def engine.defs fit_def voice_fit_def apply_ev_def)
  have pos: "0 \<le> next_power_of_two bf"
    using next_power_of_two_pos [of bf] by simp
  obtain as s1 where s1: "new_arrays 2 (next_power_of_two bf) s0 = (Inr as, s1)" "as = [brk s0, Suc (brk s0)]"
      "length (mem s1 (brk s0)) = ?n" "length (mem s1 (Suc (brk s0))) = ?n"
    using new_arrays_eq [OF pos, of 2 s0] by (simp add: upt_rec)
  have "keeps (fit ?n) (new_arrays 2 (next_power_of_two bf))"
    unfolding numeral_2_eq_2 new_arrays.simps new_zeros_def by (intro keeps_intro)
  then have "fit ?n s1"
    using keepsD [of "fit ?n" "new_arrays 2 (next_power_of_two bf)" s0] s1(1) f0 by simp
  then have "K (s1\<lparr>bufs := [1 \<mapsto> as ! 0, 2 \<mapsto> as ! 1]\<rparr>)"
    using s1(2-4) by (simp add: K_def fit_assigned)
  moreover have "keeps K (buffer i b)" for i b
  proof (rule keepsI)
    fix t :: norns
    assume "K t"
    moreover have "mem (snd (buffer i b t)) = mem t" "bufs (snd (buffer i b t)) = bufs t"
      using buffer_state [of i b t] set_buffer_more [of _ _ t] norns_more(3) [of "snd (set_buffer _ _ t)" t]
      by (auto simp: set_buffer_def Let_def case_prod_beta)
    ultimately show "K (snd (buffer i b t))"
      using fit_buffer [of ?n t b i] by (simp add: K_def)
  qed
  then have "keeps K (for_each [1..nv] (\<lambda>i. buffer i 1))"
    by (intro keeps_intro)
  ultimately have "K (snd (for_each [1..nv] (\<lambda>i. buffer i 1) (s1\<lparr>bufs := [1 \<mapsto> as ! 0, 2 \<mapsto> as ! 1]\<rparr>)))"
    by (rule keepsD [rotated])
  moreover have "snd (for_each [1..nv] (\<lambda>i. buffer i 1) (s1\<lparr>bufs := [1 \<mapsto> as ! 0, 2 \<mapsto> as ! 1]\<rparr>)) = s"
    using new e s1(1)
    by (auto simp: new_norns_def Let_def bnd_def modify_def simp flip: s0_def split: prod.splits sum.splits)
  ultimately have K: "K s"
    by simp
  obtain a1 a2 n where "host_table a1 a2 n s" "buffers_ok s"
    using new_norns_wf [OF new st] by (auto simp: host_wf_def)
  moreover from this(1) have "bufs s 1 = Some a1" "length (mem s a1) = n"
    by (simp_all add: host_table_def)
  moreover from this K have "n = ?n"
    by (simp add: K_def)
  ultimately show ?thesis
    using K by (auto simp: served_def K_def)
qed

section \<open>The server\<close>

lemma served_fields:
  assumes "norns.truncate t = norns.truncate s"
  shows "served a1 a2 n t = served a1 a2 n (s :: 'z norns_scheme)"
  using assms
  by (cases s; cases t; simp add: norns.defs served_def fit_def host_table_def buffers_ok_def fresh_mem_def)

lemma served_dispatch: "served a1 a2 n s \<Longrightarrow> served a1 a2 n (snd (dispatch lib addr args s))"
proof -
  assume s: "served a1 a2 n s"
  have "served a1 a2 n (snd (run_handler lib h args s))" for h
    using keepsD [OF served.handler s, of lib h args] s served_fields [of "poll_start s" s a1 a2 n]
      served_fields [of "poll_stop s" s a1 a2 n] served_fields [of "s\<lparr>oquit := True\<rparr>" s a1 a2 n]
      poll_start_server(2) [of s]
    by (cases h) (simp_all add: modify_def poll_stop_def norns.defs)
  with s show ?thesis
    by (simp add: dispatch_result split: option.split)
qed

lemma served_fast:
  assumes "try_fast_dispatch addr args s = Some t" "served a1 a2 n s"
  shows "served a1 a2 n t"
proof (rule served_frame [OF assms(2) fast_frame(1) [OF assms(1)]])
  show "buffers_ok t"
    using fast_frame(2) [OF assms(1)] assms(2) by (simp add: served_def)
  show "fit n t"
    using assms
    by (auto simp: try_fast_dispatch_def served_def Let_def split: option.splits if_splits
        intro: fit_post_float fit_post_bool)
qed

lemma served_receive: "served a1 a2 n s \<Longrightarrow> served a1 a2 n (receive lib addr args s)"
  by (auto simp: receive_def native_handle_def served_dispatch split: backend.split option.split
      dest: served_fast)

lemma served_audio:
  assumes "lib_ok lib" "served a1 a2 n s"
  shows "served a1 a2 n (callback lib ext s)"
  using block_fit_callback [OF assms(1) served_block [OF assms(2)], of ext] assms
  by (intro served_frame [OF assms(2)] frame_callback) (simp_all add: block_fit_def)

lemma served_event:
  assumes "lib_ok lib" "served a1 a2 n s"
  shows "served a1 a2 n (osc_event lib e s)"
proof (cases e)
  case (Turn up)
  then show ?thesis
    using served_fields [of "poll_tick lib up s" s a1 a2 n] poll_tick_frame [of s lib up] assms(2)
    by (simp add: poll_frame_def)
next
  case Shutdown
  then show ?thesis
    using served_fields [of "osc_shutdown s" s a1 a2 n] assms(2)
    by (simp add: osc_shutdown_def poll_stop_def norns.defs)
qed (use assms in \<open>simp_all add: served_receive served_audio\<close>)

lemma served_exec:
  assumes "lib_ok lib" "served a1 a2 n s"
  shows "served a1 a2 n (host_exec lib op s)"
proof (cases op)
  case (HRender inp out secs)
  have "keeps (block_fit n) (norns_render lib inp out secs)"
    unfolding norns_render_def using assms(1) by (rule block_fit_render)
  then have "block_fit n (host_exec lib op s)"
    using keepsD served_block [OF assms(2)] by (auto simp: HRender)
  moreover have "same_frame s (host_exec lib op s)"
    by (rule host_exec_frame [OF assms(1)]) (simp_all add: HRender)
  ultimately show ?thesis
    using served_frame [OF assms(2)] by (simp add: block_fit_def)
next
  case HStart
  have "keeps (served a1 a2 n) (norns_start :: ('a norns_scheme, unit) py)"
    by (intro served_keeps keeps_intro frame_intro)
  with HStart assms(2) show ?thesis by (simp add: keepsD)
next
  case HStop
  have "keeps (served a1 a2 n) (norns_stop :: ('a norns_scheme, unit) py)"
    by (intro served_keeps keeps_intro frame_intro)
  with HStop assms(2) show ?thesis by (simp add: keepsD)
qed (simp_all add: assms(2) keepsD [OF served.param] keepsD [OF served.position]
    keepsD [OF served.assign] keepsD [OF served.sync] keepsD [OF served.cut_cut]
    keepsD [OF served.reset] keepsD [OF served.buffers])

lemma osc_reach_served:
  assumes "lib_ok lib" "osc_reach lib s"
  shows "\<exists>a1 a2 n. served a1 a2 n s"
  using assms(2)
proof (induction rule: osc_reach.induct)
  case (init st dev rate nv bf mode quirks h native pyosc name lhost bind s)
  obtain m where s: "s = norns.extend h m"
    using new_osc_eq [OF init(3)] by blast
  obtain a1 a2 n where "served a1 a2 n h"
    using new_norns_served [OF init(1,2)] by blast
  then have "served a1 a2 n s"
    by (simp add: s norns.defs served_def fit_def host_table_def buffers_ok_def fresh_mem_def)
  then show ?case by blast
next
  case (step s t)
  then obtain a1 a2 n where s: "served a1 a2 n s"
    by blast
  from step(2) have "served a1 a2 n t"
  proof (cases rule: osc_step.cases)
    case (event e)
    then show ?thesis using served_event [OF assms(1) s] by simp
  next
    case start
    then show ?thesis
      using s served_fields [of t s a1 a2 n] by (simp add: osc_start_def norns.defs)
  next
    case block
    then show ?thesis
      using s served_fields [of t s a1 a2 n] by (simp add: norns.defs)
  next
    case (host op)
    then show ?thesis using served_exec [OF assms(1) s] by simp
  qed
  then show ?case by blast
qed

text \<open>C3. Whatever messages a server gets, however malformed, whatever its host is told directly and
  however its audio blocks, poll turns and shutdowns fall between them: no voice reads or writes
  outside its buffer or its fade tables, as long as a buffer has less than \<open>2^32\<close> frames. The voice
  object here is the modelled one, in the engine, under the host, behind the socket.\<close>

theorem served_memory_safe:
  assumes "length stack = fadeBufSize" "osc_reach (soft_lib lm junk stack fx) s"
    "i < length (voices s)" "vframes (voices s ! i) < 2 ^ 32"
  shows "replay lm junk stack fx (dsp (voices s ! i)) \<notin> {Inl BufferOverrun, Inl TableOverrun}"
proof -
  obtain a1 a2 n where s: "served a1 a2 n s"
    using osc_reach_served [OF soft_lib_meets_contract [OF assms(1)] assms(2)] by blast
  then have "voice_fit n (voices s ! i)" "vframes (voices s ! i) = n" "0 < n"
    using assms(3) by (auto simp: served_def fit_def host_table_def holds_def pow2_length_def)
  then have "grows (dsp (voices s ! i))"
    using assms(4) by (intro sized_grows) (simp_all add: voice_fit_def)
  then show ?thesis
    by (rule memory_safe [OF assms(1)])
qed

theorem served_memory_safe_witness:
  "\<exists>s. osc_reach (soft_lib plain_libm no_junk blank_stack False) s \<and> 1 < length (voices s)
     \<and> replay plain_libm no_junk blank_stack False (dsp (voices s ! 1)) \<notin> {Inl BufferOverrun, Inl TableOverrun}"
proof -
  let ?lib = "soft_lib plain_libm no_junk blank_stack False"
  obtain h where h: "new_norns empty_store True (Fin 48000) 2 4 ''duplex'' ''upstream'' = Inr h"
    and w: "host_wf h" "nvoices h = 2"
    by (rule fresh_host)
  obtain s where s: "new_osc True True ''auto'' ''0.0.0.0'' (Some 9999) h = Inr s"
    by (simp add: new_osc_def resolve_backend_def)
  then obtain m where m: "s = norns.extend h m"
    using new_osc_eq by blast
  have r: "osc_reach ?lib s"
    using h s by (intro osc_reach.init [of empty_store]) (simp_all add: empty_store_def)
  have "next_power_of_two 4 = 4"
    by code_simp
  then obtain a1 a2 where "served a1 a2 4 h"
    using new_norns_served [OF h] by (auto simp: empty_store_def)
  then have "length (voices s) = 2" "vframes (voices s ! 1) = 4"
    using host_wf_nvoices [OF w(1)] w(2)
    by (auto simp: m norns.defs served_def host_table_def holds_def dest!: spec [of _ 1])
  then show ?thesis
    using served_memory_safe [OF blank_stack_length r, of 1] r by auto
qed

end
