(* ===== verification/Touch_Layout.thy ===== *)
theory Touch_Layout
  imports Py_Text
begin

text \<open>
  \<open>clients/touchosc/build_layout.py\<close>: the generator of the TouchOSC surface that speaks the
  protocol of the OSC server.

  The surface is assembled by calls of \<open>py2tosc\<close>, a third-party package. A call is recorded, as
  a constructor that holds the arguments the code passes (\<open>control\<close>, \<open>message\<close>, \<open>partial\<close>), and
  nothing is said of what the package makes of it; what \<open>main\<close> learns from the package is an
  argument. The computations of the file itself are modelled: the constant tables, the argument
  texts, names, captions and rest positions, the pages, the checks of \<open>build\<close> and \<open>main\<close>. A
  rest position divides by the width of a fader's range, so building a page may raise.
\<close>

section \<open>Constants\<close>

text \<open>A float literal of the source.\<close>

definition lit :: "rat \<Rightarrow> flt" where
  "lit q = rnd F64 q"

definition DEFAULT_SIZE :: "int \<times> int" where "DEFAULT_SIZE = (1024, 768)"
definition DEFAULT_MAX_TIME :: flt where "DEFAULT_MAX_TIME = lit 32"
definition DEFAULT_RATE :: flt where "DEFAULT_RATE = lit 2"
definition DEFAULT_READ_FILE :: string where "DEFAULT_READ_FILE = ''loop.wav''"
definition DEFAULT_WRITE_FILE :: string where "DEFAULT_WRITE_FILE = ''softcut-out.wav''"

type_synonym span = "flt \<times> flt"

definition UNIT :: span where "UNIT = (Fin 0, Fin 1)"
definition PRE_FC :: span where "PRE_FC = (lit 10, lit 16000)"
definition POST_FC :: span where "POST_FC = (lit 10, lit 12000)"
definition FILTER_RQ :: span where "FILTER_RQ = (lit 0.1, lit 4)"
definition REC_OFFSET :: span where "REC_OFFSET = (lit (- 0.01), lit 0.01)"
definition SLEW :: span where "SLEW = (lit 0, lit 1)"
definition PHASE_QUANT :: span where "PHASE_QUANT = (lit 0, lit 4)"
definition PHASE_OFFSET :: span where "PHASE_OFFSET = (lit (- 1), lit 1)"

definition VOICE_DEFAULTS :: "(string \<times> flt) list" where
  "VOICE_DEFAULTS =
    [(''/set/level/cut'', lit 1), (''/set/pan/cut'', lit 0), (''/set/level/in_cut'', lit 1),
     (''/set/param/cut/rate'', lit 1), (''/set/param/cut/loop_start'', lit 0),
     (''/set/param/cut/loop_end'', lit 0), (''/set/param/cut/position'', lit 0),
     (''/set/param/cut/fade_time'', lit 0.1), (''/set/param/cut/rate_slew_time'', lit 0.001),
     (''/set/param/cut/recpre_slew_time'', lit 0.001), (''/set/param/cut/rec_level'', lit 0),
     (''/set/param/cut/pre_level'', lit 0),
     (''/set/param/cut/rec_offset'', fdiv F64 (lit (- 1)) (lit 6000)),
     (''/set/param/cut/phase_quant'', lit 0), (''/set/param/cut/phase_offset'', lit 0),
     (''/set/param/cut/pre_filter_fc'', lit 16000), (''/set/param/cut/pre_filter_fc_mod'', lit 1),
     (''/set/param/cut/pre_filter_rq'', lit 4), (''/set/param/cut/pre_filter_lp'', lit 1),
     (''/set/param/cut/pre_filter_hp'', lit 0), (''/set/param/cut/pre_filter_bp'', lit 0),
     (''/set/param/cut/pre_filter_br'', lit 0), (''/set/param/cut/pre_filter_dry'', lit 0),
     (''/set/param/cut/post_filter_fc'', lit 12000), (''/set/param/cut/post_filter_rq'', lit 4),
     (''/set/param/cut/post_filter_lp'', lit 0), (''/set/param/cut/post_filter_hp'', lit 0),
     (''/set/param/cut/post_filter_bp'', lit 0), (''/set/param/cut/post_filter_br'', lit 0),
     (''/set/param/cut/post_filter_dry'', lit 1)]"

type_synonym colour = string

definition INK :: colour where "INK = ''#dcdcdc''"
definition DIM :: colour where "DIM = ''#8d8d8d''"
definition PANEL :: colour where "PANEL = ''#151515''"
definition SECTION :: colour where "SECTION = ''#1d1d1d''"
definition LEVEL :: colour where "LEVEL = ''#2a9d8f''"
definition PAN :: colour where "PAN = ''#457b9d''"
definition RATE :: colour where "RATE = ''#e9c46a''"
definition REC :: colour where "REC = ''#e63946''"
definition PLAY :: colour where "PLAY = ''#43aa8b''"
definition LOOP :: colour where "LOOP = ''#9d4edd''"
definition SLEWC :: colour where "SLEWC = ''#577590''"
definition PRE :: colour where "PRE = ''#00b4d8''"
definition POST :: colour where "POST = ''#0077b6''"
definition ROUTE :: colour where "ROUTE = ''#f4a261''"
definition SYNC :: colour where "SYNC = ''#b5838d''"
definition SYSTEM :: colour where "SYSTEM = ''#5c677d''"
definition DANGER :: colour where "DANGER = ''#8d1c26''"

definition LEFT :: int where "LEFT = 1"
definition CENTRE :: int where "CENTRE = 2"

definition ACCENT :: "colour list" where
  "ACCENT = [''#e76f51'', ''#e9c46a'', ''#2a9d8f'', ''#457b9d'', ''#9d4edd'', ''#f4a261'']"

text \<open>\<open>ACCENT[v % len(ACCENT)]\<close>\<close>

definition accent :: "int \<Rightarrow> colour" where
  "accent v = ACCENT ! nat (v mod int (length ACCENT))"

definition CONNECTION :: string where
  "CONNECTION = ''1'' @ replicate 9 CHR ''0''"

section \<open>The calls of py2tosc\<close>

datatype conversion = INTEGER | FLOAT | STRING

text \<open>\<open>ui.const(text, conversion)\<close> and \<open>ui.value(key, conversion, scale)\<close>\<close>

datatype partial = Const string conversion | ScaledValue string conversion flt flt

text \<open>\<open>ui.osc(address, args, ...)\<close>; an option is a keyword that may be left out.\<close>

datatype condition = RISE

record message =
  m_address :: string
  m_args :: "partial list"
  m_on :: "condition option"
  m_send :: "bool option"
  m_receive :: bool
  m_connections :: string

text \<open>\<open>Value(key, default)\<close>\<close>

datatype vdefault = XValue flt | TouchValue bool | TextValue string

datatype padding = NoPad | Pad int | PadXY int int

text \<open>The keywords of \<open>ui.row\<close> and \<open>ui.column\<close>.\<close>

record layout =
  l_sizes :: "flt list option"
  l_gap :: int
  l_pad :: padding
  l_name :: "string option"
  l_color :: "colour option"

text \<open>
  \<open>Label name background outline text_color text_size text_align_h values\<close>;
  \<open>Fader name color orientation outline corner_radius grid_steps interactive values messages\<close>;
  \<open>Button name color button_type outline corner_radius messages\<close>;
  \<open>Labelled control text size\<close>; \<open>Box name color outline\<close>; \<open>Stack children frame name color\<close>;
  \<open>Pager children name color tabbar_size text_size_off text_size_on\<close>.
\<close>

datatype control =
    Label string bool bool colour int int "vdefault list"
  | Fader string colour int bool flt int "bool option" "vdefault list" "message list"
  | Button string colour int bool flt "message list"
  | Labelled control string int
  | Box string colour bool
  | Row "control list" layout
  | Column "control list" layout
  | Stack "control list" "(int \<times> int \<times> int \<times> int) option" "string option" "colour option"
  | Pager "control list" string colour flt int int

text \<open>\<open>Document(root)\<close>, after \<open>resolve()\<close>\<close>

datatype document = Resolved control

section \<open>Message helpers\<close>

definition index_arg :: "int \<Rightarrow> partial" where
  "index_arg n = Const (int_str n) INTEGER"

definition float_arg :: "flt \<Rightarrow> partial" where
  "float_arg x = Const (fmt_g x) FLOAT"

definition string_arg :: "string \<Rightarrow> partial" where
  "string_arg t = Const t STRING"

definition scaled_arg :: "span \<Rightarrow> partial" where
  "scaled_arg sp = ScaledValue ''x'' FLOAT (fst sp) (snd sp)"

definition send :: "string \<Rightarrow> partial list \<Rightarrow> message" where
  "send address args = \<lparr>m_address = address, m_args = args, m_on = None, m_send = None,
     m_receive = False, m_connections = CONNECTION\<rparr>"

definition send_on_press :: "string \<Rightarrow> partial list \<Rightarrow> message" where
  "send_on_press address args = \<lparr>m_address = address, m_args = args, m_on = Some RISE, m_send = None,
     m_receive = False, m_connections = CONNECTION\<rparr>"

definition receive_only :: "string \<Rightarrow> partial list \<Rightarrow> message" where
  "receive_only address args = \<lparr>m_address = address, m_args = args, m_on = None, m_send = Some False,
     m_receive = True, m_connections = CONNECTION\<rparr>"

section \<open>Control helpers\<close>

definition caption :: "string \<Rightarrow> int \<Rightarrow> colour \<Rightarrow> int \<Rightarrow> control" where
  "caption t pt color align =
     Label (if t = [] then ''spacer'' else t) False False color pt align [TextValue t, TouchValue False]"

definition titled :: "control \<Rightarrow> string \<Rightarrow> int \<Rightarrow> flt list \<Rightarrow> control" where
  "titled c t pt sizes =
     Column [caption t pt DIM CENTRE, c]
       \<lparr>l_sizes = Some sizes, l_gap = 2, l_pad = NoPad, l_name = None, l_color = None\<rparr>"

text \<open>\<open>max(a, b)\<close> and \<open>min(a, b)\<close>: the first argument unless the second is beyond it.\<close>

definition py_max :: "flt \<Rightarrow> flt \<Rightarrow> flt" where
  "py_max a b = (if flt_less a b then b else a)"

definition py_min :: "flt \<Rightarrow> flt \<Rightarrow> flt" where
  "py_min a b = (if flt_less b a then b else a)"

definition position_of :: "string \<Rightarrow> span \<Rightarrow> pyexc + flt" where
  "position_of address sp =
     (case map_of VOICE_DEFAULTS address of
        None \<Rightarrow> Inr (Fin 0)
      | Some d \<Rightarrow>
          let (lo, hi) = sp; width = fsub F64 hi lo
          in if feq width (Fin 0) then Inl ZeroDivisionError
             else Inr (py_min (Fin 1) (py_max (Fin 0) (fdiv F64 (fsub F64 d lo) width))))"

text \<open>\<open>_at\<close>\<close>

definition at_value :: "flt \<Rightarrow> vdefault list" where
  "at_value x = [XValue x, TouchValue False]"

definition hfader :: "string \<Rightarrow> colour \<Rightarrow> message list \<Rightarrow> int \<Rightarrow> bool \<Rightarrow> flt \<Rightarrow> control" where
  "hfader name color messages steps interactive rest =
     Fader name color 1 False (lit 2) steps (Some interactive) (at_value rest) messages"

definition vfader :: "string \<Rightarrow> colour \<Rightarrow> message list \<Rightarrow> flt \<Rightarrow> control" where
  "vfader name color messages rest = Fader name color 0 False (lit 2) 11 None (at_value rest) messages"

definition toggle :: "string \<Rightarrow> colour \<Rightarrow> message list \<Rightarrow> string option \<Rightarrow> control" where
  "toggle name color messages t =
     Labelled (Button name color 1 False (lit 2) messages) (case t of Some x \<Rightarrow> x | None \<Rightarrow> name) 13"

definition trigger :: "string \<Rightarrow> colour \<Rightarrow> message list \<Rightarrow> string option \<Rightarrow> control" where
  "trigger name color messages t =
     Labelled (Button name color 0 False (lit 2) messages) (case t of Some x \<Rightarrow> x | None \<Rightarrow> name) 13"

section \<open>Parameter tables\<close>

record param =
  p_label :: string
  p_address :: string
  p_color :: colour
  p_span :: span
  p_toggle :: bool
  p_steps :: int
  p_key :: string
  p_note :: string

text \<open>\<open>Param(label, address, color, span)\<close> and \<open>Param(label, address, color, toggle=True)\<close>\<close>

definition fader_param :: "string \<Rightarrow> string \<Rightarrow> colour \<Rightarrow> span \<Rightarrow> param" where
  "fader_param label address color sp = \<lparr>p_label = label, p_address = address, p_color = color,
     p_span = sp, p_toggle = False, p_steps = 11, p_key = [], p_note = []\<rparr>"

definition toggle_param :: "string \<Rightarrow> string \<Rightarrow> colour \<Rightarrow> param" where
  "toggle_param label address color = \<lparr>p_label = label, p_address = address, p_color = color,
     p_span = UNIT, p_toggle = True, p_steps = 11, p_key = [], p_note = []\<rparr>"

text \<open>\<open>s.replace(' ', '_')\<close>\<close>

definition underscored :: "string \<Rightarrow> string" where
  "underscored = map (\<lambda>c. if c = CHR '' '' then CHR ''_'' else c)"

definition span_text :: "span \<Rightarrow> string" where
  "span_text sp = fmt_g (fst sp) @ ''..'' @ fmt_g (snd sp)"

definition param_caption :: "param \<Rightarrow> string" where
  "param_caption p =
     (let t = (if p_toggle p then p_label p else p_label p @ ''  '' @ span_text (p_span p))
      in if p_note p \<noteq> [] then t @ ''   '' @ p_note p else t)"

text \<open>\<open>[f(v) for v in ...]\<close> where \<open>f\<close> may raise.\<close>

fun eall :: "(pyexc + 'a) list \<Rightarrow> pyexc + 'a list" where
  "eall [] = Inr []"
| "eall (r # rs) = ebind r (\<lambda>a. ebind (eall rs) (\<lambda>as. Inr (a # as)))"

definition param_control :: "param \<Rightarrow> int \<Rightarrow> pyexc + control" where
  "param_control p voice =
     (let name = underscored (if p_key p = [] then p_label p else p_key p) @ int_str (voice + 1);
          message = send (p_address p) [index_arg voice, scaled_arg (p_span p)]
      in if p_toggle p then Inr (toggle name (p_color p) [message] (Some []))
         else ebind (position_of (p_address p) (p_span p)) (\<lambda>rest.
           Inr (hfader name (p_color p) [message] (p_steps p) True rest)))"

text \<open>The layout of a row of voices, and of a page.\<close>

definition voice_layout :: "flt \<Rightarrow> int \<Rightarrow> int \<Rightarrow> string \<Rightarrow> layout" where
  "voice_layout label_width voices gap name =
     \<lparr>l_sizes = Some (label_width # replicate (nat voices) (lit 2)), l_gap = gap, l_pad = NoPad,
      l_name = Some name, l_color = None\<rparr>"

definition page_layout :: "flt list option \<Rightarrow> int \<Rightarrow> int \<times> int \<Rightarrow> string \<Rightarrow> layout" where
  "page_layout sizes gap pad name =
     \<lparr>l_sizes = sizes, l_gap = gap, l_pad = PadXY (fst pad) (snd pad), l_name = Some name, l_color = Some PANEL\<rparr>"

definition group_layout :: "flt list option \<Rightarrow> int \<Rightarrow> string \<Rightarrow> layout" where
  "group_layout sizes gap name =
     \<lparr>l_sizes = sizes, l_gap = gap, l_pad = NoPad, l_name = Some name, l_color = None\<rparr>"

definition param_row :: "param \<Rightarrow> int \<Rightarrow> flt \<Rightarrow> pyexc + control" where
  "param_row p voices label_width =
     ebind (eall (map (param_control p) [0..voices - 1])) (\<lambda>cs.
       Inr (Row (caption (param_caption p) 13 INK LEFT # cs)
         (voice_layout label_width voices 5 (underscored (p_label p)))))"

definition voice_header :: "int \<Rightarrow> flt \<Rightarrow> string \<Rightarrow> control" where
  "voice_header voices label_width t =
     Row (caption t 13 DIM CENTRE
          # map (\<lambda>v. caption (int_str (v + 1)) 16 (accent v) CENTRE) [0..voices - 1])
       (voice_layout label_width voices 5 ''voices'')"

definition param_page :: "string \<Rightarrow> param list \<Rightarrow> int \<Rightarrow> flt \<Rightarrow> pyexc + control" where
  "param_page name params voices label_width =
     ebind (eall (map (\<lambda>p. param_row p voices label_width) params)) (\<lambda>rows.
       Inr (Column (voice_header voices label_width [] # rows)
         (page_layout (Some (lit 1.4 # replicate (length params) (lit 2))) 8 (12, 10) name)))"

section \<open>Pages\<close>

definition strip :: "flt \<Rightarrow> int \<Rightarrow> pyexc + control" where
  "strip rate v =
     (let n = int_str (v + 1); bipolar = (fneg rate, rate)
      in ebind (position_of ''/set/level/cut'' UNIT) (\<lambda>level_at.
         ebind (position_of ''/set/pan/cut'' (lit (- 1), lit 1)) (\<lambda>pan_at.
         ebind (position_of ''/set/param/cut/rate'' bipolar) (\<lambda>rate_at.
           let level = vfader (''level'' @ n) LEVEL
                 [send ''/set/level/cut'' [index_arg v, scaled_arg UNIT]] level_at;
               pan = hfader (''pan'' @ n) PAN
                 [send ''/set/pan/cut'' [index_arg v, scaled_arg (lit (- 1), lit 1)]] 11 True pan_at;
               rate_fader = hfader (''rate'' @ n) RATE
                 [send ''/set/param/cut/rate'' [index_arg v, scaled_arg bipolar]] 11 True rate_at;
               flags = Row
                 [toggle (''play'' @ n) PLAY
                    [send ''/set/param/cut/play_flag'' [index_arg v, scaled_arg UNIT]] (Some ''play''),
                  toggle (''rec'' @ n) REC
                    [send ''/set/param/cut/rec_flag'' [index_arg v, scaled_arg UNIT]] (Some ''rec''),
                  toggle (''loop'' @ n) LOOP
                    [send ''/set/param/cut/loop_flag'' [index_arg v, scaled_arg UNIT]] (Some ''loop'')]
                 (group_layout None 4 (''flags'' @ n))
           in Inr (Column
                [caption (''voice '' @ n) 17 (accent v) CENTRE,
                 titled level ''level'' 11 [lit 1, lit 9],
                 titled pan ''pan'' 11 [lit 1, lit 4],
                 titled rate_fader (''rate  -'' @ fmt_g rate @ ''..'' @ fmt_g rate) 11 [lit 1, lit 4],
                 flags]
                \<lparr>l_sizes = Some [lit 1.1, lit 9, lit 2.2, lit 2.2, lit 2], l_gap = 8, l_pad = Pad 6,
                 l_name = Some (''strip'' @ n), l_color = Some SECTION\<rparr>)))))"

definition mix_page :: "int \<Rightarrow> flt \<Rightarrow> pyexc + control" where
  "mix_page voices rate =
     ebind (eall (map (strip rate) [0..voices - 1])) (\<lambda>strips.
       Inr (Row strips (page_layout None 6 (10, 8) ''mix'')))"

definition loop_page :: "int \<Rightarrow> flt \<Rightarrow> flt \<Rightarrow> pyexc + control" where
  "loop_page voices max_time rate =
     param_page ''loop''
       [toggle_param ''loop'' ''/set/param/cut/loop_flag'' LOOP,
        fader_param ''loop start'' ''/set/param/cut/loop_start'' LOOP (lit 0, max_time),
        fader_param ''loop end'' ''/set/param/cut/loop_end'' LOOP (lit 0, max_time),
        fader_param ''position'' ''/set/param/cut/position'' RATE (lit 0, max_time),
        fader_param ''rate'' ''/set/param/cut/rate'' RATE (fneg rate, rate),
        fader_param ''rate slew'' ''/set/param/cut/rate_slew_time'' SLEWC SLEW,
        fader_param ''fade time'' ''/set/param/cut/fade_time'' SLEWC UNIT]
       voices (lit 3.5)"

definition rec_page :: "int \<Rightarrow> pyexc + control" where
  "rec_page voices =
     param_page ''rec''
       [toggle_param ''rec'' ''/set/param/cut/rec_flag'' REC,
        toggle_param ''play'' ''/set/param/cut/play_flag'' PLAY,
        toggle_param ''rec once'' ''/set/param/cut/rec_once'' REC,
        fader_param ''rec level'' ''/set/param/cut/rec_level'' REC UNIT,
        fader_param ''pre level'' ''/set/param/cut/pre_level'' REC UNIT,
        fader_param ''rec offset'' ''/set/param/cut/rec_offset'' SLEWC REC_OFFSET,
        fader_param ''recpre slew'' ''/set/param/cut/recpre_slew_time'' SLEWC SLEW]
       voices (lit 3.5)"

definition band :: "string \<Rightarrow> string \<Rightarrow> span \<Rightarrow> string \<Rightarrow> param" where
  "band which label sp note =
     \<lparr>p_label = label, p_address = ''/set/param/cut/'' @ which @ ''_filter_'' @ underscored label,
      p_color = (if which = ''pre'' then PRE else POST), p_span = sp, p_toggle = False, p_steps = 11,
      p_key = which @ ''_'' @ label, p_note = note\<rparr>"

definition filter_params :: "string \<Rightarrow> param list" where
  "filter_params which =
     [band which ''fc'' (if which = ''pre'' then PRE_FC else POST_FC) []]
     @ (if which = ''pre'' then [band which ''fc mod'' UNIT []] else [])
     @ [band which ''rq'' FILTER_RQ ''low = resonant'']
     @ map (\<lambda>b. band which b UNIT []) [''lp'', ''hp'', ''bp'', ''br'', ''dry'']"

definition filter_page :: "int \<Rightarrow> string \<Rightarrow> pyexc + control" where
  "filter_page voices which = param_page which (filter_params which) voices (lit 3.5)"

definition matrix_row :: "int \<Rightarrow> (int \<Rightarrow> int \<Rightarrow> control) \<Rightarrow> string \<Rightarrow> flt \<Rightarrow> int \<Rightarrow> control" where
  "matrix_row voices cell name label_width src =
     Row (caption (int_str (src + 1)) 15 (accent src) CENTRE # map (cell src) [0..voices - 1])
       (voice_layout label_width voices 4 (name @ ''_row'' @ int_str (src + 1)))"

definition matrix :: "int \<Rightarrow> (int \<Rightarrow> int \<Rightarrow> control) \<Rightarrow> string \<Rightarrow> flt \<Rightarrow> control" where
  "matrix voices cell name label_width =
     Column (voice_header voices label_width [] # map (matrix_row voices cell name label_width) [0..voices - 1])
       (group_layout (Some (lit 1 # replicate (nat voices) (lit 1.6))) 4 name)"

definition in_cut_control :: "flt \<Rightarrow> int \<Rightarrow> control" where
  "in_cut_control rest v =
     hfader (''in_cut'' @ int_str (v + 1)) ROUTE
       [send ''/set/level/in_cut'' [index_arg 0, index_arg v, scaled_arg UNIT]] 11 True rest"

definition buffer_control :: "int \<Rightarrow> control" where
  "buffer_control v =
     Row (map (\<lambda>b. trigger (''buf'' @ int_str (b + 1) @ ''_'' @ int_str (v + 1)) ROUTE
                [send_on_press ''/set/param/cut/buffer'' [index_arg v, index_arg b]] (Some (int_str (b + 1))))
           [0..1])
       (group_layout None 4 (''buffer'' @ int_str (v + 1)))"

definition feedback_cell :: "int \<Rightarrow> int \<Rightarrow> control" where
  "feedback_cell src dst =
     hfader (''cut_cut'' @ int_str (src + 1) @ ''_'' @ int_str (dst + 1)) ROUTE
       [send ''/set/level/cut_cut'' [index_arg src, index_arg dst, scaled_arg UNIT]] 5 True (lit 0)"

definition routing_page :: "int \<Rightarrow> pyexc + control" where
  "routing_page voices =
     ebind (param_row (toggle_param ''enabled'' ''/set/enabled/cut'' PLAY) voices (lit 3)) (\<lambda>enable_row.
     ebind (eall (map (\<lambda>v. ebind (position_of ''/set/level/in_cut'' UNIT) (\<lambda>rest.
       Inr (in_cut_control rest v))) [0..voices - 1])) (\<lambda>in_controls.
     ebind (param_row (fader_param ''level'' ''/set/level/cut'' LEVEL UNIT) voices (lit 3)) (\<lambda>level_row.
     ebind (param_row (fader_param ''pan'' ''/set/pan/cut'' PAN (lit (- 1), lit 1)) voices (lit 3)) (\<lambda>pan_row.
       Inr (Column
         [voice_header voices (lit 3) [], level_row, pan_row, enable_row,
          Row (caption ''input -> cut  0..1'' 13 INK LEFT # in_controls) (voice_layout (lit 3) voices 5 ''in_cut''),
          Row (caption ''buffer'' 13 INK LEFT # map buffer_control [0..voices - 1])
            (voice_layout (lit 3) voices 5 ''buffer''),
          caption ''cut -> cut feedback   row = source, column = destination'' 13 INK LEFT,
          matrix voices feedback_cell ''cut_cut'' (lit 1.6)]
         (page_layout (Some [lit 1.2, lit 1.6, lit 1.6, lit 1.6, lit 1.6, lit 1.6, lit 1.2, lit 9]) 7 (12, 10)
           ''routing''))))))"

definition phase_control :: "flt \<Rightarrow> int \<Rightarrow> control" where
  "phase_control max_time v =
     hfader (''phase'' @ int_str (v + 1)) (accent v)
       [receive_only ''/poll/softcut/phase'' [index_arg v, scaled_arg (lit 0, max_time)]] 11 False (lit 0)"

definition sync_cell :: "int \<Rightarrow> int \<Rightarrow> control" where
  "sync_cell dst src =
     (let name = ''sync'' @ int_str (dst + 1) @ ''_'' @ int_str (src + 1)
      in if dst = src
         then Stack [Box name PANEL False, caption ''-'' 13 DIM CENTRE] None None None
         else trigger name SYNC
                [send_on_press ''/set/param/cut/voice_sync'' [index_arg dst, index_arg src, float_arg (lit 0)]]
                (Some (int_str (dst + 1) @ '' to '' @ int_str (src + 1))))"

definition poll_row :: control where
  "poll_row =
     Row [trigger ''poll_start'' SYNC [send_on_press ''/poll/start/cut/phase'' []] (Some ''poll on''),
          trigger ''poll_stop'' SYSTEM [send_on_press ''/poll/stop/cut/phase'' []] (Some ''poll off''),
          caption ''phase replies go to the server's reply host and port'' 12 DIM LEFT]
       (group_layout (Some [lit 2, lit 2, lit 7]) 6 ''poll'')"

definition sync_page :: "int \<Rightarrow> flt \<Rightarrow> pyexc + control" where
  "sync_page voices max_time =
     ebind (param_row (fader_param ''phase quant'' ''/set/param/cut/phase_quant'' SYNC PHASE_QUANT) voices (lit 3)) (\<lambda>quant.
     ebind (param_row (fader_param ''phase offset'' ''/set/param/cut/phase_offset'' SYNC PHASE_OFFSET) voices (lit 3)) (\<lambda>offset.
       Inr (Column
         [voice_header voices (lit 3) [], quant, offset,
          Row (caption (''phase  0..'' @ fmt_g max_time) 13 INK LEFT # map (phase_control max_time) [0..voices - 1])
            (voice_layout (lit 3) voices 5 ''phase''),
          poll_row,
          caption ''voice sync   row = voice moved, column = voice followed'' 13 INK LEFT,
          matrix voices sync_cell ''voice_sync'' (lit 1.6)]
         (page_layout (Some [lit 1.2, lit 1.6, lit 1.6, lit 1.6, lit 1.4, lit 1.2, lit 9]) 7 (12, 10) ''sync''))))"

definition clear_buttons :: "flt \<Rightarrow> control list" where
  "clear_buttons max_time =
     [trigger ''clear'' REC [send_on_press ''/softcut/buffer/clear'' []] (Some ''clear both''),
      trigger ''clear1'' REC [send_on_press ''/softcut/buffer/clear_channel'' [index_arg 0]] (Some ''clear 1''),
      trigger ''clear2'' REC [send_on_press ''/softcut/buffer/clear_channel'' [index_arg 1]] (Some ''clear 2''),
      trigger ''clear_region'' REC
        [send_on_press ''/softcut/buffer/clear_region'' [float_arg (lit 0), float_arg max_time]]
        (Some (''clear 0..'' @ fmt_g max_time @ ''s''))]
     @ map (\<lambda>b. trigger (''clear_region'' @ int_str (b + 1)) REC
              [send_on_press ''/softcut/buffer/clear_region_channel''
                 [index_arg b, float_arg (lit 0), float_arg max_time]]
              (Some (''clear '' @ int_str (b + 1) @ '': 0..'' @ fmt_g max_time @ ''s''))) [0..1]"

definition disk_buttons :: "string \<Rightarrow> string \<Rightarrow> control list" where
  "disk_buttons read_file write_file =
     [trigger ''read_mono'' ROUTE
        [send_on_press ''/softcut/buffer/read_mono''
           [string_arg read_file, float_arg (lit 0), float_arg (lit 0), float_arg (lit (- 1)), index_arg 0, index_arg 0]]
        (Some ''read mono''),
      trigger ''read_stereo'' ROUTE
        [send_on_press ''/softcut/buffer/read_stereo''
           [string_arg read_file, float_arg (lit 0), float_arg (lit 0), float_arg (lit (- 1))]]
        (Some ''read stereo''),
      trigger ''write_mono'' ROUTE
        [send_on_press ''/softcut/buffer/write_mono''
           [string_arg write_file, float_arg (lit 0), float_arg (lit (- 1)), index_arg 0]]
        (Some ''write mono''),
      trigger ''write_stereo'' ROUTE
        [send_on_press ''/softcut/buffer/write_stereo''
           [string_arg write_file, float_arg (lit 0), float_arg (lit (- 1))]]
        (Some ''write stereo'')]"

definition lifecycle_buttons :: "control list" where
  "lifecycle_buttons =
     [trigger ''reset'' SYSTEM [send_on_press ''/softcut/reset'' []] (Some ''reset voices''),
      trigger ''hello'' SYSTEM [send_on_press ''/hello'' []] (Some ''hello''),
      trigger ''quit'' DANGER [send_on_press ''/quit'' []] (Some ''quit server'')]"

definition system_page :: "flt \<Rightarrow> string \<Rightarrow> string \<Rightarrow> control" where
  "system_page max_time read_file write_file =
     Column
       [caption ''buffers'' 15 DIM LEFT,
        Row (clear_buttons max_time) (group_layout None 8 ''clears''),
        caption (''disk    read '' @ read_file @ ''    write '' @ write_file) 13 DIM LEFT,
        Row (disk_buttons read_file write_file) (group_layout None 8 ''disk''),
        caption ''server'' 15 DIM LEFT,
        Row lifecycle_buttons (group_layout None 8 ''lifecycle''),
        caption ''reset restores voice parameters and routing; buffer contents are kept'' 12 DIM LEFT]
       (page_layout (Some [lit 1, lit 2.4, lit 1, lit 2.4, lit 1, lit 2.4, lit 1]) 10 (16, 14) ''system'')"

section \<open>The document\<close>

record surface =
  s_voices :: int
  s_size :: "int \<times> int"
  s_max_time :: flt
  s_rate :: flt
  s_read_file :: string
  s_write_file :: string
  s_tabbar_size :: flt

definition default_surface :: surface where
  "default_surface = \<lparr>s_voices = 6, s_size = DEFAULT_SIZE, s_max_time = DEFAULT_MAX_TIME, s_rate = DEFAULT_RATE,
     s_read_file = DEFAULT_READ_FILE, s_write_file = DEFAULT_WRITE_FILE, s_tabbar_size = lit 42\<rparr>"

definition surface_pages :: "surface \<Rightarrow> (pyexc + control) list" where
  "surface_pages o' =
     [mix_page (s_voices o') (s_rate o'), loop_page (s_voices o') (s_max_time o') (s_rate o'),
      rec_page (s_voices o'), filter_page (s_voices o') ''pre'', filter_page (s_voices o') ''post'',
      routing_page (s_voices o'), sync_page (s_voices o') (s_max_time o'),
      Inr (system_page (s_max_time o') (s_read_file o') (s_write_file o'))]"

text \<open>\<open>build(options)\<close>; no options stand for the default ones.\<close>

definition build :: "surface option \<Rightarrow> pyexc + document" where
  "build options =
     (let o' = (case options of Some x \<Rightarrow> x | None \<Rightarrow> default_surface)
      in if \<not> (1 \<le> s_voices o' \<and> s_voices o' \<le> 6) then Inl ValueError
         else ebind (eall (surface_pages o')) (\<lambda>pages.
           Inr (Resolved (Stack [Pager pages ''pages'' PANEL (s_tabbar_size o') 14 14]
             (Some (0, 0, fst (s_size o'), snd (s_size o'))) (Some ''softcut'') (Some PANEL)))))"

section \<open>The command line\<close>

text \<open>\<open>s.split(c)\<close>\<close>

fun split_on :: "char \<Rightarrow> string \<Rightarrow> string list" where
  "split_on c [] = [[]]"
| "split_on c (x # xs) =
     (case split_on c xs of
        [] \<Rightarrow> [[x]]
      | y # ys \<Rightarrow> if x = c then [] # y # ys else (x # y) # ys)"

text \<open>\<open>width, height = (int(n) for n in size.lower().split("x"))\<close>; nothing for a \<open>ValueError\<close>.\<close>

definition parse_size :: "string \<Rightarrow> (int \<times> int) option" where
  "parse_size t =
     (case split_on CHR ''x'' (map lower t) of
        [w, h] \<Rightarrow> (case (parse_int w, parse_int h) of (Inr a, Inr b) \<Rightarrow> Some (a, b) | _ \<Rightarrow> None)
      | _ \<Rightarrow> None)"

text \<open>\<open>path.suffix\<close>, and \<open>path.with_suffix(new)\<close> of a path with a suffix, on the file name.\<close>

definition suffix_of :: "string \<Rightarrow> string" where
  "suffix_of name =
     (let ext = takeWhile (\<lambda>c. c \<noteq> CHR ''.'') (rev name)
      in if ext \<noteq> [] \<and> length ext + 1 < length name then CHR ''.'' # rev ext else [])"

definition with_suffix :: "string \<Rightarrow> string \<Rightarrow> string" where
  "with_suffix name new = take (length name - length (suffix_of name)) name @ new"

record arguments =
  a_output_dir :: "string list"
  a_output_name :: string
  a_no_xml :: bool
  a_voices :: int
  a_size :: string
  a_max_time :: flt
  a_rate :: flt
  a_read_file :: string
  a_write_file :: string

text \<open>
  \<open>main\<close> on parsed arguments: the exit code and the files written, in order (2 is the exit of
  \<open>parser.error\<close>), or the exception it ends with. \<open>validate\<close> is py2tosc's check of a document, a
  list of issues with their level; that the directory can be made and written is assumed.
\<close>

definition main_layout ::
    "(document \<Rightarrow> (string \<times> string) list) \<Rightarrow> arguments \<Rightarrow> pyexc + int \<times> (string list \<times> string) list" where
  "main_layout validate a =
     (case parse_size (a_size a) of
        None \<Rightarrow> Inr (2, [])
      | Some wh \<Rightarrow>
          ebind (build (Some \<lparr>s_voices = a_voices a, s_size = wh, s_max_time = a_max_time a,
              s_rate = a_rate a, s_read_file = a_read_file a, s_write_file = a_write_file a,
              s_tabbar_size = lit 42\<rparr>)) (\<lambda>document.
            if \<exists>issue \<in> set (validate document). fst issue = ''error'' then Inr (1, [])
            else let name = a_output_name a
                 in Inr (0, (a_output_dir a, name)
                      # (if suffix_of name = ''.tosc'' \<and> \<not> a_no_xml a
                         then [(a_output_dir a, with_suffix name ''.xml'')] else []))))"

end
