(* ===== verification/Osc_Messages.thy ===== *)
theory Osc_Messages
  imports Osc_Props
begin

text \<open>
  What single messages do: well-formed ones are handled, short ones are refused without effect,
  and the input level accepts more voice numbers than the protocol has. Then the two phase
  polls, scan by scan.
\<close>

section \<open>Well-formed messages\<close>

text \<open>A number as it comes off the wire.\<close>

fun wire_number :: "pyval \<Rightarrow> bool" where
  "wire_number (VFloat x) = True"
| "wire_number (VInt n) = int32 n"
| "wire_number (VBool b) = True"
| "wire_number _ = False"

text \<open>
  The argument lists the protocol documents for a handler, in a server with \<open>n\<close> voices. Messages
  that name files, resize or may find the command queue full are not listed.
\<close>

fun voice_value :: "int \<Rightarrow> pyval list \<Rightarrow> bool" where
  "voice_value n (VInt v # x # rest) = (0 \<le> v \<and> v < n \<and> wire_number x)"
| "voice_value n _ = False"

fun voices_value :: "int \<Rightarrow> pyval list \<Rightarrow> bool" where
  "voices_value n (VInt v # rest) = (0 \<le> v \<and> v < n \<and> int32 v \<and> voice_value n rest
     \<and> (case rest of VInt w # _ \<Rightarrow> int32 w | _ \<Rightarrow> False))"
| "voices_value n _ = False"

definition well_typed :: "int \<Rightarrow> handler \<Rightarrow> pyval list \<Rightarrow> bool" where
  "well_typed n h args =
     (case h of
        SetVF m \<Rightarrow> voice_value n args
      | SetIIF m \<Rightarrow> voices_value n args
      | InCut \<Rightarrow> args \<noteq> [] \<and> voice_value n (tl args)
      | _ \<Rightarrow> h \<in> {Hello, Quit, PollStart, PollStop, Unsupported, Ignore})"

lemma int32_rat:
  assumes "int32 n"
  shows "rnd F64 (of_int n) = Fin (of_int n)"
  using assms by (intro rnd_rep rep_int) (auto simp: int32_def)

lemma wire_number_float: "wire_number x \<Longrightarrow> \<exists>f. py_float x = Inr f"
  by (cases x rule: wire_number.cases) (simp_all add: float_of_int_def int32_rat)

lemma voice_valueE:
  assumes "voice_value n args"
  obtains v x rest f where "args = VInt v # x # rest" "0 \<le> v" "v < n" "py_float x = Inr f"
proof -
  obtain v x rest where v: "args = VInt v # x # rest" "0 \<le> v" "v < n" "wire_number x"
    using assms by (cases "(n, args)" rule: voice_value.cases) auto
  moreover obtain f where "py_float x = Inr f"
    using wire_number_float [OF v(4)] by blast
  ultimately show ?thesis
    using that by blast
qed

lemma handler_params:
  "list_all (\<lambda>(addr, h). case h of SetVF (VfParam name) \<Rightarrow> name \<in> set (map fst (FLOAT_PARAMS @ BOOL_PARAMS))
     | _ \<Rightarrow> True) build_handlers"
  by code_simp

lemma known_param_ok:
  assumes "map_of build_handlers addr = Some (SetVF (VfParam name))"
    and "nvoices s = int (length (voices s))" "1 \<le> i" "i \<le> nvoices s"
  shows "fst (set_param name i x s) = Inr ()"
proof -
  have "name \<in> set (map fst (FLOAT_PARAMS @ BOOL_PARAMS))"
    using handler_params map_of_SomeD [OF assms(1)] by (auto simp: list_all_iff)
  then have "(\<exists>att. map_of FLOAT_PARAMS name = Some att)
      \<or> map_of FLOAT_PARAMS name = None \<and> (\<exists>att. map_of BOOL_PARAMS name = Some att)"
    by (auto simp: map_of_eq_None_iff dest!: weak_map_of_SomeI)
  then show ?thesis
    using voice_at_ok [OF assms(2-4)]
    by (auto simp: set_param_def float_setter_def bool_setter_def bnd_Inr intro: setters_ok [OF map_of_SomeD])
qed

lemma vf_call_ok:
  assumes "map_of build_handlers addr = Some (SetVF m)"
    and "nvoices s = int (length (voices s))" "1 \<le> i" "i \<le> nvoices s"
  shows "fst (vf_call m i x s) = Inr ()"
proof (cases m)
  case (VfParam name)
  then show ?thesis using known_param_ok [OF _ assms(2-4)] assms(1) by simp
next
  case VfPosition
  then show ?thesis
    using voice_at_ok [OF assms(2-4)] by (simp add: set_position_def cut_to_def bnd_Inr modify_def)
next
  case VfEnabled
  have "(''play'', ''play'') \<in> set BOOL_PARAMS"
    by (simp add: BOOL_PARAMS_def)
  then show ?thesis
    using VfEnabled voice_at_ok [OF assms(2-4)] by (simp add: bool_setter_def bnd_Inr setters_ok)
qed

lemma iif_call_ok:
  assumes "0 \<le> v" "v < int (length (voices s))" "0 \<le> w" "w < int (length (voices s))" "int32 v" "int32 w"
  shows "fst (iif_call lib m (v + 1) (w + 1) x s) = Inr ()"
  using assms
  by (cases m) (simp_all add: level_cut_cut_def feedback_def set_feedback_def check_pair_def
      voice_sync_def sync_def get_voice_def py_index_nonneg cut_to_def py_simps bnd_def)

lemma well_typed_handled:
  assumes "host_wf s" "map_of build_handlers addr = Some h" "well_typed (nvoices s) h args"
  shows "fst (dispatch lib addr args s) = Handled"
proof -
  note nv = host_wf_nvoices [OF assms(1)]
  have "fst (run_handler lib h args s) = Inr ()"
  proof (cases h)
    case (SetVF m)
    then obtain v x rest f where "args = VInt v # x # rest" "0 \<le> v" "v < nvoices s" "py_float x = Inr f"
      using assms(3) by (auto simp: well_typed_def elim: voice_valueE)
    then show ?thesis
      using SetVF vf_call_ok [OF assms(2) [unfolded SetVF] nv, of "v + 1" f]
      by (simp add: v_f_def arg_def py_simps)
  next
    case (SetIIF m)
    then obtain v rest where v: "args = VInt v # rest" "0 \<le> v" "v < nvoices s" "int32 v"
      "voice_value (nvoices s) rest" and c: "case rest of VInt w # _ \<Rightarrow> int32 w | _ \<Rightarrow> False"
      using assms(3) by (cases "(nvoices s, args)" rule: voices_value.cases) (auto simp: well_typed_def)
    obtain w x r f where "rest = VInt w # x # r" "0 \<le> w" "w < nvoices s" "py_float x = Inr f"
      by (rule voice_valueE [OF v(5)])
    then show ?thesis
      using SetIIF v c nv iif_call_ok [of v s w lib m f] by (simp add: ii_f_def arg_def py_simps)
  next
    case InCut
    then obtain c rest where "args = c # rest" "voice_value (nvoices s) rest"
      using assms(3) by (cases args) (auto simp: well_typed_def)
    moreover from this obtain v x r f where "rest = VInt v # x # r" "0 \<le> v" "v < nvoices s" "py_float x = Inr f"
      by (blast elim: voice_valueE)
    moreover have "map_of attr_table ''input_gain'' = Some (MAttr InputGain)"
      by code_simp
    ultimately show ?thesis
      using InCut nv
      by (simp add: on_in_cut_def arg_def py_simps get_voice_def py_index_nonneg bnd_def set_attr_def
          set_mix_def modify_def pyarg_float_def)
  qed (use assms(3) in \<open>simp_all add: well_typed_def py_simps\<close>)
  then show ?thesis
    using assms(2) by (simp add: dispatch_result)
qed

text \<open>C26. Well-formed messages do not go wrong: on a consistent host, a message whose arguments have
  the documented types and whose voices exist is handled, never refused, for every parameter,
  routing, lifecycle and poll address.\<close>

theorem typed_messages_handled:
  assumes "host_wf s" "map_of build_handlers addr = Some h" "well_typed (nvoices s) h args"
  shows "fst (dispatch lib addr args s) = Handled"
  by (rule well_typed_handled [OF assms])

theorem typed_messages_handled_witness:
  "\<exists>s. osc_reach thru_lib s
     \<and> fst (dispatch thru_lib ''/set/param/cut/pre_filter_fc'' [VInt 1, VFloat (Fin 1200)] s) = Handled"
proof -
  obtain s where s: "osc_reach thru_lib s" "host_wf s" "nvoices s = 2"
    by (rule fresh_server [of True]) simp
  have "map_of build_handlers ''/set/param/cut/pre_filter_fc'' = Some (SetVF (VfParam ''pre_filter_fc''))"
    by code_simp
  then have "fst (dispatch thru_lib ''/set/param/cut/pre_filter_fc'' [VInt 1, VFloat (Fin 1200)] s) = Handled"
    by (rule typed_messages_handled [OF s(2)]) (simp add: s(3) well_typed_def)
  then show ?thesis
    using s(1) by blast
qed

section \<open>Short messages\<close>

fun arity :: "handler \<Rightarrow> nat" where
  "arity (SetVF m) = 2"
| "arity (SetIIF m) = 3"
| "arity InCut = 3"
| "arity SetBuffer = 2"
| "arity OnReadMono = 1"
| "arity OnReadStereo = 1"
| "arity OnWriteMono = 1"
| "arity OnWriteStereo = 1"
| "arity OnClearChannel = 1"
| "arity OnClearRegion = 2"
| "arity OnClearRegionChannel = 3"
| "arity _ = 0"

text \<open>A message with fewer arguments than its handler reads is refused: the dispatch logs an
  exception and the state is exactly what it was. Nothing is applied half way.\<close>

theorem short_messages_refused:
  assumes "map_of build_handlers addr = Some h" "length args < arity h"
  shows "\<exists>e. dispatch lib addr args s = (Failed e, s)"
proof -
  have "\<exists>e. run_handler lib h args s = (Inl e, s)"
    using assms(2)
    by (cases h)
      (auto simp: v_f_def ii_f_def on_in_cut_def on_buffer_def on_read_mono_def on_read_stereo_def
        on_write_mono_def on_write_stereo_def on_clear_channel_def on_clear_region_def
        on_clear_region_channel_def arg_path_def arg_def ebind_def py_simps split: sum.split)
  then show ?thesis
    using assms(1) by (auto simp: dispatch_def)
qed

section \<open>The input level\<close>

lemma in_cut_handler: "map_of build_handlers ''/set/level/in_cut'' = Some InCut"
  by code_simp

lemma input_gain_attr: "map_of attr_table ''input_gain'' = Some (MAttr InputGain)"
  by code_simp

text \<open>\<open>/set/level/in_cut\<close> sets the input gain of the voice it names, and of no other, whatever
  input channel it names. It indexes the voice list directly, so besides the voices 0 to n - 1 of
  the protocol it accepts -1 to -n, counted from the last voice; every other number is refused.\<close>

theorem in_cut_voices:
  assumes "py_float x = Inr f" "args = c # VInt v # x # rest"
  shows "(0 \<le> v \<and> v < int (length (voices s)) \<longrightarrow>
       dispatch lib ''/set/level/in_cut'' args s
         = (Handled, upd_voice (nat v) (store_mix InputGain (to_f32 f)) s))
    \<and> (- int (length (voices s)) \<le> v \<and> v < 0 \<longrightarrow>
       dispatch lib ''/set/level/in_cut'' args s
         = dispatch lib ''/set/level/in_cut'' (c # VInt (v + int (length (voices s))) # x # rest) s)
    \<and> (v < - int (length (voices s)) \<or> int (length (voices s)) \<le> v \<longrightarrow>
       dispatch lib ''/set/level/in_cut'' args s = (Failed IndexError, s))"
  using assms
  by (auto simp: dispatch_result in_cut_handler on_in_cut_def arg_def py_simps bnd_def get_voice_def
      py_index_def set_attr_def input_gain_attr set_mix_def modify_def pyarg_float_def)

section \<open>The phase polls\<close>

definition phase_message :: "dsp_lib \<Rightarrow> osc \<Rightarrow> nat \<Rightarrow> string \<times> pyval list" where
  "phase_message lib s i = (PHASE_ADDRESS, [VInt (int i), VFloat (quant_phase lib i s)])"

text \<open>The voices a scan finds changed.\<close>

definition differs :: "dsp_lib \<Rightarrow> osc \<Rightarrow> nat \<Rightarrow> bool" where
  "differs lib s i = phase_changed (quant_phase lib i s) (poll_last s ! i)"

definition changed :: "dsp_lib \<Rightarrow> osc \<Rightarrow> nat list" where
  "changed lib s = filter (differs lib s) [0..<length (poll_last s)]"

lemma quant_phase_poll [simp]:
  "quant_phase lib i (s\<lparr>poll_last := ls, sent := ms\<rparr>) = quant_phase lib i s"
  "quant_phase lib i (s\<lparr>poll_last := ls\<rparr>) = quant_phase lib i s"
  "quant_phase lib i (s\<lparr>sent := ms\<rparr>) = quant_phase lib i s"
  by (simp_all add: quant_phase_def)

definition report :: "dsp_lib \<Rightarrow> nat \<Rightarrow> osc \<Rightarrow> osc" where
  "report lib i s = s\<lparr>sent := sent s @ [phase_message lib s i],
     poll_last := (poll_last s)[i := Some (quant_phase lib i s)]\<rparr>"

lemma poll_voice_runs:
  assumes "i < length (voices s)"
  shows "poll_voice lib up i s =
    (if \<not> phase_changed (quant_phase lib i s) (poll_last s ! i) then (Inr (), s)
     else if up i then (Inr (), report lib i s) else (Inl OSError, s))"
  using assms
  by (simp add: poll_voice_def get_voice_def py_index_nonneg bnd_def gets_def send_message_def
      modify_def ret_def report_def phase_message_def)

lemma report_fields [simp]:
  "voices (report lib i s) = voices s" "length (poll_last (report lib i s)) = length (poll_last s)"
  "quant_phase lib j (report lib i s) = quant_phase lib j s"
  "phase_message lib (report lib i s) j = phase_message lib s j"
  by (simp_all add: report_def phase_message_def quant_phase_def)

lemma report_differs: "j \<noteq> i \<Longrightarrow> differs lib (report lib i s) j = differs lib s j"
  by (simp add: differs_def) (simp add: report_def)

lemma poll_loop:
  assumes "distinct is" "\<forall>i \<in> set is. i < length (voices s) \<and> i < length (poll_last s)"
    and "cs = filter (differs lib s) is"
  shows "for_each is (poll_voice lib up) s
    = (if takeWhile up cs = cs then Inr () else Inl OSError, fold (report lib) (takeWhile up cs) s)"
  using assms
proof (induction "is" arbitrary: s cs)
  case Nil
  then show ?case by (simp add: py_simps)
next
  case (Cons i "is")
  let ?r = "report lib i s"
  have "filter (differs lib ?r) is = filter (differs lib s) is"
    using Cons.prems(1) by (intro filter_cong) (auto intro!: report_differs)
  moreover have i: "i < length (voices s)" and d: "distinct is"
    using Cons.prems by auto
  moreover note Cons.IH [OF d _ refl, of s] Cons.IH [OF d _ refl, of ?r]
  ultimately show ?case
    using Cons.prems by (auto simp: bnd_def poll_voice_runs [OF i] differs_def [of lib s i])
qed

lemma fold_report:
  assumes "distinct is" "\<forall>i \<in> set is. i < length (poll_last s)"
  shows "sent (fold (report lib) is s) = sent s @ map (phase_message lib s) is
    \<and> (\<forall>i < length (poll_last s). poll_last (fold (report lib) is s) ! i
         = (if i \<in> set is then Some (quant_phase lib i s) else poll_last s ! i))"
  using assms
proof (induction "is" arbitrary: s)
  case (Cons i "is")
  then show ?case
    using Cons.IH [of "report lib i s"]
    by (auto simp: report_def [of lib i s] nth_list_update quant_phase_def phase_message_def)
qed simp

lemma poll_once_runs:
  assumes "osc_inv s"
  shows "poll_once lib up s = (if takeWhile up (changed lib s) = changed lib s then Inr () else Inl OSError,
      fold (report lib) (takeWhile up (changed lib s)) s)"
  using poll_loop [of "[0..<length (poll_last s)]" s _ lib up] assms
  by (simp add: poll_once_def py_simps changed_def osc_inv_def)

text \<open>C32. A scan of the Python poll reports exactly the changed voices, in order and with their
  phases, up to the first reply that cannot be sent; then it raises. Exactly the reported phases
  are remembered, so a voice whose reply failed, and those after it, are reported by the next
  scan, and the host is untouched.\<close>

theorem poll_reports_changes:
  assumes "osc_inv s" "ok = takeWhile up (changed lib s)"
  shows "\<exists>r t. poll_once lib up s = (r, t)
    \<and> r = (if ok = changed lib s then Inr () else Inl OSError)
    \<and> sent t = sent s @ map (phase_message lib s) ok
    \<and> (\<forall>i < length (voices s). poll_last t ! i
         = (if i \<in> set ok then Some (quant_phase lib i s) else poll_last s ! i))
    \<and> norns.truncate t = norns.truncate s"
proof -
  let ?t = "fold (report lib) ok s"
  have len: "length (poll_last s) = length (voices s)"
    using assms(1) by (simp add: osc_inv_def)
  have ok: "distinct ok" "\<forall>i \<in> set ok. i < length (poll_last s)"
    unfolding assms(2) by (auto simp: changed_def dest!: set_takeWhileD)
  have run: "poll_once lib up s = (if ok = changed lib s then Inr () else Inl OSError, ?t)"
    unfolding assms(2) by (rule poll_once_runs [OF assms(1)])
  moreover have "norns.truncate ?t = norns.truncate s"
    using keepsD [OF poll_once_frame poll_frame_refl, of s lib up] run by (simp add: poll_frame_def)
  ultimately show ?thesis
    using fold_report [OF ok, of lib] len by auto
qed

theorem poll_reports_changes_witness:
  "\<exists>s r t. osc_reach thru_lib s \<and> poll_once thru_lib (\<lambda>i. i < 1) s = (r, t) \<and> r = Inl OSError
     \<and> sent t = [phase_message thru_lib s 0]"
proof -
  obtain s where s: "osc_reach thru_lib s" "host_wf s" "nvoices s = 2" "\<not> running s" "device_ok s"
    "obackend s = PythonOsc" "poll_last s = [None, None]" "sent s = []"
    by (rule fresh_server [of False]) simp
  have ch: "changed thru_lib s = [0, 1]"
    using s(7) by (simp add: changed_def differs_def phase_changed_def upt_rec)
  show ?thesis
    using poll_reports_changes [OF osc_reach_inv [OF lib_ok_thru s(1)] refl, of thru_lib "\<lambda>i. i < 1"] s(1,8)
    unfolding ch by (intro exI [of _ s]) auto
qed

lemma scan_voice_same: "\<not> differs lib s i \<Longrightarrow> scan_voice lib up i s = s"
  by (simp add: scan_voice_def differs_def Let_def)

lemma scan_voice_fields [simp]:
  "length (poll_last (scan_voice lib up i s)) = length (poll_last s)"
  "quant_phase lib j (scan_voice lib up i s) = quant_phase lib j s"
  by (simp_all add: scan_voice_def Let_def)

lemma scan_voice_settles:
  assumes "i < length (poll_last s)" "quant_phase lib i s \<noteq> NaN"
  shows "\<not> differs lib (scan_voice lib up i s) i"
  using assms
  by (auto simp: differs_def) (auto simp: scan_voice_def Let_def phase_changed_def feq_def split: option.splits if_splits)

lemma scan_voice_stays: "\<not> differs lib s j \<Longrightarrow> \<not> differs lib (scan_voice lib up i s) j"
  by (cases "i = j") (simp_all add: scan_voice_same, simp add: differs_def, simp add: scan_voice_def Let_def)

lemma scan_settles:
  assumes "\<forall>i \<in> set is. i < length (poll_last s) \<and> quant_phase lib i s \<noteq> NaN"
    and "\<forall>i \<in> D. \<not> differs lib s i"
  shows "\<forall>i \<in> D \<union> set is. \<not> differs lib (fold (scan_voice lib up) is s) i"
  using assms
proof (induction "is" arbitrary: s D)
  case (Cons i "is")
  let ?s = "scan_voice lib up i s"
  have "\<forall>j \<in> insert i D. \<not> differs lib ?s j"
    using Cons.prems scan_voice_settles [of i s lib up] scan_voice_stays by auto
  then show ?case
    using Cons.IH [of ?s "insert i D"] Cons.prems(1) by simp
qed simp

lemma scan_down_sent: "sent (fold (scan_voice lib (\<lambda>_. False)) is s) = sent s"
  by (induction "is" arbitrary: s) (simp_all add: scan_voice_def Let_def)

lemma fold_scan_same:
  assumes "\<forall>i \<in> set is. \<not> differs lib s i"
  shows "fold (scan_voice lib up) is s = s"
  using assms by (induction "is") (simp_all add: scan_voice_same)

lemma fold_scan_length: "length (poll_last (fold (scan_voice lib up) is s)) = length (poll_last s)"
  by (induction "is" arbitrary: s) simp_all

text \<open>The native poll is no drop-in for the Python one when replies get lost. After a scan none of
  whose replies went out, the next scan of the Python poll reports every change, and the next scan
  of the native poll reports nothing: it remembers a phase before sending it.\<close>

theorem lost_replies:
  assumes "osc_inv s" "\<forall>i < length (voices s). quant_phase lib i s \<noteq> NaN"
  shows "sent (snd (poll_once lib (\<lambda>_. True) (snd (poll_once lib (\<lambda>_. False) s))))
      = sent s @ map (phase_message lib s) (changed lib s)
    \<and> sent (scan_locked lib up (scan_locked lib (\<lambda>_. False) s)) = sent s"
proof -
  have len: "length (poll_last s) = length (voices s)"
    using assms(1) by (simp add: osc_inv_def)
  have none: "takeWhile (\<lambda>_. False) xs = []" and all: "takeWhile (\<lambda>_. True) xs = xs" for xs :: "nat list"
    by (cases xs) simp_all
  have c: "distinct (changed lib s)" "\<forall>i \<in> set (changed lib s). i < length (poll_last s)"
    by (auto simp: changed_def)
  have py: "sent (snd (poll_once lib (\<lambda>_. True) (snd (poll_once lib (\<lambda>_. False) s))))
      = sent s @ map (phase_message lib s) (changed lib s)"
    using fold_report [OF c, of lib] by (simp add: poll_once_runs [OF assms(1)] none all)
  let ?t = "scan_locked lib (\<lambda>_. False) s"
  have t: "\<forall>i \<in> set [0..<length (poll_last s)]. \<not> differs lib ?t i" "length (poll_last ?t) = length (poll_last s)"
    using scan_settles [of "[0..<length (poll_last s)]" s lib "{}" "\<lambda>_. False"] assms(2) len
    by (auto simp: scan_locked_def fold_scan_length)
  then have "scan_locked lib up ?t = ?t"
    unfolding scan_locked_def [of lib up ?t] by (intro fold_scan_same) simp
  then have "sent (scan_locked lib up ?t) = sent s"
    by (simp add: scan_locked_def scan_down_sent)
  with py show ?thesis by blast
qed


end
