(* ===== verification/Touch_Props.thy ===== *)
theory Touch_Props
  imports Touch_Layout Osc_Messages
begin

text \<open>
  What the generated TouchOSC surface guarantees: when it can be built, that its rest positions
  are positions and show the engine's own defaults, that every row and column has a size per
  child, and that every message it sends is one the OSC server handles.
\<close>

section \<open>Raising loops\<close>

lemma eall_Inr: "eall rs = Inr xs \<longleftrightarrow> rs = map Inr xs"
  by (induction rs arbitrary: xs) (auto simp: ebind_eq_Inr)

lemma eall_map_ok: "(\<And>x. x \<in> set xs \<Longrightarrow> f x = Inr (g x)) \<Longrightarrow> eall (map f xs) = Inr (map g xs)"
  by (simp add: eall_Inr)

lemma eall_mapD:
  assumes "eall (map f xs) = Inr ys"
  shows "length ys = length xs" "y \<in> set ys \<Longrightarrow> \<exists>x \<in> set xs. f x = Inr y"
proof -
  have e: "map f xs = map Inr ys"
    using assms by (simp add: eall_Inr)
  then show "length ys = length xs"
    by (metis length_map)
  show "\<exists>x \<in> set xs. f x = Inr y" if "y \<in> set ys"
    using e that by (metis imageE image_eqI list.set_map)
qed

section \<open>Rest positions\<close>

text \<open>A fader rests inside its travel: the rest position of every address on every range,
  infinite and reversed ranges and ranges that miss the engine's default included, is a finite
  number between 0 and 1. The one failure is a range of width zero for a parameter with a known
  default, a division by zero.\<close>

theorem position_in_travel:
  "(\<exists>p. position_of address (lo, hi) = Inr (Fin p) \<and> 0 \<le> p \<and> p \<le> 1)
   \<or> (position_of address (lo, hi) = Inl ZeroDivisionError
      \<and> feq (fsub F64 hi lo) (Fin 0) \<and> address \<in> fst ` set VOICE_DEFAULTS)"
proof (cases "map_of VOICE_DEFAULTS address")
  case None
  then show ?thesis by (simp add: position_of_def)
next
  case (Some d)
  have "\<exists>p. py_min (Fin 1) (py_max (Fin 0) x) = Fin p \<and> 0 \<le> p \<and> p \<le> 1" for x
    by (cases x) (auto simp: py_min_def py_max_def)
  moreover have "address \<in> fst ` set VOICE_DEFAULTS"
    using map_of_SomeD [OF Some] by force
  ultimately show ?thesis
    using Some by (auto simp: position_of_def Let_def)
qed

section \<open>When the surface can be built\<close>

lemma rnd_nonzero:
  assumes "representable f q" "0 < q" "q \<le> x"
  shows "rnd f x \<noteq> Fin 0" "rnd f (- x) \<noteq> Fin 0"
proof -
  have "q \<le> rnd_to (prec f) (emin f) x"
    using ff.rnd_to_mono [OF assms(3), of f] assms(1) by (simp add: rep_iff)
  then show "rnd f x \<noteq> Fin 0" "rnd f (- x) \<noteq> Fin 0"
    using assms(2) by (auto simp: rnd_def Let_def rnd_to_minus)
qed

lemma width_zero_iff:
  assumes "is_flt F64 x"
  shows "feq (fsub F64 x (Fin 0)) (Fin 0) \<longleftrightarrow> x = Fin 0"
    and "feq (fsub F64 x (fneg x)) (Fin 0) \<longleftrightarrow> x = Fin 0"
proof -
  have *: "rnd F64 (2 * q) \<noteq> Fin 0" if "representable F64 q" "q \<noteq> 0" for q
  proof (cases "0 < q")
    case True
    then show ?thesis using rnd_nonzero(1) [OF that(1), of "2 * q"] by simp
  next
    case False
    then show ?thesis
      using rnd_nonzero(2) [of F64 "- q" "- (2 * q)"] that by (simp add: rep_minus)
  qed
  show "feq (fsub F64 x (Fin 0)) (Fin 0) \<longleftrightarrow> x = Fin 0"
    using assms by (cases x) (auto simp: is_flt_def rnd_rep fsub_def feq_def)
  show "feq (fsub F64 x (fneg x)) (Fin 0) \<longleftrightarrow> x = Fin 0"
    using assms * by (cases x) (auto simp: is_flt_def fsub_def feq_def)
qed

text \<open>\<open>fails_if b r\<close>: the computation divides by zero if \<open>b\<close>, and has a result otherwise.\<close>

definition fails_if :: "bool \<Rightarrow> pyexc + 'a \<Rightarrow> bool" where
  "fails_if b r \<longleftrightarrow> (if b then r = Inl ZeroDivisionError else (\<exists>x. r = Inr x))"

named_theorems fails_intro \<open>when a computation of the layout fails\<close>

lemma fails_Inr [fails_intro]: "fails_if False (Inr x)"
  by (simp add: fails_if_def)

lemma fails_bind [fails_intro]:
  "fails_if a r \<Longrightarrow> (\<And>x. fails_if b (k x)) \<Longrightarrow> fails_if (a \<or> b) (ebind r k)"
  by (auto simp: fails_if_def split: if_splits)

lemma fails_eall [fails_intro]:
  "(\<And>x. fails_if (P x) (f x)) \<Longrightarrow> fails_if (\<exists>x \<in> set xs. P x) (eall (map f xs))"
proof (induction xs)
  case (Cons x xs)
  then show ?case
    by (cases "P x") (fastforce simp: fails_if_def split: if_splits)+
qed (simp add: fails_if_def)

definition flat :: "string \<Rightarrow> span \<Rightarrow> bool" where
  "flat address sp \<longleftrightarrow> map_of VOICE_DEFAULTS address \<noteq> None \<and> feq (fsub F64 (snd sp) (fst sp)) (Fin 0)"

lemma fails_position [fails_intro]: "fails_if (flat address sp) (position_of address sp)"
  by (cases sp) (auto simp: fails_if_def flat_def position_of_def Let_def split: option.split)

lemma fails_param_control [fails_intro]:
  "fails_if (\<not> p_toggle p \<and> flat (p_address p) (p_span p)) (param_control p v)"
  using fails_position [of "p_address p" "p_span p"]
  by (auto simp: param_control_def Let_def fails_if_def split: if_splits)

lemma fails_param_row [fails_intro]:
  assumes "1 \<le> n"
  shows "fails_if (\<not> p_toggle p \<and> flat (p_address p) (p_span p)) (param_row p n lw)"
proof -
  have "[0..n - 1] \<noteq> []" using assms by simp
  then have "(\<exists>v \<in> set [0..n - 1]. \<not> p_toggle p \<and> flat (p_address p) (p_span p))
      \<longleftrightarrow> \<not> p_toggle p \<and> flat (p_address p) (p_span p)"
    by (metis last_in_set)
  then have "fails_if ((\<not> p_toggle p \<and> flat (p_address p) (p_span p)) \<or> False) (param_row p n lw)"
    unfolding param_row_def
    using fails_eall [of "\<lambda>_. \<not> p_toggle p \<and> flat (p_address p) (p_span p)" "param_control p" "[0..n - 1]",
        OF fails_param_control]
    by (intro fails_bind fails_Inr) simp
  then show ?thesis by simp
qed

lemma fails_param_page:
  assumes "1 \<le> n"
  shows "fails_if (\<exists>p \<in> set ps. \<not> p_toggle p \<and> flat (p_address p) (p_span p)) (param_page name ps n lw)"
proof -
  have "fails_if ((\<exists>p \<in> set ps. \<not> p_toggle p \<and> flat (p_address p) (p_span p)) \<or> False)
      (param_page name ps n lw)"
    unfolding param_page_def by (intro fails_intro assms)
  then show ?thesis by simp
qed

text \<open>No range that is a constant of the file is flat.\<close>

lemma default_addresses:
  "map fst VOICE_DEFAULTS =
    [''/set/level/cut'', ''/set/pan/cut'', ''/set/level/in_cut'', ''/set/param/cut/rate'',
     ''/set/param/cut/loop_start'', ''/set/param/cut/loop_end'', ''/set/param/cut/position'',
     ''/set/param/cut/fade_time'', ''/set/param/cut/rate_slew_time'', ''/set/param/cut/recpre_slew_time'',
     ''/set/param/cut/rec_level'', ''/set/param/cut/pre_level'', ''/set/param/cut/rec_offset'',
     ''/set/param/cut/phase_quant'', ''/set/param/cut/phase_offset'', ''/set/param/cut/pre_filter_fc'',
     ''/set/param/cut/pre_filter_fc_mod'', ''/set/param/cut/pre_filter_rq'', ''/set/param/cut/pre_filter_lp'',
     ''/set/param/cut/pre_filter_hp'', ''/set/param/cut/pre_filter_bp'', ''/set/param/cut/pre_filter_br'',
     ''/set/param/cut/pre_filter_dry'', ''/set/param/cut/post_filter_fc'', ''/set/param/cut/post_filter_rq'',
     ''/set/param/cut/post_filter_lp'', ''/set/param/cut/post_filter_hp'', ''/set/param/cut/post_filter_bp'',
     ''/set/param/cut/post_filter_br'', ''/set/param/cut/post_filter_dry'']"
  by (simp only: VOICE_DEFAULTS_def list.map fst_conv)

lemma known_default: "map_of VOICE_DEFAULTS a \<noteq> None \<longleftrightarrow> a \<in> set (map fst VOICE_DEFAULTS)"
  by (simp add: map_of_eq_None_iff)

lemma lit_int: "\<bar>k\<bar> \<le> 2 ^ 53 \<Longrightarrow> lit (of_int k) = Fin (of_int k)"
  by (simp add: lit_def rnd_rep rep_int)

lemma lit_unit [simp]: "lit 0 = Fin 0" "lit 1 = Fin 1"
  using lit_int [of 0] lit_int [of 1] by simp_all

lemma span_not_flat:
  assumes "a \<le> of_int i" "i < j" "of_int j \<le> b" "\<bar>i\<bar> < 2 ^ 52" "\<bar>j\<bar> < 2 ^ 52"
    and "representable F64 lo" "lo \<le> a" "representable F64 hi" "b \<le> hi"
  shows "\<not> flat addr (lit a, lit b)"
proof -
  have r: "representable F64 (of_int k)" if "\<bar>k\<bar> < 2 ^ 53" for k
    using that by (intro rep_int) simp
  obtain p where p: "lit a = Fin p" "p \<le> of_int i"
    using rnd_Fin_bounds [OF assms(6) r assms(7,1)] assms(4) by (auto simp: lit_def)
  obtain q where q: "lit b = Fin q" "of_int j \<le> q"
    using rnd_Fin_bounds [OF r assms(8,3,9)] assms(5) by (auto simp: lit_def)
  have "\<bar>j - i\<bar> < 2 ^ 53" using assms(4,5) by simp
  moreover have "(of_int (j - i) :: rat) \<le> q - p" using p(2) q(2) by simp
  ultimately have "rnd F64 (q - p) \<noteq> Fin 0"
    using rnd_nonzero(1) [OF r, of "j - i" "q - p"] assms(2) by simp
  then show ?thesis
    using p q by (simp add: flat_def feq_def)
qed

lemma lit_small: "lit 0.01 \<noteq> Fin 0" "lit (- 0.01) = fneg (lit 0.01)"
proof -
  have "representable F64 (1 / 128)"
    using rep_dyadic [of 1 F64 "- 7"] by (simp add: power_int_minus)
  then show "lit 0.01 \<noteq> Fin 0"
    using rnd_nonzero(1) [of F64 "1 / 128" "0.01"] by (simp add: lit_def)
  show "lit (- 0.01) = fneg (lit 0.01)"
    using rnd_to_minus [of "prec F64" "emin F64" "0.01"] by (auto simp: lit_def rnd_def Let_def)
qed

lemma flat_fixed [simp]:
  "\<not> flat a UNIT" "\<not> flat a PRE_FC" "\<not> flat a POST_FC" "\<not> flat a FILTER_RQ"
  "\<not> flat a SLEW" "\<not> flat a PHASE_QUANT" "\<not> flat a PHASE_OFFSET" "\<not> flat a (lit (- 1), Fin 1)"
proof -
  have r: "representable F64 (numeral k)" if "(numeral k :: int) < 2 ^ 53" for k
    using rep_int [of "numeral k" F64] that by simp
  have m: "representable F64 (- 1)" "representable F64 1"
    using rep_int [of "- 1" F64] rep_int [of 1 F64] by simp_all
  show "\<not> flat a FILTER_RQ"
    unfolding FILTER_RQ_def by (rule span_not_flat [of _ 1 4 _ 0 4]) (simp_all add: r)
  show "\<not> flat a PRE_FC" "\<not> flat a POST_FC"
    unfolding PRE_FC_def POST_FC_def
    by (rule span_not_flat [of _ 10 12000 _ 10 16000], simp_all add: r)+
  show "\<not> flat a PHASE_QUANT"
    unfolding PHASE_QUANT_def by (rule span_not_flat [of _ 0 4 _ 0 4]) (simp_all add: r)
  show "\<not> flat a (lit (- 1), Fin 1)" "\<not> flat a PHASE_OFFSET"
    using span_not_flat [of "- 1" 0 1 1 "- 1" 1 a] m by (simp_all add: PHASE_OFFSET_def)
  show "\<not> flat a UNIT" "\<not> flat a SLEW"
    by (simp_all add: UNIT_def SLEW_def flat_def m rnd_rep)
qed

lemma flat_rec_offset [simp]: "\<not> flat a REC_OFFSET"
  using width_zero_iff(2) [of "lit 0.01"] lit_small
  by (simp add: flat_def REC_OFFSET_def lit_def)

lemma flat_open:
  assumes "is_flt F64 x"
  shows "flat ''/set/param/cut/rate'' (fneg x, x) \<longleftrightarrow> x = Fin 0"
    "flat ''/set/param/cut/loop_start'' (Fin 0, x) \<longleftrightarrow> x = Fin 0"
    "flat ''/set/param/cut/loop_end'' (Fin 0, x) \<longleftrightarrow> x = Fin 0"
    "flat ''/set/param/cut/position'' (Fin 0, x) \<longleftrightarrow> x = Fin 0"
  using width_zero_iff [OF assms] unfolding flat_def known_default default_addresses by simp_all

lemma fails_cong: "fails_if a r \<Longrightarrow> a = b \<Longrightarrow> fails_if b r"
  by simp

lemma page_fails:
  assumes "1 \<le> n" "is_flt F64 rate" "is_flt F64 time"
  shows "fails_if (rate = Fin 0) (mix_page n rate)"
    "fails_if (time = Fin 0 \<or> rate = Fin 0) (loop_page n time rate)"
    "fails_if False (rec_page n)" "fails_if False (filter_page n which)"
    "fails_if False (routing_page n)" "fails_if False (sync_page n time)"
proof -
  have strip: "fails_if (rate = Fin 0) (strip rate v)" for v
  proof -
    have "fails_if (flat ''/set/level/cut'' UNIT \<or> flat ''/set/pan/cut'' (lit (- 1), lit 1)
        \<or> flat ''/set/param/cut/rate'' (fneg rate, rate) \<or> False) (strip rate v)"
      unfolding strip_def Let_def by (intro fails_bind fails_position fails_Inr)
    then show ?thesis using flat_open(1) [OF assms(2)] by simp
  qed
  have "fails_if ((\<exists>v \<in> set [0..n - 1]. rate = Fin 0) \<or> False) (mix_page n rate)"
    unfolding mix_page_def by (intro fails_intro strip)
  then show "fails_if (rate = Fin 0) (mix_page n rate)"
    by (rule fails_cong) (use assms(1) in \<open>auto intro: bexI [of _ 0]\<close>)
  show "fails_if (time = Fin 0 \<or> rate = Fin 0) (loop_page n time rate)"
    unfolding loop_page_def
    by (rule fails_cong [OF fails_param_page [OF assms(1)]])
      (auto simp: fader_param_def toggle_param_def flat_open [OF assms(2)] flat_open [OF assms(3)])
  show "fails_if False (rec_page n)"
    unfolding rec_page_def
    by (rule fails_cong [OF fails_param_page [OF assms(1)]]) (simp add: fader_param_def toggle_param_def)
  show "fails_if False (filter_page n which)"
    unfolding filter_page_def
    by (rule fails_cong [OF fails_param_page [OF assms(1)]]) (auto simp: filter_params_def band_def)
  have fp: "fails_if False (param_row (fader_param l a c sp) n lw)" if "\<not> flat a sp" for l a c sp lw
    by (rule fails_cong [OF fails_param_row [OF assms(1)]]) (simp add: fader_param_def that)
  have tp: "fails_if False (param_row (toggle_param l a c) n lw)" for l a c lw
    by (rule fails_cong [OF fails_param_row [OF assms(1)]]) (simp add: toggle_param_def)
  have "fails_if (False \<or> (\<exists>v \<in> set [0..n - 1]. flat ''/set/level/in_cut'' UNIT \<or> False) \<or> False \<or> False \<or> False)
      (routing_page n)"
    unfolding routing_page_def by (intro fails_intro fp tp) simp_all
  then show "fails_if False (routing_page n)"
    by simp
  have "fails_if (False \<or> False \<or> False) (sync_page n time)"
    unfolding sync_page_def by (intro fails_bind fails_Inr fp) simp_all
  then show "fails_if False (sync_page n time)"
    by simp
qed

lemma fails_Cons: "fails_if a r \<Longrightarrow> fails_if b (eall rs) \<Longrightarrow> fails_if (a \<or> b) (eall (r # rs))"
  by (auto simp: fails_if_def split: if_splits)

text \<open>The surface is built for 1 to 6 voices and refused with a \<open>ValueError\<close> for any other number.
  Two more inputs fail, though nothing checks them: a rate span or a maximal time of 0 ends in a
  division by zero, when the rest position on the empty range is computed. Every other rate and
  time, negative and infinite ones included, gives a document.\<close>

theorem build_succeeds_iff:
  assumes "is_flt F64 (s_rate opts)" "is_flt F64 (s_max_time opts)"
  shows "\<exists>d. build (Some opts) =
    (if s_voices opts < 1 \<or> 6 < s_voices opts then Inl ValueError
     else if s_rate opts = Fin 0 \<or> s_max_time opts = Fin 0 then Inl ZeroDivisionError
     else Inr (Resolved d))"
proof (cases "1 \<le> s_voices opts \<and> s_voices opts \<le> 6")
  case True
  let ?b = "s_rate opts = Fin 0 \<or> s_max_time opts = Fin 0"
  have "fails_if (s_rate opts = Fin 0 \<or> (s_max_time opts = Fin 0 \<or> s_rate opts = Fin 0) \<or> False \<or> False
      \<or> False \<or> False \<or> False \<or> False \<or> False) (eall (surface_pages opts))"
    unfolding surface_pages_def using page_fails [OF True [THEN conjunct1] assms]
    by (intro fails_Cons) (simp_all add: fails_if_def)
  then have "fails_if ?b (eall (surface_pages opts))"
    by (rule fails_cong) blast
  then show ?thesis
    using True by (auto simp: build_def Let_def fails_if_def)
next
  case False
  then show ?thesis
    by (auto simp: build_def Let_def)
qed


section \<open>Sizes and children\<close>

text \<open>Every row and column that has sizes has one per child.\<close>

fun well_laid :: "control \<Rightarrow> bool" where
  "well_laid (Labelled c t k) = well_laid c"
| "well_laid (Row cs l) = ((case l_sizes l of None \<Rightarrow> True | Some ss \<Rightarrow> length ss = length cs)
     \<and> list_all well_laid cs)"
| "well_laid (Column cs l) = ((case l_sizes l of None \<Rightarrow> True | Some ss \<Rightarrow> length ss = length cs)
     \<and> list_all well_laid cs)"
| "well_laid (Stack cs f nm cl) = list_all well_laid cs"
| "well_laid (Pager cs nm cl tb a b) = list_all well_laid cs"
| "well_laid _ = True"

text \<open>The messages of a control and of everything in it.\<close>

fun msgs :: "control \<Rightarrow> message list" where
  "msgs (Fader nm cl orn ol rad st act vs ms) = ms"
| "msgs (Button nm cl ty ol rad ms) = ms"
| "msgs (Labelled c t k) = msgs c"
| "msgs (Row cs l) = concat (map msgs cs)"
| "msgs (Column cs l) = concat (map msgs cs)"
| "msgs (Stack cs f nm cl) = concat (map msgs cs)"
| "msgs (Pager cs nm cl tb a b) = concat (map msgs cs)"
| "msgs _ = []"

section \<open>Every message is understood\<close>

text \<open>
  The values an argument of the surface can carry on the wire: a constant is converted from its
  text, and the control's own value is some float.
\<close>

fun carries :: "partial \<Rightarrow> pyval \<Rightarrow> bool" where
  "carries (Const t INTEGER) v = (\<exists>i. parse_int t = Inr i \<and> v = VInt i)"
| "carries (Const t FLOAT) v = (\<exists>x. v = VFloat x)"
| "carries (Const t STRING) v = (v = VStr t)"
| "carries (ScaledValue key INTEGER lo hi) v = (\<exists>i. v = VInt i)"
| "carries (ScaledValue key FLOAT lo hi) v = (\<exists>x. v = VFloat x)"
| "carries (ScaledValue key STRING lo hi) v = (\<exists>t. v = VStr t)"

lemma carries_args [simp]:
  "carries (float_arg x) v \<longleftrightarrow> (\<exists>y. v = VFloat y)" "carries (string_arg t) v \<longleftrightarrow> v = VStr t"
  "carries (scaled_arg sp) v \<longleftrightarrow> (\<exists>y. v = VFloat y)"
  by (simp_all add: float_arg_def string_arg_def scaled_arg_def)

lemma carries_index [simp]:
  assumes "0 \<le> i" "i < 10"
  shows "carries (index_arg i) v \<longleftrightarrow> v = VInt i"
proof -
  have "length (int_str i) \<le> 4300"
    using assms by (simp add: int_str_def nat_str.simps)
  then show ?thesis
    by (auto simp: index_arg_def parse_int_str)
qed

text \<open>
  A message a server with \<open>n\<close> voices understands: its address has a handler, and its arguments are
  the documented ones, or enough of them where the handler may still fail on files or a full queue.
\<close>

definition fallible :: "handler list" where
  "fallible = [SetBuffer, OnReadMono, OnReadStereo, OnWriteMono, OnWriteStereo, OnClear, OnClearChannel,
     OnClearRegion, OnClearRegionChannel, OnReset]"

text \<open>The value of a control goes out as a float.\<close>

fun scaled_float :: "partial \<Rightarrow> bool" where
  "scaled_float (Const t conv) = True"
| "scaled_float (ScaledValue key conv lo hi) = (conv = FLOAT)"

lemma scaled_float_args [simp]:
  "scaled_float (index_arg i)" "scaled_float (float_arg x)" "scaled_float (string_arg t)" "scaled_float (scaled_arg sp)"
  by (simp_all add: index_arg_def float_arg_def string_arg_def scaled_arg_def)

definition understood :: "int \<Rightarrow> message \<Rightarrow> bool" where
  "understood n m \<longleftrightarrow> list_all scaled_float (m_args m) \<and> (\<exists>h. map_of build_handlers (m_address m) = Some h
     \<and> (\<forall>vs. list_all2 carries (m_args m) vs \<longrightarrow>
          well_typed n h vs \<or> (h \<in> set fallible \<and> arity h \<le> length vs)))"

text \<open>A message of the surface is sent and understood, or is only listened to.\<close>

definition fine :: "int \<Rightarrow> message \<Rightarrow> bool" where
  "fine n m \<longleftrightarrow> (if m_receive m then m_send m = Some False \<and> m_address m = PHASE_ADDRESS
     else m_send m = None \<and> understood n m)"

definition sound :: "int \<Rightarrow> control \<Rightarrow> bool" where
  "sound n c \<longleftrightarrow> well_laid c \<and> (\<forall>m \<in> set (msgs c). fine n m)"

lemma sound_simps [simp]:
  "sound n (caption t k cl al)" "sound n (Box nm cl bx)"
  "sound n (hfader nm cl ms st ia r) \<longleftrightarrow> list_all (fine n) ms"
  "sound n (vfader nm cl ms r) \<longleftrightarrow> list_all (fine n) ms"
  "sound n (toggle nm cl ms cap) \<longleftrightarrow> list_all (fine n) ms"
  "sound n (trigger nm cl ms cap) \<longleftrightarrow> list_all (fine n) ms"
  "sound n (titled c t k ss) \<longleftrightarrow> length ss = 2 \<and> sound n c"
  "sound n (Row cs l) \<longleftrightarrow>
     (case l_sizes l of None \<Rightarrow> True | Some ss \<Rightarrow> length ss = length cs) \<and> list_all (sound n) cs"
  "sound n (Column cs l) \<longleftrightarrow>
     (case l_sizes l of None \<Rightarrow> True | Some ss \<Rightarrow> length ss = length cs) \<and> list_all (sound n) cs"
  "sound n (Stack cs f snm scl) \<longleftrightarrow> list_all (sound n) cs"
  "sound n (Pager cs nm cl tb off on) \<longleftrightarrow> list_all (sound n) cs"
  by (auto simp: sound_def caption_def hfader_def vfader_def toggle_def trigger_def titled_def
      list_all_iff split: option.split)

lemma layout_sizes [simp]:
  "l_sizes (voice_layout lw n g nm) = Some (lw # replicate (nat n) (lit 2))"
  "l_sizes (page_layout ss g pd nm) = ss" "l_sizes (group_layout ss g nm) = ss"
  by (simp_all add: voice_layout_def page_layout_def group_layout_def)

lemma sound_header [simp]: "sound n (voice_header k lw t)"
  by (simp add: voice_header_def list_all_iff)

text \<open>The addresses the surface uses, and their handlers.\<close>

lemma used_handlers:
  "list_all (\<lambda>(a, h). map_of build_handlers a = Some h)
    [(''/set/level/cut'', SetVF (VfParam ''level'')), (''/set/pan/cut'', SetVF (VfParam ''pan'')),
     (''/set/enabled/cut'', SetVF VfEnabled), (''/set/level/in_cut'', InCut),
     (''/set/level/cut_cut'', SetIIF CutCut), (''/set/param/cut/voice_sync'', SetIIF VoiceSync),
     (''/set/param/cut/buffer'', SetBuffer), (''/poll/start/cut/phase'', PollStart),
     (''/poll/stop/cut/phase'', PollStop), (''/softcut/buffer/clear'', OnClear),
     (''/softcut/buffer/clear_channel'', OnClearChannel), (''/softcut/buffer/clear_region'', OnClearRegion),
     (''/softcut/buffer/clear_region_channel'', OnClearRegionChannel),
     (''/softcut/buffer/read_mono'', OnReadMono), (''/softcut/buffer/read_stereo'', OnReadStereo),
     (''/softcut/buffer/write_mono'', OnWriteMono), (''/softcut/buffer/write_stereo'', OnWriteStereo),
     (''/softcut/reset'', OnReset), (''/hello'', Hello), (''/quit'', Quit)]"
  by code_simp

lemmas used_handler [simp] = used_handlers [simplified]

lemma fine_send:
  "fine n (send a args) \<longleftrightarrow> understood n (send a args)"
  "fine n (send_on_press a args) \<longleftrightarrow> understood n (send a args)"
  "fine n (receive_only PHASE_ADDRESS args)"
  by (simp_all add: fine_def send_def send_on_press_def receive_only_def understood_def)

lemma understoodI:
  assumes "map_of build_handlers a = Some h"
    and "\<And>vs. list_all2 carries args vs \<Longrightarrow>
      well_typed n h vs \<or> (h \<in> set fallible \<and> arity h \<le> length vs)"
    and "list_all scaled_float args"
  shows "understood n (send a args)"
  using assms by (auto simp: understood_def send_def)

text \<open>The addresses of the parameters.\<close>

definition voice_address :: "string \<Rightarrow> bool" where
  "voice_address a = (case map_of build_handlers a of Some (SetVF m) \<Rightarrow> True | _ \<Rightarrow> False)"

lemma voice_addresses:
  "list_all voice_address (''/set/level/cut'' # ''/set/pan/cut'' # ''/set/enabled/cut''
     # map (\<lambda>x. ''/set/param/cut/'' @ x)
         [''rate'', ''loop_start'', ''loop_end'', ''loop_flag'', ''fade_time'', ''rec_level'', ''pre_level'',
          ''rec_flag'', ''rec_once'', ''play_flag'', ''rec_offset'', ''position'', ''recpre_slew_time'',
          ''rate_slew_time'', ''phase_quant'', ''phase_offset'', ''pre_filter_fc'', ''pre_filter_fc_mod'',
          ''pre_filter_rq'', ''pre_filter_lp'', ''pre_filter_hp'', ''pre_filter_bp'', ''pre_filter_br'',
          ''pre_filter_dry'', ''post_filter_fc'', ''post_filter_rq'', ''post_filter_lp'', ''post_filter_hp'',
          ''post_filter_bp'', ''post_filter_br'', ''post_filter_dry''])"
  by code_simp

lemmas voice_address_known [simp] = voice_addresses [simplified]

lemma understood_value:
  assumes "voice_address a" "0 \<le> v" "v < n" "n \<le> 6"
  shows "understood n (send a [index_arg v, scaled_arg sp])"
proof -
  obtain m where "map_of build_handlers a = Some (SetVF m)"
    using assms(1) by (auto simp: voice_address_def split: option.splits handler.splits)
  then show ?thesis
    by (rule understoodI) (use assms in \<open>auto simp: list_all2_Cons1 well_typed_def\<close>)
qed

lemma understood_pair:
  assumes "map_of build_handlers a = Some (SetIIF m)" "0 \<le> v" "v < n" "0 \<le> w" "w < n" "n \<le> 6"
    and "e = scaled_arg sp \<or> e = float_arg x"
  shows "understood n (send a [index_arg v, index_arg w, e])"
proof -
  have "int32 v" "int32 w"
    using assms by (auto simp: int32_def)
  then show ?thesis
    using assms by (intro understoodI) (auto simp: list_all2_Cons1 well_typed_def)
qed

lemma understood_in_cut:
  assumes "0 \<le> v" "v < n" "n \<le> 6"
  shows "understood n (send ''/set/level/in_cut'' [index_arg 0, index_arg v, scaled_arg sp])"
  using assms by (intro understoodI) (auto simp: list_all2_Cons1 well_typed_def)

text \<open>Messages without voices: enough arguments for a handler that may fail, or none needed.\<close>

lemma understood_other:
  assumes "map_of build_handlers a = Some h" "h \<in> set fallible \<and> arity h \<le> length args
      \<or> h \<in> {Hello, Quit, PollStart, PollStop}" "list_all scaled_float args"
  shows "understood n (send a args)"
  using assms(2,3) by (intro understoodI [OF assms(1)]) (auto simp: well_typed_def dest: list_all2_lengthD)

text \<open>The parameter tables.\<close>

lemma param_address [simp]:
  "p_address (fader_param l a c sp) = a" "p_address (toggle_param l a c) = a"
  by (simp_all add: fader_param_def toggle_param_def)

lemma sound_control:
  assumes "param_control p v = Inr c" "voice_address (p_address p)" "0 \<le> v" "v < n" "n \<le> 6"
  shows "sound n c"
proof -
  have "understood n (send (p_address p) [index_arg v, scaled_arg (p_span p)])"
    by (rule understood_value [OF assms(2-5)])
  then show ?thesis
    using assms(1) by (auto simp: param_control_def Let_def ebind_eq_Inr fine_send split: if_splits)
qed

lemma sound_row:
  assumes "param_row p n lw = Inr c" "voice_address (p_address p)" "n \<le> 6"
  shows "sound n c"
proof -
  obtain cs where cs: "eall (map (param_control p) [0..n - 1]) = Inr cs"
    "c = Row (caption (param_caption p) 13 INK LEFT # cs) (voice_layout lw n 5 (underscored (p_label p)))"
    using assms(1) by (auto simp: param_row_def ebind_eq_Inr)
  have "sound n d" if "d \<in> set cs" for d
    using eall_mapD(2) [OF cs(1) that] assms(2,3) by (auto intro: sound_control)
  then show ?thesis
    using eall_mapD(1) [OF cs(1)] cs(2) by (simp add: list_all_iff)
qed

lemma sound_page:
  assumes "param_page name ps n lw = Inr c" "\<forall>p \<in> set ps. voice_address (p_address p)" "n \<le> 6"
  shows "sound n c"
proof -
  obtain rows where rows: "eall (map (\<lambda>p. param_row p n lw) ps) = Inr rows"
    "c = Column (voice_header n lw [] # rows)
       (page_layout (Some (lit 1.4 # replicate (length ps) (lit 2))) 8 (12, 10) name)"
    using assms(1) by (auto simp: param_page_def ebind_eq_Inr)
  have "sound n d" if "d \<in> set rows" for d
    using eall_mapD(2) [OF rows(1) that] assms(2,3) by (auto intro: sound_row)
  then show ?thesis
    using eall_mapD(1) [OF rows(1)] rows(2) by (simp add: list_all_iff)
qed

lemma sound_matrix:
  assumes "\<And>v w. 0 \<le> v \<Longrightarrow> v < n \<Longrightarrow> 0 \<le> w \<Longrightarrow> w < n \<Longrightarrow> sound n (cell v w)"
  shows "sound n (matrix n cell nm lw)"
  using assms by (simp add: matrix_def matrix_row_def list_all_iff)

text \<open>The pages.\<close>

lemma sound_mix:
  assumes "mix_page n rate = Inr c" "n \<le> 6"
  shows "sound n c"
proof -
  have strip: "sound n d" if d: "strip rate v = Inr d" and v: "0 \<le> v" "v < n" for d v
  proof -
    show ?thesis
      using d by (auto simp: strip_def Let_def ebind_eq_Inr fine_send understood_value v assms(2))
  qed
  obtain ds where ds: "eall (map (strip rate) [0..n - 1]) = Inr ds" "c = Row ds (page_layout None 6 (10, 8) ''mix'')"
    using assms(1) by (auto simp: mix_page_def ebind_eq_Inr)
  then show ?thesis
    using eall_mapD(2) [OF ds(1)] strip by (fastforce simp: list_all_iff)
qed

lemma sound_tables:
  assumes "n \<le> 6"
  shows "loop_page n time rate = Inr c \<Longrightarrow> sound n c" "rec_page n = Inr c \<Longrightarrow> sound n c"
    "which \<in> {''pre'', ''post''} \<Longrightarrow> filter_page n which = Inr c \<Longrightarrow> sound n c"
proof -
  show "loop_page n time rate = Inr c \<Longrightarrow> sound n c" "rec_page n = Inr c \<Longrightarrow> sound n c"
    unfolding loop_page_def rec_page_def
    by (erule sound_page; simp add: fader_param_def toggle_param_def assms)+
  show "filter_page n which = Inr c \<Longrightarrow> sound n c" if "which \<in> {''pre'', ''post''}"
    using that unfolding filter_page_def
    by (elim sound_page) (auto simp: filter_params_def band_def underscored_def assms)
qed

lemma sound_cells:
  assumes "0 \<le> v" "v < n" "0 \<le> w" "w < n" "n \<le> 6"
  shows "sound n (feedback_cell v w)" "sound n (sync_cell v w)"
  using assms
  by (simp_all add: feedback_cell_def sync_cell_def Let_def fine_send
      understood_pair [where m = CutCut and sp = UNIT and x = "Fin 0"]
      understood_pair [where m = VoiceSync and sp = UNIT and x = "Fin 0"])

lemma sound_routing:
  assumes "routing_page n = Inr c" "n \<le> 6"
  shows "sound n c"
proof -
  have buf: "sound n (buffer_control v)" if "0 \<le> v" "v < n" for v
    unfolding buffer_control_def
    by (simp add: list_all_iff fine_send)
      (intro ballI understood_other [of _ SetBuffer], simp_all add: fallible_def)
  obtain en ins lev pan where r:
    "param_row (toggle_param ''enabled'' ''/set/enabled/cut'' PLAY) n (lit 3) = Inr en"
    "eall (map (\<lambda>v. ebind (position_of ''/set/level/in_cut'' UNIT) (\<lambda>rest.
       Inr (in_cut_control rest v))) [0..n - 1]) = Inr ins"
    "param_row (fader_param ''level'' ''/set/level/cut'' LEVEL UNIT) n (lit 3) = Inr lev"
    "param_row (fader_param ''pan'' ''/set/pan/cut'' PAN (lit (- 1), lit 1)) n (lit 3) = Inr pan"
    and c: "Inr c = Inr (Column
         [voice_header n (lit 3) [], lev, pan, en,
          Row (caption ''input -> cut  0..1'' 13 INK LEFT # ins) (voice_layout (lit 3) n 5 ''in_cut''),
          Row (caption ''buffer'' 13 INK LEFT # map buffer_control [0..n - 1])
            (voice_layout (lit 3) n 5 ''buffer''),
          caption ''cut -> cut feedback   row = source, column = destination'' 13 INK LEFT,
          matrix n feedback_cell ''cut_cut'' (lit 1.6)]
         (page_layout (Some [lit 1.2, lit 1.6, lit 1.6, lit 1.6, lit 1.6, lit 1.6, lit 1.2, lit 9]) 7 (12, 10)
           ''routing''))"
    using assms(1) by (auto simp: routing_page_def ebind_eq_Inr simp del: lit_unit)
  have "sound n d" if "d \<in> set ins" for d
    using eall_mapD(2) [OF r(2) that] assms(2)
    by (auto simp: ebind_eq_Inr in_cut_control_def fine_send understood_in_cut)
  moreover have "sound n en" "sound n lev" "sound n pan"
    using sound_row [OF r(1) _ assms(2)] sound_row [OF r(3) _ assms(2)] sound_row [OF r(4) _ assms(2)]
    by simp_all
  moreover have "sound n (matrix n feedback_cell ''cut_cut'' (lit 1.6))"
    using sound_cells(1) assms(2) by (intro sound_matrix) auto
  ultimately show ?thesis
    using buf c eall_mapD(1) [OF r(2)] by (simp add: list_all_iff)
qed

lemma sound_sync:
  assumes "sync_page n time = Inr c" "n \<le> 6"
  shows "sound n c"
proof -
  have row: "sound n d" if "param_row p n lw = Inr d" "voice_address (p_address p)" for p d lw
    using sound_row [OF that assms(2)] .
  have poll: "sound n poll_row"
    unfolding poll_row_def
    by (simp add: fine_send) (intro conjI understood_other [of _ PollStart] understood_other [of _ PollStop]; simp)
  have read: "sound n (phase_control time v)" for v
    by (simp add: phase_control_def fine_send flip: PHASE_ADDRESS_def)
  have "sound n (matrix n sync_cell ''voice_sync'' (lit 1.6))"
    using sound_cells(2) assms(2) by (intro sound_matrix) auto
  then show ?thesis
    using assms(1) poll read by (auto simp: sync_page_def ebind_eq_Inr list_all_iff dest!: row)
qed

lemma sound_system: "sound n (system_page time rfile wfile)"
proof -
  have "sound n d" if "d \<in> set (clear_buttons time)" for d
    using that unfolding clear_buttons_def
    by (auto simp: fine_send upto.simps fallible_def intro!: understood_other)
  moreover have "sound n d" if "d \<in> set (disk_buttons rfile wfile)" for d
    using that unfolding disk_buttons_def
    by (auto simp: fine_send fallible_def intro!: understood_other)
  moreover have "sound n d" if "d \<in> set lifecycle_buttons" for d
    using that unfolding lifecycle_buttons_def
    by (auto simp: fine_send fallible_def intro!: understood_other)
  ultimately show ?thesis
    by (simp add: system_page_def list_all_iff)
qed

lemma sound_document:
  assumes "build (Some opts) = Inr (Resolved c)"
  shows "sound (s_voices opts) c \<and> 1 \<le> s_voices opts \<and> s_voices opts \<le> 6"
proof -
  let ?n = "s_voices opts"
  obtain pages where p: "1 \<le> ?n" "?n \<le> 6" "eall (surface_pages opts) = Inr pages"
    "c = Stack [Pager pages ''pages'' PANEL (s_tabbar_size opts) 14 14]
             (Some (0, 0, fst (s_size opts), snd (s_size opts))) (Some ''softcut'') (Some PANEL)"
    using assms by (auto simp: build_def ebind_eq_Inr split: if_splits)
  have "sound ?n d" if "d \<in> set pages" for d
  proof -
    have "Inr d \<in> set (surface_pages opts)"
      using p(3) that by (auto simp: eall_Inr)
    then consider "mix_page ?n (s_rate opts) = Inr d" | "loop_page ?n (s_max_time opts) (s_rate opts) = Inr d"
      | "rec_page ?n = Inr d" | "filter_page ?n ''pre'' = Inr d" | "filter_page ?n ''post'' = Inr d"
      | "routing_page ?n = Inr d" | "sync_page ?n (s_max_time opts) = Inr d"
      | "d = system_page (s_max_time opts) (s_read_file opts) (s_write_file opts)"
      by (auto simp: surface_pages_def)
    then show ?thesis
    proof cases
      case 8
      then show ?thesis by (simp add: sound_system)
    qed (blast intro: sound_mix sound_tables sound_routing sound_sync p(2))+
  qed
  then show ?thesis
    using p by (simp add: list_all_iff)
qed

text \<open>In a built surface every row and column that is given sizes has one per child.\<close>

lemma surface_laid_out: "build (Some opts) = Inr (Resolved c) \<Longrightarrow> well_laid c"
  using sound_document by (simp add: sound_def)

lemma default_builds:
  assumes "1 \<le> n" "n \<le> 6"
  obtains c where "build (Some (default_surface\<lparr>s_voices := n\<rparr>)) = Inr (Resolved c)"
    "set (msgs (system_page DEFAULT_MAX_TIME DEFAULT_READ_FILE DEFAULT_WRITE_FILE)) \<subseteq> set (msgs c)"
proof -
  let ?o = "default_surface\<lparr>s_voices := n\<rparr>"
  have v: "s_rate ?o = Fin 2" "s_max_time ?o = Fin 32" "s_voices ?o = n"
    using lit_int [of 2] lit_int [of 32] by (simp_all add: default_surface_def DEFAULT_RATE_def DEFAULT_MAX_TIME_def)
  have f: "is_flt F64 (Fin 2)" "is_flt F64 (Fin 32)"
    using rep_int [of 2 F64] rep_int [of 32 F64] by (simp_all add: is_flt_def)
  have "fails_if False (eall (surface_pages ?o))"
    unfolding surface_pages_def v
    using page_fails(1,2,3,5,6) [OF assms(1) f] page_fails(4) [OF assms(1) f, of "''pre''"]
      page_fails(4) [OF assms(1) f, of "''post''"]
    by (intro fails_cong [OF fails_Cons] fails_Cons) (auto simp: fails_if_def)
  then obtain pages where p: "eall (surface_pages ?o) = Inr pages"
    by (auto simp: fails_if_def)
  moreover have "Inr (system_page DEFAULT_MAX_TIME DEFAULT_READ_FILE DEFAULT_WRITE_FILE) \<in> set (surface_pages ?o)"
    by (simp add: surface_pages_def default_surface_def)
  ultimately have "system_page DEFAULT_MAX_TIME DEFAULT_READ_FILE DEFAULT_WRITE_FILE \<in> set pages"
    by (auto simp: eall_Inr)
  then show ?thesis
    using that p v assms by (auto simp: build_def)
qed

lemma message_understood:
  assumes "build (Some opts) = Inr (Resolved c)" "m \<in> set (msgs c)" "m_send m \<noteq> Some False"
    and "host_wf s" "nvoices s = s_voices opts" "list_all2 carries (m_args m) vs"
  shows "\<exists>h. map_of build_handlers (m_address m) = Some h
    \<and> (fst (dispatch lib (m_address m) vs s) = Handled \<or> h \<in> set fallible \<and> arity h \<le> length vs)"
proof -
  have "understood (s_voices opts) m"
    using sound_document [OF assms(1)] assms(2,3) by (auto simp: sound_def fine_def split: if_splits)
  then obtain h where h: "map_of build_handlers (m_address m) = Some h"
    "well_typed (nvoices s) h vs \<or> (h \<in> set fallible \<and> arity h \<le> length vs)"
    using assms(5,6) by (auto simp: understood_def)
  then show ?thesis
    using well_typed_handled [OF assms(4) h(1)] by blast
qed

text \<open>C18. The surface and the server agree. Every message a built surface can send has an address the
  server handles; when the server has as many voices as the surface, the message is handled,
  whatever the position of its control, except that a buffer assignment, a disk or clear
  operation and a reset, which also get all their arguments, may still fail for their own
  reasons.\<close>

theorem surface_understood:
  assumes "build (Some opts) = Inr (Resolved c)" "m \<in> set (msgs c)" "m_send m \<noteq> Some False"
    and "host_wf s" "nvoices s = s_voices opts" "list_all2 carries (m_args m) vs"
  shows "\<exists>h. map_of build_handlers (m_address m) = Some h
    \<and> (fst (dispatch lib (m_address m) vs s) = Handled \<or> h \<in> set fallible \<and> arity h \<le> length vs)"
  using assms by (rule message_understood)

section \<open>The defaults shown\<close>

text \<open>The attribute behind an address that shows one; the position has none.\<close>

definition shown_attr :: "string \<Rightarrow> attr option" where
  "shown_attr a =
     (case map_of build_handlers a of
        Some (SetVF (VfParam name)) \<Rightarrow> Option.bind (map_of FLOAT_PARAMS name) (map_of attr_table)
      | Some InCut \<Rightarrow> Some (MAttr InputGain)
      | _ \<Rightarrow> None)"

text \<open>What a voice reads back for it.\<close>

definition voice_shows :: "voice \<Rightarrow> string \<Rightarrow> flt option" where
  "voice_shows v a =
     (case shown_attr a of Some (FAttr f) \<Rightarrow> Some (fmir v f) | Some (MAttr g) \<Rightarrow> Some (mixp v g) | _ \<Rightarrow> None)"

lemma shown_attrs:
  "list_all (\<lambda>(a, att). shown_attr a = Some att)
    [(''/set/level/cut'', MAttr Level), (''/set/pan/cut'', MAttr Pan), (''/set/level/in_cut'', MAttr InputGain),
     (''/set/param/cut/rate'', FAttr Rate), (''/set/param/cut/loop_start'', FAttr LoopStart),
     (''/set/param/cut/loop_end'', FAttr LoopEnd), (''/set/param/cut/fade_time'', FAttr FadeTime),
     (''/set/param/cut/rate_slew_time'', FAttr RateSlewTime),
     (''/set/param/cut/recpre_slew_time'', FAttr RecPreSlewTime), (''/set/param/cut/rec_level'', FAttr RecLevel),
     (''/set/param/cut/pre_level'', FAttr PreLevel), (''/set/param/cut/rec_offset'', FAttr RecOffset),
     (''/set/param/cut/phase_quant'', FAttr PhaseQuant), (''/set/param/cut/phase_offset'', FAttr PhaseOffset),
     (''/set/param/cut/pre_filter_fc'', FAttr PreFilterFc), (''/set/param/cut/pre_filter_fc_mod'', FAttr PreFilterFcMod),
     (''/set/param/cut/pre_filter_rq'', FAttr PreFilterRq), (''/set/param/cut/pre_filter_lp'', FAttr PreFilterLp),
     (''/set/param/cut/pre_filter_hp'', FAttr PreFilterHp), (''/set/param/cut/pre_filter_bp'', FAttr PreFilterBp),
     (''/set/param/cut/pre_filter_br'', FAttr PreFilterBr), (''/set/param/cut/pre_filter_dry'', FAttr PreFilterDry),
     (''/set/param/cut/post_filter_fc'', FAttr PostFilterFc), (''/set/param/cut/post_filter_rq'', FAttr PostFilterRq),
     (''/set/param/cut/post_filter_lp'', FAttr PostFilterLp), (''/set/param/cut/post_filter_hp'', FAttr PostFilterHp),
     (''/set/param/cut/post_filter_bp'', FAttr PostFilterBp), (''/set/param/cut/post_filter_br'', FAttr PostFilterBr),
     (''/set/param/cut/post_filter_dry'', FAttr PostFilterDry)]"
  by code_simp

lemmas shown_attr_known [simp] = shown_attrs [simplified]

text \<open>The decimal literals, read as binary64 and narrowed to binary32, are the binary32 literals.\<close>

lemma rnd_minus_Fin: "rnd f x = Fin q \<Longrightarrow> rnd f (- x) = Fin (- q)"
  by (auto simp: rnd_def Let_def rnd_to_minus split: if_splits)

lemma narrowed:
  assumes "rnd F64 x = Fin q" "rnd F32 x = Fin r" "rnd F32 q = Fin r"
  shows "to_f32 (rnd F64 x) = rnd F32 x" "to_f32 (rnd F64 (- x)) = rnd F32 (- x)"
  using assms rnd_minus_Fin by (simp_all add: to_f32_def)

lemma narrowed_literals:
  "to_f32 (lit 0.1) = f32_lit (1 / 10)" "to_f32 (lit 0.001) = f32_lit (1 / 1000)"
  "to_f32 (fdiv F64 (lit (- 1)) (lit 6000)) = fdiv F32 (Fin (- 8)) (Fin 48000)"
proof -
  show "to_f32 (lit 0.1) = f32_lit (1 / 10)"
    using narrowed(1) [of "1 / 10" "7205759403792794 / 2 ^ 56" "13421773 / 2 ^ 27"]
      rnd_eval [of "- 4" "1 / 10" "- 56" F64 7205759403792794] rnd_eval [of "- 4" "1 / 10" "- 27" F32 13421773]
      rnd_eval [of "- 4" "7205759403792794 / 2 ^ 56" "- 27" F32 13421773]
    by (simp add: power_int_def power_divide lit_def f32_lit_def)
  show "to_f32 (lit 0.001) = f32_lit (1 / 1000)"
    using narrowed(1) [of "1 / 1000" "4611686018427388 / 2 ^ 62" "8589935 / 2 ^ 33"]
      rnd_eval [of "- 10" "1 / 1000" "- 62" F64 4611686018427388] rnd_eval [of "- 10" "1 / 1000" "- 33" F32 8589935]
      rnd_eval [of "- 10" "4611686018427388 / 2 ^ 62" "- 33" F32 8589935]
    by (simp add: power_int_def power_divide lit_def f32_lit_def)
  have "to_f32 (rnd F64 (- (1 / 6000))) = rnd F32 (- (1 / 6000))"
    using narrowed(2) [of "1 / 6000" "6148914691236517 / 2 ^ 65" "11453246 / 2 ^ 36"]
      rnd_eval [of "- 13" "1 / 6000" "- 65" F64 6148914691236517] rnd_eval [of "- 13" "1 / 6000" "- 36" F32 11453246]
      rnd_eval [of "- 13" "6148914691236517 / 2 ^ 65" "- 36" F32 11453246]
    by (simp add: power_int_def power_divide)
  then show "to_f32 (fdiv F64 (lit (- 1)) (lit 6000)) = fdiv F32 (Fin (- 8)) (Fin 48000)"
    using lit_int [of "- 1"] lit_int [of 6000] by simp
qed

lemma narrowed_int: "\<bar>k\<bar> \<le> 2 ^ 24 \<Longrightarrow> to_f32 (lit (of_int k)) = Fin (of_int k)"
  using rep_int [of k F32] lit_int [of k] by (simp add: to_f32_def rnd_rep)

text \<open>The surface shows the engine's defaults: for every address with a default but the position,
  the default, narrowed to the binary32 value the engine stores, is what a voice that was just
  made reads back for the attribute that address sets, the parsed decimal constants included.\<close>

theorem surface_shows_defaults:
  assumes "new_voice sr ''upstream'' = Inr v" "(a, d) \<in> set VOICE_DEFAULTS" "a \<noteq> ''/set/param/cut/position''"
  shows "voice_shows v a = Some (to_f32 d)"
proof -
  have v: "fmir v = fdefault False" "mixp v = mix_default"
    using assms(1) by (auto simp: new_voice_def Let_def)
  have k: "to_f32 (lit 0) = Fin 0" "to_f32 (lit 1) = Fin 1" "to_f32 (lit 4) = Fin 4"
    "to_f32 (lit 16000) = Fin 16000" "to_f32 (lit 12000) = Fin 12000"
    using narrowed_int [of 0] narrowed_int [of 1] narrowed_int [of 4] narrowed_int [of 16000] narrowed_int [of 12000]
    by simp_all
  have "list_all (\<lambda>(a, d). a = ''/set/param/cut/position'' \<or> voice_shows v a = Some (to_f32 d)) VOICE_DEFAULTS"
    unfolding VOICE_DEFAULTS_def
    by (simp add: voice_shows_def v k narrowed_literals narrowed_literals(2) [simplified] del: lit_unit)
  then show ?thesis
    using assms(2,3) by (auto simp: list_all_iff)
qed


theorem surface_understood_witness:
  "\<exists>c s. build (Some (default_surface\<lparr>s_voices := 2\<rparr>)) = Inr (Resolved c) \<and> osc_reach thru_lib s
     \<and> send_on_press ''/hello'' [] \<in> set (msgs c) \<and> fst (dispatch thru_lib ''/hello'' [] s) = Handled"
proof -
  obtain c where c: "build (Some (default_surface\<lparr>s_voices := 2\<rparr>)) = Inr (Resolved c)"
    "set (msgs (system_page DEFAULT_MAX_TIME DEFAULT_READ_FILE DEFAULT_WRITE_FILE)) \<subseteq> set (msgs c)"
    by (rule default_builds [of 2]) simp_all
  let ?m = "send_on_press ''/hello'' []"
  have m: "?m \<in> set (msgs c)"
    using c(2) by (auto simp: system_page_def lifecycle_buttons_def trigger_def)
  obtain s where s: "osc_reach thru_lib s" "host_wf s" "nvoices s = 2"
    by (rule fresh_server [of True]) simp
  have h: "m_address ?m = ''/hello''" "m_send ?m \<noteq> Some False" "list_all2 carries (m_args ?m) []"
    "Hello \<notin> set fallible"
    by (simp_all add: send_on_press_def fallible_def)
  then show ?thesis
    using surface_understood [OF c(1) m h(2) s(2) _ h(3), of thru_lib] s(1,3) c(1) m by auto
qed

end
