(* ===== verification/Float_Bits.thy ===== *)
theory Float_Bits
  imports Buffer_Ops
begin

text \<open>
  Numbers as bytes: big-endian unsigned integers of a given number of bytes, and the bit patterns
  of the binary32 and binary64 values (sign, biased exponent, fraction). They are what
  \<open>struct.pack\<close> and the pointer casts of \<open>src/thirdparty/tinyosc/tinyosc.c\<close> read and write.

  A zero has no sign in this development, so the pattern of a negative zero reads as zero; a NaN
  is written as the quiet NaN without payload.
\<close>

section \<open>Big-endian integers\<close>

fun be_bytes :: "nat \<Rightarrow> nat \<Rightarrow> byte list" where
  "be_bytes 0 w = []"
| "be_bytes (Suc n) w = be_bytes n (w div 256) @ [of_nat w]"

definition be_nat :: "byte list \<Rightarrow> nat" where
  "be_nat bs = foldl (\<lambda>n b. 256 * n + unat b) 0 bs"

lemma be_nat_snoc: "be_nat (bs @ [b]) = 256 * be_nat bs + unat b"
  by (simp add: be_nat_def)

lemma length_be_bytes [simp]: "length (be_bytes n w) = n"
  by (induction n w rule: be_bytes.induct) simp_all

lemma be_nat_bytes [simp]: "be_nat (be_bytes n w) = w mod 256 ^ n"
proof (induction n w rule: be_bytes.induct)
  case (2 n w)
  then show ?case
    by (simp add: be_nat_snoc unat_of_nat mod_mult2_eq)
qed (simp add: be_nat_def)

section \<open>Bit patterns of floats\<close>

fun exp_bits :: "fmt \<Rightarrow> nat" where
  "exp_bits F32 = 8"
| "exp_bits F64 = 11"

definition flt_of_bits :: "fmt \<Rightarrow> nat \<Rightarrow> flt" where
  "flt_of_bits f w =
     (let h = 2 ^ (prec f - 1); m = w mod h; e = w div h mod 2 ^ exp_bits f;
          neg = odd (w div h div 2 ^ exp_bits f);
          v = (if e = 0 then of_nat m * pow2 (emin f) else of_nat (h + m) * pow2 (int e - 1 + emin f))
      in if e = 2 ^ exp_bits f - 1 then (if m \<noteq> 0 then NaN else if neg then NInf else PInf)
         else Fin (if neg then - v else v))"

definition magnitude_bits :: "fmt \<Rightarrow> rat \<Rightarrow> nat" where
  "magnitude_bits f q =
     (if q = 0 then 0
      else let e = rnd_exp (prec f) (emin f) q
           in nat \<lfloor>\<bar>q\<bar> / pow2 e\<rfloor> + nat (e - emin f) * 2 ^ (prec f - 1))"

definition bits_of_flt :: "fmt \<Rightarrow> flt \<Rightarrow> nat" where
  "bits_of_flt f x =
     (let h = 2 ^ (prec f - 1); inf = (2 ^ exp_bits f - 1) * h; sgn = 2 ^ exp_bits f * h
      in case x of
           Fin q \<Rightarrow> magnitude_bits f q + (if q < 0 then sgn else 0)
         | PInf \<Rightarrow> inf | NInf \<Rightarrow> inf + sgn | NaN \<Rightarrow> inf + h div 2)"


lemma two_halves: "2 ^ prec f = 2 * (2 ^ (prec f - 1) :: 'a :: semiring_1)"
  by (cases f) (simp_all flip: power_Suc)

lemma magnitude_form:
  assumes "representable f q" "q \<noteq> 0"
  obtains M k where "magnitude_bits f q = M + k * 2 ^ (prec f - 1)" "\<bar>q\<bar> = of_nat M * pow2 (emin f + int k)"
    "M < 2 * 2 ^ (prec f - 1)" "M < 2 ^ (prec f - 1) \<Longrightarrow> k = 0" "k + 2 < 2 ^ exp_bits f"
proof -
  let ?e = "rnd_exp (prec f) (emin f) q" and ?h = "2 ^ (prec f - 1) :: nat"
  define n where "n = rne (q / pow2 ?e)"
  define M where "M = nat \<bar>n\<bar>"
  define k where "k = nat (?e - emin f)"
  have e: "emin f \<le> ?e" "?e = emin f + int k"
    by (simp_all add: rnd_exp_def k_def)
  have "q = of_int n * pow2 ?e"
    using assms by (simp add: rep_iff rnd_to_def Let_def n_def)
  then have q: "\<bar>q\<bar> = of_nat M * pow2 ?e"
    by (metis M_def abs_mult abs_of_pos nat_0_le abs_ge_zero of_int_abs of_int_of_nat_eq pow2_pos)
  have "nat \<lfloor>\<bar>q\<bar> / pow2 ?e\<rfloor> = M"
    by (simp add: q)
  then have bits: "magnitude_bits f q = M + k * ?h"
    using assms(2) by (simp add: magnitude_bits_def Let_def k_def)
  have p: "1 \<le> prec f" by (cases f) simp_all
  have "\<bar>q\<bar> < pow2 (ilog \<bar>q\<bar> + 1)"
    using assms(2) by (simp add: ilog_upper)
  also have "\<dots> \<le> pow2 (int (prec f)) * pow2 ?e"
    unfolding pow2_add [symmetric] pow2_le_iff by (simp add: rnd_exp_def)
  finally have "(of_nat M :: rat) < of_nat (2 ^ prec f)"
    by (simp add: q)
  then have M: "M < 2 * ?h"
    by (simp only: of_nat_less_iff two_halves)
  have z: "k = 0" if "M < ?h"
  proof (rule ccontr)
    assume "k \<noteq> 0"
    then have "?e = ilog \<bar>q\<bar> - (int (prec f) - 1)"
      by (auto simp: k_def rnd_exp_def)
    then have "pow2 (int (prec f - 1)) * pow2 ?e \<le> \<bar>q\<bar>"
      using ilog_lower [of "\<bar>q\<bar>"] assms(2) p by (simp add: of_nat_diff flip: pow2_add)
    then have "(of_nat ?h :: rat) \<le> of_nat M"
      by (simp add: q)
    then show False
      using that by (simp only: of_nat_le_iff)
  qed
  have "k + 2 < 2 ^ exp_bits f"
  proof (cases "M < ?h")
    case True
    then show ?thesis using z by (cases f) simp_all
  next
    case False
    then have "(of_nat ?h :: rat) \<le> of_nat M"
      by (simp only: of_nat_le_iff)
    then have "pow2 (int (prec f - 1) + ?e) \<le> \<bar>q\<bar>"
      by (simp add: q power_int_add)
    also have "\<dots> < pow2 (int (elim f))"
      using assms(1) by (simp add: rep_iff)
    finally have "int (prec f - 1) + ?e < int (elim f)"
      unfolding pow2_less_iff .
    then show ?thesis
      using e by (cases f) simp_all
  qed
  then show ?thesis
    using that [OF bits _ M z] q e by simp
qed

lemma magnitude_decodes:
  assumes "representable f q"
  defines "h \<equiv> 2 ^ (prec f - 1)" and "b \<equiv> magnitude_bits f q"
  shows "b div h < 2 ^ exp_bits f - 1"
    and "\<bar>q\<bar> = (if b div h = 0 then of_nat (b mod h) * pow2 (emin f)
           else of_nat (h + b mod h) * pow2 (int (b div h) - 1 + emin f))"
proof -
  have h: "0 < h" "h \<noteq> 0" by (simp_all add: h_def)
  have E: "(2 :: nat) < 2 ^ exp_bits f" by (cases f) simp_all
  have "b div h < 2 ^ exp_bits f - 1 \<and> \<bar>q\<bar> = (if b div h = 0 then of_nat (b mod h) * pow2 (emin f)
           else of_nat (h + b mod h) * pow2 (int (b div h) - 1 + emin f))"
  proof (cases "q = 0")
    case True
    then show ?thesis using E by (simp add: b_def magnitude_bits_def)
  next
    case False
    obtain M k where M: "b = M + k * h" "\<bar>q\<bar> = of_nat M * pow2 (emin f + int k)" "M < 2 * h"
      "M < h \<Longrightarrow> k = 0" "k + 2 < 2 ^ exp_bits f"
      using magnitude_form [OF assms(1) False] unfolding b_def h_def by blast
    show ?thesis
    proof (cases "M < h")
      case True
      then show ?thesis using M(1,2,4) E by simp
    next
      case False
      then have "b = (M - h) + (k + 1) * h" "M - h < h"
        using M(1,3) by simp_all
      then have "b div h = k + 1" "b mod h = M - h"
        using h by (simp_all only: div_mult_self1 mod_mult_self1 div_less mod_less add_0_right simp_thms)
      then show ?thesis
        using M(2,5) False by (simp add: add.commute)
    qed
  qed
  then show "b div h < 2 ^ exp_bits f - 1"
    and "\<bar>q\<bar> = (if b div h = 0 then of_nat (b mod h) * pow2 (emin f)
           else of_nat (h + b mod h) * pow2 (int (b div h) - 1 + emin f))"
    by blast+
qed

lemma flt_of_bits_bits [simp]:
  assumes "is_flt f x"
  shows "flt_of_bits f (bits_of_flt f x) = x"
proof (cases x)
  case (Fin q)
  let ?h = "2 ^ (prec f - 1) :: nat" and ?E = "2 ^ exp_bits f :: nat" and ?b = "magnitude_bits f q"
  have r: "representable f q" using assms Fin by (simp add: is_flt_def)
  define b where "b = bits_of_flt f x"
  have "b = ?b + (if q < 0 then ?E * ?h else 0)"
    by (simp add: b_def Fin bits_of_flt_def Let_def)
  moreover have "?b div ?h < ?E"
    using magnitude_decodes(1) [OF r] by linarith
  ultimately have "b mod ?h = ?b mod ?h" "b div ?h mod ?E = ?b div ?h" "odd (b div ?h div ?E) \<longleftrightarrow> q < 0"
    by simp_all
  then show ?thesis
    using magnitude_decodes [OF r] Fin
    unfolding flt_of_bits_def Let_def b_def [symmetric]
    by (simp only: ) (cases "q < 0"; simp)
next
  case PInf then show ?thesis by (cases f) (simp_all add: flt_of_bits_def bits_of_flt_def)
next
  case NInf then show ?thesis by (cases f) (simp_all add: flt_of_bits_def bits_of_flt_def)
next
  case NaN then show ?thesis by (cases f) (simp_all add: flt_of_bits_def bits_of_flt_def)
qed

lemma bits_of_flt_less: "is_flt F32 x \<Longrightarrow> bits_of_flt F32 x < 2 ^ 32"
proof (cases x)
  case (Fin q)
  assume "is_flt F32 x"
  then have "magnitude_bits F32 q div 2 ^ 23 < 255"
    using magnitude_decodes(1) [of F32 q] Fin by (simp add: is_flt_def)
  then have "magnitude_bits F32 q < 255 * 2 ^ 23"
    by (simp add: div_less_iff_less_mult)
  then show ?thesis by (simp add: Fin bits_of_flt_def Let_def)
qed (simp_all add: bits_of_flt_def)

end
