(* ===== verification/Osc_Wire.thy ===== *)
theory Osc_Wire
  imports Osc_Server Float_Bits
begin

text \<open>
  OSC on the wire, in bytes: the encoder of \<open>demos/13_osc_surface.py\<close>, the receiving half of
  \<open>tinyosc.c\<close> as the receive thread of \<open>_OscReceiver\<close> (\<open>_core.cpp\<close>) drives it, and its writing half
  as \<open>_OscPhasePoll\<close> uses it for the phase replies.

  The C side reads the receive buffer itself: 4096 bytes that keep what earlier datagrams left
  behind the current one. A read outside it is a \<open>fault\<close>, as are the use of a message no parse has
  filled in (\<open>Wild\<close>) and the construction of a \<open>std::string\<close> from the null pointer that
  \<open>tosc_getNextString\<close> returns at the end of a message (\<open>NullText\<close>, which ends the process: the
  exception leaves the thread). Nothing is claimed of a program after a fault.

  Text is ASCII, as everywhere in the development: one byte per character.
\<close>

section \<open>Bytes and text\<close>

definition encode_text :: "string \<Rightarrow> byte list" where
  "encode_text s = map (\<lambda>c. of_nat (of_char c)) s"

definition decode_text :: "byte list \<Rightarrow> string" where
  "decode_text bs = map (\<lambda>b. char_of (unat b)) bs"

section \<open>The encoder of the demo\<close>

definition pad :: "byte list \<Rightarrow> byte list" where
  "pad raw = raw @ replicate (4 - length raw mod 4) 0"

text \<open>One argument: its type tag and its bytes.\<close>

definition osc_arg :: "pyval \<Rightarrow> pyexc + (char \<times> byte list)" where
  "osc_arg v =
     (case v of
        VBool b \<Rightarrow> Inl TypeError
      | VInt i \<Rightarrow>
          if - (2 ^ 31) \<le> i \<and> i < 2 ^ 31 then Inr (CHR ''i'', be_bytes 4 (nat (i mod 2 ^ 32)))
          else Inl StructError
      | VFloat x \<Rightarrow>
          if finite_flt x \<and> \<not> finite_flt (to_f32 x) then Inl OverflowError
          else Inr (CHR ''f'', be_bytes 4 (bits_of_flt F32 (to_f32 x)))
      | _ \<Rightarrow> Inr (CHR ''s'', pad (encode_text (py_str v))))"

definition osc_datagram :: "string \<Rightarrow> pyval list \<Rightarrow> pyexc + byte list" where
  "osc_datagram address args =
     ebind (efold (\<lambda>v (tags, body). ebind (osc_arg v) (\<lambda>(t, bs). Inr (tags @ [t], body @ bs))) args ('','', []))
       (\<lambda>(tags, body). Inr (pad (encode_text address) @ pad (encode_text tags) @ body))"

section \<open>Reading memory\<close>

datatype fault = OutOfBuffer | NullText | Wild

definition fbind :: "fault + 'a \<Rightarrow> ('a \<Rightarrow> fault + 'b) \<Rightarrow> fault + 'b" where
  "fbind r k = (case r of Inl e \<Rightarrow> Inl e | Inr a \<Rightarrow> k a)"

lemma fbind_simps [simp]: "fbind (Inl e) k = Inl e" "fbind (Inr a) k = k a"
  by (simp_all add: fbind_def)

text \<open>\<open>while (buffer[i] != b) ++i\<close>\<close>

definition scan_to :: "byte \<Rightarrow> byte list \<Rightarrow> nat \<Rightarrow> fault + nat" where
  "scan_to b rx i =
     (let j = i + length (takeWhile (\<lambda>x. x \<noteq> b) (drop i rx))
      in if j < length rx then Inr j else Inl OutOfBuffer)"

definition c_string :: "byte list \<Rightarrow> nat \<Rightarrow> fault + byte list" where
  "c_string rx i = fbind (scan_to 0 rx i) (\<lambda>j. Inr (take (j - i) (drop i rx)))"

text \<open>\<open>ntohl\<close> and \<open>ntohll\<close> of what a pointer points at.\<close>

definition read_be :: "nat \<Rightarrow> byte list \<Rightarrow> nat \<Rightarrow> fault + nat" where
  "read_be n rx i = (if i + n \<le> length rx then Inr (be_nat (take n (drop i rx))) else Inl OutOfBuffer)"

text \<open>\<open>(i + 4) & ~0x3\<close>\<close>

definition next4 :: "nat \<Rightarrow> nat" where
  "next4 i = (i + 4) div 4 * 4"

section \<open>Parsing\<close>

text \<open>\<open>tosc_message\<close>; a pointer is an offset into the receive buffer, unset before the first parse.\<close>

record tosc_message =
  t_format :: "nat option"
  t_marker :: "nat option"
  t_buffer :: "nat option"
  t_len :: nat

definition unset :: tosc_message where
  "unset = \<lparr>t_format = None, t_marker = None, t_buffer = None, t_len = 0\<rparr>"

text \<open>
  \<open>tosc_parseMessage\<close> on \<open>buffer = rx + b\<close>: the return code and the message, of which only the
  format is set when the code is -2 and nothing when it is -1.
\<close>

definition tosc_parseMessage :: "byte list \<Rightarrow> nat \<Rightarrow> int \<Rightarrow> tosc_message \<Rightarrow> fault + int \<times> tosc_message" where
  "tosc_parseMessage rx b len m =
     fbind (scan_to 0 rx b) (\<lambda>i0. fbind (scan_to 44 rx i0) (\<lambda>i1.
       let i = i1 - b; n = nat len
       in if len \<le> int i then Inr (- 1, m)
          else let m1 = m\<lparr>t_format := Some (i1 + 1)\<rparr>;
                   j = i + length (takeWhile (\<lambda>x. x \<noteq> 0) (take (n - i) (drop i1 rx)))
               in if j < n \<and> length rx \<le> b + j then Inl OutOfBuffer
                  else if j = n then Inr (- 2, m1)
                  else Inr (0, m1\<lparr>t_marker := Some (b + next4 j), t_buffer := Some b, t_len := n\<rparr>)))"

definition tosc_isBundle :: "byte list \<Rightarrow> bool" where
  "tosc_isBundle rx \<longleftrightarrow> take 8 rx = encode_text ''#bundle'' @ [0]"

text \<open>
  \<open>tosc_getNextMessage\<close> with the bundle's marker at \<open>mk\<close>: the new marker and the message. The
  return code of the parse is dropped, and the marker moves by an unsigned 32-bit sum.
\<close>

definition tosc_getNextMessage :: "byte list \<Rightarrow> nat \<Rightarrow> tosc_message \<Rightarrow> fault + nat \<times> tosc_message" where
  "tosc_getNextMessage rx mk m =
     fbind (read_be 4 rx mk) (\<lambda>len.
       fbind (tosc_parseMessage rx (mk + 4) (sint (of_nat len :: 32 word)) m) (\<lambda>(rc, m').
         Inr (mk + unat (4 + of_nat len :: 32 word), m')))"

section \<open>The arguments\<close>

text \<open>
  The loop of \<open>deliver\<close> over the type tags (the bytes from the format on) with the reading
  functions of tinyosc: the arguments up to an unknown tag, which is kept as the last one because
  \<open>try_fast_dispatch\<close> looks at it, and the read head after them. \<open>stop\<close> is the end of the message,
  which only the text reader looks at.
\<close>

fun read_args :: "byte list \<Rightarrow> nat \<Rightarrow> byte list \<Rightarrow> nat \<Rightarrow> fault + tagged \<times> nat" where
  "read_args rx stop [] p = Inl OutOfBuffer"
| "read_args rx stop (c # cs) p =
     (let t = char_of (unat c);
          more = (\<lambda>v q. fbind (read_args rx stop cs q) (\<lambda>(vs, r). Inr ((t, v) # vs, r)))
      in if c = 0 then Inr ([], p)
         else if t = CHR ''i'' then fbind (read_be 4 rx p) (\<lambda>w. more (VInt (sint (of_nat w :: 32 word))) (p + 4))
         else if t = CHR ''f'' then fbind (read_be 4 rx p) (\<lambda>w. more (VFloat (flt_of_bits F32 w)) (p + 4))
         else if t = CHR ''s'' then fbind (c_string rx p) (\<lambda>bs.
           if stop \<le> p + length bs then Inl NullText else more (VStr (decode_text bs)) (p + next4 (length bs)))
         else if t = CHR ''h'' then fbind (read_be 8 rx p) (\<lambda>w. more (VInt (sint (of_nat w :: 64 word))) (p + 8))
         else if t = CHR ''d'' then fbind (read_be 8 rx p) (\<lambda>w. more (VFloat (flt_of_bits F64 w)) (p + 8))
         else if t = CHR ''T'' then more (VBool True) p
         else if t = CHR ''F'' then more (VBool False) p
         else Inr ([(t, VNone)], p))"

text \<open>A parsed message as \<open>handle\<close> sees it: its address, its arguments, and the read head after.\<close>

definition message_of :: "byte list \<Rightarrow> tosc_message \<Rightarrow> fault + (string \<times> tagged) \<times> nat" where
  "message_of rx m =
     (case (t_format m, t_marker m, t_buffer m) of
        (Some fm, Some p, Some b) \<Rightarrow>
          fbind (c_string rx b) (\<lambda>a. fbind (read_args rx (b + t_len m) (drop fm rx) p) (\<lambda>(args, q).
            Inr ((decode_text a, args), q)))
      | _ \<Rightarrow> Inl Wild)"

section \<open>The receive thread\<close>

definition RECV_SIZE :: nat where "RECV_SIZE = 4096"

text \<open>\<open>handle\<close>: the message goes to the server, and its read head moves.\<close>

definition handle_message ::
    "dsp_lib \<Rightarrow> byte list \<Rightarrow> tosc_message \<Rightarrow> osc \<Rightarrow> fault + tosc_message \<times> osc" where
  "handle_message lib rx m s =
     fbind (message_of rx m) (\<lambda>((addr, args), q).
       Inr (m\<lparr>t_marker := Some q\<rparr>, native_handle lib addr args s))"

text \<open>The loop over a bundle of \<open>n\<close> bytes, from the marker \<open>mk\<close>; nothing when it never ends.\<close>

partial_function (option) bundle_loop ::
    "dsp_lib \<Rightarrow> byte list \<Rightarrow> nat \<Rightarrow> nat \<Rightarrow> tosc_message \<Rightarrow> osc \<Rightarrow> (fault + osc) option" where
  "bundle_loop lib rx n mk m s =
     (if n \<le> mk then Some (Inr s)
      else case tosc_getNextMessage rx mk m of
          Inl e \<Rightarrow> Some (Inl e)
        | Inr (mk', m1) \<Rightarrow> (case handle_message lib rx m1 s of
            Inl e \<Rightarrow> Some (Inl e)
          | Inr (m2, s') \<Rightarrow> bundle_loop lib rx n mk' m2 s'))"

text \<open>\<open>recvfrom\<close> fills the front of the buffer and cuts off what does not fit.\<close>

definition received :: "byte list \<Rightarrow> byte list \<Rightarrow> byte list" where
  "received dg rx = take (length rx) dg @ drop (length dg) rx"

text \<open>
  One turn of \<open>run\<close> on a datagram: what is in the buffer afterwards, and the server, a fault, or
  nothing when the thread never comes back.
\<close>

definition receive_datagram ::
    "dsp_lib \<Rightarrow> byte list \<Rightarrow> byte list \<Rightarrow> osc \<Rightarrow> byte list \<times> (fault + osc) option" where
  "receive_datagram lib dg buf s =
     (let n = min (length dg) (length buf); rx = received dg buf
      in if n = 0 then (buf, Some (Inr s))
         else (rx,
           if tosc_isBundle rx then bundle_loop lib rx n 16 unset s
           else Some (fbind (tosc_parseMessage rx 0 (int n) unset) (\<lambda>(rc, m).
             if rc = 0 then fbind (handle_message lib rx m s) (\<lambda>(_, s'). Inr s') else Inr s))))"

section \<open>Writing a reply\<close>

definition put_bytes :: "nat \<Rightarrow> byte list \<Rightarrow> byte list \<Rightarrow> byte list" where
  "put_bytes i bs buf = take i buf @ bs @ drop (i + length bs) buf"

text \<open>The arguments of \<open>tosc_vwrite\<close>, for the tags \<open>i\<close> and \<open>f\<close>: 32-bit words.\<close>

fun write_words :: "nat list \<Rightarrow> nat \<Rightarrow> byte list \<Rightarrow> int + nat \<times> byte list" where
  "write_words [] i buf = Inr (i, buf)"
| "write_words (w # ws) i buf =
     (if length buf < i + 4 then Inl (- 3) else write_words ws (i + 4) (put_bytes i (be_bytes 4 w) buf))"

text \<open>\<open>tosc_writeMessage\<close> into a buffer of \<open>n\<close> bytes: an error code or the bytes written.\<close>

definition tosc_writeMessage :: "nat \<Rightarrow> string \<Rightarrow> (char \<times> nat) list \<Rightarrow> fault + (int + byte list)" where
  "tosc_writeMessage n address args =
     (let buf = replicate n 0; i = length address; fmt = map fst args; k = length fmt; c = next4 i
      in if n \<le> i then Inr (Inl (- 1))
         else if n \<le> c then Inl OutOfBuffer
         else if n \<le> c + 1 + k then Inr (Inl (- 2))
         else let b1 = put_bytes c [44] (put_bytes 0 (encode_text address) buf);
                  b2 = put_bytes (c + 1) (take (n - (c + 1) - k) (encode_text fmt)) b1
              in case write_words (map snd args) (next4 (c + 1 + k)) b2 of
                   Inl e \<Rightarrow> Inr (Inl e)
                 | Inr (len, b3) \<Rightarrow> Inr (Inr (take len b3)))"

text \<open>\<open>OscPhasePoll::send\<close>: the datagram of a phase reply.\<close>

definition phase_datagram :: "int \<Rightarrow> flt \<Rightarrow> fault + (int + byte list)" where
  "phase_datagram voice phase =
     tosc_writeMessage 64 PHASE_ADDRESS
       [(CHR ''i'', nat (voice mod 2 ^ 32)), (CHR ''f'', bits_of_flt F32 phase)]"

end
