(* ===== verification/Wire_Props.thy ===== *)
theory Wire_Props
  imports Osc_Wire
begin

text \<open>
  Properties of the wire format: what the encoder of the demo writes the native receiver reads back,
  alone and in bundles; what the receiver makes of datagrams that are cut short or malformed; and
  the bytes of a phase reply.
\<close>

section \<open>Text and padding\<close>

definition plain :: "string \<Rightarrow> bool" where
  "plain s \<longleftrightarrow> (\<forall>c \<in> set s. 0 < (of_char c :: nat) \<and> (of_char c :: nat) < 128)"

lemma length_encode [simp]: "length (encode_text s) = length s"
  by (simp add: encode_text_def)

lemma encode_simps [simp]: "encode_text [] = []" "encode_text (c # s) = of_nat (of_char c) # encode_text s"
  by (simp_all add: encode_text_def)

lemma char_byte: "char_of (unat (of_nat (of_char c) :: byte)) = c"
proof -
  have "(of_char c :: nat) < 256" by (rule nat_of_char_less_256)
  then show ?thesis by (simp add: unat_of_nat)
qed

lemma decode_encode [simp]: "decode_text (encode_text s) = s"
  by (simp add: decode_text_def encode_text_def o_def char_byte)

lemma byte_zero_iff: "(of_nat (of_char c) :: byte) = 0 \<longleftrightarrow> (of_char c :: nat) = 0"
proof -
  have "(of_char c :: nat) < 256" by (rule nat_of_char_less_256)
  then show ?thesis
    by (auto simp: word_of_nat_eq_0_iff) (metis dvd_imp_le nat_of_char_less_256 not_gr_zero not_less)
qed

lemma plain_nonzero: "plain s \<Longrightarrow> 0 \<notin> set (encode_text s)"
proof (induction s)
  case (Cons c s)
  then show ?case using byte_zero_iff [of c] by (auto simp: plain_def)
qed simp

lemma length_pad [simp]: "length (pad r) = next4 (length r)"
  unfolding pad_def next4_def by simp presburger

lemma pad_split: "pad r = r @ 0 # replicate (3 - length r mod 4) 0"
proof -
  have "4 - length r mod 4 = Suc (3 - length r mod 4)" by (simp add: Suc_diff_le)
  then show ?thesis by (simp add: pad_def)
qed

lemma next4_bounds: "n < next4 n" "next4 n \<le> n + 4"
  unfolding next4_def by presburger+

lemma next4_add: "next4 (next4 a + b) = next4 a + next4 b"
  unfolding next4_def by simp presburger

section \<open>Reading memory\<close>

lemma scan_to_skip:
  assumes "b \<notin> set xs" "length pre = i"
  shows "scan_to b (pre @ xs @ b # ys) i = Inr (i + length xs)"
  using assms by (auto simp: scan_to_def Let_def takeWhile_append takeWhile_eq_all_conv)

lemma scan_to_Inr:
  "scan_to b rx i = Inr j \<longleftrightarrow> i \<le> j \<and> j < length rx \<and> rx ! j = b \<and> (\<forall>k. i \<le> k \<and> k < j \<longrightarrow> rx ! k \<noteq> b)"
proof
  assume "scan_to b rx i = Inr j"
  then have j: "j = i + length (takeWhile (\<lambda>x. x \<noteq> b) (drop i rx))" "j < length rx"
    by (simp_all add: scan_to_def Let_def split: if_splits)
  have "rx ! j = b"
    using j nth_length_takeWhile [of "\<lambda>x. x \<noteq> b" "drop i rx"] by auto
  moreover have "rx ! k \<noteq> b" if "i \<le> k" "k < j" for k
  proof -
    have "takeWhile (\<lambda>x. x \<noteq> b) (drop i rx) ! (k - i) = rx ! k"
      using that j by (simp add: takeWhile_nth)
    moreover have "k - i < length (takeWhile (\<lambda>x. x \<noteq> b) (drop i rx))"
      using that j(1) by linarith
    ultimately show ?thesis
      using set_takeWhileD [OF nth_mem] by fastforce
  qed
  ultimately show "i \<le> j \<and> j < length rx \<and> rx ! j = b \<and> (\<forall>k. i \<le> k \<and> k < j \<longrightarrow> rx ! k \<noteq> b)"
    using j by simp
next
  assume a: "i \<le> j \<and> j < length rx \<and> rx ! j = b \<and> (\<forall>k. i \<le> k \<and> k < j \<longrightarrow> rx ! k \<noteq> b)"
  then have "takeWhile (\<lambda>x. x \<noteq> b) (drop i rx) = take (j - i) (drop i rx)"
    by (intro takeWhile_eq_take_P_nth) auto
  moreover have "j - i < length rx - i"
    using a by linarith
  ultimately show "scan_to b rx i = Inr j"
    using a by (simp add: scan_to_def Let_def)
qed

lemma scan_to_ex:
  assumes "i \<le> j" "j < length rx" "rx ! j = b"
  obtains k where "scan_to b rx i = Inr k"
proof -
  define k where "k = (LEAST k. i \<le> k \<and> rx ! k = b)"
  have "i \<le> k \<and> rx ! k = b" "k \<le> j"
    using LeastI [of "\<lambda>k. i \<le> k \<and> rx ! k = b" j] Least_le [of "\<lambda>k. i \<le> k \<and> rx ! k = b" j] assms
    by (auto simp: k_def)
  moreover have "rx ! x \<noteq> b" if "i \<le> x" "x < k" for x
    using that not_less_Least [of x "\<lambda>k. i \<le> k \<and> rx ! k = b"] by (auto simp: k_def)
  ultimately show ?thesis
    using assms(2) by (intro that [of k]) (auto simp: scan_to_Inr)
qed

lemma c_string_at:
  assumes "0 \<notin> set xs" "length pre = i"
  shows "c_string (pre @ xs @ 0 # ys) i = Inr xs"
  using scan_to_skip [OF assms, of ys] assms(2) by (simp add: c_string_def)

lemma c_string_pad:
  assumes "plain s" "length pre = i"
  shows "c_string (pre @ pad (encode_text s) @ ys) i = Inr (encode_text s)"
  using c_string_at [OF plain_nonzero [OF assms(1)] assms(2)] by (simp add: pad_split)

lemma read_be_at:
  assumes "length pre = i" "w < 256 ^ n"
  shows "read_be n (pre @ be_bytes n w @ ys) i = Inr w"
  using assms by (simp add: read_be_def)


section \<open>Arguments\<close>

text \<open>What an argument is on the wire: its tag and the value it is read as.\<close>

fun wire_arg :: "pyval \<Rightarrow> char \<times> pyval" where
  "wire_arg (VInt i) = (CHR ''i'', VInt i)"
| "wire_arg (VFloat x) = (CHR ''f'', VFloat (to_f32 x))"
| "wire_arg v = (CHR ''s'', VStr (py_str v))"

fun numeric :: "pyval \<Rightarrow> bool" where
  "numeric (VInt i) = True"
| "numeric (VFloat x) = True"
| "numeric v = False"

definition plain_arg :: "pyval \<Rightarrow> bool" where
  "plain_arg v \<longleftrightarrow> numeric v \<or> plain (py_str v)"

lemma int32_word:
  assumes "- (2 ^ 31) \<le> i" "i < 2 ^ 31"
  shows "sint (of_nat (nat (i mod 2 ^ 32)) :: 32 word) = i"
proof -
  have "of_nat (nat (i mod 2 ^ 32)) = (word_of_int (i mod 2 ^ 32) :: 32 word)"
    by (simp flip: word_of_int_nat)
  also have "\<dots> = word_of_int i"
    unfolding take_bit_eq_mod [symmetric] by (rule bit_word_eqI) (simp add: bit_simps)
  finally show ?thesis
    using assms by (simp add: signed_of_int signed_take_bit_int_eq_self_iff)
qed

lemma tag_chars: "char_of (105 :: nat) = CHR ''i''" "char_of (102 :: nat) = CHR ''f''" "char_of (115 :: nat) = CHR ''s''"
  by code_simp+

lemma read_args_tags:
  "read_args rx stop (0 # cs) p = Inr ([], p)"
  "read_args rx stop (105 # cs) p = fbind (read_be 4 rx p) (\<lambda>w. fbind (read_args rx stop cs (p + 4))
     (\<lambda>(vs, q). Inr ((CHR ''i'', VInt (sint (of_nat w :: 32 word))) # vs, q)))"
  "read_args rx stop (102 # cs) p = fbind (read_be 4 rx p) (\<lambda>w. fbind (read_args rx stop cs (p + 4))
     (\<lambda>(vs, q). Inr ((CHR ''f'', VFloat (flt_of_bits F32 w)) # vs, q)))"
  "read_args rx stop (115 # cs) p = fbind (c_string rx p) (\<lambda>bs. if stop \<le> p + length bs then Inl NullText
     else fbind (read_args rx stop cs (p + next4 (length bs))) (\<lambda>(vs, q). Inr ((CHR ''s'', VStr (decode_text bs)) # vs, q)))"
  by (simp_all add: Let_def tag_chars)

lemma read_arg_step:
  assumes a: "osc_arg v = Inr (t, bs)" and pl: "plain_arg v" and p: "length pre = p"
    and stop: "numeric v \<or> p + length bs \<le> stop"
  shows "read_args (pre @ bs @ r) stop (of_nat (of_char t) # cs) p =
    fbind (read_args (pre @ bs @ r) stop cs (p + length bs)) (\<lambda>(vs, q). Inr (wire_arg v # vs, q))"
proof -
  have str: ?thesis if "t = CHR ''s''" "bs = pad (encode_text (py_str v))" "wire_arg v = (CHR ''s'', VStr (py_str v))"
    "plain (py_str v)" "p + length bs \<le> stop"
    using that p c_string_pad [of "py_str v" pre p r] next4_bounds(1) [of "length (py_str v)"]
    by (simp add: read_args_tags del: read_args.simps)
  show ?thesis
proof (cases v)
  case (VInt i)
  then have i: "- (2 ^ 31) \<le> i" "i < 2 ^ 31" "t = CHR ''i''" "bs = be_bytes 4 (nat (i mod 2 ^ 32))"
    using a by (simp_all add: osc_arg_def split: if_splits)
  have "nat (i mod 2 ^ 32) < 256 ^ 4" by simp
  from read_be_at [OF p this, of r] show ?thesis
    using i int32_word [OF i(1,2)] VInt by (simp add: read_args_tags del: be_bytes.simps read_args.simps)
next
  case (VFloat x)
  then have t: "t = CHR ''f''" "bs = be_bytes 4 (bits_of_flt F32 (to_f32 x))"
    using a by (simp_all add: osc_arg_def split: if_splits)
  have "bits_of_flt F32 (to_f32 x) < 256 ^ 4"
    using bits_of_flt_less [of "to_f32 x"] by simp
  from read_be_at [OF p this, of r] show ?thesis
    using t VFloat by (simp add: read_args_tags del: be_bytes.simps read_args.simps)
next
  case (VBool b)
  then show ?thesis using a by (simp add: osc_arg_def)
qed (use a pl p stop str in \<open>auto simp: osc_arg_def plain_arg_def simp del: py_str.simps\<close>)
qed


lemma read_args_all:
  assumes "list_all2 (\<lambda>v part. osc_arg v = Inr part) vs ps" "list_all plain_arg vs" "length pre = p"
    and "list_all numeric vs \<or> p + length (concat (map snd ps)) \<le> stop"
  shows "read_args (pre @ concat (map snd ps) @ r) stop (encode_text (map fst ps) @ 0 # cs) p =
    Inr (map wire_arg vs, p + length (concat (map snd ps)))"
  using assms
proof (induction vs ps arbitrary: pre p rule: list_all2_induct)
  case Nil
  then show ?case by (simp add: read_args_tags del: read_args.simps)
next
  case (Cons v vs part ps)
  obtain t bs where part: "part = (t, bs)" by (cases part)
  let ?body = "concat (map snd ps)"
  have "read_args ((pre @ bs) @ ?body @ r) stop (encode_text (map fst ps) @ 0 # cs) (p + length bs) =
      Inr (map wire_arg vs, p + length bs + length ?body)"
    using Cons.prems part by (intro Cons.IH) auto
  then show ?case
    using read_arg_step [of v t bs pre p stop "?body @ r" "encode_text (map fst ps) @ 0 # cs"] Cons part
    by (auto simp del: read_args.simps)
qed

section \<open>A datagram of the demo\<close>

lemma osc_datagram_parts:
  assumes "osc_datagram a vs = Inr d"
  obtains ps where "list_all2 (\<lambda>v part. osc_arg v = Inr part) vs ps"
    "d = pad (encode_text a) @ pad (encode_text ('','' @ map fst ps)) @ concat (map snd ps)"
proof -
  let ?step = "\<lambda>v (tags, body). ebind (osc_arg v) (\<lambda>(t, bs). Inr (tags @ [t], body @ bs))"
  have loop: "\<exists>ps. list_all2 (\<lambda>v part. osc_arg v = Inr part) vs ps
      \<and> out = (tags @ map fst ps, body @ concat (map snd ps))"
    if "efold ?step vs (tags, body) = Inr out" for tags :: string and body :: "byte list" and out
    using that
  proof (induction vs arbitrary: tags body)
    case Nil
    then show ?case by simp
  next
    case (Cons v vs)
    then obtain t bs where v: "osc_arg v = Inr (t, bs)"
      and "efold ?step vs (tags @ [t], body @ bs) = Inr out"
      by (auto simp: ebind_eq_Inr)
    then obtain ps where "list_all2 (\<lambda>v part. osc_arg v = Inr part) vs ps"
      "out = ((tags @ [t]) @ map fst ps, (body @ bs) @ concat (map snd ps))"
      using Cons.IH by blast
    then show ?case
      using v by (intro exI [of _ "(t, bs) # ps"]) simp
  qed
  obtain tags body where out: "efold ?step vs ('','', []) = Inr (tags, body)"
    "d = pad (encode_text a) @ pad (encode_text tags) @ body"
    using assms by (auto simp: osc_datagram_def ebind_eq_Inr)
  then show ?thesis
    using that loop [OF out(1)] by auto
qed

lemma osc_arg_tag: "osc_arg v = Inr (t, bs) \<Longrightarrow> 0 < (of_char t :: nat) \<and> (of_char t :: nat) < 128"
  by (auto simp: osc_arg_def split: pyval.splits if_splits)

lemma plain_tags:
  "list_all2 (\<lambda>v part. osc_arg v = Inr part) vs ps \<Longrightarrow> plain (map fst ps)"
  by (induction vs ps rule: list_all2_induct) (auto simp: plain_def dest: osc_arg_tag)

text \<open>Parsing a message that starts at \<open>b\<close>: its length \<open>n\<close> reaches past the type tags.\<close>

lemma parse_at:
  assumes "plain a" "plain ts" "length pre = b" "next4 (length a) + length ts + 1 < n"
    and "n \<le> next4 (length a) + length (pad (encode_text ('','' @ ts)) @ r)"
  shows "tosc_parseMessage (pre @ pad (encode_text a) @ pad (encode_text ('','' @ ts)) @ r) b (int n) m =
    Inr (0, \<lparr>t_format = Some (b + next4 (length a) + 1),
             t_marker = Some (b + next4 (length a) + next4 (length ts + 1)), t_buffer = Some b, t_len = n\<rparr>)"
proof -
  let ?A = "encode_text a" and ?T = "encode_text ts"
  let ?rx = "pre @ pad ?A @ pad (encode_text ('','' @ ts)) @ r"
  have s0: "scan_to 0 ?rx b = Inr (b + length a)"
    using scan_to_skip [OF plain_nonzero [OF assms(1)] assms(3)] by (simp add: pad_split)
  have "scan_to 44 ((pre @ ?A) @ replicate (4 - length a mod 4) 0 @ 44 # ys) (b + length a)
      = Inr (b + length a + (4 - length a mod 4))" for ys
    using scan_to_skip [of 44 "replicate (4 - length a mod 4) 0" "pre @ ?A" "b + length a"] assms(3) by simp
  moreover have "length a + (4 - length a mod 4) = next4 (length a)"
    using length_pad [of ?A] by (simp add: pad_def)
  ultimately have s1: "scan_to 44 ?rx (b + length a) = Inr (b + next4 (length a))"
    by (simp add: pad_def)
  define k where "k = n - next4 (length a)"
  define rx where "rx = ?rx"
  have dr: "drop (b + next4 (length a)) rx = pad (encode_text ('','' @ ts)) @ r"
    using assms(3) by (simp add: rx_def)
  have "take k (44 # ?T @ 0 # ys) = 44 # ?T @ 0 # take (k - length ts - 2) ys" for ys
    using assms(4) by (auto simp: k_def take_Cons' Suc_diff_Suc numeral_2_eq_2)
  then have tw: "takeWhile (\<lambda>x. x \<noteq> 0) (take k (drop (b + next4 (length a)) rx)) = 44 # ?T"
    using plain_nonzero [OF assms(2)] unfolding dr
    by (auto simp: pad_split takeWhile_append takeWhile_eq_all_conv)
  have "b + n \<le> length rx"
    using assms(3,5) by (simp add: rx_def)
  then have "tosc_parseMessage rx b (int n) m =
    Inr (0, \<lparr>t_format = Some (b + next4 (length a) + 1),
             t_marker = Some (b + next4 (length a) + next4 (length ts + 1)), t_buffer = Some b, t_len = n\<rparr>)"
    using assms(4) tw next4_add [of "length a" "length ts + 1"]
    by (simp add: tosc_parseMessage_def s0 [folded rx_def] s1 [folded rx_def] k_def Let_def)
  then show ?thesis by (simp only: rx_def)
qed


text \<open>The bytes of a datagram before its arguments: the address and the type tags.\<close>

definition header_length :: "string \<Rightarrow> pyval list \<Rightarrow> nat" where
  "header_length a vs = next4 (length a) + next4 (length vs + 1)"

text \<open>
  A message at \<open>b\<close> in the receive buffer, of which \<open>n\<close> bytes are taken to be there: at least the
  header, and everything unless all its arguments are numbers.
\<close>

lemma handled_at:
  assumes "osc_datagram a vs = Inr d" "plain a" "list_all plain_arg vs" "length pre = b"
    and n: "header_length a vs \<le> n" "n \<le> length d" "list_all numeric vs \<or> n = length d"
  obtains m' where "tosc_parseMessage (pre @ d @ r) b (int n) m = Inr (0, m')"
    "\<And>s. handle_message lib (pre @ d @ r) m' s =
       Inr (m'\<lparr>t_marker := Some (b + length d)\<rparr>, native_handle lib a (map wire_arg vs) s)"
    "header_length a vs = length d \<Longrightarrow> t_marker m' = Some (b + length d)"
proof -
  obtain ps where ps: "list_all2 (\<lambda>v part. osc_arg v = Inr part) vs ps"
    "d = pad (encode_text a) @ pad (encode_text ('','' @ map fst ps)) @ concat (map snd ps)"
    using osc_datagram_parts [OF assms(1)] by blast
  let ?ts = "map fst ps" and ?body = "concat (map snd ps)"
  have len: "length ps = length vs"
    using list_all2_lengthD [OF ps(1)] by simp
  let ?m = "\<lparr>t_format = Some (b + next4 (length a) + 1), t_marker = Some (b + header_length a vs),
    t_buffer = Some b, t_len = n\<rparr>"
  define rx where "rx = pre @ d @ r"
  have "tosc_parseMessage rx b (int n) m = Inr (0, ?m)"
    using parse_at [OF assms(2) plain_tags [OF ps(1)] assms(4), of n "?body @ r" m] n(1,2) ps(2) len
      next4_bounds(1) [of "length vs + 1"]
    by (simp add: rx_def header_length_def add.assoc)
  moreover have "c_string rx b = Inr (encode_text a)"
    using c_string_pad [OF assms(2,4)] by (simp add: rx_def ps(2))
  moreover have "drop (b + next4 (length a) + 1) rx =
      encode_text ?ts @ 0 # replicate (3 - length (encode_text ('','' @ ?ts)) mod 4) 0 @ ?body @ r"
  proof -
    have "drop (b + next4 (length a)) rx = pad (encode_text ('','' @ ?ts)) @ ?body @ r"
      using assms(4) by (simp add: rx_def ps(2))
    then have "drop 1 (drop (b + next4 (length a)) rx) = drop 1 (pad (encode_text ('','' @ ?ts)) @ ?body @ r)"
      by simp
    then show ?thesis by (simp add: pad_split)
  qed
  moreover have "read_args ((pre @ pad (encode_text a) @ pad (encode_text ('','' @ ?ts))) @ ?body @ r) (b + n)
      (encode_text ?ts @ 0 # cs) (b + header_length a vs) = Inr (map wire_arg vs, b + header_length a vs + length ?body)" for cs
    using n(3) ps(2) assms(4) len
    by (intro read_args_all [OF ps(1) assms(3)]) (auto simp: header_length_def)
  moreover have "length d = header_length a vs + length ?body"
    using ps(2) len by (simp add: header_length_def)
  ultimately have "tosc_parseMessage rx b (int n) m = Inr (0, ?m)"
    "\<And>s. handle_message lib rx ?m s =
       Inr (?m\<lparr>t_marker := Some (b + length d)\<rparr>, native_handle lib a (map wire_arg vs) s)"
    by (simp_all add: handle_message_def message_of_def rx_def ps(2) del: read_args.simps)
  then show ?thesis
    by (intro that [of ?m]) (simp_all add: rx_def)
qed

lemma not_bundle:
  assumes "plain a" "a \<noteq> ''#bundle''"
  shows "\<not> tosc_isBundle (pad (encode_text a) @ r)"
proof
  assume b: "tosc_isBundle (pad (encode_text a) @ r)"
  define rx where "rx = pad (encode_text a) @ r"
  have "takeWhile (\<lambda>x. x \<noteq> 0) rx = encode_text a"
    using plain_nonzero [OF assms(1)] by (auto simp: rx_def pad_split takeWhile_append takeWhile_eq_all_conv)
  moreover have "takeWhile (\<lambda>x. x \<noteq> 0) (take 8 rx @ drop 8 rx) = encode_text ''#bundle''"
    using b by (simp add: tosc_isBundle_def rx_def [symmetric] del: append_take_drop_id)
  ultimately show False
    using assms(2) decode_encode by (metis append_take_drop_id)
qed

lemma received_append: "length d \<le> length buf \<Longrightarrow> received d buf = d @ drop (length d) buf"
  by (simp add: received_def)


section \<open>Single datagrams\<close>

lemma completed:
  assumes "osc_datagram a vs = Inr d" "plain a" "a \<noteq> ''#bundle''" "list_all plain_arg vs"
    and "take (length d) (received c buf) = d" "length c \<le> length buf"
    and "header_length a vs \<le> length c" "length c \<le> length d" "list_all numeric vs \<or> length c = length d"
  shows "receive_datagram lib c buf s =
    (received c buf, Some (Inr (native_handle lib a (map wire_arg vs) s)))"
proof -
  let ?rx = "received c buf"
  obtain r where r: "?rx = d @ r"
    using assms(5) by (metis append_take_drop_id)
  obtain m' where m: "tosc_parseMessage ?rx 0 (int (length c)) unset = Inr (0, m')"
    "\<And>s. handle_message lib ?rx m' s = Inr (m'\<lparr>t_marker := Some (length d)\<rparr>, native_handle lib a (map wire_arg vs) s)"
    using handled_at [OF assms(1,2,4), of "[]" 0 "length c" r unset lib] assms(7-9) r by auto
  obtain tail where "d = pad (encode_text a) @ tail"
    using osc_datagram_parts [OF assms(1)] by blast
  then have "\<not> tosc_isBundle ?rx"
    using not_bundle [OF assms(2,3)] r by simp
  moreover have "0 < length c"
    using assms(7) next4_bounds(1) [of "length a"] unfolding header_length_def by linarith
  ultimately show ?thesis
    using m assms(6) by (auto simp: receive_datagram_def Let_def min_def)
qed

lemma receive_encoded:
  assumes "osc_datagram a vs = Inr d" "plain a" "a \<noteq> ''#bundle''" "list_all plain_arg vs" "length d \<le> length buf"
  shows "receive_datagram lib d buf s =
    (d @ drop (length d) buf, Some (Inr (native_handle lib a (map wire_arg vs) s)))"
proof -
  obtain ps where ps: "list_all2 (\<lambda>v part. osc_arg v = Inr part) vs ps"
    "d = pad (encode_text a) @ pad (encode_text ('','' @ map fst ps)) @ concat (map snd ps)"
    using osc_datagram_parts [OF assms(1)] by blast
  have "header_length a vs \<le> length d"
    using ps(2) list_all2_lengthD [OF ps(1)] by (simp add: header_length_def)
  then show ?thesis
    using completed [OF assms(1-4), of d buf lib s] assms(5) by (simp add: received_append)
qed

text \<open>C17. Over the wire and back. A message the demo encodes, with an ASCII address and ASCII text, is
  what the native receiver hands to the server, whatever earlier datagrams left in its buffer:
  the same address, the integers, the floats rounded to binary32 and the text, each under its
  type tag.\<close>

theorem wire_roundtrip:
  assumes "osc_datagram a vs = Inr d" "plain a" "a \<noteq> ''#bundle''" "list_all plain_arg vs" "length d \<le> length buf"
  shows "receive_datagram lib d buf s =
    (d @ drop (length d) buf, Some (Inr (native_handle lib a (map wire_arg vs) s)))"
  using assms by (rule receive_encoded)

lemma bits_of_one: "bits_of_flt F32 (Fin 1) = 127 * 2 ^ 23"
  using ilog_pow2 [of 0] by (simp add: bits_of_flt_def magnitude_bits_def rnd_exp_def power_int_minus Let_def)

lemma be_bytes_4:
  "be_bytes 4 w = [of_nat (w div 256 div 256 div 256), of_nat (w div 256 div 256), of_nat (w div 256), of_nat w]"
proof -
  have "4 = Suc (Suc (Suc (Suc 0)))" by simp
  then show ?thesis by (simp only: be_bytes.simps append.simps)
qed

lemma replicate_2: "replicate 2 x = [x, x]"
  by (simp add: numeral_2_eq_2)

lemma sample_datagram:
  "osc_datagram ''/a'' [VInt (- 1), VFloat (Fin 1)] =
     Inr [47, 97, 0, 0, 44, 105, 102, 0, 255, 255, 255, 255, 63, 128, 0, 0]"
  by (simp add: osc_datagram_def osc_arg_def bits_of_one pad_def encode_text_def be_bytes_4 replicate_2)

lemma plain_sample: "plain ''/a''" "plain []"
  by (simp_all add: plain_def)

theorem wire_roundtrip_witness:
  "\<forall>s. receive_datagram thru_lib [47, 97, 0, 0, 44, 105, 102, 0, 255, 255, 255, 255, 63, 128, 0, 0] (replicate RECV_SIZE 7) s =
     ([47, 97, 0, 0, 44, 105, 102, 0, 255, 255, 255, 255, 63, 128, 0, 0] @ replicate 4080 7,
      Some (Inr (native_handle thru_lib ''/a'' [(CHR ''i'', VInt (- 1)), (CHR ''f'', VFloat (Fin 1))] s)))"
  using wire_roundtrip [OF sample_datagram plain_sample(1), of "replicate RECV_SIZE 7" thru_lib]
  by (simp add: plain_arg_def RECV_SIZE_def)

text \<open>C37. A datagram that is cut short is completed with whatever an earlier one left in the receive
  buffer: if its bytes and the left-over ones behind them read as a message whose arguments are
  numbers, that message is handled, though only its address and type tags were received.\<close>

theorem cut_datagram_completed:
  assumes "osc_datagram a vs = Inr d" "plain a" "a \<noteq> ''#bundle''" "list_all numeric vs"
    and "take (length d) (received c buf) = d" "length c \<le> length buf"
    and "header_length a vs \<le> length c" "length c \<le> length d"
  shows "receive_datagram lib c buf s =
    (received c buf, Some (Inr (native_handle lib a (map wire_arg vs) s)))"
proof -
  have "list_all plain_arg vs"
    using assms(4) by (simp add: list_all_iff plain_arg_def)
  then show ?thesis
    using completed [OF assms(1-3)] assms(4-8) by blast
qed

lemma empty_datagram: "osc_datagram ''/a'' [] = Inr [47, 97, 0, 0, 44, 0, 0, 0]"
  by (simp add: osc_datagram_def pad_def encode_text_def replicate_2 numeral_3_eq_3)

lemma int_datagrams:
  "osc_datagram ''/b'' [VInt 7] = Inr [47, 98, 0, 0, 44, 105, 0, 0, 0, 0, 0, 7]"
  by (simp add: osc_datagram_def osc_arg_def pad_def encode_text_def be_bytes_4 replicate_2)

text \<open>Eight bytes of \<open>/b ,i\<close> after a complete \<open>/a ,i 7\<close>.\<close>

theorem cut_datagram_completed_witness:
  "\<forall>s. receive_datagram thru_lib [47, 98, 0, 0, 44, 105, 0, 0] [47, 97, 0, 0, 44, 105, 0, 0, 0, 0, 0, 7] s =
    ([47, 98, 0, 0, 44, 105, 0, 0, 0, 0, 0, 7],
     Some (Inr (native_handle thru_lib ''/b'' [(CHR ''i'', VInt 7)] s)))"
  using cut_datagram_completed [OF int_datagrams, of "[47, 98, 0, 0, 44, 105, 0, 0]" "[47, 97, 0, 0, 44, 105, 0, 0, 0, 0, 0, 7]" thru_lib]
  by (simp add: plain_def received_def header_length_def next4_def)

text \<open>C36. A message whose first argument is a text that is missing altogether ends in a fault,
  whatever is in the buffer: the text reader returns a null pointer, of which a string is made.\<close>

theorem missing_text_faults:
  assumes "plain a" "a \<noteq> ''#bundle''" "plain ts"
    and "d = pad (encode_text a) @ pad (encode_text ('',s'' @ ts))" "length d \<le> length buf"
  shows "\<exists>e. receive_datagram lib d buf s = (d @ drop (length d) buf, Some (Inl e))
    \<and> (e = NullText \<or> e = OutOfBuffer)"
proof -
  let ?r = "drop (length d) buf"
  define rx where "rx = d @ ?r"
  let ?m = "\<lparr>t_format = Some (next4 (length a) + 1), t_marker = Some (length d), t_buffer = Some 0, t_len = length d\<rparr>"
  have ts: "plain (CHR ''s'' # ts)"
    using assms(3) by (simp add: plain_def)
  have "tosc_parseMessage rx 0 (int (length d)) unset = Inr (0, ?m)"
    using parse_at [OF assms(1) ts, of "[]" 0 "length d" ?r unset] assms(4) next4_bounds(1) [of "length ts + 2"]
    by (simp add: rx_def)
  moreover have "c_string rx 0 = Inr (encode_text a)"
    using c_string_pad [OF assms(1), of "[]" 0] by (simp add: rx_def assms(4))
  moreover have "drop (next4 (length a) + 1) rx = 115 # encode_text ts @ 0 # replicate (3 - (length ts + 2) mod 4) 0 @ ?r"
  proof -
    have "drop (next4 (length a)) rx = pad (encode_text ('',s'' @ ts)) @ ?r"
      by (simp add: rx_def assms(4))
    then have "drop 1 (drop (next4 (length a)) rx) = drop 1 (pad (encode_text ('',s'' @ ts)) @ ?r)"
      by simp
    then show ?thesis by (simp add: pad_split)
  qed
  moreover have "fbind (c_string rx (length d)) (\<lambda>bs. if length d \<le> length d + length bs then Inl NullText else k bs)
      \<in> {Inl NullText, Inl OutOfBuffer}" for k :: "byte list \<Rightarrow> fault + tagged \<times> nat"
    by (simp add: c_string_def scan_to_def Let_def)
  ultimately have "\<exists>e. fbind (tosc_parseMessage rx 0 (int (length d)) unset) (\<lambda>(rc, m).
      if rc = 0 then fbind (handle_message lib rx m s) (\<lambda>(_, s'). Inr s') else Inr s) = Inl e
      \<and> (e = NullText \<or> e = OutOfBuffer)"
    by (simp add: handle_message_def message_of_def read_args_tags c_string_def scan_to_def Let_def
        del: read_args.simps)
  moreover have "\<not> tosc_isBundle rx"
    using not_bundle [OF assms(1,2)] by (simp add: rx_def assms(4))
  moreover have "d \<noteq> []"
    by (simp add: assms(4) pad_split)
  moreover have "received d buf = rx"
    using assms(5) by (simp add: received_append rx_def)
  ultimately show ?thesis
    using assms(5) by (simp add: receive_datagram_def Let_def min_absorb1 flip: rx_def)
qed


theorem missing_text_faults_witness:
  "\<forall>s. \<exists>e. receive_datagram thru_lib [47, 97, 0, 0, 44, 115, 0, 0] (replicate RECV_SIZE 0) s =
      ([47, 97, 0, 0, 44, 115, 0, 0] @ replicate 4088 0, Some (Inl e)) \<and> (e = NullText \<or> e = OutOfBuffer)"
  using missing_text_faults [OF plain_sample(1) _ plain_sample(2), of "[47, 97, 0, 0, 44, 115, 0, 0]" "replicate RECV_SIZE 0" thru_lib]
  by (simp add: RECV_SIZE_def pad_def replicate_2)

section \<open>Memory safety of the parser\<close>

text \<open>C35. The parser stays inside the receive buffer exactly when there is a comma somewhere behind a
  zero byte in it: the length of the datagram does not bound its first two scans.\<close>

theorem parse_in_bounds_iff:
  assumes "n \<le> length rx"
  shows "(\<exists>rc m'. tosc_parseMessage rx 0 (int n) m = Inr (rc, m'))
    \<longleftrightarrow> (\<exists>i j. i < j \<and> j < length rx \<and> rx ! i = 0 \<and> rx ! j = 44)"
proof -
  have "(\<exists>rc m'. tosc_parseMessage rx 0 (int n) m = Inr (rc, m'))
      \<longleftrightarrow> (\<exists>i0 i1. scan_to 0 rx 0 = Inr i0 \<and> scan_to 44 rx i0 = Inr i1)"
  proof (cases "scan_to 0 rx 0")
    case (Inr i0)
    then show ?thesis
      using assms by (cases "scan_to 44 rx i0") (auto simp: tosc_parseMessage_def Let_def)
  qed (simp add: tosc_parseMessage_def)
  also have "\<dots> \<longleftrightarrow> (\<exists>i j. i < j \<and> j < length rx \<and> rx ! i = 0 \<and> rx ! j = 44)"
  proof
    assume "\<exists>i0 i1. scan_to 0 rx 0 = Inr i0 \<and> scan_to 44 rx i0 = Inr i1"
    then obtain i0 i1 where "scan_to 0 rx 0 = Inr i0" "scan_to 44 rx i0 = Inr i1" by blast
    then show "\<exists>i j. i < j \<and> j < length rx \<and> rx ! i = 0 \<and> rx ! j = 44"
      by (intro exI [of _ i0] exI [of _ i1]) (auto simp: scan_to_Inr order_less_le)
  next
    assume "\<exists>i j. i < j \<and> j < length rx \<and> rx ! i = 0 \<and> rx ! j = 44"
    then obtain i j where ij: "i < j" "j < length rx" "rx ! i = 0" "rx ! j = 44" by blast
    then obtain i0 where i0: "scan_to 0 rx 0 = Inr i0"
      using scan_to_ex [of 0 i rx 0] by auto
    then have "i0 \<le> i"
      using ij by (auto simp: scan_to_Inr not_le [symmetric])
    then show "\<exists>i0 i1. scan_to 0 rx 0 = Inr i0 \<and> scan_to 44 rx i0 = Inr i1"
      using i0 scan_to_ex [of i0 j rx 44] ij by auto
  qed
  finally show ?thesis .
qed

text \<open>Three bytes in a fresh buffer: the scan for the comma leaves the buffer.\<close>

theorem parse_in_bounds_iff_witness:
  "\<not> (\<exists>rc m. tosc_parseMessage ([1, 2, 3] @ replicate 4093 0) 0 3 unset = Inr (rc, m))"
  using parse_in_bounds_iff [of 3 "[1, 2, 3] @ replicate 4093 0" unset]
  by (auto simp: nth_append nth_Cons' split: if_splits)

section \<open>Bundles\<close>

text \<open>A bundle as OSC 1.0 lays it out: the marker, a time tag, and each message under its length.\<close>

definition osc_bundle :: "byte list \<Rightarrow> byte list list \<Rightarrow> byte list" where
  "osc_bundle timetag ds =
     encode_text ''#bundle'' @ [0] @ timetag @ concat (map (\<lambda>d. be_bytes 4 (length d) @ d) ds)"

lemma next_message:
  assumes "length pre = mk" "length d < 2 ^ 31"
  shows "tosc_getNextMessage (pre @ be_bytes 4 (length d) @ d @ r) mk m =
    fbind (tosc_parseMessage ((pre @ be_bytes 4 (length d)) @ d @ r) (mk + 4) (int (length d)) m)
      (\<lambda>(rc, m'). Inr (mk + (4 + length d), m'))"
proof -
  have "read_be 4 (pre @ be_bytes 4 (length d) @ d @ r) mk = Inr (length d)"
    using assms by (intro read_be_at) simp_all
  moreover have "sint (of_nat (length d) :: 32 word) = int (length d)"
    using int32_word [of "int (length d)"] assms(2) by (simp add: nat_mod_as_int)
  moreover have "unat (4 + of_nat (length d) :: 32 word) = 4 + length d"
  proof -
    have "4 + of_nat (length d) = (of_nat (4 + length d) :: 32 word)"
      by (simp only: of_nat_add of_nat_numeral)
    then show ?thesis
      using assms(2) by (simp only: unat_of_nat) simp
  qed
  ultimately show ?thesis
    by (simp add: tosc_getNextMessage_def)
qed


lemma bundle_step:
  assumes "osc_datagram a vs = Inr d" "plain a" "list_all plain_arg vs" "length pre = mk"
    and "length d < 2 ^ 31" "mk < n"
  obtains m' where
    "bundle_loop lib (pre @ be_bytes 4 (length d) @ d @ r) n mk m s =
       bundle_loop lib (pre @ be_bytes 4 (length d) @ d @ r) n (mk + (4 + length d)) m'
         (native_handle lib a (map wire_arg vs) s)"
    "\<And>t. vs = [] \<Longrightarrow> handle_message lib (pre @ be_bytes 4 (length d) @ d @ r) m' t =
       Inr (m', native_handle lib a [] t)"
proof -
  define rx where "rx = pre @ be_bytes 4 (length d) @ d @ r"
  have rx: "rx = (pre @ be_bytes 4 (length d)) @ d @ r"
    by (simp add: rx_def)
  obtain ps where ps: "list_all2 (\<lambda>v part. osc_arg v = Inr part) vs ps"
    "d = pad (encode_text a) @ pad (encode_text ('','' @ map fst ps)) @ concat (map snd ps)"
    using osc_datagram_parts [OF assms(1)] by blast
  have hd: "header_length a vs \<le> length d" "vs = [] \<Longrightarrow> header_length a vs = length d"
    using ps list_all2_lengthD [OF ps(1)] by (auto simp: header_length_def)
  obtain m1 where m1: "tosc_parseMessage rx (mk + 4) (int (length d)) m = Inr (0, m1)"
    "\<And>u. handle_message lib rx m1 u =
       Inr (m1\<lparr>t_marker := Some (mk + 4 + length d)\<rparr>, native_handle lib a (map wire_arg vs) u)"
    "header_length a vs = length d \<Longrightarrow> t_marker m1 = Some (mk + 4 + length d)"
    using handled_at [OF assms(1-3), of "pre @ be_bytes 4 (length d)" "mk + 4" "length d" r m lib] assms(4) hd(1)
    unfolding rx by auto
  have "bundle_loop lib rx n mk m s = bundle_loop lib rx n (mk + (4 + length d))
      (m1\<lparr>t_marker := Some (mk + 4 + length d)\<rparr>) (native_handle lib a (map wire_arg vs) s)"
    using assms(6) m1(1,2) next_message [OF assms(4,5), of r m]
    by (subst bundle_loop.simps) (simp flip: rx_def rx)
  moreover have "m1\<lparr>t_marker := Some (mk + 4 + length d)\<rparr> = m1" if "vs = []"
    using m1(3) hd(2) [OF that] by simp
  ultimately show ?thesis
    using m1(2) by (intro that) (auto simp flip: rx_def)
qed

text \<open>C34. A bundle of messages, encoded as OSC lays it out, is handled message by message in the order
  it holds them, as long as it fits into the receive buffer.\<close>

theorem bundle_in_order:
  assumes "list_all2 (\<lambda>(a, vs) d. osc_datagram a vs = Inr d) ms ds"
    and "list_all (\<lambda>(a, vs). plain a \<and> list_all plain_arg vs) ms"
    and "length timetag = 8" "length buf = RECV_SIZE" "length (osc_bundle timetag ds) \<le> RECV_SIZE"
  shows "receive_datagram lib (osc_bundle timetag ds) buf s =
    (osc_bundle timetag ds @ drop (length (osc_bundle timetag ds)) buf,
     Some (Inr (fold (\<lambda>(a, vs). native_handle lib a (map wire_arg vs)) ms s)))"
proof -
  let ?tail = "\<lambda>ds. concat (map (\<lambda>d. be_bytes 4 (length d) @ d) ds)"
  have loop: "bundle_loop lib (pre @ ?tail ds @ r) (length pre + length (?tail ds)) (length pre) m s =
      Some (Inr (fold (\<lambda>(a, vs). native_handle lib a (map wire_arg vs)) ms s))"
    if "length (?tail ds) \<le> RECV_SIZE" for pre m r
    using assms(1,2) that
  proof (induction ms ds arbitrary: pre m s rule: list_all2_induct)
    case Nil
    then show ?case by (subst bundle_loop.simps) simp
  next
    case (Cons mg ms d ds)
    obtain a vs where mg: "mg = (a, vs)" by (cases mg)
    have "osc_datagram a vs = Inr d" "plain a" "list_all plain_arg vs" "length d < 2 ^ 31"
      "length pre < length pre + length (?tail (d # ds))"
      using Cons.hyps(1) Cons.prems mg by (auto simp: RECV_SIZE_def)
    then obtain m' where "bundle_loop lib (pre @ be_bytes 4 (length d) @ d @ ?tail ds @ r)
        (length pre + length (?tail (d # ds))) (length pre) m s =
      bundle_loop lib (pre @ be_bytes 4 (length d) @ d @ ?tail ds @ r)
        (length pre + length (?tail (d # ds))) (length pre + (4 + length d)) m' (native_handle lib a (map wire_arg vs) s)"
      using bundle_step [OF \<open>osc_datagram a vs = Inr d\<close> \<open>plain a\<close> \<open>list_all plain_arg vs\<close> refl,
        of pre "length pre + length (?tail (d # ds))" lib "?tail ds @ r" m s] by blast
    then show ?case
      using Cons.IH [of "pre @ be_bytes 4 (length d) @ d" m' "native_handle lib a (map wire_arg vs) s"] Cons.prems mg
      by (simp add: add.assoc)
  qed
  let ?b = "osc_bundle timetag ds" and ?pre = "encode_text ''#bundle'' @ [0] @ timetag"
  have b: "?b = ?pre @ ?tail ds" "length ?pre = 16"
    using assms(3) by (simp_all add: osc_bundle_def)
  have "bundle_loop lib (?b @ drop (length ?b) buf) (length ?b) 16 unset s =
      Some (Inr (fold (\<lambda>(a, vs). native_handle lib a (map wire_arg vs)) ms s))"
    using loop [of ?pre "drop (length ?b) buf" unset] assms(5) b by simp
  moreover have "tosc_isBundle (?b @ r)" for r
    by (simp add: tosc_isBundle_def osc_bundle_def)
  moreover have "received ?b buf = ?b @ drop (length ?b) buf" "min (length ?b) (length buf) = length ?b" "length ?b \<noteq> 0"
    using assms(4,5) b by (simp_all add: received_append)
  ultimately show ?thesis
    by (simp add: receive_datagram_def Let_def)
qed


theorem bundle_in_order_witness:
  "\<forall>s. snd (receive_datagram thru_lib
      (osc_bundle (replicate 8 0) [[47, 97, 0, 0, 44, 0, 0, 0], [47, 98, 0, 0, 44, 105, 0, 0, 0, 0, 0, 7]])
      (replicate RECV_SIZE 0) s) =
    Some (Inr (native_handle thru_lib ''/b'' [(CHR ''i'', VInt 7)] (native_handle thru_lib ''/a'' [] s)))"
  using bundle_in_order [of "[(''/a'', []), (''/b'', [VInt 7])]"
      "[[47, 97, 0, 0, 44, 0, 0, 0], [47, 98, 0, 0, 44, 105, 0, 0, 0, 0, 0, 7]]" "replicate 8 0" "replicate RECV_SIZE 0" thru_lib]
  by (simp add: empty_datagram int_datagrams plain_def plain_arg_def osc_bundle_def RECV_SIZE_def del: be_bytes.simps)

lemma bundle_stuck:
  assumes "mk < n" "tosc_getNextMessage rx mk m = Inr (mk, m)" "\<And>t. \<exists>t'. handle_message lib rx m t = Inr (m, t')"
  shows "bundle_loop lib rx n mk m s = None"
proof (rule ccontr)
  assume "bundle_loop lib rx n mk m s \<noteq> None"
  then obtain y where "bundle_loop lib rx n mk m s = Some y" by blast
  then have "\<not> (lib = lib \<and> rx = rx \<and> n = n \<and> mk = mk \<and> m = m)"
  proof (rule bundle_loop.raw_induct [rotated, where P = "\<lambda>l r k j u t y. \<not> (l = lib \<and> r = rx \<and> k = n \<and> j = mk \<and> u = m)"])
    fix go l r k j u t y
    assume ih: "\<And>l r k j u t y. go l r k j u t = Some y \<Longrightarrow> \<not> (l = lib \<and> r = rx \<and> k = n \<and> j = mk \<and> u = m)"
      and y: "(if k \<le> j then Some (Inr t)
        else case tosc_getNextMessage r j u of Inl e \<Rightarrow> Some (Inl e)
          | Inr (mk', m1) \<Rightarrow> (case handle_message l r m1 t of Inl e \<Rightarrow> Some (Inl e)
            | Inr (m2, s') \<Rightarrow> go l r k mk' m2 s')) = Some y"
    obtain t' where t': "handle_message lib rx m t = Inr (m, t')"
      using assms(3) by blast
    show "\<not> (l = lib \<and> r = rx \<and> k = n \<and> j = mk \<and> u = m)"
      using y assms(1,2) t' ih [of lib rx n mk m t' y] by auto
  qed
  then show False by simp
qed

text \<open>C19. One datagram can hang the receive thread for good: a bundle with one message without
  arguments whose next element claims a length of 2 ^ 32 - 4, where the marker stands still and the
  first message is handled again and again.\<close>

theorem bundle_hangs:
  assumes "osc_datagram a [] = Inr d" "plain a" "length timetag = 8" "length buf = RECV_SIZE"
    and "e = osc_bundle timetag [d] @ be_bytes 4 (2 ^ 32 - 4) @ [0, 44]" "length e \<le> RECV_SIZE"
  shows "receive_datagram lib e buf s = (e @ drop (length e) buf, None)"
proof -
  let ?pre = "encode_text ''#bundle'' @ [0] @ timetag" and ?w = "be_bytes 4 (2 ^ 32 - 4) :: byte list"
  define rx where "rx = e @ drop (length e) buf"
  define mk where "mk = 16 + (4 + length d)"
  have rx: "rx = ?pre @ be_bytes 4 (length d) @ d @ (?w @ [0, 44] @ drop (length e) buf)"
    "length ?pre = 16" "length e = mk + 6"
    using assms(3,5) by (simp_all add: rx_def osc_bundle_def mk_def)
  have d: "length d < 2 ^ 31" "16 < length e"
    using rx(3) assms(6) by (simp_all add: mk_def RECV_SIZE_def)
  have pl: "list_all plain_arg []"
    by simp
  obtain m where m: "bundle_loop lib rx (length e) 16 unset s = bundle_loop lib rx (length e) mk m (native_handle lib a (map wire_arg []) s)"
    "\<And>t. handle_message lib rx m t = Inr (m, native_handle lib a [] t)"
    unfolding rx(1) mk_def
    by (rule bundle_step [OF assms(1,2) pl rx(2) d, where lib = lib and r = "?w @ [0, 44] @ drop (length e) buf" and m = unset and s = s]) simp
  have "tosc_getNextMessage rx mk m = Inr (mk, m)"
  proof -
    define p where "p = ?pre @ be_bytes 4 (length d) @ d"
    have p: "rx = p @ ?w @ [0, 44] @ drop (length e) buf" "length p = mk"
      using rx(2) by (simp_all add: rx(1) p_def mk_def)
    have "read_be 4 rx mk = Inr (2 ^ 32 - 4)"
      unfolding p(1) using p(2) by (rule read_be_at) simp
    moreover have "scan_to 0 rx (mk + 4) = Inr (mk + 4)" "scan_to 44 rx (mk + 4) = Inr (mk + 5)"
      using scan_to_skip [of 0 "[]" "p @ ?w" "mk + 4"] scan_to_skip [of 44 "[0]" "p @ ?w" "mk + 4"] p by simp_all
    ultimately show ?thesis
      by (simp add: tosc_getNextMessage_def tosc_parseMessage_def)
  qed
  then have "bundle_loop lib rx (length e) mk m t = None" for t
    using m(2) rx(3) by (intro bundle_stuck) auto
  moreover have "tosc_isBundle rx"
    by (simp add: tosc_isBundle_def rx(1))
  moreover have "received e buf = rx" "min (length e) (length buf) = length e" "length e \<noteq> 0"
    using assms(4,6) rx(3) by (simp_all add: received_append rx_def)
  ultimately show ?thesis
    by (simp add: receive_datagram_def Let_def m(1) flip: rx_def)
qed

theorem bundle_hangs_witness:
  "\<forall>s. snd (receive_datagram thru_lib
      (osc_bundle (replicate 8 0) [[47, 97, 0, 0, 44, 0, 0, 0]] @ be_bytes 4 (2 ^ 32 - 4) @ [0, 44])
      (replicate RECV_SIZE 0) s) = None"
  using bundle_hangs [OF empty_datagram plain_sample(1), of "replicate 8 0" "replicate RECV_SIZE 0" _ thru_lib]
  by (simp add: osc_bundle_def RECV_SIZE_def del: be_bytes.simps)

section \<open>Phase replies\<close>

lemma put_at_end:
  assumes "length xs = i" "length bs \<le> z"
  shows "put_bytes i bs (xs @ replicate z 0) = (xs @ bs) @ replicate (z - length bs) 0"
  using assms by (simp add: put_bytes_def)

lemma write_words_fit:
  assumes "length xs = i" "4 * length ws \<le> z"
  shows "write_words ws i (xs @ replicate z 0) =
    Inr (i + 4 * length ws, (xs @ concat (map (be_bytes 4) ws)) @ replicate (z - 4 * length ws) 0)"
  using assms
proof (induction ws arbitrary: xs i z)
  case (Cons w ws)
  then show ?case
    using Cons.IH [of "xs @ be_bytes 4 w" "i + 4" "z - 4"]
    by (simp add: put_at_end del: be_bytes.simps)
qed simp


lemma pad_zeros:
  assumes "next4 (length r) \<le> length r + z"
  shows "r @ replicate z 0 = pad r @ replicate (length r + z - next4 (length r)) 0"
proof -
  have n: "next4 (length r) = length r + (4 - length r mod 4)"
    using length_pad [of r] by (simp add: pad_def)
  have "replicate z (0 :: byte) = replicate (4 - length r mod 4) 0 @ replicate (z - (4 - length r mod 4)) 0"
    using assms n by (simp flip: replicate_add)
  then show ?thesis
    by (simp add: pad_def n)
qed

lemma write_fits:
  assumes "next4 (length a) + 1 + 2 * length args < n"
    and "next4 (length a) + next4 (length args + 1) + 4 * length args \<le> n"
  shows "tosc_writeMessage n a args = Inr (Inr (pad (encode_text a)
    @ pad (encode_text ('','' @ map fst args)) @ concat (map (be_bytes 4) (map snd args))))"
proof -
  let ?A = "encode_text a" and ?F = "encode_text (map fst args)" and ?c = "next4 (length a)" and ?k = "length args"
  let ?T = "encode_text ('','' @ map fst args)" and ?i = "next4 (next4 (length a) + 1 + length args)"
  have len: "length a < n" "?c < n" "?c + 1 + ?k < n" "length a < ?c"
    using assms(1) next4_bounds(1) [of "length a"] by simp_all
  have "put_bytes 0 ?A (replicate n 0) = pad ?A @ replicate (n - ?c) 0"
    using put_at_end [of "[]" 0 ?A n] pad_zeros [of ?A "n - length a"] len by simp
  then have b1: "put_bytes ?c [44] (put_bytes 0 ?A (replicate n 0)) = (pad ?A @ [44]) @ replicate (n - ?c - 1) 0"
    using put_at_end [of "pad ?A" ?c "[44]" "n - ?c"] len by simp
  have i: "?i = ?c + next4 (?k + 1)"
    using next4_add [of "length a" "?k + 1"] by simp
  have "put_bytes (?c + 1) (take (n - (?c + 1) - ?k) ?F) ((pad ?A @ [44]) @ replicate (n - ?c - 1) 0)
      = pad ?A @ ?T @ replicate (n - ?c - 1 - ?k) 0"
    using put_at_end [of "pad ?A @ [44]" "?c + 1" ?F "n - ?c - 1"] assms(1) by simp
  also have "\<dots> = (pad ?A @ pad ?T) @ replicate (n - ?i) 0"
    using pad_zeros [of ?T "n - ?c - 1 - ?k"] assms(2) len unfolding i by simp
  finally have b2: "put_bytes (?c + 1) (take (n - (?c + 1) - ?k) ?F) (put_bytes ?c [44] (put_bytes 0 ?A (replicate n 0)))
      = (pad ?A @ pad ?T) @ replicate (n - ?i) 0"
    by (simp only: b1)
  have "write_words (map snd args) ?i ((pad ?A @ pad ?T) @ replicate (n - ?i) 0) =
      Inr (?i + 4 * ?k, ((pad ?A @ pad ?T) @ concat (map (be_bytes 4) (map snd args))) @ replicate (n - ?i - 4 * ?k) 0)"
    using write_words_fit [of "pad ?A @ pad ?T" ?i "map snd args" "n - ?i"] assms(2) unfolding i by simp
  moreover have "length (concat (map (be_bytes 4) (map snd args))) = 4 * ?k"
    by (subst length_concat_map [of _ _ 4]) simp_all
  ultimately show ?thesis
    using len b2 i by (simp add: tosc_writeMessage_def Let_def)
qed

text \<open>The phase replies the native poll writes in C are, byte for byte, the message the demo's
  encoder makes of the reply address, the voice and the phase, 32 bytes.\<close>

theorem phase_reply_bytes:
  assumes "0 \<le> i" "i < 2 ^ 31" "is_flt F32 x"
  shows "\<exists>d. phase_datagram i x = Inr (Inr d) \<and> osc_datagram PHASE_ADDRESS [VInt i, VFloat x] = Inr d
    \<and> length d = 32"
proof -
  let ?words = "[(CHR ''i'', nat (i mod 2 ^ 32)), (CHR ''f'', bits_of_flt F32 x)]"
  have len: "length PHASE_ADDRESS = 19" "next4 19 = 20" "next4 3 = 4"
    by (simp_all add: PHASE_ADDRESS_def next4_def)
  have "to_f32 x = x"
    using assms(3) by (rule to_f32_id)
  then have "osc_datagram PHASE_ADDRESS [VInt i, VFloat x] = Inr (pad (encode_text PHASE_ADDRESS)
      @ pad (encode_text ('','' @ map fst ?words)) @ concat (map (be_bytes 4) (map snd ?words)))"
    using assms(1,2) by (simp add: osc_datagram_def osc_arg_def del: be_bytes.simps)
  moreover have "phase_datagram i x = Inr (Inr (pad (encode_text PHASE_ADDRESS)
      @ pad (encode_text ('','' @ map fst ?words)) @ concat (map (be_bytes 4) (map snd ?words))))"
    unfolding phase_datagram_def using len by (intro write_fits) (simp_all add: numeral_3_eq_3)
  moreover have "length (pad (encode_text PHASE_ADDRESS)
      @ pad (encode_text ('','' @ map fst ?words)) @ concat (map (be_bytes 4) (map snd ?words))) = 32"
    using len by (simp add: numeral_3_eq_3 del: be_bytes.simps)
  ultimately show ?thesis by blast
qed


end
