(* ===== verification/Touch_Wire.thy ===== *)
theory Touch_Wire
  imports Touch_Props Wire_Props
begin

text \<open>
  The finger of \<open>demos/13_osc_surface.py\<close>: the binding of a named control, the arguments it sends at
  a position, and \<open>Surface.touch\<close>, which sends them as a datagram, once or until the host shows the
  change. With them the surface, the wire format and the server are put together: what a touch
  sends the native server handles.

  \<open>document.find\<close> is py2tosc's: the parameter \<open>doc\<close> gives the messages of the control of a name, if
  there is one. The socket, the clock and the host the demo watches are parameters too.
\<close>

section \<open>Reading the surface\<close>

text \<open>A message of py2tosc sends unless it says otherwise.\<close>

definition sends :: "message \<Rightarrow> bool" where
  "sends m \<longleftrightarrow> m_send m \<noteq> Some False"

definition binding :: "(string \<Rightarrow> message list option) \<Rightarrow> string \<Rightarrow> pyexc + string \<times> message" where
  "binding doc name =
     (case doc name of
        None \<Rightarrow> Inl LookupError
      | Some ms \<Rightarrow> (case filter sends ms of
          [] \<Rightarrow> Inl LookupError
        | m # _ \<Rightarrow> Inr (m_address m, m)))"

definition argument :: "flt \<Rightarrow> partial \<Rightarrow> pyexc + pyval" where
  "argument x p =
     (case p of
        Const t INTEGER \<Rightarrow> ebind (parse_int t) (\<lambda>i. Inr (VInt i))
      | Const t FLOAT \<Rightarrow> ebind (parse_float t) (\<lambda>f. Inr (VFloat f))
      | Const t STRING \<Rightarrow> Inr (VStr t)
      | ScaledValue key conv lo hi \<Rightarrow> Inr (VFloat (fadd F64 lo (fmul F64 x (fsub F64 hi lo)))))"

definition arguments_at :: "message \<Rightarrow> flt \<Rightarrow> pyexc + pyval list" where
  "arguments_at m x = eall (map (argument x) (m_args m))"

section \<open>Touching a control\<close>

text \<open>
  The sending loop, after \<open>k\<close> sends: \<open>until i\<close> is whether the host shows the change after the send
  \<open>i\<close>, \<open>late i\<close> whether the deadline has passed then. The result is the number of datagrams sent,
  or nothing when the loop never ends.
\<close>

partial_function (option) touch_loop ::
    "(nat \<Rightarrow> bool) option \<Rightarrow> (nat \<Rightarrow> bool) \<Rightarrow> nat \<Rightarrow> (nat \<times> (pyexc + unit)) option" where
  "touch_loop until late k =
     (case until of
        None \<Rightarrow> Some (Suc k, Inr ())
      | Some shown \<Rightarrow>
          if shown k then Some (Suc k, Inr ())
          else if late k then Some (Suc k, Inl TimeoutError)
          else touch_loop until late (Suc k))"

text \<open>\<open>Surface.touch\<close>: the datagrams put on the wire, and how it ends.\<close>

definition touch ::
    "(string \<Rightarrow> message list option) \<Rightarrow> string \<Rightarrow> flt \<Rightarrow> (nat \<Rightarrow> bool) option \<Rightarrow> (nat \<Rightarrow> bool)
     \<Rightarrow> (byte list list \<times> (pyexc + unit)) option" where
  "touch doc name x until late =
     (case ebind (binding doc name) (\<lambda>(address, m). ebind (arguments_at m x) (osc_datagram address)) of
        Inl e \<Rightarrow> Some ([], Inl e)
      | Inr d \<Rightarrow> map_option (\<lambda>(n, r). (replicate n d, r)) (touch_loop until late 0))"

text \<open>\<open>build_layout\<close> of the demo: the surface with eight seconds and the given file.\<close>

definition demo_layout :: "string \<Rightarrow> pyexc + document" where
  "demo_layout read_file = build (Some (default_surface\<lparr>s_read_file := read_file, s_max_time := lit 8\<rparr>))"

section \<open>The touch arrives\<close>

lemma argument_wire:
  assumes "argument x p = Inr v" "scaled_float p"
  shows "carries p (snd (wire_arg v))" "numeric v \<or> (\<exists>t. p = Const t STRING \<and> v = VStr t)"
  using assms by (auto simp: argument_def ebind_eq_Inr split: partial.splits conversion.splits)

lemma handler_addresses_plain: "list_all (\<lambda>(a, h). plain a \<and> a \<noteq> ''#bundle'') build_handlers"
  by code_simp

lemma handler_address:
  assumes "map_of build_handlers a = Some h"
  shows "plain a" "a \<noteq> ''#bundle''"
  using map_of_SomeD [OF assms] handler_addresses_plain by (auto simp: list_all_iff)

lemma binding_Inr:
  assumes "binding doc name = Inr (a, m)"
  obtains ms where "doc name = Some ms" "m \<in> set ms" "m_send m \<noteq> Some False" "a = m_address m"
proof -
  obtain ms where ms: "doc name = Some ms"
    using assms by (auto simp: binding_def split: option.splits)
  with assms obtain rest where "filter sends ms = m # rest" "a = m_address m"
    by (auto simp: binding_def split: list.splits)
  then have "m \<in> set (filter sends ms)" "a = m_address m" by simp_all
  then show ?thesis using that ms by (simp add: sends_def)
qed

lemma touch_datagrams:
  assumes "touch doc name x until late = Some (ds, r)" "d \<in> set ds"
  obtains a m vs where "binding doc name = Inr (a, m)" "arguments_at m x = Inr vs" "osc_datagram a vs = Inr d"
  using assms by (auto simp: touch_def ebind_eq_Inr split: sum.splits if_splits)

text \<open>What a control of a built surface is bound to: a message of the surface, an address the server
  handles, arguments of the right types.\<close>

lemma bound_message:
  assumes "build (Some opts) = Inr (Resolved c)" "\<forall>ms. doc name = Some ms \<longrightarrow> set ms \<subseteq> set (msgs c)"
    and "\<forall>a m t. binding doc name = Inr (a, m) \<and> Const t STRING \<in> set (m_args m) \<longrightarrow> plain t"
    and "binding doc name = Inr (a, m)" "arguments_at m x = Inr vs"
  shows "m \<in> set (msgs c)" "m_send m \<noteq> Some False" "a = m_address m" "plain a" "a \<noteq> ''#bundle''" "list_all plain_arg vs"
    "list_all2 carries (m_args m) (map (\<lambda>v. snd (wire_arg v)) vs)"
proof -
  obtain ms where "doc name = Some ms" "m \<in> set ms" and m: "m_send m \<noteq> Some False" "a = m_address m"
    using binding_Inr [OF assms(4)] by blast
  then have mc: "m \<in> set (msgs c)"
    using assms(2) by blast
  have u: "understood (s_voices opts) m"
    using sound_document [OF assms(1)] mc m(1) by (auto simp: sound_def fine_def split: if_splits)
  have args: "list_all2 (\<lambda>p v. argument x p = Inr v) (m_args m) vs"
    using assms(5) by (simp add: arguments_at_def eall_Inr list_all2_conv_all_nth) (metis length_map nth_map)
  then show "list_all2 carries (m_args m) (map (\<lambda>v. snd (wire_arg v)) vs)"
    using u argument_wire(1) [of x] unfolding understood_def list_all2_conv_all_nth list_all_length by simp
  have "plain_arg (vs ! i)" if "i < length vs" for i
  proof -
    have "argument x (m_args m ! i) = Inr (vs ! i)" "scaled_float (m_args m ! i)" "m_args m ! i \<in> set (m_args m)"
      using that args u by (simp_all add: understood_def list_all2_conv_all_nth list_all_length)
    then show ?thesis
      using argument_wire(2) assms(3,4) by (fastforce simp: plain_arg_def)
  qed
  then show "list_all plain_arg vs"
    by (simp add: list_all_length)
  show "plain a" "a \<noteq> ''#bundle''"
    using u m(2) handler_address by (auto simp: understood_def)
qed (use assms binding_Inr [OF assms(4)] in blast)+

text \<open>C15. A touch arrives. Every datagram that touching a control of a built surface puts on the wire is
  read by a native server with as many voices as the message of that control, with an address the
  server handles, and handled, except that a buffer assignment, a disk or clear operation and a
  reset, which also get all their arguments, may still fail for their own reasons.\<close>

theorem touch_arrives:
  assumes "build (Some opts) = Inr (Resolved c)" "\<forall>a m t. binding doc name = Inr (a, m) \<and> Const t STRING \<in> set (m_args m) \<longrightarrow> plain t"
    and "\<forall>ms. doc name = Some ms \<longrightarrow> set ms \<subseteq> set (msgs c)"
    and "touch doc name x until late = Some (ds, r)" "d \<in> set ds" "length d \<le> length buf"
    and "host_wf s" "nvoices s = s_voices opts"
  shows "\<exists>a m vs h. binding doc name = Inr (a, m) \<and> arguments_at m x = Inr vs
    \<and> receive_datagram lib d buf s =
        (d @ drop (length d) buf, Some (Inr (native_handle lib a (map wire_arg vs) s)))
    \<and> map_of build_handlers a = Some h
    \<and> (fst (dispatch lib a (map (\<lambda>v. snd (wire_arg v)) vs) s) = Handled \<or> h \<in> set fallible \<and> arity h \<le> length vs)"
proof -
  obtain a m vs where t: "binding doc name = Inr (a, m)" "arguments_at m x = Inr vs" "osc_datagram a vs = Inr d"
    using touch_datagrams [OF assms(4,5)] by blast
  note b = bound_message [OF assms(1,3,2) t(1,2)]
  obtain h where h: "map_of build_handlers a = Some h"
    "fst (dispatch lib a (map (\<lambda>v. snd (wire_arg v)) vs) s) = Handled \<or> h \<in> set fallible \<and> arity h \<le> length vs"
    using message_understood [OF assms(1) b(1,2) assms(7,8) b(7)] b(3) by (metis length_map)
  have "receive_datagram lib d buf s =
      (d @ drop (length d) buf, Some (Inr (native_handle lib a (map wire_arg vs) s)))"
    using receive_encoded [OF t(3) b(4,5,6) assms(6)] .
  then show ?thesis
    using t(1,2) h by blast
qed


lemma replicate_3: "replicate 3 x = [x, x, x]"
  by (simp add: numeral_3_eq_3)

theorem touch_arrives_witness:
  "\<exists>c s. build (Some (default_surface\<lparr>s_voices := 2\<rparr>)) = Inr (Resolved c) \<and> osc_reach thru_lib s
     \<and> touch ((\<lambda>_. None)(''hello'' := Some [send_on_press ''/hello'' []])) ''hello'' (Fin 1) None (\<lambda>_. False) =
         Some ([[47, 104, 101, 108, 108, 111, 0, 0, 44, 0, 0, 0]], Inr ())
     \<and> receive_datagram thru_lib [47, 104, 101, 108, 108, 111, 0, 0, 44, 0, 0, 0] (replicate RECV_SIZE 0) s =
         ([47, 104, 101, 108, 108, 111, 0, 0, 44, 0, 0, 0] @ replicate 4084 0,
          Some (Inr (native_handle thru_lib ''/hello'' [] s)))
     \<and> fst (dispatch thru_lib ''/hello'' [] s) = Handled"
proof -
  let ?o = "default_surface\<lparr>s_voices := 2\<rparr>" and ?m = "send_on_press ''/hello'' []"
  let ?doc = "(\<lambda>_. None)(''hello'' := Some [?m])" and ?d = "[47, 104, 101, 108, 108, 111, 0, 0, 44, 0, 0, 0] :: byte list"
  obtain c where c: "build (Some ?o) = Inr (Resolved c)"
    "set (msgs (system_page DEFAULT_MAX_TIME DEFAULT_READ_FILE DEFAULT_WRITE_FILE)) \<subseteq> set (msgs c)"
    by (rule default_builds [of 2]) simp_all
  have m: "?m \<in> set (msgs c)"
    using c(2) by (auto simp: system_page_def lifecycle_buttons_def trigger_def)
  obtain s where s: "host_wf s" "nvoices s = 2" "osc_reach thru_lib s"
    by (rule fresh_server [of True]) simp
  have b: "binding ?doc ''hello'' = Inr (''/hello'', ?m)" "arguments_at ?m (Fin 1) = Inr []"
    by (simp_all add: binding_def sends_def send_on_press_def arguments_at_def)
  have "osc_datagram ''/hello'' [] = Inr ?d"
    by (simp add: osc_datagram_def pad_def encode_text_def replicate_2 replicate_3)
  then have t: "touch ?doc ''hello'' (Fin 1) None (\<lambda>_. False) = Some ([?d], Inr ())"
    using b by (simp add: touch_def touch_loop.simps)
  have "Hello \<notin> set fallible" "map_of build_handlers ''/hello'' = Some Hello"
    by (simp_all add: fallible_def)
  then show ?thesis
    using touch_arrives [OF c(1) _ _ t, of ?d "replicate RECV_SIZE 0" s thru_lib] s c(1) m t b
    by (auto simp: send_on_press_def RECV_SIZE_def)
qed

end
