(* ===== verification/Demo_Util.thy ===== *)
theory Demo_Util
  imports Engine_Frame
begin

text \<open>
  What the scripts under \<open>demos\<close> share: \<open>demos/_util.py\<close> and the numpy calls the scripts make.

  A script is a program over the store that makes engines as it goes (\<open>on_engine\<close>); what it does
  with an engine runs over the engine's state, and the arrays and files it leaves stay in the
  store. The functions that hand an engine back to their caller take what the caller does with it
  as an argument.

  numpy is not part of the repository: the calls are the fields of a record, and \<open>numpy_ok\<close> states
  the documented behaviour the scripts rely on. A 1-D float32 array is the list of its samples; a
  2-D one has a width and its samples row by row.
\<close>

section \<open>numpy\<close>

record rows =
  width :: int
  flat :: samples

record numpy =
  np_zeros :: "int \<Rightarrow> pyexc + samples"
  np_zeros_rows :: "int \<Rightarrow> int \<Rightarrow> pyexc + rows"
  np_fill :: "samples \<Rightarrow> int \<Rightarrow> samples \<Rightarrow> pyexc + samples"
  np_join :: "samples \<Rightarrow> samples \<Rightarrow> pyexc + samples"
  np_reshape :: "samples \<Rightarrow> int \<Rightarrow> pyexc + rows"
  np_concatenate :: "rows list \<Rightarrow> pyexc + rows"
  np_mean_rows :: "rows \<Rightarrow> samples"

definition row_count :: "rows \<Rightarrow> nat" where
  "row_count r = length (flat r) div nat (width r)"

text \<open>
  \<open>zeros(n)\<close>, \<open>zeros((n, c))\<close>, \<open>buf[:k] = xs\<close> for \<open>k\<close> samples, \<open>concatenate\<close> of two 1-D arrays and
  of 2-D arrays of one width, \<open>reshape(-1, c)\<close> of whole rows, and \<open>mean(axis=1)\<close>, of which only the
  number of values is used.
\<close>

definition numpy_ok :: "numpy \<Rightarrow> bool" where
  "numpy_ok np \<longleftrightarrow>
     (\<forall>n. 0 \<le> n \<longrightarrow> np_zeros np n = Inr (replicate (nat n) (Fin 0)))
   \<and> (\<forall>n c. 0 \<le> n \<and> 1 \<le> c \<longrightarrow>
        np_zeros_rows np n c = Inr \<lparr>width = c, flat = replicate (nat n * nat c) (Fin 0)\<rparr>)
   \<and> (\<forall>buf k xs. k = int (length xs) \<and> length xs \<le> length buf \<longrightarrow>
        np_fill np buf k xs = Inr (xs @ drop (length xs) buf))
   \<and> (\<forall>xs ys. np_join np xs ys = Inr (xs @ ys))
   \<and> (\<forall>xs c. 1 \<le> c \<and> int (length xs) mod c = 0 \<longrightarrow> np_reshape np xs c = Inr \<lparr>width = c, flat = xs\<rparr>)
   \<and> (\<forall>rs c. rs \<noteq> [] \<and> (\<forall>r \<in> set rs. width r = c) \<longrightarrow>
        np_concatenate np rs = Inr \<lparr>width = c, flat = concat (map flat rs)\<rparr>)
   \<and> (\<forall>r. length (np_mean_rows np r) = row_count r)"

text \<open>What \<open>memoryview\<close> shows of a 2-D array in C order.\<close>

definition rows_view :: "rows \<Rightarrow> view" where
  "rows_view r = \<lparr>vformat = ''f'', vshape = [row_count r, nat (width r)], vcontig = True, vdata = flat r\<rparr>"

section \<open>Numbers and loops of the scripts\<close>

text \<open>A decimal literal, and \<open>a / b\<close> on ints.\<close>

definition dec :: "rat \<Rightarrow> flt" where
  "dec q = rnd F64 q"

definition int_div :: "int \<Rightarrow> int \<Rightarrow> pyexc + flt" where
  "int_div a b = (if b = 0 then Inl ZeroDivisionError
     else case rnd F64 (of_int a / of_int b) of Fin q \<Rightarrow> Inr (Fin q) | _ \<Rightarrow> Inl OverflowError)"

text \<open>\<open>int(x * sr)\<close> with an int rate.\<close>

definition int_times :: "flt \<Rightarrow> int \<Rightarrow> pyexc + int" where
  "int_times x sr = ebind (float_of_int sr) (\<lambda>r. trunc_int (fmul F64 x r))"

text \<open>\<open>[f(x) for x in xs]\<close>\<close>

fun collect :: "'a list \<Rightarrow> ('a \<Rightarrow> ('s, 'b) py) \<Rightarrow> ('s, 'b list) py" where
  "collect [] f = ret []"
| "collect (x # xs) f = bnd (f x) (\<lambda>y. bnd (collect xs f) (\<lambda>ys. ret (y # ys)))"

text \<open>One statement after the other.\<close>

definition stmts :: "('s, unit) py list \<Rightarrow> ('s, unit) py" where
  "stmts ms = for_each ms (\<lambda>m. m)"

section \<open>Engines and files\<close>

text \<open>\<open>softcut.Engine(voices=n, sample_rate=sr, mode=...)\<close>, used for \<open>body\<close> and then dropped.\<close>

definition on_engine ::
    "bool \<Rightarrow> int \<Rightarrow> int \<Rightarrow> string \<Rightarrow> int \<Rightarrow> (engine, 'a) py \<Rightarrow> (store, 'a) py" where
  "on_engine dev n sr mode bs body = (\<lambda>st.
     case ebind (float_of_int sr) (\<lambda>r. new_engine st dev n r mode bs 2 (- 1) (- 1) ''upstream'') of
       Inl e \<Rightarrow> (Inl e, st)
     | Inr s \<Rightarrow> (case body s of (r, t) \<Rightarrow> (r, store.truncate t)))"

definition DATA :: "path \<Rightarrow> path" where
  "DATA repo = repo @ [''tests'', ''data'']"

definition OUT :: "path \<Rightarrow> path" where
  "OUT repo = repo @ [''build'', ''out'']"

definition load_wav_mono :: "path \<Rightarrow> ('z store_scheme, samples \<times> int) py" where
  "load_wav_mono p = (\<lambda>s. (read_wav_mono (files s) p, s))"

definition to_buffer :: "numpy \<Rightarrow> samples \<Rightarrow> pyexc + samples" where
  "to_buffer np xs =
     (let n = next_power_of_two (int (length xs))
      in ebind (np_zeros np n) (\<lambda>buf. np_fill np buf (int (length xs)) xs))"

text \<open>\<open>v.buffer = xs\<close> for a new array.\<close>

definition assign_samples :: "nat \<Rightarrow> samples \<Rightarrow> ('z engine_scheme, unit) py" where
  "assign_samples i xs = bnd (new_array xs) (set_buffer i)"

text \<open>\<open>configure\<close> with a loop region among its parameters (the scripts name it first).\<close>

definition configure_region ::
    "nat \<Rightarrow> flt \<times> flt \<Rightarrow> (string \<times> pyarg) list \<Rightarrow> ('z engine_scheme, unit) py" where
  "configure_region i region params =
     seqn (voice_set_loop_region i region) (voice_configure i params)"

text \<open>The input of a render, cut or padded to \<open>n\<close> samples.\<close>

definition fit_input :: "numpy \<Rightarrow> samples \<Rightarrow> int \<Rightarrow> pyexc + samples" where
  "fit_input np xs n =
     (let ys = py_slice xs 0 n
      in if int (length ys) < n then ebind (np_zeros np (n - int (length ys))) (np_join np ys)
         else Inr ys)"

definition render_seconds ::
    "dsp_lib \<Rightarrow> numpy \<Rightarrow> flt \<Rightarrow> samples option \<Rightarrow> ('z engine_scheme, rows) py" where
  "render_seconds lib np seconds inp =
     bnd (gets esr) (\<lambda>sr. bnd (lift (seconds_to_frames seconds sr)) (\<lambda>n.
     bnd (case inp of
            None \<Rightarrow> render lib None None (Some seconds)
          | Some xs \<Rightarrow> bnd (lift (fit_input np xs n)) (\<lambda>ys.
              bnd (new_array ys) (\<lambda>a. render lib (Some a) None None))) (\<lambda>o'.
     bnd (gets (\<lambda>s. np_reshape np (mem s o') (int (outch s)))) lift)))"

text \<open>
  \<open>time.sleep(x)\<close> while the device runs: \<open>mic x\<close> are the blocks it captures meanwhile, each of them
  a callback.
\<close>

definition nap :: "dsp_lib \<Rightarrow> (flt \<Rightarrow> samples list) \<Rightarrow> flt \<Rightarrow> ('z engine_scheme, unit) py" where
  "nap lib mic x = modify (fold (callback lib) (mic x))"

definition play_live ::
    "dsp_lib \<Rightarrow> (flt \<Rightarrow> samples list) \<Rightarrow> flt \<Rightarrow> ('z engine_scheme, unit) py" where
  "play_live lib mic seconds = (\<lambda>s.
     case engine_start s of
       (Inl RuntimeError, s1) \<Rightarrow> (Inr (), s1)
     | (Inl e, s1) \<Rightarrow> (Inl e, s1)
     | (Inr _, s1) \<Rightarrow> (case nap lib mic seconds s1 of (r, s2) \<Rightarrow>
          (case engine_stop s2 of (Inl e, s3) \<Rightarrow> (Inl e, s3) | (Inr _, s3) \<Rightarrow> (r, s3))))"

text \<open>\<open>write_wav(OUT / name, out, sr)\<close>\<close>

definition write_out :: "path \<Rightarrow> string \<Rightarrow> rows \<Rightarrow> int \<Rightarrow> ('z store_scheme, path) py" where
  "write_out repo name out sr = write_wav (OUT repo @ [name]) (rows_view out) sr None"

end
