(* ===== verification/Demo_Playback.thy ===== *)
theory Demo_Playback
  imports Demo_Util
begin

text \<open>
  The demos that play material back: \<open>demos/01_varispeed.py\<close>, \<open>02_loop_points.py\<close>,
  \<open>04_stereo_layers.py\<close>, \<open>05_filter_sweep.py\<close>, \<open>08_tape_stop.py\<close> and \<open>10_phase_sync.py\<close>, each from its
  files to the WAV file it writes, with the live part of \<open>--play\<close>. What they print is left out.

  \<open>repo\<close> is the repository's directory, \<open>dev\<close> says whether the device opens, \<open>mic\<close> what it captures.
\<close>

section \<open>Varispeed\<close>

definition RATES :: "flt list" where
  "RATES = [Fin 1, Fin 2, Fin (1 / 2), Fin (- 1)]"

definition varispeed_build ::
    "numpy \<Rightarrow> bool \<Rightarrow> samples \<Rightarrow> int \<Rightarrow> (flt \<Rightarrow> (engine, 'a) py) \<Rightarrow> (store, 'a) py" where
  "varispeed_build np dev samples sr body =
     bnd (lift (int_div (int (length samples)) sr)) (\<lambda>dur.
       on_engine dev 1 sr ''playback'' 512
         (bnd (get_voice 0) (\<lambda>v. bnd (lift (to_buffer np samples)) (\<lambda>b.
            seqn (stmts [assign_samples v b,
                     configure_region v (Fin 0, dur) [(''fade_time'', PF (dec (1 / 100))), (''level'', PF (dec (9 / 10)))],
                     set_bool v Play True])
              (body dur)))))"

text \<open>The body of the loop over the rates; a reverse pass starts at the loop end.\<close>

definition varispeed_pass :: "dsp_lib \<Rightarrow> numpy \<Rightarrow> flt \<Rightarrow> nat \<Rightarrow> flt \<Rightarrow> (engine, rows) py" where
  "varispeed_pass lib np dur v rate =
     seqn (stmts [set_float v Rate rate, cut_to v (if flt_less rate (Fin 0) then dur else Fin 0)])
       (render_seconds lib np (Fin 3) None)"

definition varispeed_main ::
    "dsp_lib \<Rightarrow> numpy \<Rightarrow> path \<Rightarrow> bool \<Rightarrow> (flt \<Rightarrow> samples list) \<Rightarrow> bool \<Rightarrow> (store, unit) py" where
  "varispeed_main lib np repo dev mic play =
     bnd (load_wav_mono (DATA repo @ [''m02.wav''])) (\<lambda>(samples, sr).
     bnd (varispeed_build np dev samples sr (\<lambda>dur. bnd (get_voice 0) (\<lambda>v.
            collect RATES (varispeed_pass lib np dur v)))) (\<lambda>segments.
     bnd (lift (np_concatenate np segments)) (\<lambda>out.
     seqn (write_out repo ''01_varispeed.wav'' out sr)
       (if play then varispeed_build np dev samples sr (\<lambda>d2. stmts [
              set_float 0 Rate (Fin 1), cut_to 0 (Fin 0), play_live lib mic (Fin 4)])
        else ret ()))))"

section \<open>Loop points\<close>

definition WINDOW :: flt where "WINDOW = dec (18 / 100)"

definition REPEATS :: int where "REPEATS = 6"

definition STARTS :: "flt list" where
  "STARTS = [Fin (1 / 2), Fin (3 / 2), Fin (5 / 2), Fin (7 / 2)]"

definition points_build :: "numpy \<Rightarrow> bool \<Rightarrow> samples \<Rightarrow> int \<Rightarrow> (engine, 'a) py \<Rightarrow> (store, 'a) py" where
  "points_build np dev samples sr body =
     on_engine dev 1 sr ''playback'' 512
       (bnd (get_voice 0) (\<lambda>v. bnd (lift (to_buffer np samples)) (\<lambda>b.
          seqn (stmts [assign_samples v b,
                   voice_configure v [(''rate'', PF (Fin 1)), (''fade_time'', PF (dec (4 / 1000))),
                     (''level'', PF (dec (9 / 10)))],
                   set_bool v Play True])
            body)))"

definition points_pass :: "dsp_lib \<Rightarrow> numpy \<Rightarrow> nat \<Rightarrow> flt \<Rightarrow> (engine, rows) py" where
  "points_pass lib np v start =
     seqn (stmts [voice_set_loop_region v (start, fadd F64 start WINDOW), cut_to v start])
       (render_seconds lib np (fmul F64 WINDOW (Fin (of_int REPEATS))) None)"

definition points_main ::
    "dsp_lib \<Rightarrow> numpy \<Rightarrow> path \<Rightarrow> bool \<Rightarrow> (flt \<Rightarrow> samples list) \<Rightarrow> bool \<Rightarrow> (store, unit) py" where
  "points_main lib np repo dev mic play =
     bnd (load_wav_mono (DATA repo @ [''m05.wav''])) (\<lambda>(samples, sr).
     bnd (points_build np dev samples sr (bnd (get_voice 0) (\<lambda>v. collect STARTS (points_pass lib np v)))) (\<lambda>segments.
     bnd (lift (np_concatenate np segments)) (\<lambda>out.
     seqn (write_out repo ''02_loop_points.wav'' out sr)
       (if play then points_build np dev samples sr (stmts [
              voice_set_loop_region 0 (hd STARTS, fadd F64 (hd STARTS) WINDOW),
              cut_to 0 (hd STARTS), play_live lib mic (Fin 4)])
        else ret ()))))"

section \<open>Stereo layers\<close>

definition LAYERS :: "(string \<times> flt \<times> flt \<times> flt) list" where
  "LAYERS =
    [(''m02.wav'', Fin 1, dec (- 7 / 10), dec (8 / 10)),
     (''m05.wav'', Fin (1 / 2), Fin 0, dec (7 / 10)),
     (''m07.wav'', Fin (3 / 2), dec (7 / 10), dec (9 / 10))]"

definition layer_voice ::
    "numpy \<Rightarrow> path \<Rightarrow> int \<Rightarrow> nat \<Rightarrow> string \<times> flt \<times> flt \<times> flt \<Rightarrow> (engine, unit) py" where
  "layer_voice np repo sr v layer =
     (case layer of (name, rate, pan, level) \<Rightarrow>
        bnd (load_wav_mono (DATA repo @ [name])) (\<lambda>(samples, fsr).
        seqn (guard (fsr = sr) AssertionError)
          (bnd (lift (to_buffer np samples)) (\<lambda>b.
             seqn (assign_samples v b)
               (bnd (lift (int_div (int (length samples)) sr)) (\<lambda>dur. stmts [
                  configure_region v (Fin 0, dur)
                    [(''rate'', PF rate), (''pan'', PF pan), (''level'', PF level), (''fade_time'', PF (dec (2 / 100)))],
                  set_bool v Play True, cut_to v (Fin 0)]))))))"

definition layers_build ::
    "numpy \<Rightarrow> path \<Rightarrow> bool \<Rightarrow> int \<Rightarrow> (engine, 'a) py \<Rightarrow> (store, 'a) py" where
  "layers_build np repo dev sr body =
     on_engine dev (int (length LAYERS)) sr ''playback'' 512
       (bnd (gets all_voices) (\<lambda>vs.
          seqn (for_each (zip LAYERS vs) (\<lambda>(layer, v). layer_voice np repo sr v layer)) body))"

definition layers_main ::
    "dsp_lib \<Rightarrow> numpy \<Rightarrow> path \<Rightarrow> bool \<Rightarrow> (flt \<Rightarrow> samples list) \<Rightarrow> bool \<Rightarrow> (store, unit) py" where
  "layers_main lib np repo dev mic play =
     bnd (layers_build np repo dev 44100 (render_seconds lib np (Fin 8) None)) (\<lambda>out.
     seqn (write_out repo ''04_stereo_layers.wav'' out 44100)
       (if play then layers_build np repo dev 44100 (play_live lib mic (Fin 8)) else ret ()))"

section \<open>Filter sweep\<close>

definition FC_LO :: flt where "FC_LO = Fin 250"
definition FC_HI :: flt where "FC_HI = Fin 9000"
definition CHUNK :: flt where "CHUNK = dec (5 / 100)"

definition sweep_build :: "numpy \<Rightarrow> bool \<Rightarrow> samples \<Rightarrow> int \<Rightarrow> (engine, 'a) py \<Rightarrow> (store, 'a) py" where
  "sweep_build np dev samples sr body =
     on_engine dev 1 sr ''playback'' 512
       (bnd (get_voice 0) (\<lambda>v. bnd (lift (to_buffer np samples)) (\<lambda>b.
        seqn (assign_samples v b) (bnd (lift (int_div (int (length samples)) sr)) (\<lambda>dur.
          seqn (stmts [
              configure_region v (Fin 0, dur)
                [(''rate'', PF (Fin 1)), (''fade_time'', PF (dec (2 / 100))), (''level'', PF (dec (9 / 10)))],
              voice_configure v [(''post_filter_lp'', PF (Fin 1)), (''post_filter_dry'', PF (Fin 0)),
                (''post_filter_rq'', PF (dec (6 / 10)))],
              set_bool v Play True, cut_to v (Fin 0)])
            body)))))"

text \<open>The triangle of the sweep at chunk \<open>i\<close> of \<open>n\<close>, and the cutoff (\<open>pow\<close> is C's).\<close>

definition py_abs :: "flt \<Rightarrow> flt" where
  "py_abs x = (if flt_less x (Fin 0) then fneg x else x)"

definition sweep_tri :: "int \<Rightarrow> int \<Rightarrow> flt" where
  "sweep_tri n i =
     fsub F64 (Fin 1) (py_abs (fsub F64 (fdiv F64 (fmul F64 (Fin 2) (Fin (of_int i))) (Fin (of_int (n - 1)))) (Fin 1)))"

definition sweep_fc :: "(flt \<Rightarrow> flt \<Rightarrow> flt) \<Rightarrow> int \<Rightarrow> int \<Rightarrow> flt" where
  "sweep_fc pow n i = fmul F64 FC_LO (pow (fdiv F64 FC_HI FC_LO) (sweep_tri n i))"

definition sweep_pass ::
    "dsp_lib \<Rightarrow> numpy \<Rightarrow> (flt \<Rightarrow> flt \<Rightarrow> flt) \<Rightarrow> int \<Rightarrow> nat \<Rightarrow> int \<Rightarrow> (engine, rows) py" where
  "sweep_pass lib np pow n v i =
     seqn (set_float v PostFilterFc (sweep_fc pow n i)) (render_seconds lib np CHUNK None)"

definition sweep_main ::
    "dsp_lib \<Rightarrow> numpy \<Rightarrow> (flt \<Rightarrow> flt \<Rightarrow> flt) \<Rightarrow> path \<Rightarrow> bool \<Rightarrow> (flt \<Rightarrow> samples list) \<Rightarrow> bool \<Rightarrow> (store, unit) py" where
  "sweep_main lib np pow repo dev mic play =
     bnd (load_wav_mono (DATA repo @ [''m08.wav''])) (\<lambda>(samples, sr).
     bnd (sweep_build np dev samples sr (bnd (get_voice 0) (\<lambda>v.
            bnd (lift (round_int (fdiv F64 (Fin 8) CHUNK))) (\<lambda>n.
              collect [0..n - 1] (sweep_pass lib np pow n v))))) (\<lambda>segments.
     bnd (lift (np_concatenate np segments)) (\<lambda>out.
     seqn (write_out repo ''05_filter_sweep.wav'' out sr)
       (if play then sweep_build np dev samples sr (play_live lib mic (Fin 8)) else ret ()))))"

section \<open>Replaying a mix\<close>

text \<open>
  The \<open>--play\<close> part of \<open>08_tape_stop.py\<close> and of four other demos: the mean of the two channels, looped
  in a new engine.
\<close>

definition replay_mix ::
    "dsp_lib \<Rightarrow> numpy \<Rightarrow> bool \<Rightarrow> (flt \<Rightarrow> samples list) \<Rightarrow> rows \<Rightarrow> int \<Rightarrow> (store, unit) py" where
  "replay_mix lib np dev mic out sr =
     (let mono = np_mean_rows np out
      in on_engine dev 1 sr ''playback'' 512
           (bnd (get_voice 0) (\<lambda>v. bnd (lift (to_buffer np mono)) (\<lambda>b.
            seqn (assign_samples v b) (bnd (lift (int_div (int (length mono)) sr)) (\<lambda>dur. stmts [
              configure_region v (Fin 0, dur) [(''rate'', PF (Fin 1))],
              set_bool v Play True, cut_to v (Fin 0), play_live lib mic dur]))))))"

section \<open>Tape stop\<close>

definition tape_glide :: "dsp_lib \<Rightarrow> numpy \<Rightarrow> nat \<Rightarrow> flt \<Rightarrow> flt \<Rightarrow> (engine, rows) py" where
  "tape_glide lib np v secs rate = seqn (set_float v Rate rate) (render_seconds lib np secs None)"

definition tape_passes :: "dsp_lib \<Rightarrow> numpy \<Rightarrow> nat \<Rightarrow> (engine, rows) py" where
  "tape_passes lib np v =
     bnd (render_seconds lib np (Fin 2) None) (\<lambda>r0.
     seqn (set_float v RateSlewTime (Fin (3 / 2)))
       (bnd (collect [Fin 0, Fin 1] (tape_glide lib np v (Fin (5 / 2)))) (\<lambda>r1.
        seqn (set_float v RateSlewTime (dec (4 / 10)))
          (bnd (collect [Fin (3 / 2), Fin (3 / 4), Fin 2, Fin 1] (tape_glide lib np v (dec (14 / 10)))) (\<lambda>r2.
             lift (np_concatenate np (r0 # r1 @ r2)))))))"

definition tape_build :: "dsp_lib \<Rightarrow> numpy \<Rightarrow> path \<Rightarrow> bool \<Rightarrow> (store, rows) py" where
  "tape_build lib np repo dev =
     bnd (load_wav_mono (DATA repo @ [''m05.wav''])) (\<lambda>(samples, sr).
     bnd (lift (int_div (int (length samples)) sr)) (\<lambda>dur.
     on_engine dev 1 sr ''playback'' 512
       (bnd (get_voice 0) (\<lambda>v. bnd (lift (to_buffer np samples)) (\<lambda>b.
        seqn (stmts [assign_samples v b,
            configure_region v (Fin 0, dur)
              [(''rate'', PF (Fin 1)), (''fade_time'', PF (dec (1 / 100))), (''level'', PF (dec (9 / 10)))],
            set_bool v Play True, cut_to v (Fin 0)])
          (tape_passes lib np v))))))"

definition tape_main ::
    "dsp_lib \<Rightarrow> numpy \<Rightarrow> path \<Rightarrow> bool \<Rightarrow> (flt \<Rightarrow> samples list) \<Rightarrow> bool \<Rightarrow> (store, unit) py" where
  "tape_main lib np repo dev mic play =
     bnd (tape_build lib np repo dev) (\<lambda>out.
     seqn (write_out repo ''08_tape_stop.wav'' out 44100)
       (if play then replay_mix lib np dev mic out 44100 else ret ()))"

section \<open>Phase and sync\<close>

definition phase_voice :: "numpy \<Rightarrow> samples \<Rightarrow> int \<Rightarrow> nat \<Rightarrow> (engine, unit) py" where
  "phase_voice np src sr v =
     bnd (lift (int_times (Fin 3) sr)) (\<lambda>n. bnd (lift (to_buffer np (py_slice src 0 n))) (\<lambda>b. stmts [
       assign_samples v b,
       configure_region v (Fin 0, Fin 3)
         [(''rate'', PF (Fin 1)), (''fade_time'', PF (dec (1 / 100))), (''level'', PF (dec (7 / 10)))],
       set_mix v Pan (if v = 0 then dec (- 6 / 10) else dec (6 / 10)),
       set_bool v Play True, cut_to v (Fin 0)]))"

definition phase_passes :: "dsp_lib \<Rightarrow> numpy \<Rightarrow> nat \<Rightarrow> (engine, rows) py" where
  "phase_passes lib np lead =
     seqn (stmts [set_float lead PhaseQuant (fdiv F64 (Fin 3) (Fin 8)),
         set_float lead PhaseOffset (fdiv F64 (Fin 3) (Fin 16)),
         sync lib 1 0 (Fin (1 / 2))])
       (bnd (lift (trunc_int (fdiv F64 (Fin 8) (Fin (1 / 4))))) (\<lambda>n.
        bnd (collect [0..n - 1] (\<lambda>k. render_seconds lib np (Fin (1 / 4)) None)) (\<lambda>out.
          lift (np_concatenate np out))))"

definition phase_build :: "dsp_lib \<Rightarrow> numpy \<Rightarrow> path \<Rightarrow> bool \<Rightarrow> (store, rows) py" where
  "phase_build lib np repo dev =
     bnd (load_wav_mono (DATA repo @ [''m02.wav''])) (\<lambda>(src, sr).
     on_engine dev 2 sr ''playback'' 512
       (bnd (gets all_voices) (\<lambda>vs. seqn (for_each vs (phase_voice np src sr))
          (bnd (get_voice 0) (phase_passes lib np)))))"

definition phase_main ::
    "dsp_lib \<Rightarrow> numpy \<Rightarrow> path \<Rightarrow> bool \<Rightarrow> (flt \<Rightarrow> samples list) \<Rightarrow> bool \<Rightarrow> (store, unit) py" where
  "phase_main lib np repo dev mic play =
     bnd (phase_build lib np repo dev) (\<lambda>out.
     seqn (write_out repo ''10_phase_sync.wav'' out 44100)
       (if play then replay_mix lib np dev mic out 44100 else ret ()))"

end
