(* ===== verification/Demo_Surface.thy ===== *)
theory Demo_Surface
  imports Touch_Wire Demo_Playback
begin

text \<open>
  \<open>demos/13_osc_surface.py\<close> from its layout to its WAV file: a finger that plays a server over a real
  socket while the script renders.

  A datagram sent is in flight until the network drops it or the server reads it. The outside world
  says, for each gesture and each turn of its loop, what becomes of the datagrams in flight
  (\<open>arrivals\<close>) and whether the deadline has passed (\<open>late\<close>). What arrives while the script renders
  is taken to arrive before or after the render. The transport of python-osc reads a datagram with
  a function of that package, the parameter \<open>rd_osc\<close>; py2tosc's \<open>document.find\<close> is the parameter
  \<open>find_control\<close>, and \<open>loudness\<close> is numpy's \<open>abs(x).sum()\<close>.
\<close>

section \<open>The loopback link\<close>

text \<open>
  The native receive thread: reading, with what is in its buffer; caught in its bundle loop for
  ever; or faulted. A fault ends the process, not the thread: \<open>std::string\<close> of a null pointer throws
  outside the \<open>try\<close> of \<open>deliver\<close>, so the thread calls \<open>std::terminate\<close>, and an access outside the buffer
  is undefined behaviour, after which nothing is promised. What a stuck thread goes on doing to the
  server is left out: no script that shuts the server down returns from there.
\<close>

datatype receiver = Reading "byte list" | Stuck | Faulted fault

record link =
  server :: osc
  thread :: receiver
  in_flight :: "byte list list"

type_synonym decoder = "byte list \<Rightarrow> (string \<times> tagged) option"

record network =
  arrivals :: "nat \<Rightarrow> nat \<Rightarrow> bool list"
  late :: "nat \<Rightarrow> nat \<Rightarrow> bool"

definition killed :: "link \<Rightarrow> bool" where
  "killed l = (case thread l of Faulted f \<Rightarrow> True | _ \<Rightarrow> False)"

text \<open>A datagram that is not lost. Only a thread that is reading takes it.\<close>

definition arrive :: "dsp_lib \<Rightarrow> decoder \<Rightarrow> byte list \<Rightarrow> link \<Rightarrow> link" where
  "arrive lib rd_osc d l =
     (let s = server l
      in if \<not> (serving s \<and> sock_open s) then l
         else case obackend s of
             Native \<Rightarrow> (case thread l of
                 Reading buf \<Rightarrow> (case receive_datagram lib d buf s of
                     (buf', Some (Inr s')) \<Rightarrow> l\<lparr>server := s', thread := Reading buf'\<rparr>
                   | (buf', Some (Inl f)) \<Rightarrow> l\<lparr>thread := Faulted f\<rparr>
                   | (buf', None) \<Rightarrow> l\<lparr>thread := Stuck\<rparr>)
               | _ \<Rightarrow> l)
           | PythonOsc \<Rightarrow> (case rd_osc d of
                 None \<Rightarrow> l
               | Some (a, args) \<Rightarrow> l\<lparr>server := receive lib a args s\<rparr>))"

text \<open>The datagrams in flight, oldest first: each flag is one that arrives or is lost.\<close>

fun carry :: "dsp_lib \<Rightarrow> decoder \<Rightarrow> bool list \<Rightarrow> link \<Rightarrow> link" where
  "carry lib rd_osc [] l = l"
| "carry lib rd_osc (ok # oks) l =
     (case in_flight l of
        [] \<Rightarrow> l
      | d # ds \<Rightarrow>
          let l1 = l\<lparr>in_flight := ds\<rparr>
          in carry lib rd_osc oks (if ok then arrive lib rd_osc d l1 else l1))"

definition sendto :: "byte list \<Rightarrow> link \<Rightarrow> link" where
  "sendto d l = l\<lparr>in_flight := in_flight l @ [d]\<rparr>"

section \<open>Gestures\<close>

text \<open>The link after \<open>n\<close> turns of the loop of \<open>touch\<close>, each of which sends and then waits.\<close>

fun turns :: "dsp_lib \<Rightarrow> decoder \<Rightarrow> (nat \<Rightarrow> bool list) \<Rightarrow> byte list \<Rightarrow> nat \<Rightarrow> link \<Rightarrow> link" where
  "turns lib rd_osc oks d 0 l = l"
| "turns lib rd_osc oks d (Suc k) l = carry lib rd_osc (oks k) (sendto d (turns lib rd_osc oks d k l))"

definition touch_datagram :: "(string \<Rightarrow> message list option) \<Rightarrow> string \<Rightarrow> flt \<Rightarrow> pyexc + byte list" where
  "touch_datagram doc name x =
     ebind (binding doc name) (\<lambda>(address, m). ebind (arguments_at m x) (osc_datagram address))"

text \<open>
  \<open>Surface.touch\<close> over the link; \<open>shown\<close> is what \<open>until\<close> looks at. The loop also ends with the process.
\<close>

definition touch_on ::
    "dsp_lib \<Rightarrow> decoder \<Rightarrow> network \<Rightarrow> nat \<Rightarrow> (string \<Rightarrow> message list option) \<Rightarrow> string \<Rightarrow> flt
     \<Rightarrow> (osc \<Rightarrow> bool) option \<Rightarrow> link \<Rightarrow> ((pyexc + unit) \<times> link) option" where
  "touch_on lib rd_osc net g doc name x shown l =
     (case touch_datagram doc name x of
        Inl e \<Rightarrow> Some (Inl e, l)
      | Inr d \<Rightarrow>
          map_option (\<lambda>(n, r). (r, turns lib rd_osc (arrivals net g) d n l))
            (touch_loop (map_option (\<lambda>c k. c (server (turns lib rd_osc (arrivals net g) d (Suc k) l))) shown)
               (\<lambda>k. late net g k \<or> killed (turns lib rd_osc (arrivals net g) d (Suc k) l)) 0))"

text \<open>\<open>while voice.play and time.time() < deadline: time.sleep(0.02)\<close>, after \<open>k\<close> sleeps.\<close>

partial_function (option) wait_while ::
    "(link \<Rightarrow> bool) \<Rightarrow> (nat \<Rightarrow> bool) \<Rightarrow> (nat \<Rightarrow> link \<Rightarrow> link) \<Rightarrow> nat \<Rightarrow> link \<Rightarrow> link option" where
  "wait_while c past sleep k l =
     (if c l \<and> \<not> past k then wait_while c past sleep (Suc k) (sleep k l) else Some l)"

text \<open>What the script does, one step after the other.\<close>

datatype act =
    Touch string flt "(osc \<Rightarrow> bool) option"
  | Sleep
  | Render flt
  | Check "osc \<Rightarrow> bool"
  | Await "osc \<Rightarrow> bool"

definition surface_SR :: flt where "surface_SR = Fin 48000"

definition surface_render :: "dsp_lib \<Rightarrow> numpy \<Rightarrow> flt \<Rightarrow> (osc, rows) py" where
  "surface_render lib np seconds =
     bnd (lift (ebind (trunc_int (fmul F64 seconds surface_SR)) (np_zeros np))) (\<lambda>zs.
     bnd (new_array zs) (\<lambda>a.
     bnd (norns_render lib (Some a) None None) (\<lambda>o'.
     bnd (gets (\<lambda>s. np_reshape np (mem s o') (int (outch s)))) lift)))"

text \<open>
  The step number \<open>g\<close>: the sections it renders, or the exception it raises; nothing when it never
  ends. \<open>Check\<close> is an \<open>assert\<close>, \<open>Await c\<close> waits while \<open>c\<close> holds and the deadline has not passed, as long
  as the process lives.
\<close>

definition act_run ::
    "dsp_lib \<Rightarrow> decoder \<Rightarrow> numpy \<Rightarrow> network \<Rightarrow> (string \<Rightarrow> message list option) \<Rightarrow> nat \<Rightarrow> act \<Rightarrow> link
     \<Rightarrow> ((pyexc + rows list) \<times> link) option" where
  "act_run lib rd_osc np net doc g a l =
     (case a of
        Touch name x shown \<Rightarrow>
          map_option (\<lambda>(r, l1). (ebind r (\<lambda>_. Inr []), l1)) (touch_on lib rd_osc net g doc name x shown l)
      | Sleep \<Rightarrow> Some (Inr [], carry lib rd_osc (arrivals net g 0) l)
      | Render secs \<Rightarrow>
          (case surface_render lib np secs (server l) of
             (r, s) \<Rightarrow> Some (ebind r (\<lambda>out. Inr [out]), l\<lparr>server := s\<rparr>))
      | Check c \<Rightarrow> Some (if c (server l) then Inr [] else Inl AssertionError, l)
      | Await c \<Rightarrow>
          map_option (\<lambda>l1. (Inr [], l1))
            (wait_while (\<lambda>m. c (server m) \<and> \<not> killed m) (late net g) (\<lambda>k. carry lib rd_osc (arrivals net g k)) 0 l))"

text \<open>How the script can stop early: by an exception, or with the whole process, killed in a step.\<close>

datatype stop = Raised pyexc | Terminated fault

fun acts_run ::
    "dsp_lib \<Rightarrow> decoder \<Rightarrow> numpy \<Rightarrow> network \<Rightarrow> (string \<Rightarrow> message list option) \<Rightarrow> nat \<Rightarrow> act list \<Rightarrow> link
     \<Rightarrow> ((stop + rows list) \<times> link) option" where
  "acts_run lib rd_osc np net doc g [] l = Some (Inr [], l)"
| "acts_run lib rd_osc np net doc g (a # as) l =
     (case act_run lib rd_osc np net doc g a l of
        None \<Rightarrow> None
      | Some (r, l1) \<Rightarrow> (case thread l1 of
            Faulted f \<Rightarrow> Some (Inl (Terminated f), l1)
          | _ \<Rightarrow> (case r of
                Inl e \<Rightarrow> Some (Inl (Raised e), l1)
              | Inr outs \<Rightarrow>
                  map_option (\<lambda>(q, l2). (case q of Inl e \<Rightarrow> Inl e | Inr rest \<Rightarrow> Inr (outs @ rest), l2))
                    (acts_run lib rd_osc np net doc (Suc g) as l1))))"

section \<open>The performance\<close>

definition surface_SECTION :: flt where "surface_SECTION = Fin 3"

definition surface_LOOP :: flt where "surface_LOOP = Fin (5 / 2)"

text \<open>What the first voice reads back.\<close>

definition param_is :: "fattr \<Rightarrow> flt \<Rightarrow> osc \<Rightarrow> bool" where
  "param_is a x s = feq (fmir (voices s ! 0) a) x"

definition near :: "flt \<Rightarrow> flt \<Rightarrow> bool" where
  "near y x = flt_less (py_abs (fsub F64 y x)) (dec (1 / 1000))"

definition param_near :: "fattr \<Rightarrow> flt \<Rightarrow> osc \<Rightarrow> bool" where
  "param_near a x s = near (fmir (voices s ! 0) a) x"

definition playing :: "dsp_lib \<Rightarrow> osc \<Rightarrow> bool" where
  "playing lib s = get_bool lib (voices s ! 0) Play"

definition buffer_filled :: "(samples \<Rightarrow> flt) \<Rightarrow> osc \<Rightarrow> bool" where
  "buffer_filled loudness s =
     (case bufs s 1 of None \<Rightarrow> False | Some a \<Rightarrow> flt_less (Fin 0) (loudness (mem s a)))"

definition performance :: "dsp_lib \<Rightarrow> (samples \<Rightarrow> flt) \<Rightarrow> act list" where
  "performance lib loudness =
     [Touch ''read_mono'' (Fin 1) None, Sleep, Check (buffer_filled loudness),
      Touch ''loop_start1'' (Fin 0) (Some (param_is LoopStart (Fin 0))),
      Touch ''loop_end1'' (fdiv F64 surface_LOOP (Fin 8)) (Some (param_near LoopEnd surface_LOOP)),
      Touch ''loop1'' (Fin 1) (Some (\<lambda>s. get_bool lib (voices s ! 0) Loop)),
      Touch ''level1'' (dec (8 / 10)) (Some (\<lambda>s. near (mixp (voices s ! 0) Level) (dec (8 / 10)))),
      Touch ''play1'' (Fin 1) (Some (playing lib)),
      Render (Fin (1 / 2)),
      Touch ''position1'' (Fin 0) (Some (\<lambda>s. flt_less (position lib 0 s) (dec (1 / 10)))),
      Render surface_SECTION,
      Check (\<lambda>s. flt_less (position lib 0 s) surface_LOOP),
      Touch ''rate1'' (Fin (5 / 8)) (Some (param_near Rate (Fin (1 / 2)))),
      Render surface_SECTION,
      Touch ''post_dry1'' (Fin 0) (Some (param_is PostFilterDry (Fin 0))),
      Touch ''post_lp1'' (Fin 1) (Some (param_is PostFilterLp (Fin 1))),
      Touch ''post_fc1'' (dec (5 / 100)) (Some (\<lambda>s. flt_less (fmir (voices s ! 0) PostFilterFc) (Fin 1000))),
      Render surface_SECTION,
      Touch ''rate1'' (Fin (3 / 4)) (Some (param_near Rate (Fin 1))),
      Touch ''post_dry1'' (Fin 1) (Some (param_is PostFilterDry (Fin 1))),
      Touch ''pan1'' (Fin 0) (Some (\<lambda>s. flt_less (py_abs (fadd F64 (mixp (voices s ! 0) Pan) (Fin 1))) (dec (1 / 1000)))),
      Render (fdiv F64 surface_SECTION (Fin 2)),
      Touch ''pan1'' (Fin 1) (Some (\<lambda>s. near (mixp (voices s ! 0) Pan) (Fin 1))),
      Render (fdiv F64 surface_SECTION (Fin 2)),
      Touch ''reset'' (Fin 1) None, Await (playing lib), Check (\<lambda>s. \<not> playing lib s),
      Render (fdiv F64 surface_SECTION (Fin 2))]"

section \<open>The script\<close>

text \<open>What is built, installed and free on the machine the script runs on.\<close>

record machine =
  built_native :: bool
  has_pyosc :: bool
  has_py2tosc :: bool
  free_port :: "int option"
  opens_device :: bool
  route_source :: "string option"

text \<open>
  The \<open>finally\<close> block, which closes the socket and shuts the server down. A killed process does not
  get there, and \<open>OscReceiver::stop\<close> joins the receive thread: of a stuck one it waits for ever.
\<close>

definition clean_up :: "(stop + rows list) \<times> link \<Rightarrow> ((stop + rows list) \<times> osc) option" where
  "clean_up = (\<lambda>(r, l). case thread l of
       Faulted f \<Rightarrow> Some (r, server l)
     | Stuck \<Rightarrow> None
     | Reading buf \<Rightarrow> Some (r, osc_shutdown (server l)))"

text \<open>
  The server over a new host, the performance and its \<open>finally\<close>; nothing when the session never
  ends. The receive buffer is full of zeros at the start.
\<close>

definition surface_session ::
    "dsp_lib \<Rightarrow> decoder \<Rightarrow> numpy \<Rightarrow> (samples \<Rightarrow> flt) \<Rightarrow> network \<Rightarrow> (string \<Rightarrow> message list option)
     \<Rightarrow> machine \<Rightarrow> string \<Rightarrow> store \<Rightarrow> (pyexc + ((stop + rows list) \<times> osc)) option" where
  "surface_session lib rd_osc np loudness net doc pc backend st =
     (case ebind (new_norns st (opens_device pc) surface_SR DEFAULT_VOICES (2 ^ 20) ''playback'' ''upstream'')
             (new_osc (built_native pc) (has_pyosc pc) backend ''127.0.0.1'' (free_port pc)) of
        Inl e \<Rightarrow> Some (Inl e)
      | Inr s \<Rightarrow>
          map_option Inr (Option.bind
            (acts_run lib rd_osc np net doc 0 (performance lib loudness)
               \<lparr>server = osc_start s, thread = Reading (replicate RECV_SIZE 0), in_flight = []\<rparr>) clean_up))"

text \<open>\<open>local_addresses\<close>: the address of the route, if the probe finds one.\<close>

definition local_addresses :: "string option \<Rightarrow> string list" where
  "local_addresses route =
     (let found = (case route of None \<Rightarrow> [] | Some a \<Rightarrow> [a])
      in if found = [] then [''<this machine'' @ [CHR 0x27] @ ''s LAN address>''] else found)"

text \<open>
  \<open>serve_forever\<close>: a device that does not open is reported and the server runs without it. The
  addresses it prints come with the final state.
\<close>

definition surface_serve ::
    "dsp_lib \<Rightarrow> machine \<Rightarrow> string \<Rightarrow> (nat \<Rightarrow> event) \<Rightarrow> store \<Rightarrow> (pyexc + string list \<times> osc) option" where
  "surface_serve lib pc backend env st =
     (case ebind (new_norns st (opens_device pc) surface_SR DEFAULT_VOICES DEFAULT_BUFFER_FRAMES ''duplex'' ''upstream'')
             (new_osc (built_native pc) (has_pyosc pc) backend ''0.0.0.0'' (free_port pc)) of
        Inl e \<Rightarrow> Some (Inl e)
      | Inr s \<Rightarrow>
          (case norns_start s of (r, s1) \<Rightarrow>
             if r \<noteq> Inr () \<and> r \<noteq> Inl RuntimeError then Some (ebind r (\<lambda>_. Inr ([], s1)))
             else (case wait_for_quit lib env 0 (osc_start s1) of
                 None \<Rightarrow> None
               | Some (_, s2) \<Rightarrow> (case norns_stop (osc_shutdown s2) of
                     (Inl e, _) \<Rightarrow> Some (Inl e)
                   | (Inr _, s3) \<Rightarrow> Some (Inr (local_addresses (route_source pc), s3))))))"

text \<open>\<open>source.exists()\<close> and \<open>str(source)\<close>\<close>

definition path_exists :: "(path \<Rightarrow> node option) \<Rightarrow> path \<Rightarrow> bool" where
  "path_exists fs p = (case resolve fs [] p of Inl _ \<Rightarrow> False | Inr _ \<Rightarrow> True)"

fun path_str :: "path \<Rightarrow> string" where
  "path_str [] = ''.''"
| "path_str [x] = x"
| "path_str (x # xs) = (if x = ''/'' then x @ path_str xs else x @ ''/'' @ path_str xs)"

text \<open>What follows the session: the sections joined and written, and the mix played.\<close>

definition surface_finish ::
    "dsp_lib \<Rightarrow> numpy \<Rightarrow> path \<Rightarrow> bool \<Rightarrow> (flt \<Rightarrow> samples list) \<Rightarrow> bool \<Rightarrow> rows list \<Rightarrow> (store, unit) py" where
  "surface_finish lib np repo dev mic play sections =
     bnd (lift (np_concatenate np sections)) (\<lambda>out.
     seqn (write_out repo ''13_osc_surface.wav'' out 48000)
       (if play then replay_mix lib np dev mic out 48000 else ret ()))"

definition surface_main ::
    "dsp_lib \<Rightarrow> decoder \<Rightarrow> numpy \<Rightarrow> (samples \<Rightarrow> flt) \<Rightarrow> network \<Rightarrow> (document \<Rightarrow> string \<Rightarrow> message list option)
     \<Rightarrow> machine \<Rightarrow> (nat \<Rightarrow> event) \<Rightarrow> (flt \<Rightarrow> samples list) \<Rightarrow> path \<Rightarrow> bool \<Rightarrow> bool \<Rightarrow> string \<Rightarrow> store
     \<Rightarrow> ((stop + unit) \<times> store) option" where
  "surface_main lib rd_osc np loudness net find_control pc env mic repo play serve backend st =
     (let source = DATA repo @ [''m04.wav'']
      in if \<not> (has_py2tosc pc \<and> path_exists (files st) source) then Some (Inr (), st)
         else if serve then
           map_option (\<lambda>r. case r of Inl e \<Rightarrow> (Inl (Raised e), st) | Inr (_, s) \<Rightarrow> (Inr (), store.truncate s))
             (surface_serve lib pc backend env st)
         else case demo_layout (path_str source) of
             Inl e \<Rightarrow> Some (Inl (Raised e), st)
           | Inr document \<Rightarrow>
               map_option
                 (\<lambda>r. case r of
                    Inl e \<Rightarrow> (Inl (Raised e), st)
                  | Inr (Inl e, s) \<Rightarrow> (Inl e, store.truncate s)
                  | Inr (Inr sections, s) \<Rightarrow>
                      (case surface_finish lib np repo (opens_device pc) mic play sections (store.truncate s) of
                         (Inl e, t) \<Rightarrow> (Inl (Raised e), t) | (Inr _, t) \<Rightarrow> (Inr (), t)))
                 (surface_session lib rd_osc np loudness net (find_control document) pc backend st))"

end
