(* ===== verification/Osc_Run.thy ===== *)
theory Osc_Run
  imports Osc_Props
begin

text \<open>
  When the blocking entry points of the OSC server return: \<open>main\<close> ends on a quit message or an
  interrupt, with everything it started stopped; a loop of \<open>serve_forever\<close> does not end on
  \<open>shutdown\<close>. The loops are partial functions, so "runs forever" is the value \<open>None\<close>.
\<close>

section \<open>One event\<close>

definition up :: "osc \<Rightarrow> bool" where
  "up s \<longleftrightarrow> serving s \<and> sock_open s"

definition quit_message :: "event \<Rightarrow> bool" where
  "quit_message e \<longleftrightarrow> (\<exists>addr args. addr \<in> {''/quit'', ''/goodbye''} \<and> e = Message addr args)"

lemma quit_tables:
  "list_all (\<lambda>addr. map_of float_params addr = None \<and> map_of bool_params addr = None
     \<and> map_of build_handlers addr = Some Quit) [''/quit'', ''/goodbye'']"
  by code_simp

lemma fast_no_quit:
  assumes "addr \<in> {''/quit'', ''/goodbye''}"
  shows "try_fast_dispatch addr args s = None" "map_of build_handlers addr = Some Quit"
  using assms quit_tables by (auto simp: try_fast_dispatch_def Let_def split: option.split)

lemma dispatch_up: "up (snd (dispatch lib addr args s)) = up s"
  using dispatch_server [of s lib addr args] by (simp add: up_def same_server_def)

lemma fast_fields:
  fixes s :: osc
  assumes "try_fast_dispatch addr args s = Some t"
  shows "norns.more t = norns.more s"
  using fast_frame(1) [OF assms] norns_more(5) by (auto simp: same_frame_def)

lemma receive_server:
  "serving (receive lib addr args s) = serving s \<and> sock_open (receive lib addr args s) = sock_open s
   \<and> blocking (receive lib addr args s) = blocking s \<and> obackend (receive lib addr args s) = obackend s"
proof (cases "try_fast_dispatch addr args s")
  case None
  then show ?thesis
    using dispatch_server [of s lib addr] by (auto simp: receive_def native_handle_def same_server_def split: backend.split)
next
  case (Some t)
  then show ?thesis
    using dispatch_server [of s lib addr] osc_more [OF fast_fields [OF Some]]
    by (auto simp: receive_def native_handle_def same_server_def split: backend.split)
qed

lemma callback_server:
  fixes s :: osc
  assumes "lib_ok lib"
  shows "norns.more (callback lib ext s) = norns.more s"
  using frame_callback [OF assms, of s ext] norns_more(5) by (auto simp: same_frame_def)

lemma event_up:
  assumes "lib_ok lib" "up s" "e \<noteq> Shutdown"
  shows "up (osc_event lib e s)"
  using assms receive_server [of lib _ _ s] osc_more [OF callback_server [OF assms(1), of _ s]]
    poll_tick_frame [of s lib]
  by (cases e) (auto simp: up_def poll_frame_def)

lemma quit_message_quits:
  assumes "up s" "quit_message e"
  shows "oquit (osc_event lib e s)"
proof -
  obtain addr args where e: "addr \<in> {''/quit'', ''/goodbye''}" "e = Message addr args"
    using assms(2) by (auto simp: quit_message_def)
  have "oquit (snd (dispatch lib addr xs s))" for xs
    using dispatch_server [of s lib addr xs] fast_no_quit(2) [OF e(1)] by simp
  then show ?thesis
    using assms(1) e(2)
    by (simp add: up_def receive_def native_handle_def fast_no_quit(1) [OF e(1)] split: backend.split)
qed

section \<open>Returning\<close>

text \<open>A served loop ends by the first quit message or interrupt.\<close>

lemma wait_returns:
  assumes "lib_ok lib" "up s" "osc_inv s" "j \<le> k" "env k = Interrupt \<or> quit_message (env k)"
    and "\<forall>i < k. env i \<noteq> Shutdown"
  shows "\<exists>b t. wait_for_quit lib env j s = Some (b, t) \<and> osc_inv t"
  using assms(4,2,3)
proof (induction j arbitrary: s rule: inc_induct)
  case base
  let ?t = "osc_event lib (env k) s"
  have "osc_inv ?t" by (rule osc_inv_event [OF assms(1) base(2)])
  moreover have "oquit ?t" if "quit_message (env k)"
    by (rule quit_message_quits [OF base(1) that])
  moreover have "wait_for_quit lib env (Suc k) ?t = Some (False, ?t)" if "oquit ?t"
    using that by (simp add: wait_for_quit.simps)
  ultimately show ?case
    using assms(5) base(2) by (auto simp: wait_for_quit.simps [of lib env k])
next
  case (step n)
  have "up (osc_event lib (env n) s)" "osc_inv (osc_event lib (env n) s)"
    using assms(1,6) step by (auto intro: event_up osc_inv_event)
  then show ?case
    using step.IH step.prems(2) by (auto simp: wait_for_quit.simps [of lib env n])
qed

lemma shutdown_down:
  "\<not> serving (osc_shutdown s)" "\<not> sock_open (osc_shutdown s)" "\<not> poll_on (osc_shutdown s)"
  by (simp_all add: osc_shutdown_def poll_stop_def)

lemma engine_stop_stops: "\<exists>t. engine_stop s = (Inr (), t) \<and> \<not> running t"
  by (auto simp: engine_stop_def core_stop_def drain_def drain_ctl_def drain_osc_def case_prod_beta)

lemma start_engine:
  fixes s :: osc
  assumes "device_ok s" "osc_inv s"
  shows "\<exists>t. norns_start s = (Inr (), t) \<and> norns.more t = norns.more s \<and> osc_inv t"
proof -
  obtain t where t: "norns_start s = (Inr (), t)"
    using assms(1) by (cases "running s") (simp_all add: norns_start_def engine_start_def core_start_def)
  then have f: "same_frame s t" "buffers_ok t"
    using keeps_frameD [OF frame_host_calls(4), of s] keepsD [OF keeps_ok_start_stop(1), of s] assms(2)
    by (auto simp: norns_start_def osc_inv_def)
  then have "norns.more t = norns.more s"
    using norns_more(5) by (auto simp: same_frame_def)
  then show ?thesis
    using t osc_inv_frame [OF assms(2) f] by blast
qed

lemma stop_engine:
  fixes s :: osc
  assumes "osc_inv s"
  obtains t where "norns_stop s = (Inr (), t)" "\<not> running t" "norns.more t = norns.more s" "osc_inv t"
proof -
  obtain t where t: "norns_stop s = (Inr (), t)" "\<not> running t"
    using engine_stop_stops [of s] by (auto simp: norns_stop_def)
  then have f: "same_frame s t" "buffers_ok t"
    using keeps_frameD [OF frame_host_calls(5), of s] keepsD [OF keeps_ok_start_stop(2), of s] assms
    by (auto simp: norns_stop_def osc_inv_def)
  then have "norns.more t = norns.more s"
    using norns_more(5) by (auto simp: same_frame_def)
  then show ?thesis
    using that t osc_inv_frame [OF assms f] by blast
qed

text \<open>C14. \<open>main\<close> ends cleanly. Once the host and the server are built and the audio device opens (or is
  not asked for), the first quit message or interrupt, whatever messages, audio blocks and poll
  turns come before it, makes the program return 0 with the engine it started stopped, the
  phase poll off, the receiver down, its socket closed and the host consistent.\<close>

theorem main_quits:
  assumes "lib_ok lib"
    and "new_norns (empty_store\<lparr>files := fs\<rparr>) dev (opt_rate a) (opt_voices a) DEFAULT_BUFFER_FRAMES
           ''duplex'' (opt_quirks a) = Inr h"
    and "new_osc native pyosc (opt_backend a) (opt_listen_host a) bind h = Inr s"
    and "opt_no_audio a \<or> dev"
    and "env k = Interrupt \<or> quit_message (env k)" "\<forall>i < k. env i \<noteq> Shutdown"
  shows "\<exists>t. main_osc lib native pyosc bind fs dev a env = Some (Inr (0, t))
    \<and> (opt_no_audio a \<or> \<not> running t) \<and> \<not> poll_on t \<and> \<not> serving t \<and> \<not> sock_open t
    \<and> host_wf t \<and> buffers_ok t"
proof -
  have h: "host_wf h" "buffers_ok h" "device_ok h = dev"
    using new_norns_wf [OF assms(2)] by (simp_all add: empty_store_def)
  have s: "osc_inv s" "sock_open s" "device_ok s = dev"
    using new_osc_inv [OF assms(3) h(1,2)] new_osc_ok [OF assms(3)] h(3) by simp_all
  obtain s1 where s1: "(if opt_no_audio a then ret () else norns_start) s = (Inr (), s1)"
    "norns.more s1 = norns.more s" "osc_inv s1"
    using start_engine [OF _ s(1)] s assms(4) by (cases "opt_no_audio a") (auto simp: py_simps)
  have "up (osc_start s1)" "osc_inv (osc_start s1)"
    using s(2) s1(3) osc_more [OF s1(2)]
    by (auto simp: up_def osc_start_def norns.defs intro!: osc_inv_fields [OF s1(3)])
  then obtain b s2 where s2: "wait_for_quit lib env 0 (osc_start s1) = Some (b, s2)" "osc_inv s2"
    using wait_returns [of lib "osc_start s1" 0 k env] assms(1,5,6) by auto
  let ?d = "osc_shutdown s2"
  have d: "osc_inv ?d"
    using osc_inv_event [OF assms(1) s2(2), of Shutdown] by simp
  obtain s3 where s3: "norns_stop ?d = (Inr (), s3)" "\<not> running s3" "norns.more s3 = norns.more ?d" "osc_inv s3"
    by (rule stop_engine [OF d])
  define t where "t = (if opt_no_audio a then ?d else s3)"
  have "main_osc lib native pyosc bind fs dev a env = Some (Inr (0, t))"
    using assms(2,3) s1(1) s2(1) s3(1)
    by (cases "opt_no_audio a") (simp_all add: main_osc_def t_def py_simps)
  moreover have "norns.more t = norns.more ?d" "osc_inv t" "opt_no_audio a \<or> \<not> running t"
    using s3 d by (simp_all add: t_def)
  ultimately show ?thesis
    using osc_more [of t ?d] shutdown_down [of s2] by (auto simp: osc_inv_def)
qed

theorem main_quits_witness:
  "\<exists>t. main_osc thru_lib False True (Some 9999) (\<lambda>_. None) True
     \<lparr>opt_listen_host = ''0.0.0.0'', opt_backend = ''auto'', opt_voices = 6, opt_rate = Fin 48000,
      opt_quirks = ''upstream'', opt_no_audio = False\<rparr>
     (\<lambda>k. if k < 3 then Audio [] else Message ''/quit'' []) = Some (Inr (0, t)) \<and> \<not> running t"
proof -
  let ?a = "\<lparr>opt_listen_host = ''0.0.0.0'', opt_backend = ''auto'', opt_voices = 6, opt_rate = Fin 48000,
      opt_quirks = ''upstream'', opt_no_audio = False\<rparr>"
  let ?env = "\<lambda>k :: nat. if k < 3 then Audio [] else Message ''/quit'' []"
  obtain h where h: "new_norns (empty_store\<lparr>files := \<lambda>_. None\<rparr>) True (opt_rate ?a) (opt_voices ?a)
      DEFAULT_BUFFER_FRAMES ''duplex'' (opt_quirks ?a) = Inr h"
    using new_norns_ok [of "empty_store\<lparr>files := \<lambda>_. None\<rparr>" 6] by (force simp: empty_store_def)
  obtain s where s: "new_osc False True (opt_backend ?a) (opt_listen_host ?a) (Some 9999) h = Inr s"
    by (simp add: new_osc_def resolve_backend_def)
  have "?env 3 = Interrupt \<or> quit_message (?env 3)" "\<forall>i < 3. ?env i \<noteq> Shutdown"
    by (auto simp: quit_message_def)
  then show ?thesis
    using main_quits [OF lib_ok_thru h s, of ?env 3] by (simp only: options.simps) blast
qed

section \<open>Not returning\<close>

text \<open>A server that was shut down while somebody blocks on it.\<close>

definition stuck :: "osc \<Rightarrow> bool" where
  "stuck s \<longleftrightarrow> \<not> sock_open s \<and> \<not> serving s \<and> (if obackend s = Native then \<not> oquit s else blocking s)"

lemma stuck_event:
  assumes "lib_ok lib" "stuck s"
  shows "stuck (osc_event lib e s) \<and> obackend (osc_event lib e s) = obackend s"
  using assms osc_more [OF callback_server [OF assms(1), of _ s]] poll_tick_frame [of s lib]
  by (cases e)
    (auto simp: stuck_def receive_def poll_frame_def osc_shutdown_def poll_stop_def split: if_splits)

lemma stuck_flags:
  "stuck s \<Longrightarrow> obackend s = Native \<Longrightarrow> \<not> oquit s"
  "stuck s \<Longrightarrow> obackend s = PythonOsc \<Longrightarrow> blocking s"
  by (simp_all add: stuck_def)

lemma wait_not_stuck:
  assumes "wait_for_quit lib env k s = Some r" "lib_ok lib" "\<forall>k. env k \<noteq> Interrupt"
  shows "\<not> (stuck s \<and> obackend s = Native)"
proof -
  have "lib_ok lib \<and> (\<forall>k. env k \<noteq> Interrupt) \<longrightarrow> \<not> (stuck s \<and> obackend s = Native)"
    using assms(1)
  proof (rule wait_for_quit.raw_induct [rotated])
    fix rec lib env k s r
    assume ih: "\<And>lib env k s r. rec lib env k s = Some r \<Longrightarrow>
        lib_ok lib \<and> (\<forall>k. env k \<noteq> Interrupt) \<longrightarrow> \<not> (stuck s \<and> obackend s = Native)"
      and r: "(if oquit s then Some (False, s) else if env k = Interrupt then Some (True, s)
        else rec lib env (Suc k) (osc_event lib (env k) s)) = Some r"
    show "lib_ok lib \<and> (\<forall>k. env k \<noteq> Interrupt) \<longrightarrow> \<not> (stuck s \<and> obackend s = Native)"
      using r ih [of lib env "Suc k" "osc_event lib (env k) s" r] stuck_event [of lib s "env k"] stuck_flags [of s]
      by (cases "stuck s") (auto split: if_splits)
  qed
  then show ?thesis using assms(2,3) by blast
qed

lemma serve_not_stuck:
  assumes "serve_loop lib env k s = Some r" "lib_ok lib" "\<forall>k. env k \<noteq> Interrupt"
  shows "\<not> (stuck s \<and> obackend s = PythonOsc)"
proof -
  have "lib_ok lib \<and> (\<forall>k. env k \<noteq> Interrupt) \<longrightarrow> \<not> (stuck s \<and> obackend s = PythonOsc)"
    using assms(1)
  proof (rule serve_loop.raw_induct [rotated])
    fix rec lib env k s r
    assume ih: "\<And>lib env k s r. rec lib env k s = Some r \<Longrightarrow>
        lib_ok lib \<and> (\<forall>k. env k \<noteq> Interrupt) \<longrightarrow> \<not> (stuck s \<and> obackend s = PythonOsc)"
      and r: "(if \<not> blocking s then Some (False, s) else if env k = Interrupt then Some (True, s\<lparr>blocking := False\<rparr>)
        else rec lib env (Suc k) (osc_event lib (env k) s)) = Some r"
    show "lib_ok lib \<and> (\<forall>k. env k \<noteq> Interrupt) \<longrightarrow> \<not> (stuck s \<and> obackend s = PythonOsc)"
      using r ih [of lib env "Suc k" "osc_event lib (env k) s" r] stuck_event [of lib s "env k"] stuck_flags [of s]
      by (cases "stuck s") (auto split: if_splits)
  qed
  then show ?thesis using assms(2,3) by blast
qed

text \<open>C33. \<open>shutdown\<close> does not end \<open>serve_forever\<close>. When another thread shuts the server down before a
  quit message was handled, the call blocked in \<open>serve_forever\<close> never returns on either
  transport unless it is interrupted: the native wait looks only at the quit flag, and the
  Python transport's serve loop is told to stop only when \<open>start\<close> made its thread.\<close>

theorem serve_forever_ignores_shutdown:
  assumes "lib_ok lib" "env 0 = Shutdown" "\<forall>k. env k \<noteq> Interrupt" "\<not> oquit s" "\<not> serving s"
  shows "serve_forever lib env s = None"
proof (cases "obackend s")
  case Native
  let ?s = "osc_shutdown (osc_start s)"
  have "stuck ?s" "obackend ?s = Native"
    using assms(4) Native by (simp_all add: stuck_def osc_shutdown_def poll_stop_def osc_start_def)
  then have "wait_for_quit lib env 1 ?s = None"
    using wait_not_stuck [of lib env 1 ?s] assms(1,3) by (cases "wait_for_quit lib env 1 ?s") auto
  then show ?thesis
    using assms(2,4) Native
    by (simp add: serve_forever_def wait_for_quit.simps [of lib env 0] osc_start_def)
next
  case PythonOsc
  let ?s = "osc_shutdown (s\<lparr>blocking := True\<rparr>)"
  have "stuck ?s" "obackend ?s = PythonOsc"
    using assms(5) PythonOsc by (simp_all add: stuck_def osc_shutdown_def poll_stop_def)
  then have "serve_loop lib env 1 ?s = None"
    using serve_not_stuck [of lib env 1 ?s] assms(1,3) by (cases "serve_loop lib env 1 ?s") auto
  then show ?thesis
    using assms(2) PythonOsc by (simp add: serve_forever_def serve_loop.simps [of lib env 0])
qed

theorem serve_forever_ignores_shutdown_witness:
  "\<exists>s. osc_reach thru_lib s \<and> obackend s = Native \<and> serve_forever thru_lib (\<lambda>_. Shutdown) s = None"
proof -
  obtain s where r: "osc_reach thru_lib s" and "host_wf s" "nvoices s = 2" "\<not> running s" "device_ok s"
    and b: "obackend s = (if True then Native else PythonOsc)"
    and "poll_last s = [None, None]" "sent s = []" "queues_wf s" "queued (oscq s) = []"
    and q: "\<not> oquit s" "\<not> poll_on s" "\<not> serving s"
    by (rule fresh_server [of True])
  show ?thesis
    using serve_forever_ignores_shutdown [of thru_lib "\<lambda>_. Shutdown" s] r b q by (intro exI [of _ s]) simp
qed

end
