(* ===== verification/Osc_Safe.thy ===== *)
theory Osc_Safe
  imports Osc_Run Wire_Props
begin

text \<open>
  What a message may do to a server: the same promise for each way one comes in, from the decoded
  arguments of \<open>_dispatch\<close> to the bytes of a datagram, as long as the bytes are read as messages.
\<close>

section \<open>From one message to a datagram\<close>

text \<open>What every message keeps, the messages of a datagram keep.\<close>

lemma handle_keeps:
  assumes "\<And>addr args s. K s \<Longrightarrow> K (native_handle lib addr args s)"
    and "handle_message lib rx m s = Inr (m', t)" "K s"
  shows "K t"
  using assms by (auto simp: handle_message_def fbind_def split: sum.splits)

lemma bundle_keeps:
  assumes "\<And>addr args s. K s \<Longrightarrow> K (native_handle lib addr args s)"
    and "bundle_loop lib rx n mk m s = Some r" "K s" "r = Inr t"
  shows "K t"
proof -
  have "l = lib \<Longrightarrow> K s \<Longrightarrow> r = Inr t \<Longrightarrow> K t" if "bundle_loop l rx n mk m s = Some r" for l
    using that
  proof (rule bundle_loop.raw_induct [rotated, where P = "\<lambda>l rx n mk m s r. l = lib \<longrightarrow> K s \<longrightarrow> r = Inr t \<longrightarrow> K t", rule_format])
    fix go l rx n mk m s r
    assume ih: "\<And>l rx n mk m s r. go l rx n mk m s = Some r \<Longrightarrow> l = lib \<Longrightarrow> K s \<Longrightarrow> r = Inr t \<Longrightarrow> K t"
      and r: "(if n \<le> mk then Some (Inr s)
        else case tosc_getNextMessage rx mk m of Inl e \<Rightarrow> Some (Inl e)
          | Inr (mk', m1) \<Rightarrow> (case handle_message l rx m1 s of Inl e \<Rightarrow> Some (Inl e)
            | Inr (m2, s') \<Rightarrow> go l rx n mk' m2 s')) = Some r"
      and a: "l = lib" "K s" "r = Inr t"
    show "K t"
      using r a ih handle_keeps [of K, OF assms(1)] by (auto split: if_splits sum.splits prod.splits)
  qed
  then show ?thesis
    using assms(2-4) by blast
qed

lemma datagram_keeps:
  assumes "\<And>addr args s. K s \<Longrightarrow> K (native_handle lib addr args s)"
    and "snd (receive_datagram lib d buf s) = Some (Inr t)" "K s"
  shows "K t"
  using assms(2,3) bundle_keeps [of K lib _ _ _ _ s _ t] handle_keeps [of K lib _ _ s _ t] assms(1)
  by (fastforce simp: receive_datagram_def Let_def fbind_def split: if_splits sum.splits prod.splits)

section \<open>Messages are harmless\<close>

text \<open>
  The host's tables and the DSP buffers are consistent, and the socket, the receive thread, the
  transport, the reply log and the size of the poll's memory are what they were.
\<close>

definition unharmed :: "osc \<Rightarrow> osc \<Rightarrow> bool" where
  "unharmed s t \<longleftrightarrow> host_wf t \<and> buffers_ok t \<and> length (poll_last t) = length (voices t)
     \<and> serving t = serving s \<and> blocking t = blocking s \<and> sock_open t = sock_open s
     \<and> obackend t = obackend s \<and> sent t = sent s"

lemma unharmed_iff: "unharmed s t \<longleftrightarrow> osc_inv t \<and> serving t = serving s \<and> blocking t = blocking s
    \<and> sock_open t = sock_open s \<and> obackend t = obackend s \<and> sent t = sent s"
  by (auto simp: unharmed_def osc_inv_def)

lemma dispatch_unharmed:
  assumes "unharmed u s"
  shows "unharmed u (snd (dispatch lib addr args s))"
  using assms osc_inv_dispatch [of s lib addr args] dispatch_server [of s lib addr args]
  by (simp add: unharmed_iff same_server_def)

lemma native_unharmed:
  assumes "unharmed u s"
  shows "unharmed u (native_handle lib addr args s)"
proof (cases "try_fast_dispatch addr args s")
  case None
  then show ?thesis
    using dispatch_unharmed [OF assms] by (simp add: native_handle_def)
next
  case (Some t)
  have "osc_inv t"
    using assms osc_inv_frame [OF _ fast_frame(1) [OF Some]] fast_frame(2) [OF Some]
    by (simp add: unharmed_iff osc_inv_def)
  then show ?thesis
    using assms osc_more [OF fast_fields [OF Some]] Some by (simp add: native_handle_def unharmed_iff)
qed

lemma receive_unharmed: "unharmed u s \<Longrightarrow> unharmed u (receive lib addr args s)"
  by (simp add: receive_def native_unharmed dispatch_unharmed split: backend.split)

text \<open>Only the two quit addresses ask the server to stop.\<close>

lemma quit_addresses:
  "list_all (\<lambda>(addr, h). case h of Quit \<Rightarrow> addr = ''/quit'' \<or> addr = ''/goodbye'' | _ \<Rightarrow> True) build_handlers"
  by code_simp

lemma dispatch_quit:
  "oquit (snd (dispatch lib addr args s)) \<longleftrightarrow> oquit s \<or> addr \<in> {''/quit'', ''/goodbye''}"
proof -
  have "map_of build_handlers addr = Some Quit \<longleftrightarrow> addr \<in> {''/quit'', ''/goodbye''}"
    using map_of_SomeD [of build_handlers addr Quit] fast_no_quit(2) [of addr] quit_addresses
    by (fastforce simp: list_all_iff)
  then show ?thesis
    using dispatch_server [of s lib addr args] by simp
qed

lemma native_quit:
  "oquit (native_handle lib addr args s) \<longleftrightarrow> oquit s \<or> addr \<in> {''/quit'', ''/goodbye''}"
proof (cases "try_fast_dispatch addr args s")
  case None
  then show ?thesis by (simp add: native_handle_def dispatch_quit)
next
  case (Some t)
  then have "addr \<notin> {''/quit'', ''/goodbye''}"
    using fast_no_quit(1) [of addr args s] by (metis option.distinct(1))
  then show ?thesis
    using osc_more(2) [OF fast_fields [OF Some]] Some by (simp add: native_handle_def)
qed

lemma receive_quit:
  "oquit (receive lib addr args s) \<longleftrightarrow>
     oquit s \<or> (serving s \<or> blocking s) \<and> sock_open s \<and> addr \<in> {''/quit'', ''/goodbye''}"
  unfolding receive_def using native_quit dispatch_quit by (cases "obackend s") auto

lemma reach_unharmed: "lib_ok lib \<Longrightarrow> osc_reach lib s \<Longrightarrow> unharmed s s"
  by (simp add: unharmed_iff osc_reach_inv)

text \<open>C6. No message that is delivered can corrupt the server. In every state it can reach, any
  address with any arguments, of the wrong number, type or range too, leaves the host's tables and
  the DSP buffers consistent, the socket and the receive loop up, the reply log and the transport
  as they were, and asks the server to stop exactly if it is \<open>/quit\<close> or \<open>/goodbye\<close>: through
  \<open>_dispatch\<close>, through the native receiver with its fast path, and on the socket with either
  transport, if it is open and served. A raw datagram does no harm to the tables, buffers and fields
  either, of any bytes and over any old content of the receive buffer, if the receive thread gets
  through it; that some datagrams make it fault or loop for ever is the subject of other
  properties.\<close>

theorem osc_messages_safe:
  assumes "lib_ok lib" "osc_reach lib s"
  shows "unharmed s (snd (dispatch lib addr args s)) \<and> unharmed s (native_handle lib addr targs s)
    \<and> unharmed s (receive lib addr targs s)
    \<and> (oquit (snd (dispatch lib addr args s)) \<longleftrightarrow> oquit s \<or> addr \<in> {''/quit'', ''/goodbye''})
    \<and> (oquit (native_handle lib addr targs s) \<longleftrightarrow> oquit s \<or> addr \<in> {''/quit'', ''/goodbye''})
    \<and> (oquit (receive lib addr targs s) \<longleftrightarrow>
         oquit s \<or> (serving s \<or> blocking s) \<and> sock_open s \<and> addr \<in> {''/quit'', ''/goodbye''})
    \<and> (\<forall>t. snd (receive_datagram lib d buf s) = Some (Inr t) \<longrightarrow> unharmed s t)"
proof -
  note s = reach_unharmed [OF assms]
  have "unharmed s t" if "snd (receive_datagram lib d buf s) = Some (Inr t)" for t
    by (rule datagram_keeps [of "unharmed s", OF native_unharmed that s])
  then show ?thesis
    by (intro conjI allI impI dispatch_unharmed native_unharmed receive_unharmed s dispatch_quit native_quit receive_quit)
qed

text \<open>A rate message with a string for a number, and a datagram that no handler wants.\<close>

theorem osc_messages_safe_witness:
  "\<exists>s t. osc_reach thru_lib s
     \<and> unharmed s (snd (dispatch thru_lib ''/set/param/cut/rate'' [VStr ''x''] s))
     \<and> unharmed s (native_handle thru_lib ''/set/param/cut/rate'' [(CHR ''s'', VStr ''x'')] s)
     \<and> snd (receive_datagram thru_lib [47, 97, 0, 0, 44, 105, 102, 0, 255, 255, 255, 255, 63, 128, 0, 0]
          (replicate RECV_SIZE 7) s) = Some (Inr t) \<and> unharmed s t"
proof -
  let ?d = "[47, 97, 0, 0, 44, 105, 102, 0, 255, 255, 255, 255, 63, 128, 0, 0] :: byte list"
  obtain s where s: "osc_reach thru_lib s"
    by (rule fresh_server [of True])
  obtain t where t: "snd (receive_datagram thru_lib ?d (replicate RECV_SIZE 7) s) = Some (Inr t)"
    using receive_encoded [OF sample_datagram plain_sample(1), of "replicate RECV_SIZE 7" thru_lib s]
    by (simp add: plain_arg_def RECV_SIZE_def)
  note m = osc_messages_safe [OF lib_ok_thru s, of "''/set/param/cut/rate''" "[VStr ''x'']"
    "[(CHR ''s'', VStr ''x'')]" ?d "replicate RECV_SIZE 7"]
  then have "unharmed s t"
    using t by (elim conjE) simp
  with m t show ?thesis
    by (intro exI [of _ s] exI [of _ t] conjI s) (elim conjE, assumption)+
qed

end
