(* ===== verification/Demo_Capture.thy ===== *)
theory Demo_Capture
  imports Demo_Playback
begin

text \<open>
  The demos that record: \<open>demos/03_overdub.py\<close>, \<open>06_live_looper.py\<close>, \<open>07_frippertronics.py\<close>,
  \<open>09_filters.py\<close> and \<open>11_capture.py\<close>.
\<close>

section \<open>Overdub\<close>

definition LOOP4 :: flt where "LOOP4 = Fin 4"

text \<open>Record A into the empty loop, overdub B, play the loop.\<close>

definition overdub_passes :: "dsp_lib \<Rightarrow> numpy \<Rightarrow> samples \<Rightarrow> samples \<Rightarrow> nat \<Rightarrow> (engine, rows) py" where
  "overdub_passes lib np a b v =
     seqn (stmts [set_float v PreLevel (Fin 0), set_bool v Rec True, set_bool v Play True, cut_to v (Fin 0)])
       (bnd (render_seconds lib np LOOP4 (Some a)) (\<lambda>seg_a.
     seqn (stmts [set_float v PreLevel (dec (8 / 10)), cut_to v (Fin 0)])
       (bnd (render_seconds lib np LOOP4 (Some b)) (\<lambda>seg_ab.
     seqn (stmts [set_bool v Rec False, cut_to v (Fin 0)])
       (bnd (render_seconds lib np LOOP4 None) (\<lambda>seg_loop.
          lift (np_concatenate np [seg_a, seg_ab, seg_loop])))))))"

definition overdub_main ::
    "dsp_lib \<Rightarrow> numpy \<Rightarrow> path \<Rightarrow> bool \<Rightarrow> (flt \<Rightarrow> samples list) \<Rightarrow> bool \<Rightarrow> (store, unit) py" where
  "overdub_main lib np repo dev mic play =
     bnd (load_wav_mono (DATA repo @ [''m07.wav''])) (\<lambda>(a, sr).
     bnd (load_wav_mono (DATA repo @ [''m02.wav''])) (\<lambda>(b, _).
     on_engine dev 1 sr ''playback'' 512
       (bnd (get_voice 0) (\<lambda>v. bnd (lift (int_times LOOP4 sr)) (\<lambda>n.
        bnd (lift (ebind (np_zeros np n) (to_buffer np))) (\<lambda>buf.
        seqn (stmts [assign_samples v buf,
            configure_region v (Fin 0, LOOP4)
              [(''rate'', PF (Fin 1)), (''fade_time'', PF (dec (5 / 1000))), (''rec_level'', PF (Fin 1)),
               (''level'', PF (dec (9 / 10)))]])
          (bnd (overdub_passes lib np a b v) (\<lambda>out.
        seqn (write_out repo ''03_overdub.wav'' out sr)
          (if play then stmts [cut_to v (Fin 0), play_live lib mic (fmul F64 LOOP4 (Fin 2))]
           else ret ())))))))))"

section \<open>Live looper\<close>

text \<open>
  \<open>loops\<close> overdub passes after the first; \<open>turns\<close> sleeps of the last loop are over when Ctrl-C arrives.
  The \<open>finally\<close> clause stops the device whatever the body raised.
\<close>

definition looper_passes ::
    "dsp_lib \<Rightarrow> (flt \<Rightarrow> samples list) \<Rightarrow> nat \<Rightarrow> nat \<Rightarrow> nat \<Rightarrow> (engine, unit) py" where
  "looper_passes lib mic loops turns v = stmts [
     set_float v PreLevel (Fin 0),
     voice_record_for v (nap lib mic LOOP4) (Some (Fin 0)),
     for_each [0..<loops] (\<lambda>n. stmts [set_float v PreLevel (Fin (3 / 4)),
       voice_record_for v (nap lib mic LOOP4) (Some (Fin 0))]),
     for_each [0..<turns] (\<lambda>n. nap lib mic LOOP4)]"

definition looper_main ::
    "dsp_lib \<Rightarrow> bool \<Rightarrow> (flt \<Rightarrow> samples list) \<Rightarrow> nat \<Rightarrow> nat \<Rightarrow> (engine, unit) py" where
  "looper_main lib dev mic loops turns =
     bnd (allocate (Some LOOP4) None True) (\<lambda>_. bnd (get_voice 0) (\<lambda>v.
     seqn (configure_region v (Fin 0, LOOP4)
             [(''rate'', PF (Fin 1)), (''fade_time'', PF (dec (1 / 100))), (''rec_level'', PF (Fin 1))])
       (\<lambda>s. case engine_start s of
          (Inl RuntimeError, s1) \<Rightarrow> (Inr (), s1)
        | (Inl e, s1) \<Rightarrow> (Inl e, s1)
        | (Inr _, s1) \<Rightarrow> (case looper_passes lib mic loops turns v s1 of (r, s2) \<Rightarrow>
             (case engine_stop s2 of (Inl e, s3) \<Rightarrow> (Inl e, s3) | (Inr _, s3) \<Rightarrow> (r, s3))))))"

definition looper_script ::
    "dsp_lib \<Rightarrow> bool \<Rightarrow> (flt \<Rightarrow> samples list) \<Rightarrow> nat \<Rightarrow> nat \<Rightarrow> (store, unit) py" where
  "looper_script lib dev mic loops turns =
     on_engine dev 1 48000 ''duplex'' 256 (looper_main lib dev mic loops turns)"

section \<open>Frippertronics\<close>

definition make_voice ::
    "numpy \<Rightarrow> bool \<Rightarrow> int \<Rightarrow> flt \<Rightarrow> samples option \<Rightarrow> (nat \<Rightarrow> (engine, 'a) py) \<Rightarrow> (store, 'a) py" where
  "make_voice np dev sr loop preload body =
     on_engine dev 1 sr ''playback'' 512
       (bnd (get_voice 0) (\<lambda>v. bnd (lift (int_times loop sr)) (\<lambda>n.
        bnd (lift (ebind (np_zeros np n) (to_buffer np))) (\<lambda>buf.
        bnd (lift (case preload of None \<Rightarrow> Inr buf | Some xs \<Rightarrow> np_fill np buf n (py_slice xs 0 n))) (\<lambda>b.
        seqn (stmts [assign_samples v b,
            configure_region v (Fin 0, loop)
              [(''rate'', PF (Fin 1)), (''fade_time'', PF (dec (1 / 100))), (''rec_level'', PF (Fin 1)),
               (''level'', PF (dec (9 / 10)))],
            set_bool v Play True, cut_to v (Fin 0)])
          (body v))))))"

text \<open>Set the feedback, record a pass, stop recording and play the loop.\<close>

definition record_pass ::
    "dsp_lib \<Rightarrow> numpy \<Rightarrow> flt \<Rightarrow> nat \<Rightarrow> flt \<times> samples \<Rightarrow> (engine, rows list) py" where
  "record_pass lib np loop v p =
     (case p of (pre, inp) \<Rightarrow>
        seqn (stmts [set_float v PreLevel pre, set_bool v Rec True, cut_to v (Fin 0)])
          (bnd (render_seconds lib np loop (Some inp)) (\<lambda>r1.
           seqn (stmts [set_bool v Rec False, cut_to v (Fin 0)])
             (bnd (render_seconds lib np loop None) (\<lambda>r2. ret [r1, r2])))))"

definition section_overdub_then_replace ::
    "dsp_lib \<Rightarrow> numpy \<Rightarrow> bool \<Rightarrow> int \<Rightarrow> samples \<Rightarrow> samples \<Rightarrow> samples \<Rightarrow> flt \<Rightarrow> (store, rows) py" where
  "section_overdub_then_replace lib np dev sr a b c loop =
     make_voice np dev sr loop (Some a) (\<lambda>v.
       bnd (render_seconds lib np loop None) (\<lambda>r0.
       bnd (collect [(Fin 1, b), (Fin 0, c)] (record_pass lib np loop v)) (\<lambda>rs.
         lift (np_concatenate np (r0 # concat rs)))))"

text \<open>
  The times of the \<open>while\<close> loop of the partial replace, which depend on nothing the loop does; \<open>None\<close>
  when the loop does not end.
\<close>

partial_function (option) chunk_times :: "flt \<Rightarrow> flt \<Rightarrow> flt \<Rightarrow> flt list option" where
  "chunk_times stop chunk t =
     (if flt_less t stop then Option.bind (chunk_times stop chunk (fadd F64 t chunk)) (\<lambda>ts. Some (t # ts))
      else Some [])"

definition replace_times :: "flt \<Rightarrow> flt list option" where
  "replace_times loop = chunk_times (fsub F64 loop (dec (1 / 1000000000))) (dec (2 / 100)) (Fin 0)"

definition in_window :: "flt \<Rightarrow> flt \<Rightarrow> bool" where
  "in_window loop t \<longleftrightarrow> \<not> flt_less t (fmul F64 loop (dec (35 / 100))) \<and> flt_less t (fmul F64 loop (dec (65 / 100)))"

definition replace_chunk ::
    "dsp_lib \<Rightarrow> numpy \<Rightarrow> int \<Rightarrow> samples \<Rightarrow> flt \<Rightarrow> nat \<Rightarrow> flt \<Rightarrow> (engine, rows) py" where
  "replace_chunk lib np sr newmat loop v t =
     (let inside = in_window loop t; chunk = dec (2 / 100)
      in seqn (stmts [set_float v RecLevel (if inside then Fin 1 else Fin 0),
                 set_float v PreLevel (if inside then Fin 0 else Fin 1)])
           (bnd (lift (int_times t sr)) (\<lambda>i. bnd (lift (int_times chunk sr)) (\<lambda>n.
              render_seconds lib np chunk (Some (py_slice newmat i (i + n)))))))"

text \<open>\<open>ts\<close> are the times of the loop.\<close>

definition section_partial_replace ::
    "dsp_lib \<Rightarrow> numpy \<Rightarrow> bool \<Rightarrow> int \<Rightarrow> samples \<Rightarrow> samples \<Rightarrow> flt \<Rightarrow> flt list \<Rightarrow> (store, rows) py" where
  "section_partial_replace lib np dev sr base newmat loop ts =
     make_voice np dev sr loop (Some base) (\<lambda>v.
       bnd (render_seconds lib np loop None) (\<lambda>r0.
       seqn (stmts [set_bool v Rec True, set_float v RecPreSlewTime (dec (8 / 100)), cut_to v (Fin 0)])
         (bnd (collect ts (replace_chunk lib np sr newmat loop v)) (\<lambda>rs.
          seqn (stmts [set_bool v Rec False, set_float v RecLevel (Fin 1), cut_to v (Fin 0)])
            (bnd (render_seconds lib np loop None) (\<lambda>r1.
               lift (np_concatenate np (r0 # rs @ [r1]))))))))"

definition decay_pass ::
    "dsp_lib \<Rightarrow> numpy \<Rightarrow> samples \<Rightarrow> flt \<Rightarrow> nat \<Rightarrow> nat \<Rightarrow> (engine, rows) py" where
  "decay_pass lib np phrase loop v p =
     seqn (cut_to v (Fin 0))
       (render_seconds lib np loop (if p = 1 \<or> p = 4 then Some phrase else None))"

definition section_frippertronics ::
    "dsp_lib \<Rightarrow> numpy \<Rightarrow> bool \<Rightarrow> int \<Rightarrow> samples \<Rightarrow> samples \<Rightarrow> flt \<Rightarrow> nat \<Rightarrow> (store, rows) py" where
  "section_frippertronics lib np dev sr seed phrase loop passes =
     make_voice np dev sr loop (Some seed) (\<lambda>v.
       bnd (render_seconds lib np loop None) (\<lambda>r0.
       seqn (stmts [set_bool v Rec True, set_float v PreLevel (dec (82 / 100))])
         (bnd (collect [0..<passes] (decay_pass lib np phrase loop v)) (\<lambda>rs.
            lift (np_concatenate np (r0 # rs))))))"

definition silence :: "numpy \<Rightarrow> int \<Rightarrow> flt \<Rightarrow> pyexc + rows" where
  "silence np sr seconds = ebind (int_times seconds sr) (\<lambda>n. np_zeros_rows np n 2)"

definition fripp_build :: "dsp_lib \<Rightarrow> numpy \<Rightarrow> path \<Rightarrow> bool \<Rightarrow> int \<Rightarrow> (store, rows) py option" where
  "fripp_build lib np repo dev sr =
     map_option (\<lambda>ts.
     bnd (load_wav_mono (DATA repo @ [''m07.wav''])) (\<lambda>(a, _).
     bnd (load_wav_mono (DATA repo @ [''m02.wav''])) (\<lambda>(b, _).
     bnd (load_wav_mono (DATA repo @ [''m05.wav''])) (\<lambda>(c, _).
     bnd (load_wav_mono (DATA repo @ [''m08.wav''])) (\<lambda>(base, _).
     bnd (load_wav_mono (DATA repo @ [''m05.wav''])) (\<lambda>(seed, _).
     bnd (load_wav_mono (DATA repo @ [''m07.wav''])) (\<lambda>(phrase, _).
     bnd (lift (silence np sr (dec (4 / 10)))) (\<lambda>gap.
     bnd (section_overdub_then_replace lib np dev sr a b c (Fin (5 / 2))) (\<lambda>s1.
     bnd (section_partial_replace lib np dev sr base b (Fin 3) ts) (\<lambda>s2.
     bnd (section_frippertronics lib np dev sr seed phrase (Fin 2) 9) (\<lambda>s3.
       lift (np_concatenate np [s1, gap, s2, gap, s3]))))))))))))
     (replace_times (Fin 3))"

definition fripp_main ::
    "dsp_lib \<Rightarrow> numpy \<Rightarrow> path \<Rightarrow> bool \<Rightarrow> (flt \<Rightarrow> samples list) \<Rightarrow> bool \<Rightarrow> (store, unit) py option" where
  "fripp_main lib np repo dev mic play =
     map_option (\<lambda>build. bnd build (\<lambda>out.
       seqn (write_out repo ''07_frippertronics.wav'' out 44100)
         (if play then
            (let mono = np_mean_rows np out
             in bnd (lift (int_div (int (length mono)) 44100)) (\<lambda>dur.
                make_voice np dev 44100 dur (Some mono) (\<lambda>v. play_live lib mic dur)))
          else ret ())))
       (fripp_build lib np repo dev 44100)"

section \<open>Filters\<close>

definition POST_MODES :: "(string \<times> (string \<times> pyarg) list) list" where
  "POST_MODES =
    [(''lowpass'', [(''post_filter_lp'', PF (Fin 1)), (''post_filter_hp'', PF (Fin 0)),
        (''post_filter_bp'', PF (Fin 0)), (''post_filter_br'', PF (Fin 0))]),
     (''highpass'', [(''post_filter_lp'', PF (Fin 0)), (''post_filter_hp'', PF (Fin 1)),
        (''post_filter_bp'', PF (Fin 0)), (''post_filter_br'', PF (Fin 0))]),
     (''bandpass'', [(''post_filter_lp'', PF (Fin 0)), (''post_filter_hp'', PF (Fin 0)),
        (''post_filter_bp'', PF (Fin 1)), (''post_filter_br'', PF (Fin 0))]),
     (''band-reject'', [(''post_filter_lp'', PF (Fin 0)), (''post_filter_hp'', PF (Fin 0)),
        (''post_filter_bp'', PF (Fin 0)), (''post_filter_br'', PF (Fin 1))])]"

definition record_through_pre_filter ::
    "dsp_lib \<Rightarrow> numpy \<Rightarrow> nat \<Rightarrow> samples \<Rightarrow> flt \<Rightarrow> flt \<Rightarrow> flt \<Rightarrow> flt \<Rightarrow> (engine, rows) py" where
  "record_through_pre_filter lib np v src loop fc rq fc_mod =
     seqn (stmts [
         voice_configure v [(''pre_filter_lp'', PF (Fin 1)), (''pre_filter_hp'', PF (Fin 0)),
           (''pre_filter_bp'', PF (Fin 0)), (''pre_filter_br'', PF (Fin 0)), (''pre_filter_dry'', PF (Fin 0)),
           (''pre_filter_fc'', PF fc), (''pre_filter_rq'', PF rq), (''pre_filter_fc_mod'', PF fc_mod)],
         set_float v PreLevel (Fin 0), set_bool v Rec True, set_bool v Play True, cut_to v (Fin 0)])
       (bnd (render_seconds lib np loop (Some src)) (\<lambda>_.
        seqn (stmts [set_bool v Rec False, cut_to v (Fin 0)]) (render_seconds lib np loop None)))"

definition mode_pass :: "dsp_lib \<Rightarrow> numpy \<Rightarrow> nat \<Rightarrow> string \<times> (string \<times> pyarg) list \<Rightarrow> (engine, rows) py" where
  "mode_pass lib np v mode =
     seqn (stmts [voice_configure v (snd mode), cut_to v (Fin 0)]) (render_seconds lib np (Fin 2) None)"

definition filters_passes :: "dsp_lib \<Rightarrow> numpy \<Rightarrow> samples \<Rightarrow> flt \<Rightarrow> nat \<Rightarrow> (engine, rows) py" where
  "filters_passes lib np src loop v =
     bnd (collect [Fin 16000, Fin 500] (\<lambda>fc.
       record_through_pre_filter lib np v src loop fc (Fin 2) (Fin 1))) (\<lambda>r1.
     seqn (voice_configure v [(''pre_filter_fc'', PF (Fin 16000))])
       (bnd (record_through_pre_filter lib np v src loop (Fin 16000) (Fin 2) (Fin 1)) (\<lambda>_.
        seqn (voice_configure v [(''post_filter_dry'', PF (Fin 0)), (''post_filter_fc'', PF (Fin 1200)),
                (''post_filter_rq'', PF (dec (12 / 10)))])
          (bnd (collect POST_MODES (mode_pass lib np v)) (\<lambda>r2.
             lift (np_concatenate np (r1 @ r2)))))))"

definition filters_build :: "dsp_lib \<Rightarrow> numpy \<Rightarrow> path \<Rightarrow> bool \<Rightarrow> (store, rows) py" where
  "filters_build lib np repo dev =
     bnd (load_wav_mono (DATA repo @ [''m05.wav''])) (\<lambda>(src, sr).
     bnd (lift (int_div (int (length src)) sr)) (\<lambda>dur.
     let loop = (if flt_less dur (Fin 3) then dur else Fin 3)
     in bnd (lift (int_times loop sr)) (\<lambda>n.
     on_engine dev 1 sr ''playback'' 512
       (bnd (get_voice 0) (\<lambda>v. bnd (lift (ebind (np_zeros np n) (to_buffer np))) (\<lambda>buf.
        seqn (stmts [assign_samples v buf,
            configure_region v (Fin 0, loop)
              [(''rate'', PF (Fin 1)), (''fade_time'', PF (dec (1 / 100))), (''rec_level'', PF (Fin 1)),
               (''level'', PF (dec (9 / 10)))],
            set_bool v Play True])
          (filters_passes lib np (py_slice src 0 n) loop v)))))))"

definition filters_main ::
    "dsp_lib \<Rightarrow> numpy \<Rightarrow> path \<Rightarrow> bool \<Rightarrow> (flt \<Rightarrow> samples list) \<Rightarrow> bool \<Rightarrow> (store, unit) py" where
  "filters_main lib np repo dev mic play =
     bnd (filters_build lib np repo dev) (\<lambda>out.
     seqn (write_out repo ''09_filters.wav'' out 44100)
       (if play then replay_mix lib np dev mic out 44100 else ret ()))"

section \<open>Capture modes\<close>

definition new_capture_voice ::
    "numpy \<Rightarrow> bool \<Rightarrow> int \<Rightarrow> (nat \<Rightarrow> (engine, 'a) py) \<Rightarrow> (store, 'a) py" where
  "new_capture_voice np dev sr body =
     on_engine dev 1 sr ''playback'' 512
       (bnd (get_voice 0) (\<lambda>v. bnd (lift (int_times (Fin 3) sr)) (\<lambda>n.
        bnd (lift (ebind (np_zeros np n) (to_buffer np))) (\<lambda>buf.
        seqn (stmts [assign_samples v buf,
            configure_region v (Fin 0, Fin 3)
              [(''rate'', PF (Fin 1)), (''fade_time'', PF (dec (1 / 100))), (''rec_level'', PF (Fin 1)),
               (''level'', PF (dec (9 / 10)))],
            set_bool v Play True])
          (body v)))))"

definition section_rec_once :: "dsp_lib \<Rightarrow> numpy \<Rightarrow> bool \<Rightarrow> int \<Rightarrow> samples \<Rightarrow> (store, rows) py" where
  "section_rec_once lib np dev sr src =
     new_capture_voice np dev sr (\<lambda>v.
       seqn (stmts [set_float v PreLevel (Fin 0), set_bool v RecOnce True, set_bool v Rec True, cut_to v (Fin 0)])
         (bnd (render_seconds lib np (Fin 3) (Some src)) (\<lambda>_.
          bnd (lift (ebind (int_times (Fin 3) sr) (np_zeros np))) (\<lambda>zs.
          bnd (render_seconds lib np (Fin 3) (Some zs)) (\<lambda>_.
          seqn (cut_to v (Fin 0)) (render_seconds lib np (Fin 3) None))))))"

definition section_reverse_record :: "dsp_lib \<Rightarrow> numpy \<Rightarrow> bool \<Rightarrow> int \<Rightarrow> samples \<Rightarrow> (store, rows) py" where
  "section_reverse_record lib np dev sr src =
     new_capture_voice np dev sr (\<lambda>v.
       seqn (stmts [set_float v PreLevel (Fin 0), set_bool v Rec True, set_float v Rate (Fin (- 1)),
               cut_to v (Fin 3)])
         (bnd (render_seconds lib np (Fin 3) (Some src)) (\<lambda>_.
          seqn (stmts [set_bool v Rec False, set_float v Rate (Fin 1), cut_to v (Fin 0)])
            (render_seconds lib np (Fin 3) None))))"

text \<open>The material is written into the array the voice already has.\<close>

definition preload_voice :: "numpy \<Rightarrow> nat \<Rightarrow> samples \<Rightarrow> (engine, unit) py" where
  "preload_voice np v xs =
     bnd (gets (\<lambda>s. vbuf (voices s ! v))) (\<lambda>a. case a of
       None \<Rightarrow> raise TypeError
     | Some a \<Rightarrow> edit_array a (\<lambda>d. np_fill np d (int (length xs)) xs))"

definition section_rec_offset :: "dsp_lib \<Rightarrow> numpy \<Rightarrow> bool \<Rightarrow> int \<Rightarrow> samples \<Rightarrow> (store, rows) py" where
  "section_rec_offset lib np dev sr src =
     new_capture_voice np dev sr (\<lambda>v.
       bnd (lift (int_times (Fin 3) sr)) (\<lambda>n.
       seqn (stmts [preload_voice np v (py_slice src 0 n), set_float v RecOffset (dec (12 / 100)),
               set_float v PreLevel (dec (7 / 10)), set_bool v Rec True, cut_to v (Fin 0)])
         (bnd (collect [0..<(3 :: nat)] (\<lambda>_. render_seconds lib np (Fin 3) None)) (\<lambda>out.
            lift (np_concatenate np out)))))"

definition capture_build :: "dsp_lib \<Rightarrow> numpy \<Rightarrow> path \<Rightarrow> bool \<Rightarrow> (store, rows) py" where
  "capture_build lib np repo dev =
     bnd (load_wav_mono (DATA repo @ [''m07.wav''])) (\<lambda>(src0, sr).
     bnd (lift (int_times (Fin 3) sr)) (\<lambda>n.
     let src = py_slice src0 0 n
     in bnd (lift (ebind (int_times (dec (4 / 10)) sr) (\<lambda>m. np_zeros_rows np m 2))) (\<lambda>gap.
        bnd (section_rec_once lib np dev sr src) (\<lambda>s1.
        bnd (section_reverse_record lib np dev sr src) (\<lambda>s2.
        bnd (section_rec_offset lib np dev sr src) (\<lambda>s3.
          lift (np_concatenate np [s1, gap, s2, gap, s3])))))))"

definition capture_main ::
    "dsp_lib \<Rightarrow> numpy \<Rightarrow> path \<Rightarrow> bool \<Rightarrow> (flt \<Rightarrow> samples list) \<Rightarrow> bool \<Rightarrow> (store, unit) py" where
  "capture_main lib np repo dev mic play =
     bnd (capture_build lib np repo dev) (\<lambda>out.
     seqn (write_out repo ''11_capture.wav'' out 44100)
       (if play then replay_mix lib np dev mic out 44100 else ret ()))"

end
