(* ===== verification/Demo_Runs.thy ===== *)
theory Demo_Runs
  imports Demo_Capture
begin

text \<open>
  That the demo scripts run through. \<open>gives P m A Q\<close>: from every state with \<open>P\<close> the computation
  raises nothing, its result has \<open>A\<close> and its state \<open>Q\<close>. \<open>idle F sr bs\<close>: a stopped engine at the int
  rate \<open>sr\<close> with two channels, over the files \<open>F\<close>, whose voices hold buffers of the lengths \<open>bs\<close>
  (0 for none). The rules are collected in \<open>gives_intro\<close>.
\<close>

section \<open>Computations that return\<close>

named_theorems gives_intro \<open>rules for computations that return\<close>

definition gives :: "('s \<Rightarrow> bool) \<Rightarrow> ('s, 'a) py \<Rightarrow> ('a \<Rightarrow> bool) \<Rightarrow> ('s \<Rightarrow> bool) \<Rightarrow> bool" where
  "gives P m A Q \<longleftrightarrow> (\<forall>s. P s \<longrightarrow> (\<exists>a t. m s = (Inr a, t) \<and> A a \<and> Q t))"

lemma givesI: "(\<And>s. P s \<Longrightarrow> \<exists>a t. m s = (Inr a, t) \<and> A a \<and> Q t) \<Longrightarrow> gives P m A Q"
  by (simp add: gives_def)

lemma givesE:
  assumes "gives P m A Q" "P s"
  obtains a t where "m s = (Inr a, t)" "A a" "Q t"
  using assms unfolding gives_def by blast

lemma gives_bnd:
  assumes "gives P m A Q" "\<And>a. A a \<Longrightarrow> gives Q (k a) B R"
  shows "gives P (bnd m k) B R"
proof (rule givesI)
  fix s
  assume "P s"
  with assms(1) obtain a t where a: "m s = (Inr a, t)" "A a" "Q t"
    by (rule givesE)
  with assms(2) obtain b u where "k a t = (Inr b, u)" "B b" "R u"
    by (blast elim: givesE)
  with a show "\<exists>b u. bnd m k s = (Inr b, u) \<and> B b \<and> R u"
    by (simp add: bnd_Inr)
qed

lemma gives_weaken: "gives P m A Q \<Longrightarrow> (\<And>a. A a \<Longrightarrow> B a) \<Longrightarrow> gives P m B Q"
  unfolding gives_def by blast

lemma gives_pre: "gives P m A Q \<Longrightarrow> (\<And>s. P' s \<Longrightarrow> P s) \<Longrightarrow> gives P' m A Q"
  unfolding gives_def by blast

lemma gives_ret: "A a \<Longrightarrow> gives P (ret a) A P"
  by (simp add: gives_def py_simps)

lemma gives_lift: "r = Inr a \<Longrightarrow> A a \<Longrightarrow> gives P (lift r) A P"
  by (simp add: gives_def py_simps)

lemma bnd_known: "bnd (lift (Inr a)) k = k a"
  by (rule ext) (simp add: py_simps)

lemma gives_known: "r = Inr a \<Longrightarrow> gives P (k a) A Q \<Longrightarrow> gives P (bnd (lift r) k) A Q"
  by (simp add: bnd_known)

lemma gives_gets: "(\<And>s. P s \<Longrightarrow> A (f s)) \<Longrightarrow> gives P (gets f) A P"
  by (simp add: gives_def py_simps)

lemma gives_modify: "(\<And>s. P s \<Longrightarrow> Q (f s)) \<Longrightarrow> gives P (modify f) (\<lambda>_. True) Q"
  by (simp add: gives_def py_simps)

lemma gives_guard: "ok \<Longrightarrow> gives P (guard ok e) (\<lambda>_. True) P"
  by (simp add: gives_def py_simps)

lemma gives_for_each:
  "(\<And>x. x \<in> set xs \<Longrightarrow> gives I (f x) (\<lambda>_. True) I) \<Longrightarrow> gives I (for_each xs f) (\<lambda>_. True) I"
proof (induction xs)
  case (Cons x xs)
  then show ?case
    unfolding for_each.simps by (intro gives_bnd [where A = "\<lambda>_. True" and Q = I]) simp_all
qed (simp add: gives_ret)

lemma gives_stmts:
  "(\<And>m. m \<in> set ms \<Longrightarrow> gives I m (\<lambda>_. True) I) \<Longrightarrow> gives I (stmts ms) (\<lambda>_. True) I"
  unfolding stmts_def by (rule gives_for_each)

lemma gives_stmts_Cons:
  "gives P m (\<lambda>_. True) Q \<Longrightarrow> gives Q (stmts ms) A R \<Longrightarrow> gives P (stmts (m # ms)) A R"
  unfolding stmts_def for_each.simps by (rule gives_bnd)

lemma gives_stmts_Nil: "gives P (stmts []) (\<lambda>_. True) P"
  by (simp add: stmts_def gives_ret)

lemma gives_collect:
  "(\<And>x. x \<in> set xs \<Longrightarrow> gives I (f x) (A (g x)) I) \<Longrightarrow> gives I (collect xs f) (list_all2 A (map g xs)) I"
proof (induction xs)
  case (Cons x xs)
  have "gives I (collect xs f) (list_all2 A (map g xs)) I"
    using Cons by simp
  moreover have "gives I (f x) (A (g x)) I"
    using Cons.prems by simp
  ultimately show ?case
    by (auto intro!: gives_bnd [where Q = I] gives_ret)
qed (simp add: gives_ret)

section \<open>A stopped engine\<close>

definition engine_settings :: "'z engine_scheme \<Rightarrow> bool \<times> flt \<times> nat \<times> (path \<Rightarrow> node option)" where
  "engine_settings s = (running s, esr s, outch s, files s)"

definition idle :: "(path \<Rightarrow> node option) \<Rightarrow> int \<Rightarrow> nat list \<Rightarrow> 'z engine_scheme \<Rightarrow> bool" where
  "idle F sr bs s \<longleftrightarrow> engine_settings s = (False, Fin (of_int sr), 2, F) \<and> map vframes (voices s) = bs
     \<and> (\<forall>v \<in> set (voices s). vframes v \<noteq> 0 \<longrightarrow>
          (\<exists>a. vbuf v = Some a \<and> a < brk s \<and> length (mem s a) = vframes v))"

lemma idle_simps:
  "idle F sr bs s \<Longrightarrow> \<not> running s" "idle F sr bs s \<Longrightarrow> esr s = Fin (of_int sr)"
  "idle F sr bs s \<Longrightarrow> outch s = 2" "idle F sr bs s \<Longrightarrow> files s = F"
  "idle F sr bs s \<Longrightarrow> length (voices s) = length bs"
  by (auto simp: idle_def engine_settings_def)

lemma map_vframes: "map vframes vs = map snd (map holds vs)"
  by (simp add: holds_def o_def)

lemma idle_frame:
  assumes "idle F sr bs s" "same_frame s t" "engine_settings t = engine_settings s"
  shows "idle F sr bs t"
proof -
  have h: "map holds (voices t) = map holds (voices s)"
    using assms(2) by (simp add: same_frame_def)
  have "\<exists>a. vbuf v = Some a \<and> a < brk t \<and> length (mem t a) = vframes v"
    if v: "v \<in> set (voices t)" "vframes v \<noteq> 0" for v
  proof -
    have "holds v \<in> set (map holds (voices s))"
      using v(1) h [symmetric] by simp
    then obtain w where w: "w \<in> set (voices s)" "vbuf w = vbuf v" "vframes w = vframes v"
      by (auto simp: holds_def)
    then obtain a where a: "vbuf v = Some a" "a < brk s" "length (mem s a) = vframes v"
      using assms(1) v(2) unfolding idle_def by metis
    then have "a < brk t" "length (mem t a) = length (mem s a)"
      using assms(2) by (auto simp: same_frame_def)
    with a show ?thesis by simp
  qed
  then show ?thesis
    using assms(1,3) h unfolding idle_def by (simp add: map_vframes)
qed

lemma settings_updates [simp]:
  "engine_settings (upd_voice i f s) = engine_settings s" "engine_settings (run_cmd c s) = engine_settings s"
  "engine_settings (put_array a xs s) = engine_settings s" "engine_settings (s\<lparr>cur_out := c'\<rparr>) = engine_settings s"
  "engine_settings (s\<lparr>prev_out := p\<rparr>) = engine_settings s"
  by (simp_all add: engine_settings_def put_array_def)

lemma settings_run_voice [simp]: "engine_settings (snd (run_voice lib i vin s)) = engine_settings s"
  by (simp add: run_voice_def Let_def case_prod_beta split: option.split)

lemma settings_mix_voice [simp]: "engine_settings (mix_voice lib inp out n dst s) = engine_settings s"
  by (simp add: mix_voice_def Let_def case_prod_beta)

lemma settings_fold_mix [simp]: "engine_settings (fold (mix_voice lib inp out n) ds s) = engine_settings s"
  by (induction ds arbitrary: s) simp_all

lemma settings_core [simp]: "engine_settings (process_core lib inp out n s) = engine_settings s"
  by (simp add: process_core_def Let_def)

lemma settings_loop [simp]: "engine_settings (block_loop lib bs inp out d n s) = engine_settings s"
proof (induction lib bs inp out d n s rule: block_loop.induct)
  case (1 lib bs inp out d n s)
  then show ?case by (subst block_loop.simps) (simp add: Let_def)
qed

lemma idle_modify:
  assumes "\<And>s. same_frame s (f s)" "\<And>s. \<not> running s \<Longrightarrow> engine_settings (f s) = engine_settings s"
  shows "gives (idle F sr bs) (modify f) (\<lambda>_. True) (idle F sr bs)"
  using assms by (blast intro: gives_modify idle_frame dest: idle_simps(1))

lemma stopped_apply: "\<not> running s \<Longrightarrow> dsp_apply q i e fl s = (True, run_cmd (i, e, fl) s)"
  by (simp add: dsp_apply_def)

lemma settings_posts:
  assumes "\<not> running s"
  shows "engine_settings (snd (dsp_apply Ctl i e fl s)) = engine_settings s" "engine_settings (flag_apply Ctl i e s) = engine_settings s"
    "engine_settings (post_float Ctl i a x s) = engine_settings s" "engine_settings (post_bool Ctl i b y s) = engine_settings s"
proof -
  have d: "engine_settings (snd (dsp_apply Ctl i e fl t)) = engine_settings t" if "\<not> running t" for e fl and t :: "'z engine_scheme"
    using that by (simp add: stopped_apply)
  have f: "engine_settings (flag_apply Ctl i e t) = engine_settings t" if "\<not> running t" for e and t :: "'z engine_scheme"
    using that by (simp add: flag_apply_def stopped_apply)
  show "engine_settings (snd (dsp_apply Ctl i e fl s)) = engine_settings s" "engine_settings (flag_apply Ctl i e s) = engine_settings s"
    using assms by (rule d f)+
  show "engine_settings (post_float Ctl i a x s) = engine_settings s"
    using assms by (simp add: post_float_def d)
  show "engine_settings (post_bool Ctl i b y s) = engine_settings s"
    using assms by (simp add: post_bool_def d f Let_def)
qed

lemma gives_setters [gives_intro]:
  "gives (idle F sr bs) (set_float i a x) (\<lambda>_. True) (idle F sr bs)"
  "gives (idle F sr bs) (set_mix i m x) (\<lambda>_. True) (idle F sr bs)"
  "gives (idle F sr bs) (set_bool i b y) (\<lambda>_. True) (idle F sr bs)"
  "gives (idle F sr bs) (cut_to i x) (\<lambda>_. True) (idle F sr bs)"
proof -
  note post = settings_posts frame_post_float frame_post_bool frame_dsp_apply
  show "gives (idle F sr bs) (set_float i a x) (\<lambda>_. True) (idle F sr bs)"
    unfolding set_float_def by (rule idle_modify) (rule post | assumption)+
  show "gives (idle F sr bs) (set_bool i b y) (\<lambda>_. True) (idle F sr bs)"
    unfolding set_bool_def by (rule idle_modify) (rule post | assumption)+
  show "gives (idle F sr bs) (cut_to i x) (\<lambda>_. True) (idle F sr bs)"
    unfolding cut_to_def by (rule idle_modify) (rule post | assumption)+
  show "gives (idle F sr bs) (set_mix i m x) (\<lambda>_. True) (idle F sr bs)"
    unfolding set_mix_def by (rule idle_modify) (simp_all add: frame_upd_voice)
qed


section \<open>The calls of the scripts\<close>

definition float_name :: "string \<Rightarrow> bool" where
  "float_name k = (case map_of attr_table k of Some (BAttr b) \<Rightarrow> False | None \<Rightarrow> False | _ \<Rightarrow> True)"

lemma float_names [simp]:
  "float_name ''rate''" "float_name ''level''" "float_name ''pan''" "float_name ''fade_time''"
  "float_name ''rec_level''" "float_name ''pre_filter_lp''" "float_name ''pre_filter_hp''"
  "float_name ''pre_filter_bp''" "float_name ''pre_filter_br''" "float_name ''pre_filter_dry''"
  "float_name ''pre_filter_fc''" "float_name ''pre_filter_rq''" "float_name ''pre_filter_fc_mod''"
  "float_name ''post_filter_lp''" "float_name ''post_filter_hp''" "float_name ''post_filter_bp''"
  "float_name ''post_filter_br''" "float_name ''post_filter_dry''" "float_name ''post_filter_fc''"
  "float_name ''post_filter_rq''"
  by code_simp+

lemma gives_set_attr:
  assumes "float_name k"
  shows "gives (idle F sr bs) (set_attr i k (PF x)) (\<lambda>_. True) (idle F sr bs)"
  using assms by (auto simp: set_attr_def float_name_def split: option.splits attr.splits intro: gives_intro)

lemma gives_configure [gives_intro]:
  assumes "\<forall>(k, x) \<in> set params. float_name k \<and> (\<exists>f. x = PF f)"
  shows "gives (idle F sr bs) (voice_configure i params) (\<lambda>_. True) (idle F sr bs)"
  unfolding voice_configure_def using assms
  by (intro gives_for_each) (auto split: prod.split intro: gives_set_attr)

lemma gives_region [gives_intro]:
  "gives (idle F sr bs) (voice_set_loop_region i r) (\<lambda>_. True) (idle F sr bs)"
  by (cases r) (auto simp: voice_set_loop_region_def intro!: gives_bnd [where Q = "idle F sr bs"] gives_intro)

lemma gives_configure_region [gives_intro]:
  assumes "\<forall>(k, x) \<in> set params. float_name k \<and> (\<exists>f. x = PF f)"
  shows "gives (idle F sr bs) (configure_region i r params) (\<lambda>_. True) (idle F sr bs)"
  unfolding configure_region_def by (rule gives_bnd [OF gives_region gives_configure [OF assms]])

lemma gives_assign:
  assumes "pow2_length (length xs)" "i < length bs"
  shows "gives (idle F sr bs) (assign_samples i xs) (\<lambda>_. True) (idle F sr (bs[i := length xs]))"
proof (rule givesI)
  fix s :: "'a engine_scheme"
  assume s: "idle F sr bs s"
  let ?t = "s\<lparr>mem := (mem s)(brk s := xs), brk := Suc (brk s)\<rparr>"
  let ?u = "upd_voice i (\<lambda>v. v\<lparr>dsp := DBuffer (brk s) (length xs) # dsp v, vbuf := Some (brk s), vframes := length xs\<rparr>) ?t"
  have "assign_samples i xs s = (Inr (), ?u)"
    using assms idle_simps(1) [OF s]
    by (simp add: assign_samples_def new_array_def bnd_def set_buffer_def Let_def)
  moreover have "idle F sr (bs[i := length xs]) ?u"
  proof -
    have "map vframes (voices ?u) = (map vframes (voices s))[i := length xs]"
      by (simp add: vupd_def map_update)
    moreover have "\<exists>a. vbuf v = Some a \<and> a < brk ?u \<and> length (mem ?u a) = vframes v"
      if v: "v \<in> set (voices ?u)" "vframes v \<noteq> 0" for v
    proof -
      let ?w = "(voices s ! i)\<lparr>dsp := DBuffer (brk s) (length xs) # dsp (voices s ! i), vbuf := Some (brk s),
        vframes := length xs\<rparr>"
      have "v = ?w \<or> v \<in> set (voices s)"
        using v(1) set_update_subset_insert [of "voices s" i ?w] by (auto simp: vupd_def)
      then show ?thesis
      proof
        assume "v \<in> set (voices s)"
        then obtain a where "vbuf v = Some a" "a < brk s" "length (mem s a) = vframes v"
          using s v(2) unfolding idle_def by blast
        then show ?thesis by simp
      qed simp
    qed
    ultimately show ?thesis
      using s by (simp add: idle_def engine_settings_def)
  qed
  ultimately show "\<exists>a t. assign_samples i xs s = (Inr a, t) \<and> True \<and> idle F sr (bs[i := length xs]) t"
    by blast
qed

lemma gives_get_voice [gives_intro]:
  "0 \<le> i \<Longrightarrow> i < int (length bs) \<Longrightarrow> gives (idle F sr bs) (get_voice i) (\<lambda>v. v = nat i) (idle F sr bs)"
  by (auto simp: get_voice_def py_index_nonneg idle_simps(5) intro!: givesI)

lemma gives_all_voices [gives_intro]:
  "gives (idle F sr bs) (gets all_voices) (\<lambda>vs. vs = [0..<length bs]) (idle F sr bs)"
  by (rule gives_gets) (simp add: all_voices_def idle_simps(5))

lemma gives_sync [gives_intro]:
  assumes "0 \<le> i" "i < int (length bs)" "0 \<le> j" "j < int (length bs)"
  shows "gives (idle F sr bs) (sync lib i j x) (\<lambda>_. True) (idle F sr bs)"
  unfolding sync_def
  by (intro gives_bnd [OF gives_get_voice] gives_bnd [OF gives_gets [where A = "\<lambda>_. True"]]
      gives_setters assms TrueI)


section \<open>Renders\<close>

definition frames_are :: "nat \<Rightarrow> rows \<Rightarrow> bool" where
  "frames_are n r \<longleftrightarrow> width r = 2 \<and> length (flat r) = 2 * n"

lemma frames_row_count: "frames_are n r \<Longrightarrow> row_count r = n"
  by (simp add: frames_are_def row_count_def)

lemma numpy_concat:
  assumes "numpy_ok np" "list_all2 frames_are ns rs" "ns \<noteq> []"
  shows "\<exists>r. np_concatenate np rs = Inr r \<and> frames_are (sum_list ns) r"
proof -
  have w: "\<forall>r \<in> set rs. width r = 2" and l: "length (concat (map flat rs)) = 2 * sum_list ns"
    using assms(2) by (induction rule: list_all2_induct) (auto simp: frames_are_def)
  have "rs \<noteq> []"
    using assms(2,3) by auto
  with w have "np_concatenate np rs = Inr \<lparr>width = 2, flat = concat (map flat rs)\<rparr>"
    using assms(1) unfolding numpy_ok_def by blast
  with l show ?thesis
    by (simp add: frames_are_def)
qed

lemma gives_concat:
  assumes "numpy_ok np" "list_all2 frames_are ns rs" "ns \<noteq> []" "n = sum_list ns"
  shows "gives P (lift (np_concatenate np rs)) (frames_are n) P"
  using numpy_concat [OF assms(1-3)] assms(4) by (auto intro: gives_lift)

lemma fit_input_ok:
  assumes "numpy_ok np"
  shows "\<exists>ys. fit_input np xs (int n) = Inr ys \<and> length ys = n"
proof -
  let ?ys = "py_slice xs 0 (int n)"
  have ys: "?ys = take n xs"
    using slice_nonneg [of 0 xs n] by simp
  have "np_zeros np (int n - int (length ?ys)) = Inr (replicate (n - length ?ys) (Fin 0))" if "length ?ys < n"
    using assms that unfolding numpy_ok_def by (simp add: of_nat_diff)
  moreover have "np_join np ?ys zs = Inr (?ys @ zs)" for zs
    using assms unfolding numpy_ok_def by blast
  ultimately show ?thesis
    by (auto simp: fit_input_def Let_def ys)
qed

lemma settings_new_array [simp]: "engine_settings (snd (new_array xs s)) = engine_settings s"
  by (simp add: new_array_def engine_settings_def)

lemma idle_new_array: "idle F sr bs s \<Longrightarrow> idle F sr bs (snd (new_array xs s))"
  by (rule idle_frame [OF _ keeps_frameD [OF frame_new_array]]) simp_all

lemma core_render_idle:
  assumes "lib_ok lib" "idle F sr bs s" "length (mem s a) = n" "length (mem s d) = 2 * n" "d < brk s"
  shows "\<exists>t. core_render lib a d s = (Inr d, t) \<and> idle F sr bs t \<and> length (mem t d) = 2 * n"
proof -
  let ?t = "block_loop lib (block s) a d 0 n s"
  have f: "same_frame s ?t"
    using assms(1) by (rule frame_loop)
  then have "idle F sr bs ?t"
    by (rule idle_frame [OF assms(2) _ settings_loop])
  moreover have "length (mem ?t d) = 2 * n"
    using f assms(4,5) by (simp add: same_frame_def)
  ultimately show ?thesis
    using assms(3,4) idle_simps(3) [OF assms(2)] by (simp add: core_render_def Let_def)
qed

text \<open>A render of an array that exists, or of silence, into a new array.\<close>

lemma render_array:
  assumes "lib_ok lib" "idle F sr bs s" "length (mem s a) = n" "a < brk s"
  shows "\<exists>d t. render lib (Some a) None None s = (Inr d, t) \<and> idle F sr bs t \<and> length (mem t d) = 2 * n"
proof -
  let ?zs = "replicate (n * 2) (Fin 0)"
  let ?s = "snd (new_array ?zs s)"
  have "length (mem ?s a) = n" "length (mem ?s (brk s)) = 2 * n" "brk s < brk ?s"
    using assms(3,4) by (auto simp: new_array_def)
  then obtain t where t: "core_render lib a (brk s) ?s = (Inr (brk s), t)" "idle F sr bs t"
      "length (mem t (brk s)) = 2 * n"
    using core_render_idle [OF assms(1) idle_new_array [OF assms(2)]] by blast
  moreover have "render lib (Some a) None None s = core_render lib a (brk s) ?s"
    using idle_simps(1,3) [OF assms(2)] assms(3)
    by (simp add: render_def py_simps check_one_def new_zeros_eq bnd_def new_array_def nat_mult_distrib)
  ultimately show ?thesis by auto
qed

lemma render_silence:
  assumes "lib_ok lib" "idle F sr bs s" "seconds_to_frames x (Fin (of_int sr)) = Inr (int n)"
  shows "\<exists>d t. render lib None None (Some x) s = (Inr d, t) \<and> idle F sr bs t \<and> length (mem t d) = 2 * n"
proof -
  let ?s = "snd (new_array (replicate n (Fin 0)) s)"
  have "length (mem ?s (brk s)) = n" "brk s < brk ?s"
    by (simp_all add: new_array_def)
  then obtain d t where "render lib (Some (brk s)) None None ?s = (Inr d, t)" "idle F sr bs t"
      "length (mem t d) = 2 * n"
    using render_array [OF assms(1) idle_new_array [OF assms(2)]] by blast
  moreover have "render lib None None (Some x) s = render lib (Some (brk s)) None None ?s"
    using idle_simps(1,2) [OF assms(2)] idle_simps(1) [OF idle_new_array [OF assms(2)], of "replicate n (Fin 0)"] assms(3)
    by (simp add: render_def py_simps check_one_def new_zeros_eq bnd_def new_array_def)
  ultimately show ?thesis by auto
qed


definition secs :: "int \<Rightarrow> flt \<Rightarrow> nat \<Rightarrow> bool" where
  "secs sr x n \<longleftrightarrow> seconds_to_frames x (Fin (of_int sr)) = Inr (int n)"

lemma gives_render:
  assumes "lib_ok lib" "numpy_ok np" "secs sr x n"
  shows "gives (idle F sr bs) (render_seconds lib np x inp) (frames_are n) (idle F sr bs)"
proof (rule givesI)
  fix s :: "'a engine_scheme"
  assume s: "idle F sr bs s"
  let ?k = "\<lambda>o'. bnd (gets (\<lambda>s. np_reshape np (mem s o') (int (outch s)))) lift"
  have k: "\<exists>r. ?k d t = (Inr r, t) \<and> frames_are n r"
    if t: "idle F sr bs t" "length (mem t d) = 2 * n" for d and t :: "'a engine_scheme"
  proof -
    have "np_reshape np (mem t d) 2 = Inr \<lparr>width = 2, flat = mem t d\<rparr>"
      using assms(2) t(2) unfolding numpy_ok_def by simp
    then show ?thesis
      using t(2) idle_simps(3) [OF t(1)] by (simp add: py_simps frames_are_def)
  qed
  let ?r = "case inp of None \<Rightarrow> render lib None None (Some x)
    | Some xs \<Rightarrow> bnd (lift (fit_input np xs (int n))) (\<lambda>ys. bnd (new_array ys) (\<lambda>a. render lib (Some a) None None))"
  have "\<exists>d t. ?r s = (Inr d, t) \<and> idle F sr bs t \<and> length (mem t d) = 2 * n"
  proof (cases inp)
    case None
    then show ?thesis
      using render_silence [OF assms(1) s] assms(3) by (simp add: secs_def)
  next
    case (Some xs)
    obtain ys where ys: "fit_input np xs (int n) = Inr ys" "length ys = n"
      using fit_input_ok [OF assms(2)] by blast
    let ?s = "snd (new_array ys s)"
    have "length (mem ?s (brk s)) = n" "brk s < brk ?s"
      by (simp_all add: new_array_def ys(2))
    then obtain d t where "render lib (Some (brk s)) None None ?s = (Inr d, t)" "idle F sr bs t"
        "length (mem t d) = 2 * n"
      using render_array [OF assms(1) idle_new_array [OF s]] by blast
    moreover have "new_array ys s = (Inr (brk s), ?s)"
      by (simp add: new_array_def)
    ultimately show ?thesis
      using Some ys(1) by (simp add: py_simps bnd_Inr)
  qed
  then obtain d t where d: "?r s = (Inr d, t)" "idle F sr bs t" "length (mem t d) = 2 * n"
    by blast
  have "render_seconds lib np x inp s = bnd ?r ?k s"
    using assms(3) idle_simps(2) [OF s] by (simp add: render_seconds_def secs_def py_simps)
  then show "\<exists>r t. render_seconds lib np x inp s = (Inr r, t) \<and> frames_are n r \<and> idle F sr bs t"
    using d k [OF d(2,3)] by (auto simp: bnd_Inr)
qed

section \<open>A new engine\<close>

lemma to_buffer_ok:
  assumes "numpy_ok np"
  shows "\<exists>b. to_buffer np xs = Inr b \<and> length b = nat (next_power_of_two (int (length xs)))"
proof -
  let ?n = "next_power_of_two (int (length xs))"
  have n: "int (length xs) \<le> ?n"
    using next_power_of_two_least [of "int (length xs)"] by blast
  then have "np_zeros np ?n = Inr (replicate (nat ?n) (Fin 0))"
    using assms unfolding numpy_ok_def by simp
  moreover have "np_fill np (replicate (nat ?n) (Fin 0)) (int (length xs)) xs
      = Inr (xs @ drop (length xs) (replicate (nat ?n) (Fin 0)))"
    using assms n unfolding numpy_ok_def by simp
  ultimately show ?thesis
    using n by (simp add: to_buffer_def Let_def)
qed

lemma gives_to_buffer:
  assumes "numpy_ok np"
  shows "gives P (lift (to_buffer np xs)) (\<lambda>b. length b = nat (next_power_of_two (int (length xs)))) P"
  using to_buffer_ok [OF assms, of xs] by (auto intro: gives_lift)

lemma gives_on_engine:
  assumes "gives (idle F sr (replicate (nat n) 0)) body A (\<lambda>s. Q (store.truncate s))"
    and "1 \<le> n" "mode = ''playback'' \<or> mode = ''duplex''" "1 \<le> bs" "bs < 2 ^ 31" "0 < sr" "sr < 2 ^ 32"
  shows "gives (\<lambda>st. files st = F) (on_engine dev n sr mode bs body) A Q"
proof (rule givesI)
  fix st :: store
  assume F: "files st = F"
  have sr: "float_of_int sr = Inr (Fin (of_int sr))"
    using assms(6,7) by (simp add: float_of_int_def rnd_rep rep_int)
  obtain e where e: "new_engine st dev n (Fin (of_int sr)) mode bs 2 (- 1) (- 1) ''upstream'' = Inr e"
    using assms(2-7) by (auto simp: new_engine_def new_voice_def int_args_ok_def int32_def Let_def)
  have "idle F sr (replicate (nat n) 0) e"
    using e F assms(2) by (auto simp: new_engine_def new_voice_def ebind_eq_Inr Let_def idle_def engine_settings_def
        apply_ev_def split: if_splits)
  with assms(1) obtain a t where "body e = (Inr a, t)" "A a" "Q (store.truncate t)"
    by (rule givesE)
  then show "\<exists>a t. on_engine dev n sr mode bs body st = (Inr a, t) \<and> A a \<and> Q t"
    using sr e by (auto simp: on_engine_def)
qed

lemma files_truncate [simp]: "files (store.truncate s) = files s"
  by (simp add: store.defs)

lemma gives_engine:
  assumes "gives (idle F sr (replicate (nat n) 0)) body A R"
    and "\<And>s. R s \<Longrightarrow> files s = F"
    and "1 \<le> n" "mode = ''playback'' \<or> mode = ''duplex''" "1 \<le> bs" "bs < 2 ^ 31" "0 < sr" "sr < 2 ^ 32"
  shows "gives (\<lambda>st. files st = F) (on_engine dev n sr mode bs body) A (\<lambda>st. files st = F)"
proof (rule gives_on_engine [OF _ assms(3-8)])
  show "gives (idle F sr (replicate (nat n) 0)) body A (\<lambda>s. files (store.truncate s) = F)"
    using assms(1,2) unfolding gives_def files_truncate by blast
qed


section \<open>The live part\<close>

lemma files_drain [simp]: "files (drain s) = files s"
  by (simp add: drain_def drain_osc_def drain_ctl_def Let_def case_prod_beta)

lemma running_drain [simp]: "running (drain s) = running s"
  by (simp add: drain_def drain_osc_def drain_ctl_def Let_def case_prod_beta)

lemma files_settings: "engine_settings t = engine_settings s \<Longrightarrow> files t = files s"
  by (simp add: engine_settings_def)

lemma files_callback [simp]: "files (callback lib ext s) = files s"
proof -
  have "files (block_loop lib bs inp out d n t) = files t" for bs inp out d n and t :: "'a engine_scheme"
    by (rule files_settings) simp
  then show ?thesis
    by (simp add: callback_def Let_def new_array_def)
qed

lemma gives_play_live:
  "gives (idle F sr bs) (play_live lib mic x) (\<lambda>_. True) (\<lambda>s. files s = F)"
proof (rule givesI)
  fix s :: "'a engine_scheme"
  assume s: "idle F sr bs s"
  have "files (fold (callback lib) ys t) = files t" for ys and t :: "'a engine_scheme"
    by (induction ys arbitrary: t) simp_all
  then show "\<exists>a t. play_live lib mic x s = (Inr a, t) \<and> True \<and> files t = F"
    using idle_simps(1,4) [OF s]
    by (auto simp: play_live_def engine_start_def core_start_def nap_def modify_def engine_stop_def core_stop_def)
qed

section \<open>Files\<close>

text \<open>A file that holds at least \<open>n\<close> samples of audio at 44.1 kHz, and no more than its size allows.\<close>

definition audio_at :: "(path \<Rightarrow> node option) \<Rightarrow> nat \<Rightarrow> path \<Rightarrow> bool" where
  "audio_at F n p \<longleftrightarrow> (\<exists>xs. read_wav_mono F p = Inr (xs, 44100) \<and> n \<le> length xs \<and> length xs < 2 ^ 32)"

lemma gives_load:
  "audio_at F n p \<Longrightarrow>
   gives (\<lambda>s. files s = F) (load_wav_mono p) (\<lambda>r. \<exists>xs. r = (xs, 44100) \<and> n \<le> length xs \<and> length xs < 2 ^ 32) (\<lambda>s. files s = F)"
  by (auto simp: audio_at_def load_wav_mono_def gives_def)

text \<open>A path a WAV file can be written to.\<close>

definition writable :: "(path \<Rightarrow> node option) \<Rightarrow> path \<Rightarrow> bool" where
  "writable F p \<longleftrightarrow> (\<exists>fs. mkdirs [] (butlast p) F = Inr fs \<and> node_at fs p \<noteq> Some Dir)"

lemma write_wav_returns:
  assumes "check_view v None = Inr c" "0 < sr" "header_fits c sr (2 * length (vdata v))" "writable (files s) p"
  shows "\<exists>t data. write_wav p v sr None s = (Inr p, t) \<and> read_wav (files t) p = Inr (data, c, sr)
    \<and> length data = length (vdata v)"
proof -
  obtain fs where fs: "mkdirs [] (butlast p) (files s) = Inr fs" "node_at fs p \<noteq> Some Dir"
    using assms(4) unfolding writable_def by blast
  then have "\<exists>r t. write_wav p v sr None s = (Inr r, t)"
    using assms(1-3) by (subst write_wav_succeeds_iff) auto
  then obtain t where t: "write_wav p v sr None s = (Inr p, t)"
    by (auto simp: write_wav_ok)
  then show ?thesis
    using written_wav [OF t] assms(1) by auto
qed

definition written :: "path \<Rightarrow> nat \<Rightarrow> 'z store_scheme \<Rightarrow> bool" where
  "written p n s \<longleftrightarrow> (\<exists>data. read_wav (files s) p = Inr (data, 2, 44100) \<and> length data = 2 * n)"

lemma check_rows:
  assumes "frames_are n r" "0 < n"
  shows "check_view (rows_view r) None = Inr 2"
proof -
  have "width r = 2" "length (flat r) = 2 * n" "row_count r = n"
    using assms(1) by (simp_all add: frames_are_def frames_row_count)
  then show ?thesis
    using assms(2) by (simp add: check_view_def rows_view_def inferred_channels_def Let_def numeral_2_eq_2)
qed

lemma gives_write_out:
  assumes "frames_are n r" "0 < n" "n < 2 ^ 29" "writable F (OUT repo @ [name])"
  shows "gives (\<lambda>s. files s = F) (write_out repo name r 44100) (\<lambda>_. True) (written (OUT repo @ [name]) n)"
proof (rule givesI)
  fix s :: "'a store_scheme"
  assume F: "files s = F"
  let ?v = "rows_view r"
  have len: "length (vdata ?v) = 2 * n"
    using assms(1) by (simp add: rows_view_def frames_are_def)
  have "header_fits 2 44100 (2 * length (vdata ?v))"
    using assms(3) len by (simp add: header_fits_def)
  with write_wav_returns [OF check_rows [OF assms(1,2)], of 44100 s] assms(4) F len
  show "\<exists>a t. write_out repo name r 44100 s = (Inr a, t) \<and> True \<and> written (OUT repo @ [name]) n t"
    by (fastforce simp: write_out_def written_def)
qed

end
