(* ===== verification/Demo_Complete.thy ===== *)
theory Demo_Complete
  imports Demo_Runs Norns_Buffers
begin

text \<open>
  Every offline demo runs through: from files it can read and a directory it can write to, it
  raises nothing and leaves a stereo WAV file at 44.1 kHz of exactly the frames it rendered.
\<close>

section \<open>Numbers\<close>

lemma dec_exact: "dec 2 = Fin 2" "dec 3 = Fin 3" "dec 4 = Fin 4" "dec 8 = Fin 8" "dec (5 / 2) = Fin (5 / 2)"
  "dec (1 / 4) = Fin (1 / 4)"
  using rep_int [of 2 F64] rep_int [of 3 F64] rep_int [of 4 F64] rep_int [of 8 F64]
    rep_dyadic [of 5 F64 "- 1"] rep_dyadic [of 1 F64 "- 2"]
  by (simp_all add: dec_def rnd_rep power_int_def power_divide)

lemma secs_grid: "n \<le> 2 ^ 50 \<Longrightarrow> secs 44100 (dec (of_nat n / 44100)) n"
  using frames_on_grid [of "int n" 44100] by (simp add: secs_def dec_def)

lemma window_times: "fmul F64 WINDOW (Fin (of_int REPEATS)) = dec (108 / 100)"
proof -
  have w: "WINDOW = Fin (6485183463413514 / 2 ^ 55)"
    using rnd_eval [of "- 3" "18 / 100" "- 55" F64 6485183463413514]
    by (simp add: WINDOW_def dec_def power_int_def power_divide)
  have "rnd_exp 53 (- 1074) (9727775195120271 / 2 ^ 53) = - 52"
    using ilog_unique [of 0 "9727775195120271 / 2 ^ 53"] by (simp add: rnd_exp_def)
  moreover have "\<lfloor>9727775195120271 / 2 :: rat\<rfloor> = 4863887597560135"
    by (rule floor_unique) simp_all
  ultimately have "rnd F64 (9727775195120271 / 2 ^ 53) = Fin (4863887597560136 / 2 ^ 52)"
    by (simp add: rnd_def rnd_to_def rne_def Let_def power_int_def power_divide)
  moreover have "rnd F64 (108 / 100) = Fin (4863887597560136 / 2 ^ 52)"
    using rnd_eval [of 0 "108 / 100" "- 52" F64 4863887597560136]
    by (simp add: power_int_def power_divide)
  ultimately show ?thesis
    by (simp add: w REPEATS_def dec_def)
qed

lemma secs_values:
  "secs 44100 (Fin 2) 88200" "secs 44100 (Fin 3) 132300" "secs 44100 (Fin 4) 176400" "secs 44100 (Fin 8) 352800"
  "secs 44100 (Fin (5 / 2)) 110250" "secs 44100 (Fin (1 / 4)) 11025" "secs 44100 (dec (2 / 100)) 882"
  "secs 44100 (dec (14 / 10)) 61740" "secs 44100 CHUNK 2205"
  "secs 44100 (fmul F64 WINDOW (Fin (of_int REPEATS))) 47628"
  using secs_grid [of 88200] secs_grid [of 132300] secs_grid [of 176400] secs_grid [of 352800]
    secs_grid [of 110250] secs_grid [of 11025] secs_grid [of 882] secs_grid [of 61740] secs_grid [of 2205]
    secs_grid [of 47628]
  unfolding window_times CHUNK_def by (simp_all add: dec_exact)

lemma gives_div:
  assumes "n < 2 ^ 53"
  shows "gives P (lift (int_div (int n) 44100)) (\<lambda>_. True) P"
proof -
  have "(of_nat n :: rat) \<le> 2 ^ 53"
    using assms of_nat_le_iff [of n "2 ^ 53", where ?'a = rat] by simp
  then have "0 \<le> (of_nat n / 44100 :: rat)" "(of_nat n / 44100 :: rat) \<le> of_int (2 ^ 53)"
    by simp_all
  then obtain q where "rnd F64 (of_nat n / 44100) = Fin q"
    using rnd_Fin_bounds [OF rep_int [of 0 F64] rep_int [of "2 ^ 53" F64], of "of_nat n / 44100"] by auto
  then show ?thesis
    by (intro gives_lift) (simp_all add: int_div_def)
qed

lemma rnd_near:
  assumes "\<bar>x - of_int m\<bar> < 1 / 4" "\<bar>x\<bar> < pow2 32"
  shows "\<exists>q. rnd F64 x = Fin q \<and> rne q = m"
proof -
  obtain q where q: "rnd F64 x = Fin q" "\<bar>q - x\<bar> \<le> pow2 (- 21) / 2"
    using rnd_abs_error [of x 32 F64] assms(2) by auto
  then have "\<bar>q - x\<bar> < 1 / 4"
    by (simp add: power_int_def power_divide)
  then have "\<bar>q - of_int m\<bar> < 1 / 2"
    using assms(1) by linarith
  with q(1) show ?thesis
    using rne_near by blast
qed

lemma sweep_chunks: "round_int (fdiv F64 (Fin 8) CHUNK) = Inr 160"
proof -
  have c: "CHUNK = Fin (3602879701896397 / 2 ^ 56)"
    using rnd_eval [of "- 5" "5 / 100" "- 57" F64 7205759403792794]
    by (simp add: CHUNK_def dec_def power_int_def power_divide)
  obtain q where "rnd F64 (8 / (3602879701896397 / 2 ^ 56)) = Fin q" "rne q = 160"
    using rnd_near [of "8 / (3602879701896397 / 2 ^ 56)" 160] by (auto simp: power_int_def)
  then show ?thesis
    by (simp add: c round_int_def)
qed

section \<open>The end of every script\<close>

lemma resolve_cong:
  "(\<And>ys zs. q = ys @ zs \<Longrightarrow> ys \<noteq> [] \<Longrightarrow> node_at fs' (pre @ ys) = node_at fs (pre @ ys)) \<Longrightarrow>
   resolve fs' pre q = resolve fs pre q"
proof (induction q arbitrary: pre)
  case (Cons x xs)
  have "node_at fs' (pre @ [x]) = node_at fs (pre @ [x])"
    using Cons.prems [of "[x]" xs] by simp
  moreover have "resolve fs' (pre @ [x]) xs = resolve fs (pre @ [x]) xs"
    by (rule Cons.IH) (use Cons.prems [of "x # _"] in simp)
  ultimately show ?case
    by (simp split: option.split node.split)
qed simp

lemma resolve_nodes:
  "resolve fs pre q = Inr n \<Longrightarrow> q = ys @ zs \<Longrightarrow> ys \<noteq> [] \<Longrightarrow> node_at fs (pre @ ys) \<noteq> None"
proof (induction q arbitrary: pre ys)
  case (Cons x xs)
  then obtain us where us: "ys = x # us" "xs = us @ zs"
    by (cases ys) auto
  from Cons.prems(1) have x: "node_at fs (pre @ [x]) \<noteq> None"
    by (cases "node_at fs (pre @ [x])") simp_all
  show ?case
  proof (cases "us = []")
    case False
    with Cons.prems(1) us(2) have "resolve fs (pre @ [x]) xs = Inr n"
      by (simp split: option.splits node.splits)
    then show ?thesis
      using Cons.IH [of "pre @ [x]" us] us False by simp
  qed (use x us(1) in simp)
qed simp

text \<open>Writing one file leaves every other one readable.\<close>

definition spared :: "(path \<Rightarrow> node option) \<Rightarrow> path \<Rightarrow> (path \<Rightarrow> node option) \<Rightarrow> bool" where
  "spared F p G \<longleftrightarrow> (\<forall>q n. (\<forall>zs. q \<noteq> p @ zs) \<and> audio_at F n q \<longrightarrow> audio_at G n q)"

lemma write_resolves:
  assumes "\<forall>zs. q \<noteq> p @ zs" "resolve (files s) [] q = Inr m"
  shows "resolve (files (snd (write_wav p v sr ch s))) [] q = Inr m"
proof -
  let ?G = "files (snd (write_wav p v sr ch s))"
  have "resolve ?G [] q = resolve (files s) [] q"
  proof (rule resolve_cong)
    fix ys zs
    assume ys: "q = ys @ zs" "ys \<noteq> []"
    have "ys \<noteq> p" "node_at (files s) ys \<noteq> None"
      using assms(1) resolve_nodes [OF assms(2) ys] ys(1) by auto
    then show "node_at ?G ([] @ ys) = node_at (files s) ([] @ ys)"
      using write_wav_frame [of p v sr ch s ys] by (auto simp: node_at_def)
  qed
  with assms(2) show ?thesis by simp
qed

lemma write_reads:
  assumes "\<forall>zs. q \<noteq> p @ zs" "read_wav (files s) q = Inr x"
  shows "read_wav (files (snd (write_wav p v sr ch s))) q = Inr x"
proof -
  obtain m where m: "resolve (files s) [] q = Inr m"
    using assms(2) by (cases "resolve (files s) [] q") (auto simp: read_wav_def open_rb_def)
  from write_resolves [OF assms(1) m] show ?thesis
    using assms(2) m by (simp add: read_wav_def open_rb_def)
qed

lemma write_spares: "spared (files s) p (files (snd (write_wav p v sr ch s)))"
  unfolding spared_def
proof (intro allI impI)
  fix q n
  assume q: "(\<forall>zs. q \<noteq> p @ zs) \<and> audio_at (files s) n q"
  then obtain x where x: "read_wav (files s) q = Inr x"
    by (cases "read_wav (files s) q") (auto simp: audio_at_def read_wav_mono_def)
  with q have "read_wav (files (snd (write_wav p v sr ch s))) q = Inr x"
    using write_reads by blast
  with q x show "audio_at (files (snd (write_wav p v sr ch s))) n q"
    by (simp add: audio_at_def read_wav_mono_def)
qed

lemma files_stay:
  assumes "\<And>G. spared F p G \<Longrightarrow> gives (\<lambda>s. files s = G) m A (\<lambda>s. files s = G)"
  shows "gives (\<lambda>s. written p n s \<and> spared F p (files s)) m A (written p n)"
  using assms unfolding gives_def written_def by metis

lemma gives_write_spared:
  assumes "frames_are n r" "0 < n" "n < 2 ^ 29" "writable F (OUT repo @ [name])"
  shows "gives (\<lambda>s. files s = F) (write_out repo name r 44100) (\<lambda>_. True)
    (\<lambda>s. written (OUT repo @ [name]) n s \<and> spared F (OUT repo @ [name]) (files s))"
proof (rule givesI)
  fix s :: "'a store_scheme"
  assume F: "files s = F"
  with gives_write_out [OF assms] obtain a t where
    t: "write_out repo name r 44100 s = (Inr a, t)" "written (OUT repo @ [name]) n t"
    by (rule givesE)
  then have "spared F (OUT repo @ [name]) (files t)"
    using write_spares [of s "OUT repo @ [name]" "rows_view r" 44100 None] F by (simp add: write_out_def)
  with t show "\<exists>a t. write_out repo name r 44100 s = (Inr a, t) \<and> True
      \<and> written (OUT repo @ [name]) n t \<and> spared F (OUT repo @ [name]) (files t)"
    by blast
qed

lemma gives_mix:
  assumes "gives (\<lambda>s :: store. files s = F) build (frames_are n) (\<lambda>s. files s = F)"
    and "0 < n" "n < 2 ^ 29" "writable F (OUT repo @ [name])"
    and "\<And>G r. frames_are n r \<Longrightarrow> spared F (OUT repo @ [name]) G \<Longrightarrow>
           gives (\<lambda>s. files s = G) (live r) (\<lambda>_. True) (\<lambda>s. files s = G)"
  shows "gives (\<lambda>s. files s = F)
    (bnd build (\<lambda>r. seqn (write_out repo name r 44100) (if play then live r else ret ())))
    (\<lambda>_. True) (written (OUT repo @ [name]) n)"
proof (rule gives_bnd [OF assms(1)])
  fix r
  assume r: "frames_are n r"
  let ?W = "\<lambda>s :: store. written (OUT repo @ [name]) n s \<and> spared F (OUT repo @ [name]) (files s)"
  have "gives ?W (ret ()) (\<lambda>_. True) (written (OUT repo @ [name]) n)"
    by (simp add: gives_def py_simps)
  then have "gives ?W (if play then live r else ret ()) (\<lambda>_. True) (written (OUT repo @ [name]) n)"
    using files_stay [OF assms(5) [OF r]] by simp
  then show "gives (\<lambda>s. files s = F)
      (seqn (write_out repo name r 44100) (if play then live r else ret ()))
      (\<lambda>_. True) (written (OUT repo @ [name]) n)"
    by (rule gives_bnd [OF gives_write_spared [OF r assms(2-4)]])
qed

lemma bnd_assoc: "bnd (bnd m k) h = bnd m (\<lambda>x. bnd (k x) h)"
  by (rule ext) (simp add: bnd_def split: prod.split sum.split)

text \<open>The scripts that load one file, render segments and join them.\<close>

lemma gives_cut_script:
  assumes "numpy_ok np" "audio_at F n p" "writable F (OUT repo @ [name])"
    and "k = sum_list ns" "ns \<noteq> []" "0 < k" "k < 2 ^ 29"
    and build: "\<And>xs. length xs < 2 ^ 32 \<Longrightarrow> gives (\<lambda>s :: store. files s = F) (build xs 44100) (list_all2 frames_are ns) (\<lambda>s. files s = F)"
    and live: "\<And>G xs. length xs < 2 ^ 32 \<Longrightarrow> gives (\<lambda>s :: store. files s = G) (live xs 44100) (\<lambda>_. True) (\<lambda>s. files s = G)"
  shows "gives (\<lambda>s :: store. files s = F)
    (bnd (load_wav_mono p) (\<lambda>(xs, sr). bnd (build xs sr) (\<lambda>rs. bnd (lift (np_concatenate np rs)) (\<lambda>out.
       seqn (write_out repo name out sr) (if play then live xs sr else ret ())))))
    (\<lambda>_. True) (written (OUT repo @ [name]) k)"
proof (rule gives_bnd [OF gives_load [OF assms(2)]])
  fix r :: "samples \<times> int"
  assume "\<exists>xs. r = (xs, 44100) \<and> n \<le> length xs \<and> length xs < 2 ^ 32"
  then obtain xs where r: "r = (xs, 44100)" "length xs < 2 ^ 32"
    by blast
  have "gives (\<lambda>s :: store. files s = F) (bnd (build xs 44100) (\<lambda>rs. lift (np_concatenate np rs))) (frames_are k) (\<lambda>s. files s = F)"
    using build [OF r(2)] by (rule gives_bnd) (rule gives_concat [OF assms(1) _ assms(5,4)])
  note mix = gives_mix [OF this assms(6,7,3) live [OF r(2)], unfolded bnd_assoc]
  show "gives (\<lambda>s :: store. files s = F)
      (case r of (xs, sr) \<Rightarrow> bnd (build xs sr) (\<lambda>rs. bnd (lift (np_concatenate np rs)) (\<lambda>out.
         seqn (write_out repo name out sr) (if play then live xs sr else ret ()))))
      (\<lambda>_. True) (written (OUT repo @ [name]) k)"
    unfolding r(1) prod.case by (rule mix)
qed

section \<open>The first statements of a script\<close>

lemma gives_start:
  assumes "length b = nat (next_power_of_two k)" "i < length bs"
    and "\<forall>m \<in> set ms. gives (idle F sr (bs[i := length b])) m (\<lambda>_. True) (idle F sr (bs[i := length b]))"
  shows "gives (idle F sr bs) (stmts (assign_samples i b # ms)) (\<lambda>_. True) (idle F sr (bs[i := length b]))"
  by (rule gives_stmts_Cons [OF gives_assign gives_stmts]) (use assms next_power_of_two_length [of k] in auto)


text \<open>One voice, loaded and set up; then the rest of the script.\<close>

lemma gives_setup:
  assumes "numpy_ok np"
    and "\<And>k m. m \<in> set (ms 0) \<Longrightarrow> gives (idle F sr [k]) m (\<lambda>_. True) (idle F sr [k])"
    and "\<And>k. gives (idle F sr [k]) (rest 0) A R"
  shows "gives (idle F sr [0])
    (bnd (get_voice 0) (\<lambda>v. bnd (lift (to_buffer np xs)) (\<lambda>b. seqn (stmts (assign_samples v b # ms v)) (rest v)))) A R"
proof -
  have "gives (idle F sr [0]) (seqn (stmts (assign_samples 0 b # ms 0)) (rest 0)) A R"
    if "length b = nat (next_power_of_two (int (length xs)))" for b
    using gives_start [OF that, of 0 "[0]" "ms 0" F sr] assms(2)
    by (intro gives_bnd [OF _ assms(3)]) simp
  then show ?thesis
    by (intro gives_bnd [OF gives_get_voice] gives_bnd [OF gives_to_buffer [OF assms(1)]]) simp_all
qed

lemma gives_setup_dur:
  assumes "numpy_ok np" "length xs < 2 ^ 32" "\<And>k d. gives (idle F sr [k]) (rest 0 d) A R"
  shows "gives (idle F sr [0])
    (bnd (get_voice 0) (\<lambda>v. bnd (lift (to_buffer np xs)) (\<lambda>b. seqn (assign_samples v b)
       (bnd (lift (int_div (int (length xs)) 44100)) (rest v))))) A R"
proof -
  let ?k = "nat (next_power_of_two (int (length xs)))"
  have a: "gives (idle F sr [0]) (assign_samples 0 b) (\<lambda>_. True) (idle F sr [?k])" if "length b = ?k" for b
    using gives_assign [of b 0 "[0]"] next_power_of_two_length that by simp
  have d: "gives (idle F sr [?k]) (bnd (lift (int_div (int (length xs)) 44100)) (rest 0)) A R"
    by (rule gives_bnd [OF gives_div assms(3)]) (use assms(2) in simp)
  have "gives (idle F sr [0]) (bnd (lift (to_buffer np xs)) (\<lambda>b. seqn (assign_samples 0 b)
      (bnd (lift (int_div (int (length xs)) 44100)) (rest 0)))) A R"
    by (rule gives_bnd [OF gives_to_buffer [OF assms(1)]], rule gives_bnd [OF a d])
  then show ?thesis
    by (intro gives_bnd [OF gives_get_voice]) simp_all
qed

lemma gives_files: "gives P m A (idle F sr bs) \<Longrightarrow> gives P m A (\<lambda>s. files s = F)"
  unfolding gives_def using idle_simps(4) by blast

section \<open>The playback demos\<close>

lemma gives_varispeed_build:
  assumes "numpy_ok np" "length xs < 2 ^ 32" "\<And>d k. gives (idle F 44100 [k]) (body d) A (\<lambda>s. files s = F)"
  shows "gives (\<lambda>s. files s = F) (varispeed_build np dev xs 44100 body) A (\<lambda>s. files s = F)"
  unfolding varispeed_build_def
  by (rule gives_bnd [OF gives_div], use assms(2) in simp, rule gives_engine, simp, rule gives_setup)
    (use assms in \<open>auto intro!: gives_intro\<close>)

lemma gives_varispeed_pass:
  assumes "lib_ok lib" "numpy_ok np"
  shows "gives (idle F 44100 bs) (varispeed_pass lib np d v rate) (frames_are 132300) (idle F 44100 bs)"
  unfolding varispeed_pass_def
  by (rule gives_bnd [OF gives_stmts gives_render [OF assms secs_values(2)]]) (auto intro: gives_intro)

lemma varispeed_runs:
  assumes "lib_ok lib" "numpy_ok np" "audio_at F n (DATA repo @ [''m02.wav''])"
    "writable F (OUT repo @ [''01_varispeed.wav''])"
  shows "gives (\<lambda>s. files s = F) (varispeed_main lib np repo dev mic play) (\<lambda>_. True)
    (written (OUT repo @ [''01_varispeed.wav'']) 529200)"
proof -
  have "gives (idle F 44100 [k]) (bnd (get_voice 0) (\<lambda>v. collect RATES (varispeed_pass lib np d v)))
      (list_all2 frames_are (map (\<lambda>_. 132300) RATES)) (\<lambda>s. files s = F)" for d k
    using assms(1,2) by (intro gives_files [where sr = 44100 and bs = "[k]"] gives_bnd [OF gives_get_voice]
        gives_collect [where A = frames_are] gives_varispeed_pass) simp_all
  then show ?thesis
    unfolding varispeed_main_def using assms(2)
    by (intro gives_cut_script [OF assms(2-4), of _ "map (\<lambda>_. 132300) RATES"] gives_varispeed_build
        gives_stmts_Cons [OF gives_setters(1)] gives_stmts_Cons [OF gives_setters(4)]
        gives_stmts_Cons [OF gives_play_live] gives_stmts_Nil) (simp_all add: RATES_def)
qed


lemma gives_points_build:
  assumes "numpy_ok np" "\<And>k. gives (idle F 44100 [k]) body A (\<lambda>s. files s = F)"
  shows "gives (\<lambda>s. files s = F) (points_build np dev xs 44100 body) A (\<lambda>s. files s = F)"
  unfolding points_build_def
  by (rule gives_engine, simp, rule gives_setup) (use assms in \<open>auto intro!: gives_intro\<close>)

lemma points_runs:
  assumes "lib_ok lib" "numpy_ok np" "audio_at F n (DATA repo @ [''m05.wav''])"
    "writable F (OUT repo @ [''02_loop_points.wav''])"
  shows "gives (\<lambda>s. files s = F) (points_main lib np repo dev mic play) (\<lambda>_. True)
    (written (OUT repo @ [''02_loop_points.wav'']) 190512)"
proof -
  have "gives (idle F 44100 bs) (points_pass lib np v start) (frames_are 47628) (idle F 44100 bs)" for bs v start
    unfolding points_pass_def
    by (rule gives_bnd [OF gives_stmts gives_render [OF assms(1,2) secs_values(10)]]) (auto intro: gives_intro)
  then have "gives (idle F 44100 [k]) (bnd (get_voice 0) (\<lambda>v. collect STARTS (points_pass lib np v)))
      (list_all2 frames_are (map (\<lambda>_. 47628) STARTS)) (\<lambda>s. files s = F)" for k
    by (intro gives_files [where sr = 44100 and bs = "[k]"] gives_bnd [OF gives_get_voice]
        gives_collect [where A = frames_are]) simp_all
  then show ?thesis
    unfolding points_main_def using assms(2)
    by (intro gives_cut_script [OF assms(2-4), of _ "map (\<lambda>_. 47628) STARTS"] gives_points_build
        gives_stmts_Cons [OF gives_region] gives_stmts_Cons [OF gives_setters(4)]
        gives_stmts_Cons [OF gives_play_live] gives_stmts_Nil) (simp_all add: STARTS_def)
qed

lemma gives_sweep_build:
  assumes "numpy_ok np" "length xs < 2 ^ 32" "\<And>k. gives (idle F 44100 [k]) body A (\<lambda>s. files s = F)"
  shows "gives (\<lambda>s. files s = F) (sweep_build np dev xs 44100 body) A (\<lambda>s. files s = F)"
  unfolding sweep_build_def
  by (rule gives_engine, simp, rule gives_setup_dur [OF assms(1,2)], rule gives_bnd [OF gives_stmts assms(3)])
    (auto intro!: gives_intro)

lemma sweep_runs:
  assumes "lib_ok lib" "numpy_ok np" "audio_at F n (DATA repo @ [''m08.wav''])"
    "writable F (OUT repo @ [''05_filter_sweep.wav''])"
  shows "gives (\<lambda>s. files s = F) (sweep_main lib np pow repo dev mic play) (\<lambda>_. True)
    (written (OUT repo @ [''05_filter_sweep.wav'']) 352800)"
proof -
  have p: "gives (idle F 44100 bs) (sweep_pass lib np pow m v i) (frames_are 2205) (idle F 44100 bs)" for bs m v i
    unfolding sweep_pass_def by (rule gives_bnd [OF gives_setters(1) gives_render [OF assms(1,2) secs_values(9)]])
  have "gives (idle F 44100 [k]) (collect [0..160 - 1] (sweep_pass lib np pow 160 v))
      (list_all2 frames_are (map (\<lambda>_. 2205) [0..160 - 1 :: int])) (idle F 44100 [k])" for k v
    by (rule gives_collect) (rule p)
  then have "gives (idle F 44100 [k]) (bnd (get_voice 0) (\<lambda>v. bnd (lift (round_int (fdiv F64 (Fin 8) CHUNK))) (\<lambda>n.
      collect [0..n - 1] (sweep_pass lib np pow n v))))
      (list_all2 frames_are (map (\<lambda>_. 2205) [0..159 :: int])) (\<lambda>s. files s = F)" for k
    by (intro gives_files [where sr = 44100 and bs = "[k]"] gives_bnd [OF gives_get_voice]
        gives_bnd [OF gives_lift [OF sweep_chunks, of "\<lambda>n. n = 160"]]) simp_all
  then show ?thesis
    unfolding sweep_main_def using assms(2)
    by (intro gives_cut_script [OF assms(2-4), of _ "map (\<lambda>_. 2205) [0..159 :: int]"] gives_sweep_build
        gives_play_live) (simp_all add: sum_list_triv flip: map_replicate_const)
qed


text \<open>An engine whose voices hold buffers of some lengths.\<close>

definition idle_some :: "(path \<Rightarrow> node option) \<Rightarrow> nat \<Rightarrow> 'z engine_scheme \<Rightarrow> bool" where
  "idle_some F n s \<longleftrightarrow> (\<exists>bs. length bs = n \<and> idle F 44100 bs s)"

lemma gives_some:
  assumes "\<And>bs. length bs = n \<Longrightarrow> gives (idle F 44100 bs) m A R"
  shows "gives (idle_some F n) m A R"
  using assms unfolding gives_def idle_some_def by blast

lemma gives_to_some: "gives P m A (idle F 44100 bs) \<Longrightarrow> length bs = n \<Longrightarrow> gives P m A (idle_some F n)"
  unfolding gives_def idle_some_def by blast

lemma gives_load_idle:
  "audio_at F n p \<Longrightarrow> gives (idle F sr bs) (load_wav_mono p)
     (\<lambda>r. \<exists>xs. r = (xs, 44100) \<and> n \<le> length xs \<and> length xs < 2 ^ 32) (idle F sr bs)"
  by (auto simp: audio_at_def load_wav_mono_def gives_def idle_simps(4))

lemma gives_layer:
  assumes "numpy_ok np" "audio_at F n (DATA repo @ [fst layer])" "v < k"
  shows "gives (idle_some F k) (layer_voice np repo 44100 v layer) (\<lambda>_. True) (idle_some F k)"
proof (rule gives_some)
  fix bs :: "nat list"
  assume bs: "length bs = k"
  obtain name rate pan level where l: "layer = (name, rate, pan, level)"
    by (metis prod_cases4)
  have body: "gives (idle F 44100 bs)
      (seqn (guard ((44100 :: int) = 44100) AssertionError) (bnd (lift (to_buffer np xs)) (\<lambda>b.
         seqn (assign_samples v b) (bnd (lift (int_div (int (length xs)) 44100)) (\<lambda>dur. stmts [
           configure_region v (Fin 0, dur)
             [(''rate'', PF rate), (''pan'', PF pan), (''level'', PF level), (''fade_time'', PF (dec (2 / 100)))],
           set_bool v Play True, cut_to v (Fin 0)])))))
      (\<lambda>_. True) (idle_some F k)" if "length xs < 2 ^ 32" for xs
  proof (rule gives_bnd [OF gives_guard gives_bnd [OF gives_to_buffer [OF assms(1)]]])
    fix b :: samples
    assume b: "length b = nat (next_power_of_two (int (length xs)))"
    have "gives (idle F 44100 bs) (assign_samples v b) (\<lambda>_. True) (idle F 44100 (bs[v := length b]))"
      using gives_assign [of b v bs] next_power_of_two_length b bs assms(3) by simp
    then show "gives (idle F 44100 bs)
      (seqn (assign_samples v b) (bnd (lift (int_div (int (length xs)) 44100)) (\<lambda>dur. stmts [
         configure_region v (Fin 0, dur)
           [(''rate'', PF rate), (''pan'', PF pan), (''level'', PF level), (''fade_time'', PF (dec (2 / 100)))],
         set_bool v Play True, cut_to v (Fin 0)]))) (\<lambda>_. True) (idle_some F k)"
      using that bs
      by (intro gives_to_some [where bs = "bs[v := length b]"])
        (auto intro!: gives_bnd [where Q = "idle F 44100 (bs[v := length b])"] gives_bnd [OF gives_div]
          gives_stmts gives_intro)
  qed simp
  have "audio_at F n (DATA repo @ [name])"
    using assms(2) l by simp
  from gives_load_idle [OF this] show "gives (idle F 44100 bs) (layer_voice np repo 44100 v layer) (\<lambda>_. True) (idle_some F k)"
    unfolding layer_voice_def l prod.case
    by (rule gives_bnd) (elim exE conjE, hypsubst, unfold prod.case, rule body)
qed

lemma gives_layers_build:
  assumes "numpy_ok np" "\<And>name. name \<in> {''m02.wav'', ''m05.wav'', ''m07.wav''} \<Longrightarrow> audio_at F n (DATA repo @ [name])"
    and "gives (idle_some F 3) body A (\<lambda>s. files s = F)"
  shows "gives (\<lambda>s. files s = F) (layers_build np repo dev 44100 body) A (\<lambda>s. files s = F)"
proof -
  let ?load = "\<lambda>vs. for_each (zip LAYERS vs) (\<lambda>(layer, v). layer_voice np repo 44100 v layer)"
  have l: "int (length LAYERS) = 3"
    by (simp add: LAYERS_def)
  have e: "replicate (nat 3) 0 = [0, 0, 0 :: nat]"
    by (simp add: numeral_3_eq_3)
  have "gives (idle_some F 3) (?load [0..<3]) (\<lambda>_. True) (idle_some F 3)"
  proof (rule gives_for_each)
    fix p
    assume z: "p \<in> set (zip LAYERS [0..<3])"
    obtain layer v where p: "p = (layer, v)"
      by (cases p) blast
    have "layer \<in> set LAYERS" "v \<in> set [0..<3]"
      using z unfolding p by (rule set_zip_leftD, rule set_zip_rightD)
    then have v: "v < 3" and l: "layer \<in> set LAYERS"
      by simp_all
    from l have "fst layer \<in> {''m02.wav'', ''m05.wav'', ''m07.wav''}"
      by (auto simp: LAYERS_def)
    then show "gives (idle_some F 3) (case p of (layer, v) \<Rightarrow> layer_voice np repo 44100 v layer) (\<lambda>_. True) (idle_some F 3)"
      unfolding p prod.case by (rule gives_layer [OF assms(1) assms(2) v])
  qed
  then have "gives (idle_some F 3) (seqn (?load [0..<3]) body) A (\<lambda>s. files s = F)"
    using assms(3) by (rule gives_bnd)
  then have "gives (idle F 44100 [0, 0, 0]) (seqn (?load [0..<3]) body) A (\<lambda>s. files s = F)"
    by (rule gives_pre) (auto simp: idle_some_def intro!: exI [of _ "[0, 0, 0]"])
  then have "gives (idle F 44100 (replicate (nat 3) 0)) (bnd (gets all_voices) (\<lambda>vs. seqn (?load vs) body)) A (\<lambda>s. files s = F)"
    unfolding e by (intro gives_bnd [OF gives_all_voices]) (simp del: upt_rec_numeral add: numeral_3_eq_3)
  then show ?thesis
    unfolding layers_build_def l by (rule gives_engine) simp_all
qed

lemma gives_render_some:
  "lib_ok lib \<Longrightarrow> numpy_ok np \<Longrightarrow> secs 44100 x k \<Longrightarrow>
   gives (idle_some F n) (render_seconds lib np x inp) (frames_are k) (\<lambda>s. files s = F)"
  by (rule gives_some) (rule gives_files [OF gives_render])

lemma layers_runs:
  assumes "lib_ok lib" "numpy_ok np"
    "\<And>name. name \<in> {''m02.wav'', ''m05.wav'', ''m07.wav''} \<Longrightarrow> audio_at F n (DATA repo @ [name])"
    "writable F (OUT repo @ [''04_stereo_layers.wav''])"
  shows "gives (\<lambda>s. files s = F) (layers_main lib np repo dev mic play) (\<lambda>_. True)
    (written (OUT repo @ [''04_stereo_layers.wav'']) 352800)"
proof -
  have "audio_at G n (DATA repo @ [name])"
    if "spared F (OUT repo @ [''04_stereo_layers.wav'']) G" "name \<in> {''m02.wav'', ''m05.wav'', ''m07.wav''}" for G name
    using that assms(3) unfolding spared_def by (auto simp: DATA_def OUT_def)
  then have "gives (\<lambda>s. files s = G) (layers_build np repo dev 44100 (play_live lib mic (Fin 8))) (\<lambda>_. True) (\<lambda>s. files s = G)"
    if "spared F (OUT repo @ [''04_stereo_layers.wav'']) G" for G
    using that by (intro gives_layers_build [OF assms(2)] gives_some gives_play_live)
  then show ?thesis
    unfolding layers_main_def using assms(4)
    by (intro gives_mix gives_layers_build [OF assms(2,3)] gives_render_some assms(1,2) secs_values) simp_all
qed


lemma gives_replay:
  assumes "numpy_ok np" "frames_are n r" "n < 2 ^ 29"
  shows "gives (\<lambda>s. files s = G) (replay_mix lib np dev mic r 44100) (\<lambda>_. True) (\<lambda>s. files s = G)"
proof -
  have l: "length (np_mean_rows np r) < 2 ^ 32"
    using assms frames_row_count [OF assms(2)] unfolding numpy_ok_def by simp
  show ?thesis
    unfolding replay_mix_def Let_def
    by (rule gives_engine, simp, rule gives_setup_dur [OF assms(1) l])
      (auto intro!: gives_stmts_Cons [OF gives_configure_region] gives_stmts_Cons [OF gives_setters(3)]
         gives_stmts_Cons [OF gives_setters(4)] gives_stmts_Cons [OF gives_play_live] gives_stmts_Nil)
qed

lemma tape_runs:
  assumes "lib_ok lib" "numpy_ok np" "audio_at F n (DATA repo @ [''m05.wav''])"
    "writable F (OUT repo @ [''08_tape_stop.wav''])"
  shows "gives (\<lambda>s. files s = F) (tape_main lib np repo dev mic play) (\<lambda>_. True)
    (written (OUT repo @ [''08_tape_stop.wav'']) 555660)"
proof -
  have g: "gives (idle F 44100 bs) (tape_glide lib np v x rate) (frames_are k) (idle F 44100 bs)"
    if "secs 44100 x k" for bs v x rate k
    unfolding tape_glide_def by (rule gives_bnd [OF gives_setters(1) gives_render [OF assms(1,2) that]])
  have r1: "gives (idle F 44100 bs) (collect [Fin 0, Fin 1] (tape_glide lib np v (Fin (5 / 2))))
      (list_all2 frames_are (map (\<lambda>_. 110250) [Fin 0, Fin 1])) (idle F 44100 bs)" for bs v
    by (rule gives_collect) (rule g [OF secs_values(5)])
  have r2: "gives (idle F 44100 bs) (collect [Fin (3 / 2), Fin (3 / 4), Fin 2, Fin 1] (tape_glide lib np v (dec (14 / 10))))
      (list_all2 frames_are (map (\<lambda>_. 61740) [Fin (3 / 2), Fin (3 / 4), Fin 2, Fin 1])) (idle F 44100 bs)" for bs v
    by (rule gives_collect) (rule g [OF secs_values(8)])
  have passes: "gives (idle F 44100 [k]) (tape_passes lib np v) (frames_are 555660) (\<lambda>s. files s = F)" for k v
    unfolding tape_passes_def
  proof (rule gives_files, rule gives_bnd [OF gives_render [OF assms(1,2) secs_values(1)]],
      rule gives_bnd [OF gives_setters(1)], rule gives_bnd [OF r1], rule gives_bnd [OF gives_setters(1)], rule gives_bnd [OF r2])
    fix q0 q1 q2
    assume "frames_are 88200 q0" "list_all2 frames_are (map (\<lambda>_. 110250) [Fin 0, Fin 1]) q1"
      "list_all2 frames_are (map (\<lambda>_. 61740) [Fin (3 / 2), Fin (3 / 4), Fin 2, Fin 1]) q2"
    then have "list_all2 frames_are ([88200] @ [110250, 110250] @ [61740, 61740, 61740, 61740]) ([q0] @ q1 @ q2)"
      by (intro list_all2_appendI) simp_all
    then have "list_all2 frames_are [88200, 110250, 110250, 61740, 61740, 61740, 61740] (q0 # q1 @ q2)"
      by simp
    then show "gives (idle F 44100 [k]) (lift (np_concatenate np (q0 # q1 @ q2))) (frames_are 555660) (idle F 44100 [k])"
      by (rule gives_concat [OF assms(2)]) simp_all
  qed
  have "gives (\<lambda>s. files s = F) (tape_build lib np repo dev) (frames_are 555660) (\<lambda>s. files s = F)"
    unfolding tape_build_def
  proof (rule gives_bnd [OF gives_load [OF assms(3)]], elim exE conjE, hypsubst, unfold prod.case)
    fix xs :: samples
    assume "length xs < 2 ^ 32"
    then show "gives (\<lambda>s. files s = F) (bnd (lift (int_div (int (length xs)) 44100)) (\<lambda>dur.
        on_engine dev 1 44100 ''playback'' 512 (bnd (get_voice 0) (\<lambda>v. bnd (lift (to_buffer np xs)) (\<lambda>b.
          seqn (stmts [assign_samples v b,
             configure_region v (Fin 0, dur)
               [(''rate'', PF (Fin 1)), (''fade_time'', PF (dec (1 / 100))), (''level'', PF (dec (9 / 10)))],
             set_bool v Play True, cut_to v (Fin 0)]) (tape_passes lib np v)))))) (frames_are 555660) (\<lambda>s. files s = F)"
      by (intro gives_bnd [OF gives_div] gives_engine) (auto intro!: gives_setup assms(2) passes gives_intro)
  qed
  then show ?thesis
    unfolding tape_main_def
    by (rule gives_mix [OF _ _ _ assms(4)]) (simp, simp, rule gives_replay [OF assms(2)], assumption, simp)
qed


lemma int_times_whole:
  assumes "0 \<le> m" "m \<le> 2 ^ 53" "x * 44100 = of_int m"
  shows "int_times (Fin x) 44100 = Inr m"
proof -
  have "rnd F64 (of_int m) = Fin (of_int m)" "rnd F64 44100 = Fin 44100"
    using rep_int [of m F64] rep_int [of 44100 F64] assms(1,2) by (simp_all add: rnd_rep)
  then show ?thesis
    using assms by (simp add: int_times_def float_of_int_def trunc_int_def)
qed

lemma gap_frames: "int_times (dec (4 / 10)) 44100 = Inr 17640"
proof -
  have d: "dec (4 / 10) = Fin (7205759403792794 / 2 ^ 54)"
    using rnd_eval [of "- 2" "4 / 10" "- 54" F64 7205759403792794]
    by (simp add: dec_def power_int_def power_divide)
  have "rnd F64 (7205759403792794 / 2 ^ 54 * 44100) = Fin 17640"
    using rnd_eval [of 14 "7205759403792794 / 2 ^ 54 * 44100" "- 38" F64 "17640 * 2 ^ 38"]
    by (simp add: power_int_def power_divide)
  moreover have "rnd F64 44100 = Fin 44100"
    using rep_int [of 44100 F64] by (simp add: rnd_rep)
  ultimately show ?thesis
    unfolding d int_times_def by (simp add: float_of_int_def trunc_int_def)
qed

lemma gives_phase_voice:
  assumes "numpy_ok np" "v < k"
  shows "gives (idle_some F k) (phase_voice np src 44100 v) (\<lambda>_. True) (idle_some F k)"
proof (rule gives_some)
  fix bs :: "nat list"
  assume bs: "length bs = k"
  have i: "int_times (Fin 3) 44100 = Inr 132300"
    by (rule int_times_whole) simp_all
  show "gives (idle F 44100 bs) (phase_voice np src 44100 v) (\<lambda>_. True) (idle_some F k)"
    unfolding phase_voice_def
  proof (rule gives_bnd [OF gives_lift [OF i TrueI]], rule gives_bnd [OF gives_to_buffer [OF assms(1)]])
    fix n and b :: samples
    assume "length b = nat (next_power_of_two (int (length (py_slice src 0 n))))"
    then show "gives (idle F 44100 bs) (stmts [assign_samples v b,
         configure_region v (Fin 0, Fin 3)
           [(''rate'', PF (Fin 1)), (''fade_time'', PF (dec (1 / 100))), (''level'', PF (dec (7 / 10)))],
         set_mix v Pan (if v = 0 then dec (- 6 / 10) else dec (6 / 10)),
         set_bool v Play True, cut_to v (Fin 0)]) (\<lambda>_. True) (idle_some F k)"
      by (rule gives_to_some [OF gives_start]) (use bs assms(2) in \<open>auto intro!: gives_intro\<close>)
  qed
qed

lemma phase_runs:
  assumes "lib_ok lib" "numpy_ok np" "audio_at F n (DATA repo @ [''m02.wav''])"
    "writable F (OUT repo @ [''10_phase_sync.wav''])"
  shows "gives (\<lambda>s. files s = F) (phase_main lib np repo dev mic play) (\<lambda>_. True)
    (written (OUT repo @ [''10_phase_sync.wav'']) 352800)"
proof -
  have t: "trunc_int (fdiv F64 (Fin 8) (Fin (1 / 4))) = Inr 32"
    using rep_int [of 32 F64] by (simp add: trunc_int_def rnd_rep)
  have r: "gives (idle F 44100 bs) (collect [0..32 - 1 :: int] (\<lambda>k. render_seconds lib np (Fin (1 / 4)) None))
      (list_all2 frames_are (map (\<lambda>_. 11025) [0..32 - 1 :: int])) (idle F 44100 bs)" for bs
    by (rule gives_collect) (rule gives_render [OF assms(1,2) secs_values(6)])
  have passes: "gives (idle F 44100 bs) (phase_passes lib np 0) (frames_are 352800) (idle F 44100 bs)"
    if "length bs = 2" for bs
    unfolding phase_passes_def
  proof (rule gives_bnd [OF gives_stmts gives_bnd [OF gives_lift [OF t, of "\<lambda>n. n = 32"]]], goal_cases)
    case (3 a n)
    show ?case
      unfolding \<open>n = 32\<close>
      by (rule gives_bnd [OF r], rule gives_concat [OF assms(2)], assumption)
        (simp_all add: sum_list_triv flip: map_replicate_const)
  qed (use that in \<open>auto intro: gives_intro\<close>)
  have body: "gives (idle_some F 2) (seqn (for_each [0..<2] (phase_voice np src 44100)) (bnd (get_voice 0) (phase_passes lib np)))
      (frames_are 352800) (\<lambda>s. files s = F)" for src
    by (rule gives_bnd [OF gives_for_each gives_some], rule gives_phase_voice [OF assms(2)], simp,
        rule gives_bnd [OF gives_get_voice], simp_all, rule gives_files [OF passes], simp)
  have "gives (\<lambda>s. files s = F) (phase_build lib np repo dev) (frames_are 352800) (\<lambda>s. files s = F)"
    unfolding phase_build_def
  proof (rule gives_bnd [OF gives_load [OF assms(3)]], elim exE conjE, hypsubst, unfold prod.case)
    fix src :: samples
    have e: "replicate 2 0 = [0, 0 :: nat]"
      by (simp add: numeral_2_eq_2)
    have "gives (idle F 44100 [0, 0]) (bnd (gets all_voices) (\<lambda>vs. seqn (for_each vs (phase_voice np src 44100))
        (bnd (get_voice 0) (phase_passes lib np)))) (frames_are 352800) (\<lambda>s. files s = F)"
      by (rule gives_bnd [OF gives_all_voices], rule gives_pre [where P = "idle_some F 2"])
        (use body in \<open>auto simp: idle_some_def numeral_2_eq_2 intro!: exI [of _ "[0, 0]"]\<close>)
    then show "gives (\<lambda>s. files s = F) (on_engine dev 2 44100 ''playback'' 512 (bnd (gets all_voices)
        (\<lambda>vs. seqn (for_each vs (phase_voice np src 44100)) (bnd (get_voice 0) (phase_passes lib np)))))
        (frames_are 352800) (\<lambda>s. files s = F)"
      by (intro gives_engine) (simp_all add: e)
  qed
  then show ?thesis
    unfolding phase_main_def
    by (rule gives_mix [OF _ _ _ assms(4)]) (simp, simp, rule gives_replay [OF assms(2)], assumption, simp)
qed

end
