(* ===== verification/Demo_Takes.thy ===== *)
theory Demo_Takes
  imports Demo_Complete
begin

text \<open>
  The demos that record run through as well: from files of at least three seconds they raise
  nothing, and each leaves its WAV file of exactly the frames it rendered.
\<close>

section \<open>One voice over an empty or a filled loop\<close>

definition loop_size :: "nat \<Rightarrow> nat" where
  "loop_size n = nat (next_power_of_two (int n))"

lemma loop_size_ge: "n \<le> loop_size n"
  using conjunct1 [OF next_power_of_two_least [of "int n"]] by (simp add: loop_size_def nat_le_iff)

lemma gives_blank:
  assumes "numpy_ok np"
  shows "gives P (lift (ebind (np_zeros np (int n)) (to_buffer np))) (\<lambda>b. length b = loop_size n) P"
proof -
  have "np_zeros np (int n) = Inr (replicate n (Fin 0))"
    using assms unfolding numpy_ok_def by simp
  then show ?thesis
    using gives_to_buffer [OF assms, of P "replicate n (Fin 0)"] by (simp add: loop_size_def)
qed

lemma gives_loaded:
  assumes "length b = loop_size n"
    and "\<And>m. m \<in> set ms \<Longrightarrow> gives (idle F sr [loop_size n]) m (\<lambda>_. True) (idle F sr [loop_size n])"
  shows "gives (idle F sr [0]) (stmts (assign_samples 0 b # ms)) (\<lambda>_. True) (idle F sr [loop_size n])"
  using gives_start [of b "int n" 0 "[0]" ms F sr] assms by (simp add: loop_size_def)

lemma gives_blank_voice:
  assumes "numpy_ok np"
    and "\<And>k m. m \<in> set (ms 0) \<Longrightarrow> gives (idle F sr [k]) m (\<lambda>_. True) (idle F sr [k])"
    and "gives (idle F sr [loop_size n]) (rest 0) A R"
  shows "gives (idle F sr [0])
    (bnd (get_voice 0) (\<lambda>v. bnd (lift (ebind (np_zeros np (int n)) (to_buffer np)))
       (\<lambda>b. seqn (stmts (assign_samples v b # ms v)) (rest v)))) A R"
proof -
  have b: "gives (idle F sr [0]) (seqn (stmts (assign_samples 0 b # ms 0)) (rest 0)) A R" if "length b = loop_size n" for b
    by (rule gives_bnd [OF gives_loaded [OF that assms(2)] assms(3)])
  have "gives (idle F sr [0]) (bnd (lift (ebind (np_zeros np (int n)) (to_buffer np)))
      (\<lambda>b. seqn (stmts (assign_samples 0 b # ms 0)) (rest 0))) A R"
    by (rule gives_bnd [OF gives_blank [OF assms(1)] b])
  then show ?thesis
    by (intro gives_bnd [OF gives_get_voice]) simp_all
qed

lemma gives_take:
  assumes "numpy_ok np" "int_times loop sr = Inr (int n)"
    and "\<And>k m. m \<in> set (ms 0) \<Longrightarrow> gives (idle F sr [k]) m (\<lambda>_. True) (idle F sr [k])"
    and "gives (idle F sr [loop_size n]) (rest 0) A R"
  shows "gives (idle F sr [0])
    (bnd (get_voice 0) (\<lambda>v. bnd (lift (int_times loop sr)) (\<lambda>n.
       bnd (lift (ebind (np_zeros np n) (to_buffer np))) (\<lambda>b. seqn (stmts (assign_samples v b # ms v)) (rest v))))) A R"
  using gives_blank_voice [of np ms F sr n rest A R] assms by (simp add: bnd_known)

lemma whole_loops:
  "int_times (Fin 2) 44100 = Inr 88200" "int_times (Fin (5 / 2)) 44100 = Inr 110250"
  "int_times (Fin 3) 44100 = Inr 132300" "int_times LOOP4 44100 = Inr 176400"
  by (simp_all add: int_times_whole LOOP4_def)

section \<open>Overdub\<close>

lemma gives_overdub_passes:
  assumes "lib_ok lib" "numpy_ok np"
  shows "gives (idle F 44100 bs) (overdub_passes lib np a b v) (frames_are 529200) (idle F 44100 bs)"
proof -
  have r: "gives (idle F 44100 bs) (render_seconds lib np LOOP4 inp) (frames_are 176400) (idle F 44100 bs)" for inp
    unfolding LOOP4_def by (rule gives_render [OF assms secs_values(3)])
  show ?thesis
    unfolding overdub_passes_def
  proof (rule gives_bnd [OF gives_stmts gives_bnd [OF r gives_bnd [OF gives_stmts gives_bnd [OF r
        gives_bnd [OF gives_stmts gives_bnd [OF r]]]]]], goal_cases)
    case (4 x q1 y q2 z q3)
    then show ?case
      by (intro gives_concat [OF assms(2), of "[176400, 176400, 176400]"]) simp_all
  qed (auto intro: gives_intro)
qed

text \<open>A file written while the engine is there.\<close>

lemma gives_write_idle:
  assumes "frames_are n r" "0 < n" "n < 2 ^ 29" "writable F (OUT repo @ [name])"
  shows "gives (idle F sr bs) (write_out repo name r 44100) (\<lambda>_. True)
    (\<lambda>s. written (OUT repo @ [name]) n s \<and> idle (files s) sr bs s)"
proof (rule givesI)
  fix s :: "'a engine_scheme"
  assume s: "idle F sr bs s"
  then have "files s = F"
    by (rule idle_simps(4))
  with gives_write_out [OF assms] obtain a t where
    t: "write_out repo name r 44100 s = (Inr a, t)" "written (OUT repo @ [name]) n t"
    by (rule givesE)
  then have "\<exists>G. t = s\<lparr>files := G\<rparr>"
    by (auto simp: write_out_def write_wav_ok wave_write_ok)
  with s have "idle (files t) sr bs t"
    by (auto simp: idle_def engine_settings_def)
  with t show "\<exists>a t. write_out repo name r 44100 s = (Inr a, t) \<and> True \<and> written (OUT repo @ [name]) n t
      \<and> idle (files t) sr bs t"
    by blast
qed

lemma idle_stays:
  assumes "\<And>G. gives (idle G sr bs) m A (\<lambda>s. files s = G)"
  shows "gives (\<lambda>s. written p n s \<and> idle (files s) sr bs s) m A (\<lambda>s. written p n (store.truncate s))"
  using assms unfolding gives_def written_def files_truncate by metis

lemma written_truncate [simp]: "written p n (store.truncate s) \<longleftrightarrow> written p n s"
  by (simp add: written_def)

lemma overdub_runs:
  assumes "lib_ok lib" "numpy_ok np" "audio_at F k (DATA repo @ [''m07.wav''])" "audio_at F k (DATA repo @ [''m02.wav''])"
    "writable F (OUT repo @ [''03_overdub.wav''])"
  shows "gives (\<lambda>s. files s = F) (overdub_main lib np repo dev mic play) (\<lambda>_. True)
    (written (OUT repo @ [''03_overdub.wav'']) 529200)"
proof -
  let ?W = "written (OUT repo @ [''03_overdub.wav'']) 529200"
  let ?live = "if play then stmts [cut_to 0 (Fin 0), play_live lib mic (fmul F64 LOOP4 (Fin 2))] else ret ()"
  let ?bs = "[loop_size 176400]"
  have "gives (idle G 44100 ?bs) ?live (\<lambda>_. True) (\<lambda>s. files s = G)" for G
    by (auto intro!: gives_stmts_Cons [OF gives_setters(4)] gives_stmts_Cons [OF gives_play_live] gives_stmts_Nil
        gives_files [OF gives_ret])
  note live = idle_stays [OF this]
  have rest: "gives (idle F 44100 ?bs) (bnd (overdub_passes lib np a b 0) (\<lambda>out.
      seqn (write_out repo ''03_overdub.wav'' out 44100) ?live)) (\<lambda>_. True) (\<lambda>s. ?W (store.truncate s))" for a b
    by (rule gives_bnd [OF gives_overdub_passes [OF assms(1,2)]],
        rule gives_bnd [OF gives_write_idle [OF _ _ _ assms(5)] live]) simp_all
  have body: "gives (\<lambda>st. files st = F) (on_engine dev 1 44100 ''playback'' 512
      (bnd (get_voice 0) (\<lambda>v. bnd (lift (int_times LOOP4 44100)) (\<lambda>n.
       bnd (lift (ebind (np_zeros np n) (to_buffer np))) (\<lambda>buf.
       seqn (stmts [assign_samples v buf,
           configure_region v (Fin 0, LOOP4)
             [(''rate'', PF (Fin 1)), (''fade_time'', PF (dec (5 / 1000))), (''rec_level'', PF (Fin 1)),
              (''level'', PF (dec (9 / 10)))]])
         (bnd (overdub_passes lib np a b v) (\<lambda>out.
       seqn (write_out repo ''03_overdub.wav'' out 44100)
         (if play then stmts [cut_to v (Fin 0), play_live lib mic (fmul F64 LOOP4 (Fin 2))]
          else ret ())))))))) (\<lambda>_. True) ?W" for a b
    by (rule gives_on_engine, simp, rule gives_take [where n = 176400])
      (use assms(2) rest whole_loops(4) in \<open>auto intro!: gives_intro\<close>)
  show ?thesis
    unfolding overdub_main_def
  proof (rule gives_bnd [OF gives_load [OF assms(3)]], elim exE conjE, hypsubst, unfold prod.case,
      rule gives_bnd [OF gives_load [OF assms(4)]], elim exE conjE, hypsubst, unfold prod.case)
  qed (rule body)
qed

section \<open>Filters\<close>

lemma gives_pre_filter:
  assumes "lib_ok lib" "numpy_ok np"
  shows "gives (idle F 44100 bs) (record_through_pre_filter lib np v src (Fin 3) fc rq md) (frames_are 132300) (idle F 44100 bs)"
  unfolding record_through_pre_filter_def
  by (rule gives_bnd [OF gives_stmts gives_bnd [OF gives_render [OF assms secs_values(2)]
        gives_bnd [OF gives_stmts gives_render [OF assms secs_values(2)]]]]) (auto intro!: gives_intro)

lemma gives_mode_pass:
  assumes "lib_ok lib" "numpy_ok np" "p \<in> set POST_MODES"
  shows "gives (idle F 44100 bs) (mode_pass lib np v p) (frames_are 88200) (idle F 44100 bs)"
  unfolding mode_pass_def
  by (rule gives_bnd [OF gives_stmts gives_render [OF assms(1,2) secs_values(1)]])
    (use assms(3) in \<open>auto simp: POST_MODES_def intro!: gives_intro\<close>)

lemma gives_filters_passes:
  assumes "lib_ok lib" "numpy_ok np"
  shows "gives (idle F 44100 bs) (filters_passes lib np src (Fin 3) v) (frames_are 617400) (idle F 44100 bs)"
proof -
  have c1: "gives (idle F 44100 bs) (collect [Fin 16000, Fin 500] (\<lambda>fc.
       record_through_pre_filter lib np v src (Fin 3) fc (Fin 2) (Fin 1)))
       (list_all2 frames_are (map (\<lambda>_. 132300) [Fin 16000, Fin 500])) (idle F 44100 bs)"
    by (rule gives_collect) (rule gives_pre_filter [OF assms])
  have c2: "gives (idle F 44100 bs) (collect POST_MODES (mode_pass lib np v))
       (list_all2 frames_are (map (\<lambda>_. 88200) POST_MODES)) (idle F 44100 bs)"
    by (rule gives_collect) (rule gives_mode_pass [OF assms])
  show ?thesis
    unfolding filters_passes_def
  proof (rule gives_bnd [OF c1], rule gives_bnd [OF gives_configure], simp, rule gives_bnd [OF gives_pre_filter [OF assms]],
      rule gives_bnd [OF gives_configure], simp, rule gives_bnd [OF c2])
    fix q1 q2
    assume "list_all2 frames_are (map (\<lambda>_. 132300) [Fin 16000, Fin 500]) q1"
      "list_all2 frames_are (map (\<lambda>_. 88200) POST_MODES) q2"
    from list_all2_appendI [OF this]
    show "gives (idle F 44100 bs) (lift (np_concatenate np (q1 @ q2))) (frames_are 617400) (idle F 44100 bs)"
      by (rule gives_concat [OF assms(2)]) (simp_all add: POST_MODES_def)
  qed
qed

lemma three_seconds:
  assumes "132300 \<le> n" "n < 2 ^ 53"
  shows "\<exists>d. int_div (int n) 44100 = Inr d \<and> \<not> flt_less d (Fin 3)"
proof -
  have "(of_nat n :: rat) \<le> 2 ^ 53" "(132300 :: rat) \<le> of_nat n"
    using assms of_nat_le_iff [of n "2 ^ 53", where ?'a = rat] of_nat_le_iff [of 132300 n, where ?'a = rat]
    by simp_all
  then have "3 \<le> (of_nat n / 44100 :: rat)" "(of_nat n / 44100 :: rat) \<le> of_int (2 ^ 53)"
    by simp_all
  then obtain q where "rnd F64 (of_nat n / 44100) = Fin q" "3 \<le> q"
    using rnd_Fin_bounds [OF rep_int [of 3 F64] rep_int [of "2 ^ 53" F64], of "of_nat n / 44100"] by auto
  then show ?thesis
    by (simp add: int_div_def)
qed

lemma filters_runs:
  assumes "lib_ok lib" "numpy_ok np" "audio_at F 132300 (DATA repo @ [''m05.wav''])"
    "writable F (OUT repo @ [''09_filters.wav''])"
  shows "gives (\<lambda>s. files s = F) (filters_main lib np repo dev mic play) (\<lambda>_. True)
    (written (OUT repo @ [''09_filters.wav'']) 617400)"
proof -
  have "gives (\<lambda>s. files s = F) (filters_build lib np repo dev) (frames_are 617400) (\<lambda>s. files s = F)"
    unfolding filters_build_def Let_def
  proof (rule gives_bnd [OF gives_load [OF assms(3)]], elim exE conjE, hypsubst, unfold prod.case)
    fix xs :: samples
    assume xs: "132300 \<le> length xs" "length xs < 2 ^ 32"
    then obtain d where d: "int_div (int (length xs)) 44100 = Inr d" "\<not> flt_less d (Fin 3)"
      using three_seconds [of "length xs"] by auto
    show "gives (\<lambda>s. files s = F)
     (bnd (lift (int_div (int (length xs)) 44100)) (\<lambda>dur.
      bnd (lift (int_times (if flt_less dur (Fin 3) then dur else Fin 3) 44100)) (\<lambda>n.
      on_engine dev 1 44100 ''playback'' 512
       (bnd (get_voice 0) (\<lambda>v. bnd (lift (ebind (np_zeros np n) (to_buffer np))) (\<lambda>buf.
        seqn (stmts [assign_samples v buf,
            configure_region v (Fin 0, if flt_less dur (Fin 3) then dur else Fin 3)
              [(''rate'', PF (Fin 1)), (''fade_time'', PF (dec (1 / 100))), (''rec_level'', PF (Fin 1)),
               (''level'', PF (dec (9 / 10)))],
            set_bool v Play True])
          (filters_passes lib np (py_slice xs 0 n) (if flt_less dur (Fin 3) then dur else Fin 3) v))))))) 
     (frames_are 617400) (\<lambda>s. files s = F)"
      by (rule gives_known [OF d(1)], unfold if_not_P [OF d(2)], rule gives_known [OF whole_loops(3)], rule gives_engine,
          simp, rule gives_blank_voice [where n = 132300, simplified])
        (use assms(1,2) in \<open>auto intro!: gives_intro gives_files [OF gives_filters_passes]\<close>)
  qed
  then show ?thesis
    unfolding filters_main_def
    by (rule gives_mix [OF _ _ _ assms(4)]) (simp, simp, rule gives_replay [OF assms(2)], assumption, simp)
qed

section \<open>Capture modes\<close>

lemma gives_capture_voice:
  assumes "numpy_ok np" "gives (idle F 44100 [loop_size 132300]) (body 0) A (idle F 44100 [loop_size 132300])"
  shows "gives (\<lambda>s. files s = F) (new_capture_voice np dev 44100 body) A (\<lambda>s. files s = F)"
  unfolding new_capture_voice_def
  by (rule gives_engine, simp, rule gives_take [where n = 132300])
    (use assms(1) gives_files [OF assms(2)] whole_loops(3) in \<open>auto intro!: gives_intro\<close>)

lemma gives_rec_once:
  assumes "lib_ok lib" "numpy_ok np"
  shows "gives (\<lambda>s. files s = F) (section_rec_once lib np dev 44100 src) (frames_are 132300) (\<lambda>s. files s = F)"
proof -
  have "ebind (int_times (Fin 3) 44100) (np_zeros np) = Inr (replicate 132300 (Fin 0))"
    using assms(2) whole_loops(3) unfolding numpy_ok_def by simp
  then show ?thesis
    unfolding section_rec_once_def
    by (intro gives_capture_voice [OF assms(2)] gives_bnd [OF gives_stmts] gives_bnd [OF gives_render [OF assms secs_values(2)]]
        gives_known gives_bnd [OF gives_setters(4) gives_render [OF assms secs_values(2)]]) (auto intro: gives_intro)
qed

lemma gives_reverse_record:
  assumes "lib_ok lib" "numpy_ok np"
  shows "gives (\<lambda>s. files s = F) (section_reverse_record lib np dev 44100 src) (frames_are 132300) (\<lambda>s. files s = F)"
  unfolding section_reverse_record_def
  by (intro gives_capture_voice [OF assms(2)] gives_bnd [OF gives_stmts] gives_bnd [OF gives_render [OF assms secs_values(2)]]
      gives_render [OF assms secs_values(2)]) (auto intro: gives_intro)

lemma gives_preload:
  assumes "numpy_ok np" "length xs \<le> k" "0 < k"
  shows "gives (idle F sr [k]) (preload_voice np 0 xs) (\<lambda>_. True) (idle F sr [k])"
proof (rule givesI)
  fix s :: engine
  assume s: "idle F sr [k] s"
  then obtain v where v: "voices s = [v]" "vframes v = k"
    by (auto simp: idle_def)
  with s assms(3) obtain a where a: "vbuf v = Some a" "a < brk s" "length (mem s a) = k"
    by (auto simp: idle_def)
  let ?ys = "xs @ drop (length xs) (mem s a)"
  have "np_fill np (mem s a) (int (length xs)) xs = Inr ?ys"
    using assms(1,2) a(3) unfolding numpy_ok_def by simp
  moreover have "idle F sr [k] (put_array a ?ys s)"
    using s v a assms(2) by (simp add: idle_def put_array_def engine_settings_def)
  ultimately show "\<exists>x t. preload_voice np 0 xs s = (Inr x, t) \<and> True \<and> idle F sr [k] t"
    using v(1) a(1) by (simp add: preload_voice_def py_simps edit_array_def)
qed

lemma gives_rec_offset:
  assumes "lib_ok lib" "numpy_ok np"
  shows "gives (\<lambda>s. files s = F) (section_rec_offset lib np dev 44100 src) (frames_are 396900) (\<lambda>s. files s = F)"
proof -
  let ?I = "idle F 44100 [loop_size 132300]"
  have "length (py_slice src 0 132300) \<le> 132300"
    using slice_nonneg [of 0 src 132300] by simp
  then have pre: "gives ?I (preload_voice np 0 (py_slice src 0 132300)) (\<lambda>_. True) ?I"
    using loop_size_ge [of 132300] by (intro gives_preload [OF assms(2)]) simp_all
  have c: "gives ?I (collect [0..<3 :: nat] (\<lambda>_. render_seconds lib np (Fin 3) None))
      (list_all2 frames_are (map (\<lambda>_. 132300) [0..<3 :: nat])) ?I"
    by (rule gives_collect) (rule gives_render [OF assms secs_values(2)])
  have "gives ?I (bnd (collect [0..<3 :: nat] (\<lambda>_. render_seconds lib np (Fin 3) None)) (\<lambda>out. lift (np_concatenate np out)))
      (frames_are 396900) ?I"
    by (rule gives_bnd [OF c], rule gives_concat [OF assms(2)], assumption) (simp_all add: numeral_3_eq_3)
  then show ?thesis
    unfolding section_rec_offset_def
    by (intro gives_capture_voice [OF assms(2)] gives_known [OF whole_loops(3)] gives_bnd [OF gives_stmts])
      (auto intro: gives_intro pre)
qed

lemma gap_rows:
  assumes "numpy_ok np"
  shows "\<exists>r. ebind (int_times (dec (4 / 10)) 44100) (\<lambda>n. np_zeros_rows np n 2) = Inr r \<and> frames_are 17640 r"
  using assms unfolding numpy_ok_def gap_frames by (simp add: frames_are_def)

lemma capture_runs:
  assumes "lib_ok lib" "numpy_ok np" "audio_at F k (DATA repo @ [''m07.wav''])"
    "writable F (OUT repo @ [''11_capture.wav''])"
  shows "gives (\<lambda>s. files s = F) (capture_main lib np repo dev mic play) (\<lambda>_. True)
    (written (OUT repo @ [''11_capture.wav'']) 696780)"
proof -
  obtain g where g: "ebind (int_times (dec (4 / 10)) 44100) (\<lambda>n. np_zeros_rows np n 2) = Inr g" "frames_are 17640 g"
    using gap_rows [OF assms(2)] by blast
  have "gives (\<lambda>s. files s = F) (capture_build lib np repo dev) (frames_are 696780) (\<lambda>s. files s = F)"
    unfolding capture_build_def Let_def
  proof (rule gives_bnd [OF gives_load [OF assms(3)]], elim exE conjE, hypsubst, unfold prod.case,
      rule gives_known [OF whole_loops(3)], rule gives_known [OF g(1)], rule gives_bnd [OF gives_rec_once [OF assms(1,2)]],
      rule gives_bnd [OF gives_reverse_record [OF assms(1,2)]], rule gives_bnd [OF gives_rec_offset [OF assms(1,2)]])
    fix s1 s2 s3
    assume "frames_are 132300 s1" "frames_are 132300 s2" "frames_are 396900 s3"
    then show "gives (\<lambda>s. files s = F) (lift (np_concatenate np [s1, g, s2, g, s3])) (frames_are 696780) (\<lambda>s. files s = F)"
      using g(2) by (intro gives_concat [OF assms(2), of "[132300, 17640, 132300, 17640, 396900]"]) simp_all
  qed
  then show ?thesis
    unfolding capture_main_def
    by (rule gives_mix [OF _ _ _ assms(4)]) (simp, simp, rule gives_replay [OF assms(2)], assumption, simp)
qed

end
