(* ===== verification/Demo_Fripp.thy ===== *)
theory Demo_Fripp
  imports Demo_Takes
begin

text \<open>
  \<open>demos/07_frippertronics.py\<close> and \<open>06_live_looper.py\<close>. The loop of the partial replace adds 0.02 to a
  float until it is within 1e-9 of three seconds: the sums drift from the multiples of 0.02 by less
  than that, so that it makes 150 passes, 45 of them inside the window.
\<close>

section \<open>The loop of the partial replace\<close>

lemma tiny: "150 / 10 ^ 15 \<le> (1 / 10 ^ 10 :: rat)" "1 / 10 ^ 16 \<le> (1 / 10 ^ 10 :: rat)" "1 / 10 ^ 15 \<le> (1 / 10 ^ 10 :: rat)"
  "1 / 10 ^ 10 < (1 / 1000 :: rat)" "1 / 10 ^ 9 = 10 * (1 / 10 ^ 10 :: rat)" "0 < (1 / 10 ^ 10 :: rat)"
  "1 / 10 ^ 16 + 5 / 10 ^ 16 \<le> (1 / 10 ^ 15 :: rat)" "1 / 1000000000 = (1 / 10 ^ 9 :: rat)"
  by simp_all

lemma chunk_step: "\<exists>c. dec (2 / 100) = Fin c \<and> \<bar>c - 1 / 50\<bar> \<le> 1 / 10 ^ 16"
proof -
  obtain c where "rnd F64 (1 / 50) = Fin c" "\<bar>c - 1 / 50\<bar> \<le> pow2 (- 58) / 2"
    using rnd_abs_error [of "1 / 50" "- 5" F64] by (auto simp: power_int_def power_divide)
  moreover from this have "\<bar>c - 1 / 50\<bar> \<le> 1 / 10 ^ 16"
    by (simp add: power_int_def power_divide)
  ultimately show ?thesis
    by (simp add: dec_def)
qed

lemma stop_time: "\<exists>z. fsub F64 (Fin 3) (dec (1 / 1000000000)) = Fin z \<and> \<bar>z - (3 - 1 / 10 ^ 9)\<bar> \<le> 1 / 10 ^ 15"
proof -
  obtain e where e: "rnd F64 (1 / 1000000000) = Fin e" "\<bar>e - 1 / 1000000000\<bar> \<le> pow2 (- 82) / 2"
    using rnd_abs_error [of "1 / 1000000000" "- 29" F64] by (auto simp: power_int_def power_divide)
  then have "\<bar>e - 1 / 1000000000\<bar> \<le> 1 / 10 ^ 16"
    by (simp add: power_int_def power_divide)
  moreover from this have "\<bar>3 - e\<bar> < 4"
    using tiny by linarith
  then have "\<bar>3 - e\<bar> < pow2 2"
    by (simp add: power_int_def)
  then obtain z where z: "rnd F64 (3 - e) = Fin z" "\<bar>z - (3 - e)\<bar> \<le> pow2 (- 51) / 2"
    using rnd_abs_error [of "3 - e" 2 F64] by auto
  from z(2) have "\<bar>z - (3 - e)\<bar> \<le> 5 / 10 ^ 16"
    by (simp add: power_int_def power_divide)
  ultimately have "\<bar>z - (3 - 1 / 10 ^ 9)\<bar> \<le> 1 / 10 ^ 15"
    using tiny by linarith
  with e(1) z(1) show ?thesis
    by (simp add: dec_def)
qed

text \<open>\<open>t\<close> is near the start of chunk \<open>k\<close>.\<close>

definition near_chunk :: "nat \<Rightarrow> flt \<Rightarrow> bool" where
  "near_chunk k t \<longleftrightarrow> (\<exists>q. t = Fin q \<and> \<bar>q - of_nat k / 50\<bar> \<le> of_nat k / 10 ^ 15)"

lemma near_bound:
  assumes "near_chunk k t" "k \<le> 150"
  shows "\<exists>q. t = Fin q \<and> \<bar>q - of_nat k / 50\<bar> \<le> 150 / 10 ^ 15 \<and> of_nat k \<le> (150 :: rat)"
proof -
  have "(of_nat k :: rat) \<le> 150"
    using assms(2) of_nat_le_iff [of k 150, where ?'a = rat] by simp
  moreover from this have "(of_nat k :: rat) / 10 ^ 15 \<le> 150 / 10 ^ 15"
    by (rule divide_right_mono) simp
  ultimately show ?thesis
    using assms(1) unfolding near_chunk_def by fastforce
qed

lemma near_step:
  assumes "near_chunk k t" "k < 150"
  shows "near_chunk (Suc k) (fadd F64 t (dec (2 / 100)))"
proof -
  obtain q where q: "t = Fin q" "\<bar>q - of_nat k / 50\<bar> \<le> of_nat k / 10 ^ 15"
    using assms(1) by (auto simp: near_chunk_def)
  have k: "(of_nat k :: rat) \<le> 149" "\<bar>q - of_nat k / 50\<bar> \<le> 150 / 10 ^ 15"
    using near_bound [OF assms(1)] q(1) assms(2) of_nat_le_iff [of k 149, where ?'a = rat] by auto
  obtain c where c: "dec (2 / 100) = Fin c" "\<bar>c - 1 / 50\<bar> \<le> 1 / 10 ^ 16"
    using chunk_step by blast
  have k0: "0 \<le> (of_nat k :: rat)"
    by simp
  have "\<bar>q + c\<bar> < 4"
    using k k0 c(2) tiny by linarith
  then have "\<bar>q + c\<bar> < pow2 2"
    by (simp add: power_int_def)
  then obtain u where u: "rnd F64 (q + c) = Fin u" "\<bar>u - (q + c)\<bar> \<le> pow2 (- 51) / 2"
    using rnd_abs_error [of "q + c" 2 F64] by auto
  have "\<bar>u - (q + c)\<bar> \<le> 5 / 10 ^ 16"
    using u(2) by (simp add: power_int_def power_divide)
  then have "\<bar>u - of_nat (Suc k) / 50\<bar> \<le> of_nat (Suc k) / 10 ^ 15"
    using q(2) c(2) tiny(7) unfolding of_nat_Suc add_divide_distrib by linarith
  then show ?thesis
    using u(1) q(1) c(1) by (simp add: near_chunk_def)
qed

lemma chunk_times_near:
  assumes "near_chunk k t" "k \<le> 150" "fsub F64 (Fin 3) (dec (1 / 1000000000)) = Fin z"
  shows "\<exists>ts. chunk_times (Fin z) (dec (2 / 100)) t = Some ts \<and> list_all2 near_chunk [k..<150] ts"
  using assms(1,2)
proof (induction "150 - k" arbitrary: k t)
  case 0
  then have k: "k = 150"
    by simp
  obtain q where q: "t = Fin q" "\<bar>q - of_nat k / 50\<bar> \<le> 150 / 10 ^ 15"
    using near_bound [OF 0(2,3)] by blast
  have "\<bar>z - (3 - 1 / 10 ^ 9)\<bar> \<le> 1 / 10 ^ 15"
    using stop_time assms(3) by auto
  moreover have "\<bar>q - 3\<bar> \<le> 150 / 10 ^ 15"
    using q(2) k by simp
  ultimately have "\<not> q < z"
    using tiny by linarith
  then have "\<not> flt_less t (Fin z)"
    using q(1) by simp
  then show ?case
    by (subst chunk_times.simps) (simp add: k)
next
  case (Suc m)
  then have k: "k < 150"
    by simp
  obtain q where q: "t = Fin q" "\<bar>q - of_nat k / 50\<bar> \<le> 150 / 10 ^ 15"
    using near_bound [OF Suc(3,4)] by blast
  have "(of_nat k :: rat) \<le> 149"
    using k of_nat_le_iff [of k 149, where ?'a = rat] by simp
  moreover have "\<bar>z - (3 - 1 / 10 ^ 9)\<bar> \<le> 1 / 10 ^ 15"
    using stop_time assms(3) by auto
  ultimately have "q < z"
    using q(2) tiny by linarith
  then have l: "flt_less t (Fin z)"
    using q(1) by simp
  obtain ts where "chunk_times (Fin z) (dec (2 / 100)) (fadd F64 t (dec (2 / 100))) = Some ts"
      "list_all2 near_chunk [Suc k..<150] ts"
    using Suc.hyps(1) [OF _ near_step [OF Suc.prems(1) k]] Suc.hyps(2) k by (metis Suc_leI diff_Suc_eq_diff_pred diff_Suc_1 diff_commute)
  then show ?case
    using l Suc.prems(1) k
    by (subst chunk_times.simps) (simp add: upt_conv_Cons del: upt_rec_numeral)
qed

lemma replace_times_near: "\<exists>ts. replace_times (Fin 3) = Some ts \<and> list_all2 near_chunk [0..<150] ts"
proof -
  obtain z where z: "fsub F64 (Fin 3) (dec (1 / 1000000000)) = Fin z"
    using stop_time by blast
  moreover have "near_chunk 0 (Fin 0)"
    by (simp add: near_chunk_def)
  ultimately show ?thesis
    using chunk_times_near [of 0 "Fin 0" z] by (auto simp: replace_times_def)
qed

text \<open>The chunks inside the window, from 1.06 to 1.96 seconds.\<close>

lemma window_edge:
  assumes "\<bar>w\<bar> \<le> 1" "w = of_int n / 100"
  shows "\<exists>x. fmul F64 (Fin 3) (dec w) = Fin x \<and> \<bar>x - 3 * w\<bar> \<le> 1 / 10 ^ 10"
proof -
  have "\<bar>w\<bar> < pow2 1"
    using assms(1) by simp
  then obtain d where d: "rnd F64 w = Fin d" "\<bar>d - w\<bar> \<le> pow2 (- 52) / 2"
    using rnd_abs_error [of w 1 F64] by auto
  have e: "\<bar>d - w\<bar> \<le> 1 / 10 ^ 15"
    using d(2) by (simp add: power_int_def power_divide)
  then have "\<bar>3 * d\<bar> < 8"
    using assms(1) tiny by linarith
  then have "\<bar>3 * d\<bar> < pow2 3"
    by (simp add: power_int_def)
  then obtain x where x: "rnd F64 (3 * d) = Fin x" "\<bar>x - 3 * d\<bar> \<le> pow2 (- 50) / 2"
    using rnd_abs_error [of "3 * d" 3 F64] by auto
  have "\<bar>x - 3 * d\<bar> \<le> 1 / 10 ^ 15"
    using x(2) by (simp add: power_int_def power_divide)
  then have "\<bar>x - 3 * w\<bar> \<le> 4 * (1 / 10 ^ 15)"
    using e by linarith
  moreover have "4 * (1 / 10 ^ 15) \<le> (1 / 10 ^ 10 :: rat)"
    by simp
  ultimately have "\<bar>x - 3 * w\<bar> \<le> 1 / 10 ^ 10"
    by linarith
  with d(1) x(1) show ?thesis
    by (simp add: dec_def)
qed

lemma near_in_window:
  assumes "near_chunk k t" "k < 150"
  shows "in_window (Fin 3) t \<longleftrightarrow> 53 \<le> k \<and> k \<le> 97"
proof -
  obtain q where q: "t = Fin q" "\<bar>q - of_nat k / 50\<bar> \<le> 150 / 10 ^ 15"
    using near_bound [OF assms(1)] assms(2) by auto
  have "\<exists>x. fmul F64 (Fin 3) (dec (35 / 100)) = Fin x \<and> \<bar>x - 3 * (35 / 100)\<bar> \<le> 1 / 10 ^ 10"
    by (rule window_edge [of _ 35]) simp_all
  then obtain w0 where w0: "fmul F64 (Fin 3) (dec (35 / 100)) = Fin w0" "\<bar>w0 - 3 * (35 / 100)\<bar> \<le> 1 / 10 ^ 10"
    by blast
  have "\<exists>x. fmul F64 (Fin 3) (dec (65 / 100)) = Fin x \<and> \<bar>x - 3 * (65 / 100)\<bar> \<le> 1 / 10 ^ 10"
    by (rule window_edge [of _ 65]) simp_all
  then obtain w1 where w1: "fmul F64 (Fin 3) (dec (65 / 100)) = Fin w1" "\<bar>w1 - 3 * (65 / 100)\<bar> \<le> 1 / 10 ^ 10"
    by blast
  have lo: "q < w0 \<longleftrightarrow> k < 53"
  proof (cases "k < 53")
    case True
    then have "(of_nat k :: rat) \<le> 52"
      using of_nat_le_iff [of k 52, where ?'a = rat] by simp
    then have "q < w0"
      using q(2) w0(2) tiny by linarith
    with True show ?thesis by simp
  next
    case False
    then have "(53 :: rat) \<le> of_nat k"
      using of_nat_le_iff [of 53 k, where ?'a = rat] by simp
    then have "\<not> q < w0"
      using q(2) w0(2) tiny by linarith
    with False show ?thesis by simp
  qed
  have hi: "q < w1 \<longleftrightarrow> k < 98"
  proof (cases "k < 98")
    case True
    then have "(of_nat k :: rat) \<le> 97"
      using of_nat_le_iff [of k 97, where ?'a = rat] by simp
    then have "q < w1"
      using q(2) w1(2) tiny by linarith
    with True show ?thesis by simp
  next
    case False
    then have "(98 :: rat) \<le> of_nat k"
      using of_nat_le_iff [of 98 k, where ?'a = rat] by simp
    then have "\<not> q < w1"
      using q(2) w1(2) tiny by linarith
    with False show ?thesis by simp
  qed
  show ?thesis
    unfolding in_window_def q(1) w0(1) w1(1) using lo hi by auto
qed

section \<open>The sections\<close>

lemma numpy_fill: "numpy_ok np \<Longrightarrow> length xs \<le> length buf \<Longrightarrow>
   np_fill np buf (int (length xs)) xs = Inr (xs @ drop (length xs) buf)"
  unfolding numpy_ok_def by blast

lemma gives_make_voice:
  assumes "numpy_ok np" "int_times loop 44100 = Inr (int n)" "n \<le> length xs"
    and "gives (idle F 44100 [loop_size n]) (body 0) A (\<lambda>s. files s = F)"
  shows "gives (\<lambda>s. files s = F) (make_voice np dev 44100 loop (Some xs) body) A (\<lambda>s. files s = F)"
proof -
  let ?cut = "py_slice xs 0 (int n)"
  let ?ms = "\<lambda>v. [configure_region v (Fin 0, loop)
              [(''rate'', PF (Fin 1)), (''fade_time'', PF (dec (1 / 100))), (''rec_level'', PF (Fin 1)),
               (''level'', PF (dec (9 / 10)))],
            set_bool v Play True, cut_to v (Fin 0)]"
  have cut: "length ?cut = n"
    using slice_nonneg [of 0 xs n] assms(3) by simp
  have go: "gives (idle F 44100 [0]) (seqn (stmts (assign_samples 0 b # ?ms 0)) (body 0)) A (\<lambda>s. files s = F)"
    if "length b = loop_size n" for b
    by (rule gives_bnd [OF gives_loaded [OF that] assms(4)]) (auto intro!: gives_intro)
  have fill: "gives (idle F 44100 [0]) (lift (np_fill np buf (int n) ?cut)) (\<lambda>b. length b = loop_size n) (idle F 44100 [0])"
    if "length buf = loop_size n" for buf
  proof -
    have "np_fill np buf (int n) ?cut = Inr (?cut @ drop n buf)"
      using numpy_fill [OF assms(1), of ?cut buf, unfolded cut that] loop_size_ge by blast
    then show ?thesis
      by (rule gives_lift) (use that cut loop_size_ge [of n] in simp)
  qed
  have "gives (idle F 44100 [0]) (bnd (lift (ebind (np_zeros np (int n)) (to_buffer np))) (\<lambda>buf.
      bnd (lift (np_fill np buf (int n) ?cut)) (\<lambda>b. seqn (stmts (assign_samples 0 b # ?ms 0)) (body 0)))) A (\<lambda>s. files s = F)"
    by (rule gives_bnd [OF gives_blank [OF assms(1)] gives_bnd [OF fill go]])
  then have "gives (idle F 44100 [0]) (bnd (get_voice 0) (\<lambda>v. bnd (lift (int_times loop 44100)) (\<lambda>n.
      bnd (lift (ebind (np_zeros np n) (to_buffer np))) (\<lambda>buf.
      bnd (lift (case Some xs of None \<Rightarrow> Inr buf | Some xs \<Rightarrow> np_fill np buf n (py_slice xs 0 n))) (\<lambda>b.
      seqn (stmts (assign_samples v b # ?ms v)) (body v)))))) A (\<lambda>s. files s = F)"
    unfolding assms(2) bnd_known option.case by (intro gives_bnd [OF gives_get_voice]) simp_all
  then show ?thesis
    unfolding make_voice_def by (intro gives_engine) simp_all
qed

lemma list_all2_concat: "list_all2 (list_all2 P) xss yss \<Longrightarrow> list_all2 P (concat xss) (concat yss)"
  by (induction rule: list_all2_induct) (simp_all add: list_all2_appendI)

lemma gives_record_pass:
  assumes "lib_ok lib" "numpy_ok np"
  shows "gives (idle F 44100 bs) (record_pass lib np (Fin (5 / 2)) v p) (list_all2 frames_are [110250, 110250]) (idle F 44100 bs)"
proof -
  have r: "gives (idle F 44100 bs) (render_seconds lib np (Fin (5 / 2)) inp) (frames_are 110250) (idle F 44100 bs)" for inp
    by (rule gives_render [OF assms secs_values(5)])
  show ?thesis
    unfolding record_pass_def case_prod_beta
    by (rule gives_bnd [OF gives_stmts gives_bnd [OF r gives_bnd [OF gives_stmts gives_bnd [OF r gives_ret]]]])
      (auto intro: gives_intro)
qed

lemma gives_replace_section:
  assumes "lib_ok lib" "numpy_ok np" "110250 \<le> length a"
  shows "gives (\<lambda>s. files s = F) (section_overdub_then_replace lib np dev 44100 a b c (Fin (5 / 2)))
    (frames_are 551250) (\<lambda>s. files s = F)"
proof -
  have c: "gives (idle F 44100 bs) (collect ps (record_pass lib np (Fin (5 / 2)) v))
      (list_all2 (list_all2 frames_are) (map (\<lambda>_. [110250, 110250]) ps)) (idle F 44100 bs)" for bs ps v
    by (rule gives_collect) (rule gives_record_pass [OF assms(1,2)])
  have "gives (idle F 44100 bs)
      (bnd (render_seconds lib np (Fin (5 / 2)) None) (\<lambda>r0. bnd (collect [(Fin 1, b), (Fin 0, c)] (record_pass lib np (Fin (5 / 2)) 0))
        (\<lambda>rs. lift (np_concatenate np (r0 # concat rs))))) (frames_are 551250) (idle F 44100 bs)" for bs
  proof (rule gives_bnd [OF gives_render [OF assms(1,2) secs_values(5)]], rule gives_bnd [OF c])
    fix r0 rs
    assume r: "frames_are 110250 r0" "list_all2 (list_all2 frames_are) (map (\<lambda>_. [110250, 110250]) [(Fin 1, b), (Fin 0, c)]) rs"
    from list.rel_intros(2) [OF r(1) list_all2_concat [OF r(2)]]
    show "gives (idle F 44100 bs) (lift (np_concatenate np (r0 # concat rs))) (frames_are 551250) (idle F 44100 bs)"
      by (rule gives_concat [OF assms(2)]) simp_all
  qed
  from gives_files [OF this] show ?thesis
    unfolding section_overdub_then_replace_def
    by (intro gives_make_voice [OF assms(2), where n = 110250]) (simp_all add: whole_loops assms(3))
qed

lemma int_times_some:
  assumes "\<bar>q\<bar> \<le> 4"
  shows "\<exists>n. int_times (Fin q) 44100 = Inr n"
proof -
  have "\<bar>q * 44100\<bar> \<le> 4 * 44100"
    using assms by (simp add: abs_mult)
  then have "\<bar>q * 44100\<bar> < pow2 18"
    by (simp add: power_int_def)
  then obtain y where "rnd F64 (q * 44100) = Fin y"
    using rnd_abs_error [of "q * 44100" 18 F64] by auto
  moreover have "rnd F64 44100 = Fin 44100"
    using rep_int [of 44100 F64] by (simp add: rnd_rep)
  ultimately show ?thesis
    by (simp add: int_times_def float_of_int_def trunc_int_def)
qed

lemma gives_replace_chunk:
  assumes "lib_ok lib" "numpy_ok np" "near_chunk k t" "k < 150"
  shows "gives (idle F 44100 bs) (replace_chunk lib np 44100 newmat loop v t) (frames_are 882) (idle F 44100 bs)"
proof -
  obtain q where q: "t = Fin q" "\<bar>q - of_nat k / 50\<bar> \<le> 150 / 10 ^ 15" "of_nat k \<le> (150 :: rat)"
    using near_bound [OF assms(3)] assms(4) by auto
  have "(0 :: rat) \<le> of_nat k"
    by simp
  then have "\<bar>q\<bar> \<le> 4"
    using q(2,3) tiny by linarith
  then obtain i where i: "int_times t 44100 = Inr i"
    using int_times_some q(1) by blast
  obtain c where c: "dec (2 / 100) = Fin c" "\<bar>c - 1 / 50\<bar> \<le> 1 / 10 ^ 16"
    using chunk_step by blast
  then have "\<bar>c\<bar> \<le> 4"
    using tiny by linarith
  then obtain n where n: "int_times (dec (2 / 100)) 44100 = Inr n"
    using int_times_some c(1) by metis
  show ?thesis
    unfolding replace_chunk_def Let_def
    by (rule gives_bnd [OF gives_stmts gives_known [OF i gives_known [OF n gives_render [OF assms(1,2) secs_values(7)]]]])
      (auto intro: gives_intro)
qed

lemma gives_partial_section:
  assumes "lib_ok lib" "numpy_ok np" "132300 \<le> length base" "list_all2 near_chunk [0..<150] ts"
  shows "gives (\<lambda>s. files s = F) (section_partial_replace lib np dev 44100 base newmat (Fin 3) ts)
    (frames_are 396900) (\<lambda>s. files s = F)"
proof -
  have len: "length ts = 150"
    using list_all2_lengthD [OF assms(4)] by simp
  have t: "\<exists>k < 150. near_chunk k t" if "t \<in> set ts" for t
    using that list_all2_nthD2 [OF assms(4)] len by (auto simp: in_set_conv_nth) 
  have "gives (idle F 44100 bs) (collect ts (replace_chunk lib np 44100 newmat (Fin 3) v))
      (list_all2 frames_are (map (\<lambda>_. 882) ts)) (idle F 44100 bs)" for bs v
    using t by (intro gives_collect) (blast intro: gives_replace_chunk [OF assms(1,2)])
  then have c: "gives (idle F 44100 bs) (collect ts (replace_chunk lib np 44100 newmat (Fin 3) v))
      (list_all2 frames_are (replicate 150 882)) (idle F 44100 bs)" for bs v
    by (simp add: map_replicate_const len)
  have r: "gives (idle F 44100 bs) (render_seconds lib np (Fin 3) inp) (frames_are 132300) (idle F 44100 bs)" for bs inp
    by (rule gives_render [OF assms(1,2) secs_values(2)])
  have j: "gives (idle F 44100 bs) (lift (np_concatenate np (r0 # rs @ [r1]))) (frames_are 396900) (idle F 44100 bs)"
    if "frames_are 132300 r0" "list_all2 frames_are (replicate 150 882) rs" "frames_are 132300 r1" for bs r0 rs r1
  proof (rule gives_concat [OF assms(2)])
    show "list_all2 frames_are (132300 # replicate 150 882 @ [132300]) (r0 # rs @ [r1])"
      using that by (intro list.rel_intros(2) list_all2_appendI) simp_all
  qed (simp_all add: sum_list_replicate)
  have "gives (idle F 44100 bs) (bnd (render_seconds lib np (Fin 3) None) (\<lambda>r0.
       seqn (stmts [set_bool 0 Rec True, set_float 0 RecPreSlewTime (dec (8 / 100)), cut_to 0 (Fin 0)])
         (bnd (collect ts (replace_chunk lib np 44100 newmat (Fin 3) 0)) (\<lambda>rs.
          seqn (stmts [set_bool 0 Rec False, set_float 0 RecLevel (Fin 1), cut_to 0 (Fin 0)])
            (bnd (render_seconds lib np (Fin 3) None) (\<lambda>r1.
               lift (np_concatenate np (r0 # rs @ [r1])))))))) (frames_are 396900) (idle F 44100 bs)" for bs
    by (rule gives_bnd [OF r gives_bnd [OF gives_stmts gives_bnd [OF c gives_bnd [OF gives_stmts gives_bnd [OF r j]]]]])
      (auto intro: gives_intro)
  from gives_files [OF this] show ?thesis
    unfolding section_partial_replace_def
    by (intro gives_make_voice [OF assms(2), where n = 132300]) (simp_all add: whole_loops assms(3))
qed

lemma gives_fripp_section:
  assumes "lib_ok lib" "numpy_ok np" "88200 \<le> length seed"
  shows "gives (\<lambda>s. files s = F) (section_frippertronics lib np dev 44100 seed phrase (Fin 2) 9)
    (frames_are 882000) (\<lambda>s. files s = F)"
proof -
  have r: "gives (idle F 44100 bs) (render_seconds lib np (Fin 2) inp) (frames_are 88200) (idle F 44100 bs)" for bs inp
    by (rule gives_render [OF assms(1,2) secs_values(1)])
  have "gives (idle F 44100 bs) (decay_pass lib np phrase (Fin 2) v p) (frames_are 88200) (idle F 44100 bs)" for bs v p
    unfolding decay_pass_def by (rule gives_bnd [OF gives_setters(4) r])
  then have c: "gives (idle F 44100 bs) (collect [0..<9] (decay_pass lib np phrase (Fin 2) v))
      (list_all2 frames_are (map (\<lambda>_. 88200) [0..<9 :: nat])) (idle F 44100 bs)" for bs v
    by (rule gives_collect)
  have j: "gives (idle F 44100 bs) (lift (np_concatenate np (r0 # rs))) (frames_are 882000) (idle F 44100 bs)"
    if "frames_are 88200 r0" "list_all2 frames_are (map (\<lambda>_. 88200) [0..<9 :: nat]) rs" for bs r0 rs
    by (rule gives_concat [OF assms(2) list.rel_intros(2) [OF that]]) (simp_all add: map_replicate_const sum_list_replicate)
  have "gives (idle F 44100 bs) (bnd (render_seconds lib np (Fin 2) None) (\<lambda>r0.
       seqn (stmts [set_bool 0 Rec True, set_float 0 PreLevel (dec (82 / 100))])
         (bnd (collect [0..<9] (decay_pass lib np phrase (Fin 2) 0)) (\<lambda>rs.
            lift (np_concatenate np (r0 # rs)))))) (frames_are 882000) (idle F 44100 bs)" for bs
    by (rule gives_bnd [OF r gives_bnd [OF gives_stmts gives_bnd [OF c j]]]) (auto intro: gives_intro)
  from gives_files [OF this] show ?thesis
    unfolding section_frippertronics_def
    by (intro gives_make_voice [OF assms(2), where n = 88200]) (simp_all add: whole_loops assms(3))
qed

section \<open>The whole script\<close>

lemma fripp_builds:
  assumes "lib_ok lib" "numpy_ok np"
    "\<And>name. name \<in> {''m02.wav'', ''m05.wav'', ''m07.wav'', ''m08.wav''} \<Longrightarrow> audio_at F 132300 (DATA repo @ [name])"
  shows "\<exists>m. fripp_build lib np repo dev 44100 = Some m
    \<and> gives (\<lambda>s. files s = F) m (frames_are 1865430) (\<lambda>s. files s = F)"
proof -
  obtain ts where ts: "replace_times (Fin 3) = Some ts" "list_all2 near_chunk [0..<150] ts"
    using replace_times_near by blast
  obtain g where g: "silence np 44100 (dec (4 / 10)) = Inr g" "frames_are 17640 g"
    using gap_rows [OF assms(2)] unfolding silence_def by blast
  note ld = gives_bnd [OF gives_load [OF assms(3)]]
  show ?thesis
    unfolding fripp_build_def ts(1) option.map
  proof (intro exI conjI, rule refl, rule ld, simp, elim exE conjE, hypsubst, unfold prod.case,
      rule ld, simp, elim exE conjE, hypsubst, unfold prod.case, rule ld, simp, elim exE conjE, hypsubst, unfold prod.case,
      rule ld, simp, elim exE conjE, hypsubst, unfold prod.case, rule ld, simp, elim exE conjE, hypsubst, unfold prod.case,
      rule ld, simp, elim exE conjE, hypsubst, unfold prod.case, rule gives_known [OF g(1)])
    fix a b c base seed phrase :: samples
    assume l: "132300 \<le> length a" "132300 \<le> length base" "132300 \<le> length seed"
    have j: "gives (\<lambda>s. files s = F) (lift (np_concatenate np [s1, g, s2, g, s3])) (frames_are 1865430) (\<lambda>s. files s = F)"
      if "frames_are 551250 s1" "frames_are 396900 s2" "frames_are 882000 s3" for s1 s2 s3
      using that g(2) by (intro gives_concat [OF assms(2), of "[551250, 17640, 396900, 17640, 882000]"]) simp_all
    have la: "110250 \<le> length a" and ls: "88200 \<le> length seed"
      using l by simp_all
    show "gives (\<lambda>s. files s = F)
     (bnd (section_overdub_then_replace lib np dev 44100 a b c (Fin (5 / 2))) (\<lambda>s1.
      bnd (section_partial_replace lib np dev 44100 base b (Fin 3) ts) (\<lambda>s2.
      bnd (section_frippertronics lib np dev 44100 seed phrase (Fin 2) 9) (\<lambda>s3.
        lift (np_concatenate np [s1, g, s2, g, s3]))))) (frames_are 1865430) (\<lambda>s. files s = F)"
      by (rule gives_bnd [OF gives_replace_section [OF assms(1,2) la] gives_bnd [OF
            gives_partial_section [OF assms(1,2) l(2) ts(2)] gives_bnd [OF gives_fripp_section [OF assms(1,2) ls] j]]])
  qed
qed

lemma mix_time:
  "\<exists>d n. int_div 1865430 44100 = Inr d \<and> int_times d 44100 = Inr (int n) \<and> n \<le> 1865430"
proof -
  have "\<bar>1865430 / 44100 :: rat\<bar> < pow2 6"
    by (simp add: power_int_def)
  then obtain d where d: "rnd F64 (1865430 / 44100) = Fin d" "\<bar>d - 1865430 / 44100\<bar> \<le> pow2 (- 47) / 2"
    using rnd_abs_error [of "1865430 / 44100" 6 F64] by auto
  have "\<bar>d - 423 / 10\<bar> \<le> 1 / 1000000"
    using d(2) by (simp add: power_int_def power_divide)
  then have e: "\<bar>d * 44100 - 1865430\<bar> < 1 / 2"
    unfolding abs_le_iff abs_less_iff by linarith
  then have "\<bar>d * 44100\<bar> < 2097152"
    unfolding abs_less_iff by linarith
  then have "\<bar>d * 44100\<bar> < pow2 21"
    by (simp add: power_int_def)
  then obtain y where y: "rnd F64 (d * 44100) = Fin y" "\<bar>y - d * 44100\<bar> \<le> pow2 (- 32) / 2"
    using rnd_abs_error [of "d * 44100" 21 F64] by auto
  have "\<bar>y - d * 44100\<bar> \<le> 1 / 4"
    using y(2) by (simp add: power_int_def power_divide)
  then have b: "0 \<le> y" "y < 1865431"
    using e unfolding abs_le_iff abs_less_iff by linarith+
  then have f: "0 \<le> \<lfloor>y\<rfloor>" "\<lfloor>y\<rfloor> \<le> 1865430"
    by (simp_all add: floor_le_iff)
  have "rnd F64 44100 = Fin 44100"
    using rep_int [of 44100 F64] by (simp add: rnd_rep)
  then have "int_times (Fin d) 44100 = Inr (int (nat \<lfloor>y\<rfloor>))"
    using y(1) b(1) by (simp add: int_times_def float_of_int_def trunc_int_def)
  moreover have "int_div 1865430 44100 = Inr (Fin d)"
    using d(1) by (simp add: int_div_def)
  ultimately show ?thesis
    using f nat_le_iff [of "\<lfloor>y\<rfloor>" 1865430] by (intro exI [of _ "Fin d"] exI [of _ "nat \<lfloor>y\<rfloor>"]) auto
qed

lemma fripp_runs:
  assumes "lib_ok lib" "numpy_ok np"
    "\<And>name. name \<in> {''m02.wav'', ''m05.wav'', ''m07.wav'', ''m08.wav''} \<Longrightarrow> audio_at F 132300 (DATA repo @ [name])"
    "writable F (OUT repo @ [''07_frippertronics.wav''])"
  shows "\<exists>m. fripp_main lib np repo dev mic play = Some m \<and> gives (\<lambda>s. files s = F) m (\<lambda>_. True)
    (written (OUT repo @ [''07_frippertronics.wav'']) 1865430)"
proof -
  obtain m where m: "fripp_build lib np repo dev 44100 = Some m"
      "gives (\<lambda>s. files s = F) m (frames_are 1865430) (\<lambda>s. files s = F)"
    using fripp_builds [OF assms(1-3)] by blast
  obtain d n where d: "int_div 1865430 44100 = Inr d" "int_times d 44100 = Inr (int n)" "n \<le> 1865430"
    using mix_time by blast
  have live: "gives (\<lambda>s. files s = G)
      (let mono = np_mean_rows np r in bnd (lift (int_div (int (length mono)) 44100)) (\<lambda>dur.
         make_voice np dev 44100 dur (Some mono) (\<lambda>v. play_live lib mic dur))) (\<lambda>_. True) (\<lambda>s. files s = G)"
    if "frames_are 1865430 r" for G r
  proof -
    have l: "length (np_mean_rows np r) = 1865430"
      using frames_row_count [OF that] assms(2) unfolding numpy_ok_def by simp
    have i: "int_div (int (length (np_mean_rows np r))) 44100 = Inr d"
      using d(1) l by simp
    show ?thesis
      unfolding Let_def
      by (rule gives_known [OF i], rule gives_make_voice [OF assms(2) d(2) _ gives_play_live]) (use d(3) l in simp)
  qed
  show ?thesis
    unfolding fripp_main_def m(1) option.map
    by (intro exI conjI, rule refl, rule gives_mix [OF m(2) _ _ assms(4) live]) simp_all
qed

section \<open>The looper\<close>

lemma posts_return [gives_intro]:
  "gives (\<lambda>_. True) (set_float i a x) (\<lambda>_. True) (\<lambda>_. True)" "gives (\<lambda>_. True) (set_bool i b y) (\<lambda>_. True) (\<lambda>_. True)"
  "gives (\<lambda>_. True) (cut_to i x) (\<lambda>_. True) (\<lambda>_. True)" "gives (\<lambda>_. True) (nap lib mic x) (\<lambda>_. True) (\<lambda>_. True)"
  by (simp_all add: set_float_def set_bool_def cut_to_def nap_def gives_modify)

lemma gives_record_for [gives_intro]:
  "gives (\<lambda>_. True) (voice_record_for v (nap lib mic x) (Some y)) (\<lambda>_. True) (\<lambda>_. True)"
  by (simp add: gives_def voice_record_for_def voice_record_def cut_to_def set_bool_def nap_def py_simps)

lemma looper_passes_return: "gives (\<lambda>_. True) (looper_passes lib mic loops turns v) (\<lambda>_. True) (\<lambda>_. True)"
  unfolding looper_passes_def by (intro gives_stmts) (auto intro!: gives_intro gives_for_each gives_stmts)

lemma stop_returns: "\<exists>t. engine_stop s = (Inr (), t) \<and> \<not> running t"
  by (cases "running s") (simp_all add: engine_stop_def core_stop_def)

lemma gives_allocate_one:
  assumes "secs sr x n" "1 \<le> n"
  shows "gives (idle F sr [0]) (allocate (Some x) None True) (\<lambda>_. True) (idle F sr [loop_size n])"
proof (rule givesI)
  fix s :: "'a engine_scheme"
  assume s: "idle F sr [0] s"
  let ?zs = "replicate (loop_size n) (Fin 0)"
  have "pow2_length (length ?zs)"
    using next_power_of_two_length [of "int n"] by (simp add: loop_size_def)
  then obtain t where t: "assign_samples 0 ?zs s = (Inr (), t)" "idle F sr [loop_size n] t"
    using givesE [OF gives_assign [of ?zs 0 "[0]" F sr] s] by auto
  have n: "0 \<le> next_power_of_two (int n)" "1 \<le> int n"
    using conjunct1 [OF next_power_of_two_least [of "int n"]] assms(2) by simp_all
  have "requested_frames (Some x) None (esr s) = Inr (int n)"
    using assms(1) idle_simps(2) [OF s] by (simp add: requested_frames_def secs_def)
  then have "allocate (Some x) None True s = (Inr [brk s], t)"
    using n t(1) idle_simps(5) [OF s]
    by (simp add: allocate_def check_one_def py_simps all_voices_def new_zeros_eq loop_size_def assign_samples_def
        new_array_def Let_def bnd_def split: prod.splits sum.splits)
  with t(2) show "\<exists>a t. allocate (Some x) None True s = (Inr a, t) \<and> True \<and> idle F sr [loop_size n] t"
    by blast
qed

text \<open>The looper raises nothing, with a device or without, and the device is stopped at its end.\<close>

lemma looper_returns:
  "gives (idle F 48000 [0]) (looper_main lib dev mic loops turns) (\<lambda>_. True) (\<lambda>s. \<not> running s)"
proof -
  have "secs 48000 LOOP4 192000"
    using frames_on_grid [of 192000 48000] dec_exact by (simp add: secs_def dec_def LOOP4_def)
  note a = gives_allocate_one [OF this]
  have live: "gives (idle F 48000 bs) (\<lambda>s. case engine_start s of
          (Inl RuntimeError, s1) \<Rightarrow> (Inr (), s1)
        | (Inl e, s1) \<Rightarrow> (Inl e, s1)
        | (Inr _, s1) \<Rightarrow> (case looper_passes lib mic loops turns v s1 of (r, s2) \<Rightarrow>
             (case engine_stop s2 of (Inl e, s3) \<Rightarrow> (Inl e, s3) | (Inr _, s3) \<Rightarrow> (r, s3))))
      (\<lambda>_. True) (\<lambda>s. \<not> running s)" for bs v
  proof (rule givesI)
    fix s :: engine
    assume s: "idle F 48000 bs s"
    obtain s2 where s2: "looper_passes lib mic loops turns v (s\<lparr>running := True\<rparr>) = (Inr (), s2)"
      using givesE [OF looper_passes_return [of lib mic loops turns v], of "s\<lparr>running := True\<rparr>"] by auto
    obtain s3 where "engine_stop s2 = (Inr (), s3)" "\<not> running s3"
      using stop_returns by blast
    with s2 idle_simps(1) [OF s] show "\<exists>a t. (case engine_start s of
          (Inl RuntimeError, s1) \<Rightarrow> (Inr (), s1)
        | (Inl e, s1) \<Rightarrow> (Inl e, s1)
        | (Inr _, s1) \<Rightarrow> (case looper_passes lib mic loops turns v s1 of (r, s2) \<Rightarrow>
             (case engine_stop s2 of (Inl e, s3) \<Rightarrow> (Inl e, s3) | (Inr _, s3) \<Rightarrow> (r, s3)))) = (Inr a, t)
        \<and> True \<and> \<not> running t"
      by (cases "device_ok s") (simp_all add: engine_start_def core_start_def)
  qed
  show ?thesis
    unfolding looper_main_def
    by (rule gives_bnd [OF a], simp, rule gives_bnd [OF gives_get_voice], simp_all,
        rule gives_bnd [OF gives_configure_region live], simp)
qed

end
