(* ===== verification/Demo_Norns.thy ===== *)
theory Demo_Norns
  imports Demo_Util Norns_Host
begin

text \<open>
  \<open>demos/12_norns_api.py\<close>: a script over the norns host only. A setup is the list of calls of one of
  the functions \<open>s1_forward\<close> to \<open>s6_reversed_copy\<close>.
\<close>

definition SR :: int where "SR = 48000"
definition REGION :: flt where "REGION = Fin (5 / 2)"
definition SECTION :: flt where "SECTION = Fin 3"
definition GAP :: flt where "GAP = Fin 1"
definition REV_START :: flt where "REV_START = Fin 3"
definition REV_DUR :: flt where "REV_DUR = Fin 2"

definition norns_load :: "path \<Rightarrow> ('z norns_scheme, unit) py" where
  "norns_load repo =
     seqn buffer_clear
       (buffer_read_stereo (DATA repo @ [''m04.wav'']) (Fin 0) (Fin 0) (Fin (- 1)) (Fin 0) (Fin 1))"

definition all_off :: "('z norns_scheme, unit) py" where
  "all_off = for_each [1..6] (\<lambda>i. stmts [set_param ''play'' i (Fin 0), set_param ''rec'' i (Fin 0)])"

definition s1_forward :: "('z norns_scheme, unit) py" where
  "s1_forward = stmts [
     all_off, buffer 1 1, set_param ''rate'' 1 (Fin 1), set_param ''level'' 1 (dec (85 / 100)),
     set_param ''pan'' 1 (Fin 0), set_param ''loop'' 1 (Fin 1), set_param ''loop_start'' 1 (Fin 0),
     set_param ''loop_end'' 1 REGION, set_param ''fade_time'' 1 (dec (1 / 100)),
     set_param ''post_filter_dry'' 1 (Fin 1), set_param ''post_filter_lp'' 1 (Fin 0),
     set_position 1 (Fin 0), set_param ''play'' 1 (Fin 1)]"

definition s2_lowpass :: "('z norns_scheme, unit) py" where
  "s2_lowpass = stmts [
     s1_forward, set_param ''post_filter_dry'' 1 (Fin 0), set_param ''post_filter_lp'' 1 (Fin 1),
     set_param ''post_filter_fc'' 1 (Fin 800)]"

definition s3_octave_down :: "('z norns_scheme, unit) py" where
  "s3_octave_down = stmts [s1_forward, set_param ''rate'' 1 (Fin (1 / 2))]"

definition s4_reverse :: "('z norns_scheme, unit) py" where
  "s4_reverse = stmts [s1_forward, set_param ''rate'' 1 (Fin (- 1)), set_position 1 REGION]"

definition stereo_voice :: "int \<times> int \<times> flt \<Rightarrow> ('z norns_scheme, unit) py" where
  "stereo_voice p = (case p of (i, buf, pan) \<Rightarrow> stmts [
     buffer i buf, set_param ''rate'' i (Fin 1), set_param ''level'' i (dec (8 / 10)),
     set_param ''pan'' i pan, set_param ''loop'' i (Fin 1), set_param ''loop_start'' i (Fin 0),
     set_param ''loop_end'' i REGION, set_param ''fade_time'' i (dec (1 / 100)),
     set_position i (Fin 0), set_param ''play'' i (Fin 1)])"

definition s5_stereo :: "('z norns_scheme, unit) py" where
  "s5_stereo = stmts [all_off, for_each [(1, 1, dec (- 6 / 10)), (2, 2, dec (6 / 10))] stereo_voice]"

definition s6_reversed_copy :: "('z norns_scheme, unit) py" where
  "s6_reversed_copy = stmts [
     buffer_copy_mono 1 1 (Fin 0) REV_START REV_DUR (Fin 0) (Fin 0) True,
     all_off, buffer 1 1, set_param ''rate'' 1 (Fin 1), set_param ''level'' 1 (dec (85 / 100)),
     set_param ''pan'' 1 (Fin 0), set_param ''loop'' 1 (Fin 1), set_param ''loop_start'' 1 REV_START,
     set_param ''loop_end'' 1 (fadd F64 REV_START REV_DUR), set_param ''fade_time'' 1 (dec (2 / 100)),
     set_param ''post_filter_dry'' 1 (Fin 1), set_param ''post_filter_lp'' 1 (Fin 0),
     set_position 1 REV_START, set_param ''play'' 1 (Fin 1)]"

definition STEPS :: "('z norns_scheme, unit) py list" where
  "STEPS = [s1_forward, s2_lowpass, s3_octave_down, s4_reverse, s5_stereo, s6_reversed_copy]"

definition render_step ::
    "dsp_lib \<Rightarrow> numpy \<Rightarrow> ('z norns_scheme, unit) py \<Rightarrow> ('z norns_scheme, rows) py" where
  "render_step lib np setup =
     seqn setup
       (bnd (lift (ebind (int_times SECTION SR) (np_zeros np))) (\<lambda>zs.
        bnd (new_array zs) (\<lambda>a.
        bnd (norns_render lib (Some a) None None) (\<lambda>o'.
        bnd (gets (\<lambda>s. np_reshape np (mem s o') 2)) lift))))"

definition render_offline :: "dsp_lib \<Rightarrow> numpy \<Rightarrow> ('z norns_scheme, rows) py" where
  "render_offline lib np =
     bnd (lift (ebind (int_times GAP SR) (\<lambda>n. np_zeros_rows np n 2))) (\<lambda>gap.
     bnd (collect STEPS (render_step lib np)) (\<lambda>parts.
       lift (np_concatenate np (concat (map (\<lambda>r. [r, gap]) parts)))))"

text \<open>The body of the \<open>try\<close> block of the live performance; \<open>finally\<close> stops the device.\<close>

definition perform_steps :: "dsp_lib \<Rightarrow> (flt \<Rightarrow> samples list) \<Rightarrow> ('z norns_scheme, unit) py" where
  "perform_steps lib mic =
     for_each STEPS (\<lambda>setup. stmts [setup, nap lib mic SECTION, all_off, nap lib mic GAP])"

definition perform_live :: "dsp_lib \<Rightarrow> (flt \<Rightarrow> samples list) \<Rightarrow> ('z norns_scheme, unit) py" where
  "perform_live lib mic = (\<lambda>s.
     case norns_start s of
       (Inl RuntimeError, s1) \<Rightarrow> (Inr (), s1)
     | (Inl e, s1) \<Rightarrow> (Inl e, s1)
     | (Inr _, s1) \<Rightarrow> (case perform_steps lib mic s1 of (r, s2) \<Rightarrow>
          (case norns_stop s2 of (Inl e, s3) \<Rightarrow> (Inl e, s3) | (Inr _, s3) \<Rightarrow> (r, s3))))"

definition norns_main ::
    "dsp_lib \<Rightarrow> numpy \<Rightarrow> path \<Rightarrow> (flt \<Rightarrow> samples list) \<Rightarrow> bool \<Rightarrow> ('z norns_scheme, unit) py" where
  "norns_main lib np repo mic play =
     seqn (norns_load repo)
       (bnd (render_offline lib np) (\<lambda>mix.
        seqn (write_out repo ''12_norns_api.wav'' mix SR)
          (seqn (mkdir_parents (OUT repo))
             (seqn (buffer_write_mono (OUT repo @ [''12_norns_api_buffer1.wav'']) (Fin 0) (fadd F64 REV_START REV_DUR) 1)
                (if play then perform_live lib mic else ret ())))))"

end
