(* ===== verification/Demo_Host.thy ===== *)
theory Demo_Host
  imports Demo_Norns Demo_Complete Norns_Live
begin

text \<open>
  The demo of the norns host runs through: it leaves the mix of its six sections and the saved
  buffer. \<open>hosted F a b s\<close>: a stopped host at 48 kHz over the files \<open>F\<close> with six voices and the two
  global buffers \<open>a\<close> and \<open>b\<close>.
\<close>

section \<open>A stopped host\<close>

definition host_frames :: nat where "host_frames = 2 ^ 24"

definition six :: "nat list" where "six = replicate 6 host_frames"

lemma length_six [simp]: "length six = 6"
  by (simp add: six_def)

definition hosted :: "(path \<Rightarrow> node option) \<Rightarrow> aref \<Rightarrow> aref \<Rightarrow> 'z norns_scheme \<Rightarrow> bool" where
  "hosted F a b s \<longleftrightarrow> idle F 48000 six s \<and> nsr s = Fin 48000 \<and> host_table a b host_frames s"

lemma hosted_simps:
  assumes "hosted F a b s"
  shows "\<not> running s" "files s = F" "outch s = 2" "length (voices s) = 6" "nvoices s = 6" "nsr s = Fin 48000"
    "bufs s = [1 \<mapsto> a, 2 \<mapsto> b]" "length (mem s a) = host_frames" "length (mem s b) = host_frames"
    "a < brk s" "b < brk s"
  using assms idle_simps [of F 48000 six s] by (auto simp: hosted_def host_table_def)

lemma gives_hosted:
  assumes "gives (idle F 48000 six) m A (idle F 48000 six)" "\<And>s. keeps (same_frame s) m"
  shows "gives (hosted F a b) m A (hosted F a b)"
proof (rule givesI)
  fix s :: "'a norns_scheme"
  assume s: "hosted F a b s"
  then have "idle F 48000 six s"
    by (simp add: hosted_def)
  with assms(1) obtain x t where t: "m s = (Inr x, t)" "A x" "idle F 48000 six t"
    by (rule givesE)
  have f: "same_frame s t"
    using keeps_frameD [OF assms(2), of s] t(1) by simp
  then have "nsr t = nsr s"
    by (intro norns_more(1)) (simp add: same_frame_def)
  then have "hosted F a b t"
    using s t(3) host_table_frame [OF f] by (simp add: hosted_def)
  with t show "\<exists>x t. m s = (Inr x, t) \<and> A x \<and> hosted F a b t"
    by blast
qed

lemma gives_voice_at:
  assumes "1 \<le> i" "i \<le> 6"
  shows "gives (hosted F a b) (voice_at i) (\<lambda>k. k = nat (i - 1)) (hosted F a b)"
  using assms
  by (auto simp: voice_at_def get_voice_def Let_def py_index_nonneg hosted_simps(4,5) intro!: givesI)

definition host_param :: "string \<Rightarrow> bool" where
  "host_param name = (case map_of FLOAT_PARAMS name of
     Some att \<Rightarrow> float_name att
   | None \<Rightarrow> (case map_of BOOL_PARAMS name of
       Some att \<Rightarrow> (case map_of attr_table att of Some (BAttr b) \<Rightarrow> True | _ \<Rightarrow> False)
     | None \<Rightarrow> False))"

lemma host_params [simp]:
  "host_param ''play''" "host_param ''rec''" "host_param ''rate''" "host_param ''level''" "host_param ''pan''"
  "host_param ''loop''" "host_param ''loop_start''" "host_param ''loop_end''" "host_param ''fade_time''"
  "host_param ''post_filter_dry''" "host_param ''post_filter_lp''" "host_param ''post_filter_fc''"
  by code_simp+

lemma gives_set_param:
  assumes "host_param name" "1 \<le> i" "i \<le> 6"
  shows "gives (hosted F a b) (set_param name i x) (\<lambda>_. True) (hosted F a b)"
proof (cases "map_of FLOAT_PARAMS name")
  case (Some att)
  then have "float_name att"
    using assms(1) by (simp add: host_param_def)
  then show ?thesis
    using Some by (auto simp: set_param_def float_setter_def
        intro!: gives_bnd [OF gives_voice_at [OF assms(2,3)]] gives_hosted gives_set_attr frame_intro)
next
  case None
  then obtain att c where "map_of BOOL_PARAMS name = Some att" "map_of attr_table att = Some (BAttr c)"
    using assms(1) by (auto simp: host_param_def split: option.splits attr.splits)
  moreover from this have "gives (idle F 48000 six) (set_attr k att (PB y)) (\<lambda>_. True) (idle F 48000 six)" for k y
    by (simp add: set_attr_def gives_setters)
  ultimately show ?thesis
    using None by (auto simp: set_param_def bool_setter_def
        intro!: gives_bnd [OF gives_voice_at [OF assms(2,3)]] gives_hosted frame_intro)
qed

lemma gives_set_position:
  "1 \<le> i \<Longrightarrow> i \<le> 6 \<Longrightarrow> gives (hosted F a b) (set_position i x) (\<lambda>_. True) (hosted F a b)"
  unfolding set_position_def
  by (rule gives_bnd [OF gives_voice_at]) (auto intro!: gives_hosted gives_setters frame_intro)

lemma table_idle:
  assumes "host_table a b host_frames s" "length (voices s) = 6" "engine_settings s = (False, Fin 48000, 2, F)"
  shows "idle F 48000 six s"
proof -
  have h: "\<exists>c \<in> {a, b}. vbuf v = Some c \<and> vframes v = host_frames" if v: "v \<in> set (voices s)" for v
  proof -
    obtain i where i: "i < length (voices s)" "v = voices s ! i"
      using v by (auto simp: in_set_conv_nth)
    have "\<forall>i < length (voices s). \<exists>b' \<in> {1, 2}. assigned s (int i + 1) = Some b'
        \<and> holds (voices s ! i) = (Some (if b' = 1 then a else b), host_frames)"
      using assms(1) by (simp add: host_table_def)
    then have "\<exists>b' \<in> {1, 2 :: int}. holds v = (Some (if b' = 1 then a else b), host_frames)"
      using i by blast
    then show ?thesis
      by (auto simp: holds_def)
  qed
  then have "\<forall>v \<in> set (voices s). vframes v = host_frames"
    by blast
  then have "map vframes (voices s) = map (\<lambda>_. host_frames) (voices s)"
    by (intro map_cong) simp_all
  then have "map vframes (voices s) = six"
    using assms(2) by (simp add: six_def map_replicate_const)
  moreover have "\<exists>c. vbuf v = Some c \<and> c < brk s \<and> length (mem s c) = vframes v" if "v \<in> set (voices s)" for v
    using h [OF that] assms(1) by (auto simp: host_table_def)
  ultimately show ?thesis
    using assms(3) by (simp add: idle_def)
qed

lemma gives_buffer:
  assumes "c \<in> {1, 2}" "1 \<le> i" "i \<le> 6"
  shows "gives (hosted F a b) (buffer i c) (\<lambda>_. True) (hosted F a b)"
proof (rule givesI)
  fix s :: "'a norns_scheme"
  assume s: "hosted F a b s"
  then have t: "host_table a b host_frames s" and n: "nsr s = Fin 48000" and d: "idle F 48000 six s"
    by (simp_all add: hosted_def)
  let ?d = "if c = 1 then a else b"
  have i: "int (nat (i - 1)) + 1 = i" "nat (i - 1) < length (voices s)"
    using assms(2,3) hosted_simps(4) [OF s] by simp_all
  obtain u where u: "buffer i c s = (Inr (), u\<lparr>assigned := (assigned u)(i \<mapsto> c)\<rparr>)" "set_buffer (nat (i - 1)) ?d s = (Inr (), u)"
    using buffer_stopped [of s c ?d "nat (i - 1)"] hosted_simps [OF s] t assms(1) i
    by (auto simp: host_table_def split: if_splits)
  let ?t = "u\<lparr>assigned := (assigned u)(i \<mapsto> c)\<rparr>"
  have "host_table a b host_frames ?t"
    using host_table_buffer [OF t, of i c] u(1) by simp
  moreover have "nsr u = Fin 48000"
    using set_buffer_result [OF u(2) i(2)] n norns_more(1) [of u s] by (simp add: same_arrays_def)
  moreover have "length (voices ?t) = 6 \<and> engine_settings ?t = (False, Fin 48000, 2, F)"
    using u(2) d hosted_simps(1,4) [OF s]
    by (auto simp: set_buffer_def Let_def idle_def engine_settings_def split: if_splits)
  moreover from calculation have "idle F 48000 six ?t"
    by (intro table_idle [of a b]) simp_all
  ultimately have "hosted F a b ?t"
    by (simp add: hosted_def)
  with u(1) show "\<exists>x t. buffer i c s = (Inr x, t) \<and> True \<and> hosted F a b t"
    by blast
qed

lemma gives_all_off: "gives (hosted F a b) all_off (\<lambda>_. True) (hosted F a b)"
  unfolding all_off_def by (intro gives_for_each gives_stmts) (auto intro!: gives_set_param)

lemmas host_calls = gives_stmts gives_all_off gives_buffer gives_set_param gives_set_position

lemma gives_s1: "gives (hosted F a b) s1_forward (\<lambda>_. True) (hosted F a b)"
  unfolding s1_forward_def by (rule gives_stmts) (auto intro!: host_calls)

lemma gives_s2: "gives (hosted F a b) s2_lowpass (\<lambda>_. True) (hosted F a b)"
  unfolding s2_lowpass_def by (rule gives_stmts) (auto intro!: host_calls gives_s1)

lemma gives_s3: "gives (hosted F a b) s3_octave_down (\<lambda>_. True) (hosted F a b)"
  unfolding s3_octave_down_def by (rule gives_stmts) (auto intro!: host_calls gives_s1)

lemma gives_s4: "gives (hosted F a b) s4_reverse (\<lambda>_. True) (hosted F a b)"
  unfolding s4_reverse_def by (rule gives_stmts) (auto intro!: host_calls gives_s1)

lemma gives_s5: "gives (hosted F a b) s5_stereo (\<lambda>_. True) (hosted F a b)"
proof -
  have "gives (hosted F a b) (stereo_voice p) (\<lambda>_. True) (hosted F a b)"
    if "p \<in> set [(1, 1, dec (- 6 / 10)), (2, 2, dec (6 / 10))]" for p
    using that unfolding stereo_voice_def by (auto intro!: host_calls split: prod.split)
  then show ?thesis
    unfolding s5_stereo_def
    by (rule gives_stmts_Cons [OF gives_all_off gives_stmts_Cons [OF gives_for_each gives_stmts_Nil]])
qed

section \<open>Buffer operations\<close>

lemma whole_secs: "secs 48000 (Fin (of_nat k)) (48000 * k)" if "k \<le> 2 ^ 30"
proof -
  have "rnd F64 (of_nat k) = Fin (of_nat k)"
    using rep_int [of "int k" F64] that by (simp add: rnd_rep)
  then show ?thesis
    using frames_on_grid [of "int (48000 * k)" 48000] that by (simp add: secs_def)
qed

lemma gives_frames:
  assumes "secs 48000 x n"
  shows "gives (hosted F a b) (get_frames x) (\<lambda>m. m = int n) (hosted F a b)"
  using assms by (auto simp: get_frames_def gives_def py_simps hosted_simps(6) secs_def)

lemma gives_get_buf:
  assumes "c \<in> {1, 2}"
  shows "gives (hosted F a b) (get_buf c) (\<lambda>d. d \<in> {a, b}) (hosted F a b)"
  using assms by (auto simp: get_buf_def gives_def hosted_simps(7))

lemma gives_edit:
  assumes "d \<in> {a, b}" "\<And>xs. length xs = host_frames \<Longrightarrow> \<exists>ys. f xs = Inr ys \<and> length ys = length xs"
    and "\<And>xs ys. f xs = Inr ys \<Longrightarrow> length ys = length xs"
  shows "gives (hosted F a b) (edit_array d f) (\<lambda>_. True) (hosted F a b)"
proof (rule givesI)
  fix s :: "'a norns_scheme"
  assume s: "hosted F a b s"
  have l: "length (mem s d) = host_frames"
    using assms(1) hosted_simps(8,9) [OF s] by auto
  then obtain ys where ys: "f (mem s d) = Inr ys" "length ys = length (mem s d)"
    using assms(2) by blast
  let ?t = "put_array d ys s"
  have f: "same_frame s ?t"
    by (rule frame_put [OF ys(2)])
  have "idle F 48000 six ?t"
    using s by (intro idle_frame [OF _ f]) (simp_all add: hosted_def)
  then have "hosted F a b ?t"
    using s host_table_frame [OF f] by (simp add: hosted_def put_array_def)
  with ys(1) show "\<exists>x t. edit_array d f s = (Inr x, t) \<and> True \<and> hosted F a b t"
    by (simp add: edit_array_def)
qed

lemma gives_apply:
  assumes "d \<in> {a, b}" "src = None \<or> count < 0" "int64 start" "int64 count" "int64 fade"
  shows "gives (hosted F a b) (edit_array d (\<lambda>xs. buffer_apply xs start src pre mx fade count)) (\<lambda>_. True) (hosted F a b)"
  using assms(2-5)
  by (cases src; intro gives_edit [OF assms(1)]; auto simp: buffer_apply_def Let_def)

lemma small_int64: "0 \<le> n \<Longrightarrow> n < 2 ^ 62 \<Longrightarrow> int64 n" "int64 (- 1)"
  by (simp_all add: int64_def)

lemma secs_zero: "secs 48000 (Fin 0) 0"
  using whole_secs [of 0] by simp

lemma gives_clear:
  assumes "c \<in> {1, 2}"
  shows "gives (hosted F a b) (buffer_clear_channel c) (\<lambda>_. True) (hosted F a b)"
proof -
  have n: "int64 (int host_frames)"
    by (simp add: int64_def host_frames_def)
  have neg: "flt_less (Fin (- 1)) (Fin 0)"
    by simp
  have len: "gives (hosted F a b) (gets (\<lambda>s. int (length (mem s d)) - int 0)) (\<lambda>n. n = int host_frames) (hosted F a b)"
    if "d \<in> {a, b}" for d
    using that hosted_simps(8,9) by (intro gives_gets) auto
  have "gives (hosted F a b) (bnd (if flt_less (Fin (- 1)) (Fin 0) then gets (\<lambda>s. int (length (mem s d)) - m)
        else get_frames (Fin (- 1))) (\<lambda>cnt. bnd (get_frames (Fin 0)) (\<lambda>fd.
      edit_array d (\<lambda>xs. buffer_apply xs m None (Fin 0) (Fin 0) fd (max cnt 0))))) (\<lambda>_. True) (hosted F a b)"
    if "d \<in> {a, b}" "m = int 0" for d m
    unfolding that(2) if_P [OF neg] using n
    by (intro gives_bnd [OF len [OF that(1)] gives_bnd [OF gives_frames [OF secs_zero] gives_apply [OF that(1)]]])
      (simp_all add: small_int64)
  then show ?thesis
    unfolding buffer_clear_channel_def clear_region_of_def
    by (intro gives_bnd [OF gives_get_buf [OF assms]] gives_bnd [OF gives_frames [OF secs_zero]]) simp
qed

lemma channel_ok:
  assumes "1 \<le> channels" "0 < rate" "rate < 2 ^ 32" "length data < 2 ^ 32"
  shows "\<exists>src. file_channel data channels col (Fin 0) (Fin (- 1)) rate = Inr src"
proof -
  let ?n = "int (length data) div channels"
  have "rnd F64 (of_int rate) = Fin (of_int rate)"
    using rep_int [of rate F64] assms(2,3) by (simp add: rnd_rep)
  then have "file_frames (Fin 0) rate = Inr 0"
    by (simp add: file_frames_def float_of_int_def round_int_def)
  moreover have "?n \<le> int (length data)" "0 \<le> ?n"
    using assms(1) zdiv_mono2 [of "int (length data)" 1 channels] by (simp_all add: pos_imp_zdiv_nonneg_iff)
  ultimately show ?thesis
    using assms(1,4) by (auto simp: file_channel_def Let_def buffer_extract_channel_def int64_def)
qed

lemma gives_load_host:
  assumes "read_wav F (DATA repo @ [''m04.wav'']) = Inr (data, channels, rate)"
    and "1 \<le> channels" "0 < rate" "rate < 2 ^ 32" "length data < 2 ^ 32"
  shows "gives (hosted F a b) (norns_load repo) (\<lambda>_. True) (hosted F a b)"
proof -
  have rd: "gives (hosted F a b) (file_read (DATA repo @ [''m04.wav''])) (\<lambda>r. r = (data, channels, rate)) (hosted F a b)"
    using assms(1) by (auto simp: file_read_def gives_def hosted_simps(2))
  have "gives (hosted F a b) (bnd (lift (file_channel data channels col (Fin 0) (Fin (- 1)) rate)) (\<lambda>src.
      bnd (get_buf c) (\<lambda>d. apply_src d m src (Fin 0) (Fin 1) 0))) (\<lambda>_. True) (hosted F a b)"
    if "c \<in> {1, 2}" "m = int 0" for c col m
  proof -
    obtain src where src: "file_channel data channels col (Fin 0) (Fin (- 1)) rate = Inr src"
      using channel_ok [OF assms(2-5)] by blast
    show ?thesis
      unfolding apply_src_def that(2)
      by (rule gives_bnd [OF gives_lift [OF src TrueI] gives_bnd [OF gives_get_buf [OF that(1)] gives_apply]])
        (simp_all add: small_int64)
  qed
  note ch = this
  have "gives (hosted F a b) (buffer_read_stereo (DATA repo @ [''m04.wav'']) (Fin 0) (Fin 0) (Fin (- 1)) (Fin 0) (Fin 1))
      (\<lambda>_. True) (hosted F a b)"
    unfolding buffer_read_stereo_def BUFFERS_def Let_def
  proof (rule gives_bnd [OF rd], hypsubst, unfold prod.case, rule gives_bnd [OF gives_frames [OF secs_zero] gives_for_each])
    fix m c :: int
    assume "m = int 0" "c \<in> set [1, 2]"
    then show "gives (hosted F a b) (bnd (lift (file_channel data channels (min c channels - 1) (Fin 0) (Fin (- 1)) rate))
        (\<lambda>src. bnd (get_buf c) (\<lambda>d. apply_src d m src (Fin 0) (Fin 1) 0))) (\<lambda>_. True) (hosted F a b)"
      by (intro ch) simp_all
  qed
  then show ?thesis
    unfolding norns_load_def buffer_clear_def BUFFERS_def
    by (intro gives_bnd [OF gives_for_each [OF gives_clear]]) auto
qed

lemma gives_s6: "gives (hosted F a b) s6_reversed_copy (\<lambda>_. True) (hosted F a b)"
proof -
  have "gives (hosted F a b) (buffer_copy_mono 1 1 (Fin 0) REV_START REV_DUR (Fin 0) (Fin 0) True) (\<lambda>_. True) (hosted F a b)"
    using whole_secs [of 2] whole_secs [of 3]
    unfolding buffer_copy_mono_def REV_START_def REV_DUR_def apply_src_def
    by (auto intro!: gives_bnd [OF gives_get_buf] gives_bnd [OF gives_frames] gives_bnd [OF gives_gets [where A = "\<lambda>_. True"]]
        gives_apply small_int64 secs_zero)
  then show ?thesis
    unfolding s6_reversed_copy_def by (intro gives_stmts) (auto intro!: host_calls)
qed

section \<open>The sections\<close>

lemma whole_rate:
  assumes "0 \<le> k" "k \<le> 2 ^ 30"
  shows "int_times (Fin (of_int k)) 48000 = Inr (48000 * k)"
proof -
  have "rnd F64 (of_int (k * 48000)) = Fin (of_int (k * 48000))" "rnd F64 48000 = Fin 48000"
    using rep_int [of "k * 48000" F64] rep_int [of 48000 F64] assms by (simp_all add: rnd_rep)
  moreover have "\<lfloor>of_int k * 48000 :: rat\<rfloor> = k * 48000"
    using floor_of_int [of "k * 48000", where ?'a = rat] by (simp del: floor_of_int)
  ultimately show ?thesis
    using assms by (simp add: int_times_def float_of_int_def trunc_int_def mult.commute)
qed

lemma gives_render_step:
  assumes "lib_ok lib" "numpy_ok np" "gives (hosted F a b) setup (\<lambda>_. True) (hosted F a b)"
  shows "gives (hosted F a b) (render_step lib np setup) (frames_are 144000) (hosted F a b)"
proof -
  let ?zs = "replicate 144000 (Fin 0)"
  let ?m = "bnd (new_array ?zs) (\<lambda>c. bnd (norns_render lib (Some c) None None) (\<lambda>o'.
        bnd (gets (\<lambda>s. np_reshape np (mem s o') 2)) lift))"
  have z: "ebind (int_times SECTION SR) (np_zeros np) = Inr ?zs"
    using whole_rate [of 3] assms(2) unfolding numpy_ok_def by (simp add: SECTION_def SR_def)
  have "gives (idle F 48000 six) ?m (frames_are 144000) (idle F 48000 six)"
  proof (rule givesI)
    fix s :: "'z norns_scheme"
    assume s: "idle F 48000 six s"
    let ?s = "snd (new_array ?zs s)"
    have "length (mem ?s (brk s)) = 144000" "brk s < brk ?s"
      by (simp_all add: new_array_def)
    then obtain d t where t: "render lib (Some (brk s)) None None ?s = (Inr d, t)" "idle F 48000 six t"
        "length (mem t d) = 2 * 144000"
      using render_array [OF assms(1) idle_new_array [OF s]] by blast
    have "np_reshape np (mem t d) 2 = Inr \<lparr>width = 2, flat = mem t d\<rparr>"
      using assms(2) t(3) unfolding numpy_ok_def by simp
    moreover have "new_array ?zs s = (Inr (brk s), ?s)"
      by (simp add: new_array_def)
    ultimately show "\<exists>r u. ?m s = (Inr r, u) \<and> frames_are 144000 r \<and> idle F 48000 six u"
      using t by (simp add: py_simps bnd_Inr norns_render_def frames_are_def)
  qed
  moreover have "keeps (same_frame s) ?m" for s
    using assms(1) unfolding norns_render_def by (intro keeps_intro frame_intro)
  ultimately have "gives (hosted F a b) ?m (frames_are 144000) (hosted F a b)"
    by (rule gives_hosted)
  then show ?thesis
    unfolding render_step_def z bnd_known by (rule gives_bnd [OF assms(3)])
qed

lemma gives_offline:
  assumes "lib_ok lib" "numpy_ok np"
  shows "gives (hosted F a b :: 'z norns_scheme \<Rightarrow> bool) (render_offline lib np) (frames_are 1152000) (hosted F a b)"
proof -
  obtain g where g: "ebind (int_times GAP SR) (\<lambda>n. np_zeros_rows np n 2) = Inr g" "frames_are 48000 g"
    using whole_rate [of 1] assms(2) unfolding numpy_ok_def by (simp add: GAP_def SR_def frames_are_def)
  have steps: "gives (hosted F a b) m (\<lambda>_. True) (hosted F a b)" if "m \<in> set STEPS" for m :: "('z norns_scheme, unit) py"
    using that gives_s1 gives_s2 gives_s3 gives_s4 gives_s5 gives_s6 unfolding STEPS_def by auto
  have c: "gives (hosted F a b) (collect (STEPS :: ('z norns_scheme, unit) py list) (render_step lib np))
      (list_all2 frames_are (map (\<lambda>_. 144000) (STEPS :: ('z norns_scheme, unit) py list))) (hosted F a b)"
    by (rule gives_collect) (rule gives_render_step [OF assms steps])
  have j: "gives P (lift (np_concatenate np (concat (map (\<lambda>r. [r, g]) rs)))) (frames_are 1152000) P"
    if "list_all2 frames_are (map (\<lambda>_. 144000) (STEPS :: ('z norns_scheme, unit) py list)) rs" for P rs
  proof -
    have "list_all2 frames_are (concat (map (\<lambda>k. [k, 48000]) ks)) (concat (map (\<lambda>r. [r, g]) rs))"
      if "list_all2 frames_are ks rs" for ks rs
      using that by (induction rule: list_all2_induct) (simp_all add: g(2))
    from this [OF that] show ?thesis
      by (rule gives_concat [OF assms(2)]) (simp_all add: STEPS_def)
  qed
  show ?thesis
    unfolding render_offline_def
    by (rule gives_bnd [OF gives_lift [OF g(1), of "\<lambda>x. x = g"]], simp, simp, rule gives_bnd [OF c j])
qed

section \<open>The whole script\<close>

lemma mkdirs_present:
  assumes "\<And>ys zs. xs = ys @ zs \<Longrightarrow> ys \<noteq> [] \<Longrightarrow> node_at fs (pre @ ys) = Some Dir"
  shows "mkdirs pre xs fs = Inr fs"
  using assms
proof (induction xs arbitrary: pre)
  case (Cons x xs)
  have "node_at fs (pre @ [x]) = Some Dir"
    using Cons.prems [of "[x]" xs] by simp
  moreover have "mkdirs (pre @ [x]) xs fs = Inr fs"
    by (rule Cons.IH) (use Cons.prems [of "x # _"] in simp)
  ultimately show ?case by simp
qed simp

abbreviation mix_path :: "path \<Rightarrow> path" where
  "mix_path repo \<equiv> OUT repo @ [''12_norns_api.wav'']"

abbreviation buf_path :: "path \<Rightarrow> path" where
  "buf_path repo \<equiv> OUT repo @ [''12_norns_api_buffer1.wav'']"

definition mixed :: "path \<Rightarrow> 'z norns_scheme \<Rightarrow> bool" where
  "mixed repo s \<longleftrightarrow> (\<exists>d. read_wav (files s) (mix_path repo) = Inr (d, 2, 48000) \<and> length d = 2 * 1152000)"

definition saving :: "path \<Rightarrow> aref \<Rightarrow> aref \<Rightarrow> 'z norns_scheme \<Rightarrow> bool" where
  "saving repo a b s \<longleftrightarrow> hosted (files s) a b s \<and> mixed repo s \<and> mkdirs [] (OUT repo) (files s) = Inr (files s)
     \<and> node_at (files s) (buf_path repo) \<noteq> Some Dir"

lemma gives_write_mix:
  assumes "frames_are 1152000 mix" "writable F (mix_path repo)" "writable F (buf_path repo)"
  shows "gives (hosted F a b) (write_out repo ''12_norns_api.wav'' mix 48000) (\<lambda>_. True) (saving repo a b)"
proof (rule givesI)
  fix s :: "'a norns_scheme"
  assume s: "hosted F a b s"
  let ?v = "rows_view mix"
  have len: "length (vdata ?v) = 2 * 1152000"
    using assms(1) by (simp add: rows_view_def frames_are_def)
  have c: "check_view ?v None = Inr 2" "header_fits 2 48000 (2 * length (vdata ?v))"
    using check_rows [OF assms(1)] len by (simp_all add: header_fits_def)
  obtain t d where t: "write_wav (mix_path repo) ?v 48000 None s = (Inr (mix_path repo), t)"
      "read_wav (files t) (mix_path repo) = Inr (d, 2, 48000)" "length d = length (vdata ?v)"
    using write_wav_returns [OF c(1) _ c(2), of s "mix_path repo"] assms(2) hosted_simps(2) [OF s] by auto
  obtain fs w where fs: "mkdirs [] (OUT repo) F = Inr fs" "t = s\<lparr>files := fs(mix_path repo \<mapsto> w)\<rparr>"
    using t(1) hosted_simps(2) [OF s] by (auto simp: write_wav_ok wave_write_ok)
  let ?G = "fs(mix_path repo \<mapsto> w)"
  have "mkdirs [] (OUT repo) ?G = Inr ?G"
  proof (rule mkdirs_present)
    fix ys zs
    assume ys: "OUT repo = ys @ zs" "ys \<noteq> []"
    have "length ys \<le> length (OUT repo)"
      by (simp add: ys(1))
    then have "ys \<noteq> mix_path repo"
      by auto
    then show "node_at ?G ([] @ ys) = Some Dir"
      using mkdirs_dirs [OF fs(1) ys] by (simp add: node_at_upd)
  qed
  moreover have "node_at ?G (buf_path repo) \<noteq> Some Dir"
    using assms(3) fs(1) by (auto simp: writable_def node_at_upd)
  moreover have "hosted ?G a b t"
    using s fs(2) by (simp add: hosted_def idle_def engine_settings_def host_table_def)
  ultimately have "saving repo a b t"
    using t(2,3) len fs(2) by (simp add: saving_def mixed_def)
  with t(1) show "\<exists>x t. write_out repo ''12_norns_api.wav'' mix 48000 s = (Inr x, t) \<and> True \<and> saving repo a b t"
    by (simp add: write_out_def)
qed

text \<open>The second file: five seconds of the first buffer.\<close>

definition saved :: "path \<Rightarrow> 'z norns_scheme \<Rightarrow> bool" where
  "saved repo s \<longleftrightarrow> mixed repo s \<and> \<not> running s
     \<and> (\<exists>d. read_wav (files s) (buf_path repo) = Inr (d, 1, 48000) \<and> length d = 240000)"

lemma gives_save:
  "gives (saving repo a b) (buffer_write_mono (buf_path repo) (Fin 0) (fadd F64 REV_START REV_DUR) 1) (\<lambda>_. True) (saved repo)"
proof (rule givesI)
  fix s :: "'a norns_scheme"
  assume s: "saving repo a b s"
  then have h: "hosted (files s) a b s"
    by (simp add: saving_def)
  have f: "fadd F64 REV_START REV_DUR = Fin 5"
    using rep_int [of 5 F64] by (simp add: REV_START_def REV_DUR_def rnd_rep)
  have secs: "seconds_to_frames (Fin 0) (Fin 48000) = Inr (int 0)" "seconds_to_frames (Fin 5) (Fin 48000) = Inr (int 240000)"
    using secs_zero whole_secs [of 5] by (simp_all add: secs_def)
  let ?seg = "take 240000 (mem s a)" and ?v = "array_view (take 240000 (mem s a))"
  have l: "length ?seg = 240000"
    using hosted_simps(8) [OF h] by (simp add: host_frames_def)
  have c: "check_view ?v None = Inr 1" "header_fits 1 48000 (2 * length (vdata ?v))"
    using l by (simp_all add: check_view_def array_view_def inferred_channels_def Let_def header_fits_def)
  have "writable (files s) (buf_path repo)"
    using s by (simp add: saving_def writable_def)
  then obtain t d where t: "write_wav (buf_path repo) ?v 48000 None s = (Inr (buf_path repo), t)"
      "read_wav (files t) (buf_path repo) = Inr (d, 1, 48000)" "length d = length (vdata ?v)"
    using write_wav_returns [OF c(1) _ c(2), of s "buf_path repo"] by auto
  have "py_slice (mem s a) (int 0) (int 0 + int 240000) = ?seg"
    using slice_nonneg [of "int 0" "mem s a" 240000] by simp
  then have run: "buffer_write_mono (buf_path repo) (Fin 0) (fadd F64 REV_START REV_DUR) 1 s = (Inr (), t)"
    using secs t(1) hosted_simps(6,7) [OF h]
    by (simp add: buffer_write_mono_def f get_buf_def get_frames_def region_def host_rate_def py_simps bnd_Inr trunc_int_def)
  have "mixed repo t"
  proof -
    obtain e where e: "read_wav (files s) (mix_path repo) = Inr (e, 2, 48000)" "length e = 2 * 1152000"
      using s by (auto simp: saving_def mixed_def)
    have "read_wav (files (snd (write_wav (buf_path repo) ?v 48000 None s))) (mix_path repo) = Inr (e, 2, 48000)"
      by (rule write_reads [OF _ e(1)]) simp
    with t(1) e(2) show ?thesis by (simp add: mixed_def)
  qed
  moreover have "\<not> running t"
  proof -
    obtain G where "t = s\<lparr>files := G\<rparr>"
      using t(1) by (auto simp: write_wav_ok wave_write_ok)
    then show ?thesis using hosted_simps(1) [OF h] by simp
  qed
  ultimately have "saved repo t"
    using t(2,3) l by (simp add: saved_def array_view_def)
  with run show "\<exists>x t. buffer_write_mono (buf_path repo) (Fin 0) (fadd F64 REV_START REV_DUR) 1 s = (Inr x, t) \<and> True \<and> saved repo t"
    by blast
qed

section \<open>The live performance\<close>

text \<open>No call of the performance touches a file, whether it raises or not.\<close>

lemma files_queue: "files (snd (queue_apply q c s)) = files s"
  by (auto simp: queue_apply_def split: qid.split option.split)

lemma files_apply: "files (snd (dsp_apply q i e fl s)) = files s"
  by (auto simp: dsp_apply_def files_queue)

lemma files_flag: "files (flag_apply q i e s) = files s"
  by (simp add: flag_apply_def Let_def case_prod_beta files_apply)

lemma files_setters:
  "keeps (\<lambda>s. files s = G) (set_float i a x)" "keeps (\<lambda>s. files s = G) (set_mix i m x)"
  "keeps (\<lambda>s. files s = G) (set_bool i c y)" "keeps (\<lambda>s. files s = G) (cut_to i x)"
  by (auto simp: keeps_def set_float_def set_mix_def set_bool_def cut_to_def modify_def post_float_def post_bool_def
      Let_def files_apply files_flag)

lemma files_set_attr: "keeps (\<lambda>s. files s = G) (set_attr k att x)"
  unfolding set_attr_def
  by (auto split: option.split attr.split pyarg.split intro!: keeps_intro files_setters)

lemma files_voice_at: "keeps (\<lambda>s. files s = G) (voice_at i)"
  by (auto simp: keeps_def voice_at_def get_voice_def Let_def)

lemma files_set_param: "keeps (\<lambda>s. files s = G) (set_param name i x)"
  unfolding set_param_def float_setter_def bool_setter_def
  by (auto split: option.split intro!: keeps_intro files_voice_at files_set_attr)

lemma files_position: "keeps (\<lambda>s. files s = G) (set_position i x)"
  unfolding set_position_def by (intro keeps_intro files_voice_at files_setters)

lemma files_set_buffer: "keeps (\<lambda>s. files s = G) (set_buffer k a)"
proof -
  have "files (snd (set_buffer k a s)) = files s" for s :: "'a engine_scheme"
    using files_queue [of Ctl "(k, DBuffer a (length (mem s a)), False)" s]
    by (auto simp: set_buffer_def Let_def split: prod.split)
  then show ?thesis
    by (simp add: keeps_def)
qed

lemma files_buffer: "keeps (\<lambda>s. files s = G) (buffer i c)"
  unfolding buffer_def by (auto intro!: keeps_intro files_voice_at files_set_buffer split: option.split)

lemma files_copy: "keeps (\<lambda>s. files s = G) (buffer_copy_mono c d x y z f p r)"
proof -
  have "keeps (\<lambda>s. files s = G) (get_buf b)" for b
    by (simp add: keeps_def get_buf_def)
  moreover have "keeps (\<lambda>s. files s = G) (edit_array b f)" for b f
    by (simp add: keeps_def edit_array_frame)
  ultimately show ?thesis
    unfolding buffer_copy_mono_def get_frames_def apply_src_def by (auto intro!: keeps_intro)
qed

lemma files_stmts: "(\<And>m. m \<in> set ms \<Longrightarrow> keeps P m) \<Longrightarrow> keeps P (stmts ms)"
  unfolding stmts_def by (rule keeps_for_each)

lemma files_nap: "keeps (\<lambda>s. files s = G) (nap lib mic x)"
proof -
  have "files (fold (callback lib) ys t) = files t" for ys and t :: "'a engine_scheme"
    by (induction ys arbitrary: t) simp_all
  then show ?thesis
    by (simp add: keeps_def nap_def modify_def)
qed

lemmas files_calls = files_stmts files_set_param files_position files_buffer files_copy files_nap keeps_for_each

lemma files_off: "keeps (\<lambda>s. files s = G) all_off"
  unfolding all_off_def by (auto intro!: files_calls)

lemma files_steps:
  assumes "m \<in> set STEPS"
  shows "keeps (\<lambda>s. files s = G) m"
proof -
  have s1: "keeps (\<lambda>s. files s = G) s1_forward"
    unfolding s1_forward_def by (rule files_stmts) (auto intro!: files_calls files_off)
  have p: "keeps (\<lambda>s. files s = G) (stereo_voice p)" for p
    unfolding stereo_voice_def by (auto intro!: files_calls split: prod.split)
  have "keeps (\<lambda>s. files s = G) s5_stereo"
    unfolding s5_stereo_def by (rule files_stmts) (auto simp del: for_each.simps intro!: keeps_for_each p files_off)
  then show ?thesis
    using assms s1 unfolding STEPS_def s2_lowpass_def s3_octave_down_def s4_reverse_def s6_reversed_copy_def
    by (auto intro!: files_calls files_off)
qed

lemma live_stops:
  fixes s :: "'z norns_scheme"
  shows "\<exists>r t. perform_live lib mic s = (r, t) \<and> files t = files s \<and> \<not> running t"
proof -
  have "keeps (\<lambda>t :: 'z norns_scheme. files t = files s) (perform_steps lib mic)"
    unfolding perform_steps_def
    by (intro keeps_for_each files_stmts) (auto intro: files_steps files_nap files_off)
  then have steps: "files (snd (perform_steps lib mic t)) = files s" if "files t = files s" for t :: "'z norns_scheme"
    using that by (simp add: keeps_def)
  have stop: "\<exists>u. norns_stop t = (Inr (), u) \<and> \<not> running u \<and> files u = files t" for t :: "'z norns_scheme"
    by (cases "running t") (simp_all add: norns_stop_def engine_stop_def core_stop_def running_drain)
  show ?thesis
  proof (cases "\<not> running s \<and> \<not> device_ok s")
    case True
    then show ?thesis
      by (simp add: perform_live_def norns_start_def engine_start_def core_start_def)
  next
    case False
    then obtain t where t: "norns_start s = (Inr (), t)" "files t = files s"
      by (cases "running s") (auto simp: norns_start_def engine_start_def core_start_def)
    obtain r u where u: "perform_steps lib mic t = (r, u)"
      by fastforce
    obtain w where w: "norns_stop u = (Inr (), w)" "\<not> running w" "files w = files u"
      using stop by blast
    have "files u = files s"
      using steps [OF t(2)] u by simp
    then show ?thesis
      using t u w by (simp add: perform_live_def)
  qed
qed

section \<open>A new host\<close>

lemma new_hosted:
  assumes "new_norns st dev (Fin 48000) DEFAULT_VOICES DEFAULT_BUFFER_FRAMES mode quirks = Inr s" "mem st = (\<lambda>_. [])"
  shows "\<exists>a b. hosted (files st) a b s"
proof -
  obtain e where e: "new_engine st dev DEFAULT_VOICES (Fin 48000) mode 512 2 (- 1) (- 1) quirks = Inr e"
    using assms by (auto simp: new_norns_def ebind_eq_Inr)
  have "next_power_of_two DEFAULT_BUFFER_FRAMES = 2 ^ 24"
    by code_simp
  then have n: "nat (next_power_of_two DEFAULT_BUFFER_FRAMES) = host_frames"
    by (simp add: host_frames_def)
  obtain a b where t: "host_table a b host_frames s" "nvoices s = DEFAULT_VOICES" "nsr s = Fin 48000"
    using new_norns_runs [OF e assms(2), of DEFAULT_BUFFER_FRAMES] assms(1) unfolding n by auto
  have six: "length (voices s) = 6"
    using t(1,2) by (simp add: host_table_def DEFAULT_VOICES_def)
  let ?c = "(False, Fin 48000, 2, files st)"
  have sb: "keeps (\<lambda>s. engine_settings s = ?c) (set_buffer k d)" for k d
    by (rule keepsI) (auto simp: set_buffer_def Let_def engine_settings_def)
  have va: "keeps (\<lambda>s. engine_settings s = ?c) (voice_at i)" for i
    by (auto simp: keeps_def voice_at_def get_voice_def Let_def)
  have as: "keeps (\<lambda>s. engine_settings s = ?c) (modify (\<lambda>s. s\<lparr>assigned := f s\<rparr>))"
      "keeps (\<lambda>s. engine_settings s = ?c) (modify (\<lambda>s. s\<lparr>bufs := g s\<rparr>))" for f g
    by (auto simp: keeps_def modify_def engine_settings_def)
  have bf: "keeps (\<lambda>s. engine_settings s = ?c) (buffer i 1)" for i
    unfolding buffer_def by (auto intro!: keeps_intro sb va as split: option.split)
  have "keeps (\<lambda>s. engine_settings s = ?c) (new_array xs)" for xs
    by (auto simp: keeps_def new_array_def engine_settings_def)
  then have nz: "keeps (\<lambda>s. engine_settings s = ?c) (new_zeros m)" for m
    unfolding new_zeros_def by (auto intro!: keeps_intro)
  have na: "keeps (\<lambda>s. engine_settings s = ?c) (new_arrays k m)" for k m
    by (induction k) (auto intro!: keeps_intro nz)
  let ?s0 = "engine.extend e \<lparr>nsr = Fin 48000, nvoices = DEFAULT_VOICES, bufs = (\<lambda>_. None), assigned = (\<lambda>_. None)\<rparr>"
  let ?m = "bnd (new_arrays 2 (next_power_of_two DEFAULT_BUFFER_FRAMES)) (\<lambda>as.
      seqn (modify (\<lambda>s. s\<lparr>bufs := [1 \<mapsto> as ! 0, 2 \<mapsto> as ! 1]\<rparr>)) (for_each [1..DEFAULT_VOICES] (\<lambda>i. buffer i 1))) :: (norns, unit) py"
  have "engine_settings ?s0 = ?c"
    using e by (auto simp: new_engine_def ebind_eq_Inr Let_def engine_settings_def engine.defs split: if_splits)
  moreover have "keeps (\<lambda>s. engine_settings s = ?c) ?m"
    by (intro keeps_intro na as bf)
  ultimately have "engine_settings (snd (?m ?s0)) = ?c"
    by (simp add: keeps_def)
  moreover have "s = snd (?m ?s0)"
    using assms(1) e by (auto simp: new_norns_def Let_def split: prod.splits sum.splits)
  ultimately have "engine_settings s = ?c"
    by simp
  then have "hosted (files st) a b s"
    using t table_idle [OF t(1) six] by (simp add: hosted_def)
  then show ?thesis by blast
qed

end
