(* ===== verification/Demo_Props.thy ===== *)
theory Demo_Props
  imports Demo_Fripp Demo_Host
begin

text \<open>
  What the demo scripts promise: the offline ones write their file, the loop of the partial replace
  ends where it should, and the live looper leaves its device stopped.
\<close>

section \<open>The offline demos\<close>

definition offline_demos ::
    "dsp_lib \<Rightarrow> numpy \<Rightarrow> (flt \<Rightarrow> flt \<Rightarrow> flt) \<Rightarrow> path \<Rightarrow> bool \<Rightarrow> (flt \<Rightarrow> samples list) \<Rightarrow> bool
      \<Rightarrow> (string \<times> (store, unit) py option \<times> nat) list" where
  "offline_demos lib np pow repo dev mic play =
    [(''01_varispeed.wav'', Some (varispeed_main lib np repo dev mic play), 529200),
     (''02_loop_points.wav'', Some (points_main lib np repo dev mic play), 190512),
     (''03_overdub.wav'', Some (overdub_main lib np repo dev mic play), 529200),
     (''04_stereo_layers.wav'', Some (layers_main lib np repo dev mic play), 352800),
     (''05_filter_sweep.wav'', Some (sweep_main lib np pow repo dev mic play), 352800),
     (''07_frippertronics.wav'', fripp_main lib np repo dev mic play, 1865430),
     (''08_tape_stop.wav'', Some (tape_main lib np repo dev mic play), 555660),
     (''09_filters.wav'', Some (filters_main lib np repo dev mic play), 617400),
     (''10_phase_sync.wav'', Some (phase_main lib np repo dev mic play), 352800),
     (''11_capture.wav'', Some (capture_main lib np repo dev mic play), 696780)]"

lemma gives_written:
  assumes "gives (\<lambda>s. files s = F) m (\<lambda>_. True) (written p n)" "files s = F"
  shows "\<exists>t data. m s = (Inr (), t) \<and> read_wav (files t) p = Inr (data, 2, 44100) \<and> length data = 2 * n"
  using givesE [OF assms] unfolding written_def by (metis (full_types) unit.exhaust)

text \<open>C28. Every offline demo runs through and writes its file. With the repository's four recordings of
  at least three seconds at 44.1 kHz, an output path that can be written and numpy as documented, the
  script raises nothing, with \<open>--play\<close> and without, with an audio device and without one, and the WAV
  file it leaves is stereo at 44.1 kHz and has exactly the frames of the segments it renders.\<close>

theorem offline_demos_complete:
  assumes "lib_ok lib" "numpy_ok np"
    and "\<forall>f \<in> {''m02.wav'', ''m05.wav'', ''m07.wav'', ''m08.wav''}. audio_at (files s) 132300 (DATA repo @ [f])"
    and "(name, main, n) \<in> set (offline_demos lib np pow repo dev mic play)"
    and "writable (files s) (OUT repo @ [name])"
  shows "\<exists>m t data. main = Some m \<and> m s = (Inr (), t)
    \<and> read_wav (files t) (OUT repo @ [name]) = Inr (data, 2, 44100) \<and> length data = 2 * n"
proof -
  have a: "audio_at (files s) 132300 (DATA repo @ [''m02.wav''])" "audio_at (files s) 132300 (DATA repo @ [''m05.wav''])"
    "audio_at (files s) 132300 (DATA repo @ [''m07.wav''])" "audio_at (files s) 132300 (DATA repo @ [''m08.wav''])"
    using assms(3) by simp_all
  have b: "audio_at (files s) 132300 (DATA repo @ [f])" if "f \<in> {''m02.wav'', ''m05.wav'', ''m07.wav'', ''m08.wav''}" for f
    using assms(3) that by blast
  have c: "audio_at (files s) 132300 (DATA repo @ [f])" if "f \<in> {''m02.wav'', ''m05.wav'', ''m07.wav''}" for f
    using b [of f] that by blast
  have "\<exists>m. main = Some m \<and> gives (\<lambda>t. files t = files s) m (\<lambda>_. True) (written (OUT repo @ [name]) n)"
    using assms(4,5) unfolding offline_demos_def set_simps insert_iff empty_iff prod.inject
    by (elim disjE conjE FalseE; hypsubst)
      (rule exI conjI refl varispeed_runs points_runs overdub_runs layers_runs sweep_runs fripp_runs tape_runs
        filters_runs phase_runs capture_runs assms(1,2) a b c | assumption)+
  then show ?thesis
    using gives_written by blast
qed

text \<open>numpy on lists, and a repository with four recordings of three seconds of silence.\<close>

definition list_numpy :: numpy where
  "list_numpy = \<lparr>
     np_zeros = (\<lambda>n. if n < 0 then Inl ValueError else Inr (replicate (nat n) (Fin 0))),
     np_zeros_rows = (\<lambda>n c. if n < 0 \<or> c < 0 then Inl ValueError
       else Inr \<lparr>width = c, flat = replicate (nat n * nat c) (Fin 0)\<rparr>),
     np_fill = (\<lambda>buf k xs. if k = int (length xs) \<and> length xs \<le> length buf then Inr (xs @ drop (length xs) buf)
       else Inl ValueError),
     np_join = (\<lambda>xs ys. Inr (xs @ ys)),
     np_reshape = (\<lambda>xs c. if 1 \<le> c \<and> int (length xs) mod c = 0 then Inr \<lparr>width = c, flat = xs\<rparr> else Inl ValueError),
     np_concatenate = (\<lambda>rs. case rs of [] \<Rightarrow> Inl ValueError
       | r # _ \<Rightarrow> if list_all (\<lambda>q. width q = width r) rs then Inr \<lparr>width = width r, flat = concat (map flat rs)\<rparr>
                 else Inl ValueError),
     np_mean_rows = (\<lambda>r. replicate (row_count r) (Fin 0))\<rparr>"

lemma list_numpy_ok: "numpy_ok list_numpy"
proof -
  have "np_concatenate list_numpy rs = Inr \<lparr>width = c, flat = concat (map flat rs)\<rparr>"
    if "rs \<noteq> []" "\<forall>r \<in> set rs. width r = c" for rs c
    using that by (cases rs) (auto simp: list_numpy_def list_all_iff)
  then show ?thesis
    unfolding numpy_ok_def by (simp add: list_numpy_def)
qed

definition silent_repo :: store where
  "silent_repo = empty_store\<lparr>files := (\<lambda>p.
     if p \<in> {[''tests''], [''tests'', ''data'']} then Some Dir
     else if p \<in> {[''tests'', ''data'', f] | f. f \<in> {''m02.wav'', ''m05.wav'', ''m07.wav'', ''m08.wav''}}
       then Some (Wav \<lparr>nchannels = 1, sampwidth = 2, framerate = 44100, frames = replicate 264600 0\<rparr>)
     else None)\<rparr>"

lemma silent_repo_audio:
  assumes "f \<in> {''m02.wav'', ''m05.wav'', ''m07.wav'', ''m08.wav''}"
  shows "audio_at (files silent_repo) 132300 (DATA [] @ [f])"
proof -
  let ?w = "\<lparr>nchannels = 1, sampwidth = 2, framerate = 44100, frames = replicate 264600 (0 :: 8 word)\<rparr>"
  have "open_rb (files silent_repo) (DATA [] @ [f]) = Inr ?w"
    using assms by (auto simp: open_rb_def silent_repo_def DATA_def node_at_def)
  then show ?thesis
    by (simp add: audio_at_def read_wav_mono_def read_wav_def Let_def pcm_decode_def empty_samples_def)
qed

theorem offline_demos_complete_witness:
  "\<exists>t data. overdub_main thru_lib list_numpy [] False (\<lambda>_. []) True silent_repo = (Inr (), t)
    \<and> read_wav (files t) [''build'', ''out'', ''03_overdub.wav''] = Inr (data, 2, 44100) \<and> length data = 2 * 529200"
proof -
  let ?m = "overdub_main thru_lib list_numpy [] False (\<lambda>_. []) True"
  have w: "writable (files silent_repo) (OUT [] @ [''03_overdub.wav''])"
    by (simp add: writable_def OUT_def silent_repo_def node_at_def)
  have d: "(''03_overdub.wav'', Some ?m, 529200) \<in> set (offline_demos thru_lib list_numpy (\<lambda>_ x. x) [] False (\<lambda>_. []) True)"
    by (simp add: offline_demos_def)
  have lib: "lib_ok thru_lib"
    by (simp add: lib_ok_def thru_lib_def)
  have f: "\<forall>f \<in> {''m02.wav'', ''m05.wav'', ''m07.wav'', ''m08.wav''}. audio_at (files silent_repo) 132300 (DATA [] @ [f])"
    using silent_repo_audio by blast
  obtain m t data where "Some ?m = Some m" "m silent_repo = (Inr (), t)"
      "read_wav (files t) (OUT [] @ [''03_overdub.wav'']) = Inr (data, 2, 44100)" "length data = 2 * 529200"
    using offline_demos_complete [OF lib list_numpy_ok f d w] by blast
  moreover have "OUT [] @ [''03_overdub.wav''] = [''build'', ''out'', ''03_overdub.wav'']"
    by (simp add: OUT_def)
  ultimately show ?thesis
    by (metis option.inject)
qed

section \<open>The demo of the norns host\<close>

text \<open>C29. The demo of the norns host runs through. On a new host with the default voices and buffers, over a
  recording that can be read and an output directory that can be written to, the offline part raises
  nothing: it leaves the 24 seconds of its six sections and their gaps as a stereo file and the first five
  seconds of buffer 1 as a mono file. A live performance after it changes neither file and, whatever
  it runs into, leaves the device stopped.\<close>

theorem norns_demo_complete:
  assumes "lib_ok lib" "numpy_ok np" "mem st = (\<lambda>_. [])"
    and "new_norns st dev (Fin 48000) DEFAULT_VOICES DEFAULT_BUFFER_FRAMES ''duplex'' ''upstream'' = Inr s"
    and "read_wav (files st) (DATA repo @ [''m04.wav'']) = Inr (data, channels, rate)"
    and "1 \<le> channels" "0 < rate" "rate < 2 ^ 32" "length data < 2 ^ 32"
    and "writable (files st) (OUT repo @ [''12_norns_api.wav''])"
    and "writable (files st) (OUT repo @ [''12_norns_api_buffer1.wav''])"
  shows "\<exists>r t d1 d2. norns_main lib np repo mic play s = (r, t) \<and> (play \<or> r = Inr ()) \<and> \<not> running t
    \<and> read_wav (files t) (OUT repo @ [''12_norns_api.wav'']) = Inr (d1, 2, 48000) \<and> length d1 = 2 * 1152000
    \<and> read_wav (files t) (OUT repo @ [''12_norns_api_buffer1.wav'']) = Inr (d2, 1, 48000) \<and> length d2 = 240000"
proof -
  obtain a b where h: "hosted (files st) a b s"
    using new_hosted [OF assms(4,3)] by blast
  let ?offline = "seqn (norns_load repo) (bnd (render_offline lib np) (\<lambda>mix.
      seqn (write_out repo ''12_norns_api.wav'' mix SR) (seqn (mkdir_parents (OUT repo))
        (buffer_write_mono (buf_path repo) (Fin 0) (fadd F64 REV_START REV_DUR) 1))))"
  have dirs: "gives (saving repo a b) (mkdir_parents (OUT repo)) (\<lambda>_. True) (saving repo a b)"
    by (auto simp: gives_def mkdir_parents_def saving_def)
  have "gives (hosted (files st) a b) ?offline (\<lambda>_. True) (saved repo)"
    unfolding SR_def
    by (rule gives_bnd [OF gives_load_host [OF assms(5-9)] gives_bnd [OF gives_offline [OF assms(1,2)]
        gives_bnd [OF gives_write_mix gives_bnd [OF dirs gives_save]]]]) (use assms(10,11) in simp_all)
  then obtain t where t: "?offline s = (Inr (), t)" "saved repo t"
    using h by (auto elim: givesE)
  have m: "norns_main lib np repo mic play s = seqn ?offline (if play then perform_live lib mic else ret ()) s"
    unfolding norns_main_def by (simp add: bnd_assoc)
  show ?thesis
  proof (cases play)
    case False
    then show ?thesis
      using t m by (auto simp: saved_def mixed_def bnd_Inr ret_def)
  next
    case True
    obtain r u where u: "perform_live lib mic t = (r, u)" "files u = files t" "\<not> running u"
      using live_stops by blast
    then have "norns_main lib np repo mic play s = (r, u)"
      using t(1) m True by (simp add: bnd_Inr)
    then show ?thesis
      using t(2) u True by (auto simp: saved_def mixed_def)
  qed
qed

definition norns_repo :: store where
  "norns_repo = empty_store\<lparr>files :=
     [[''tests''] \<mapsto> Dir, [''tests'', ''data''] \<mapsto> Dir,
      [''tests'', ''data'', ''m04.wav''] \<mapsto> Wav \<lparr>nchannels = 2, sampwidth = 2, framerate = 48000, frames = [0, 0, 0, 64]\<rparr>]\<rparr>"

theorem norns_demo_complete_witness:
  "\<exists>s r t d1 d2. new_norns norns_repo True (Fin 48000) DEFAULT_VOICES DEFAULT_BUFFER_FRAMES ''duplex'' ''upstream'' = Inr s
    \<and> norns_main thru_lib list_numpy [] (\<lambda>_. []) True s = (r, t) \<and> \<not> running t
    \<and> read_wav (files t) [''build'', ''out'', ''12_norns_api.wav''] = Inr (d1, 2, 48000) \<and> length d1 = 2 * 1152000
    \<and> read_wav (files t) [''build'', ''out'', ''12_norns_api_buffer1.wav''] = Inr (d2, 1, 48000) \<and> length d2 = 240000"
proof -
  have m: "mem norns_repo = (\<lambda>_. [])"
    by (simp add: norns_repo_def empty_store_def)
  have "\<exists>s. new_norns norns_repo True (Fin 48000) DEFAULT_VOICES DEFAULT_BUFFER_FRAMES ''duplex'' ''upstream'' = Inr s"
    by (rule new_norns_ok [OF m]) (simp_all add: DEFAULT_VOICES_def)
  then obtain s where s: "new_norns norns_repo True (Fin 48000) DEFAULT_VOICES DEFAULT_BUFFER_FRAMES ''duplex'' ''upstream'' = Inr s"
    by blast
  have p: "OUT [] = [''build'', ''out'']" "DATA [] = [''tests'', ''data'']"
    by (simp_all add: OUT_def DATA_def)
  obtain data where data: "read_wav (files norns_repo) (DATA [] @ [''m04.wav'']) = Inr (data, 2, 48000)" "length data = 2"
    by (simp add: read_wav_def open_rb_def norns_repo_def node_at_def p pcm_decode_def empty_samples_def Let_def)
  have lib: "lib_ok thru_lib"
    by (simp add: lib_ok_def thru_lib_def)
  have w: "writable (files norns_repo) (OUT [] @ [name])" for name
    by (simp add: writable_def p norns_repo_def node_at_def)
  show ?thesis
    using norns_demo_complete [OF lib list_numpy_ok m s data(1) _ _ _ _ w w, of "\<lambda>_. []" True] s data(2)
    by (auto simp: p)
qed

section \<open>The partial replace\<close>

text \<open>The loop of the partial replace ends. \<open>while t < loop - 1e-9\<close> adds 0.02 to a float, whose sums
  are not the multiples of 0.02, and still makes exactly the 150 passes of three seconds; the passes whose
  input replaces the loop are numbers 53 to 97, those that start inside the window.\<close>

theorem partial_replace_passes:
  "\<exists>ts. replace_times (Fin 3) = Some ts
     \<and> map (in_window (Fin 3)) ts = replicate 53 False @ replicate 45 True @ replicate 52 False"
proof -
  obtain ts where ts: "replace_times (Fin 3) = Some ts" "list_all2 near_chunk [0..<150] ts"
    using replace_times_near by blast
  have len: "length ts = 150"
    using list_all2_lengthD [OF ts(2)] by simp
  have "map (in_window (Fin 3)) ts = map (\<lambda>k. 53 \<le> k \<and> k \<le> 97) [0..<150]"
  proof (rule nth_equalityI)
    fix k
    assume "k < length (map (in_window (Fin 3)) ts)"
    then show "map (in_window (Fin 3)) ts ! k = map (\<lambda>k. 53 \<le> k \<and> k \<le> 97) [0..<150] ! k"
      using near_in_window [of k "ts ! k"] list_all2_nthD2 [OF ts(2), of k] len by simp
  qed (simp add: len)
  also have "\<dots> = replicate 53 False @ replicate 45 True @ replicate 52 False"
    by code_simp
  finally show ?thesis
    using ts(1) by blast
qed

section \<open>The live looper\<close>

text \<open>The live looper cleans up: on a new duplex engine it raises nothing, whether the device opens or not,
  whatever the microphone delivers and however many passes it makes, and when it returns the device is
  stopped.\<close>

theorem looper_stops_device:
  assumes "new_engine st dev 1 (Fin 48000) ''duplex'' 256 2 (- 1) (- 1) ''upstream'' = Inr s"
  shows "\<exists>t. looper_main lib dev mic loops turns s = (Inr (), t) \<and> \<not> running t"
proof -
  have "idle (files st) 48000 [0] s"
    using assms by (auto simp: new_engine_def new_voice_def ebind_eq_Inr Let_def idle_def engine_settings_def apply_ev_def
        split: if_splits)
  from givesE [OF looper_returns this, of lib dev mic loops turns] show ?thesis
    by auto
qed

theorem looper_stops_device_witness:
  "\<exists>s t. new_engine empty_store True 1 (Fin 48000) ''duplex'' 256 2 (- 1) (- 1) ''upstream'' = Inr s
     \<and> looper_main thru_lib True (\<lambda>_. [[Fin 1]]) 1 1 s = (Inr (), t) \<and> \<not> running t"
proof -
  obtain s where s: "new_engine empty_store True 1 (Fin 48000) ''duplex'' 256 2 (- 1) (- 1) ''upstream'' = Inr s"
    by (auto simp: new_engine_def new_voice_def int_args_ok_def int32_def Let_def)
  with looper_stops_device [OF s] show ?thesis
    by blast
qed

end
