(* ===== verification/Surface_Props.thy ===== *)
theory Surface_Props
  imports Demo_Surface Osc_Safe Demo_Props
begin

text \<open>
  The finger on the surface: a touch reaches the server as soon as the network lets one of its
  datagrams through, and the script ends with its server shut down, whatever the network loses or
  delays, if its controls send messages the receiver can read (\<open>steady\<close>, \<open>built_wire_safe\<close>).
  \<open>offline s\<close>: the engine is stopped and has two channels, which no message changes.
\<close>

section \<open>An offline stereo engine\<close>

definition offline :: "'z engine_scheme \<Rightarrow> bool" where
  "offline s \<longleftrightarrow> \<not> running s \<and> outch s = 2"

lemma offline_updates [simp]:
  "offline (upd_voice i f s) = offline s" "offline (run_cmd c s) = offline s"
  "offline (put_array a xs s) = offline s" "offline (s\<lparr>fbk := m\<rparr>) = offline s"
  by (simp_all add: offline_def put_array_def)

lemma offline_assigned [simp]: "offline (s\<lparr>assigned := f\<rparr>) = offline s"
  by (simp add: offline_def)

lemma offline_stopped: "offline s \<Longrightarrow> \<not> running s"
  by (simp add: offline_def)

lemma offline_apply: "offline s \<Longrightarrow> offline (snd (dsp_apply q i e fl s))"
  by (simp add: stopped_apply offline_stopped)

lemma offline_posts:
  assumes "offline s"
  shows "offline (flag_apply q i e s)" "offline (post_float q i a x s)" "offline (post_bool q i b y s)"
proof -
  have f: "offline (flag_apply q i e t)" if "offline t" for e and t :: "'z engine_scheme"
    using that by (simp add: flag_apply_def stopped_apply offline_stopped)
  show "offline (flag_apply q i e s)"
    using assms by (rule f)
  show "offline (post_float q i a x s)" "offline (post_bool q i b y s)"
    using assms by (simp_all add: post_float_def post_bool_def Let_def f offline_apply)
qed

lemma offline_setters [keeps_intro]:
  "keeps offline (set_float i a x)" "keeps offline (set_bool i b y)" "keeps offline (set_mix i m x)"
  "keeps offline (cut_to i x)" "keeps offline (voice_stop i)" "keeps offline (voice_reset i)"
  unfolding set_float_def set_bool_def set_mix_def cut_to_def voice_stop_def voice_reset_def
  by (auto intro!: keeps_modify simp: offline_posts offline_apply)

lemma offline_set_attr [keeps_intro]: "keeps offline (set_attr i name x)"
  unfolding set_attr_def
  by (auto split: option.split attr.split pyarg.split intro!: keeps_intro)

lemma offline_feedback [keeps_intro]: "keeps offline (feedback src dst (Some x))"
proof -
  have "keeps offline (set_feedback src dst x)"
    by (auto simp: set_feedback_def keeps_def split: sum.split)
  then show ?thesis
    by (auto simp: feedback_def intro!: keeps_intro)
qed

lemma offline_set_buffer: "keeps offline (set_buffer i a)"
  by (rule keepsI) (auto simp: set_buffer_def Let_def dest: offline_stopped)

lemma offline_reads [keeps_intro]: "keeps offline (get_voice i)" "keeps offline (voice_at i)"
  by (simp_all add: get_voice_def voice_at_def Let_def keeps_def)

lemma offline_buffer [keeps_intro]: "keeps offline (buffer i b)"
  unfolding buffer_def
  by (auto intro!: keeps_intro offline_set_buffer split: option.split)

lemma offline_buf_exec: "keeps offline (buf_exec op)"
proof (rule keepsI)
  fix s :: "'a norns_scheme"
  assume "offline s"
  moreover obtain M F where "snd (buf_exec op s) = s\<lparr>mem := M, files := F\<rparr>"
    using keepsD [OF buf_exec_in_place in_place_refl, of s op] by (auto elim: in_placeE)
  ultimately show "offline (snd (buf_exec op s))"
    by (simp add: offline_def)
qed

interpretation offline: host_kept offline lib for lib
proof unfold_locales
  show "keeps offline (set_param name i x :: ('a norns_scheme, unit) py)" for name i x
    unfolding set_param_def float_setter_def bool_setter_def
    by (auto split: option.split intro!: keeps_intro)
  show "keeps offline (reset_all :: ('a norns_scheme, unit) py)"
    unfolding reset_all_def by (intro keeps_intro)
qed (auto simp: set_position_def bool_setter_def level_cut_cut_def voice_sync_def sync_def
    intro!: keeps_intro offline_buf_exec)

section \<open>What arrives\<close>

lemma offline_fields: "norns.truncate t = norns.truncate s \<Longrightarrow> offline t = offline (s :: 'z norns_scheme)"
  by (cases s; cases t; simp add: norns.defs offline_def)

lemma offline_dispatch: "offline s \<Longrightarrow> offline (snd (dispatch lib addr args s))"
proof -
  assume s: "offline s"
  have "offline (snd (run_handler lib h args s))" for h
    using keepsD [OF offline.handler s, of lib h args] s offline_fields [of "poll_start s" s]
      offline_fields [of "poll_stop s" s] offline_fields [of "s\<lparr>oquit := True\<rparr>" s] poll_start_server(2) [of s]
    by (cases h) (simp_all add: modify_def poll_stop_def norns.defs)
  with s show ?thesis
    by (simp add: dispatch_result split: option.split)
qed

lemma offline_native: "offline s \<Longrightarrow> offline (native_handle lib addr args s)"
  by (auto simp: native_handle_def try_fast_dispatch_def Let_def offline_dispatch offline_posts
      split: option.split)

lemma offline_receive: "offline s \<Longrightarrow> offline (receive lib addr args s)"
  by (simp add: receive_def offline_native offline_dispatch split: backend.split)

text \<open>A datagram the demo encodes, if its texts are ASCII and it fits the receive buffer.\<close>

definition encoded :: "byte list \<Rightarrow> bool" where
  "encoded d \<longleftrightarrow> (\<exists>a vs. osc_datagram a vs = Inr d \<and> plain a \<and> a \<noteq> ''#bundle'' \<and> list_all plain_arg vs
     \<and> length d \<le> RECV_SIZE)"

text \<open>Such datagrams keep the receive thread reading, and messages keep the engine offline.\<close>

definition steady :: "link \<Rightarrow> bool" where
  "steady l \<longleftrightarrow> (case thread l of Reading buf \<Rightarrow> length buf = RECV_SIZE | _ \<Rightarrow> False)
     \<and> (\<forall>d \<in> set (in_flight l). encoded d) \<and> offline (server l)"

lemma steady_thread: "steady l \<Longrightarrow> \<exists>buf. thread l = Reading buf \<and> length buf = RECV_SIZE"
  by (auto simp: steady_def split: receiver.splits)

lemma steady_alive: "steady l \<Longrightarrow> \<not> killed l"
  using steady_thread by (force simp: killed_def)

lemma steady_offline: "steady l \<Longrightarrow> offline (server l)"
  by (simp add: steady_def)

lemma arrive_steady:
  assumes "steady l" "encoded d"
  shows "steady (arrive lib rd d l)"
proof -
  obtain buf where buf: "thread l = Reading buf" "length buf = RECV_SIZE"
    using steady_thread [OF assms(1)] by blast
  obtain a vs where d: "osc_datagram a vs = Inr d" "plain a" "a \<noteq> ''#bundle''" "list_all plain_arg vs" "length d \<le> RECV_SIZE"
    using assms(2) by (auto simp: encoded_def)
  have r: "receive_datagram lib d buf s = (d @ drop (length d) buf, Some (Inr (native_handle lib a (map wire_arg vs) s)))" for s
    using receive_encoded [OF d(1-4)] d(5) buf(2) by simp
  have "length (d @ drop (length d) buf) = RECV_SIZE"
    using d(5) buf(2) by simp
  then show ?thesis
    using assms(1) buf(1) r by (auto simp: arrive_def Let_def steady_def offline_native offline_receive
        split: backend.split option.split)
qed

lemma carry_steady: "steady l \<Longrightarrow> steady (carry lib rd oks l)"
proof (induction oks arbitrary: l)
  case (Cons ok oks)
  have "steady (if ok then arrive lib rd d (l\<lparr>in_flight := ds\<rparr>) else l\<lparr>in_flight := ds\<rparr>)" if "in_flight l = d # ds" for d ds
  proof -
    have "steady (l\<lparr>in_flight := ds\<rparr>)" "encoded d"
      using Cons.prems that by (simp_all add: steady_def)
    then show ?thesis by (simp add: arrive_steady)
  qed
  then show ?case
    using Cons by (simp add: Let_def split: list.split)
qed simp

lemma turns_steady:
  assumes "steady l" "encoded d"
  shows "steady (turns lib rd oks d k l)"
proof (induction k)
  case (Suc k)
  then have "steady (sendto d (turns lib rd oks d k l))"
    using assms(2) by (simp add: steady_def sendto_def)
  then show ?case by (simp add: carry_steady)
qed (use assms in simp)

section \<open>Renders\<close>

lemma offline_new_array: "offline s \<Longrightarrow> offline (snd (new_array xs s))"
  by (simp add: new_array_def offline_def)

lemma offline_settings: "engine_settings t = engine_settings s \<Longrightarrow> offline s \<Longrightarrow> offline t"
  by (simp add: engine_settings_def offline_def)

lemma render_stereo:
  assumes "lib_ok lib" "offline s" "length (mem s a) = n" "a < brk s"
  shows "\<exists>d t. render lib (Some a) None None s = (Inr d, t) \<and> offline t \<and> length (mem t d) = 2 * n"
proof -
  let ?s = "snd (new_array (replicate (n * 2) (Fin 0)) s)"
  let ?t = "block_loop lib (block ?s) a (brk s) 0 n ?s"
  have o: "offline ?s" "length (mem ?s a) = n" "length (mem ?s (brk s)) = 2 * n" "brk s < brk ?s"
    using assms(2-4) by (auto simp: new_array_def offline_def)
  have "length (mem ?t (brk s)) = 2 * n"
    using frame_loop [OF assms(1), of ?s "block ?s" a "brk s" 0 n] o(3,4) by (simp add: same_frame_def)
  moreover have "offline ?t"
    using o(1) by (rule offline_settings [OF settings_loop])
  moreover have "core_render lib a (brk s) ?s = (Inr (brk s), ?t)"
    using o(1-3) by (simp add: core_render_def Let_def offline_def)
  moreover have "render lib (Some a) None None s = core_render lib a (brk s) ?s"
    using assms(2,3)
    by (simp add: render_def py_simps check_one_def new_zeros_eq bnd_def new_array_def nat_mult_distrib offline_def)
  ultimately show ?thesis by auto
qed

definition renders :: "flt \<Rightarrow> nat \<Rightarrow> bool" where
  "renders x n \<longleftrightarrow> trunc_int (fmul F64 x surface_SR) = Inr (int n)"

lemma gives_surface_render:
  assumes "lib_ok lib" "numpy_ok np" "renders x n"
  shows "gives offline (surface_render lib np x) (frames_are n) offline"
proof (rule givesI)
  fix s :: osc
  assume s: "offline s"
  let ?zs = "replicate n (Fin 0)"
  have zs: "ebind (trunc_int (fmul F64 x surface_SR)) (np_zeros np) = Inr ?zs"
    using assms(2,3) unfolding numpy_ok_def renders_def by simp
  let ?s = "snd (new_array ?zs s)"
  have "length (mem ?s (brk s)) = n" "brk s < brk ?s"
    by (simp_all add: new_array_def)
  then obtain d t where t: "render lib (Some (brk s)) None None ?s = (Inr d, t)" "offline t" "length (mem t d) = 2 * n"
    using render_stereo [OF assms(1) offline_new_array [OF s]] by blast
  have "np_reshape np (mem t d) 2 = Inr \<lparr>width = 2, flat = mem t d\<rparr>"
    using assms(2) t(3) unfolding numpy_ok_def by simp
  moreover have "new_array ?zs s = (Inr (brk s), ?s)"
    by (simp add: new_array_def)
  ultimately have "surface_render lib np x s = (Inr \<lparr>width = 2, flat = mem t d\<rparr>, t)"
    using t zs by (simp add: surface_render_def norns_render_def bnd_known bnd_Inr py_simps offline_def)
  with t show "\<exists>r u. surface_render lib np x s = (Inr r, u) \<and> frames_are n r \<and> offline u"
    by (simp add: frames_are_def)
qed

section \<open>The loops end\<close>

lemma touch_loop_ends:
  assumes "j \<le> k" "past k"
  shows "\<exists>n r. touch_loop shown past j = Some (n, r) \<and> (r = Inr () \<or> r = Inl TimeoutError)"
  using assms(1)
proof (induction j rule: inc_induct)
  case base
  then show ?case
    using assms(2) by (simp add: touch_loop.simps [of shown past k] split: option.split)
next
  case (step j)
  then show ?case
    by (auto simp: touch_loop.simps [of shown past j] split: option.split)
qed

lemma wait_while_ends:
  assumes "j \<le> k" "past k" "\<And>i m. J m \<Longrightarrow> J (sleep i m)" "J l"
  shows "\<exists>m. wait_while c past sleep j l = Some m \<and> J m"
  using assms(1,4)
proof (induction j arbitrary: l rule: inc_induct)
  case base
  then show ?case
    using assms(2) by (simp add: wait_while.simps [of c past sleep k])
next
  case (step j)
  then show ?case
    using step.IH [of "sleep j l"] assms(3) by (simp add: wait_while.simps [of c past sleep j])
qed

text \<open>The seconds a step renders, and what may stop the script there.\<close>

fun act_secs :: "act \<Rightarrow> flt list" where
  "act_secs (Render x) = [x]"
| "act_secs a = []"

fun stops_at :: "(string \<Rightarrow> message list option) \<Rightarrow> pyexc \<Rightarrow> act \<Rightarrow> bool" where
  "stops_at doc e (Touch name x shown) \<longleftrightarrow> e = TimeoutError \<or> touch_datagram doc name x = Inl e"
| "stops_at doc e (Check c) \<longleftrightarrow> e = AssertionError"
| "stops_at doc e a \<longleftrightarrow> False"

definition section_of :: "flt \<Rightarrow> rows \<Rightarrow> bool" where
  "section_of x r \<longleftrightarrow> (\<exists>n. renders x n \<and> frames_are n r)"

definition wire_safe :: "(string \<Rightarrow> message list option) \<Rightarrow> bool" where
  "wire_safe doc \<longleftrightarrow> (\<forall>name x d. touch_datagram doc name x = Inr d \<longrightarrow> encoded d)"

text \<open>The controls of a built surface are safe if the file paths typed into it are ASCII and fit.\<close>

lemma built_wire_safe:
  assumes "build (Some opts) = Inr (Resolved c)" "\<forall>name ms. doc name = Some ms \<longrightarrow> set ms \<subseteq> set (msgs c)"
    and "\<forall>name a m t. binding doc name = Inr (a, m) \<and> Const t STRING \<in> set (m_args m) \<longrightarrow> plain t"
    and "\<forall>name x d. touch_datagram doc name x = Inr d \<longrightarrow> length d \<le> RECV_SIZE"
  shows "wire_safe doc"
  unfolding wire_safe_def
proof (intro allI impI)
  fix name x d
  assume d: "touch_datagram doc name x = Inr d"
  then obtain a m vs where b: "binding doc name = Inr (a, m)" "arguments_at m x = Inr vs" "osc_datagram a vs = Inr d"
    by (auto simp: touch_datagram_def ebind_eq_Inr)
  have "\<forall>ms. doc name = Some ms \<longrightarrow> set ms \<subseteq> set (msgs c)"
    "\<forall>a m t. binding doc name = Inr (a, m) \<and> Const t STRING \<in> set (m_args m) \<longrightarrow> plain t"
    using assms(2,3) by blast+
  note m = bound_message [OF assms(1) this b(1,2)]
  have "length d \<le> RECV_SIZE"
    using assms(4) d by blast
  with b(3) m(4-6) show "encoded d"
    unfolding encoded_def by blast
qed

lemma act_ends:
  assumes "lib_ok lib" "numpy_ok np" "wire_safe doc" "late net g k" "steady l" "\<forall>x \<in> set (act_secs a). \<exists>n. renders x n"
  shows "\<exists>r m. act_run lib rd np net doc g a l = Some (r, m) \<and> steady m
    \<and> (case r of Inl e \<Rightarrow> stops_at doc e a | Inr outs \<Rightarrow> list_all2 section_of (act_secs a) outs)"
proof (cases a)
  case (Touch name x shown)
  show ?thesis
  proof (cases "touch_datagram doc name x")
    case (Inl e)
    then show ?thesis
      using assms(5) by (simp add: Touch act_run_def touch_on_def)
  next
    case (Inr d)
    then have "encoded d"
      using assms(3) by (auto simp: wire_safe_def)
    moreover obtain n r where "touch_loop (map_option (\<lambda>c k. c (server (turns lib rd (arrivals net g) d (Suc k) l))) shown)
          (\<lambda>k. late net g k \<or> killed (turns lib rd (arrivals net g) d (Suc k) l)) 0 = Some (n, r)"
        "r = Inr () \<or> r = Inl TimeoutError"
      using touch_loop_ends [of 0 k "\<lambda>k. late net g k \<or> killed (turns lib rd (arrivals net g) d (Suc k) l)"] assms(4)
      by blast
    ultimately show ?thesis
      using assms(5) Inr turns_steady by (auto simp: Touch act_run_def touch_on_def)
  qed
next
  case (Render x)
  then obtain n where n: "renders x n"
    using assms(6) by auto
  obtain o' s where o: "surface_render lib np x (server l) = (Inr o', s)" "frames_are n o'" "offline s"
    using gives_surface_render [OF assms(1,2) n] steady_offline [OF assms(5)] by (rule givesE)
  moreover have "steady (l\<lparr>server := s\<rparr>)"
    using assms(5) o(3) by (simp add: steady_def)
  ultimately show ?thesis
    using n by (auto simp: Render act_run_def section_of_def)
next
  case (Await c)
  have "\<exists>m. wait_while (\<lambda>m. c (server m) \<and> \<not> killed m) (late net g) (\<lambda>k. carry lib rd (arrivals net g k)) 0 l = Some m
      \<and> steady m"
    by (rule wait_while_ends [of 0 k "late net g" steady]) (simp_all add: assms(4,5) carry_steady)
  then show ?thesis
    by (auto simp: Await act_run_def)
qed (use assms(5) in \<open>simp_all add: act_run_def carry_steady\<close>)

text \<open>What stops the steps: an exception that one of them may raise.\<close>

definition stopped_by :: "(string \<Rightarrow> message list option) \<Rightarrow> act list \<Rightarrow> stop \<Rightarrow> bool" where
  "stopped_by doc as z \<longleftrightarrow> (\<exists>e. z = Raised e \<and> (\<exists>a \<in> set as. stops_at doc e a))"

lemma acts_end:
  assumes "lib_ok lib" "numpy_ok np" "wire_safe doc" "\<forall>g. \<exists>k. late net g k" "steady l"
    and "\<forall>x \<in> set (concat (map act_secs as)). \<exists>n. renders x n"
  shows "\<exists>r m. acts_run lib rd np net doc g as l = Some (r, m) \<and> steady m
    \<and> (case r of Inl z \<Rightarrow> stopped_by doc as z
       | Inr outs \<Rightarrow> list_all2 section_of (concat (map act_secs as)) outs)"
  using assms(5,6)
proof (induction "as" arbitrary: g l)
  case (Cons a "as")
  obtain k where k: "late net g k"
    using assms(4) by blast
  have "\<forall>x \<in> set (act_secs a). \<exists>n. renders x n"
    using Cons.prems(2) by simp
  then obtain r m where m: "act_run lib rd np net doc g a l = Some (r, m)" "steady m"
      "case r of Inl e \<Rightarrow> stops_at doc e a | Inr outs \<Rightarrow> list_all2 section_of (act_secs a) outs"
    using act_ends [OF assms(1-3) k Cons.prems(1)] by blast
  obtain buf where buf: "thread m = Reading buf"
    using steady_thread [OF m(2)] by blast
  show ?case
  proof (cases r)
    case (Inl e)
    then show ?thesis using m buf by (simp add: stopped_by_def)
  next
    case (Inr outs)
    obtain r2 m2 where m2: "acts_run lib rd np net doc (Suc g) as m = Some (r2, m2)" "steady m2"
        "case r2 of Inl z \<Rightarrow> stopped_by doc as z
         | Inr outs \<Rightarrow> list_all2 section_of (concat (map act_secs as)) outs"
      using Cons.IH [OF m(2), of "Suc g"] Cons.prems(2) by force
    then show ?thesis
      using m Inr buf by (cases r2) (auto simp: stopped_by_def intro: list_all2_appendI)
  qed
qed simp

lemma performance_secs:
  "concat (map act_secs (performance lib loudness)) =
     [Fin (1 / 2), Fin 3, Fin 3, Fin 3, Fin (3 / 2), Fin (3 / 2), Fin (3 / 2)]"
  using rep_dyadic [of 3 F64 "- 1"]
  by (simp add: performance_def surface_SECTION_def rnd_rep power_int_def)

lemma renders_values: "renders (Fin (1 / 2)) 24000" "renders (Fin 3) 144000" "renders (Fin (3 / 2)) 72000"
  using rep_int [of 24000 F64] rep_int [of 144000 F64] rep_int [of 72000 F64]
  by (simp_all add: renders_def surface_SR_def rnd_rep trunc_int_def)

section \<open>A session\<close>

lemma new_norns_offline:
  assumes "new_norns st dev sr nv bf mode quirks = Inr s"
  shows "offline s"
proof -
  obtain e where e: "new_engine st dev nv sr mode 512 2 (- 1) (- 1) quirks = Inr e"
    using assms by (auto simp: new_norns_def ebind_eq_Inr)
  let ?s0 = "engine.extend e \<lparr>nsr = sr, nvoices = nv, bufs = (\<lambda>_. None), assigned = (\<lambda>_. None)\<rparr>"
  let ?m = "bnd (new_arrays 2 (next_power_of_two bf)) (\<lambda>as.
      seqn (modify (\<lambda>s. s\<lparr>bufs := [1 \<mapsto> as ! 0, 2 \<mapsto> as ! 1]\<rparr>)) (for_each [1..nv] (\<lambda>i. buffer i 1))) :: (norns, unit) py"
  have "offline ?s0"
    using e by (auto simp: new_engine_def ebind_eq_Inr Let_def offline_def engine.defs split: if_splits)
  moreover have "keeps offline (new_array xs :: (norns, aref) py)" for xs
    by (simp add: keeps_def offline_new_array)
  then have "keeps offline (new_arrays k n :: (norns, aref list) py)" for k n
    by (induction k) (auto simp: new_zeros_def intro!: keeps_intro)
  then have "keeps offline ?m"
    by (auto intro!: keeps_intro simp: offline_def)
  ultimately have "offline (snd (?m ?s0))"
    by (rule keepsD [rotated])
  moreover have "s = snd (?m ?s0)"
    using assms e by (auto simp: new_norns_def Let_def split: prod.splits sum.splits)
  ultimately show ?thesis by simp
qed

lemma new_osc_offline:
  assumes "new_osc native pyosc name lhost bind h = Inr s" "offline h"
  shows "offline (osc_start s)"
proof -
  obtain m where "s = norns.extend h m"
    using new_osc_eq [OF assms(1)] by blast
  then show ?thesis
    using assms(2) by (simp add: osc_start_def offline_def norns.defs)
qed

lemma session_ends:
  assumes "lib_ok lib" "numpy_ok np" "wire_safe doc" "\<forall>g. \<exists>k. late net g k"
    and "ebind (new_norns st (opens_device pc) surface_SR DEFAULT_VOICES (2 ^ 20) ''playback'' ''upstream'')
           (new_osc (built_native pc) (has_pyosc pc) backend ''127.0.0.1'' (free_port pc)) = Inr s"
  shows "\<exists>r (l :: link). surface_session lib rd np loudness net doc pc backend st = Some (Inr (r, osc_shutdown (server l)))
    \<and> (case r of Inl z \<Rightarrow> stopped_by doc (performance lib loudness) z
       | Inr outs \<Rightarrow> list_all2 frames_are [24000, 144000, 144000, 144000, 72000, 72000, 72000] outs)"
proof -
  let ?l = "\<lparr>server = osc_start s, thread = Reading (replicate RECV_SIZE 0), in_flight = []\<rparr>"
  have "steady ?l"
    using assms(5) new_norns_offline new_osc_offline by (auto simp: ebind_eq_Inr steady_def)
  moreover have "\<forall>x \<in> set (concat (map act_secs (performance lib loudness))). \<exists>n. renders x n"
    unfolding performance_secs using renders_values by auto
  ultimately obtain r m where m: "acts_run lib rd np net doc 0 (performance lib loudness) ?l = Some (r, m)" "steady m"
      "case r of Inl z \<Rightarrow> stopped_by doc (performance lib loudness) z
       | Inr outs \<Rightarrow> list_all2 section_of (concat (map act_secs (performance lib loudness))) outs"
    using acts_end [OF assms(1-4)] by blast
  have n: "n = k" if "renders x n" "renders x k" for x n k
    using that by (simp add: renders_def)
  have f: "section_of (Fin (1 / 2)) o' = frames_are 24000 o'" "section_of (Fin 3) o' = frames_are 144000 o'"
    "section_of (Fin (3 / 2)) o' = frames_are 72000 o'" for o'
    using n renders_values by (auto simp: section_of_def)
  have "clean_up (r, m) = Some (r, osc_shutdown (server m))"
    using steady_thread [OF m(2)] by (auto simp: clean_up_def)
  then have "surface_session lib rd np loudness net doc pc backend st = Some (Inr (r, osc_shutdown (server m)))"
    using m(1) assms(5) by (simp add: surface_session_def)
  moreover have "case r of Inl z \<Rightarrow> stopped_by doc (performance lib loudness) z
      | Inr outs \<Rightarrow> list_all2 frames_are [24000, 144000, 144000, 144000, 72000, 72000, 72000] outs"
    using m(3) unfolding performance_secs by (cases r) (simp_all add: list_all2_Cons1 f)
  ultimately show ?thesis
    by (rule exI [of _ r, OF exI [of _ m, OF conjI]])
qed

text \<open>C30. The session of the OSC demo ends and cleans up, when its controls send what the receiver reads:
  messages with ASCII texts that fit the receive buffer. If the clock of every wait runs out in the
  end, then whatever the network loses, delays or leaves in flight, the receive thread neither
  faults, which would kill the process, nor sticks, which would hang the shutdown; the session
  returns, and it leaves the receiver down, its socket closed and the phase poll off. It yields the
  seven sections, fourteen seconds of stereo frames, unless a step stops it: a touch that timed
  out or that could not be encoded, or an \<open>assert\<close>. No render and nothing else in it raises.\<close>

theorem surface_session_ends:
  assumes "lib_ok lib" "numpy_ok np" "\<forall>name x d. touch_datagram doc name x = Inr d \<longrightarrow> encoded d"
    and "\<forall>g. \<exists>k. late net g k" "mem st = (\<lambda>_. [])"
    and "resolve_backend (built_native pc) (has_pyosc pc) backend = Inr be" "free_port pc = Some port"
  shows "\<exists>r t. surface_session lib rd np loudness net doc pc backend st = Some (Inr (r, t))
    \<and> \<not> serving t \<and> \<not> sock_open t \<and> \<not> poll_on t
    \<and> (case r of
         Inl z \<Rightarrow> \<exists>e. z = Raised e \<and> (e \<in> {TimeoutError, AssertionError} \<or> (\<exists>name x. touch_datagram doc name x = Inl e))
       | Inr outs \<Rightarrow> list_all2 frames_are [24000, 144000, 144000, 144000, 72000, 72000, 72000] outs)"
proof -
  obtain h where "new_norns st (opens_device pc) surface_SR DEFAULT_VOICES (2 ^ 20) ''playback'' ''upstream'' = Inr h"
    using new_norns_ok [OF assms(5), of DEFAULT_VOICES "''playback''" "''upstream''" "opens_device pc" surface_SR "2 ^ 20"]
    by (auto simp: DEFAULT_VOICES_def)
  then obtain s where s: "ebind (new_norns st (opens_device pc) surface_SR DEFAULT_VOICES (2 ^ 20) ''playback'' ''upstream'')
      (new_osc (built_native pc) (has_pyosc pc) backend ''127.0.0.1'' (free_port pc)) = Inr s"
    using assms(6,7) by (simp add: new_osc_def)
  have "wire_safe doc"
    using assms(3) by (simp add: wire_safe_def)
  from session_ends [OF assms(1,2) this assms(4) s] obtain r and l :: link where
    l: "surface_session lib rd np loudness net doc pc backend st = Some (Inr (r, osc_shutdown (server l)))"
      "case r of Inl z \<Rightarrow> stopped_by doc (performance lib loudness) z
       | Inr outs \<Rightarrow> list_all2 frames_are [24000, 144000, 144000, 144000, 72000, 72000, 72000] outs"
    by blast
  have "e \<in> {TimeoutError, AssertionError} \<or> (\<exists>name x. touch_datagram doc name x = Inl e)" if "stops_at doc e a" for e a
    using that by (cases a) auto
  then show ?thesis
    using l shutdown_down [of "server l"] by (cases r) (auto simp: stopped_by_def)
qed

section \<open>A touch takes hold\<close>

lemma posted_value:
  "i < length (voices s) \<Longrightarrow> fmir (voices (post_float q i a x s) ! i) a = x"
  by (auto simp: post_float_def dsp_apply_def queue_apply_def run_cmd_def vrun_def vupd_def upd_voice_def
      store_float_def apply_ev_def split: qid.split option.split prod.split)

lemma float_message_value:
  assumes "map_of float_params addr = Some a" "i < length (voices s)"
  shows "fmir (voices (native_handle lib addr [(CHR ''i'', VInt (int i)), (CHR ''f'', VFloat x)] s) ! i) a = x"
  using assms by (simp add: native_handle_def try_fast_dispatch_def Let_def posted_value)

text \<open>A native server of \<open>n\<close> voices that listens.\<close>

definition listening :: "nat \<Rightarrow> link \<Rightarrow> bool" where
  "listening n l \<longleftrightarrow> (case thread l of Reading buf \<Rightarrow> length buf = RECV_SIZE | _ \<Rightarrow> False)
     \<and> serving (server l) \<and> sock_open (server l) \<and> obackend (server l) = Native \<and> osc_inv (server l)
     \<and> length (voices (server l)) = n"

lemma listening_alive: "listening n l \<Longrightarrow> \<not> killed l"
  by (auto simp: listening_def killed_def split: receiver.splits)

lemma native_server:
  assumes "serving s" "sock_open s" "obackend s = Native"
  shows "native_handle lib a args s = receive lib a args s"
  using assms by (simp add: receive_def)

lemma native_voices:
  assumes "osc_inv s"
  shows "length (voices (native_handle lib a args s)) = length (voices s)"
proof (cases "try_fast_dispatch a args s")
  case None
  have "host_wf (snd (dispatch lib a (delivered args) s))"
    using dispatch_host assms by (simp add: osc_inv_def)
  then show ?thesis
    using None assms host_wf_nvoices [of s] host_wf_nvoices dispatch_voices [of lib a "delivered args" s]
    by (fastforce simp: native_handle_def osc_inv_def)
next
  case (Some t)
  then show ?thesis
    using same_frame_length [OF fast_frame(1) [OF Some]] by (simp add: native_handle_def)
qed

lemma arrive_listening:
  assumes "listening n l" "osc_datagram a vs = Inr d" "plain a" "a \<noteq> ''#bundle''" "list_all plain_arg vs"
    and "length d \<le> RECV_SIZE"
  shows "listening n (arrive lib rd d l) \<and> server (arrive lib rd d l) = native_handle lib a (map wire_arg vs) (server l)
    \<and> in_flight (arrive lib rd d l) = in_flight l"
proof -
  obtain buf where buf: "thread l = Reading buf" "length buf = RECV_SIZE"
    using assms(1) by (auto simp: listening_def split: receiver.splits)
  have up: "serving (server l)" "sock_open (server l)" "obackend (server l) = Native" "osc_inv (server l)"
    using assms(1) by (simp_all add: listening_def)
  let ?s = "native_handle lib a (map wire_arg vs) (server l)"
  have "arrive lib rd d l = l\<lparr>server := ?s, thread := Reading (d @ drop (length d) buf)\<rparr>"
    using up receive_encoded [OF assms(2-5), of buf lib "server l"] assms(6) buf
    by (simp add: arrive_def Let_def)
  moreover have "osc_inv ?s" "serving ?s" "sock_open ?s" "obackend ?s = Native"
    using osc_inv_receive [OF up(4)] receive_server [of lib a "map wire_arg vs" "server l"] up
    by (simp_all add: native_server)
  ultimately show ?thesis
    using assms(1,6) buf up(4) by (simp add: listening_def native_voices)
qed

lemma carry_listening:
  assumes "listening n l" "\<forall>d \<in> set (in_flight l). encoded d"
  shows "listening n (carry lib rd oks l) \<and> in_flight (carry lib rd oks l) = drop (length oks) (in_flight l)"
  using assms
proof (induction oks arbitrary: l)
  case (Cons ok oks)
  show ?case
  proof (cases "in_flight l")
    case Nil
    then show ?thesis using Cons.prems by simp
  next
    case (Cons d ds)
    let ?m = "l\<lparr>in_flight := ds\<rparr>"
    let ?n = "if ok then arrive lib rd d ?m else ?m"
    have m: "listening n ?m" "encoded d" "\<forall>d \<in> set ds. encoded d"
      using Cons.prems Cons by (simp_all add: listening_def)
    then have "listening n ?n \<and> in_flight ?n = ds"
      using arrive_listening [of n ?m] by (auto simp: encoded_def)
    then show ?thesis
      using Cons.IH [of ?n] m(3) Cons by (simp add: Let_def)
  qed
qed simp

lemma carry_append: "carry lib rd (xs @ ys) l = carry lib rd ys (carry lib rd xs l)"
proof (induction xs arbitrary: l)
  case (Cons x xs)
  then show ?case
    by (cases ys) (auto simp: Let_def split: list.split)
qed simp

lemma sendto_listening [simp]: "listening n (sendto d l) = listening n l" "in_flight (sendto d l) = in_flight l @ [d]"
  by (simp_all add: sendto_def listening_def)

lemma turns_listening:
  assumes "listening n l" "\<forall>d \<in> set (in_flight l). encoded d" "encoded d"
  shows "listening n (turns lib rd oks d k l) \<and> (\<forall>d \<in> set (in_flight (turns lib rd oks d k l)). encoded d)"
proof (induction k)
  case (Suc k)
  then have "\<forall>e \<in> set (in_flight (sendto d (turns lib rd oks d k l))). encoded e"
    using assms(3) by simp
  then show ?case
    using carry_listening [of n "sendto d (turns lib rd oks d k l)" lib rd "oks k"] Suc
    by (auto dest: in_set_dropD)
qed (use assms in simp)

text \<open>The turn whose own datagram is the last to arrive.\<close>

lemma last_arrival:
  assumes "listening n l" "\<forall>d \<in> set (in_flight l). encoded d"
    and "osc_datagram a vs = Inr d" "plain a" "a \<noteq> ''#bundle''" "list_all plain_arg vs" "length d \<le> RECV_SIZE"
    and "oks = lost @ True # rest" "length lost = length (in_flight l)"
  shows "\<exists>m. listening n m \<and> server (carry lib rd oks (sendto d l)) = native_handle lib a (map wire_arg vs) (server m)"
proof -
  let ?m = "carry lib rd lost (sendto d l)"
  have e: "\<forall>e \<in> set (in_flight (sendto d l)). encoded e"
    using assms(2-7) by (auto simp: encoded_def)
  have m: "listening n ?m" "in_flight ?m = [d]"
    using carry_listening [OF _ e, of n lib rd lost] assms(1,9) by simp_all
  let ?k = "?m\<lparr>in_flight := []\<rparr>"
  have k: "listening n ?k"
    using m(1) by (simp add: listening_def)
  have "in_flight (arrive lib rd d ?k) = []" "server (arrive lib rd d ?k) = native_handle lib a (map wire_arg vs) (server ?k)"
    using arrive_listening [OF k assms(3-7)] by simp_all
  moreover have "carry lib rd rest x = x" if "in_flight x = []" for x
    using that by (cases rest) simp_all
  moreover have "carry lib rd oks (sendto d l) = carry lib rd (True # rest) ?m"
    using assms(8) by (simp add: carry_append)
  ultimately have "server (carry lib rd oks (sendto d l)) = native_handle lib a (map wire_arg vs) (server ?k)"
    using m(2) by (simp add: Let_def)
  with k show ?thesis by blast
qed

lemma touch_loop_shown:
  assumes "j \<le> k" "shown k" "\<forall>i < k. \<not> past i"
  shows "\<exists>n. touch_loop (Some shown) past j = Some (Suc n, Inr ()) \<and> shown n \<and> n \<le> k"
  using assms(1)
proof (induction j rule: inc_induct)
  case base
  then show ?case
    using assms(2) by (simp add: touch_loop.simps [of _ past k])
next
  case (step j)
  then show ?case
    using assms(3) by (auto simp: touch_loop.simps [of _ past j])
qed

lemma float_addresses_short: "list_all (\<lambda>(a, x). length a < 64) float_params"
  by code_simp

lemma float_datagram_length:
  assumes "map_of float_params addr = Some a" "osc_datagram addr [VInt i, VFloat x] = Inr d"
  shows "length d \<le> RECV_SIZE"
proof -
  have n: "length addr < 64"
    using float_addresses_short map_of_SomeD [OF assms(1)] by (auto simp: list_all_iff)
  obtain ps where "list_all2 (\<lambda>v part. osc_arg v = Inr part) [VInt i, VFloat x] ps"
    "d = pad (encode_text addr) @ pad (encode_text ('','' @ map fst ps)) @ concat (map snd ps)"
    using osc_datagram_parts [OF assms(2)] by blast
  moreover have "length (snd r) = 4" if "osc_arg v = Inr r" "v = VInt i \<or> v = VFloat x" for v r
    using that by (auto simp: osc_arg_def split: if_splits)
  ultimately obtain r q where "length (snd r) = 4" "length (snd q) = 4"
      "d = pad (encode_text addr) @ pad (encode_text ('','' @ [fst r, fst q])) @ snd r @ snd q"
    by (auto simp: list_all2_Cons1)
  then show ?thesis
    using n by (simp add: pad_def RECV_SIZE_def)
qed

text \<open>C16. A touch takes hold. A fader bound to a float parameter of a voice is touched, on a native server
  that has the voice and has datagrams of the demo in flight. If before the deadline there is a turn
  in which everything in flight is lost or read and the datagram that turn sent is read, whatever
  was lost until then, the touch ends without an exception, and \<open>until\<close> sees the change it waits
  for: the read-back is the position scaled into the fader's range and rounded to binary32, twice.\<close>

theorem touch_takes_hold:
  assumes "binding doc name = Inr (addr, m)" "m_args m = [Const t INTEGER, ScaledValue key conv lo hi]"
    and "parse_int t = Inr (int i)" "map_of float_params addr = Some a"
    and "touch_datagram doc name x = Inr d"
    and "listening n l" "i < n" "\<forall>e \<in> set (in_flight l). encoded e"
    and "arrivals net g j = lost @ True # rest"
    and "length lost = length (in_flight (turns lib rd (arrivals net g) d j l))" "\<forall>k < j. \<not> late net g k"
    and "\<forall>s. fmir (voices s ! i) a = to_f32 (fadd F64 lo (fmul F64 x (fsub F64 hi lo))) \<longrightarrow> shown s"
  shows "\<exists>l'. touch_on lib rd net g doc name x (Some shown) l = Some (Inr (), l') \<and> shown (server l') \<and> listening n l'"
proof -
  let ?y = "fadd F64 lo (fmul F64 x (fsub F64 hi lo))"
  let ?turns = "turns lib rd (arrivals net g) d"
  have args: "arguments_at m x = Inr [VInt (int i), VFloat ?y]"
    using assms(2,3) by (simp add: arguments_at_def argument_def)
  have d: "osc_datagram addr [VInt (int i), VFloat ?y] = Inr d"
    using assms(1,5) args by (simp add: touch_datagram_def)
  obtain h where "map_of build_handlers addr = Some h"
    using fast_float_handler [OF assms(4)] by blast
  then have ok: "plain addr" "addr \<noteq> ''#bundle''" "list_all plain_arg [VInt (int i), VFloat ?y]" "length d \<le> RECV_SIZE"
    using handler_address float_datagram_length [OF assms(4) d] by (auto simp: plain_arg_def)
  then have e: "encoded d"
    using d unfolding encoded_def by blast
  have t: "listening n (?turns k l)" "\<forall>e \<in> set (in_flight (?turns k l)). encoded e" for k
    using turns_listening [OF assms(6,8) e] by blast+
  obtain m' where m': "listening n m'" "server (carry lib rd (arrivals net g j) (sendto d (?turns j l)))
      = native_handle lib addr (map wire_arg [VInt (int i), VFloat ?y]) (server m')"
    using last_arrival [OF t d ok(1-4) assms(9,10)] by blast
  then have "fmir (voices (server (?turns (Suc j) l)) ! i) a = to_f32 ?y"
    using float_message_value [OF assms(4), of i "server m'"] assms(7) by (simp add: listening_def)
  then have "shown (server (?turns (Suc j) l))"
    using assms(12) by blast
  moreover have "\<forall>i < j. \<not> (late net g i \<or> killed (?turns (Suc i) l))"
    using assms(11) listening_alive [OF t(1)] by blast
  ultimately obtain k where "touch_loop (Some (\<lambda>k. shown (server (?turns (Suc k) l))))
        (\<lambda>k. late net g k \<or> killed (?turns (Suc k) l)) 0 = Some (Suc k, Inr ())"
      "shown (server (?turns (Suc k) l))"
    using touch_loop_shown [of 0 j "\<lambda>k. shown (server (?turns (Suc k) l))" "\<lambda>k. late net g k \<or> killed (?turns (Suc k) l)"]
    by blast
  then show ?thesis
    using assms(5) t(1) [of "Suc k"] by (auto simp: touch_on_def)
qed

lemma new_listening:
  obtains l where "listening 6 l" "in_flight l = []"
proof -
  obtain h where h: "new_norns empty_store True (Fin 48000) 6 16 ''playback'' ''upstream'' = Inr h"
    using new_norns_ok [of empty_store 6 "''playback''" "''upstream''" True "Fin 48000" 16] by (auto simp: empty_store_def)
  have w: "host_wf h" "buffers_ok h" "nvoices h = 6"
    using new_norns_wf [OF h] by (simp_all add: empty_store_def)
  obtain s where s: "new_osc True True ''auto'' ''127.0.0.1'' (Some 9999) h = Inr s"
    by (simp add: new_osc_def resolve_backend_def)
  have i: "osc_inv s"
    by (rule new_osc_inv [OF s w(1,2)])
  obtain be where be: "resolve_backend True True ''auto'' = Inr be" "s = norns.extend h
      \<lparr>obackend = be, oquit = False, poll_last = replicate (length (voices h)) None, poll_on = False,
       poll_errors = 0, sent = [], serving = False, blocking = False, sock_open = True,
       listen_host = ''127.0.0.1'', bound_port = 9999\<rparr>"
    using new_osc_eq [OF s] by auto
  then have "obackend s = Native" "sock_open s" "length (voices s) = 6"
    using w(3) host_wf_nvoices [OF w(1)] by (simp_all add: resolve_backend_def norns.defs)
  moreover have "osc_inv (osc_start s)"
    by (auto simp: osc_start_def norns.defs intro!: osc_inv_fields [OF i])
  ultimately have "listening 6 \<lparr>server = osc_start s, thread = Reading (replicate RECV_SIZE 0), in_flight = []\<rparr>"
    by (simp add: listening_def osc_start_def)
  then show ?thesis
    using that by (metis link.select_convs(3))
qed

lemma touched_exact: "rnd F64 8 = Fin 8" "rnd F64 (5 / 2) = Fin (5 / 2)" "rnd F32 (5 / 2) = Fin (5 / 2)"
  using rep_int [of 8 F64] rep_dyadic [of 5 F64 "- 1"] rep_dyadic [of 5 F32 "- 1"]
  by (simp_all add: rnd_rep power_int_def)

lemma millesimal: "flt_less (Fin 0) (dec (1 / 1000))"
proof -
  have "representable F64 (1 / 1024)" "representable F64 1"
    using rep_dyadic [of 1 F64 "- 10"] rep_int [of 1 F64] by (simp_all add: power_int_def power_divide)
  then obtain q where "rnd F64 (1 / 1000) = Fin q" "1 / 1024 \<le> q"
    using rnd_Fin_bounds [of F64 "1 / 1024" 1 "1 / 1000"] by auto
  then show ?thesis by (simp add: dec_def)
qed

text \<open>The loop end of the demo, two and a half seconds of eight; the first datagram is lost.\<close>

theorem touch_takes_hold_witness:
  "\<exists>l l'. listening 6 l
     \<and> touch_on thru_lib (\<lambda>_. None) \<lparr>arrivals = (\<lambda>g k. [k = 1]), late = (\<lambda>g k. 2 \<le> k)\<rparr> 4
         [''loop_end1'' \<mapsto> [send ''/set/param/cut/loop_end'' [index_arg 0, scaled_arg (Fin 0, Fin 8)]]]
         ''loop_end1'' (Fin (5 / 16)) (Some (param_near LoopEnd surface_LOOP)) l = Some (Inr (), l')
     \<and> param_near LoopEnd surface_LOOP (server l')"
proof -
  let ?m = "send ''/set/param/cut/loop_end'' [index_arg 0, scaled_arg (Fin 0, Fin 8)]"
  let ?doc = "[''loop_end1'' \<mapsto> [?m]]"
  let ?net = "\<lparr>arrivals = (\<lambda>(g :: nat) k. [k = 1]), late = (\<lambda>(g :: nat) k. 2 \<le> k)\<rparr>"
  obtain l where l: "listening 6 l" "in_flight l = []"
    by (rule new_listening)
  have b: "binding ?doc ''loop_end1'' = Inr (''/set/param/cut/loop_end'', ?m)"
    by (simp add: binding_def sends_def send_def)
  have m: "m_args ?m = [Const (int_str 0) INTEGER, ScaledValue ''x'' FLOAT (Fin 0) (Fin 8)]"
    by (simp add: send_def index_arg_def scaled_arg_def)
  have t: "parse_int (int_str 0) = Inr (int 0)"
    using parse_int_str [of 0] by (simp add: int_str_def nat_str.simps)
  have y: "fadd F64 (Fin 0) (fmul F64 (Fin (5 / 16)) (fsub F64 (Fin 8) (Fin 0))) = Fin (5 / 2)"
    by (simp add: touched_exact)
  have "to_f32 (Fin (5 / 2)) = Fin (5 / 2)"
    by (simp add: to_f32_def touched_exact)
  then obtain d where d: "touch_datagram ?doc ''loop_end1'' (Fin (5 / 16)) = Inr d"
    using b m t y by (simp add: touch_datagram_def arguments_at_def argument_def osc_datagram_def osc_arg_def touched_exact)
  have near: "\<forall>s. fmir (voices s ! 0) LoopEnd = to_f32 (fadd F64 (Fin 0) (fmul F64 (Fin (5 / 16)) (fsub F64 (Fin 8) (Fin 0))))
      \<longrightarrow> param_near LoopEnd surface_LOOP s"
    using millesimal by (simp add: y to_f32_def touched_exact param_near_def near_def surface_LOOP_def py_abs_def)
  have a: "map_of float_params ''/set/param/cut/loop_end'' = Some LoopEnd"
    by code_simp
  have "in_flight (turns thru_lib (\<lambda>_. None) (arrivals ?net 4) d 1 l) = []"
    using l(2) by (simp add: sendto_def)
  then show ?thesis
    using touch_takes_hold [OF b m t a d l(1), of ?net 4 1 "[]" "[]" thru_lib "\<lambda>_. None" "param_near LoopEnd surface_LOOP"] near l
    by auto
qed

text \<open>A session whose datagrams are all lost: the buffer is never filled.\<close>

lemma read_mono_encoded:
  "\<forall>name x d. touch_datagram [''read_mono'' \<mapsto> [send_on_press ''/softcut/buffer/read_mono'' [Const ''m04.wav'' STRING]]] name x
     = Inr d \<longrightarrow> encoded d"
proof (intro allI impI)
  fix name x d
  assume "touch_datagram [''read_mono'' \<mapsto> [send_on_press ''/softcut/buffer/read_mono'' [Const ''m04.wav'' STRING]]] name x = Inr d"
  then have d: "osc_datagram ''/softcut/buffer/read_mono'' [VStr ''m04.wav''] = Inr d"
    by (auto simp: touch_datagram_def binding_def sends_def send_on_press_def arguments_at_def argument_def
        ebind_eq_Inr split: if_splits)
  moreover have "plain ''/softcut/buffer/read_mono''" "plain_arg (VStr ''m04.wav'')"
    by code_simp+
  moreover have "length d \<le> RECV_SIZE"
    using d by (auto simp: osc_datagram_def osc_arg_def pad_def encode_text_def RECV_SIZE_def)
  ultimately show "encoded d"
    unfolding encoded_def
    by (intro exI [of _ "''/softcut/buffer/read_mono''"] exI [of _ "[VStr ''m04.wav'']"]) simp
qed

theorem surface_session_ends_witness:
  "\<exists>t. surface_session thru_lib (\<lambda>_. None) list_numpy (\<lambda>_. Fin 0) \<lparr>arrivals = (\<lambda>g k. [False]), late = (\<lambda>g k. 3 \<le> k)\<rparr>
        [''read_mono'' \<mapsto> [send_on_press ''/softcut/buffer/read_mono'' [Const ''m04.wav'' STRING]]]
        \<lparr>built_native = True, has_pyosc = False, has_py2tosc = True, free_port = Some 9999, opens_device = False, route_source = None\<rparr>
        ''auto'' empty_store = Some (Inr (Inl (Raised AssertionError), t))
     \<and> \<not> serving t \<and> \<not> sock_open t \<and> \<not> poll_on t"
proof -
  let ?net = "\<lparr>arrivals = (\<lambda>(g :: nat) (k :: nat). [False]), late = (\<lambda>(g :: nat) k. 3 \<le> k)\<rparr>"
  let ?doc = "[''read_mono'' \<mapsto> [send_on_press ''/softcut/buffer/read_mono'' [Const ''m04.wav'' STRING]]]"
  let ?pc = "\<lparr>built_native = True, has_pyosc = False, has_py2tosc = True, free_port = Some 9999, opens_device = False,
    route_source = None\<rparr>"
  have lib: "lib_ok thru_lib"
    by (simp add: lib_ok_def thru_lib_def)
  have "\<exists>k. late ?net g k" for g
    by (intro exI [of _ 3]) simp
  then obtain r t where t: "surface_session thru_lib (\<lambda>_. None) list_numpy (\<lambda>_. Fin 0) ?net ?doc ?pc
      ''auto'' empty_store = Some (Inr (r, t))" "\<not> serving t" "\<not> sock_open t" "\<not> poll_on t"
    using surface_session_ends [OF lib list_numpy_ok read_mono_encoded, of ?net empty_store ?pc "''auto''" Native 9999
        "\<lambda>_. None" "\<lambda>_. Fin 0"]
    by (auto simp: empty_store_def resolve_backend_def)
  obtain d where d: "touch_datagram ?doc ''read_mono'' (Fin 1) = Inr d"
    by (simp add: touch_datagram_def binding_def sends_def send_on_press_def arguments_at_def argument_def osc_datagram_def
        osc_arg_def)
  have lost: "thread (carry thru_lib (\<lambda>_. None) [False] l) = thread l" for l :: link
    by (simp split: list.split)
  have "acts_run thru_lib (\<lambda>_. None) list_numpy ?net ?doc 0 (Touch ''read_mono'' (Fin 1) None # Sleep # Check (buffer_filled (\<lambda>_. Fin 0)) # as) l
      = Some (Inl (Raised AssertionError), carry thru_lib (\<lambda>_. None) [False] (carry thru_lib (\<lambda>_. None) [False] (sendto d l)))"
    if "thread l = Reading buf" for "as" l buf
    using d that lost by (simp add: act_run_def touch_on_def touch_loop.simps buffer_filled_def sendto_def del: carry.simps
        split: option.split)
  then have "r = Inl (Raised AssertionError)"
    using t(1) by (auto simp: surface_session_def performance_def clean_up_def bind_eq_Some_conv
        split: sum.splits receiver.splits)
  with t show ?thesis by blast
qed

section \<open>The script\<close>

lemma finish_writes:
  assumes "numpy_ok np" "list_all2 frames_are ns outs" "ns \<noteq> []" "sum_list ns = n" "0 < n"
    and "surface_finish lib np repo dev mic False outs s = (Inr (), t)"
  shows "\<exists>data. read_wav (files t) (OUT repo @ [''13_osc_surface.wav'']) = Inr (data, 2, 48000) \<and> length data = 2 * n"
proof -
  let ?p = "OUT repo @ [''13_osc_surface.wav'']"
  obtain out where out: "np_concatenate np outs = Inr out" "frames_are n out"
    using numpy_concat [OF assms(1-3)] assms(4) by blast
  have "\<exists>q. write_wav ?p (rows_view out) 48000 None s = (Inr q, t)"
    using assms(6) out(1)
    by (auto simp: surface_finish_def write_out_def bnd_def py_simps split: prod.splits sum.splits)
  then have "write_wav ?p (rows_view out) 48000 None s = (Inr ?p, t)"
    by (auto simp: write_wav_ok)
  from written_wav [OF this] show ?thesis
    using check_rows [OF out(2) assms(5)] out(2) by (auto simp: rows_view_def frames_are_def)
qed

text \<open>The script returns, and when nothing stops it it leaves the fourteen seconds as a stereo file.\<close>

theorem surface_demo_writes:
  assumes "lib_ok lib" "numpy_ok np" "\<forall>g. \<exists>k. late net g k"
    and "\<forall>document. demo_layout (path_str (DATA repo @ [''m04.wav''])) = Inr document \<longrightarrow> wire_safe (find_control document)"
    and "has_py2tosc pc" "path_exists (files st) (DATA repo @ [''m04.wav''])"
  shows "\<exists>r t. surface_main lib rd np loudness net find_control pc env mic repo False False backend st = Some (r, t)
    \<and> (r = Inr () \<longrightarrow> (\<exists>data. read_wav (files t) (OUT repo @ [''13_osc_surface.wav'']) = Inr (data, 2, 48000)
         \<and> length data = 2 * 672000))"
proof (cases "demo_layout (path_str (DATA repo @ [''m04.wav'']))")
  case (Inl e)
  then show ?thesis
    using assms(5,6) by (simp add: surface_main_def Let_def)
next
  case (Inr document)
  then have safe: "wire_safe (find_control document)"
    using assms(4) by blast
  let ?start = "ebind (new_norns st (opens_device pc) surface_SR DEFAULT_VOICES (2 ^ 20) ''playback'' ''upstream'')
    (new_osc (built_native pc) (has_pyosc pc) backend ''127.0.0.1'' (free_port pc))"
  let ?session = "surface_session lib rd np loudness net (find_control document) pc backend st"
  show ?thesis
  proof (cases ?start)
    case (Inl e)
    then have "?session = Some (Inl e)"
      by (simp add: surface_session_def)
    then show ?thesis
      using assms(5,6) Inr by (simp add: surface_main_def Let_def)
  next
    case (Inr s)
    from session_ends [OF assms(1,2) safe assms(3) this] obtain r and l :: link where
      l: "?session = Some (Inr (r, osc_shutdown (server l)))"
        "case r of Inl z \<Rightarrow> stopped_by (find_control document) (performance lib loudness) z
         | Inr outs \<Rightarrow> list_all2 frames_are [24000, 144000, 144000, 144000, 72000, 72000, 72000] outs"
      by blast
    let ?st = "store.truncate (osc_shutdown (server l))"
    show ?thesis
    proof (cases r)
      case (Inl e)
      then show ?thesis
        using l(1) assms(5,6) \<open>demo_layout _ = _\<close> by (simp add: surface_main_def Let_def)
    next
      case (Inr outs)
      obtain q u where q: "surface_finish lib np repo (opens_device pc) mic False outs ?st = (q, u)"
        by fastforce
      have "surface_main lib rd np loudness net find_control pc env mic repo False False backend st
          = Some (case q of Inl e \<Rightarrow> Inl (Raised e) | Inr _ \<Rightarrow> Inr (), u)"
        using l(1) assms(5,6) \<open>demo_layout _ = _\<close> Inr q by (cases q) (simp_all add: surface_main_def Let_def)
      moreover have "list_all2 frames_are [24000, 144000, 144000, 144000, 72000, 72000, 72000] outs"
        using l(2) Inr by simp
      then have "\<exists>data. read_wav (files u) (OUT repo @ [''13_osc_surface.wav'']) = Inr (data, 2, 48000)
          \<and> length data = 2 * 672000" if "q = Inr ()"
        using finish_writes [OF assms(2) _ _ _ _ q [unfolded that]] by fastforce
      ultimately show ?thesis by (cases q) auto
    qed
  qed
qed

text \<open>\<open>--serve\<close> ends on the first quit message or interrupt, with or without an audio device.\<close>

theorem surface_serve_quits:
  assumes "lib_ok lib" "mem st = (\<lambda>_. [])"
    and "resolve_backend (built_native pc) (has_pyosc pc) backend = Inr be" "free_port pc = Some port"
    and "env k = Interrupt \<or> quit_message (env k)" "\<forall>i < k. env i \<noteq> Shutdown"
  shows "\<exists>found t. surface_serve lib pc backend env st = Some (Inr (found, t)) \<and> found \<noteq> []
    \<and> \<not> running t \<and> \<not> serving t \<and> \<not> sock_open t \<and> \<not> poll_on t"
proof -
  obtain h where h: "new_norns st (opens_device pc) surface_SR DEFAULT_VOICES DEFAULT_BUFFER_FRAMES ''duplex'' ''upstream'' = Inr h"
    using new_norns_ok [OF assms(2), of DEFAULT_VOICES "''duplex''" "''upstream''" "opens_device pc" surface_SR]
    by (auto simp: DEFAULT_VOICES_def)
  have w: "host_wf h" "buffers_ok h" "\<not> running h" "device_ok h = opens_device pc"
    using new_norns_wf [OF h assms(2)] by simp_all
  obtain s where s: "new_osc (built_native pc) (has_pyosc pc) backend ''0.0.0.0'' (free_port pc) h = Inr s"
    using assms(3,4) by (simp add: new_osc_def)
  have i: "osc_inv s" "sock_open s" "\<not> running s"
    using new_osc_inv [OF s w(1,2)] new_osc_ok [OF s] w(3) by simp_all
  obtain r s1 where s1: "norns_start s = (r, s1)" "r = Inr () \<or> r = Inl RuntimeError"
    "norns.more s1 = norns.more s" "osc_inv s1"
  proof (cases "device_ok s")
    case True
    then show ?thesis using start_engine [OF True i(1)] that by blast
  next
    case False
    then have "norns_start s = (Inl RuntimeError, s)"
      using i(3) by (simp add: norns_start_def engine_start_def core_start_def)
    then show ?thesis using that i(1) by blast
  qed
  have "up (osc_start s1)" "osc_inv (osc_start s1)"
    using i(2) s1(4) osc_more [OF s1(3)]
    by (auto simp: up_def osc_start_def norns.defs intro!: osc_inv_fields [OF s1(4)])
  then obtain b s2 where s2: "wait_for_quit lib env 0 (osc_start s1) = Some (b, s2)" "osc_inv s2"
    using wait_returns [of lib "osc_start s1" 0 k env] assms(1,5,6) by auto
  have d: "osc_inv (osc_shutdown s2)"
    using osc_inv_event [OF assms(1) s2(2), of Shutdown] by simp
  obtain s3 where s3: "norns_stop (osc_shutdown s2) = (Inr (), s3)" "\<not> running s3"
      "norns.more s3 = norns.more (osc_shutdown s2)" "osc_inv s3"
    by (rule stop_engine [OF d])
  have "surface_serve lib pc backend env st = Some (Inr (local_addresses (route_source pc), s3))"
    using h s s1(1,2) s2(1) s3(1) by (auto simp: surface_serve_def)
  moreover have "local_addresses (route_source pc) \<noteq> []"
    by (simp add: local_addresses_def Let_def)
  ultimately show ?thesis
    using s3(2) shutdown_down [of s2] osc_more [OF s3(3)] by auto
qed

end
