(* ===== verification/Norns_Switch.thy ===== *)
theory Norns_Switch
  imports Norns_Live
begin

text \<open>
  Switching the buffer of a voice, down to the DSP object. Only the control thread hands buffers
  over: what the OSC thread queues never is one, and a stopped engine has nothing queued
  (\<open>swaps_ctl\<close>, an invariant of every run of the host). So once the queues are drained, which is how
  the next block begins, the DSP object points at the array of the buffer that was assigned last.
\<close>

section \<open>Only the control queue carries buffers\<close>

fun is_swap :: "dsp_ev \<Rightarrow> bool" where
  "is_swap (DBuffer a n) = True"
| "is_swap e = False"

definition swaps_ctl :: "'z engine_scheme \<Rightarrow> bool" where
  "swaps_ctl s \<longleftrightarrow> queues_wf s \<and> (\<forall>c \<in> set (queued (oscq s)). \<not> is_swap (fst (snd c)))"

lemma swaps_cong:
  assumes "cmdq t = cmdq s" "oscq t = oscq s" "running t = running s"
  shows "swaps_ctl t = swaps_ctl s"
  using assms by (simp add: swaps_ctl_def queues_wf_def)

lemma swaps_updates [simp]:
  "swaps_ctl (upd_voice i f s) = swaps_ctl s" "swaps_ctl (run_cmd c s) = swaps_ctl s"
  "swaps_ctl (put_array a xs s) = swaps_ctl s" "swaps_ctl (s\<lparr>fbk := m\<rparr>) = swaps_ctl s"
  "swaps_ctl (s\<lparr>cur_out := p\<rparr>) = swaps_ctl s" "swaps_ctl (s\<lparr>prev_out := q\<rparr>) = swaps_ctl s"
  "swaps_ctl (s\<lparr>mem := M, brk := b\<rparr>) = swaps_ctl s" "swaps_ctl (s\<lparr>mem := M, files := F\<rparr>) = swaps_ctl s"
  by (simp_all add: swaps_ctl_def queues_wf_def)

lemma swaps_fields [simp]:
  "swaps_ctl (s\<lparr>bufs := x\<rparr>) = swaps_ctl s" "swaps_ctl (s\<lparr>assigned := y\<rparr>) = swaps_ctl s"
  by (simp_all add: swaps_ctl_def queues_wf_def)

lemma swaps_rings: "swaps_ctl s \<Longrightarrow> ring_wf (cmdq s)" "swaps_ctl s \<Longrightarrow> ring_wf (oscq s)"
  by (simp_all add: swaps_ctl_def queues_wf_def)

lemma swaps_queue:
  assumes "swaps_ctl s" "running s" "q = Ctl \<or> \<not> is_swap (fst (snd c))"
  shows "swaps_ctl (snd (queue_apply q c s))"
proof -
  have wf: "ring_wf (cmdq s)" "ring_wf (oscq s)"
    using assms(1) by (simp_all add: swaps_ctl_def queues_wf_def)
  show ?thesis
  proof (cases q)
    case Ctl
    show ?thesis
      using assms by (cases rule: ring.put_cases [OF wf(1), of c])
        (simp_all add: Ctl queue_apply_def swaps_ctl_def queues_wf_def)
  next
    case Osc
    show ?thesis
      using assms by (cases rule: ring.put_cases [OF wf(2), of c])
        (auto simp: Osc queue_apply_def swaps_ctl_def queues_wf_def)
  qed
qed

lemma swaps_apply:
  assumes "swaps_ctl s" "\<not> is_swap e"
  shows "swaps_ctl (snd (dsp_apply q i e fl s))"
  using assms swaps_queue [of s q "(i, e, fl)"] by (simp add: dsp_apply_def)

lemma swaps_posts:
  assumes "swaps_ctl s"
  shows "\<not> is_swap e \<Longrightarrow> swaps_ctl (flag_apply q i e s)" "swaps_ctl (post_float q i a x s)" "swaps_ctl (post_bool q i b y s)"
proof -
  have f: "swaps_ctl (flag_apply q i e t)" if "swaps_ctl t" "\<not> is_swap e" for e and t :: "'z engine_scheme"
    using that swaps_apply [of "upd_voice i (\<lambda>v. v\<lparr>flags_pending := flags_pending v + 1\<rparr>) t" e q i True]
    by (simp add: flag_apply_def Let_def case_prod_beta)
  show "\<not> is_swap e \<Longrightarrow> swaps_ctl (flag_apply q i e s)"
    using assms by (rule f)
  show "swaps_ctl (post_float q i a x s)" "swaps_ctl (post_bool q i b y s)"
    using assms by (simp_all add: post_float_def post_bool_def Let_def f swaps_apply)
qed

lemma swaps_setters [keeps_intro]:
  "keeps swaps_ctl (set_float i a x)" "keeps swaps_ctl (set_bool i b y)" "keeps swaps_ctl (set_mix i m x)"
  "keeps swaps_ctl (cut_to i x)" "keeps swaps_ctl (voice_stop i)" "keeps swaps_ctl (voice_reset i)"
  unfolding set_float_def set_bool_def set_mix_def cut_to_def voice_stop_def voice_reset_def
  by (auto intro!: keeps_modify simp: swaps_posts swaps_apply)

lemma swaps_set_attr [keeps_intro]: "keeps swaps_ctl (set_attr i name x)"
  unfolding set_attr_def
  by (auto split: option.split attr.split pyarg.split intro!: keeps_intro)

lemma swaps_set_buffer [keeps_intro]: "keeps swaps_ctl (set_buffer i a)"
  by (rule keepsI) (auto simp: set_buffer_def Let_def case_prod_beta swaps_queue)

lemma swaps_feedback [keeps_intro]: "keeps swaps_ctl (feedback src dst (Some x))"
proof -
  have "keeps swaps_ctl (set_feedback src dst x)"
    by (auto simp: set_feedback_def keeps_def split: sum.split)
  then show ?thesis
    by (auto simp: feedback_def intro!: keeps_intro)
qed

lemma swaps_reads [keeps_intro]: "keeps swaps_ctl (get_voice i)" "keeps swaps_ctl (voice_at i)"
  by (simp_all add: get_voice_def voice_at_def Let_def keeps_def)

lemma swaps_buffer [keeps_intro]: "keeps swaps_ctl (buffer i b)"
  unfolding buffer_def
  by (auto intro!: keeps_intro split: option.split)

lemma swaps_buf_exec [keeps_intro]: "keeps swaps_ctl (buf_exec op)"
proof (rule keepsI)
  fix s :: "'a norns_scheme"
  assume "swaps_ctl s"
  moreover obtain M F where "snd (buf_exec op s) = s\<lparr>mem := M, files := F\<rparr>"
    using keepsD [OF buf_exec_in_place in_place_refl, of s op] by (auto elim: in_placeE)
  ultimately show "swaps_ctl (snd (buf_exec op s))"
    by simp
qed

section \<open>The audio side\<close>

lemma swaps_drain:
  assumes "ring_wf (cmdq s)" "ring_wf (oscq s)"
  shows "swaps_ctl (drain s)"
  using drain_settles [OF assms] by (simp add: swaps_ctl_def queues_wf_def)

lemma swaps_new_array [keeps_intro]: "keeps swaps_ctl (new_array xs)" "keeps swaps_ctl (new_zeros n)"
proof -
  have "keeps swaps_ctl (new_array xs)" for xs
    by (simp add: keeps_def new_array_def)
  then show "keeps swaps_ctl (new_array xs)" "keeps swaps_ctl (new_zeros n)"
    by (auto simp: new_zeros_def intro!: keeps_intro)
qed

lemma swaps_run_voice: "swaps_ctl s \<Longrightarrow> swaps_ctl (snd (run_voice lib i vin s))"
  by (simp add: run_voice_def Let_def case_prod_beta split: option.split)

lemma swaps_mix: "swaps_ctl s \<Longrightarrow> swaps_ctl (fold (mix_voice lib inp out n) ds s)"
  by (induction ds arbitrary: s) (simp_all add: mix_voice_def Let_def case_prod_beta swaps_run_voice)

lemma swaps_core: "swaps_ctl s \<Longrightarrow> swaps_ctl (process_core lib inp out n s)"
  by (simp add: process_core_def Let_def swaps_mix)

lemma swaps_loop: "swaps_ctl s \<Longrightarrow> swaps_ctl (block_loop lib bs inp out d n s)"
proof (induction lib bs inp out d n s rule: block_loop.induct)
  case (1 lib bs inp out d n s)
  then show ?case
    by (subst block_loop.simps) (simp add: Let_def swaps_core)
qed

lemma swaps_callback: "swaps_ctl s \<Longrightarrow> swaps_ctl (callback lib ext s)"
  unfolding callback_def Let_def case_prod_beta
  by (intro swaps_loop keepsD [OF swaps_new_array(1)] swaps_drain) (simp_all add: swaps_ctl_def queues_wf_def)

lemma swaps_start_stop [keeps_intro]: "keeps swaps_ctl norns_start" "keeps swaps_ctl norns_stop"
proof -
  show "keeps swaps_ctl norns_start"
    by (rule keepsI) (auto simp: norns_start_def engine_start_def core_start_def swaps_ctl_def queues_wf_def)
  show "keeps swaps_ctl norns_stop"
    by (rule keepsI) (simp add: norns_stop_def engine_stop_def core_stop_def swaps_drain swaps_rings)
qed

lemma swaps_render [keeps_intro]: "keeps swaps_ctl (norns_render lib inp out secs)"
proof -
  have "keeps swaps_ctl (core_render lib a d)" for a d
    by (rule keepsI) (simp add: core_render_def Let_def swaps_loop)
  then show ?thesis
    unfolding norns_render_def render_def by (intro keeps_intro) (auto intro!: keeps_intro)
qed

section \<open>Every run\<close>

lemma swaps_host_calls [keeps_intro]:
  "keeps swaps_ctl (set_position i x)" "keeps swaps_ctl (voice_sync lib i j x)"
  "keeps swaps_ctl (level_cut_cut i j x)" "keeps swaps_ctl reset_all"
  unfolding set_position_def voice_sync_def sync_def level_cut_cut_def reset_all_def
  by (intro keeps_intro)+

lemma swaps_set_param [keeps_intro]: "keeps swaps_ctl (set_param name i x)"
  unfolding set_param_def float_setter_def bool_setter_def
  by (auto split: option.split intro!: keeps_intro)

lemma swaps_exec: "swaps_ctl s \<Longrightarrow> swaps_ctl (host_exec lib op s)"
  by (cases op) (simp_all add: keepsD keeps_intro)

lemma swaps_reach:
  assumes "host_reach lib s"
  shows "swaps_ctl s"
  using assms
proof (induction rule: host_reach.induct)
  case (init st dev sr nv bf mode quirks s)
  then show ?case
    using new_norns_wf [OF init] by (simp add: swaps_ctl_def queues_wf_def)
next
  case (step s t)
  from step(2) show ?case
    using step.IH by (cases rule: host_stepE) (auto intro: swaps_exec swaps_posts swaps_callback)
qed

section \<open>The buffer the DSP reads\<close>

text \<open>The array and length the DSP object of a voice points at when the next block begins.\<close>

definition next_buffer :: "nat \<Rightarrow> 'z engine_scheme \<Rightarrow> (aref \<times> nat) option" where
  "next_buffer i s = dsp_buffer (dsp (voices (drain s) ! i))"

lemma no_swap_buffer: "\<not> is_swap e \<Longrightarrow> dsp_buffer (e # h) = dsp_buffer h"
  by (cases e) simp_all

lemma fold_no_swap:
  assumes "\<forall>c \<in> set cs. \<not> is_swap (fst (snd c))" "i < length vs"
  shows "dsp_buffer (dsp (fold vrun cs vs ! i)) = dsp_buffer (dsp (vs ! i))"
  using assms
proof (induction cs arbitrary: vs)
  case (Cons c cs)
  obtain j e fl where c: "c = (j, e, fl)" by (cases c rule: prod_cases3)
  then show ?case
    using Cons.IH [of "vrun c vs"] Cons.prems by (simp add: vrun_vupd nth_vupd apply_ev_def no_swap_buffer)
qed simp

lemma next_buffer_settled:
  assumes "swaps_ctl s"
  shows "next_buffer i s = dsp_buffer (dsp (settled s ! i))"
  using assms drain_settles [of s] by (simp add: next_buffer_def swaps_ctl_def queues_wf_def)

text \<open>A command pushed onto the control queue runs before everything in the OSC queue.\<close>

lemma settled_pushed:
  assumes "swaps_ctl s" "push (i, DBuffer a n, False) (cmdq s) = Some r" "i < length (voices s)"
  shows "next_buffer i (s\<lparr>cmdq := r\<rparr>) = Some (a, n)"
proof -
  have wf: "ring_wf (cmdq s)" "ring_wf (oscq s)" and o: "\<forall>c \<in> set (queued (oscq s)). \<not> is_swap (fst (snd c))"
    using assms(1) by (simp_all add: swaps_ctl_def queues_wf_def)
  have r: "queued r = queued (cmdq s) @ [(i, DBuffer a n, False)]" "ring_wf r"
    using ring.put_cases [OF wf(1), of "(i, DBuffer a n, False)"] assms(2) by auto
  have "voices (drain (s\<lparr>cmdq := r\<rparr>)) = settled (s\<lparr>cmdq := r\<rparr>)"
    using drain_settles [of "s\<lparr>cmdq := r\<rparr>"] r(2) wf(2) by simp
  moreover have "settled (s\<lparr>cmdq := r\<rparr>) =
      fold vrun (queued (oscq s)) (vrun (i, DBuffer a n, False) (fold vrun (queued (cmdq s)) (voices s)))"
    by (simp add: settled_def r(1))
  ultimately show ?thesis
    using fold_no_swap [OF o] assms(3) by (simp add: next_buffer_def vrun_vupd nth_vupd apply_ev_def)
qed

text \<open>Updates that the DSP calls do not see.\<close>

lemma next_buffer_upd:
  assumes "swaps_ctl s" "\<And>e fl v. f (apply_ev e fl v) = apply_ev e fl (f v)" "\<And>v. dsp (f v) = dsp v" "i < length (voices s)"
  shows "next_buffer i (upd_voice j f s) = next_buffer i s"
  using assms next_buffer_settled [of s i] next_buffer_settled [of "upd_voice j f s" i]
  by (simp add: settled_upd_voice nth_vupd)

lemma set_buffer_next:
  assumes "swaps_ctl s" "i < length (voices s)" "set_buffer i a s = (r, t)"
  shows "next_buffer i t = (if r = Inr () then Some (a, length (mem s a)) else next_buffer i s)"
proof -
  let ?n = "length (mem s a)" and ?c = "(i, DBuffer a (length (mem s a)), False)"
  let ?full = "upd_voice i (\<lambda>v. v\<lparr>dropped := dropped v + 1\<rparr>) s"
  consider (bad) "\<not> pow2_length ?n \<or> running s \<and> ?n \<noteq> vframes (voices s ! i)" "t = s" "r \<noteq> Inr ()"
    | (stopped) "\<not> running s" "r = Inr ()" "t = upd_voice i (\<lambda>v. v\<lparr>dsp := DBuffer a ?n # dsp v, vbuf := Some a, vframes := ?n\<rparr>) s"
    | (pushed) q where "push ?c (cmdq s) = Some q" "r = Inr ()" "t = upd_voice i (\<lambda>v. v\<lparr>vbuf := Some a\<rparr>) (s\<lparr>cmdq := q\<rparr>)" "running s"
    | (full) "r \<noteq> Inr ()" "t = ?full"
  proof (cases "pow2_length ?n \<and> running s \<and> ?n = vframes (voices s ! i)")
    case True
    then have "set_buffer i a s = (let (ok, s1) = queue_apply Ctl ?c s
        in if ok then (Inr (), upd_voice i (\<lambda>v. v\<lparr>vbuf := Some a\<rparr>) s1) else (Inl RuntimeError, s1))"
      by (auto simp: set_buffer_def Let_def)
    then show ?thesis
      using assms(3) pushed full True by (cases "push ?c (cmdq s)") (simp_all add: queue_apply_def)
  next
    case False
    show ?thesis
    proof (cases "pow2_length ?n \<and> \<not> running s")
      case True
      then show ?thesis
        using assms(3) by (intro stopped) (simp_all add: set_buffer_def Let_def)
    next
      case rest: False
      have "\<exists>e. set_buffer i a s = (Inl e, s)"
        using False rest by (auto simp: set_buffer_def Let_def)
      then show ?thesis
        using assms(3) False rest by (intro bad) auto
    qed
  qed
  then show ?thesis
  proof cases
    case stopped
    then have "swaps_ctl t" "queued (cmdq s) = []" "queued (oscq s) = []"
      using assms(1) by (simp_all add: swaps_ctl_def queues_wf_def)
    then show ?thesis
      using stopped next_buffer_settled [of t i] assms(2) by (simp add: settled_def nth_vupd)
  next
    case pushed
    have "swaps_ctl (s\<lparr>cmdq := q\<rparr>)"
      using swaps_queue [OF assms(1) pushed(4), of Ctl ?c] pushed(1) by (simp add: queue_apply_def)
    then have "next_buffer i t = next_buffer i (s\<lparr>cmdq := q\<rparr>)"
      unfolding pushed(3) using assms(2) by (intro next_buffer_upd) (simp_all add: apply_ev_def)
    then show ?thesis
      using settled_pushed [OF assms(1) pushed(1) assms(2)] pushed(2) by simp
  next
    case full
    have "next_buffer i ?full = next_buffer i s"
      using assms(1,2) by (intro next_buffer_upd) (simp_all add: apply_ev_def)
    then show ?thesis
      using full by simp
  qed simp
qed

lemma next_buffer_assigned [simp]: "next_buffer i (s\<lparr>assigned := y\<rparr>) = next_buffer i s"
  by (simp add: next_buffer_def drain_def drain_ctl_def drain_osc_def case_prod_beta)

text \<open>C24. Switching a voice between the two global buffers never fails on their sizes, and the DSP
  follows. In every state the host can reach, whatever was called before and whether or not the
  device runs, assigning buffer 1 or 2 to an existing voice succeeds: the voice and the host's
  table then say so, and when the next block begins, with the queues drained, the voice's DSP
  object points at that buffer with its length. Or the command queue of the running engine is
  full; then neither the voice, nor the table, nor what the DSP object will point at changed.\<close>

theorem host_buffer_switch:
  assumes "lib_ok lib" "host_reach lib s" "b \<in> {1, 2}" "1 \<le> i" "i \<le> nvoices s"
  shows "\<exists>t. (buffer i b s = (Inr (), t) \<and> vbuf (voices t ! nat (i - 1)) = bufs s b \<and> assigned t i = Some b
        \<and> (\<exists>a. bufs s b = Some a \<and> next_buffer (nat (i - 1)) t = Some (a, length (mem s a))))
    \<or> (running s \<and> used (cmdq s) = CAP - 1 \<and> buffer i b s = (Inl RuntimeError, t)
       \<and> vbuf (voices t ! nat (i - 1)) = vbuf (voices s ! nat (i - 1)) \<and> assigned t = assigned s
       \<and> next_buffer (nat (i - 1)) t = next_buffer (nat (i - 1)) s)"
proof -
  obtain a1 a2 n where w: "host_table a1 a2 n s" and ok: "ring_wf (cmdq s)"
    using host_reach_inv [OF assms(2,1)] by (auto simp: host_wf_def buffers_ok_def)
  have nv: "nvoices s = int (length (voices s))"
    using w by (simp add: host_table_def)
  note sw = swaps_reach [OF assms(2)]
  from nv show ?thesis
  proof (cases rule: buffer_cases [of s b i])
    case no_buffer
    then show ?thesis using w assms(3) by (auto simp: host_table_def)
  next
    case no_voice
    then show ?thesis using assms(4,5) by auto
  next
    case (refused a k e t)
    have a: "length (mem s a) = n" "pow2_length n" "vframes (voices s ! k) = n"
      using w refused(1,2) by (auto simp: host_table_def holds_def split: if_splits)
    then have r: "running s" "e = RuntimeError" "\<not> fst (queue_apply Ctl (k, DBuffer a n, False) s)"
      using refused(4) by (auto simp: set_buffer_def Let_def split: if_splits prod.splits)
    then have "used (cmdq s) = CAP - 1"
      using ring.put_cases [OF ok, of "(k, DBuffer a n, False)"]
      by (auto simp: queue_apply_def split: option.splits)
    moreover have "vbuf (voices t ! k) = vbuf (voices s ! k)" "assigned t = assigned s"
      using set_buffer_result [OF refused(4,2)] same_arrays_host by (auto simp: holds_def)
    moreover have "next_buffer k t = next_buffer k s"
      using set_buffer_next [OF sw refused(2,4)] by simp
    ultimately show ?thesis
      using r refused(3,5) by auto
  next
    case (assigned a k t)
    then show ?thesis
      using set_buffer_result [OF assigned(4,2)] set_buffer_next [OF sw assigned(2,4)]
      by (auto simp: holds_def)
  qed
qed

theorem host_buffer_switch_witness:
  "\<exists>s t a. host_reach thru_lib s \<and> buffer 2 2 s = (Inr (), t) \<and> assigned t 2 = Some 2
     \<and> bufs s 2 = Some a \<and> next_buffer 1 t = Some (a, length (mem s a))"
proof -
  obtain s where s: "new_norns empty_store True (Fin 48000) 2 4 ''duplex'' ''upstream'' = Inr s"
    "nvoices s = 2" "\<not> running s"
    by (rule fresh_host)
  then have r: "host_reach thru_lib s"
    by (intro host_reach.init [OF s(1)]) (simp add: empty_store_def)
  then show ?thesis
    using host_buffer_switch [of thru_lib s 2 2] s(2,3) by auto
qed

end
