(* ===== verification/Live_Getters.thy ===== *)
theory Live_Getters
  imports Engine_Host
begin

text \<open>
  What the read-backs of a voice are worth while the engine lives: voice operations, start and stop
  of the device, and audio callbacks in any order (\<open>live_ev\<close>), from a new engine on. The reference is
  the DSP object as it will be when the queues are drained, which is what the next block sees.
\<close>

section \<open>A run of the engine\<close>

datatype live_ev = GCtl ctl | GStart | GStop | GBlock samples

text \<open>The device calls back only while the engine runs.\<close>

fun live_exec :: "dsp_lib \<Rightarrow> live_ev \<Rightarrow> engine \<Rightarrow> engine" where
  "live_exec lib (GCtl op) s = ctl_exec op s"
| "live_exec lib GStart s = snd (engine_start s)"
| "live_exec lib GStop s = snd (engine_stop s)"
| "live_exec lib (GBlock ext) s = (if running s then callback lib ext s else s)"

text \<open>No operation of the run finds the command queue full.\<close>

definition fits :: "live_ev \<Rightarrow> engine \<Rightarrow> bool" where
  "fits e s = (case e of GCtl op \<Rightarrow> has_room s | _ \<Rightarrow> True)"

fun none_dropped :: "dsp_lib \<Rightarrow> live_ev list \<Rightarrow> engine \<Rightarrow> bool" where
  "none_dropped lib [] s = True"
| "none_dropped lib (e # es) s =
     (fits e s \<and> none_dropped lib es (live_exec lib e s))"

text \<open>A block of the run ends a record-once pass of voice \<open>i\<close>.\<close>

definition flags_of :: "dsp_lib \<Rightarrow> nat \<Rightarrow> engine \<Rightarrow> bool \<times> bool" where
  "flags_of lib i s = rec_flags lib (dsp (voices (drain s) ! i))"

fun pass_ends :: "dsp_lib \<Rightarrow> nat \<Rightarrow> live_ev list \<Rightarrow> engine \<Rightarrow> bool" where
  "pass_ends lib i [] s = False"
| "pass_ends lib i (e # es) s =
     ((case e of GBlock ext \<Rightarrow> flags_of lib i (live_exec lib e s) \<noteq> flags_of lib i s | _ \<Rightarrow> False)
      \<or> pass_ends lib i es (live_exec lib e s))"

section \<open>What a block does to a voice\<close>

text \<open>It processes, and touches nothing else of the voice.\<close>

fun is_process :: "dsp_ev \<Rightarrow> bool" where
  "is_process (DProcess b x) = True"
| "is_process e = False"

definition processed :: "voice \<Rightarrow> voice \<Rightarrow> bool" where
  "processed v w \<longleftrightarrow> (\<exists>ps. list_all is_process ps \<and> w = v\<lparr>dsp := ps @ dsp v\<rparr>)"

lemma processed_refl: "processed v v"
  unfolding processed_def by (intro exI [of _ "[]"]) simp

lemma processed_trans: "processed u v \<Longrightarrow> processed v w \<Longrightarrow> processed u w"
  unfolding processed_def by (elim exE) (rule_tac x = "psa @ ps" in exI, simp)

lemma process_values:
  assumes "list_all is_process ps"
  shows "fvalue fx (ps @ h) a = fvalue fx h a" "svalue (ps @ h) c = svalue h c" "bvalue (ps @ h) b = bvalue h b"
proof -
  have "fvalue fx (ps @ h) a = fvalue fx h a \<and> svalue (ps @ h) c = svalue h c \<and> bvalue (ps @ h) b = bvalue h b"
    using assms
  proof (induction ps)
    case (Cons e ps)
    then show ?case by (cases e) simp_all
  qed simp
  then show "fvalue fx (ps @ h) a = fvalue fx h a" "svalue (ps @ h) c = svalue h c" "bvalue (ps @ h) b = bvalue h b"
    by simp_all
qed

definition audio_frame :: "'z engine_scheme \<Rightarrow> 'z engine_scheme \<Rightarrow> bool" where
  "audio_frame s t \<longleftrightarrow> list_all2 processed (voices s) (voices t) \<and> cmdq t = cmdq s \<and> oscq t = oscq s
     \<and> running t = running s"

lemma audio_refl: "voices t = voices s \<Longrightarrow> cmdq t = cmdq s \<Longrightarrow> oscq t = oscq s \<Longrightarrow> running t = running s \<Longrightarrow> audio_frame s t"
  by (simp add: audio_frame_def list_all2_refl processed_refl)

lemma audio_trans: "audio_frame s t \<Longrightarrow> audio_frame t u \<Longrightarrow> audio_frame s u"
  unfolding audio_frame_def by (elim conjE, intro conjI) (rule list_all2_trans [OF processed_trans], assumption+, simp_all)

lemma audio_run_voice: "audio_frame s (snd (run_voice lib i vin s))"
proof -
  let ?f = "\<lambda>v. v\<lparr>dsp := DProcess (buffer_content s i) vin # dsp v\<rparr>"
  have "processed v (?f v)" for v
    unfolding processed_def by (intro exI [of _ "[DProcess (buffer_content s i) vin]"]) simp
  then have p: "list_all2 processed vs (vupd i ?f vs)" for vs
    by (simp add: list_all2_conv_all_nth nth_vupd processed_refl)
  let ?s1 = "case dsp_buffer (dsp (voices s ! i)) of None \<Rightarrow> s
    | Some (a, n) \<Rightarrow> put_array a (snd (lib_process lib (dsp (voices s ! i)) (buffer_content s i) vin)) s"
  have "voices ?s1 = voices s \<and> cmdq ?s1 = cmdq s \<and> oscq ?s1 = oscq s \<and> running ?s1 = running s"
    by (cases "dsp_buffer (dsp (voices s ! i))") (simp_all add: case_prod_beta put_array_def)
  moreover have "snd (run_voice lib i vin s) = upd_voice i ?f ?s1"
    by (simp add: run_voice_def Let_def case_prod_beta)
  ultimately show ?thesis
    using p [of "voices s"] by (simp only: audio_frame_def upd_voice_simps simp_thms)
qed

lemma audio_mix_voice: "audio_frame s (mix_voice lib inp out n dst s)"
  by (rule audio_trans [OF audio_run_voice [of s lib dst "voice_input s (take n (drop (snd inp) (mem s (fst inp)))) dst"]])
    (rule audio_refl; simp add: mix_voice_def Let_def case_prod_beta put_array_def)

lemma audio_mix: "audio_frame s (fold (mix_voice lib inp out n) ds s)"
  by (induction ds arbitrary: s) (auto intro: audio_refl audio_trans [OF audio_mix_voice])

lemma audio_core: "audio_frame s (process_core lib inp out n s)"
proof -
  let ?s1 = "put_array (fst out) (for_upd (\<lambda>_ _. Fin 0) (snd out) (n * outch s) (mem s (fst out))) s"
  let ?s2 = "fold (mix_voice lib inp out n) [0..<length (voices s)] ?s1"
  have "audio_frame s ?s1"
    by (rule audio_refl) (simp_all add: put_array_def)
  moreover have "audio_frame ?s1 ?s2"
    by (rule audio_mix)
  moreover have "audio_frame ?s2 (process_core lib inp out n s)"
    by (rule audio_refl) (simp_all add: process_core_def Let_def)
  ultimately show ?thesis
    by (blast intro: audio_trans)
qed

lemma audio_loop: "audio_frame s (block_loop lib bs inp out d n s)"
proof (induction lib bs inp out d n s rule: block_loop.induct)
  case (1 lib bs inp out d n s)
  then show ?case
    by (subst block_loop.simps) (auto simp: Let_def intro: audio_refl audio_trans [OF audio_core])
qed

text \<open>The callback: the settled voices, processed, and empty queues.\<close>

lemma callback_voices:
  assumes "ring_wf (cmdq s)" "ring_wf (oscq s)"
  shows "list_all2 processed (settled s) (voices (callback lib ext s))"
    "queued (cmdq (callback lib ext s)) = []" "queued (oscq (callback lib ext s)) = []"
    "ring_wf (cmdq (callback lib ext s))" "ring_wf (oscq (callback lib ext s))"
    "running (callback lib ext s) = running s"
proof -
  have "audio_frame (drain s) (callback lib ext s)"
    unfolding callback_def Let_def case_prod_beta
    by (rule audio_trans [OF _ audio_loop], rule audio_refl) (simp_all add: new_array_def)
  then show "list_all2 processed (settled s) (voices (callback lib ext s))"
    "queued (cmdq (callback lib ext s)) = []" "queued (oscq (callback lib ext s)) = []"
    "ring_wf (cmdq (callback lib ext s))" "ring_wf (oscq (callback lib ext s))"
    "running (callback lib ext s) = running s"
    using drain_settles [OF assms] by (simp_all add: audio_frame_def)
qed

section \<open>The invariant of a run\<close>

text \<open>
  What the settled voices hold. \<open>coherent\<close> is about the values that \<open>reset\<close> restores on both sides;
  \<open>unreset\<close> is about the two it restores in the mirror only.
\<close>

definition synced :: "'z engine_scheme \<Rightarrow> bool" where
  "synced s \<longleftrightarrow> ctl_ready s \<and> cmds_ok s \<and> (\<forall>w \<in> set (settled s). flags_pending w = 0 \<and> coherent w)"

definition unreset :: "voice \<Rightarrow> bool" where
  "unreset w \<longleftrightarrow> bmir w Loop = bvalue (dsp w) Loop
     \<and> fmir w PreFilterFc = fvalue (fixed_quirks w) (dsp w) PreFilterFc
     \<and> fmir w RecOffset = fvalue (fixed_quirks w) (dsp w) RecOffset"

lemma ctl_voice_unreset:
  assumes "unreset w" "\<forall>i. op \<noteq> CReset i"
  shows "unreset (ctl_voice op w)"
proof (cases op)
  case (CBool i b x)
  then show ?thesis
    using assms by (cases b) (simp_all add: unreset_def apply_ev_def store_bool_def)
next
  case (CShape i a n)
  then show ?thesis
    using assms by (cases "fade_shape n") (simp_all add: unreset_def apply_ev_def store_shape_def)
qed (use assms in \<open>simp_all add: unreset_def apply_ev_def store_defs\<close>)

lemma processed_simps:
  assumes "processed v w"
  shows "fmir w = fmir v" "smir w = smir v" "bmir w = bmir v" "flags_pending w = flags_pending v"
    "fixed_quirks w = fixed_quirks v" "fvalue fx (dsp w) a = fvalue fx (dsp v) a" "svalue (dsp w) c = svalue (dsp v) c"
    "bvalue (dsp w) b = bvalue (dsp v) b"
  using assms by (auto simp: processed_def process_values)

lemma processed_coherent: "processed v w \<Longrightarrow> coherent v \<Longrightarrow> coherent w"
  by (simp add: coherent_def processed_simps)

lemma processed_unreset: "processed v w \<Longrightarrow> unreset v \<Longrightarrow> unreset w"
  by (simp add: unreset_def processed_simps)

text \<open>One step: the settled voices change by the operation's effect, by a block, or not at all.\<close>

lemma synced_rings: "synced s \<Longrightarrow> ring_wf (cmdq s)" "synced s \<Longrightarrow> ring_wf (oscq s)"
  by (simp_all add: synced_def ctl_ready_def queues_wf_def)

lemma settled_empty: "queued (cmdq s) = [] \<Longrightarrow> queued (oscq s) = [] \<Longrightarrow> settled s = voices s"
  by (simp add: settled_def)

lemma step_settled:
  assumes "synced s" "fits e s"
  shows "ctl_ready (live_exec lib e s) \<and> cmds_ok (live_exec lib e s)
    \<and> (case e of GCtl op \<Rightarrow> settled (live_exec lib e s) = vupd (ctl_target op) (ctl_voice op) (settled s)
       | GBlock ext \<Rightarrow> list_all2 processed (settled s) (settled (live_exec lib e s))
       | _ \<Rightarrow> settled (live_exec lib e s) = settled s)"
proof -
  have r: "ctl_ready s" "queues_wf s" "cmds_ok s" "queued (oscq s) = []"
    using assms(1) by (simp_all add: synced_def ctl_ready_def)
  show ?thesis
  proof (cases e)
    case (GCtl op)
    then show ?thesis
      using ctl_exec_sim [OF r(1), of op] assms(2) ctl_exec_cmds_ok [OF r(2,3), of op] by (simp add: fits_def)
  next
    case GStart
    then show ?thesis
      using r by (simp add: engine_start_def core_start_def ctl_ready_def queues_wf_def cmds_ok_def settled_def)
  next
    case GStop
    let ?t = "s\<lparr>running := False\<rparr>"
    have "settled ?t = settled s" "ring_wf (cmdq ?t)" "ring_wf (oscq ?t)"
      using r(2) by (simp_all add: settled_def queues_wf_def)
    then have "settled (drain ?t) = settled s" "ctl_ready (drain ?t)" "cmds_ok (drain ?t)"
      using drain_settles [of ?t] settled_empty [of "drain ?t"] by (simp_all add: ctl_ready_def queues_wf_def cmds_ok_def)
    then show ?thesis
      using r GStop by (simp add: engine_stop_def core_stop_def)
  next
    case (GBlock ext)
    note c = callback_voices [OF synced_rings [OF assms(1)], of lib ext]
    have "list_all2 processed (settled s) (settled s)"
      by (simp add: list_all2_refl processed_refl)
    then show ?thesis
      using r c settled_empty [OF c(2,3)] GBlock by (simp add: ctl_ready_def queues_wf_def cmds_ok_def)
  qed
qed

lemma step_synced:
  assumes "synced s" "fits e s"
  shows "synced (live_exec lib e s)"
proof -
  have w: "flags_pending w = 0 \<and> coherent w" if "w \<in> set (settled s)" for w
    using that assms(1) by (simp add: synced_def)
  have "flags_pending w = 0 \<and> coherent w" if wt: "w \<in> set (settled (live_exec lib e s))" for w
  proof (cases e)
    case (GCtl op)
    then have "w \<in> set (settled s) \<or> (\<exists>v \<in> set (settled s). w = ctl_voice op v)"
      using that step_settled [OF assms, of lib] set_vupd by auto
    then show ?thesis
      using w by (auto simp: ctl_voice_coherent ctl_voice_pending)
  next
    case (GBlock ext)
    then have p: "list_all2 processed (settled s) (settled (live_exec lib e s))"
      using step_settled [OF assms, of lib] by simp
    obtain k where k: "k < length (settled (live_exec lib e s))" "settled (live_exec lib e s) ! k = w"
      using wt unfolding in_set_conv_nth by blast
    then have "settled s ! k \<in> set (settled s)" "processed (settled s ! k) w"
      using list_all2_nthD2 [OF p k(1)] list_all2_lengthD [OF p] by (simp_all del: length_settled)
    then show ?thesis
      using w processed_coherent by (simp add: processed_simps)
  qed (use that w step_settled [OF assms, of lib] in auto)
  then show ?thesis
    using step_settled [OF assms, of lib] by (simp add: synced_def)
qed

text \<open>Voice \<open>i\<close> alone: its settled state after a step is the one before, processed, or operated on.\<close>

lemma step_voice:
  assumes "synced s" "fits e s" "i < length (voices s)"
  shows "i < length (voices (live_exec lib e s))
    \<and> (case e of GCtl op \<Rightarrow> settled (live_exec lib e s) ! i
           = (if ctl_target op = i then ctl_voice op (settled s ! i) else settled s ! i)
       | _ \<Rightarrow> processed (settled s ! i) (settled (live_exec lib e s) ! i))"
proof -
  note st = step_settled [OF assms(1,2), of lib]
  have "length (settled (live_exec lib e s)) = length (settled s)"
  proof (cases e)
    case (GCtl op)
    then have "settled (live_exec lib e s) = vupd (ctl_target op) (ctl_voice op) (settled s)"
      using st by simp
    then show ?thesis by (simp only: length_vupd)
  next
    case (GBlock ext)
    then have "list_all2 processed (settled s) (settled (live_exec lib e s))"
      using st by simp
    then show ?thesis by (simp only: list_all2_lengthD)
  next
    case GStart
    then have "settled (live_exec lib e s) = settled s"
      using st by simp
    then show ?thesis by (simp only:)
  next
    case GStop
    then have "settled (live_exec lib e s) = settled s"
      using st by simp
    then show ?thesis by (simp only:)
  qed
  then have l: "length (voices (live_exec lib e s)) = length (voices s)"
    by simp
  show ?thesis
  proof (cases e)
    case (GCtl op)
    then show ?thesis using st assms(3) l by (simp add: nth_vupd)
  next
    case (GBlock ext)
    then show ?thesis using st assms(3) l by (simp add: list_all2_conv_all_nth)
  qed (use st assms(3) l in \<open>simp_all add: processed_refl\<close>)
qed

lemma flags_of_settled: "synced s \<Longrightarrow> flags_of lib i s = rec_flags lib (dsp (settled s ! i))"
  using drain_settles [of s] synced_rings [of s] by (simp add: flags_of_def)

lemma step_flags:
  assumes "synced s" "fits e s" "i < length (voices s)" "flags_coherent lib (settled s ! i)"
    and "\<And>ext. e = GBlock ext \<Longrightarrow> flags_of lib i (live_exec lib e s) = flags_of lib i s"
  shows "flags_coherent lib (settled (live_exec lib e s) ! i)"
proof -
  note sv = step_voice [OF assms(1-3), of lib] and st = step_settled [OF assms(1,2), of lib]
  show ?thesis
  proof (cases e)
    case (GCtl op)
    then show ?thesis using sv assms(4) by (simp add: ctl_voice_flags)
  next
    case (GBlock ext)
    then have p: "processed (settled s ! i) (settled (live_exec lib e s) ! i)"
      using sv by simp
    have "rec_flags lib (dsp (settled (live_exec lib e s) ! i)) = rec_flags lib (dsp (settled s ! i))"
      using assms(5) [OF GBlock] flags_of_settled [OF assms(1)] flags_of_settled [OF step_synced [OF assms(1,2)]] by simp
    then show ?thesis
      using assms(4) processed_simps(3) [OF p] by (simp add: flags_coherent_def)
  qed (use st assms(4) in simp_all)
qed

lemma run_voice_holds:
  assumes "synced s" "none_dropped lib es s" "i < length (voices s)"
  shows "synced (fold (live_exec lib) es s) \<and> i < length (voices (fold (live_exec lib) es s))
    \<and> (unreset (settled s ! i) \<and> GCtl (CReset i) \<notin> set es \<longrightarrow> unreset (settled (fold (live_exec lib) es s) ! i))
    \<and> (flags_coherent lib (settled s ! i) \<and> \<not> pass_ends lib i es s \<longrightarrow>
         flags_coherent lib (settled (fold (live_exec lib) es s) ! i))"
  using assms
proof (induction es arbitrary: s)
  case (Cons e es)
  have f: "fits e s" "none_dropped lib es (live_exec lib e s)"
    using Cons.prems(2) by simp_all
  note sv = step_voice [OF Cons.prems(1) f(1) Cons.prems(3), of lib]
  have "unreset (settled (live_exec lib e s) ! i)" if "unreset (settled s ! i)" "e \<noteq> GCtl (CReset i)"
  proof (cases e)
    case (GCtl op)
    have "op \<noteq> CReset j" if "ctl_target op = i" for j
      using that \<open>e \<noteq> _\<close> GCtl by auto
    then show ?thesis
      using sv that(1) GCtl ctl_voice_unreset [of "settled s ! i" op] by simp
  qed (use sv that(1) processed_unreset [of "settled s ! i" "settled (live_exec lib e s) ! i"] in simp_all)
  moreover have "flags_coherent lib (settled (live_exec lib e s) ! i)"
    if "flags_coherent lib (settled s ! i)" "\<not> pass_ends lib i (e # es) s"
    using that by (intro step_flags [OF Cons.prems(1) f(1) Cons.prems(3)]) auto
  ultimately show ?case
    using Cons.IH [OF step_synced [OF Cons.prems(1) f(1)] f(2)] sv by auto
qed simp

section \<open>Read-backs\<close>

lemma new_engine_synced:
  assumes "new_engine st dev n sr mode bs ch outdev indev quirks = Inr s"
  shows "synced s" "length (voices s) = nat n" "i < nat n \<Longrightarrow> unreset (settled s ! i) \<and> flags_coherent lib (settled s ! i)"
proof -
  obtain v where v: "new_voice sr quirks = Inr v" and s: "voices s = replicate (nat n) (apply_ev (DSampleRate (to_f32 sr)) False v)"
      "cmdq s = empty_ring" "oscq s = empty_ring"
    using assms by (auto simp: new_engine_def ebind_eq_Inr Let_def split: if_splits)
  have w: "flags_pending v = 0 \<and> coherent v \<and> flags_coherent lib v" "unreset v"
    using new_voice_coherent [OF v] v by (auto simp: new_voice_def Let_def unreset_def split: if_splits)
  have st: "settled s = voices s"
    using s by (simp add: settled_empty)
  show "synced s"
    using s w unfolding synced_def st
    by (auto simp: ctl_ready_def queues_wf_def cmds_ok_def apply_ev_def coherent_def)
  show "length (voices s) = nat n"
    by (simp add: s)
  show "i < nat n \<Longrightarrow> unreset (settled s ! i) \<and> flags_coherent lib (settled s ! i)"
    using w unfolding st by (simp add: s apply_ev_def unreset_def flags_coherent_def rec_flags_other del: rec_flags.simps)
qed

text \<open>C11. Read-backs tell the truth while the engine lives. Take any run from a new engine of voice
  operations, device starts and stops and audio blocks that drops no command, and compare the
  getters of a voice with its DSP object as it will be when the queues are drained. The float
  parameters, the fade shapes and \<open>play\<close> always agree, but for three read-backs: \<open>loop\<close> and
  \<open>pre_filter_fc\<close>, which a reset restores in the mirrors only, agree if the voice was not reset in the
  run; \<open>rec_offset\<close>, whose default is -8 samples in the DSP object and -8/48000 seconds in the
  mirror, agrees if it was set in a run without a reset. \<open>rec\<close> and \<open>rec_once\<close> agree whenever no change
  of them is pending; while one is, they agree if no block of the run ended a record-once pass of the voice, which the mirrors do
  not see. (\<open>reset_leaves_loop_and_filter\<close> and \<open>finished_pass_misread\<close> show that the conditions are
  needed; with posts of the OSC thread in between, \<open>two_queues_reorder\<close> is what can happen.)\<close>

theorem getters_match_dsp:
  assumes "new_engine st dev n sr mode bs ch outdev indev quirks = Inr s" "none_dropped lib es s" "i < nat n"
  defines "t \<equiv> fold (live_exec lib) es s"
  defines "v \<equiv> voices t ! i" and "h \<equiv> dsp (voices (drain t) ! i)"
  shows "(\<forall>a. a \<noteq> PreFilterFc \<and> a \<noteq> RecOffset \<longrightarrow> fmir v a = fvalue (fixed_quirks v) h a)
    \<and> (\<forall>c. smir v c = svalue h c) \<and> get_bool lib v Play = bvalue h Play
    \<and> (GCtl (CReset i) \<notin> set es \<longrightarrow>
         get_bool lib v Loop = bvalue h Loop \<and> fmir v PreFilterFc = fvalue (fixed_quirks v) h PreFilterFc
         \<and> ((\<exists>x. GCtl (CFloat i RecOffset x) \<in> set es) \<longrightarrow> fmir v RecOffset = fvalue (fixed_quirks v) h RecOffset))
    \<and> (flags_pending v = 0 \<or> \<not> pass_ends lib i es s \<longrightarrow>
         (get_bool lib v Rec, get_bool lib v RecOnce) = rec_flags lib h)"
proof -
  note ne = new_engine_synced [OF assms(1)]
  have i: "i < length (voices s)"
    using ne(2) assms(3) by simp
  note r = run_voice_holds [OF ne(1) assms(2) i, folded t_def]
  let ?w = "settled t ! i"
  have t: "synced t" "i < length (voices t)"
    using r by blast+
  have h: "h = dsp ?w"
    using drain_settles [OF synced_rings [OF t(1)]] by (simp add: h_def)
  have q: "settled t = fold vrun (queued (cmdq t)) (voices t)" "\<forall>c \<in> set (queued (cmdq t)). cmd_ok c"
    using t(1) by (simp_all add: synced_def ctl_ready_def settled_def cmds_ok_def)
  note m = vrun_mirrors [OF t(2), of "queued (cmdq t)", folded q(1) v_def]
  have w: "flags_pending ?w = 0" "coherent ?w"
    using t by (simp_all add: synced_def)
  have "flags_pending ?w \<le> flags_pending v \<and> (flags_pending ?w = flags_pending v \<longrightarrow> rec_flags lib h = rec_flags lib (dsp v))"
    using vrun_pending [OF t(2) q(2), of lib] unfolding q(1) [symmetric] v_def h .
  then have p: "0 < flags_pending v \<or> flags_pending v = 0 \<and> rec_flags lib h = rec_flags lib (dsp v)"
    using w(1) by auto
  have "(get_bool lib v Rec, get_bool lib v RecOnce) = rec_flags lib h"
    if "flags_pending v = 0 \<or> \<not> pass_ends lib i es s"
  proof (cases "flags_pending v = 0")
    case True
    then show ?thesis using p by (simp add: get_bool_def)
  next
    case False
    then have "flags_coherent lib ?w"
      using that r ne(3) [OF assms(3), of lib] by blast
    then show ?thesis
      using False p m h by (simp add: flags_coherent_def get_bool_def)
  qed
  moreover have "get_bool lib v Loop = bvalue h Loop \<and> fmir v PreFilterFc = fvalue (fixed_quirks v) h PreFilterFc
      \<and> fmir v RecOffset = fvalue (fixed_quirks v) h RecOffset" if "GCtl (CReset i) \<notin> set es"
  proof -
    have "unreset ?w"
      using that r ne(3) [OF assms(3), of lib] by blast
    then show ?thesis
      using m h by (simp add: unreset_def get_bool_def)
  qed
  ultimately show ?thesis
    using w(2) m h by (simp add: coherent_def get_bool_def)
qed

text \<open>A run shorter than the command queue drops nothing.\<close>

lemma short_run_fits:
  assumes "synced s" "backlog s + length es \<le> CAP - 1"
  shows "none_dropped lib es s"
  using assms
proof (induction es arbitrary: s)
  case (Cons e es)
  have f: "fits e s"
    using Cons.prems(2) by (auto simp: fits_def has_room_def backlog_def split: live_ev.split)
  have r: "ctl_ready s" "queues_wf s" "ring_wf (cmdq s)" "ring_wf (oscq s)"
    using Cons.prems(1) synced_rings by (auto simp: synced_def ctl_ready_def)
  have "backlog (live_exec lib e s) \<le> Suc (backlog s)"
  proof (cases e)
    case (GCtl op)
    have "has_room s"
      using f GCtl by (simp add: fits_def)
    then have "backlog (ctl_exec op s) \<le> backlog s + (if running s then 1 else 0)"
      using ctl_exec_sim [OF r(1), of op] by blast
    then show ?thesis using GCtl by (simp split: if_splits)
  next
    case GStop
    then show ?thesis
      using drain_settles [of "s\<lparr>running := False\<rparr>"] r
      by (simp add: engine_stop_def core_stop_def backlog_def del: length_queued)
  next
    case (GBlock ext)
    then show ?thesis
      using callback_voices(2) [OF r(3,4), of lib ext] by (simp add: backlog_def del: length_queued)
  qed (simp add: engine_start_def core_start_def backlog_def)
  then have "backlog (live_exec lib e s) + length es \<le> CAP - 1"
    using Cons.prems(2) by simp
  then show ?case
    using Cons.IH [OF step_synced [OF Cons.prems(1) f]] f by simp
qed simp

lemma no_pass_ends:
  assumes "synced s" "none_dropped lib es s" "i < length (voices s)" "\<forall>h. \<not> lib_once_done lib h"
  shows "\<not> pass_ends lib i es s"
  using assms(1-3)
proof (induction es arbitrary: s)
  case (Cons e es)
  have f: "fits e s" "none_dropped lib es (live_exec lib e s)"
    using Cons.prems(2) by simp_all
  note sv = step_voice [OF Cons.prems(1) f(1) Cons.prems(3), of lib] and sy = step_synced [OF Cons.prems(1) f(1), of lib]
  have "rec_flags lib (ps @ h) = rec_flags lib h" if "list_all is_process ps" for ps h
    using that
  proof (induction ps)
    case (Cons e ps)
    then show ?case using assms(4) by (cases e) (simp_all add: case_prod_beta)
  qed simp
  then have p: "rec_flags lib (dsp w) = rec_flags lib (dsp u)" if "processed u w" for u w
    using that by (auto simp: processed_def)
  have "flags_of lib i (live_exec lib e s) = flags_of lib i s" if "e = GBlock ext" for ext
    using sv that unfolding flags_of_settled [OF Cons.prems(1)] flags_of_settled [OF sy] by (intro p) simp
  then show ?case
    using Cons.IH [OF sy f(2)] sv by (auto split: live_ev.split)
qed simp

text \<open>A live run with a block between two changes of the record flags.\<close>

theorem getters_match_dsp_witness:
  "\<exists>s. new_engine empty_store True 1 (Fin 48000) ''duplex'' 64 2 (- 1) (- 1) ''upstream'' = Inr s \<and>
     (let t = fold (live_exec thru_lib) [GCtl (CFloat 0 PreFilterFc (Fin 2)), GStart, GCtl (CBool 0 RecOnce True),
            GBlock [Fin 0], GCtl (CBool 0 Rec False)] s;
          v = voices t ! 0; h = dsp (voices (drain t) ! 0)
      in fmir v PreFilterFc = fvalue (fixed_quirks v) h PreFilterFc \<and> get_bool thru_lib v Loop = bvalue h Loop
         \<and> (get_bool thru_lib v Rec, get_bool thru_lib v RecOnce) = rec_flags thru_lib h)"
proof -
  let ?es = "[GCtl (CFloat 0 PreFilterFc (Fin 2)), GStart, GCtl (CBool 0 RecOnce True), GBlock [Fin 0], GCtl (CBool 0 Rec False)]"
  obtain s where s: "new_engine empty_store True 1 (Fin 48000) ''duplex'' 64 2 (- 1) (- 1) ''upstream'' = Inr s"
    by (simp add: new_engine_def new_voice_def int_args_ok_def int32_def Let_def)
  note ne = new_engine_synced [OF s]
  have "cmdq s = empty_ring"
    using s by (auto simp: new_engine_def ebind_eq_Inr Let_def split: if_splits)
  then have d: "none_dropped thru_lib ?es s"
    using short_run_fits [OF ne(1), of ?es thru_lib] by (simp add: backlog_def CAP_def del: length_queued)
  have "\<not> pass_ends thru_lib 0 ?es s"
    using no_pass_ends [OF ne(1) d, of 0] ne(2) by (simp add: thru_lib_def)
  then show ?thesis
    using s getters_match_dsp [OF s d, of 0] by (simp add: Let_def)
qed

text \<open>What a block that ends a pass does to a pending read-back: the mirrors keep the finished pass, so
  while a later \<open>rec = True\<close> waits in the queue, \<open>rec_once\<close> reads \<open>True\<close>, though the DSP object has ended
  the pass and the waiting change does not start another.\<close>

theorem finished_pass_misread:
  fixes s :: engine
  assumes "synced s" "running s" "has_room s" "i < length (voices s)"
    and "bmir (voices s ! i) RecOnce" "flags_of lib i s = (False, False)"
  defines "t \<equiv> ctl_exec (CBool i Rec True) s"
  shows "get_bool lib (voices t ! i) RecOnce \<and> flags_of lib i t = (True, False)"
proof -
  have c: "ctl_ready s"
    using assms(1) by (simp add: synced_def)
  then have wf: "ring_wf (cmdq s)" "used (cmdq s) < CAP - 1"
    using assms(2,3) by (simp_all add: ctl_ready_def queues_wf_def has_room_def)
  obtain r where r: "push (i, DBool Rec True, True) (cmdq s) = Some r"
    using ring.put_ok [OF wf(1), of "(i, DBool Rec True, True)"] wf(2) by auto
  have vt: "voices t ! i = (store_bool Rec True (voices s ! i))\<lparr>flags_pending := flags_pending (voices s ! i) + 1\<rparr>"
    using r assms(2,4) by (simp add: t_def set_bool_def post_bool_def modify_apply Let_def flag_apply_def dsp_apply_def
        queue_apply_def nth_vupd store_bool_def)
  have q: "settled s = fold vrun (queued (cmdq s)) (voices s)" "\<forall>c \<in> set (queued (cmdq s)). cmd_ok c"
    using assms(1) by (simp_all add: synced_def ctl_ready_def settled_def cmds_ok_def)
  have "flags_pending (settled s ! i) = 0"
    using assms(1,4) by (simp add: synced_def)
  then have "0 \<le> flags_pending (voices s ! i)"
    using vrun_pending [OF assms(4) q(2), of lib] q(1) by simp
  then have "get_bool lib (voices t ! i) RecOnce"
    using assms(5) by (simp add: vt get_bool_def store_bool_def)
  moreover have "synced t"
    unfolding t_def using step_synced [OF assms(1), of "GCtl (CBool i Rec True)" lib] assms(3) by (simp add: fits_def)
  then have "flags_of lib i t = rec_flags lib (dsp (settled t ! i))"
    by (rule flags_of_settled)
  moreover have "settled t ! i = ctl_voice (CBool i Rec True) (settled s ! i)"
    using ctl_exec_sim [OF c assms(3), of "CBool i Rec True"] assms(4) by (simp add: t_def nth_vupd)
  moreover have "rec_flags lib (dsp (settled s ! i)) = (False, False)"
    using assms(6) by (simp add: flags_of_settled [OF assms(1)])
  ultimately show ?thesis
    by (simp add: apply_ev_def store_bool_def)
qed

end
