(* ===== verification/Spec2Isabelle.thy ===== *)
theory Spec2Isabelle
  imports Host_Memory Surface_Props Norns_Switch Live_Getters
begin

text \<open>
  A verification library of softcut-py: Python bindings of the softcut looper engine, with a
  realtime host, a norns-compatible layer, WAV files, an OSC server and a generated control
  surface.

  \<^bold>\<open>The program.\<close> A voice wraps a DSP object of softcut-lib and mirrors its parameters. An
  engine owns voices, mixes them block by block and runs on an audio device whose callback is
  another thread: control threads reach DSP state only through two rings of commands that the
  callback drains. The Python facade allocates buffers and renders offline. The norns host adds
  two global buffers, 1-based numbering and the buffer and disk operations. The OSC server maps
  addresses to host methods, over a native or a Python transport, reports phases from a poll
  thread, and can be run as a program. The surface generator writes a TouchOSC document whose
  controls send those addresses.

  \<^bold>\<open>The theories\<close>, in the order they build on each other:

  \<^item> \<open>Softcut_Prelude\<close>: exceptions, the state-and-exception monad \<open>py\<close> (an exception keeps the state
    reached), preservation \<open>keeps\<close> with its rule collection \<open>keeps_intro\<close>, Python slices and loops.
  \<^item> \<open>Py_Float\<close>: binary32 and binary64 over exact rationals; the rounding laws are proved in the
    locale \<open>float_format\<close>, interpreted for the two formats.
  \<^item> \<open>Py_Store\<close>: the heap of sample arrays and the file system, one extensible state record.
  \<^item> \<open>Buffer_Ops\<close>: \<open>src/shared/buffer_ops.hpp\<close> and the PCM bindings of \<open>src/softcut/_core.cpp\<close>: blended
    writes, whose loop fails when it leaves an array (\<open>for_loop\<close>, \<open>Crash\<close>), de-interleaving, sample
    encodings; bounds, equivalence of the two loops, accuracy.
  \<^item> \<open>Wav_IO\<close>: \<open>src/softcut/_wavio.py\<close>, with the frame, success and round-trip properties of files.
  \<^item> \<open>Command_Queue\<close>: \<open>src/shared/command_queue.hpp\<close>, as a sequential ring refining a bounded FIFO
    (locale \<open>bounded_queue\<close>) and as two threads interleaved at their atomic accesses.
  \<^item> \<open>Voice\<close>, \<open>Engine\<close>, \<open>Engine_Audio\<close>, \<open>Engine_Host\<close>: the voice and the engine of \<open>_core.cpp\<close>, the mixer of
    \<open>src/shared/mixer.hpp\<close>, and the facade of \<open>src/softcut/__init__.py\<close>. Queued setters refine direct
    calls (\<open>settled\<close> is the abstraction), allocation gives powers of two. \<open>Live_Getters\<close>: which
    read-backs agree with the DSP in any run of voice operations and audio blocks, and which do not.
  \<^item> \<open>Live_Engine\<close>: control calls, callbacks, posts, renders and edits in any order; no DSP object ever
    points outside an array. \<open>Engine_Frame\<close>: what the engine operations leave alone.
  \<^item> \<open>Norns_Host\<close>, \<open>Norns_Buffers\<close>, \<open>Norns_Live\<close>: \<open>src/softcut/norns.py\<close>, its buffer and disk operations as
    the user sees them, and its invariant over every interleaving of host calls. \<open>Norns_Switch\<close>: an
    assigned buffer is the one the DSP object points at when the next block begins.
  \<^item> \<open>Py_Text\<close>: numbers as text, both ways. \<open>Osc_Server\<close>: \<open>src/softcut/osc.py\<close> with the dispatch and the
    phase poll of the native transport. \<open>Osc_Frame\<close>: the contract \<open>host_kept\<close> between the handlers and the
    host, with its three instances. \<open>Osc_Props\<close>, \<open>Osc_Messages\<close>, \<open>Osc_Run\<close>: the server in any sequence of
    events, single messages and the two polls, and when the blocking calls return.
    \<open>Osc_Safe\<close>: what no message can do to the server, by whichever way it comes in.
  \<^item> \<open>Touch_Layout\<close>, \<open>Touch_Props\<close>: \<open>clients/touchosc/build_layout.py\<close>, when it builds a surface, and that the
    surface and the server agree on addresses, arguments, voices and defaults.
  \<^item> \<open>Float_Bits\<close>, \<open>Osc_Wire\<close>, \<open>Wire_Props\<close>: OSC in bytes: the encoder of \<open>demos/13_osc_surface.py\<close>, and
    \<open>src/thirdparty/tinyosc/tinyosc.c\<close> as the receive loop and the phase poll of \<open>_core.cpp\<close> use it, over a
    receive buffer that keeps old bytes; round trip, bundles, and what malformed datagrams do.
  \<^item> \<open>Dsp_Resampler\<close>, \<open>Dsp_Curves\<close>, \<open>Dsp_Filter\<close>, \<open>Dsp_Heads\<close>, \<open>Dsp_Voice\<close>: the voice object of
    \<open>src/thirdparty/softcut-lib/softcut-lib\<close> sample by sample, with C++'s undefined behaviour as a
    \<open>dsp_fault\<close>. \<open>Dsp_Safe\<close>, \<open>Dsp_Replay\<close>: its memory safety over any list of calls; \<open>Dsp_View\<close>: that the
    read-backs the engine model computes from that list are what it holds; \<open>Dsp_Motion\<close>, \<open>Dsp_Unity\<close>: how
    its heads loop and what they read; \<open>Dsp_Props\<close>: the properties. \<open>Host_Memory\<close>: its memory safety
    under the host and the server, one more instance of \<open>host_kept\<close>.
  \<^item> \<open>Touch_Wire\<close>: the finger of \<open>demos/13_osc_surface.py\<close>; a touch of the surface reaches the server
    through the bytes on the wire.
  \<^item> \<open>Demo_Util\<close>, \<open>Demo_Playback\<close>, \<open>Demo_Capture\<close>: the scripts 01 to 11 of \<open>demos\<close>, from the files they read to
    the file they write. \<open>Demo_Norns\<close>: the script 12 over the norns host. \<open>Demo_Runs\<close>: rules for computations that raise nothing (\<open>gives\<close>) and for a stopped
    engine (\<open>idle\<close>). \<open>Demo_Complete\<close>, \<open>Demo_Takes\<close>, \<open>Demo_Fripp\<close>, \<open>Demo_Host\<close>: that every script runs through, and the
    drift of the float the partial replace counts with. \<open>Demo_Props\<close>: the properties.
  \<^item> \<open>Demo_Surface\<close>, \<open>Surface_Props\<close>: the script 13, a performance on the surface over a link that loses and
    delays datagrams (\<open>link\<close>, \<open>network\<close>). A receive thread that faults kills the process (\<open>Terminated\<close>), one
    that sticks makes the shutdown wait for ever (\<open>None\<close>). When a touch takes hold, that the session of
    a surface whose messages fit the receive buffer ends with the server shut down, what the script
    writes, and that \<open>--serve\<close> ends.

  \<^bold>\<open>State.\<close> The records extend each other as the objects contain each other: store, engine,
  norns host, OSC server. An operation is a function on any extension of the record it needs, so
  a host call is the same function inside the server; that it leaves the server's own fields
  alone is a lemma (\<open>host_consts\<close>), not a convention.

  \<^bold>\<open>Loops.\<close> Loops over lists are folds or \<open>for_each\<close>; the draining loop pops at most \<open>CAP\<close> commands,
  one more than a ring can hold. Integer text is parsed up to CPython's limit of 4300 digits, and
  the exponent searches of the number formatting cover every binary64 value. The loops that may run
  forever (\<open>wait_for_quit\<close>, \<open>serve_loop\<close>, \<open>bundle_loop\<close>, \<open>touch_loop\<close>, \<open>wait_while\<close>, \<open>chunk_times\<close>) are partial functions: not returning is
  \<open>None\<close>, and returning (\<open>main_quits\<close>, \<open>bundle_in_order\<close>) and not returning (\<open>bundle_hangs\<close>) are proved.

  The loops of the signal path run over a block, a table or the output of the resampler and are
  structural.

  \<^bold>\<open>Interfaces and assumptions.\<close> \<open>dsp_lib\<close> holds what the engine takes of the signal processing: a
  processed block, head positions and phases, and cos and sin. The properties that need it assume
  \<open>lib_ok\<close>: a processed block has its input's length and the buffer keeps its own; \<open>soft_lib\<close>, the
  functions of the modelled voice object, satisfies it (\<open>soft_lib_meets_contract\<close>). The functions of
  the C library are the record \<open>libm\<close>, of which only \<open>sin 0 = 0\<close> and \<open>sin (pi/2) = 1\<close> are ever assumed
  (\<open>sin_ends\<close>); memory that is read before it is written is a parameter (\<open>stack\<close>, \<open>junk\<close>). The calls of numpy
  the demos make are the record \<open>numpy\<close>, with their documented behaviour as \<open>numpy_ok\<close>. Devices, ports
  and datagrams are flags and arguments of the operations; python-osc's decoder and py2tosc's \<open>find\<close> are
  functions the OSC demo gets. Calls of py2tosc are recorded as data.

  \<^bold>\<open>Not modelled.\<close> Sockets
  (\<open>src/shared/osc_socket.hpp\<close>), the codec of python-osc, and the writers of tinyosc for the type tags
  and bundles the repository does not send; the lifetime machinery of the binding; logging and
  argument parsing; memory orders weaker than sequential consistency; the second server in C++
  under \<open>clients/softcut-osc\<close>; benchmarks and tests.
\<close>

end
